(* ===== verification/Prelude.thy ===== *)
theory Prelude
  imports Main "HOL-Library.Word" "HOL-Library.Sublist"
begin

text \<open>
  Types, notation-free abbreviations and generic lemmas that the component theories share:
  bytes and machine words, the big-endian codecs of the wire formats, the result type in
  which every \<open>throw std::runtime_error\<close> of the source is a value, and facts on lists.
\<close>

unbundle bit_operations_syntax

section \<open>Machine types\<close>

type_synonym byte = "8 word"
type_synonym bytes = "8 word list"
type_synonym u64 = "64 word"

text \<open>
  A fallible call is a value of \<open>'e + 'a\<close>: \<open>Inl e\<close> is the exception (or the error string of a
  function that returns false), \<open>Inr x\<close> the result. \<open>check\<close> is the guard
  \<open>if(!P) throw e;\<close> and \<open>andThen\<close> is the sequencing of two statements.
\<close>

type_synonym ('e, 'a) result = "'e + 'a"

definition check :: "bool \<Rightarrow> 'e \<Rightarrow> ('e, unit) result" where
  "check P e = (if P then Inr () else Inl e)"

fun andThen :: "('e, 'a) result \<Rightarrow> ('a \<Rightarrow> ('e, 'b) result) \<Rightarrow> ('e, 'b) result" where
  "andThen (Inl e) f = Inl e"
| "andThen (Inr x) f = f x"

fun ofOption :: "'e \<Rightarrow> 'a option \<Rightarrow> ('e, 'a) result" where
  "ofOption e None = Inl e"
| "ofOption e (Some x) = Inr x"

named_theorems result_iff \<open>inversion of successful and failed results\<close>

lemma check_Inr [result_iff]: "check P e = Inr u \<longleftrightarrow> P"
  by (simp add: check_def)

lemma check_Inl [result_iff]: "check P e = Inl e' \<longleftrightarrow> \<not> P \<and> e' = e"
  by (auto simp: check_def)

lemma check_simps [simp]: "check True e = Inr ()" "check False e = Inl e"
  by (simp_all add: check_def)

lemma andThen_Inr [result_iff]:
  "andThen m f = Inr y \<longleftrightarrow> (\<exists>x. m = Inr x \<and> f x = Inr y)"
  by (cases m) auto

lemma andThen_Inl [result_iff]:
  "andThen m f = Inl e \<longleftrightarrow> m = Inl e \<or> (\<exists>x. m = Inr x \<and> f x = Inl e)"
  by (cases m) auto

lemma ofOption_Inr [result_iff]: "ofOption e m = Inr x \<longleftrightarrow> m = Some x"
  by (cases m) auto

lemma ofOption_Inl [result_iff]: "ofOption e m = Inl e' \<longleftrightarrow> m = None \<and> e' = e"
  by (cases m) auto

section \<open>Big-endian codecs\<close>

text \<open>
  \<open>be16\<close> is the pair \<open>static_cast<unsigned char>(n >> 8), static_cast<unsigned char>(n)\<close> of the
  source (the casts truncate to eight bits); \<open>rd16 h l\<close> is \<open>(h << 8) | l\<close>.
\<close>

definition be16 :: "nat \<Rightarrow> bytes" where
  "be16 n = [word_of_nat (n div 256), word_of_nat n]"

definition rd16 :: "byte \<Rightarrow> byte \<Rightarrow> nat" where
  "rd16 h l = unat h * 256 + unat l"

text \<open>
  \<open>be64 v\<close> writes the bytes \<open>(v >> (56 - 8 * i)) & 0xff\<close> for \<open>i = 0..7\<close>; \<open>rd64\<close> is the loop
  \<open>for (auto x : b) v = (v << 8) | x\<close>.
\<close>

definition be64 :: "u64 \<Rightarrow> bytes" where
  "be64 v = map (\<lambda>i. ucast (drop_bit (56 - 8 * i) v)) [0..<8]"

definition rd64 :: "bytes \<Rightarrow> u64" where
  "rd64 bs = foldl (\<lambda>v x. push_bit 8 v OR ucast x) 0 bs"

lemma byte_less [simp]: "unat (b :: byte) < 256"
  using unsigned_less [of b] by simp

lemma length_be16 [simp]: "length (be16 n) = 2"
  by (simp add: be16_def)

lemma length_be64 [simp]: "length (be64 v) = 8"
  by (simp add: be64_def)

lemma rd16_be16: "n < 65536 \<Longrightarrow> rd16 (word_of_nat (n div 256)) (word_of_nat n) = n"
  by (simp add: rd16_def unat_of_nat)

lemma rd16_bound: "rd16 h l < 65536"
proof -
  have "unat h < 256" "unat l < 256" by simp_all
  then show ?thesis unfolding rd16_def by linarith
qed

lemma be16_rd16: "be16 (rd16 h l) = [h, l]"
proof -
  have l: "unat l < 256" by simp
  have "(256 :: byte) = 0" by simp
  then have "h * 256 = 0" by (metis mult_zero_right)
  then have "word_of_nat (unat h * 256 + unat l) = (l :: byte)" by simp
  with l show ?thesis by (simp add: be16_def rd16_def)
qed

lemma rd64_snoc: "rd64 (bs @ [x]) = push_bit 8 (rd64 bs) OR ucast x"
  by (simp add: rd64_def)

lemma join_low_byte: "push_bit 8 (drop_bit 8 w) OR ucast (ucast w :: byte) = (w :: u64)"
  by (rule bit_word_eqI) (auto simp: bit_simps)

lemma rd64_prefix:
  "k \<le> 8 \<Longrightarrow> rd64 (map (\<lambda>i. ucast (drop_bit (56 - 8 * i) v)) [0..<k]) = drop_bit (64 - 8 * k) v"
proof (induction k)
  case 0
  show ?case by (simp add: rd64_def)
next
  case (Suc k)
  let ?w = "drop_bit (56 - 8 * k) v"
  from Suc.prems have "drop_bit (64 - 8 * k) v = drop_bit 8 ?w"
    by (simp only: drop_bit_drop_bit) (rule arg_cong [where f = "\<lambda>n. drop_bit n v"], arith)
  moreover from Suc have "rd64 (map (\<lambda>i. ucast (drop_bit (56 - 8 * i) v)) [0..<k]) = drop_bit (64 - 8 * k) v"
    by simp
  moreover have "64 - 8 * Suc k = 56 - 8 * k" by arith
  ultimately show ?case
    by (simp only: upt_Suc_append map_append list.map rd64_snoc join_low_byte le0)
qed

lemma rd64_be64 [simp]: "rd64 (be64 v) = v"
  using rd64_prefix [of 8 v] by (simp add: be64_def)

lemma bit_rd64:
  "bit (rd64 bs) n \<longleftrightarrow> n < 64 \<and> n div 8 < length bs \<and> bit (bs ! (length bs - 1 - n div 8)) (n mod 8)"
proof (induction bs arbitrary: n rule: rev_induct)
  case Nil
  show ?case by (simp add: rd64_def)
next
  case (snoc x bs)
  show ?case
  proof (cases "n < 8")
    case True
    then show ?thesis by (simp add: rd64_snoc bit_simps nth_append)
  next
    case False
    then obtain m where m: "n = m + 8" by (metis add.commute le_add_diff_inverse not_less)
    have "\<not> bit (ucast x :: u64) n" using False by (auto simp: bit_simps dest: bit_imp_le_length)
    then have "bit (rd64 (bs @ [x])) n \<longleftrightarrow> n < 64 \<and> bit (rd64 bs) m"
      using m by (auto simp: rd64_snoc bit_simps)
    moreover have "n div 8 = Suc (m div 8)" "n mod 8 = m mod 8" using m by simp_all
    ultimately show ?thesis
      using m by (auto simp: snoc.IH nth_append)
  qed
qed

lemma be64_rd64:
  assumes "length bs = 8"
  shows "be64 (rd64 bs) = bs"
proof -
  have "ucast (drop_bit (56 - 8 * i) (rd64 bs)) = bs ! i" if "i < 8" for i
  proof (rule bit_word_eqI)
    fix n assume n: "n < LENGTH(8)"
    have "56 - 8 * i + n = 8 * (7 - i) + n" "56 - 8 * i + n < 64" "7 - i < 8" using that n by simp_all
    then have "(56 - 8 * i + n) div 8 = 7 - i" "(56 - 8 * i + n) mod 8 = n" using n by simp_all
    moreover note \<open>56 - 8 * i + n < 64\<close> \<open>7 - i < 8\<close>
    ultimately show "bit (ucast (drop_bit (56 - 8 * i) (rd64 bs)) :: byte) n = bit (bs ! i) n"
      using n that assms by (simp add: bit_simps bit_rd64)
  qed
  then show ?thesis
    by (intro nth_equalityI) (use assms in \<open>auto simp: be64_def\<close>)
qed

section \<open>Prefixes of a concatenation\<close>

text \<open>A prefix of joined messages is some whole messages and a part of the next one.\<close>

lemma prefix_of_concat:
  "prefix p (concat rs) \<Longrightarrow>
   \<exists>k tail. k \<le> length rs \<and> p = concat (take k rs) @ tail \<and>
     (tail = [] \<or> (k < length rs \<and> strict_prefix tail (rs ! k)))"
proof (induction rs arbitrary: p)
  case Nil
  then show ?case by simp
next
  case (Cons r rs)
  consider "strict_prefix p r" | p' where "p = r @ p'" "prefix p' (concat rs)"
    using Cons.prems unfolding concat.simps
    by (metis append_Nil2 Nil_prefix prefix_append strict_prefixI)
  then show ?case
  proof cases
    case 1
    then show ?thesis by (intro exI [of _ 0] exI [of _ p]) simp
  next
    case 2
    with Cons.IH obtain k tail where "k \<le> length rs" "p' = concat (take k rs) @ tail"
      "tail = [] \<or> (k < length rs \<and> strict_prefix tail (rs ! k))" by blast
    with 2 show ?thesis by (intro exI [of _ "Suc k"] exI [of _ tail]) simp
  qed
qed

section \<open>Decimal numbers\<close>

text \<open>\<open>std::to_string\<close> of an unsigned number.\<close>

fun dec :: "nat \<Rightarrow> string" where
  "dec n = (if n < 10 then [char_of (48 + n)] else dec (n div 10) @ [char_of (48 + n mod 10)])"

declare dec.simps [simp del]

end
