(* ===== verification/RoundRobin.thy ===== *)
theory RoundRobin
  imports Prelude "HOL-Library.Multiset"
begin

text \<open>
  The scheduling turn that \<open>schedule_packet_batch\<close> and \<open>FlowQueue::pop\<close> of
  \<open>src/cdn/include/pacetun/flow_scheduler.hpp\<close> share: two cursors go round the flows, one over
  the interactive flows and one over the bulk flows, and an interactive flow is preferred
  until two interactive packets have gone out in a row.
\<close>

section \<open>Flows\<close>

text \<open>
  Both \<open>struct Flow\<close> of the source: a key, a deque and the class of the flow, with the deque
  of indices or of packets.
\<close>

record ('k, 'a) flow =
  fl_key :: 'k
  fl_items :: "'a list"
  fl_interactive :: bool

record ('k, 'a) rr =
  rr_flows :: "('k, 'a) flow list"
  rr_icursor :: nat
  rr_bcursor :: nat
  rr_turns :: nat

text \<open>\<open>take(interactive, cursor)\<close>: the first non-empty flow of the class at or after the cursor.\<close>

definition rr_take :: "bool \<Rightarrow> nat \<Rightarrow> ('k, 'a) flow list \<Rightarrow> nat option" where
  "rr_take b cursor flows =
     find (\<lambda>i. fl_interactive (flows ! i) = b \<and> fl_items (flows ! i) \<noteq> [])
       (map (\<lambda>visited. (cursor + visited) mod length flows) [0..<length flows])"

definition rr_choose_bulk :: "('k, 'a, 'z) rr_scheme \<Rightarrow> (nat \<times> ('k, 'a, 'z) rr_scheme) option" where
  "rr_choose_bulk q =
     (let n = length (rr_flows q) in
      case rr_take False (rr_bcursor q) (rr_flows q) of
        Some i \<Rightarrow> Some (i, q\<lparr>rr_bcursor := (i + 1) mod n, rr_turns := 0\<rparr>)
      | None \<Rightarrow>
          (case rr_take True (rr_icursor q) (rr_flows q) of
             Some i \<Rightarrow> Some (i, q\<lparr>rr_icursor := (i + 1) mod n, rr_turns := 1\<rparr>)
           | None \<Rightarrow> None))"

definition rr_choose :: "('k, 'a, 'z) rr_scheme \<Rightarrow> (nat \<times> ('k, 'a, 'z) rr_scheme) option" where
  "rr_choose q =
     (if rr_turns q < 2 then
        (case rr_take True (rr_icursor q) (rr_flows q) of
           Some i \<Rightarrow> Some (i, q\<lparr>rr_icursor := (i + 1) mod length (rr_flows q), rr_turns := rr_turns q + 1\<rparr>)
         | None \<Rightarrow> rr_choose_bulk q)
      else rr_choose_bulk q)"

definition pop_flow :: "('k, 'a) flow \<Rightarrow> ('k, 'a) flow" where
  "pop_flow f = f\<lparr>fl_items := tl (fl_items f)\<rparr>"

text \<open>The turn: the class and the item taken out, and the state after it.\<close>

definition rr_pop :: "('k, 'a, 'z) rr_scheme \<Rightarrow> (bool \<times> 'a \<times> ('k, 'a, 'z) rr_scheme) option" where
  "rr_pop q =
     (case rr_choose q of
        None \<Rightarrow> None
      | Some (i, q') \<Rightarrow>
          let f = rr_flows q ! i in
          Some (fl_interactive f, hd (fl_items f), q'\<lparr>rr_flows := (rr_flows q)[i := pop_flow f]\<rparr>))"

text \<open>The items of a class that wait, and the items under a key in their order.\<close>

definition waits :: "bool \<Rightarrow> ('k, 'a) flow list \<Rightarrow> bool" where
  "waits b flows \<longleftrightarrow> (\<exists>f \<in> set flows. fl_interactive f = b \<and> fl_items f \<noteq> [])"

definition held :: "('k, 'a) flow list \<Rightarrow> 'k \<Rightarrow> 'a list" where
  "held flows k = concat (map fl_items (filter (\<lambda>f. fl_key f = k) flows))"

definition held_all :: "('k, 'a) flow list \<Rightarrow> 'a list" where
  "held_all flows = concat (map fl_items flows)"

section \<open>The search\<close>

lemma residues_cover: "i < n \<Longrightarrow> i \<in> (\<lambda>v. (c + v) mod n) ` {0..<n::nat}"
proof
  assume i: "i < n"
  show "i = (c + (i + (n - c mod n)) mod n) mod n"
  proof -
    have c: "c mod n < n" using i by simp
    have "(c + (i + (n - c mod n)) mod n) mod n = (c mod n + (i + (n - c mod n))) mod n"
      by (simp add: mod_simps)
    also have "c mod n + (i + (n - c mod n)) = i + n" using c by simp
    finally show ?thesis using i by simp
  qed
  show "(i + (n - c mod n)) mod n \<in> {0..<n}" using i by simp
qed

lemma residue_less [simp]: "v < n \<Longrightarrow> (c + v) mod n < (n::nat)"
  by (rule mod_less_divisor) simp

lemma rr_take_Some:
  assumes "rr_take b c flows = Some i"
  shows "i < length flows" "fl_interactive (flows ! i) = b" "fl_items (flows ! i) \<noteq> []"
proof -
  from assms have "i \<in> set (map (\<lambda>v. (c + v) mod length flows) [0..<length flows])"
    and p: "fl_interactive (flows ! i) = b \<and> fl_items (flows ! i) \<noteq> []"
    by (auto simp: rr_take_def find_Some_iff in_set_conv_nth)
  then show "i < length flows" by auto
  from p show "fl_interactive (flows ! i) = b" "fl_items (flows ! i) \<noteq> []" by simp_all
qed

lemma rr_take_None: "rr_take b c flows = None \<longleftrightarrow> \<not> waits b flows"
proof -
  have "set (map (\<lambda>v. (c + v) mod length flows) [0..<length flows]) = {0..<length flows}"
    using residues_cover [of _ "length flows" c] by auto
  then have "rr_take b c flows = None \<longleftrightarrow>
      \<not> (\<exists>i < length flows. fl_interactive (flows ! i) = b \<and> fl_items (flows ! i) \<noteq> [])"
    unfolding rr_take_def find_None_iff by auto
  then show ?thesis unfolding waits_def set_conv_nth by blast
qed

text \<open>What a turn does: it serves a non-empty flow, and it serves bulk when the turns are used up.\<close>

lemma rr_choose_Some:
  assumes "rr_choose q = Some (i, q')"
  shows "i < length (rr_flows q) \<and> fl_items (rr_flows q ! i) \<noteq> [] \<and> rr_flows q' = rr_flows q \<and>
    rr.more q' = rr.more q"
  using assms
  by (auto simp: rr_choose_def rr_choose_bulk_def Let_def rr_take_Some split: if_splits option.splits)

lemma rr_choose_class:
  assumes "rr_choose q = Some (i, q')"
  shows "if fl_interactive (rr_flows q ! i)
    then (rr_turns q < 2 \<and> rr_turns q' = rr_turns q + 1) \<or> (\<not> waits False (rr_flows q) \<and> rr_turns q' = 1)
    else rr_turns q' = 0 \<and> (rr_turns q < 2 \<longrightarrow> \<not> waits True (rr_flows q))"
  using assms
  by (auto simp: rr_choose_def rr_choose_bulk_def Let_def rr_take_Some rr_take_None
      split: if_splits option.splits)

lemma rr_choose_None: "rr_choose q = None \<longleftrightarrow> held_all (rr_flows q) = []"
proof -
  have "rr_choose q = None \<longleftrightarrow> \<not> waits True (rr_flows q) \<and> \<not> waits False (rr_flows q)"
    using rr_take_None [of True "rr_icursor q" "rr_flows q"] rr_take_None [of False "rr_bcursor q" "rr_flows q"]
    by (auto simp: rr_choose_def rr_choose_bulk_def Let_def split: option.splits)
  also have "\<dots> \<longleftrightarrow> held_all (rr_flows q) = []"
    by (auto simp: waits_def held_all_def)
  finally show ?thesis .
qed


section \<open>What is held\<close>

lemma held_append [simp]: "held (fs @ gs) k = held fs k @ held gs k"
  by (simp add: held_def)

lemma held_Cons: "held (f # fs) k = (if fl_key f = k then fl_items f else []) @ held fs k"
  by (simp add: held_def)

lemma held_Nil [simp]: "held [] k = []"
  by (simp add: held_def)

lemma held_other: "k \<notin> fl_key ` set fs \<Longrightarrow> held fs k = []"
  by (induction fs) (auto simp: held_Cons)

lemma held_update:
  assumes "distinct (map fl_key fs)" "i < length fs" "fl_key f = fl_key (fs ! i)"
  shows "held (fs[i := f]) k = (if k = fl_key f then fl_items f else held fs k)"
  using assms
proof (induction fs arbitrary: i)
  case (Cons g gs)
  show ?case
  proof (cases i)
    case 0
    with Cons.prems have "fl_key f \<notin> fl_key ` set gs" by simp
    with 0 Cons.prems show ?thesis by (auto simp: held_Cons held_other)
  next
    case (Suc j)
    with Cons.prems have "fl_key g \<noteq> fl_key f" by (auto dest: nth_mem)
    with Suc Cons show ?thesis by (auto simp: held_Cons)
  qed
qed simp

lemma held_nth:
  assumes "distinct (map fl_key fs)" "i < length fs"
  shows "held fs (fl_key (fs ! i)) = fl_items (fs ! i)"
  using held_update [OF assms refl, of "fl_key (fs ! i)"] by simp

lemma held_nonempty: "held (filter (\<lambda>f. fl_items f \<noteq> []) fs) = held fs"
  by (rule ext) (induction fs, auto simp: held_Cons)

lemma map_key_update [simp]: "i < length fs \<Longrightarrow> fl_key f = fl_key (fs ! i) \<Longrightarrow> map fl_key (fs[i := f]) = map fl_key fs"
  by (simp add: map_update) (metis length_map list_update_id nth_map)

lemma pop_flow_simps [simp]:
  "fl_key (pop_flow f) = fl_key f" "fl_interactive (pop_flow f) = fl_interactive f"
  "fl_items (pop_flow f) = tl (fl_items f)"
  by (simp_all add: pop_flow_def)

text \<open>\<open>find_if\<close> by key, then \<open>push_back\<close>: to the flow found, or to a new flow of the given class.\<close>

fun index_of :: "('a \<Rightarrow> bool) \<Rightarrow> 'a list \<Rightarrow> nat option" where
  "index_of P [] = None"
| "index_of P (x # xs) = (if P x then Some 0 else map_option Suc (index_of P xs))"

definition rr_add :: "('k \<Rightarrow> 'k \<Rightarrow> bool) \<Rightarrow> 'k \<Rightarrow> bool \<Rightarrow> 'a \<Rightarrow> ('k, 'a) flow list \<Rightarrow> ('k, 'a) flow list" where
  "rr_add eq k b x fs =
     (case index_of (\<lambda>f. eq (fl_key f) k) fs of
        None \<Rightarrow> fs @ [\<lparr>fl_key = k, fl_items = [x], fl_interactive = b\<rparr>]
      | Some i \<Rightarrow> fs[i := (fs ! i)\<lparr>fl_items := fl_items (fs ! i) @ [x]\<rparr>])"

lemma index_of_None: "index_of P xs = None \<longleftrightarrow> (\<forall>x \<in> set xs. \<not> P x)"
  by (induction xs) auto

lemma index_of_Some: "index_of P xs = Some i \<Longrightarrow> i < length xs \<and> P (xs ! i)"
  by (induction xs arbitrary: i) (auto split: if_splits)

lemma rr_add_cases:
  assumes "\<forall>f \<in> set fs. eq (fl_key f) k \<longleftrightarrow> fl_key f = k"
  obtains "k \<notin> fl_key ` set fs"
      "rr_add eq k b x fs = fs @ [\<lparr>fl_key = k, fl_items = [x], fl_interactive = b\<rparr>]"
  | i where "i < length fs" "fl_key (fs ! i) = k"
      "rr_add eq k b x fs = fs[i := (fs ! i)\<lparr>fl_items := fl_items (fs ! i) @ [x]\<rparr>]"
proof (cases "index_of (\<lambda>f. eq (fl_key f) k) fs")
  case None
  then have "k \<notin> fl_key ` set fs" using assms by (auto simp: index_of_None)
  with None that(1) show ?thesis by (simp add: rr_add_def)
next
  case (Some i)
  then have "i < length fs" "fl_key (fs ! i) = k" using assms by (auto dest!: index_of_Some)
  with Some that(2) show ?thesis by (simp add: rr_add_def)
qed

lemma rr_add_held:
  assumes "\<forall>f \<in> set fs. eq (fl_key f) k \<longleftrightarrow> fl_key f = k" "distinct (map fl_key fs)"
  shows "held (rr_add eq k b x fs) k' = (if k' = k then held fs k @ [x] else held fs k')"
proof (rule rr_add_cases [where fs = fs and eq = eq and k = k and b = b and x = x, OF assms(1)])
  assume "k \<notin> fl_key ` set fs" "rr_add eq k b x fs = fs @ [\<lparr>fl_key = k, fl_items = [x], fl_interactive = b\<rparr>]"
  then show ?thesis by (auto simp: held_Cons)
next
  fix i assume "i < length fs" "fl_key (fs ! i) = k"
    "rr_add eq k b x fs = fs[i := (fs ! i)\<lparr>fl_items := fl_items (fs ! i) @ [x]\<rparr>]"
  then show ?thesis
    using held_update [OF assms(2), of i "(fs ! i)\<lparr>fl_items := fl_items (fs ! i) @ [x]\<rparr>" k']
      held_nth [OF assms(2), of i] by simp
qed

lemma rr_add_keys:
  assumes "\<forall>f \<in> set fs. eq (fl_key f) k \<longleftrightarrow> fl_key f = k" "distinct (map fl_key fs)"
  shows "distinct (map fl_key (rr_add eq k b x fs))"
    "fl_key ` set (rr_add eq k b x fs) = insert k (fl_key ` set fs)"
    "length (rr_add eq k b x fs) \<le> length fs + 1"
proof -
  have "distinct (map fl_key (rr_add eq k b x fs)) \<and>
    set (map fl_key (rr_add eq k b x fs)) = insert k (set (map fl_key fs)) \<and>
    length (rr_add eq k b x fs) \<le> length fs + 1"
  proof (rule rr_add_cases [where fs = fs and eq = eq and k = k and b = b and x = x, OF assms(1)])
    assume "k \<notin> fl_key ` set fs" "rr_add eq k b x fs = fs @ [\<lparr>fl_key = k, fl_items = [x], fl_interactive = b\<rparr>]"
    then show ?thesis using assms(2) by auto
  next
    fix i assume i: "i < length fs" "fl_key (fs ! i) = k"
      "rr_add eq k b x fs = fs[i := (fs ! i)\<lparr>fl_items := fl_items (fs ! i) @ [x]\<rparr>]"
    then have "k \<in> fl_key ` set fs" by auto
    with i show ?thesis using assms(2) by (auto simp: map_key_update simp del: map_update)
  qed
  then show "distinct (map fl_key (rr_add eq k b x fs))"
    "fl_key ` set (rr_add eq k b x fs) = insert k (fl_key ` set fs)"
    "length (rr_add eq k b x fs) \<le> length fs + 1" by auto
qed

lemma rr_pop_Some:
  assumes "rr_pop q = Some (b, x, q')" "distinct (map fl_key (rr_flows q))"
  shows "\<exists>k. held (rr_flows q) k = x # held (rr_flows q') k \<and>
      (\<forall>k'. k' \<noteq> k \<longrightarrow> held (rr_flows q') k' = held (rr_flows q) k') \<and>
      map fl_key (rr_flows q') = map fl_key (rr_flows q) \<and>
      map fl_interactive (rr_flows q') = map fl_interactive (rr_flows q) \<and> rr.more q' = rr.more q \<and>
      (\<exists>f \<in> set (rr_flows q). fl_key f = k \<and> fl_interactive f = b)"
proof -
  from assms(1) obtain i q1 where c: "rr_choose q = Some (i, q1)"
    and q': "b = fl_interactive (rr_flows q ! i)" "x = hd (fl_items (rr_flows q ! i))"
      "q' = q1\<lparr>rr_flows := (rr_flows q)[i := pop_flow (rr_flows q ! i)]\<rparr>"
    by (auto simp: rr_pop_def Let_def split: option.splits)
  note i = rr_choose_Some [OF c]
  let ?f = "rr_flows q ! i"
  have h: "held (rr_flows q') k = (if k = fl_key ?f then tl (fl_items ?f) else held (rr_flows q) k)" for k
    using held_update [OF assms(2), of i "pop_flow ?f"] i q' by simp
  have "held (rr_flows q) (fl_key ?f) = fl_items ?f" using held_nth [OF assms(2)] i by simp
  moreover have "fl_items ?f = x # tl (fl_items ?f)" using i q' by simp
  moreover have "map fl_interactive (rr_flows q') = map fl_interactive (rr_flows q)"
    using q' by (simp add: map_update) (metis i length_map list_update_id nth_map)
  ultimately show ?thesis
    using h i q' by (intro exI [of _ "fl_key ?f"]) auto
qed

section \<open>Accounting and draining\<close>

lemma held_all_update:
  "i < length fs \<Longrightarrow>
   mset (held_all (fs[i := f])) + mset (fl_items (fs ! i)) = mset (held_all fs) + mset (fl_items f)"
proof (induction fs arbitrary: i)
  case (Cons g gs)
  then show ?case by (cases i) (auto simp: held_all_def add_ac)
qed (simp add: held_all_def)

lemma held_all_append [simp]: "held_all (fs @ gs) = held_all fs @ held_all gs"
  by (simp add: held_all_def)

lemma held_subset: "set (held fs k) \<subseteq> set (held_all fs)"
  by (auto simp: held_def held_all_def)

lemma held_all_nonempty: "held_all (filter (\<lambda>f. fl_items f \<noteq> []) fs) = held_all fs"
  by (induction fs) (auto simp: held_all_def)

lemma rr_add_held_all:
  assumes "\<forall>f \<in> set fs. eq (fl_key f) k \<longleftrightarrow> fl_key f = k"
  shows "mset (held_all (rr_add eq k b x fs)) = add_mset x (mset (held_all fs))"
proof (rule rr_add_cases [where fs = fs and eq = eq and k = k and b = b and x = x, OF assms])
  fix i assume "i < length fs"
    "rr_add eq k b x fs = fs[i := (fs ! i)\<lparr>fl_items := fl_items (fs ! i) @ [x]\<rparr>]"
  then show ?thesis using held_all_update [of i fs "(fs ! i)\<lparr>fl_items := fl_items (fs ! i) @ [x]\<rparr>"] by simp
qed (simp add: held_all_def)

lemma rr_pop_held_all:
  assumes "rr_pop q = Some (b, x, q')"
  shows "mset (held_all (rr_flows q)) = add_mset x (mset (held_all (rr_flows q')))"
proof -
  from assms obtain i q1 where c: "rr_choose q = Some (i, q1)"
    and q': "x = hd (fl_items (rr_flows q ! i))" "rr_flows q' = (rr_flows q)[i := pop_flow (rr_flows q ! i)]"
    by (auto simp: rr_pop_def Let_def split: option.splits)
  note i = rr_choose_Some [OF c]
  then have "mset (fl_items (rr_flows q ! i)) = add_mset x (mset (fl_items (pop_flow (rr_flows q ! i))))"
    using q'(1) by (cases "fl_items (rr_flows q ! i)") simp_all
  with held_all_update [of i "rr_flows q" "pop_flow (rr_flows q ! i)"] i q'(2) show ?thesis by simp
qed

lemma rr_pop_length:
  assumes "rr_pop q = Some (b, x, q')"
  shows "length (held_all (rr_flows q)) = Suc (length (held_all (rr_flows q')))"
  using arg_cong [OF rr_pop_held_all [OF assms], of size] by simp

lemma rr_pop_None: "rr_pop q = None \<longleftrightarrow> held_all (rr_flows q) = []"
  by (auto simp: rr_pop_def Let_def rr_choose_None [symmetric] split: option.splits)

text \<open>All turns until nothing is left, with the class of each.\<close>

function rr_drain :: "('k, 'a, 'z) rr_scheme \<Rightarrow> (bool \<times> 'a) list" where
  "rr_drain q = (case rr_pop q of None \<Rightarrow> [] | Some (b, x, q') \<Rightarrow> (b, x) # rr_drain q')"
  by pat_completeness auto
termination
  by (relation "measure (\<lambda>q. length (held_all (rr_flows q)))") (auto dest: rr_pop_length)

declare rr_drain.simps [simp del]

lemma rr_drain_induct [case_names empty pop]:
  assumes "\<And>q. rr_pop q = None \<Longrightarrow> P q"
    and "\<And>q b x q'. rr_pop q = Some (b, x, q') \<Longrightarrow> P q' \<Longrightarrow> P q"
  shows "P (q :: ('k, 'a, 'z) rr_scheme)"
proof (induction "length (held_all (rr_flows q))" arbitrary: q rule: less_induct)
  case less
  show ?case
  proof (cases "rr_pop q")
    case None
    then show ?thesis by (rule assms(1))
  next
    case (Some r)
    then obtain b x q' where "rr_pop q = Some (b, x, q')" by (cases r) auto
    with less assms(2) rr_pop_length show ?thesis by (metis lessI)
  qed
qed

lemma rr_drain_unfold [simp]:
  "rr_pop q = None \<Longrightarrow> rr_drain q = []"
  "rr_pop q = Some (b, x, q') \<Longrightarrow> rr_drain q = (b, x) # rr_drain q'"
  by (simp_all add: rr_drain.simps [of q])

lemma rr_drain_mset: "mset (map snd (rr_drain q)) = mset (held_all (rr_flows q))"
  by (induction q rule: rr_drain_induct) (auto simp: rr_pop_None rr_pop_held_all)

text \<open>The order under each key is kept.\<close>

lemma rr_drain_fifo:
  assumes "distinct (map fl_key (rr_flows q))" "\<And>k. \<forall>x \<in> set (held (rr_flows q) k). key x = k"
  shows "filter (\<lambda>x. key x = k) (map snd (rr_drain q)) = held (rr_flows q) k"
  using assms
proof (induction q rule: rr_drain_induct)
  case (empty q)
  then show ?case using held_subset [of "rr_flows q" k] by (simp add: rr_pop_None)
next
  case (pop q b x q')
  then obtain k0 where k0: "held (rr_flows q) k0 = x # held (rr_flows q') k0"
    "\<And>k'. k' \<noteq> k0 \<Longrightarrow> held (rr_flows q') k' = held (rr_flows q) k'"
    "map fl_key (rr_flows q') = map fl_key (rr_flows q)"
    using rr_pop_Some [OF pop(1)] by blast
  have sub: "set (held (rr_flows q') k) \<subseteq> set (held (rr_flows q) k)" for k
    using k0 by (cases "k = k0") auto
  have "filter (\<lambda>x. key x = k) (map snd (rr_drain q')) = held (rr_flows q') k"
    using pop.prems k0(3) sub by (intro pop.IH) (auto dest: subsetD)
  moreover have "key x = k0" using pop.prems(2) [of k0] k0(1) by simp
  ultimately show ?case using pop(1) k0 by (cases "k = k0") auto
qed

text \<open>
  The fairness of a service sequence (the classes, interactive is true) begun with \<open>t\<close>
  interactive turns used: a third interactive turn in a row is taken only when no bulk item
  is left, and a bulk turn that was not forced only when no interactive item is left.
\<close>

fun fair_from :: "nat \<Rightarrow> bool list \<Rightarrow> bool" where
  "fair_from t [] = True"
| "fair_from t (b # bs) =
     (if b then (t < 2 \<and> fair_from (t + 1) bs) \<or> (\<forall>c \<in> set bs. c)
      else (t < 2 \<longrightarrow> (\<forall>c \<in> set bs. \<not> c)) \<and> fair_from 0 bs)"

lemma fair_three: "fair_from t (xs @ True # True # True # ys) \<Longrightarrow> \<forall>c \<in> set ys. c"
  by (induction xs arbitrary: t) (auto split: if_splits)

lemma fair_two: "fair_from t (xs @ False # False # ys) \<Longrightarrow> \<forall>c \<in> set ys. \<not> c"
  by (induction xs arbitrary: t) (auto split: if_splits)

lemma rr_pop_class:
  assumes "rr_pop q = Some (b, x, q')"
  shows "if b then (rr_turns q < 2 \<and> rr_turns q' = rr_turns q + 1) \<or> (\<not> waits False (rr_flows q) \<and> rr_turns q' = 1)
    else rr_turns q' = 0 \<and> (rr_turns q < 2 \<longrightarrow> \<not> waits True (rr_flows q))"
  using assms rr_choose_class [of q] by (auto simp: rr_pop_def Let_def split: option.splits)

lemma rr_pop_waits:
  assumes "rr_pop q = Some (b, x, q')"
  shows "waits b (rr_flows q)" "waits c (rr_flows q') \<Longrightarrow> waits c (rr_flows q)"
proof -
  from assms obtain i q1 where c: "rr_choose q = Some (i, q1)"
    and q': "b = fl_interactive (rr_flows q ! i)" "rr_flows q' = (rr_flows q)[i := pop_flow (rr_flows q ! i)]"
    by (auto simp: rr_pop_def Let_def split: option.splits)
  note i = rr_choose_Some [OF c]
  then have f: "rr_flows q ! i \<in> set (rr_flows q)" by simp
  with i q'(1) show "waits b (rr_flows q)" by (auto simp: waits_def)
  assume "waits c (rr_flows q')"
  then obtain g where g: "g \<in> set (rr_flows q')" "fl_interactive g = c" "fl_items g \<noteq> []"
    by (auto simp: waits_def)
  then have "g = pop_flow (rr_flows q ! i) \<or> g \<in> set (rr_flows q)"
    using set_update_subset_insert [of "rr_flows q" i "pop_flow (rr_flows q ! i)"] q'(2) by auto
  with f g show "waits c (rr_flows q)" by (auto simp: waits_def)
qed

lemma rr_drain_class:
  "\<not> waits c (rr_flows q) \<Longrightarrow> b \<in> fst ` set (rr_drain q) \<Longrightarrow> b \<noteq> c"
proof (induction q rule: rr_drain_induct)
  case (pop q b' x q')
  then show ?case using rr_pop_waits [OF pop(1)] by auto
qed simp

lemma rr_drain_fair: "fair_from (rr_turns q) (map fst (rr_drain q))"
proof (induction q rule: rr_drain_induct)
  case (pop q b x q')
  have no: "\<not> waits c (rr_flows q) \<Longrightarrow> \<forall>d \<in> set (map fst (rr_drain q')). d \<noteq> c" for c
    using rr_drain_class [of c q'] rr_pop_waits(2) [OF pop(1), of c] by auto
  show ?case
    using pop rr_pop_class [OF pop(1)] no [of True] no [of False] by (auto split: if_splits)
qed simp

end
