(* ===== verification/Flow.thy ===== *)
theory Flow
  imports RoundRobin
begin

text \<open>
  Flow classification and the burst scheduler of \<open>src/cdn/include/pacetun/flow_scheduler.hpp\<close>:
  \<open>packet_flow\<close> reads the flow key out of an IP packet, \<open>schedule_packet_batch\<close> orders one
  burst before it is encrypted.
\<close>

section \<open>The flow key\<close>

record pflow =
  pf_bytes :: bytes
  pf_length :: nat

text \<open>\<open>operator==\<close> compares the lengths and that many bytes of the 38-byte arrays.\<close>

definition flow_eq :: "pflow \<Rightarrow> pflow \<Rightarrow> bool" where
  "flow_eq a b \<longleftrightarrow> pf_length a = pf_length b \<and>
     take (pf_length a) (pf_bytes a) = take (pf_length a) (pf_bytes b)"

definition no_flow :: pflow where
  "no_flow = \<lparr>pf_bytes = replicate 38 0, pf_length = 0\<rparr>"

definition copy_at :: "nat \<Rightarrow> bytes \<Rightarrow> bytes \<Rightarrow> bytes" where
  "copy_at k xs dst = take k dst @ xs @ drop (k + length xs) dst"

text \<open>The ports, when \<open>ports\<close> is not zero: four bytes after the addresses.\<close>

definition add_ports :: "nat \<Rightarrow> bytes \<Rightarrow> pflow \<Rightarrow> pflow" where
  "add_ports ports p r =
     (if ports \<noteq> 0
      then \<lparr>pf_bytes = copy_at (pf_length r) (take 4 (drop ports p)) (pf_bytes r), pf_length = pf_length r + 4\<rparr>
      else r)"

definition packet_flow :: "bytes \<Rightarrow> pflow" where
  "packet_flow p =
     (if p = [] then no_flow
      else let version = unat (p ! 0) div 16 in
      if version = 4 \<and> 20 \<le> length p then
        (let ihl = unat (p ! 0) mod 16 * 4; total = rd16 (p ! 2) (p ! 3) in
         if ihl < 20 \<or> total < ihl \<or> length p < ihl \<or> length p < total then no_flow
         else
           let bytes = copy_at 2 (take 8 (drop 12 p)) ((replicate 38 0)[0 := 4, 1 := p ! 9]);
               fragmented = (p ! 6 AND 0x3f \<noteq> 0 \<or> p ! 7 \<noteq> 0);
               ports = (if \<not> fragmented \<and> (p ! 9 = 6 \<or> p ! 9 = 17) \<and> total \<ge> ihl + 4 then ihl else 0)
           in add_ports ports p \<lparr>pf_bytes = bytes, pf_length = 10\<rparr>)
      else if version = 6 \<and> 40 \<le> length p then
        (let bytes = copy_at 2 (take 32 (drop 8 p)) ((replicate 38 0)[0 := 6, 1 := p ! 6]);
             ports = (if (p ! 6 = 6 \<or> p ! 6 = 17) \<and> 44 \<le> length p then 40 else 0)
         in add_ports ports p \<lparr>pf_bytes = bytes, pf_length = 34\<rparr>)
      else no_flow)"

text \<open>
  What the key stands for: nothing for a packet that is no complete IP packet, else the version,
  the protocol, the two addresses and, for an unfragmented TCP or UDP packet, the two ports.
\<close>

datatype flow_id =
    NoFlow
  | IpFlow (version: nat) (proto: byte) (addresses: bytes) (ports: "bytes option")

definition flow_id :: "bytes \<Rightarrow> flow_id" where
  "flow_id p =
     (let v = unat (hd p) div 16; ihl = unat (hd p) mod 16 * 4; total = rd16 (p ! 2) (p ! 3) in
      if p \<noteq> [] \<and> v = 4 \<and> 20 \<le> length p \<and> 20 \<le> ihl \<and> ihl \<le> total \<and> total \<le> length p then
        IpFlow 4 (p ! 9) (take 8 (drop 12 p))
          (if (p ! 6 AND 0x3f = 0 \<and> p ! 7 = 0) \<and> p ! 9 \<in> {6, 17} \<and> ihl + 4 \<le> total
           then Some (take 4 (drop ihl p)) else None)
      else if p \<noteq> [] \<and> v = 6 \<and> 40 \<le> length p then
        IpFlow 6 (p ! 6) (take 32 (drop 8 p))
          (if p ! 6 \<in> {6, 17} \<and> 44 \<le> length p then Some (take 4 (drop 40 p)) else None)
      else NoFlow)"

text \<open>The key as an image of the identity.\<close>

fun flow_key :: "flow_id \<Rightarrow> bytes" where
  "flow_key NoFlow = []"
| "flow_key (IpFlow v pr a po) = of_nat v # pr # a @ (case po of None \<Rightarrow> [] | Some x \<Rightarrow> x)"

definition id_ok :: "flow_id \<Rightarrow> bool" where
  "id_ok i = (case i of NoFlow \<Rightarrow> True
     | IpFlow v pr a po \<Rightarrow> (v = 4 \<and> length a = 8 \<or> v = 6 \<and> length a = 32) \<and>
         (case po of None \<Rightarrow> True | Some x \<Rightarrow> length x = 4))"

lemma flow_id_ok: "id_ok (flow_id p)"
  by (auto simp: flow_id_def id_ok_def Let_def)

lemma flow_key_inj: "id_ok i \<Longrightarrow> id_ok j \<Longrightarrow> flow_key i = flow_key j \<Longrightarrow> i = j"
  by (cases i; cases j) (auto simp: id_ok_def split: option.splits)

definition padded_key :: "bytes \<Rightarrow> pflow" where
  "padded_key k = \<lparr>pf_bytes = k @ replicate (38 - length k) 0, pf_length = length k\<rparr>"

lemma copy_addresses:
  "copy_at 2 a ((replicate 38 0)[0 := v, 1 := pr]) = (v # pr # a) @ replicate (38 - length (v # pr # a)) 0"
proof -
  have "(replicate 38 (0::byte))[0 := v, 1 := pr] = v # pr # replicate 36 0"
    by (simp add: numeral_eq_Suc)
  then show ?thesis by (simp add: copy_at_def)
qed

lemma add_ports_key:
  "n \<noteq> 0 \<Longrightarrow> n + 4 \<le> length p \<Longrightarrow> add_ports n p (padded_key k) = padded_key (k @ take 4 (drop n p))"
  "add_ports 0 p r = r"
  by (simp_all add: add_ports_def padded_key_def copy_at_def)

lemma packet_flow_key: "packet_flow p = padded_key (flow_key (flow_id p))"
proof -
  have key: "\<lparr>pf_bytes = copy_at 2 a ((replicate 38 0)[0 := v, 1 := pr]), pf_length = n\<rparr> = padded_key (v # pr # a)"
    if "n = length a + 2" for v pr n and a :: bytes
    using that unfolding copy_addresses padded_key_def by simp
  have none: "no_flow = padded_key []" by (simp add: no_flow_def padded_key_def)
  let ?v = "unat (p ! 0) div 16" and ?ihl = "unat (p ! 0) mod 16 * 4" and ?total = "rd16 (p ! 2) (p ! 3)"
  consider "p = []" | "p \<noteq> []" "?v = 4" "20 \<le> length p" | "p \<noteq> []" "?v = 6" "40 \<le> length p"
    | "p \<noteq> []" "\<not> (?v = 4 \<and> 20 \<le> length p)" "\<not> (?v = 6 \<and> 40 \<le> length p)" by blast
  then show ?thesis
  proof cases
    case 2
    let ?k = "4 # p ! 9 # take 8 (drop 12 p)"
    have k: "\<lparr>pf_bytes = copy_at 2 (take 8 (drop 12 p)) ((replicate 38 0)[0 := 4, 1 := p ! 9]), pf_length = 10\<rparr>
        = padded_key ?k" using 2 by (intro key) simp
    show ?thesis
    proof (cases "?ihl < 20 \<or> ?total < ?ihl \<or> length p < ?total")
      case True
      with 2 show ?thesis by (auto simp: packet_flow_def flow_id_def Let_def none hd_conv_nth)
    next
      case False
      then have "add_ports ?ihl p (padded_key ?k) = padded_key (?k @ take 4 (drop ?ihl p))" if "?ihl + 4 \<le> ?total"
        using that by (intro add_ports_key) auto
      with 2 False show ?thesis
        unfolding packet_flow_def flow_id_def Let_def k by (simp add: hd_conv_nth add_ports_key(2) not_less) blast
    qed
  next
    case 3
    let ?k = "6 # p ! 6 # take 32 (drop 8 p)"
    have k: "\<lparr>pf_bytes = copy_at 2 (take 32 (drop 8 p)) ((replicate 38 0)[0 := 6, 1 := p ! 6]), pf_length = 34\<rparr>
        = padded_key ?k" using 3 by (intro key) simp
    have "add_ports 40 p (padded_key ?k) = padded_key (?k @ take 4 (drop 40 p))" if "44 \<le> length p"
      using that by (intro add_ports_key) simp_all
    with 3 show ?thesis
      unfolding packet_flow_def flow_id_def Let_def k by (simp add: hd_conv_nth add_ports_key(2))
  next
    case 1
    then show ?thesis by (simp add: packet_flow_def flow_id_def none)
  next
    case 4
    have "packet_flow p = no_flow"
      by (simp only: packet_flow_def Let_def if_not_P [OF 4(1)] if_not_P [OF 4(2)] if_not_P [OF 4(3)])
    moreover have "flow_id p = NoFlow" using 4 by (auto simp: flow_id_def Let_def hd_conv_nth)
    ultimately show ?thesis by (simp add: none)
  qed
qed

lemma packet_flow_length: "pf_length (packet_flow p) \<in> {0, 10, 14, 34, 38}"
  using flow_id_ok [of p] by (cases "flow_id p") (auto simp: packet_flow_key padded_key_def id_ok_def split: option.splits)

lemma packet_flow_inj: "packet_flow p = packet_flow q \<longleftrightarrow> flow_id p = flow_id q"
proof
  assume "packet_flow p = packet_flow q"
  then have "flow_key (flow_id p) = flow_key (flow_id q)"
    unfolding packet_flow_key padded_key_def by (auto dest: append_eq_append_conv [THEN iffD1, rotated])
  then show "flow_id p = flow_id q" using flow_key_inj [OF flow_id_ok flow_id_ok] by blast
qed (simp add: packet_flow_key)

text \<open>On computed keys the comparison of the source is equality.\<close>

lemma flow_eq_packet_flow: "flow_eq (packet_flow p) (packet_flow q) \<longleftrightarrow> packet_flow p = packet_flow q"
  by (auto simp: flow_eq_def packet_flow_key padded_key_def)

section \<open>The burst scheduler\<close>

definition batch_flows :: "bytes list \<Rightarrow> nat list \<Rightarrow> (pflow, nat) flow list" where
  "batch_flows packets is =
     foldl (\<lambda>fs i. rr_add flow_eq (packet_flow (packets ! i)) (length (packets ! i) \<le> 256) i fs) [] is"

definition rr_new :: "('k, 'a) flow list \<Rightarrow> ('k, 'a) rr" where
  "rr_new fs = \<lparr>rr_flows = fs, rr_icursor = 0, rr_bcursor = 0, rr_turns = 0\<rparr>"

text \<open>\<open>while(order.size() < packets.size())\<close>, with the three attempts of a turn in \<open>rr_pop\<close>.\<close>

function sched_loop :: "nat \<Rightarrow> (pflow, nat) rr \<Rightarrow> nat list \<Rightarrow> nat list" where
  "sched_loop n q order =
     (if length order < n then
        (case rr_pop q of None \<Rightarrow> order | Some (b, x, q') \<Rightarrow> sched_loop n q' (order @ [x]))
      else order)"
  by pat_completeness auto
termination
  by (relation "measure (\<lambda>(n, q, order). n - length order)") auto

declare sched_loop.simps [simp del]

definition schedule_packet_batch :: "bytes list \<Rightarrow> bool \<Rightarrow> nat list" where
  "schedule_packet_batch packets enabled =
     (if \<not> enabled \<or> length packets < 2 then [0..<length packets]
      else sched_loop (length packets) (rr_new (batch_flows packets [0..<length packets])) [])"

text \<open>
  The class of a packet is the class of its flow: whether the first packet of the flow in the
  burst has at most 256 bytes.
\<close>

definition batch_interactive :: "bytes list \<Rightarrow> nat \<Rightarrow> bool" where
  "batch_interactive packets i =
     (length (packets ! hd (filter (\<lambda>j. packet_flow (packets ! j) = packet_flow (packets ! i))
        [0..<length packets])) \<le> 256)"

lemma flow_eq_keys:
  "fl_key ` set fs \<subseteq> range packet_flow \<Longrightarrow>
   \<forall>f \<in> set fs. flow_eq (fl_key f) (packet_flow p) \<longleftrightarrow> fl_key f = packet_flow p"
proof
  fix f assume "fl_key ` set fs \<subseteq> range packet_flow" "f \<in> set fs"
  then obtain q where "fl_key f = packet_flow q" by blast
  then show "flow_eq (fl_key f) (packet_flow p) \<longleftrightarrow> fl_key f = packet_flow p"
    by (simp add: flow_eq_packet_flow)
qed

lemma batch_flows_inv:
  defines "pf packets i \<equiv> packet_flow (packets ! i)"
  shows "distinct (map fl_key (batch_flows packets is)) \<and>
    fl_key ` set (batch_flows packets is) = pf packets ` set is \<and>
    (\<forall>k. held (batch_flows packets is) k = filter (\<lambda>i. pf packets i = k) is) \<and>
    mset (held_all (batch_flows packets is)) = mset is \<and>
    (\<forall>f \<in> set (batch_flows packets is).
       fl_interactive f = (length (packets ! hd (filter (\<lambda>i. pf packets i = fl_key f) is)) \<le> 256))"
proof (induction "is" rule: rev_induct)
  case Nil
  show ?case by (simp add: batch_flows_def held_all_def)
next
  case (snoc i "is")
  let ?fs = "batch_flows packets is" and ?k = "pf packets i" and ?b = "length (packets ! i) \<le> 256"
  have fs: "batch_flows packets (is @ [i]) = rr_add flow_eq ?k ?b i ?fs"
    by (simp add: batch_flows_def pf_def)
  have eq: "\<forall>f \<in> set ?fs. flow_eq (fl_key f) ?k \<longleftrightarrow> fl_key f = ?k"
    unfolding pf_def by (rule flow_eq_keys) (use snoc in \<open>auto simp: pf_def\<close>)
  have d: "distinct (map fl_key ?fs)" and keys: "fl_key ` set ?fs = pf packets ` set is"
    and held: "\<And>k. held ?fs k = filter (\<lambda>i. pf packets i = k) is"
    and all: "mset (held_all ?fs) = mset is" using snoc by blast+
  have cls: "\<forall>f \<in> set (rr_add flow_eq ?k ?b i ?fs).
       fl_interactive f = (length (packets ! hd (filter (\<lambda>j. pf packets j = fl_key f) (is @ [i]))) \<le> 256)"
  proof (rule rr_add_cases [where fs = ?fs and eq = flow_eq and k = ?k and b = ?b and x = i, OF eq])
    assume new: "?k \<notin> fl_key ` set ?fs" "rr_add flow_eq ?k ?b i ?fs = ?fs @ [\<lparr>fl_key = ?k, fl_items = [i], fl_interactive = ?b\<rparr>]"
    then have "?k \<notin> pf packets ` set is" using snoc by simp
    then have "\<forall>j \<in> set is. pf packets j \<noteq> ?k" by (metis imageI)
    then have "filter (\<lambda>j. pf packets j = ?k) is = []" by simp
    moreover have "?k \<noteq> fl_key f" if "f \<in> set ?fs" for f using new(1) that by (metis imageI)
    ultimately show ?thesis using snoc new(2) by auto
  next
    fix m assume m: "m < length ?fs" "fl_key (?fs ! m) = ?k"
      "rr_add flow_eq ?k ?b i ?fs = ?fs[m := (?fs ! m)\<lparr>fl_items := fl_items (?fs ! m) @ [i]\<rparr>]"
    have ne: "filter (\<lambda>j. pf packets j = fl_key f) is \<noteq> []" if "f \<in> set ?fs" for f
    proof -
      have "fl_key f \<in> pf packets ` set is" using snoc that by blast
      then show ?thesis by (auto simp: filter_empty_conv)
    qed
    then have old: "\<forall>f \<in> set ?fs. fl_interactive f =
        (length (packets ! hd (filter (\<lambda>j. pf packets j = fl_key f) (is @ [i]))) \<le> 256)"
      using snoc by (auto simp: hd_append)
    show ?thesis
    proof
      fix f assume "f \<in> set (rr_add flow_eq ?k ?b i ?fs)"
      then have "f = (?fs ! m)\<lparr>fl_items := fl_items (?fs ! m) @ [i]\<rparr> \<or> f \<in> set ?fs"
        using m(3) set_update_subset_insert by fastforce
      then show "fl_interactive f = (length (packets ! hd (filter (\<lambda>j. pf packets j = fl_key f) (is @ [i]))) \<le> 256)"
      proof
        assume "f = (?fs ! m)\<lparr>fl_items := fl_items (?fs ! m) @ [i]\<rparr>"
        then show ?thesis using bspec [OF old nth_mem [OF m(1)]] by simp
      qed (rule bspec [OF old])
    qed
  qed
  show ?case
    unfolding fs
  proof (intro conjI allI)
    show "fl_key ` set (rr_add flow_eq ?k ?b i ?fs) = pf packets ` set (is @ [i])"
      unfolding rr_add_keys(2) [where eq = flow_eq and fs = ?fs and k = ?k, OF eq d] keys by simp
    show "held (rr_add flow_eq ?k ?b i ?fs) k = filter (\<lambda>i. pf packets i = k) (is @ [i])" for k
      unfolding rr_add_held [where eq = flow_eq and fs = ?fs and k = ?k, OF eq d] held by simp
    show "mset (held_all (rr_add flow_eq ?k ?b i ?fs)) = mset (is @ [i])"
      unfolding rr_add_held_all [where eq = flow_eq and fs = ?fs and k = ?k, OF eq] all by simp
  qed (rule rr_add_keys(1) [where eq = flow_eq and fs = ?fs and k = ?k, OF eq d], fact cls)
qed

lemma sched_loop_drain:
  "length order + length (held_all (rr_flows q)) = n \<Longrightarrow> sched_loop n q order = order @ map snd (rr_drain q)"
proof (induction n q order rule: sched_loop.induct)
  case (1 n q order)
  show ?case
  proof (cases "rr_pop q")
    case None
    then show ?thesis by (simp add: sched_loop.simps [of n q order])
  next
    case (Some r)
    then obtain b x q' where r: "rr_pop q = Some (b, x, q')" by (cases r) auto
    have "length order < n" using 1(2) rr_pop_length [OF r] by simp
    with r 1 rr_pop_length [OF r] show ?thesis by (simp add: sched_loop.simps [of n q order])
  qed
qed

lemma schedule_drain:
  "schedule_packet_batch packets enabled =
     (if \<not> enabled \<or> length packets < 2 then [0..<length packets]
      else map snd (rr_drain (rr_new (batch_flows packets [0..<length packets]))))"
proof -
  have "mset (held_all (batch_flows packets [0..<length packets])) = mset [0..<length packets]"
    using batch_flows_inv by blast
  then have "length (held_all (batch_flows packets [0..<length packets])) = length packets"
    by (metis length_upt minus_nat.diff_0 size_mset)
  then show ?thesis by (simp add: schedule_packet_batch_def sched_loop_drain rr_new_def)
qed

section \<open>Properties of the scheduler\<close>

text \<open>
  C38: the flow key is the flow. Two packets get equal keys under the comparison of the source
  (a prefix of the 38 bytes) exactly when they agree in version, protocol, addresses and, where
  both are unfragmented TCP or UDP, ports, or when neither is a complete IP packet; the key
  length is 0, 10, 14, 34 or 38, within the array.
\<close>

theorem flow_keys_identify_flows:
  "(flow_eq (packet_flow p) (packet_flow q) \<longleftrightarrow> flow_id p = flow_id q) \<and>
   pf_length (packet_flow p) \<in> {0, 10, 14, 34, 38} \<and> length (pf_bytes (packet_flow p)) = 38"
proof -
  have "length (flow_key (flow_id p)) \<le> 38"
    using packet_flow_length [of p] by (auto simp: packet_flow_key padded_key_def)
  then have "length (pf_bytes (packet_flow p)) = 38" by (simp add: packet_flow_key padded_key_def)
  then show ?thesis using packet_flow_length [of p] by (simp add: flow_eq_packet_flow packet_flow_inj)
qed

text \<open>
  C29: a burst is reordered without loss and in order within each flow. The scheduled order is a
  permutation of the positions of the burst, and the positions of any one flow appear in
  increasing order, for every burst, with the scheduler enabled or not.
\<close>

theorem schedule_keeps_flows:
  "filter (\<lambda>i. packet_flow (packets ! i) = k) (schedule_packet_batch packets enabled) =
     filter (\<lambda>i. packet_flow (packets ! i) = k) [0..<length packets] \<and>
   mset (schedule_packet_batch packets enabled) = mset [0..<length packets]"
proof (cases "\<not> enabled \<or> length packets < 2")
  case False
  let ?q = "rr_new (batch_flows packets [0..<length packets])"
  note inv = batch_flows_inv [of packets "[0..<length packets]"]
  have "filter (\<lambda>i. packet_flow (packets ! i) = k) (map snd (rr_drain ?q)) = held (rr_flows ?q) k"
    by (rule rr_drain_fifo) (use inv in \<open>auto simp: rr_new_def\<close>)
  moreover have "mset (map snd (rr_drain ?q)) = mset [0..<length packets]"
    using rr_drain_mset [of ?q] inv by (simp add: rr_new_def)
  ultimately show ?thesis using False inv by (simp add: schedule_drain rr_new_def)
qed (simp add: schedule_drain)

lemma batch_drain_class:
  assumes "(b, i) \<in> set (rr_drain (rr_new (batch_flows packets [0..<length packets])))"
  shows "b = batch_interactive packets i"
proof -
  let ?n = "[0..<length packets]"
  have gen: "(b, i) \<in> set (rr_drain q) \<Longrightarrow>
      \<forall>f \<in> set (rr_flows q). \<forall>i \<in> set (fl_items f). fl_interactive f = batch_interactive packets i \<Longrightarrow>
      b = batch_interactive packets i" for q :: "(pflow, nat) rr"
  proof (induction q rule: rr_drain_induct)
    case (pop q b' x q')
    then obtain m q1 where c: "rr_choose q = Some (m, q1)" and q': "b' = fl_interactive (rr_flows q ! m)"
        "x = hd (fl_items (rr_flows q ! m))" "rr_flows q' = (rr_flows q)[m := pop_flow (rr_flows q ! m)]"
      by (auto simp: rr_pop_def Let_def split: option.splits)
    note m = rr_choose_Some [OF c]
    then have f: "rr_flows q ! m \<in> set (rr_flows q)" "x \<in> set (fl_items (rr_flows q ! m))"
      using q'(2) by simp_all
    have "\<forall>f \<in> set (rr_flows q'). \<forall>i \<in> set (fl_items f). fl_interactive f = batch_interactive packets i"
    proof (intro ballI)
      fix f j assume "f \<in> set (rr_flows q')" "j \<in> set (fl_items f)"
      moreover from this have "f = pop_flow (rr_flows q ! m) \<or> f \<in> set (rr_flows q)"
        using q'(3) set_update_subset_insert by fastforce
      ultimately show "fl_interactive f = batch_interactive packets j"
        using pop.prems(2) f(1) by (auto dest: list.set_sel(2) [rotated])
          (metis list.sel(2) list.set_sel(2))+
    qed
    with pop q' f show ?case by auto
  qed simp
  note inv = batch_flows_inv [of packets ?n]
  have "fl_interactive f = batch_interactive packets j"
    if "f \<in> set (batch_flows packets ?n)" "j \<in> set (fl_items f)" for f j
  proof -
    have "fl_items f = held (batch_flows packets ?n) (fl_key f)"
      using that(1) inv held_nth [of "batch_flows packets ?n"] by (auto simp: in_set_conv_nth)
    then have "packet_flow (packets ! j) = fl_key f" using that(2) inv by auto
    then show ?thesis using inv that(1) by (auto simp: batch_interactive_def)
  qed
  with gen [OF assms] show ?thesis by (simp add: rr_new_def)
qed

text \<open>
  C37: fairness of the burst scheduler. Three packets of interactive flows follow one another
  only when no bulk packet of the burst comes after them, and two packets of bulk flows only
  when no interactive packet comes after them.
\<close>

theorem schedule_fair:
  assumes "schedule_packet_batch packets True = xs @ ys @ zs"
  shows "(length ys = 3 \<and> (\<forall>i \<in> set ys. batch_interactive packets i) \<longrightarrow>
      (\<forall>i \<in> set zs. batch_interactive packets i)) \<and>
    (length ys = 2 \<and> (\<forall>i \<in> set ys. \<not> batch_interactive packets i) \<longrightarrow>
      (\<forall>i \<in> set zs. \<not> batch_interactive packets i))"
proof (cases "length packets < 2")
  case True
  then have "length (schedule_packet_batch packets True) < 2" by (simp add: schedule_packet_batch_def)
  with assms show ?thesis by (cases zs) auto
next
  case False
  let ?d = "rr_drain (rr_new (batch_flows packets [0..<length packets]))"
  have o: "map snd ?d = xs @ ys @ zs" using assms False by (simp add: schedule_drain)
  have "map fst ?d = map (batch_interactive packets) (map snd ?d)"
    using batch_drain_class [of _ _ packets] by (auto intro!: map_cong)
  then have "map fst ?d = map (batch_interactive packets) (xs @ ys @ zs)" using o by simp
  then have f: "fair_from 0 (map (batch_interactive packets) (xs @ ys @ zs))"
    using rr_drain_fair [of "rr_new (batch_flows packets [0..<length packets])"]
    by (simp only:) (simp add: rr_new_def)
  have 3: "\<forall>i \<in> set zs. batch_interactive packets i"
    if "length ys = 3" "\<forall>i \<in> set ys. batch_interactive packets i"
  proof -
    from that obtain a b c where "ys = [a, b, c]" by (auto simp: numeral_eq_Suc length_Suc_conv)
    with f that fair_three [of 0 "map (batch_interactive packets) xs" "map (batch_interactive packets) zs"]
    show ?thesis by auto
  qed
  have 2: "\<forall>i \<in> set zs. \<not> batch_interactive packets i"
    if "length ys = 2" "\<forall>i \<in> set ys. \<not> batch_interactive packets i"
  proof -
    from that obtain a b where "ys = [a, b]" by (auto simp: numeral_eq_Suc length_Suc_conv)
    with f that fair_two [of 0 "map (batch_interactive packets) xs" "map (batch_interactive packets) zs"]
    show ?thesis by auto
  qed
  from 2 3 show ?thesis by blast
qed

definition demo_bulk :: bytes where
  "demo_bulk = [0x45, 0, 1, 4] @ replicate 256 0"

theorem schedule_fair_witness:
  "schedule_packet_batch (demo_bulk # replicate 6 [7]) True = [1, 2, 0, 3, 4, 5, 6] \<and>
   batch_interactive (demo_bulk # replicate 6 [7]) 6"
proof -
  let ?ps = "demo_bulk # replicate 6 [7]"
  have s: "schedule_packet_batch ?ps True = [1, 2, 0, 3, 4, 5, 6]" by code_simp
  have i: "batch_interactive ?ps 3" "batch_interactive ?ps 4" "batch_interactive ?ps 5" by code_simp+
  have "\<forall>i \<in> set [6]. batch_interactive ?ps i"
    using schedule_fair [of ?ps "[1, 2, 0]" "[3, 4, 5]" "[6]"] s i by simp
  with s show ?thesis by simp
qed

end
