(* ===== verification/QueueSpec.thy ===== *)
theory QueueSpec
  imports Prelude "HOL-Library.Multiset"
begin

text \<open>
  The contract of the packet queues of the program: every operation takes some items in and
  gives some items out, keeps the order of the items under each key, and its counters are the
  number and the total size of what it holds. Proved once: over any sequence of operations
  nothing is lost, duplicated or reordered within a key, and the counters never drift.
\<close>

locale keyed_queue =
  fixes inv :: "'q \<Rightarrow> bool"
    and held :: "'q \<Rightarrow> 'k \<Rightarrow> 'a list"
    and key :: "'a \<Rightarrow> 'k"
    and count :: "'q \<Rightarrow> nat"
    and weight :: "'q \<Rightarrow> nat"
    and size_of :: "'a \<Rightarrow> nat"
    and apply_op :: "'op \<Rightarrow> 'q \<Rightarrow> 'q \<times> 'a list \<times> 'a list"
  assumes op_inv: "inv q \<Longrightarrow> apply_op c q = (q', ins, outs) \<Longrightarrow> inv q'"
    and op_held: "inv q \<Longrightarrow> apply_op c q = (q', ins, outs) \<Longrightarrow>
      held q k @ filter (\<lambda>x. key x = k) ins = filter (\<lambda>x. key x = k) outs @ held q' k"
    and op_count: "inv q \<Longrightarrow> apply_op c q = (q', ins, outs) \<Longrightarrow>
      count q + length ins = length outs + count q'"
    and op_weight: "inv q \<Longrightarrow> apply_op c q = (q', ins, outs) \<Longrightarrow>
      weight q + sum_list (map size_of ins) = sum_list (map size_of outs) + weight q'"
begin

text \<open>A sequence of operations, with everything taken in and everything given out.\<close>

fun run :: "'op list \<Rightarrow> 'q \<Rightarrow> 'q \<times> 'a list \<times> 'a list" where
  "run [] q = (q, [], [])"
| "run (c # cs) q =
     (case apply_op c q of (q1, ins, outs) \<Rightarrow>
      case run cs q1 of (q2, ins2, outs2) \<Rightarrow> (q2, ins @ ins2, outs @ outs2))"

lemma run_inv: "inv q \<Longrightarrow> run cs q = (q', ins, outs) \<Longrightarrow> inv q'"
proof (induction cs arbitrary: q ins outs)
  case (Cons c cs)
  then show ?case by (auto split: prod.splits dest: op_inv)
qed simp

lemma run_held:
  "inv q \<Longrightarrow> run cs q = (q', ins, outs) \<Longrightarrow>
   held q k @ filter (\<lambda>x. key x = k) ins = filter (\<lambda>x. key x = k) outs @ held q' k"
proof (induction cs arbitrary: q ins outs)
  case (Cons c cs)
  obtain q1 i1 o1 where a: "apply_op c q = (q1, i1, o1)" by (cases "apply_op c q")
  obtain i2 o2 where r: "run cs q1 = (q', i2, o2)" "ins = i1 @ i2" "outs = o1 @ o2"
    using Cons.prems a by (auto split: prod.splits)
  have "held q k @ filter (\<lambda>x. key x = k) ins =
      (held q k @ filter (\<lambda>x. key x = k) i1) @ filter (\<lambda>x. key x = k) i2" by (simp add: r)
  also have "\<dots> = filter (\<lambda>x. key x = k) o1 @ held q1 k @ filter (\<lambda>x. key x = k) i2"
    unfolding op_held [OF Cons.prems(1) a] by simp
  also have "held q1 k @ filter (\<lambda>x. key x = k) i2 = filter (\<lambda>x. key x = k) o2 @ held q' k"
    by (rule Cons.IH [OF op_inv [OF Cons.prems(1) a] r(1)])
  finally show ?case by (simp add: r)
qed simp

lemma run_count:
  "inv q \<Longrightarrow> run cs q = (q', ins, outs) \<Longrightarrow> count q + length ins = length outs + count q' \<and>
   weight q + sum_list (map size_of ins) = sum_list (map size_of outs) + weight q'"
proof (induction cs arbitrary: q ins outs)
  case (Cons c cs)
  obtain q1 i1 o1 where a: "apply_op c q = (q1, i1, o1)" by (cases "apply_op c q")
  obtain i2 o2 where r: "run cs q1 = (q', i2, o2)" "ins = i1 @ i2" "outs = o1 @ o2"
    using Cons.prems a by (auto split: prod.splits)
  show ?case
    using Cons.IH [OF op_inv [OF Cons.prems(1) a] r(1)] op_count [OF Cons.prems(1) a]
      op_weight [OF Cons.prems(1) a] by (simp add: r)
qed simp

text \<open>From an empty queue: what comes out under a key is a prefix of what went in under it.\<close>

lemma run_prefix:
  assumes "inv q" "held q k = []" "run cs q = (q', ins, outs)"
  shows "prefix (filter (\<lambda>x. key x = k) outs) (filter (\<lambda>x. key x = k) ins)"
  using run_held [OF assms(1,3), of k] assms(2) by (auto simp: prefix_def)

end

end
