(* ===== verification/FlowQueue.thy ===== *)
theory FlowQueue
  imports Flow QueueSpec
begin

text \<open>
  \<open>class FlowQueue\<close> of \<open>src/cdn/include/pacetun/flow_scheduler.hpp\<close>: the transmit queue with
  one deque per flow, its packet and byte counters, expiry and pruning, and its instance of
  the queue contract.
\<close>

section \<open>State and operations\<close>

record flow_packet =
  fp_bytes :: bytes
  enqueued_us :: u64

record flow_queue = "(pflow, flow_packet) rr" +
  fq_packets :: nat
  fq_bytes :: nat

definition new_queue :: flow_queue where
  "new_queue = \<lparr>rr_flows = [], rr_icursor = 0, rr_bcursor = 0, rr_turns = 0, fq_packets = 0, fq_bytes = 0\<rparr>"

definition fq_clear :: "flow_queue \<Rightarrow> flow_queue" where
  "fq_clear q = q\<lparr>rr_flows := [], rr_icursor := 0, rr_bcursor := 0, rr_turns := 0, fq_packets := 0, fq_bytes := 0\<rparr>"

definition prune_if_needed :: "flow_queue \<Rightarrow> flow_queue" where
  "prune_if_needed q =
     (if length (rr_flows q) \<le> fq_packets q + 32 then q
      else q\<lparr>rr_flows := filter (\<lambda>f. fl_items f \<noteq> []) (rr_flows q),
             rr_icursor := 0, rr_bcursor := 0, rr_turns := 0\<rparr>)"

definition fq_empty :: "flow_queue \<Rightarrow> bool" where
  "fq_empty q \<longleftrightarrow> fq_packets q = 0"

definition oldest_age_us :: "u64 \<Rightarrow> flow_queue \<Rightarrow> u64" where
  "oldest_age_us now q =
     foldl (\<lambda>age f. if fl_items f \<noteq> [] \<and> enqueued_us (hd (fl_items f)) \<le> now
                    then max age (now - enqueued_us (hd (fl_items f))) else age) 0 (rr_flows q)"

definition fq_push :: "bytes \<Rightarrow> u64 \<Rightarrow> nat \<Rightarrow> nat \<Rightarrow> flow_queue \<Rightarrow> bool \<times> flow_queue" where
  "fq_push packet at_us max_packets max_bytes q =
     (if packet = [] \<or> fq_packets q \<ge> max_packets \<or> length packet > max_bytes \<or>
         fq_bytes q > max_bytes - length packet
      then (False, q)
      else let q1 = prune_if_needed q in
        (True, q1\<lparr>rr_flows := rr_add flow_eq (packet_flow packet) (length packet \<le> 256)
                     \<lparr>fp_bytes = packet, enqueued_us = at_us\<rparr> (rr_flows q1),
                  fq_bytes := fq_bytes q1 + length packet, fq_packets := fq_packets q1 + 1\<rparr>))"

definition expired :: "u64 \<Rightarrow> u64 \<Rightarrow> flow_packet \<Rightarrow> bool" where
  "expired now_us ttl_us p \<longleftrightarrow> \<not> (now_us < enqueued_us p \<or> now_us - enqueued_us p \<le> ttl_us)"

text \<open>The inner \<open>while\<close>: packets, bytes and the number dropped are updated packet by packet.\<close>

fun drop_front :: "u64 \<Rightarrow> u64 \<Rightarrow> flow_packet list \<Rightarrow> nat \<times> nat \<times> nat \<Rightarrow> flow_packet list \<times> nat \<times> nat \<times> nat" where
  "drop_front now ttl [] c = ([], c)"
| "drop_front now ttl (p # ps) (packets, bytes, dropped) =
     (if \<not> expired now ttl p then (p # ps, packets, bytes, dropped)
      else drop_front now ttl ps (packets - 1, bytes - length (fp_bytes p), dropped + 1))"

fun drop_flows :: "u64 \<Rightarrow> u64 \<Rightarrow> (pflow, flow_packet) flow list \<Rightarrow> nat \<times> nat \<times> nat \<Rightarrow>
    (pflow, flow_packet) flow list \<times> nat \<times> nat \<times> nat" where
  "drop_flows now ttl [] c = ([], c)"
| "drop_flows now ttl (f # fs) c =
     (case drop_front now ttl (fl_items f) c of (items, c1) \<Rightarrow>
      case drop_flows now ttl fs c1 of (fs', c2) \<Rightarrow> (f\<lparr>fl_items := items\<rparr> # fs', c2))"

definition drop_expired :: "u64 \<Rightarrow> u64 \<Rightarrow> flow_queue \<Rightarrow> nat \<times> flow_queue" where
  "drop_expired now_us ttl_us q =
     (case drop_flows now_us ttl_us (rr_flows q) (fq_packets q, fq_bytes q, 0) of
        (fs, packets, bytes, dropped) \<Rightarrow>
          let q1 = q\<lparr>rr_flows := fs, fq_packets := packets, fq_bytes := bytes\<rparr> in
          (dropped, if packets = 0 then fq_clear q1 else prune_if_needed q1))"

definition no_packet :: flow_packet where
  "no_packet = \<lparr>fp_bytes = [], enqueued_us = 0\<rparr>"

definition fq_pop :: "flow_queue \<Rightarrow> flow_packet \<times> flow_queue" where
  "fq_pop q =
     (if fq_empty q then (no_packet, q)
      else case rr_pop q of
        None \<Rightarrow> (no_packet, q)
      | Some (b, p, q1) \<Rightarrow>
          let q2 = q1\<lparr>fq_packets := fq_packets q1 - 1, fq_bytes := fq_bytes q1 - length (fp_bytes p)\<rparr> in
          (p, if fq_packets q2 = 0 then fq_clear q2 else prune_if_needed q2))"

section \<open>The invariant\<close>

text \<open>
  One flow per key, every packet under its own key and never empty, the counters equal to the
  contents, at most 32 flows more than packets, at most two interactive turns used.
\<close>

definition fp_key :: "flow_packet \<Rightarrow> pflow" where
  "fp_key p = packet_flow (fp_bytes p)"

definition flows_ok :: "(pflow, flow_packet) flow list \<Rightarrow> bool" where
  "flows_ok fs \<longleftrightarrow> distinct (map fl_key fs) \<and> fl_key ` set fs \<subseteq> range packet_flow \<and>
     (\<forall>f \<in> set fs. \<forall>p \<in> set (fl_items f). fp_key p = fl_key f \<and> fp_bytes p \<noteq> [])"

definition bytes_of :: "flow_packet list \<Rightarrow> nat" where
  "bytes_of ps = sum_list (map (\<lambda>p. length (fp_bytes p)) ps)"

definition fq_inv :: "flow_queue \<Rightarrow> bool" where
  "fq_inv q \<longleftrightarrow> flows_ok (rr_flows q) \<and> fq_packets q = length (held_all (rr_flows q)) \<and>
     fq_bytes q = bytes_of (held_all (rr_flows q)) \<and> length (rr_flows q) \<le> fq_packets q + 32 \<and>
     rr_turns q \<le> 2"

lemma fq_inv_new: "fq_inv new_queue"
  by (simp add: fq_inv_def new_queue_def flows_ok_def held_all_def bytes_of_def)

lemma fq_inv_clear: "fq_inv (fq_clear q)"
  by (simp add: fq_inv_def fq_clear_def flows_ok_def held_all_def bytes_of_def)

text \<open>The operations up to pruning: what they leave in the flows.\<close>

definition fq_loose :: "flow_queue \<Rightarrow> bool" where
  "fq_loose q \<longleftrightarrow> flows_ok (rr_flows q) \<and> fq_packets q = length (held_all (rr_flows q)) \<and>
     fq_bytes q = bytes_of (held_all (rr_flows q)) \<and> rr_turns q \<le> 2"

lemma fq_inv_loose: "fq_inv q \<Longrightarrow> fq_loose q"
  by (simp add: fq_inv_def fq_loose_def)

lemma length_filter_held: "length (filter (\<lambda>f. fl_items f \<noteq> []) fs) \<le> length (held_all fs)"
proof (induction fs)
  case (Cons f fs)
  then show ?case by (cases "fl_items f") (auto simp: held_all_def)
qed simp

lemma prune_inv:
  assumes "fq_loose q"
  shows "fq_inv (prune_if_needed q)"
proof (cases "length (rr_flows q) \<le> fq_packets q + 32")
  case False
  have "flows_ok (filter (\<lambda>f. fl_items f \<noteq> []) (rr_flows q))"
    using assms by (auto simp: fq_loose_def flows_ok_def distinct_map intro: inj_on_subset)
  moreover have "length (filter (\<lambda>f. fl_items f \<noteq> []) (rr_flows q)) \<le> fq_packets q + 32"
    using assms length_filter_held [of "rr_flows q"] by (simp add: fq_loose_def)
  ultimately show ?thesis
    using assms False by (simp add: prune_if_needed_def fq_inv_def fq_loose_def held_all_nonempty)
qed (use assms in \<open>simp add: prune_if_needed_def fq_inv_def fq_loose_def\<close>)

lemma prune_same:
  "held (rr_flows (prune_if_needed q)) = held (rr_flows q)"
  "held_all (rr_flows (prune_if_needed q)) = held_all (rr_flows q)"
  "fq_packets (prune_if_needed q) = fq_packets q" "fq_bytes (prune_if_needed q) = fq_bytes q"
  by (simp_all add: prune_if_needed_def held_nonempty held_all_nonempty)

lemma flows_ok_eq:
  "flows_ok fs \<Longrightarrow> \<forall>f \<in> set fs. flow_eq (fl_key f) (packet_flow p) \<longleftrightarrow> fl_key f = packet_flow p"
  unfolding flows_ok_def by (intro flow_eq_keys) simp

lemma flows_ok_held_key: "flows_ok fs \<Longrightarrow> p \<in> set (held fs k) \<Longrightarrow> fp_key p = k \<and> fp_bytes p \<noteq> []"
  by (auto simp: held_def flows_ok_def)

lemma flows_ok_add:
  fixes packet :: bytes and t :: u64
  assumes "flows_ok fs" "packet \<noteq> []"
  defines "p \<equiv> \<lparr>fp_bytes = packet, enqueued_us = t\<rparr>"
  shows "flows_ok (rr_add flow_eq (packet_flow packet) b p fs)"
proof (rule rr_add_cases [where fs = fs and eq = flow_eq and k = "packet_flow packet" and b = b and x = p,
      OF flows_ok_eq [OF assms(1)]])
  assume "packet_flow packet \<notin> fl_key ` set fs" and eq: "rr_add flow_eq (packet_flow packet) b p fs =
      fs @ [\<lparr>fl_key = packet_flow packet, fl_items = [p], fl_interactive = b\<rparr>]"
  then show ?thesis unfolding eq using assms by (auto simp: flows_ok_def fp_key_def)
next
  fix i assume i: "i < length fs" "fl_key (fs ! i) = packet_flow packet" and
    eq: "rr_add flow_eq (packet_flow packet) b p fs = fs[i := (fs ! i)\<lparr>fl_items := fl_items (fs ! i) @ [p]\<rparr>]"
  let ?g = "(fs ! i)\<lparr>fl_items := fl_items (fs ! i) @ [p]\<rparr>"
  have fi: "fs ! i \<in> set fs" using i by simp
  have k: "map fl_key (fs[i := ?g]) = map fl_key fs" using i by (intro map_key_update) simp_all
  then have ks: "fl_key ` set (fs[i := ?g]) = fl_key ` set fs" by (metis list.set_map)
  have "fp_key x = fl_key f \<and> fp_bytes x \<noteq> []" if f: "f \<in> set (fs[i := ?g])" and x: "x \<in> set (fl_items f)" for f x
  proof -
    consider "f = ?g" | "f \<in> set fs" using f set_update_subset_insert [of fs i ?g] by blast
    then show ?thesis
    proof cases
      case 1
      with x consider "x \<in> set (fl_items (fs ! i))" | "x = p" by auto
      then show ?thesis
        using assms(1,2) fi i(2) 1 by cases (auto simp: flows_ok_def p_def fp_key_def)
    qed (use assms(1) x in \<open>simp add: flows_ok_def\<close>)
  qed
  then show ?thesis unfolding eq flows_ok_def using k ks assms(1) by (simp add: flows_ok_def)
qed

lemma flows_ok_pop:
  assumes "flows_ok (rr_flows q)" "rr_pop q = Some (b, p, q')"
  shows "flows_ok (rr_flows q')" "fp_bytes p \<noteq> []" "rr_turns q' \<le> 2" "rr.more q' = rr.more q"
    "held (rr_flows q) k = filter (\<lambda>x. fp_key x = k) [p] @ held (rr_flows q') k"
proof -
  have d: "distinct (map fl_key (rr_flows q))" using assms(1) by (simp add: flows_ok_def)
  from rr_pop_Some [OF assms(2) d] obtain k0 where k0: "held (rr_flows q) k0 = p # held (rr_flows q') k0"
    "\<forall>k'. k' \<noteq> k0 \<longrightarrow> held (rr_flows q') k' = held (rr_flows q) k'"
    "map fl_key (rr_flows q') = map fl_key (rr_flows q)" "rr.more q' = rr.more q" by blast
  have p: "fp_key p = k0" "fp_bytes p \<noteq> []" using flows_ok_held_key [OF assms(1), of p k0] k0(1) by simp_all
  show "fp_bytes p \<noteq> []" by (rule p)
  show "rr.more q' = rr.more q" by (rule k0)
  show "held (rr_flows q) k = filter (\<lambda>x. fp_key x = k) [p] @ held (rr_flows q') k" using k0 p by auto
  show "rr_turns q' \<le> 2" using rr_pop_class [OF assms(2)] by (auto split: if_splits)
  have ks: "fl_key ` set (rr_flows q') = fl_key ` set (rr_flows q)" using k0(3) by (metis list.set_map)
  have "fp_key x = fl_key f \<and> fp_bytes x \<noteq> []" if f: "f \<in> set (rr_flows q')" and x: "x \<in> set (fl_items f)" for f x
  proof -
    have d': "distinct (map fl_key (rr_flows q'))" using d k0(3) by simp
    obtain i where i: "i < length (rr_flows q')" "f = rr_flows q' ! i" using f by (metis in_set_conv_nth)
    have "x \<in> set (held (rr_flows q') (fl_key f))" using x held_nth [OF d' i(1)] i(2) by simp
    then have "x \<in> set (held (rr_flows q) (fl_key f))" using k0(1,2) by (cases "fl_key f = k0") auto
    then show ?thesis by (rule flows_ok_held_key [OF assms(1)])
  qed
  then show "flows_ok (rr_flows q')" unfolding flows_ok_def using ks d k0(3) assms(1) by (simp add: flows_ok_def)
qed

section \<open>Expiry\<close>

definition expire_flow :: "u64 \<Rightarrow> u64 \<Rightarrow> (pflow, flow_packet) flow \<Rightarrow> (pflow, flow_packet) flow" where
  "expire_flow now ttl f = f\<lparr>fl_items := dropWhile (expired now ttl) (fl_items f)\<rparr>"

definition expired_of :: "u64 \<Rightarrow> u64 \<Rightarrow> (pflow, flow_packet) flow list \<Rightarrow> flow_packet list" where
  "expired_of now ttl fs = concat (map (\<lambda>f. takeWhile (expired now ttl) (fl_items f)) fs)"

lemma bytes_of_simps [simp]:
  "bytes_of [] = 0" "bytes_of (p # ps) = length (fp_bytes p) + bytes_of ps"
  "bytes_of (ps @ qs) = bytes_of ps + bytes_of qs"
  by (simp_all add: bytes_of_def)

lemma drop_front_eq:
  "drop_front now ttl ps (P, B, D) =
     (dropWhile (expired now ttl) ps, P - length (takeWhile (expired now ttl) ps),
      B - bytes_of (takeWhile (expired now ttl) ps), D + length (takeWhile (expired now ttl) ps))"
  by (induction ps arbitrary: P B D) (simp_all add: diff_diff_left)

lemma drop_flows_eq:
  "drop_flows now ttl fs (P, B, D) =
     (map (expire_flow now ttl) fs, P - length (expired_of now ttl fs), B - bytes_of (expired_of now ttl fs),
      D + length (expired_of now ttl fs))"
  by (induction fs arbitrary: P B D) (simp_all add: drop_front_eq expire_flow_def expired_of_def diff_diff_left)

lemma expire_all:
  "mset (held_all fs) = mset (expired_of now ttl fs) + mset (held_all (map (expire_flow now ttl) fs))"
proof (induction fs)
  case (Cons f fs)
  have "mset (fl_items f) = mset (takeWhile (expired now ttl) (fl_items f)) + mset (dropWhile (expired now ttl) (fl_items f))"
    by (metis mset_append takeWhile_dropWhile_id)
  with Cons show ?case by (simp add: held_all_def expired_of_def expire_flow_def)
qed (simp add: held_all_def expired_of_def)

lemma mset_bytes: "mset ps = mset qs \<Longrightarrow> length ps = length qs \<and> bytes_of ps = bytes_of qs"
  unfolding bytes_of_def by (metis mset_eq_length mset_map sum_mset_sum_list)

lemma expire_counts:
  "length (held_all fs) = length (expired_of now ttl fs) + length (held_all (map (expire_flow now ttl) fs))"
  "bytes_of (held_all fs) = bytes_of (expired_of now ttl fs) + bytes_of (held_all (map (expire_flow now ttl) fs))"
  using mset_bytes [of "held_all fs" "expired_of now ttl fs @ held_all (map (expire_flow now ttl) fs)"]
    expire_all [of fs now ttl] by simp_all

lemma flows_ok_expire: "flows_ok fs \<Longrightarrow> flows_ok (map (expire_flow now ttl) fs)"
proof -
  have k: "map fl_key (map (expire_flow now ttl) fs) = map fl_key fs" by (simp add: expire_flow_def comp_def)
  assume "flows_ok fs"
  then show "flows_ok (map (expire_flow now ttl) fs)"
    unfolding flows_ok_def k using k
    by (auto simp: expire_flow_def dest: set_dropWhileD)
qed

lemma expire_held:
  "flows_ok fs \<Longrightarrow> held fs k =
     filter (\<lambda>p. fp_key p = k) (expired_of now ttl fs) @ held (map (expire_flow now ttl) fs) k"
proof (induction fs)
  case (Cons f fs)
  let ?tw = "takeWhile (expired now ttl) (fl_items f)"
  have ok: "flows_ok fs" and fk: "fl_key f \<notin> fl_key ` set fs"
    and items: "\<forall>p \<in> set (fl_items f). fp_key p = fl_key f"
    using Cons.prems by (auto simp: flows_ok_def)
  have tw: "filter (\<lambda>p. fp_key p = k) ?tw = (if fl_key f = k then ?tw else [])"
    using items by (auto simp: filter_id_conv filter_empty_conv dest: set_takeWhileD)
  have rest: "fl_key f = k \<Longrightarrow> held fs k = []" using fk held_other by metis
  then show ?case
    using Cons.IH [OF ok] tw by (auto simp: expired_of_def expire_flow_def held_Cons)
qed (simp add: expired_of_def)

section \<open>Every operation keeps the invariant\<close>

lemma push_inv: "fq_inv q \<Longrightarrow> fq_inv (snd (fq_push packet at_us mp mb q))"
proof (cases "packet = [] \<or> mp \<le> fq_packets q \<or> mb < length packet \<or> mb - length packet < fq_bytes q")
  case True
  then show "fq_inv q \<Longrightarrow> ?thesis" by (auto simp: fq_push_def)
next
  case False
  assume inv: "fq_inv q"
  let ?q = "prune_if_needed q" and ?p = "\<lparr>fp_bytes = packet, enqueued_us = at_us\<rparr>"
  let ?fs = "rr_add flow_eq (packet_flow packet) (length packet \<le> 256) ?p (rr_flows ?q)"
  have q: "fq_inv ?q" using prune_inv fq_inv_loose inv by blast
  then have ok: "flows_ok (rr_flows ?q)" and len: "length (rr_flows ?q) \<le> fq_packets ?q + 32"
    by (simp_all add: fq_inv_def)
  note eq = flows_ok_eq [OF ok, of packet]
  have d: "distinct (map fl_key (rr_flows ?q))" using ok by (simp add: flows_ok_def)
  have "mset (held_all ?fs) = mset (?p # held_all (rr_flows ?q))"
    using rr_add_held_all [where eq = flow_eq and fs = "rr_flows ?q" and k = "packet_flow packet", OF eq] by simp
  from mset_bytes [OF this] have "length (held_all ?fs) = Suc (length (held_all (rr_flows ?q)))"
    "bytes_of (held_all ?fs) = length packet + bytes_of (held_all (rr_flows ?q))" by simp_all
  moreover have "length ?fs \<le> length (rr_flows ?q) + 1"
    using rr_add_keys(3) [where eq = flow_eq and fs = "rr_flows ?q" and k = "packet_flow packet", OF eq d] .
  moreover have "flows_ok ?fs" using flows_ok_add [OF ok] False by blast
  ultimately show ?thesis using False q len by (auto simp: fq_push_def Let_def fq_inv_def)
qed

lemma more_counters: "rr.more q' = rr.more q \<Longrightarrow> fq_packets q' = fq_packets q \<and> fq_bytes q' = fq_bytes q"
  by (cases q; cases q') simp

lemma pop_Some:
  assumes "fq_inv q" "\<not> fq_empty q"
  obtains b p q1 where "rr_pop q = Some (b, p, q1)" "fp_bytes p \<noteq> []"
    "fq_pop q = (p, let q2 = q1\<lparr>fq_packets := fq_packets q - 1, fq_bytes := fq_bytes q - length (fp_bytes p)\<rparr>
       in if fq_packets q - 1 = 0 then fq_clear q2 else prune_if_needed q2)"
    "fq_loose (q1\<lparr>fq_packets := fq_packets q - 1, fq_bytes := fq_bytes q - length (fp_bytes p)\<rparr>)"
    "\<And>k. held (rr_flows q) k = filter (\<lambda>x. fp_key x = k) [p] @ held (rr_flows q1) k"
    "fq_packets q = Suc (length (held_all (rr_flows q1)))"
    "fq_bytes q = length (fp_bytes p) + bytes_of (held_all (rr_flows q1))"
proof -
  have "held_all (rr_flows q) \<noteq> []" using assms by (auto simp: fq_inv_def fq_empty_def)
  then obtain b p q1 where pop: "rr_pop q = Some (b, p, q1)"
    using rr_pop_None [of q] by (cases "rr_pop q") auto
  have ok: "flows_ok (rr_flows q)" using assms(1) by (simp add: fq_inv_def)
  note f = flows_ok_pop [OF ok pop]
  have m: "mset (held_all (rr_flows q)) = mset (p # held_all (rr_flows q1))"
    using rr_pop_held_all [OF pop] by simp
  have c: "fq_packets q = Suc (length (held_all (rr_flows q1)))"
    "fq_bytes q = length (fp_bytes p) + bytes_of (held_all (rr_flows q1))"
    using mset_bytes [OF m] assms(1) by (simp_all add: fq_inv_def)
  show ?thesis
  proof (rule that [OF pop f(2) _ _ f(5) c])
    show "fq_pop q = (p, let q2 = q1\<lparr>fq_packets := fq_packets q - 1, fq_bytes := fq_bytes q - length (fp_bytes p)\<rparr>
       in if fq_packets q - 1 = 0 then fq_clear q2 else prune_if_needed q2)"
      using pop assms(2) more_counters [OF f(4)] by (simp add: fq_pop_def Let_def)
    show "fq_loose (q1\<lparr>fq_packets := fq_packets q - 1, fq_bytes := fq_bytes q - length (fp_bytes p)\<rparr>)"
      using f c by (simp add: fq_loose_def)
  qed
qed

lemma pop_inv:
  assumes "fq_inv q"
  shows "fq_inv (snd (fq_pop q))"
proof (cases "fq_empty q")
  case False
  obtain b p q1 where "fq_pop q = (p, let q2 = q1\<lparr>fq_packets := fq_packets q - 1, fq_bytes := fq_bytes q - length (fp_bytes p)\<rparr>
       in if fq_packets q - 1 = 0 then fq_clear q2 else prune_if_needed q2)"
    "fq_loose (q1\<lparr>fq_packets := fq_packets q - 1, fq_bytes := fq_bytes q - length (fp_bytes p)\<rparr>)"
    using pop_Some [OF assms False] by blast
  then show ?thesis by (simp add: Let_def fq_inv_clear prune_inv)
qed (use assms in \<open>simp add: fq_pop_def\<close>)

lemma drop_eq:
  "drop_expired now ttl q =
     (length (expired_of now ttl (rr_flows q)),
      let q1 = q\<lparr>rr_flows := map (expire_flow now ttl) (rr_flows q),
        fq_packets := fq_packets q - length (expired_of now ttl (rr_flows q)),
        fq_bytes := fq_bytes q - bytes_of (expired_of now ttl (rr_flows q))\<rparr>
      in if fq_packets q1 = 0 then fq_clear q1 else prune_if_needed q1)"
  by (simp add: drop_expired_def drop_flows_eq Let_def)

lemma drop_inv:
  assumes "fq_inv q"
  shows "fq_inv (snd (drop_expired now ttl q))"
proof -
  have "fq_loose (q\<lparr>rr_flows := map (expire_flow now ttl) (rr_flows q),
        fq_packets := fq_packets q - length (expired_of now ttl (rr_flows q)),
        fq_bytes := fq_bytes q - bytes_of (expired_of now ttl (rr_flows q))\<rparr>)"
    using assms expire_counts [of "rr_flows q" now ttl] flows_ok_expire
    by (simp add: fq_inv_def fq_loose_def)
  then show ?thesis by (simp add: drop_eq Let_def prune_inv fq_inv_clear)
qed

section \<open>The queue contract\<close>

text \<open>The public operations with what they take in and give out.\<close>

datatype fq_op = Push bytes u64 nat nat | Pop | Expire u64 u64 | Clear

fun fq_apply :: "fq_op \<Rightarrow> flow_queue \<Rightarrow> flow_queue \<times> flow_packet list \<times> flow_packet list" where
  "fq_apply (Push packet at_us mp mb) q =
     (case fq_push packet at_us mp mb q of (ok, q') \<Rightarrow>
        (q', if ok then [\<lparr>fp_bytes = packet, enqueued_us = at_us\<rparr>] else [], []))"
| "fq_apply Pop q = (case fq_pop q of (p, q') \<Rightarrow> (q', [], if fp_bytes p = [] then [] else [p]))"
| "fq_apply (Expire now ttl) q = (snd (drop_expired now ttl q), [], expired_of now ttl (rr_flows q))"
| "fq_apply Clear q = (fq_clear q, [], held_all (rr_flows q))"

lemma push_effect:
  assumes "fq_inv q" "fq_push packet at_us mp mb q = (True, q')"
  shows "held (rr_flows q') k = held (rr_flows q) k @
      filter (\<lambda>x. fp_key x = k) [\<lparr>fp_bytes = packet, enqueued_us = at_us\<rparr>]"
    "fq_packets q' = Suc (fq_packets q)" "fq_bytes q' = fq_bytes q + length packet"
    "packet \<noteq> [] \<and> fq_packets q < mp \<and> fq_bytes q + length packet \<le> mb"
proof -
  let ?p = "\<lparr>fp_bytes = packet, enqueued_us = at_us\<rparr>"
  have ok: "flows_ok (rr_flows (prune_if_needed q))"
    using prune_inv [OF fq_inv_loose [OF assms(1)]] by (simp add: fq_inv_def)
  then have d: "distinct (map fl_key (rr_flows (prune_if_needed q)))" by (simp add: flows_ok_def)
  have c: "\<not> (packet = [] \<or> mp \<le> fq_packets q \<or> mb < length packet \<or> mb - length packet < fq_bytes q)"
    using assms(2) by (auto simp: fq_push_def)
  then have q': "rr_flows q' = rr_add flow_eq (packet_flow packet) (length packet \<le> 256) ?p (rr_flows (prune_if_needed q))"
    "fq_packets q' = Suc (fq_packets q)" "fq_bytes q' = fq_bytes q + length packet"
    using assms(2) by (auto simp: fq_push_def Let_def prune_same)
  show "held (rr_flows q') k = held (rr_flows q) k @ filter (\<lambda>x. fp_key x = k) [?p]"
    unfolding q' using rr_add_held [where eq = flow_eq and fs = "rr_flows (prune_if_needed q)"
        and k = "packet_flow packet" and k' = k, OF flows_ok_eq [OF ok] d]
    by (auto simp: prune_same fp_key_def)
  show "fq_packets q' = Suc (fq_packets q)" "fq_bytes q' = fq_bytes q + length packet" by (rule q')+
  show "packet \<noteq> [] \<and> fq_packets q < mp \<and> fq_bytes q + length packet \<le> mb" using c by auto
qed

lemma push_refused: "fq_push packet at_us mp mb q = (False, q') \<Longrightarrow> q' = q"
  by (auto simp: fq_push_def Let_def split: if_splits)

lemma held_clear [simp]: "rr_flows (fq_clear q) = []" "fq_packets (fq_clear q) = 0" "fq_bytes (fq_clear q) = 0"
  by (simp_all add: fq_clear_def)

lemma held_none: "fq_loose q \<Longrightarrow> fq_packets q = 0 \<Longrightarrow> held (rr_flows q) k = [] \<and> fq_bytes q = 0"
  using held_subset [of "rr_flows q" k] by (auto simp: fq_loose_def)

lemma pop_effect:
  assumes "fq_inv q" "\<not> fq_empty q" "fq_pop q = (p, q')"
  shows "held (rr_flows q) k = filter (\<lambda>x. fp_key x = k) [p] @ held (rr_flows q') k"
    "fq_packets q = Suc (fq_packets q')" "fq_bytes q = length (fp_bytes p) + fq_bytes q'" "fp_bytes p \<noteq> []"
proof -
  obtain b q1 where p: "fp_bytes p \<noteq> []" and
    q': "q' = (let q2 = q1\<lparr>fq_packets := fq_packets q - 1, fq_bytes := fq_bytes q - length (fp_bytes p)\<rparr>
       in if fq_packets q - 1 = 0 then fq_clear q2 else prune_if_needed q2)"
    and l: "fq_loose (q1\<lparr>fq_packets := fq_packets q - 1, fq_bytes := fq_bytes q - length (fp_bytes p)\<rparr>)"
    and h: "\<And>k. held (rr_flows q) k = filter (\<lambda>x. fp_key x = k) [p] @ held (rr_flows q1) k"
    and c: "fq_packets q = Suc (length (held_all (rr_flows q1)))"
      "fq_bytes q = length (fp_bytes p) + bytes_of (held_all (rr_flows q1))"
    using pop_Some [OF assms(1,2)] assms(3) by (metis prod.inject)
  show "fp_bytes p \<noteq> []" by (rule p)
  show "held (rr_flows q) k = filter (\<lambda>x. fp_key x = k) [p] @ held (rr_flows q') k"
    using h [of k] held_none [OF l, of k] by (simp add: q' Let_def prune_same)
  show "fq_packets q = Suc (fq_packets q')" using c by (simp add: q' Let_def prune_same)
  show "fq_bytes q = length (fp_bytes p) + fq_bytes q'" using c by (simp add: q' Let_def prune_same)
qed

lemma drop_effect:
  assumes "fq_inv q" "drop_expired now ttl q = (n, q')"
  shows "held (rr_flows q) k = filter (\<lambda>x. fp_key x = k) (expired_of now ttl (rr_flows q)) @ held (rr_flows q') k"
    "n = length (expired_of now ttl (rr_flows q))" "fq_packets q = n + fq_packets q'"
    "fq_bytes q = bytes_of (expired_of now ttl (rr_flows q)) + fq_bytes q'"
proof -
  let ?e = "expired_of now ttl (rr_flows q)" and ?fs = "map (expire_flow now ttl) (rr_flows q)"
  let ?q1 = "q\<lparr>rr_flows := ?fs, fq_packets := fq_packets q - length ?e, fq_bytes := fq_bytes q - bytes_of ?e\<rparr>"
  have q': "n = length ?e" "q' = (if fq_packets q - length ?e = 0 then fq_clear ?q1 else prune_if_needed ?q1)"
    using assms(2) by (auto simp: drop_eq Let_def)
  have ok: "flows_ok (rr_flows q)" using assms(1) by (simp add: fq_inv_def)
  have c: "fq_packets q = length ?e + length (held_all ?fs)" "fq_bytes q = bytes_of ?e + bytes_of (held_all ?fs)"
    using assms(1) expire_counts [of "rr_flows q" now ttl] by (simp_all add: fq_inv_def)
  have none: "held ?fs k = []" if "held_all ?fs = []" using held_subset [of ?fs k] that by simp
  show "n = length ?e" by (rule q')
  show "held (rr_flows q) k = filter (\<lambda>x. fp_key x = k) ?e @ held (rr_flows q') k"
    using expire_held [OF ok, of k now ttl] c none by (simp add: q' prune_same)
  show "fq_packets q = n + fq_packets q'" using c by (simp add: q' prune_same)
  show "fq_bytes q = bytes_of ?e + fq_bytes q'" using c by (simp add: q' prune_same)
qed

lemma clear_effect:
  assumes "fq_inv q"
  shows "filter (\<lambda>x. fp_key x = k) (held_all (rr_flows q)) = held (rr_flows q) k"
proof -
  have "flows_ok fs \<Longrightarrow> filter (\<lambda>x. fp_key x = k) (held_all fs) = held fs k" for fs
  proof (induction fs)
    case (Cons f fs)
    then have "flows_ok fs" "\<forall>p \<in> set (fl_items f). fp_key p = fl_key f" by (auto simp: flows_ok_def)
    with Cons.IH show ?case by (auto simp: held_all_def held_Cons filter_id_conv filter_empty_conv)
  qed (simp add: held_all_def)
  with assms show ?thesis by (simp add: fq_inv_def)
qed

lemma apply_effect:
  assumes "fq_inv q" "fq_apply c q = (q', ins, outs)"
  shows "fq_inv q' \<and> held (rr_flows q) k @ filter (\<lambda>x. fp_key x = k) ins =
      filter (\<lambda>x. fp_key x = k) outs @ held (rr_flows q') k \<and>
    fq_packets q + length ins = length outs + fq_packets q' \<and>
    fq_bytes q + bytes_of ins = bytes_of outs + fq_bytes q'"
proof (cases c)
  case (Push packet at_us mp mb)
  obtain ok q1 where r: "fq_push packet at_us mp mb q = (ok, q1)" by (cases "fq_push packet at_us mp mb q")
  have i: "fq_inv q1" using push_inv [OF assms(1), of packet at_us mp mb] r by simp
  show ?thesis
  proof (cases ok)
    case True
    with r have r': "fq_push packet at_us mp mb q = (True, q1)" by simp
    show ?thesis using assms(2) Push r' i push_effect [OF assms(1) r'] by auto
  next
    case False
    with r push_refused have "q1 = q" by simp
    with assms Push r False show ?thesis by auto
  qed
next
  case Pop
  obtain p q1 where r: "fq_pop q = (p, q1)" by (cases "fq_pop q")
  have i: "fq_inv q1" using pop_inv [OF assms(1)] r by simp
  show ?thesis
  proof (cases "fq_empty q")
    case True
    with r assms Pop show ?thesis by (auto simp: fq_pop_def no_packet_def)
  next
    case False
    note e = pop_effect [OF assms(1) False r]
    then show ?thesis using assms(2) Pop r i by auto
  qed
next
  case (Expire now ttl)
  obtain n q1 where r: "drop_expired now ttl q = (n, q1)" by (cases "drop_expired now ttl q")
  have i: "fq_inv q1" using drop_inv [OF assms(1), of now ttl] r by simp
  note e = drop_effect [OF assms(1) r]
  from assms(2) Expire r have "q' = q1" "ins = []" "outs = expired_of now ttl (rr_flows q)" by auto
  with e i show ?thesis by simp
next
  case Clear
  with assms(2) have "q' = fq_clear q" "ins = []" "outs = held_all (rr_flows q)" by auto
  with assms(1) clear_effect [OF assms(1)] fq_inv_clear show ?thesis by (simp add: fq_inv_def)
qed

interpretation fq: keyed_queue fq_inv "\<lambda>q. held (rr_flows q)" fp_key fq_packets fq_bytes
    "\<lambda>p. length (fp_bytes p)" fq_apply
  by unfold_locales (use apply_effect in \<open>auto simp: bytes_of_def\<close>)

section \<open>Properties of the queue\<close>

text \<open>Any use of a queue: the operations in order, all packets accepted and all packets let go.\<close>

fun fq_run :: "fq_op list \<Rightarrow> flow_queue \<Rightarrow> flow_queue \<times> flow_packet list \<times> flow_packet list" where
  "fq_run [] q = (q, [], [])"
| "fq_run (c # cs) q =
     (case fq_apply c q of (q1, ins, outs) \<Rightarrow>
      case fq_run cs q1 of (q2, ins2, outs2) \<Rightarrow> (q2, ins @ ins2, outs @ outs2))"

lemma fq_run_eq: "fq_run cs q = fq.run cs q"
  by (induction cs arbitrary: q) (auto split: prod.splits)

definition demo_ops :: "fq_op list" where
  "demo_ops = [Push [7] 10 100 1000, Push demo_bulk 11 100 1000, Push [8] 12 100 1000, Pop, Expire 30 18]"

text \<open>
  C28: the flow queue over any sequence of pushes, pops, expiries and clears. Within each flow
  what has left the queue is a prefix of what was accepted, in the same order; nothing is lost
  or duplicated; the packet and byte counters are exactly what is held, so they never wrap
  below zero; and there are never more than 32 flows beyond the number of packets.
\<close>

theorem flow_queue_trace:
  assumes "fq_run cs new_queue = (q, ins, outs)"
  shows "prefix (filter (\<lambda>p. fp_key p = k) outs) (filter (\<lambda>p. fp_key p = k) ins) \<and>
    length ins = length outs + fq_packets q \<and> bytes_of ins = bytes_of outs + fq_bytes q \<and>
    fq_packets q = length (held_all (rr_flows q)) \<and> fq_bytes q = bytes_of (held_all (rr_flows q)) \<and>
    length (rr_flows q) \<le> fq_packets q + 32"
proof -
  have r: "fq.run cs new_queue = (q, ins, outs)" using assms by (simp add: fq_run_eq)
  have "held (rr_flows new_queue) k = []" "fq_packets new_queue = 0" "fq_bytes new_queue = 0"
    by (simp_all add: new_queue_def)
  then show ?thesis
    using fq.run_prefix [OF fq_inv_new _ r, of k] fq.run_count [OF fq_inv_new r] fq.run_inv [OF fq_inv_new r]
    by (simp add: fq_inv_def bytes_of_def)
qed

theorem flow_queue_trace_witness:
  "\<exists>q ins outs. fq_run demo_ops new_queue = (q, ins, outs) \<and> length ins = 3 \<and> fq_packets q = 1 \<and>
     prefix (filter (\<lambda>p. fp_key p = packet_flow [7]) outs) (filter (\<lambda>p. fp_key p = packet_flow [7]) ins)"
proof -
  obtain q ins outs where r: "fq_run demo_ops new_queue = (q, ins, outs)" by (cases "fq_run demo_ops new_queue")
  have "length (fst (snd (fq_run demo_ops new_queue))) = 3" "fq_packets (fst (fq_run demo_ops new_queue)) = 1"
    by code_simp+
  with r flow_queue_trace [OF r, of "packet_flow [7]"] show ?thesis by auto
qed

text \<open>
  Admission to the queue. A push is accepted exactly when the packet is not empty, the
  queue holds fewer than the maximum number of packets and the bytes stay within the maximum;
  then the packet goes to the end of its own flow and both counters grow by it; a refused
  packet leaves the queue untouched.
\<close>

theorem flow_queue_push:
  assumes "fq_inv q" "fq_push packet at_us max_packets max_bytes q = (ok, q')"
  shows "fq_inv q' \<and>
    (ok \<longleftrightarrow> packet \<noteq> [] \<and> fq_packets q < max_packets \<and> fq_bytes q + length packet \<le> max_bytes) \<and>
    (ok \<longrightarrow> fq_packets q' = fq_packets q + 1 \<and> fq_bytes q' = fq_bytes q + length packet \<and>
       (\<forall>k. held (rr_flows q') k = held (rr_flows q) k @
          (if k = packet_flow packet then [\<lparr>fp_bytes = packet, enqueued_us = at_us\<rparr>] else []))) \<and>
    (\<not> ok \<longrightarrow> q' = q)"
proof (cases ok)
  case True
  with assms(2) have r: "fq_push packet at_us max_packets max_bytes q = (True, q')" by simp
  note e = push_effect [OF assms(1) r]
  have "\<forall>k. held (rr_flows q') k = held (rr_flows q) k @
      (if k = packet_flow packet then [\<lparr>fp_bytes = packet, enqueued_us = at_us\<rparr>] else [])"
    using e(1) by (auto simp: fp_key_def)
  moreover have "fq_inv q'" using push_inv [OF assms(1), of packet at_us max_packets max_bytes] r by simp
  ultimately show ?thesis using True e(2-4) by simp
next
  case False
  with assms(2) push_refused have "q' = q" by simp
  moreover have "\<not> (packet \<noteq> [] \<and> fq_packets q < max_packets \<and> fq_bytes q + length packet \<le> max_bytes)"
    using assms(2) False by (auto simp: fq_push_def Let_def split: if_splits)
  ultimately show ?thesis using assms(1) False by simp
qed

theorem flow_queue_push_witness:
  "\<exists>q'. fq_push [7] 10 1 1 new_queue = (True, q') \<and> fq_packets q' = 1 \<and>
     held (rr_flows q') (packet_flow [7]) = [\<lparr>fp_bytes = [7], enqueued_us = 10\<rparr>]"
proof -
  obtain ok q' where r: "fq_push [7] 10 1 1 new_queue = (ok, q')" by (cases "fq_push [7] 10 1 1 new_queue")
  show ?thesis
    using flow_queue_push [OF fq_inv_new r] r by (simp add: new_queue_def)
qed

text \<open>
  Taking a packet. A queue that holds packets always yields one, never the default packet
  of the defensive branch: the oldest packet of some flow, leaving all else in place; after two
  interactive packets in a row it is taken from a bulk flow if any bulk packet waits, and
  before that from an interactive flow if any interactive packet waits.
\<close>

theorem flow_queue_pop:
  assumes "fq_inv q" "fq_packets q \<noteq> 0" "fq_pop q = (p, q')"
  shows "fq_inv q' \<and> fp_bytes p \<noteq> [] \<and> fq_packets q = fq_packets q' + 1 \<and>
    fq_bytes q = fq_bytes q' + length (fp_bytes p) \<and>
    (\<forall>k. held (rr_flows q) k = (if k = fp_key p then [p] else []) @ held (rr_flows q') k) \<and>
    (\<exists>f \<in> set (rr_flows q). fl_key f = fp_key p \<and>
       (rr_turns q = 2 \<and> waits False (rr_flows q) \<longrightarrow> \<not> fl_interactive f) \<and>
       (rr_turns q < 2 \<and> waits True (rr_flows q) \<longrightarrow> fl_interactive f))"
proof -
  have ne: "\<not> fq_empty q" using assms(2) by (simp add: fq_empty_def)
  note e = pop_effect [OF assms(1) ne assms(3)]
  have h: "\<forall>k. held (rr_flows q) k = (if k = fp_key p then [p] else []) @ held (rr_flows q') k"
  proof
    fix k
    from e(1) [of k] show "held (rr_flows q) k = (if k = fp_key p then [p] else []) @ held (rr_flows q') k"
      by auto
  qed
  obtain b q1 where pop: "rr_pop q = Some (b, p, q1)"
    using pop_Some [OF assms(1) ne] assms(3) by (metis prod.inject)
  have ok: "flows_ok (rr_flows q)" using assms(1) by (simp add: fq_inv_def)
  have d: "distinct (map fl_key (rr_flows q))" using ok by (simp add: flows_ok_def)
  from rr_pop_Some [OF pop d] obtain k f where
    f: "held (rr_flows q) k = p # held (rr_flows q1) k" "f \<in> set (rr_flows q)" "fl_key f = k" "fl_interactive f = b"
    by blast
  then have "fp_key p = fl_key f" using flows_ok_held_key [OF ok, of p k] by simp
  moreover have "(rr_turns q = 2 \<and> waits False (rr_flows q) \<longrightarrow> \<not> b) \<and> (rr_turns q < 2 \<and> waits True (rr_flows q) \<longrightarrow> b)"
    using rr_pop_class [OF pop] by (auto split: if_splits)
  ultimately have "\<exists>f \<in> set (rr_flows q). fl_key f = fp_key p \<and>
       (rr_turns q = 2 \<and> waits False (rr_flows q) \<longrightarrow> \<not> fl_interactive f) \<and>
       (rr_turns q < 2 \<and> waits True (rr_flows q) \<longrightarrow> fl_interactive f)"
    using f by auto
  moreover have "fq_inv q'" using pop_inv [OF assms(1)] assms(3) by simp
  ultimately show ?thesis using e(2-4) h by simp
qed

theorem flow_queue_pop_witness:
  "\<exists>p q'. fq_pop (snd (fq_push [7] 10 1 1 new_queue)) = (p, q') \<and> fp_bytes p \<noteq> [] \<and> fq_packets q' = 0"
proof -
  let ?q = "snd (fq_push [7] 10 1 1 new_queue)"
  obtain p q' where r: "fq_pop ?q = (p, q')" by (cases "fq_pop ?q")
  have n: "fq_packets ?q = 1" by code_simp
  with flow_queue_pop [OF push_inv [OF fq_inv_new] _ r] have "fp_bytes p \<noteq> []" "fq_packets q' = 0" by simp_all
  with r show ?thesis by blast
qed

text \<open>
  Expiry. Only packets older than the limit are dropped, from the front of their flows,
  the count returned is the number dropped, and after it the front packet of every flow is
  within the limit (or stamped later than the clock).
\<close>

theorem flow_queue_expiry:
  assumes "fq_inv q" "drop_expired now ttl q = (n, q')"
  shows "fq_inv q' \<and> n = fq_packets q - fq_packets q' \<and>
    (\<exists>gone. length gone = n \<and> (\<forall>p \<in> set gone. expired now ttl p) \<and>
       (\<forall>k. held (rr_flows q) k = filter (\<lambda>p. fp_key p = k) gone @ held (rr_flows q') k)) \<and>
    (\<forall>k. held (rr_flows q') k \<noteq> [] \<longrightarrow> \<not> expired now ttl (hd (held (rr_flows q') k)))"
proof -
  note e = drop_effect [OF assms]
  have i: "fq_inv q'" using drop_inv [OF assms(1), of now ttl] assms(2) by simp
  have "\<forall>p \<in> set (expired_of now ttl (rr_flows q)). expired now ttl p"
    by (auto simp: expired_of_def dest: set_takeWhileD)
  moreover have "\<not> expired now ttl (hd (held (rr_flows q') k))" if "held (rr_flows q') k \<noteq> []" for k
  proof -
    have d: "distinct (map fl_key (rr_flows q))" using assms(1) by (simp add: fq_inv_def flows_ok_def)
    let ?fs = "map (expire_flow now ttl) (rr_flows q)"
    have q': "rr_flows q' = [] \<or> held (rr_flows q') = held ?fs"
      using assms(2) by (auto simp: drop_eq Let_def prune_same split: if_splits)
    with that have ne: "held ?fs k \<noteq> []" by auto
    then have "k \<in> fl_key ` set ?fs" using held_other [of k ?fs] by blast
    then obtain f where f: "f \<in> set (rr_flows q)" "fl_key f = k" by (auto simp: expire_flow_def)
    then obtain j where j: "j < length (rr_flows q)" "rr_flows q ! j = f" by (auto simp: in_set_conv_nth)
    have "held ?fs (fl_key (?fs ! j)) = fl_items (?fs ! j)"
      using j d by (intro held_nth) (simp_all add: expire_flow_def comp_def)
    then have "held ?fs k = dropWhile (expired now ttl) (fl_items f)" using j f by (simp add: expire_flow_def)
    moreover have "held (rr_flows q') k = held ?fs k" using q' that by auto
    ultimately show ?thesis using that hd_dropWhile by metis
  qed
  ultimately show ?thesis using i e by (intro conjI) (simp_all, blast)
qed

theorem flow_queue_expiry_witness:
  "\<exists>q'. drop_expired 30 18 (snd (fq_push [7] 10 1 1 new_queue)) = (1, q') \<and> fq_packets q' = 0"
proof -
  let ?q = "snd (fq_push [7] 10 1 1 new_queue)"
  obtain n q' where r: "drop_expired 30 18 ?q = (n, q')" by (cases "drop_expired 30 18 ?q")
  have "fst (drop_expired 30 18 ?q) = 1" "fq_packets ?q = 1" by code_simp+
  with r flow_queue_expiry [OF push_inv [OF fq_inv_new] r] have "n = 1" "fq_packets q' = 0"
    using drop_effect(3) [OF push_inv [OF fq_inv_new] r] by simp_all
  with r show ?thesis by simp
qed

end
