(* ===== verification/Pool.thy ===== *)
theory Pool
  imports Flow "HOL-Library.AList"
begin

text \<open>
  \<open>src/cdn/include/pacetun/pool.hpp\<close>: the hash of a flow key and \<open>PoolAffinity\<close>, the bounded
  table that keeps the packets of a flow on one lane of the pool. The table is an association
  list in the iteration order of the \<open>std::unordered_map\<close>. Where \<open>emplace\<close> puts a new element is
  not specified, so it is the parameter \<open>place\<close>.
\<close>

section \<open>State and operations\<close>

record entry =
  en_lane :: u64
  en_last_us :: u64

type_synonym affinity = "(pflow \<times> entry) list"

definition pool_cap :: nat where "pool_cap = 4096"
definition idle_us :: u64 where "idle_us = 180000000"

text \<open>FNV-1a over the key bytes, then the length.\<close>

definition flow_hash :: "pflow \<Rightarrow> u64" where
  "flow_hash key =
     foldl (\<lambda>hash b. (hash XOR ucast b) * 1099511628211) 14695981039346656037
       (take (pf_length key) (pf_bytes key)) XOR of_nat (pf_length key)"

definition pool_prune :: "u64 \<Rightarrow> affinity \<Rightarrow> affinity" where
  "pool_prune now t =
     filter (\<lambda>(k, e). \<not> (en_last_us e \<le> now \<and> now - en_last_us e > idle_us)) t"

text \<open>The scan for \<open>oldest\<close>: the first entry that no entry precedes in time.\<close>

fun oldest :: "affinity \<Rightarrow> (pflow \<times> entry) \<Rightarrow> pflow \<times> entry" where
  "oldest [] o1 = o1"
| "oldest (e # t) o1 = oldest t (if en_last_us (snd e) < en_last_us (snd o1) then e else o1)"

definition erase_oldest :: "affinity \<Rightarrow> affinity" where
  "erase_oldest t = remove1 (oldest t (hd t)) t"

definition make_room :: "u64 \<Rightarrow> affinity \<Rightarrow> affinity" where
  "make_room now t =
     (if length t \<ge> pool_cap
      then let t1 = pool_prune now t in if length t1 \<ge> pool_cap then erase_oldest t1 else t1
      else t)"

definition pool_choose :: "(pflow \<times> entry \<Rightarrow> affinity \<Rightarrow> affinity) \<Rightarrow> bytes \<Rightarrow> u64 list \<Rightarrow> u64 \<Rightarrow> u64 \<Rightarrow>
    affinity \<Rightarrow> u64 \<times> affinity" where
  "pool_choose place packet live_ids now preferred t =
     (if live_ids = [] then (0, t)
      else let key = packet_flow packet in
      let fresh = (if preferred \<noteq> 0 \<and> preferred \<in> set live_ids then preferred
                   else live_ids ! (unat (flow_hash key) mod length live_ids)) in
      case index_of (\<lambda>e. flow_eq (fst e) key) t of
        Some i \<Rightarrow>
          (let (k, e) = t ! i in
           if en_lane e \<in> set live_ids then (en_lane e, t[i := (k, e\<lparr>en_last_us := now\<rparr>)])
           else (fresh, t[i := (k, \<lparr>en_lane = fresh, en_last_us = now\<rparr>)]))
      | None \<Rightarrow> (fresh, place (key, \<lparr>en_lane = fresh, en_last_us = now\<rparr>) (make_room now t)))"

section \<open>Invariant and effect\<close>

definition place_ok :: "(pflow \<times> entry \<Rightarrow> affinity \<Rightarrow> affinity) \<Rightarrow> bool" where
  "place_ok place \<longleftrightarrow> (\<forall>e t. mset (place e t) = add_mset e (mset t))"

definition pool_inv :: "affinity \<Rightarrow> bool" where
  "pool_inv t \<longleftrightarrow> distinct (map fst t) \<and> fst ` set t \<subseteq> range packet_flow \<and> length t \<le> pool_cap"

lemma place_sets:
  assumes "place_ok place"
  shows "set (place e t) = insert e (set t)" "length (place e t) = Suc (length t)"
    "distinct (map fst (place e t)) \<longleftrightarrow> distinct (map fst (e # t))"
proof -
  have m: "mset (place e t) = mset (e # t)" using assms unfolding place_ok_def by (cases e) simp
  show "set (place e t) = insert e (set t)" using mset_eq_setD [OF m] by simp
  show "length (place e t) = Suc (length t)" using mset_eq_length [OF m] by simp
  show "distinct (map fst (place e t)) \<longleftrightarrow> distinct (map fst (e # t))"
    using m by (metis mset_eq_imp_distinct_iff mset_map)
qed

lemma oldest_in: "oldest t o1 \<in> insert o1 (set t)"
  by (induction t o1 rule: oldest.induct) auto

lemma erase_oldest_sets:
  assumes "t \<noteq> []"
  shows "set (erase_oldest t) \<subseteq> set t" "length (erase_oldest t) = length t - 1"
    "distinct (map fst t) \<Longrightarrow> distinct (map fst (erase_oldest t))"
proof -
  have i: "oldest t (hd t) \<in> set t" using oldest_in [of t "hd t"] assms by auto
  show "set (erase_oldest t) \<subseteq> set t" unfolding erase_oldest_def by (rule set_remove1_subset)
  show "length (erase_oldest t) = length t - 1" using i by (simp add: erase_oldest_def length_remove1)
  show "distinct (map fst t) \<Longrightarrow> distinct (map fst (erase_oldest t))"
    unfolding erase_oldest_def by (simp add: distinct_map inj_on_def)
qed

lemma make_room:
  assumes "pool_inv t"
  shows "set (make_room now t) \<subseteq> set t" "length (make_room now t) < pool_cap"
    "distinct (map fst (make_room now t))" "length t < pool_cap \<Longrightarrow> make_room now t = t"
proof -
  have d: "distinct (map fst t)" and l: "length t \<le> pool_cap" using assms by (simp_all add: pool_inv_def)
  have p: "set (pool_prune now t) \<subseteq> set t" "length (pool_prune now t) \<le> pool_cap"
    "distinct (map fst (pool_prune now t))"
    using d order_trans [OF length_filter_le l] by (auto simp: pool_prune_def distinct_map inj_on_def)
  have ne: "pool_prune now t \<noteq> []" if "length (pool_prune now t) \<ge> pool_cap"
    using that by (auto simp: pool_cap_def)
  show "set (make_room now t) \<subseteq> set t"
    using p erase_oldest_sets(1) [OF ne] by (auto simp: make_room_def Let_def)
  show "length (make_room now t) < pool_cap"
    using p(2) erase_oldest_sets(2) [OF ne] by (auto simp: make_room_def Let_def pool_cap_def)
  show "distinct (map fst (make_room now t))"
    using p(3) d erase_oldest_sets(3) [OF ne] by (auto simp: make_room_def Let_def)
  show "length t < pool_cap \<Longrightarrow> make_room now t = t" by (simp add: make_room_def)
qed

lemma map_of_update:
  assumes "distinct (map fst t)" "i < length t" "t ! i = (k, e)"
  shows "map_of (t[i := (k, e')]) = (map_of t)(k \<mapsto> e')"
  using assms
proof (induction t arbitrary: i)
  case (Cons a t)
  show ?case
  proof (cases i)
    case (Suc j)
    then have "t ! j = (k, e)" "j < length t" using Cons.prems by simp_all
    then have "(k, e) \<in> set t" by (metis nth_mem)
    then have "k \<in> fst ` set t" by (metis fst_conv imageI)
    then have "fst a \<noteq> k" using Cons.prems(1) by auto
    with Suc Cons show ?thesis by (cases a) (auto simp: fun_eq_iff)
  qed (use Cons.prems in auto)
qed simp

lemma pool_index:
  assumes "pool_inv t"
  shows "index_of (\<lambda>e. flow_eq (fst e) (packet_flow p)) t = Some i \<Longrightarrow>
      i < length t \<and> fst (t ! i) = packet_flow p \<and> map_of t (packet_flow p) = Some (snd (t ! i))"
    and "index_of (\<lambda>e. flow_eq (fst e) (packet_flow p)) t = None \<Longrightarrow> map_of t (packet_flow p) = None"
proof -
  have eq: "flow_eq (fst e) (packet_flow p) \<longleftrightarrow> fst e = packet_flow p" if "e \<in> set t" for e
  proof -
    have "fst e \<in> range packet_flow" using assms that by (auto simp: pool_inv_def)
    then show ?thesis by (auto simp: flow_eq_packet_flow)
  qed
  { assume "index_of (\<lambda>e. flow_eq (fst e) (packet_flow p)) t = Some i"
    then have i: "i < length t" "fst (t ! i) = packet_flow p"
      using index_of_Some eq by (metis nth_mem)+
    have "(packet_flow p, snd (t ! i)) \<in> set t" using i by (metis nth_mem prod.collapse)
    then have "map_of t (packet_flow p) = Some (snd (t ! i))"
      using assms by (simp add: pool_inv_def)
    with i show "i < length t \<and> fst (t ! i) = packet_flow p \<and> map_of t (packet_flow p) = Some (snd (t ! i))"
      by simp }
  { assume "index_of (\<lambda>e. flow_eq (fst e) (packet_flow p)) t = None"
    then have "packet_flow p \<notin> fst ` set t" using eq by (auto simp: index_of_None)
    then show "map_of t (packet_flow p) = None" by (simp add: map_of_eq_None_iff) }
qed

text \<open>What a choice does to the table, looked up by key.\<close>

lemma choose_effect:
  assumes inv: "pool_inv t" and place: "place_ok place" and live: "live \<noteq> []"
    and c: "pool_choose place p live now preferred t = (lane, t')"
  shows "pool_inv t'" "lane \<in> set live" "map_of t' (packet_flow p) = Some \<lparr>en_lane = lane, en_last_us = now\<rparr>"
    "\<And>e. map_of t (packet_flow p) = Some e \<Longrightarrow> en_lane e \<in> set live \<Longrightarrow> lane = en_lane e"
    "\<And>k. k \<noteq> packet_flow p \<Longrightarrow> map_of t' k = None \<or> map_of t' k = map_of t k"
    "\<And>k. k \<noteq> packet_flow p \<Longrightarrow> length t < pool_cap \<or> map_of t (packet_flow p) \<noteq> None \<Longrightarrow>
      map_of t' k = map_of t k"
    "fst ` set t' \<subseteq> insert (packet_flow p) (fst ` set t)"
proof -
  let ?key = "packet_flow p"
  let ?f = "if preferred \<noteq> 0 \<and> preferred \<in> set live then preferred
    else live ! (unat (flow_hash ?key) mod length live)"
  have f: "?f \<in> set live" using live by simp
  have d: "distinct (map fst t)" using inv by (simp add: pool_inv_def)
  have "pool_inv t' \<and> lane \<in> set live \<and> map_of t' ?key = Some \<lparr>en_lane = lane, en_last_us = now\<rparr> \<and>
    (\<forall>e. map_of t ?key = Some e \<longrightarrow> en_lane e \<in> set live \<longrightarrow> lane = en_lane e) \<and>
    (\<forall>k. k \<noteq> ?key \<longrightarrow> (map_of t' k = None \<or> map_of t' k = map_of t k) \<and>
      (length t < pool_cap \<or> map_of t ?key \<noteq> None \<longrightarrow> map_of t' k = map_of t k)) \<and>
    fst ` set t' \<subseteq> insert ?key (fst ` set t)"
  proof (cases "index_of (\<lambda>e. flow_eq (fst e) ?key) t")
    case (Some i)
    note ix = pool_index(1) [OF inv Some]
    then obtain e where e: "t ! i = (?key, e)" "i < length t" "map_of t ?key = Some e" by (cases "t ! i") auto
    define e' where "e' = \<lparr>en_lane = lane, en_last_us = now\<rparr>"
    have r: "t' = t[i := (?key, e')] \<and> lane \<in> set live \<and> (en_lane e \<in> set live \<longrightarrow> lane = en_lane e)"
      using c f Some e(1) live by (cases e) (auto simp: pool_choose_def Let_def e'_def split: if_splits)
    have keys: "map fst t' = map fst t" using r e by (simp add: map_update) (metis fst_conv length_map list_update_id nth_map)
    then have "fst ` set t' = fst ` set t" by (metis list.set_map)
    moreover have "length t' = length t" using r by simp
    moreover have "map_of t' = (map_of t)(?key \<mapsto> e')" using r map_of_update [OF d e(2,1)] by simp
    ultimately show ?thesis using r e inv keys by (auto simp: pool_inv_def e'_def)
  next
    case None
    note no = pool_index(2) [OF inv None]
    let ?m = "make_room now t" and ?e = "(?key, \<lparr>en_lane = ?f, en_last_us = now\<rparr>)"
    note m = make_room [OF inv, of now]
    have r: "lane = ?f" "t' = place ?e ?m" using c None live unfolding pool_choose_def Let_def by auto
    note ps = place_sets [OF place, of ?e ?m]
    have nk: "?key \<notin> fst ` set ?m" using no m(1) by (auto simp: map_of_eq_None_iff)
    have d': "distinct (map fst t')" using ps(3) m(3) nk r by simp
    have lk: "map_of t' = (map_of ?m)(?key \<mapsto> snd ?e)"
    proof -
      have "set t' = set (?e # ?m)" using ps(1) r by simp
      then have "map_of t' = map_of (?e # ?m)"
        using d' m(3) nk map_of_inject_set [of t' "?e # ?m"] by simp
      then show ?thesis by simp
    qed
    have sub: "map_of ?m k = None \<or> map_of ?m k = map_of t k" for k
      using m(1,3) d by (cases "map_of ?m k") (auto simp: map_of_eq_Some_iff)
    have "fst ` set t' \<subseteq> insert ?key (fst ` set t)" using ps(1) r m(1) by auto
    moreover have "fst ` set t' \<subseteq> range packet_flow" using calculation inv by (auto simp: pool_inv_def)
    moreover have "length t' \<le> pool_cap" using ps(2) m(2) r by simp
    ultimately show ?thesis using r f d' lk sub no m(4) by (auto simp: pool_inv_def)
  qed
  then show "pool_inv t'" "lane \<in> set live" "map_of t' (packet_flow p) = Some \<lparr>en_lane = lane, en_last_us = now\<rparr>"
    "\<And>e. map_of t (packet_flow p) = Some e \<Longrightarrow> en_lane e \<in> set live \<Longrightarrow> lane = en_lane e"
    "\<And>k. k \<noteq> packet_flow p \<Longrightarrow> map_of t' k = None \<or> map_of t' k = map_of t k"
    "\<And>k. k \<noteq> packet_flow p \<Longrightarrow> length t < pool_cap \<or> map_of t (packet_flow p) \<noteq> None \<Longrightarrow>
      map_of t' k = map_of t k"
    "fst ` set t' \<subseteq> insert (packet_flow p) (fst ` set t)" by blast+
qed

section \<open>Properties\<close>

text \<open>
  The choice of a lane. With live lanes the chosen lane is one of them and is recorded for
  the flow, a flow whose lane is alive stays on it, another flow's record is unchanged or, when
  the table was full, forgotten, and the table never exceeds its capacity of 4096 flows. With
  no live lane the answer is 0 and the table does not change.
\<close>

theorem pool_choice:
  assumes "pool_inv t" "place_ok place" "pool_choose place p live now preferred t = (lane, t')"
  shows "pool_inv t' \<and> length t' \<le> 4096 \<and> (live = [] \<longrightarrow> lane = 0 \<and> t' = t) \<and>
    (live \<noteq> [] \<longrightarrow> lane \<in> set live \<and>
       map_of t' (packet_flow p) = Some \<lparr>en_lane = lane, en_last_us = now\<rparr> \<and>
       (\<forall>e. map_of t (packet_flow p) = Some e \<longrightarrow> en_lane e \<in> set live \<longrightarrow> lane = en_lane e) \<and>
       (\<forall>k. k \<noteq> packet_flow p \<longrightarrow>
          map_of t' k = map_of t k \<or> (map_of t' k = None \<and> length t = 4096)))"
proof (cases "live = []")
  case True
  with assms show ?thesis by (auto simp: pool_choose_def pool_inv_def pool_cap_def)
next
  case False
  note e = choose_effect [OF assms(1,2) False assms(3)]
  have "map_of t' k = map_of t k \<or> (map_of t' k = None \<and> length t = 4096)" if "k \<noteq> packet_flow p" for k
    using e(5,6) [OF that] assms(1) by (cases "length t < pool_cap") (auto simp: pool_inv_def pool_cap_def)
  moreover have "length t' \<le> 4096" using e(1) by (simp add: pool_inv_def pool_cap_def)
  ultimately show ?thesis using False e(1-4) by blast
qed

theorem pool_choice_witness:
  "\<exists>lane t'. pool_choose (#) [7] [5, 6] 9 6 [] = (lane, t') \<and> lane \<in> set [5, 6] \<and>
     map_of t' (packet_flow [7]) = Some \<lparr>en_lane = lane, en_last_us = 9\<rparr>"
proof -
  obtain lane t' where r: "pool_choose (#) [7] [5, 6] 9 6 [] = (lane, t')"
    by (cases "pool_choose (#) [7] [5, 6] 9 6 []")
  have "pool_inv []" "place_ok (#)" by (simp_all add: pool_inv_def place_ok_def)
  from pool_choice [OF this r] r show ?thesis by blast
qed

text \<open>
  What the pool does with the table, in any order: a packet is given a lane among those alive, or idle flows are pruned. The lanes
  given to the packets, \<open>None\<close> for a pruning.
\<close>

datatype affinity_op = Choose bytes "u64 list" u64 u64 | Prune u64

fun affinity_run :: "(pflow \<times> entry \<Rightarrow> affinity \<Rightarrow> affinity) \<Rightarrow> affinity_op list \<Rightarrow> affinity \<Rightarrow> u64 option list \<times> affinity" where
  "affinity_run place [] t = ([], t)"
| "affinity_run place (Choose p live now preferred # ops) t =
     (case pool_choose place p live now preferred t of (lane, t1) \<Rightarrow>
      case affinity_run place ops t1 of (lanes, t2) \<Rightarrow> (Some lane # lanes, t2))"
| "affinity_run place (Prune now # ops) t =
     (case affinity_run place ops (pool_prune now t) of (lanes, t2) \<Rightarrow> (None # lanes, t2))"

fun op_flow :: "affinity_op \<Rightarrow> pflow option" where
  "op_flow (Choose p live now preferred) = Some (packet_flow p)"
| "op_flow (Prune now) = None"

definition op_flows :: "affinity_op list \<Rightarrow> pflow set" where
  "op_flows ops = {k. Some k \<in> op_flow ` set ops}"

text \<open>
  Nothing separates a flow \<open>k\<close> from its lane, after a packet at time \<open>t\<close>: the lane is alive whenever a packet of the flow comes, and whenever
  the table is pruned the last packet of the flow is at most 180 seconds old.
\<close>

fun undisturbed :: "pflow \<Rightarrow> u64 \<Rightarrow> u64 \<Rightarrow> affinity_op list \<Rightarrow> bool" where
  "undisturbed k lane t [] \<longleftrightarrow> True"
| "undisturbed k lane t (Choose p live now preferred # ops) \<longleftrightarrow>
     (if packet_flow p = k then lane \<in> set live \<and> undisturbed k lane now ops else undisturbed k lane t ops)"
| "undisturbed k lane t (Prune now # ops) \<longleftrightarrow> (now < t \<or> now - t \<le> 180000000) \<and> undisturbed k lane t ops"

lemma op_flows_Cons:
  "op_flows (Choose p live now preferred # ops) = insert (packet_flow p) (op_flows ops)" "op_flows (Prune now # ops) = op_flows ops"
  by (auto simp: op_flows_def)

lemma finite_op_flows: "finite (op_flows ops)"
  using finite_vimageI [of "op_flow ` set ops" Some] by (simp add: op_flows_def vimage_def)

lemma pool_prune_inv:
  assumes "pool_inv t"
  shows "pool_inv (pool_prune now t)" "fst ` set (pool_prune now t) \<subseteq> fst ` set t"
    "map_of t k = Some e \<Longrightarrow> now < en_last_us e \<or> now - en_last_us e \<le> 180000000 \<Longrightarrow> map_of (pool_prune now t) k = Some e"
proof -
  have d: "distinct (map fst t)" and l: "length t \<le> pool_cap" using assms by (simp_all add: pool_inv_def)
  have d': "distinct (map fst (pool_prune now t))" using d by (auto simp: pool_prune_def distinct_map inj_on_def)
  show s: "fst ` set (pool_prune now t) \<subseteq> fst ` set t" by (auto simp: pool_prune_def)
  show "pool_inv (pool_prune now t)"
    using assms d' s order_trans [OF length_filter_le l] by (auto simp: pool_inv_def pool_prune_def)
  assume "map_of t k = Some e" "now < en_last_us e \<or> now - en_last_us e \<le> 180000000"
  then have "(k, e) \<in> set (pool_prune now t)" using d by (auto simp: pool_prune_def idle_us_def map_of_eq_Some_iff)
  then show "map_of (pool_prune now t) k = Some e" using d' by simp
qed

text \<open>The table has room for a new flow as long as there are no more flows than that.\<close>

lemma pool_room:
  assumes "pool_inv t" "card (fst ` set t \<union> insert k K) \<le> pool_cap" "finite K"
  shows "length t < pool_cap \<or> map_of t k \<noteq> None"
proof (rule ccontr)
  assume a: "\<not> (length t < pool_cap \<or> map_of t k \<noteq> None)"
  then have l: "length t = pool_cap" and nk: "k \<notin> fst ` set t"
    using assms(1) by (auto simp: pool_inv_def map_of_eq_None_iff)
  have "card (fst ` set t) = length t"
    using assms(1) distinct_card [of "map fst t"] by (simp add: pool_inv_def)
  then have "card (insert k (fst ` set t)) = Suc pool_cap" using l nk by simp
  moreover have "card (insert k (fst ` set t)) \<le> card (fst ` set t \<union> insert k K)"
    using assms(3) by (intro card_mono) auto
  ultimately show False using assms(2) by simp
qed

text \<open>One operation: the invariant, the flows of the table, and the records of the other flows.\<close>

lemma choose_step:
  assumes "place_ok place" "pool_inv t" "card (fst ` set t \<union> insert (packet_flow p) K) \<le> pool_cap" "finite K"
    and "pool_choose place p live now preferred t = (lane, t1)"
  shows "pool_inv t1" "card (fst ` set t1 \<union> K) \<le> pool_cap" "live \<noteq> [] \<Longrightarrow> lane \<in> set live"
    "live \<noteq> [] \<Longrightarrow> map_of t1 (packet_flow p) = Some \<lparr>en_lane = lane, en_last_us = now\<rparr>"
    "map_of t (packet_flow p) = Some e \<Longrightarrow> en_lane e \<in> set live \<Longrightarrow> lane = en_lane e"
    "k \<noteq> packet_flow p \<Longrightarrow> map_of t1 k = map_of t k"
proof -
  have "pool_inv t1 \<and> fst ` set t1 \<subseteq> insert (packet_flow p) (fst ` set t) \<and> (live \<noteq> [] \<longrightarrow> lane \<in> set live \<and>
      map_of t1 (packet_flow p) = Some \<lparr>en_lane = lane, en_last_us = now\<rparr>) \<and>
    (map_of t (packet_flow p) = Some e \<longrightarrow> en_lane e \<in> set live \<longrightarrow> lane = en_lane e) \<and>
    (k \<noteq> packet_flow p \<longrightarrow> map_of t1 k = map_of t k)"
  proof (cases "live = []")
    case True
    then show ?thesis using assms(2,5) by (auto simp: pool_choose_def)
  next
    case False
    note e = choose_effect [OF assms(2,1) False assms(5)]
    show ?thesis using e(1-4,7) e(6) [OF _ pool_room [OF assms(2-4)]] by blast
  qed
  moreover from this have "card (fst ` set t1 \<union> K) \<le> card (fst ` set t \<union> insert (packet_flow p) K)"
    using assms(4) by (intro card_mono) auto
  ultimately show "pool_inv t1" "card (fst ` set t1 \<union> K) \<le> pool_cap" "live \<noteq> [] \<Longrightarrow> lane \<in> set live"
    "live \<noteq> [] \<Longrightarrow> map_of t1 (packet_flow p) = Some \<lparr>en_lane = lane, en_last_us = now\<rparr>"
    "map_of t (packet_flow p) = Some e \<Longrightarrow> en_lane e \<in> set live \<Longrightarrow> lane = en_lane e"
    "k \<noteq> packet_flow p \<Longrightarrow> map_of t1 k = map_of t k"
    using assms(3) by auto
qed

lemma prune_step:
  assumes "pool_inv t" "card (fst ` set t \<union> K) \<le> pool_cap" "finite K"
  shows "pool_inv (pool_prune now t)" "card (fst ` set (pool_prune now t) \<union> K) \<le> pool_cap"
proof -
  note p = pool_prune_inv [OF assms(1), where now = now]
  show "pool_inv (pool_prune now t)" by (rule p(1))
  have "card (fst ` set (pool_prune now t) \<union> K) \<le> card (fst ` set t \<union> K)" using p(2) assms(3) by (intro card_mono) auto
  then show "card (fst ` set (pool_prune now t) \<union> K) \<le> pool_cap" using assms(2) by simp
qed

text \<open>A flow that is recorded on a lane stays there.\<close>

lemma affinity_run_stays:
  assumes "place_ok place"
  shows "pool_inv t \<Longrightarrow> card (fst ` set t \<union> op_flows ops) \<le> pool_cap \<Longrightarrow> map_of t k = Some \<lparr>en_lane = lane, en_last_us = seen\<rparr> \<Longrightarrow>
    undisturbed k lane seen ops \<Longrightarrow> affinity_run place ops t = (lanes, t') \<Longrightarrow>
    \<forall>i < length ops. op_flow (ops ! i) = Some k \<longrightarrow> lanes ! i = Some lane"
proof (induction ops arbitrary: t seen lanes)
  case (Cons op ops)
  show ?case
  proof (cases op)
    case (Choose p live now preferred)
    obtain l1 t1 where ch: "pool_choose place p live now preferred t = (l1, t1)" by fastforce
    obtain ls where r: "affinity_run place ops t1 = (ls, t')" "lanes = Some l1 # ls"
      using Cons.prems(5) ch by (auto simp: Choose split: prod.splits)
    have room: "card (fst ` set t \<union> insert (packet_flow p) (op_flows ops)) \<le> pool_cap"
      using Cons.prems(2) by (simp add: Choose op_flows_Cons)
    note c = choose_step [OF assms Cons.prems(1) room finite_op_flows ch]
    show ?thesis
    proof (cases "packet_flow p = k")
      case True
      then have l: "lane \<in> set live" "undisturbed k lane now ops" using Cons.prems(4) by (simp_all add: Choose)
      then have "l1 = lane" using c(5) Cons.prems(3) True by simp
      moreover have "map_of t1 k = Some \<lparr>en_lane = lane, en_last_us = now\<rparr>" using c(4) l(1) True \<open>l1 = lane\<close> by force
      ultimately show ?thesis using Cons.IH [OF c(1,2) _ l(2) r(1)] r(2) by (auto simp: nth_Cons split: nat.splits)
    next
      case False
      then have "map_of t1 k = Some \<lparr>en_lane = lane, en_last_us = seen\<rparr>" "undisturbed k lane seen ops"
        using c(6) [of k] Cons.prems(3,4) by (simp_all add: Choose)
      from Cons.IH [OF c(1,2) this r(1)] False r(2) show ?thesis by (auto simp: Choose nth_Cons split: nat.splits)
    qed
  next
    case (Prune now)
    obtain ls where r: "affinity_run place ops (pool_prune now t) = (ls, t')" "lanes = None # ls"
      using Cons.prems(5) by (auto simp: Prune split: prod.splits)
    have "card (fst ` set t \<union> op_flows ops) \<le> pool_cap" using Cons.prems(2) by (simp add: Prune op_flows_Cons)
    note p = prune_step [OF Cons.prems(1) this finite_op_flows, of now]
    have u: "now < seen \<or> now - seen \<le> 180000000" "undisturbed k lane seen ops" using Cons.prems(4) by (simp_all add: Prune)
    have "map_of (pool_prune now t) k = Some \<lparr>en_lane = lane, en_last_us = seen\<rparr>"
      using pool_prune_inv(3) [OF Cons.prems(1,3)] u(1) by simp
    from Cons.IH [OF p this u(2) r(1)] r(2) show ?thesis by (auto simp: Prune nth_Cons split: nat.splits)
  qed
qed simp

lemma affinity_run_length: "length (fst (affinity_run place xs t)) = length xs"
proof (induction xs arbitrary: t)
  case (Cons x xs)
  then show ?case by (cases x) (simp_all add: case_prod_beta)
qed simp

lemma affinity_run_append:
  "affinity_run place (xs @ ys) t =
     (case affinity_run place xs t of (ls, t1) \<Rightarrow> case affinity_run place ys t1 of (ls', t2) \<Rightarrow> (ls @ ls', t2))"
proof (induction xs arbitrary: t)
  case (Cons x xs)
  then show ?case by (cases x) (simp_all add: case_prod_beta)
qed simp

text \<open>Every packet gets a lane that is alive, and a packet records its flow on its lane.\<close>

lemma affinity_run_records:
  assumes "place_ok place"
  shows "pool_inv t \<Longrightarrow> card (fst ` set t \<union> op_flows (pre @ Choose p live now preferred # ops)) \<le> pool_cap \<Longrightarrow> live \<noteq> [] \<Longrightarrow>
    affinity_run place (pre @ Choose p live now preferred # ops) t = (lanes, t') \<Longrightarrow>
    \<exists>lane ls t1 ls'. lane \<in> set live \<and> length ls = length pre \<and> lanes = ls @ Some lane # ls' \<and> pool_inv t1 \<and>
      card (fst ` set t1 \<union> op_flows ops) \<le> pool_cap \<and> map_of t1 (packet_flow p) = Some \<lparr>en_lane = lane, en_last_us = now\<rparr> \<and>
      affinity_run place ops t1 = (ls', t')"
proof (induction pre arbitrary: t lanes)
  case Nil
  obtain lane t1 where ch: "pool_choose place p live now preferred t = (lane, t1)" by fastforce
  have "card (fst ` set t \<union> insert (packet_flow p) (op_flows ops)) \<le> pool_cap" using Nil.prems(2) by (simp add: op_flows_Cons)
  note c = choose_step [OF assms Nil.prems(1) this finite_op_flows ch]
  show ?case using Nil.prems(3,4) ch c(1-4) by (auto split: prod.splits)
next
  case (Cons op pre)
  let ?ops = "pre @ Choose p live now preferred # ops"
  have "\<exists>t1 x ls. pool_inv t1 \<and> card (fst ` set t1 \<union> op_flows ?ops) \<le> pool_cap \<and> affinity_run place ?ops t1 = (ls, t') \<and> lanes = x # ls"
  proof (cases op)
    case (Choose q live' now' preferred')
    obtain l1 t1 where ch: "pool_choose place q live' now' preferred' t = (l1, t1)" by fastforce
    have "card (fst ` set t \<union> insert (packet_flow q) (op_flows ?ops)) \<le> pool_cap" using Cons.prems(2) by (simp add: Choose op_flows_Cons)
    note c = choose_step(1,2) [OF assms Cons.prems(1) this finite_op_flows ch]
    show ?thesis using Cons.prems(4) ch c by (auto simp: Choose split: prod.splits)
  next
    case (Prune u)
    have "card (fst ` set t \<union> op_flows ?ops) \<le> pool_cap" using Cons.prems(2) by (simp add: Prune op_flows_Cons)
    note c = prune_step [OF Cons.prems(1) this finite_op_flows, of u]
    show ?thesis using Cons.prems(4) c by (auto simp: Prune split: prod.splits)
  qed
  then obtain t1 x ls where t1: "pool_inv t1" "card (fst ` set t1 \<union> op_flows ?ops) \<le> pool_cap" "affinity_run place ?ops t1 = (ls, t')" "lanes = x # ls"
    by blast
  from Cons.IH [OF t1(1,2) Cons.prems(3) t1(3)] show ?case unfolding t1(4) by (metis append_Cons length_Cons)
qed

text \<open>
  C30: lane affinity. Let the pool choose lanes and prune its table in any order, over any live lanes, times and preferred lanes, with at
  most 4096 flows in all. Then a packet gets a lane that is alive, and every later packet of its flow gets the same one
  for as long as nothing separates them: the lane is alive when a packet of the flow comes, and no pruning finds the last packet of the flow more than
  180 seconds old. (After such a pause the flow may change lanes.)
\<close>

theorem lane_affinity:
  assumes "place_ok place" "live \<noteq> []" "card (op_flows (before @ Choose p live now preferred # after)) \<le> 4096"
    and "affinity_run place (before @ Choose p live now preferred # after) [] = (lanes, t)"
  shows "\<exists>lane \<in> set live. lanes ! length before = Some lane \<and>
    (\<forall>n \<le> length after. undisturbed (packet_flow p) lane now (take n after) \<longrightarrow>
       (\<forall>i < n. op_flow (after ! i) = Some (packet_flow p) \<longrightarrow> lanes ! (length before + Suc i) = Some lane))"
proof -
  have "pool_inv []" by (simp add: pool_inv_def)
  from affinity_run_records [OF assms(1) this _ assms(2,4)] assms(3) obtain lane ls t1 ls' where
    l: "lane \<in> set live" "length ls = length before" "lanes = ls @ Some lane # ls'"
    and t1: "pool_inv t1" "card (fst ` set t1 \<union> op_flows after) \<le> pool_cap"
      "map_of t1 (packet_flow p) = Some \<lparr>en_lane = lane, en_last_us = now\<rparr>" "affinity_run place after t1 = (ls', t)"
    by (auto simp: pool_cap_def)
  have "ls' ! i = Some lane" if n: "n \<le> length after" "undisturbed (packet_flow p) lane now (take n after)" "i < n"
      "op_flow (after ! i) = Some (packet_flow p)" for n i
  proof -
    obtain ls2 t2 where r: "affinity_run place (take n after) t1 = (ls2, t2)" by fastforce
    have "affinity_run place (take n after @ drop n after) t1 = (ls', t)" using t1(4) by simp
    then have "take n ls' = ls2" using affinity_run_append [of place "take n after" "drop n after" t1]
        affinity_run_length [of place "take n after" t1] n(1) r by (auto split: prod.splits)
    moreover have "card (fst ` set t1 \<union> op_flows (take n after)) \<le> pool_cap"
    proof -
      have "op_flows (take n after) \<subseteq> op_flows after" by (auto simp: op_flows_def dest: in_set_takeD)
      then have "card (fst ` set t1 \<union> op_flows (take n after)) \<le> card (fst ` set t1 \<union> op_flows after)"
        using finite_op_flows by (intro card_mono) auto
      then show ?thesis using t1(2) by simp
    qed
    from affinity_run_stays [OF assms(1) t1(1) this t1(3) n(2) r] have "ls2 ! i = Some lane" using n by simp
    ultimately show ?thesis using n(3) by (metis nth_take)
  qed
  then show ?thesis using l by (auto simp: nth_append)
qed

text \<open>
  Two flows: the first comes back to its lane after a pruning a minute later, although another lane is preferred by then.
\<close>

theorem lane_affinity_witness:
  "\<exists>lanes t. affinity_run (#) [Choose [7] [5, 6] 1 6, Choose [8] [5, 6] 2 5, Prune 60000000, Choose [7] [6, 5] 60000001 5] [] = (lanes, t) \<and>
     lanes ! 0 = Some 6 \<and> lanes ! 3 = Some 6"
proof -
  let ?after = "[Choose [8] [5, 6] 2 5, Prune 60000000, Choose [7] [6, 5] 60000001 5]"
  let ?ops = "[] @ Choose [7] [5, 6] 1 6 # ?after"
  obtain lanes t where r: "affinity_run (#) ?ops [] = (lanes, t)" by fastforce
  have "op_flows ?ops = {packet_flow [7], packet_flow [8]}" by (auto simp: op_flows_Cons) (simp add: op_flows_def)
  then have c: "card (op_flows ?ops) \<le> 4096" by (simp add: card_insert_if)
  have 0: "lanes ! 0 = Some 6" using r by (auto simp: pool_choose_def split: prod.splits)
  have p: "place_ok (#)" by (simp add: place_ok_def)
  have ne: "[5, 6] \<noteq> ([] :: u64 list)" by simp
  from lane_affinity [OF p ne c r] obtain lane where l: "lanes ! length ([] :: affinity_op list) = Some lane" and
    stays: "\<forall>n \<le> length ?after. undisturbed (packet_flow [7]) lane 1 (take n ?after) \<longrightarrow>
      (\<forall>i < n. op_flow (?after ! i) = Some (packet_flow [7]) \<longrightarrow> lanes ! (length ([] :: affinity_op list) + Suc i) = Some lane)" by blast
  have lane: "lane = 6" using 0 l by simp
  have "undisturbed (packet_flow [7]) 6 1 (take 3 ?after)" "op_flow (?after ! 2) = Some (packet_flow [7])"
    by simp_all
  then have "lanes ! (0 + Suc 2) = Some 6" using stays [rule_format, of 3 2] unfolding lane by simp
  then have "lanes ! 3 = Some 6" by (simp del: nth_Cons_numeral)
  then show ?thesis using 0 r unfolding append_Nil by blast
qed

end
