(* ===== verification/Traffic.thy ===== *)
theory Traffic
  imports Prelude Complex_Main
begin

text \<open>
  \<open>src/cdn/include/pacetun/traffic.hpp\<close>: the reply watchdog, the recovery backoff, the keepalive
  interval, the padding and shaping budgets, the burst shaper and the latency renewal trigger.
  Times are 64-bit words with the wrap-around of the source. A \<open>double\<close> is a rational with
  every operation rounded by the parameter \<open>rnd\<close>; a random draw is an argument.
\<close>

section \<open>ReplyWatchdog\<close>

text \<open>The state is \<open>token_\<close>; zero is none.\<close>

definition wd_pending :: "u64 \<Rightarrow> bool" where
  "wd_pending token \<longleftrightarrow> token \<noteq> 0"

definition wd_sent :: "u64 \<Rightarrow> u64 \<Rightarrow> u64" where
  "wd_sent t token = (if \<not> wd_pending token then t else token)"

definition wd_age_us :: "u64 \<Rightarrow> u64 \<Rightarrow> u64" where
  "wd_age_us now token = (if token \<noteq> 0 \<and> token \<le> now then now - token else 0)"

definition wd_reply :: "u64 \<Rightarrow> u64 \<Rightarrow> u64 \<Rightarrow> bool \<times> u64" where
  "wd_reply t now token =
     (if token = 0 \<or> t \<noteq> token \<or> now < token then (False, token) else (True, 0))"

datatype wd_event = Sent u64 | Reply u64 u64

fun wd_step :: "wd_event \<Rightarrow> u64 \<Rightarrow> u64" where
  "wd_step (Sent t) token = wd_sent t token"
| "wd_step (Reply t now) token = snd (wd_reply t now token)"

text \<open>
  C39: a reply cannot postpone the deadline. While a probe sent at time \<open>t\<close> is unanswered, no
  further probe and no reply to any other probe changes what the watchdog waits for, so its
  age is the time since \<open>t\<close>; the answer to that probe itself clears it.
\<close>

theorem watchdog_deadline:
  assumes "t \<noteq> 0" "\<forall>e \<in> set es. \<forall>u now. e = Reply u now \<longrightarrow> u \<noteq> t"
  shows "fold wd_step es (wd_step (Sent t) 0) = t \<and>
    (t \<le> now \<longrightarrow> wd_age_us now (fold wd_step es (wd_step (Sent t) 0)) = now - t \<and>
       wd_reply t now (fold wd_step es (wd_step (Sent t) 0)) = (True, 0))"
proof -
  have "fold wd_step es t = t" using assms
  proof (induction es)
    case (Cons e es)
    then show ?case by (cases e) (auto simp: wd_sent_def wd_pending_def wd_reply_def)
  qed simp
  moreover have "wd_step (Sent t) 0 = t" by (simp add: wd_sent_def wd_pending_def)
  ultimately show ?thesis using assms(1) by (auto simp: wd_age_us_def wd_reply_def)
qed

theorem watchdog_deadline_witness:
  "wd_age_us 90 (fold wd_step [Sent 50, Reply 40 60] (wd_step (Sent 10) 0)) = 80"
  using watchdog_deadline [of 10 "[Sent 50, Reply 40 60]" 90]
  by (simp add: wd_sent_def wd_pending_def wd_reply_def wd_age_us_def)

section \<open>RecoveryBackoff\<close>

record backoff =
  bo_next :: u64
  bo_failures :: nat

definition new_backoff :: backoff where
  "new_backoff = \<lparr>bo_next = 0, bo_failures = 0\<rparr>"

definition bo_ready :: "u64 \<Rightarrow> backoff \<Rightarrow> bool" where
  "bo_ready now b \<longleftrightarrow> bo_next b \<le> now"

definition bo_started :: "u64 \<Rightarrow> backoff \<Rightarrow> backoff" where
  "bo_started now b = b\<lparr>bo_next := now + 30000000\<rparr>"

definition bo_failed :: "u64 \<Rightarrow> backoff \<Rightarrow> backoff" where
  "bo_failed now b =
     (let f = min 5 (bo_failures b + 1) in
      \<lparr>bo_next = now + of_nat (min 300 (30 * 2 ^ (f - 1))) * 1000000, bo_failures = f\<rparr>)"

definition bo_succeeded :: "u64 \<Rightarrow> backoff \<Rightarrow> backoff" where
  "bo_succeeded now b = \<lparr>bo_next = now + 30000000, bo_failures = 0\<rparr>"

definition bo_remaining_sec :: "u64 \<Rightarrow> backoff \<Rightarrow> u64" where
  "bo_remaining_sec now b =
     (if now < bo_next b then (bo_next b - now + 999999) div 1000000 else 0)"

lemma bo_failures_run:
  "bo_failures (fold bo_failed ts b) = (if ts = [] then bo_failures b else min 5 (bo_failures b + length ts))"
proof (induction ts arbitrary: b)
  case (Cons t ts)
  then show ?case by (auto simp: bo_failed_def Let_def)
qed simp

lemma backoff_delay: "min 300 (30 * 2 ^ (min 5 n - 1)) = min 300 (30 * 2 ^ (n - 1 :: nat) :: nat)"
proof (cases "n \<le> 5")
  case False
  then have "(2::nat) ^ 4 \<le> 2 ^ (n - 1)" by (intro power_increasing) auto
  with False show ?thesis by (simp add: min_def)
qed (simp add: min_def)

text \<open>
  Exponential backoff. After a success and then \<open>n\<close> failures in a row, the last at time
  \<open>now\<close>, the next attempt is due exactly \<open>min 300 (30 * 2 ^ (n - 1))\<close> seconds later, for every
  \<open>n\<close>: until then the backoff is not ready and reports the remaining seconds, rounded up, and
  then it is ready.
\<close>

theorem backoff_schedule:
  fixes ts :: "u64 list" and now t0 :: u64 and b :: backoff
  defines "s \<equiv> bo_failed now (fold bo_failed ts (bo_succeeded t0 b))"
    and "delay \<equiv> min 300 (30 * 2 ^ length ts) * 1000000 :: nat"
  assumes "unat now + delay < 2 ^ 64"
  shows "unat (bo_next s) = unat now + delay \<and>
    (bo_ready u s \<longleftrightarrow> unat now + delay \<le> unat u) \<and> bo_remaining_sec now s = of_nat (delay div 1000000)"
proof -
  have f: "min 5 (bo_failures (fold bo_failed ts (bo_succeeded t0 b)) + 1) = min 5 (Suc (length ts))"
    by (auto simp: bo_failures_run bo_succeeded_def)
  have "min 300 (30 * 2 ^ (min 5 (Suc (length ts)) - 1)) = min 300 (30 * 2 ^ length ts :: nat)"
    using backoff_delay [of "Suc (length ts)"] by simp
  then have "bo_next s = now + of_nat (min 300 (30 * 2 ^ length ts)) * 1000000"
    unfolding s_def bo_failed_def Let_def f by simp
  then have n: "bo_next s = now + of_nat delay" unfolding delay_def by simp
  have d: "unat (of_nat delay :: u64) = delay" using assms(3) by (simp add: unat_of_nat)
  have u: "unat (bo_next s) = unat now + delay"
    unfolding n using assms(3) d by (simp add: unat_word_ariths)
  have pos: "0 < delay" by (simp add: delay_def)
  have "now < bo_next s" using u pos by (simp add: word_less_nat_alt)
  moreover have "bo_next s - now + 999999 = of_nat (delay + 999999)" unfolding n by simp
  moreover have "of_nat (delay + 999999) div (1000000 :: u64) = of_nat ((delay + 999999) div 1000000)"
  proof -
    have "delay + 999999 < 2 ^ 64" by (simp add: delay_def min_def)
    then have "unat (of_nat (delay + 999999) :: u64) = delay + 999999" by (simp only: unat_of_nat) simp
    then show ?thesis by (simp only: word_arith_nat_div) simp
  qed
  moreover have "(delay + 999999) div 1000000 = delay div 1000000"
    by (simp add: delay_def)
  ultimately have "bo_remaining_sec now s = of_nat (delay div 1000000)"
    by (simp add: bo_remaining_sec_def)
  with u show ?thesis by (simp add: bo_ready_def word_le_nat_alt)
qed

theorem backoff_schedule_witness:
  "unat (bo_next (bo_failed 3000 (fold bo_failed [1000, 2000] (bo_succeeded 0 new_backoff)))) = 120003000"
  using backoff_schedule [of 3000 "[1000, 2000]" 0 new_backoff] by simp

section \<open>traffic_interval_ms\<close>

text \<open>\<open>draw spread\<close> is the value of \<open>uniform_int_distribution(-spread, spread)\<close>.\<close>

definition traffic_interval_ms :: "int \<Rightarrow> int \<Rightarrow> (int \<Rightarrow> int) \<Rightarrow> int" where
  "traffic_interval_ms seconds jitter_pct draw =
     (let base = seconds * 1000; spread = base * jitter_pct div 100 in max 1 (base + draw spread))"

section \<open>Budgets\<close>

text \<open>
  A rounding function is within \<open>\<epsilon>\<close> on \<open>[0, M]\<close> and stays there: IEEE double arithmetic does, for
  an integer \<open>M\<close>, with \<open>\<epsilon>\<close> half a unit in the last place of \<open>M\<close>. The identity is the exact
  arithmetic, with \<open>\<epsilon> = 0\<close>.
\<close>

definition rounding :: "(rat \<Rightarrow> rat) \<Rightarrow> rat \<Rightarrow> rat \<Rightarrow> bool" where
  "rounding rnd \<epsilon> M \<longleftrightarrow> 0 \<le> \<epsilon> \<and> (\<forall>x. 0 \<le> x \<longrightarrow> 0 \<le> rnd x) \<and> (\<forall>x. 0 \<le> x \<longrightarrow> x \<le> M \<longrightarrow> rnd x \<le> x + \<epsilon> \<and> rnd x \<le> M)"

text \<open>\<open>static_cast<int>\<close> of a non-negative double.\<close>

definition to_int :: "rat \<Rightarrow> int" where
  "to_int x = \<lfloor>x\<rfloor>"

text \<open>Adding to a level under a cap and taking from it, the two updates of all the budgets.\<close>

definition earn :: "(rat \<Rightarrow> rat) \<Rightarrow> rat \<Rightarrow> rat \<Rightarrow> rat \<Rightarrow> rat" where
  "earn rnd cap e level = min cap (rnd (level + e))"

definition take_out :: "(rat \<Rightarrow> rat) \<Rightarrow> nat \<Rightarrow> rat \<Rightarrow> rat" where
  "take_out rnd n level = max 0 (rnd (level - of_nat n))"

record padding_budget =
  pb_data :: rat
  pb_control :: rat
  pb_last :: u64
  pb_pct :: nat

definition new_padding_budget :: "nat \<Rightarrow> u64 \<Rightarrow> padding_budget" where
  "new_padding_budget percent now = \<lparr>pb_data = 0, pb_control = 128, pb_last = now, pb_pct = percent\<rparr>"

definition data_earned :: "(rat \<Rightarrow> rat) \<Rightarrow> nat \<Rightarrow> nat \<Rightarrow> rat" where
  "data_earned rnd pct bytes = rnd (rnd (of_nat (bytes * pct)) / 100)"

definition data_allowance :: "(rat \<Rightarrow> rat) \<Rightarrow> nat \<Rightarrow> int \<Rightarrow> padding_budget \<Rightarrow> int \<times> padding_budget" where
  "data_allowance rnd bytes maximum b =
     (let d = earn rnd 4096 (data_earned rnd (pb_pct b) bytes) (pb_data b) in
      (min (maximum + 3) (to_int d), b\<lparr>pb_data := d\<rparr>))"

definition spend_data :: "(rat \<Rightarrow> rat) \<Rightarrow> nat \<Rightarrow> padding_budget \<Rightarrow> padding_budget" where
  "spend_data rnd extra b = b\<lparr>pb_data := take_out rnd extra (pb_data b)\<rparr>"

definition control_allowance :: "(rat \<Rightarrow> rat) \<Rightarrow> int \<Rightarrow> u64 \<Rightarrow> padding_budget \<Rightarrow> int \<times> padding_budget" where
  "control_allowance rnd maximum now b =
     (let c = (if pb_last b \<le> now
               then earn rnd 128 (rnd (rnd (rnd (of_nat (unat (now - pb_last b))) * 64) / 1000000)) (pb_control b)
               else pb_control b) in
      (min (maximum + 3) (to_int c), b\<lparr>pb_control := c, pb_last := now\<rparr>))"

definition spend_control :: "(rat \<Rightarrow> rat) \<Rightarrow> nat \<Rightarrow> padding_budget \<Rightarrow> padding_budget" where
  "spend_control rnd extra b = b\<lparr>pb_control := take_out rnd extra (pb_control b)\<rparr>"

record shape_budget =
  sb_tokens :: rat
  sb_last :: u64
  sb_rate :: nat
  sb_burst :: nat
  sb_enabled :: bool

definition new_shape_budget :: "bool \<Rightarrow> nat \<Rightarrow> nat \<Rightarrow> u64 \<Rightarrow> shape_budget" where
  "new_shape_budget enabled rate burst now =
     \<lparr>sb_tokens = of_nat burst, sb_last = now, sb_rate = rate, sb_burst = burst, sb_enabled = enabled\<rparr>"

definition shape_earned :: "(rat \<Rightarrow> rat) \<Rightarrow> nat \<Rightarrow> u64 \<Rightarrow> rat" where
  "shape_earned rnd rate elapsed = rnd (rnd (rnd (of_nat (unat elapsed)) * of_nat rate) / 1000000)"

definition shape_allowance :: "(rat \<Rightarrow> rat) \<Rightarrow> int \<Rightarrow> u64 \<Rightarrow> shape_budget \<Rightarrow> int \<times> shape_budget" where
  "shape_allowance rnd requested now b =
     (if \<not> sb_enabled b then (requested, b)
      else let t = (if sb_last b < now
                    then earn rnd (of_nat (sb_burst b)) (shape_earned rnd (sb_rate b) (now - sb_last b)) (sb_tokens b)
                    else sb_tokens b) in
        (min requested (to_int t), b\<lparr>sb_tokens := t, sb_last := now\<rparr>))"

definition shape_spend :: "(rat \<Rightarrow> rat) \<Rightarrow> nat \<Rightarrow> shape_budget \<Rightarrow> shape_budget" where
  "shape_spend rnd n b = (if sb_enabled b then b\<lparr>sb_tokens := take_out rnd n (sb_tokens b)\<rparr> else b)"

subsection \<open>Levels stay within their caps, and spending within what was earned\<close>

lemma earn_bounds:
  assumes "rounding rnd \<epsilon> cap" "0 \<le> level" "level \<le> cap" "0 \<le> e"
  shows "0 \<le> earn rnd cap e level" "earn rnd cap e level \<le> cap" "earn rnd cap e level \<le> level + e + \<epsilon>"
proof -
  have s: "0 \<le> level + e" using assms by simp
  with assms(1) have "0 \<le> rnd (level + e)" by (simp add: rounding_def)
  then show "0 \<le> earn rnd cap e level" using assms by (simp add: earn_def)
  show "earn rnd cap e level \<le> cap" by (simp add: earn_def)
  show "earn rnd cap e level \<le> level + e + \<epsilon>"
  proof (cases "level + e \<le> cap")
    case True
    with assms(1) s have "rnd (level + e) \<le> level + e + \<epsilon>" by (simp add: rounding_def)
    then show ?thesis by (simp add: earn_def)
  next
    case False
    then have "cap \<le> level + e + \<epsilon>" using assms(1) unfolding rounding_def by linarith
    then show ?thesis unfolding earn_def by (rule order_trans [OF min.cobounded1])
  qed
qed

lemma take_out_bounds:
  assumes "rounding rnd \<epsilon> cap" "level \<le> cap" "of_nat n \<le> level"
  shows "0 \<le> take_out rnd n level" "take_out rnd n level \<le> level - of_nat n + \<epsilon>" "take_out rnd n level \<le> cap"
proof -
  show "0 \<le> take_out rnd n level" by (simp add: take_out_def)
  have "0 \<le> level - of_nat n" "level - of_nat n \<le> cap" "0 \<le> \<epsilon>" using assms by (simp_all add: rounding_def add_increasing2 diff_le_eq)
  then show "take_out rnd n level \<le> level - of_nat n + \<epsilon>" "take_out rnd n level \<le> cap"
    using assms(1) by (auto simp: take_out_def rounding_def)
qed

text \<open>The draws of a lane from the shared shape budget: a request, the time, and what was used.\<close>

type_synonym shape_use = "int \<times> u64 \<times> nat"

fun shape_run :: "(rat \<Rightarrow> rat) \<Rightarrow> shape_use list \<Rightarrow> shape_budget \<Rightarrow> shape_budget option" where
  "shape_run rnd [] b = Some b"
| "shape_run rnd ((requested, now, n) # us) b =
     (case shape_allowance rnd requested now b of (a, b1) \<Rightarrow>
        if int n \<le> a then shape_run rnd us (shape_spend rnd n b1) else None)"

fun earned_over :: "(rat \<Rightarrow> rat) \<Rightarrow> nat \<Rightarrow> u64 \<Rightarrow> shape_use list \<Rightarrow> rat" where
  "earned_over rnd rate prev [] = 0"
| "earned_over rnd rate prev ((requested, now, n) # us) =
     (if prev < now then shape_earned rnd rate (now - prev) else 0) + earned_over rnd rate now us"

lemma shape_earned_nonneg:
  assumes "rounding rnd \<epsilon> M"
  shows "0 \<le> shape_earned rnd rate t"
proof -
  have nn: "0 \<le> x \<Longrightarrow> 0 \<le> rnd x" for x using assms by (simp add: rounding_def)
  show ?thesis
    unfolding shape_earned_def by (intro nn divide_nonneg_nonneg mult_nonneg_nonneg of_nat_0_le_iff) simp_all
qed

lemma shape_run_spent:
  assumes "rounding rnd \<epsilon> (of_nat (sb_burst b))" "sb_enabled b"
  shows "0 \<le> sb_tokens b \<Longrightarrow> sb_tokens b \<le> of_nat (sb_burst b) \<Longrightarrow> shape_run rnd us b = Some b' \<Longrightarrow>
    of_nat (sum_list (map (\<lambda>u. snd (snd u)) us)) + sb_tokens b'
      \<le> sb_tokens b + earned_over rnd (sb_rate b) (sb_last b) us + of_nat (length us) * (2 * \<epsilon>) \<and>
    0 \<le> sb_tokens b'"
  using assms
proof (induction us arbitrary: b)
  case (Cons u us)
  obtain requested now n where u: "u = (requested, now, n)" by (cases u)
  let ?e = "if sb_last b < now then shape_earned rnd (sb_rate b) (now - sb_last b) else 0"
  obtain a b1 where al: "shape_allowance rnd requested now b = (a, b1)"
    by (cases "shape_allowance rnd requested now b")
  then have run: "int n \<le> a" "shape_run rnd us (shape_spend rnd n b1) = Some b'"
    using Cons.prems(3) u by (auto split: if_splits)
  note E = earn_bounds [OF Cons.prems(4,1,2) shape_earned_nonneg [OF Cons.prems(4)], of "sb_rate b" "now - sb_last b"]
  have eps: "0 \<le> \<epsilon>" using Cons.prems(4) by (simp add: rounding_def)
  have b1: "sb_rate b1 = sb_rate b" "sb_burst b1 = sb_burst b" "sb_enabled b1" "sb_last b1 = now"
    "a \<le> to_int (sb_tokens b1)"
    using al Cons.prems(5) by (auto simp: shape_allowance_def Let_def)
  have t1: "0 \<le> sb_tokens b1" "sb_tokens b1 \<le> of_nat (sb_burst b)" "sb_tokens b1 \<le> sb_tokens b + ?e + \<epsilon>"
    using al Cons.prems(1,2,5) E eps by (auto simp: shape_allowance_def Let_def)
  have "int n \<le> \<lfloor>sb_tokens b1\<rfloor>" using run(1) b1(5) by (simp add: to_int_def)
  then have n: "of_nat n \<le> sb_tokens b1" by (metis le_floor_iff of_int_of_nat_eq)
  note T = take_out_bounds [OF Cons.prems(4) t1(2) n]
  let ?b2 = "shape_spend rnd n b1"
  have b2: "sb_rate ?b2 = sb_rate b" "sb_burst ?b2 = sb_burst b" "sb_enabled ?b2" "sb_last ?b2 = now"
    "sb_tokens ?b2 = take_out rnd n (sb_tokens b1)" using b1 by (simp_all add: shape_spend_def)
  have ih: "of_nat (sum_list (map (\<lambda>u. snd (snd u)) us)) + sb_tokens b'
      \<le> sb_tokens ?b2 + earned_over rnd (sb_rate ?b2) (sb_last ?b2) us + of_nat (length us) * (2 * \<epsilon>) \<and>
    0 \<le> sb_tokens b'"
    using Cons.prems(4) b2 T run(2) by (intro Cons.IH) simp_all
  have eps2: "of_nat (length (u # us)) * (2 * \<epsilon>) = of_nat (length us) * (2 * \<epsilon>) + 2 * \<epsilon>"
    by (simp add: algebra_simps)
  show ?case using ih T(2) t1(3) by (simp only: b2 eps2) (simp add: u)
qed simp

text \<open>
  Rounding with a relative error of \<open>u\<close> where nothing underflows: IEEE double arithmetic with \<open>u = 1 / 2 ^ 53\<close>.
\<close>

definition relative_rounding :: "(rat \<Rightarrow> rat) \<Rightarrow> rat \<Rightarrow> bool" where
  "relative_rounding rnd u \<longleftrightarrow> 0 \<le> u \<and> u \<le> 1 / 2 \<and> rnd 0 = 0 \<and>
     (\<forall>x. 1 / 10 ^ 9 \<le> x \<longrightarrow> x * (1 - u) \<le> rnd x \<and> rnd x \<le> x * (1 + u))"

lemma relative_roundingD:
  assumes "relative_rounding rnd u" "1 / 10 ^ 9 \<le> x"
  shows "x / 2 \<le> rnd x" "rnd x \<le> x * (1 + u)"
proof -
  have r: "x * (1 - u) \<le> rnd x" "rnd x \<le> x * (1 + u)" "u \<le> 1 / 2" using assms by (simp_all add: relative_rounding_def)
  have "x * (1 / 2) \<le> x * (1 - u)" using assms(2) r(3) by (intro mult_left_mono) auto
  then show "x / 2 \<le> rnd x" "rnd x \<le> x * (1 + u)" using r by auto
qed

text \<open>What is earned is the rate times the time in seconds, up to the rounding of three operations.\<close>

lemma shape_earned_le:
  assumes "relative_rounding rnd u"
  shows "shape_earned rnd rate t \<le> of_nat rate * (of_nat (unat t) / 1000000) * (1 + u) ^ 3"
proof (cases "unat t = 0 \<or> rate = 0")
  case True
  then show ?thesis using assms by (auto simp: shape_earned_def relative_rounding_def unat_eq_0)
next
  case False
  let ?t = "of_nat (unat t) :: rat" and ?r = "of_nat rate :: rat"
  let ?a = "rnd ?t" let ?c = "rnd (?a * ?r)"
  have "of_nat 1 \<le> ?t" "of_nat 1 \<le> ?r" using False by (intro of_nat_mono; linarith)+
  then have pos: "1 \<le> ?t" "1 \<le> ?r" by (simp_all only: of_nat_1)
  have u: "0 \<le> u" "0 \<le> 1 + u" using assms by (simp_all add: relative_rounding_def)
  have "1 / 10 ^ 9 \<le> ?t" by (rule order_trans [OF _ pos(1)]) simp
  note t = relative_roundingD [OF assms this]
  then have a: "1 / 2 \<le> ?a" "?a \<le> ?t * (1 + u)" using pos(1) by linarith+
  have ar: "1 / 2 * 1 \<le> ?a * ?r" using a(1) pos(2) by (intro mult_mono) auto
  then have "1 / 10 ^ 9 \<le> ?a * ?r" by (rule order_trans [rotated]) simp
  note ar' = relative_roundingD [OF assms this]
  then have c: "1 / 4 \<le> ?c" "?c \<le> ?a * ?r * (1 + u)" using ar by linarith+
  have "rnd (?c / 1000000) \<le> ?c / 1000000 * (1 + u)" using c(1) by (intro relative_roundingD(2) [OF assms]) simp
  also have "\<dots> \<le> (?a * ?r * (1 + u)) / 1000000 * (1 + u)" using c(2) u(2) by (intro mult_right_mono divide_right_mono) auto
  also have "\<dots> \<le> (?t * (1 + u) * ?r * (1 + u)) / 1000000 * (1 + u)"
    using a(2) u(2) pos(2) by (intro mult_right_mono divide_right_mono) auto
  also have "\<dots> = ?r * (?t / 1000000) * (1 + u) ^ 3" by (simp add: power3_eq_cube)
  finally show ?thesis by (simp add: shape_earned_def)
qed

abbreviation use_times :: "shape_use list \<Rightarrow> u64 list" where
  "use_times us \<equiv> map (\<lambda>u. fst (snd u)) us"

lemma earned_over_le:
  assumes "relative_rounding rnd u"
  shows "sorted (t # use_times us) \<Longrightarrow>
    earned_over rnd rate t us \<le> of_nat rate * (of_nat (unat (last (t # use_times us) - t)) / 1000000) * (1 + u) ^ 3"
proof (induction us arbitrary: t)
  case (Cons x us)
  obtain requested now n where x: "x = (requested, now, n)" by (cases x)
  let ?stop = "last (now # use_times us)" and ?f = "\<lambda>k :: nat. of_nat rate * (of_nat k / 1000000) * (1 + u) ^ 3 :: rat"
  have le: "t \<le> now" using Cons.prems x by simp
  have "?stop \<in> set (now # use_times us)" by (rule last_in_set) simp
  then have "now \<le> ?stop" using Cons.prems x by auto
  then have "unat (?stop - t) = unat (?stop - now) + unat (now - t)" using le by (simp add: unat_sub word_le_nat_alt)
  then have split: "?f (unat (?stop - t)) = ?f (unat (?stop - now)) + ?f (unat (now - t))" by (simp add: algebra_simps add_divide_distrib)
  have "0 \<le> 1 + u" using assms by (simp add: relative_rounding_def)
  then have "0 \<le> ?f (unat (now - t))" by (intro mult_nonneg_nonneg divide_nonneg_nonneg zero_le_power of_nat_0_le_iff) simp_all
  then have "(if t < now then shape_earned rnd rate (now - t) else 0) \<le> ?f (unat (now - t))" using shape_earned_le [OF assms] by simp
  moreover have "earned_over rnd rate now us \<le> ?f (unat (?stop - now))" using Cons.prems x by (intro Cons.IH) auto
  ultimately have "earned_over rnd rate t (x # us) \<le> ?f (unat (?stop - t))" unfolding split by (simp add: x)
  then show ?case by (simp add: x)
qed simp

text \<open>
  C40: the shaping budget. However the lanes draw on it at times of a clock that does not go back, as long as each uses no more than it was
  allowed, the padding spent in total is at most the burst plus the rate times the seconds that passed until the last draw, up to the
  error of floating-point arithmetic: relatively, that of the three operations that compute what was earned, and absolutely
  that of two operations on the level per draw. With shaping disabled every request is granted in full.
\<close>

theorem shape_budget_bound:
  assumes "rounding rnd \<epsilon> (of_nat burst)" "relative_rounding rnd u" "sorted (t0 # use_times us)"
    and "shape_run rnd us (new_shape_budget True rate burst t0) = Some b"
  shows "of_nat (sum_list (map (\<lambda>u. snd (snd u)) us))
      \<le> of_nat burst + of_nat rate * (of_nat (unat (last (t0 # use_times us) - t0)) / 1000000) * (1 + u) ^ 3 + of_nat (length us) * (2 * \<epsilon>) \<and>
    fst (shape_allowance rnd requested now (new_shape_budget False rate burst t0)) = requested"
proof -
  have "of_nat (sum_list (map (\<lambda>u. snd (snd u)) us)) + sb_tokens b
      \<le> of_nat burst + earned_over rnd rate t0 us + of_nat (length us) * (2 * \<epsilon>) \<and> 0 \<le> sb_tokens b"
    using shape_run_spent [of rnd \<epsilon> "new_shape_budget True rate burst t0" us b] assms
    by (simp add: new_shape_budget_def)
  moreover note earned_over_le [OF assms(2,3), of rate]
  moreover have "fst (shape_allowance rnd requested now (new_shape_budget False rate burst t0)) = requested"
    by (simp add: shape_allowance_def new_shape_budget_def)
  ultimately show ?thesis by linarith
qed

text \<open>A rate of 20 bytes a second: 50 bytes within 1.5 seconds of a burst of 40.\<close>

theorem shape_budget_bound_witness:
  "\<exists>b. shape_run id [(50, 1000000, 30), (50, 1500000, 20)] (new_shape_budget True 20 40 0) = Some b \<and>
     (50 :: rat) \<le> 40 + 20 * (1500000 / 1000000)"
proof -
  let ?us = "[(50, 1000000, 30), (50, 1500000, 20)] :: shape_use list"
  have "shape_run id ?us (new_shape_budget True 20 40 0) \<noteq> None"
    by (simp add: shape_allowance_def new_shape_budget_def shape_spend_def earn_def take_out_def shape_earned_def
        to_int_def)
  then obtain b where b: "shape_run id ?us (new_shape_budget True 20 40 0) = Some b" by blast
  have "rounding id 0 (of_nat 40)" "relative_rounding id 0" by (simp_all add: rounding_def relative_rounding_def)
  from shape_budget_bound [OF this _ b] b show ?thesis by auto
qed

text \<open>The allowances never exceed the configured padding and the levels never exceed their caps.\<close>

definition pb_ok :: "padding_budget \<Rightarrow> bool" where
  "pb_ok b \<longleftrightarrow> 0 \<le> pb_data b \<and> pb_data b \<le> 4096 \<and> 0 \<le> pb_control b \<and> pb_control b \<le> 128"

lemma data_earned_nonneg:
  assumes "rounding rnd \<epsilon> M"
  shows "0 \<le> data_earned rnd pct n"
proof -
  have nn: "0 \<le> x \<Longrightarrow> 0 \<le> rnd x" for x using assms by (simp add: rounding_def)
  show ?thesis unfolding data_earned_def by (intro nn divide_nonneg_nonneg of_nat_0_le_iff) simp_all
qed

lemma to_int_bounds: "0 \<le> x \<Longrightarrow> x \<le> of_nat n \<Longrightarrow> 0 \<le> to_int x \<and> to_int x \<le> int n"
  by (simp add: to_int_def floor_le_iff)

lemma data_allowance_ok:
  assumes "rounding rnd \<epsilon> 4096" "pb_ok b" "0 \<le> maximum" "data_allowance rnd n maximum b = (a, b')"
  shows "pb_ok b' \<and> 0 \<le> a \<and> a \<le> maximum + 3 \<and> a \<le> 4096 \<and> of_int a \<le> pb_data b' \<and>
    pb_data b' \<le> pb_data b + data_earned rnd (pb_pct b) n + \<epsilon>"
proof -
  let ?d = "earn rnd 4096 (data_earned rnd (pb_pct b) n) (pb_data b)"
  have "0 \<le> pb_data b" "pb_data b \<le> 4096" using assms(2) by (simp_all add: pb_ok_def)
  note E = earn_bounds [OF assms(1) this data_earned_nonneg [OF assms(1)], of "pb_pct b" n]
  have a: "a = min (maximum + 3) (to_int ?d)" "b' = b\<lparr>pb_data := ?d\<rparr>"
    using assms(4) by (auto simp: data_allowance_def Let_def)
  have "of_int (to_int ?d) \<le> ?d" by (simp add: to_int_def)
  moreover have "of_int a \<le> (of_int (to_int ?d) :: rat)" unfolding a by simp
  ultimately have "of_int a \<le> ?d" by (rule order_trans [rotated])
  then show ?thesis
    using a E assms(2,3) to_int_bounds [of ?d 4096] by (auto simp: pb_ok_def)
qed

lemma spend_data_ok:
  assumes "rounding rnd \<epsilon> 4096" "pb_ok b" "of_nat n \<le> pb_data b"
  shows "pb_ok (spend_data rnd n b) \<and> pb_data (spend_data rnd n b) \<le> pb_data b - of_nat n + \<epsilon>"
  using take_out_bounds [of rnd \<epsilon> 4096 "pb_data b" n] assms by (simp add: spend_data_def pb_ok_def)

lemma spend_data_pct [simp]: "pb_pct (spend_data rnd n b) = pb_pct b"
  by (simp add: spend_data_def)

text \<open>The data packets of a lane: the packet size, the maximum padding and the padding used.\<close>

fun data_run :: "(rat \<Rightarrow> rat) \<Rightarrow> (nat \<times> int \<times> nat) list \<Rightarrow> padding_budget \<Rightarrow> padding_budget option" where
  "data_run rnd [] b = Some b"
| "data_run rnd ((len, maximum, n) # us) b =
     (case data_allowance rnd len maximum b of (a, b1) \<Rightarrow>
        if int n \<le> a then data_run rnd us (spend_data rnd n b1) else None)"

lemma data_run_spent:
  assumes "rounding rnd \<epsilon> 4096"
  shows "pb_ok b \<Longrightarrow> \<forall>(_, m, _) \<in> set us. 0 \<le> m \<Longrightarrow> data_run rnd us b = Some b' \<Longrightarrow>
    of_nat (sum_list (map (\<lambda>u. snd (snd u)) us)) + pb_data b' \<le>
      pb_data b + sum_list (map (\<lambda>u. data_earned rnd (pb_pct b) (fst u)) us) + of_nat (length us) * (2 * \<epsilon>) \<and>
    pb_ok b' \<and> (\<forall>(_, m, n) \<in> set us. int n \<le> m + 3)"
proof (induction us arbitrary: b)
  case (Cons u us)
  obtain len maximum n where u: "u = (len, maximum, n)" by (cases u)
  obtain a b1 where al: "data_allowance rnd len maximum b = (a, b1)" by (cases "data_allowance rnd len maximum b")
  then have run: "int n \<le> a" "data_run rnd us (spend_data rnd n b1) = Some b'"
    using Cons.prems(3) u by (auto split: if_splits)
  have "0 \<le> maximum" using Cons.prems(2) u by simp
  note A = data_allowance_ok [OF assms Cons.prems(1) this al]
  have "(of_nat n :: rat) \<le> of_int a" using run(1) by (metis of_int_le_iff of_int_of_nat_eq)
  then have n: "of_nat n \<le> pb_data b1" using A by linarith
  have ok1: "pb_ok b1" using A by blast
  note S = spend_data_ok [OF assms ok1 n]
  have pct: "pb_pct b1 = pb_pct b" using al by (auto simp: data_allowance_def Let_def)
  have ih: "of_nat (sum_list (map (\<lambda>u. snd (snd u)) us)) + pb_data b' \<le>
      pb_data (spend_data rnd n b1) + sum_list (map (\<lambda>u. data_earned rnd (pb_pct b) (fst u)) us) +
      of_nat (length us) * (2 * \<epsilon>) \<and> pb_ok b' \<and> (\<forall>(_, m, n) \<in> set us. int n \<le> m + 3)"
    using Cons.IH [of "spend_data rnd n b1"] S Cons.prems(2) run(2) pct by simp
  have eps2: "of_nat (length (u # us)) * (2 * \<epsilon>) = of_nat (length us) * (2 * \<epsilon>) + 2 * \<epsilon>"
    by (simp add: algebra_simps)
  show ?case using ih S A run(1) by (simp only: eps2) (simp add: u)
qed simp

text \<open>
  The padding budget of a lane. Over any packets the padding spent is at most the configured
  percentage of the packet bytes (as computed in floating point), up to the rounding error of
  two operations per packet; no record carries more than its maximum padding and three bytes of
  header; and the levels stay within 4096 and 128 bytes.
\<close>

theorem padding_budget_bound:
  assumes "rounding rnd \<epsilon> 4096" "\<forall>(_, m, _) \<in> set us. 0 \<le> m"
    and "data_run rnd us (new_padding_budget pct t0) = Some b"
  shows "of_nat (sum_list (map (\<lambda>u. snd (snd u)) us)) \<le>
      sum_list (map (\<lambda>u. data_earned rnd pct (fst u)) us) + of_nat (length us) * (2 * \<epsilon>) \<and>
    (\<forall>(_, m, n) \<in> set us. int n \<le> m + 3) \<and> pb_ok b"
proof -
  have "pb_ok (new_padding_budget pct t0)" by (simp add: pb_ok_def new_padding_budget_def)
  from data_run_spent [OF assms(1) this assms(2,3)] show ?thesis
    by (auto simp: new_padding_budget_def pb_ok_def)
qed

theorem padding_budget_bound_witness:
  "\<exists>b. data_run id [(1000, 64, 50), (2000, 64, 67)] (new_padding_budget 5 0) = Some b \<and> pb_ok b \<and>
     (117 :: rat) \<le> 150"
proof -
  let ?us = "[(1000, 64, 50), (2000, 64, 67)] :: (nat \<times> int \<times> nat) list"
  have "data_run id ?us (new_padding_budget 5 0) \<noteq> None"
    by (simp add: data_allowance_def new_padding_budget_def spend_data_def earn_def take_out_def data_earned_def
        to_int_def)
  then obtain b where b: "data_run id ?us (new_padding_budget 5 0) = Some b" by blast
  have "rounding id 0 4096" by (simp add: rounding_def)
  from padding_budget_bound [OF this _ b] b show ?thesis by (auto simp: data_earned_def)
qed

section \<open>BurstShaper\<close>

record shaper =
  sh_start :: u64
  sh_window :: u64
  sh_bytes :: u64
  sh_due :: u64

definition new_shaper :: "u64 \<Rightarrow> shaper" where
  "new_shaper now = \<lparr>sh_start = now, sh_window = now, sh_bytes = 0, sh_due = 0\<rparr>"

definition sh_observe :: "u64 \<Rightarrow> u64 \<Rightarrow> shaper \<Rightarrow> shaper" where
  "sh_observe n now s =
     (let s1 = (if now - sh_window s \<ge> 1000000 then s\<lparr>sh_window := now, sh_bytes := 0\<rparr> else s)
      in s1\<lparr>sh_bytes := sh_bytes s1 + n\<rparr>)"

definition sh_bulk :: "u64 \<Rightarrow> shaper \<Rightarrow> bool" where
  "sh_bulk now s \<longleftrightarrow> now - sh_window s < 1000000 \<and> sh_bytes s \<ge> 65536"

definition sh_maximum :: "int \<Rightarrow> nat \<Rightarrow> u64 \<Rightarrow> shaper \<Rightarrow> int" where
  "sh_maximum configured startup_ms now s =
     min configured (if now - sh_start s < of_nat startup_ms * 1000 then 256 else if sh_bulk now s then 16 else 96)"

text \<open>\<open>draw n\<close> is the value of \<open>uniform_int_distribution(0, n)\<close> for this call.\<close>

definition sh_ready :: "(nat \<Rightarrow> nat) \<Rightarrow> nat \<Rightarrow> u64 \<Rightarrow> nat \<Rightarrow> u64 \<Rightarrow> shaper \<Rightarrow> bool \<times> shaper" where
  "sh_ready draw packets age_us max_delay_ms now s =
     (if packets = 0 then (False, s\<lparr>sh_due := 0\<rparr>)
      else if max_delay_ms = 0 \<or> packets \<ge> 8 \<or> sh_bulk now s \<or> age_us \<ge> of_nat max_delay_ms * 1000
        then (True, s\<lparr>sh_due := 0\<rparr>)
      else let s1 = (if sh_due s = 0 then s\<lparr>sh_due := now + of_nat (draw (max_delay_ms * 1000))\<rparr> else s) in
        if sh_due s1 \<le> now then (True, s1\<lparr>sh_due := 0\<rparr>) else (False, s1))"

text \<open>A run of polls with packets waiting that all answered \<open>false\<close>.\<close>

fun sh_holds :: "nat \<Rightarrow> ((nat \<Rightarrow> nat) \<times> nat \<times> u64 \<times> u64) list \<Rightarrow> shaper \<Rightarrow> shaper option" where
  "sh_holds max_delay [] s = Some s"
| "sh_holds max_delay ((draw, packets, age, now) # cs) s =
     (if packets = 0 then None
      else case sh_ready draw packets age max_delay now s of (ok, s1) \<Rightarrow>
        if ok then None else sh_holds max_delay cs s1)"

lemma sh_ready_due:
  assumes "sh_ready draw packets age max_delay now s = (False, s1)" "packets \<noteq> 0" "sh_due s \<noteq> 0"
  shows "s1 = s" "now < sh_due s"
  using assms by (auto simp: sh_ready_def Let_def not_le split: if_splits)

lemma sh_holds_due: "sh_holds md cs s = Some s' \<Longrightarrow> sh_due s \<noteq> 0 \<Longrightarrow> s' = s"
proof (induction cs arbitrary: s)
  case (Cons c cs)
  obtain draw packets age now where c: "c = (draw, packets, age, now)" by (cases c)
  obtain s1 where r: "packets \<noteq> 0" "sh_ready draw packets age md now s = (False, s1)" "sh_holds md cs s1 = Some s'"
    using Cons.prems(1) c by (auto split: if_splits prod.splits)
  from sh_ready_due [OF r(2,1) Cons.prems(2)] Cons.IH [of s1] r(3) Cons.prems(2) show ?case by simp
qed simp

text \<open>
  The shaper never holds packets longer than the configured delay. Once a poll at time \<open>start\<close>
  has held packets back, and however often it is polled after that, the first poll that finds
  the delay over answers that the packets may go, for any random draws in range.
\<close>

theorem shaper_delay_bounded:
  assumes "\<forall>n. draw n \<le> n" "unat start + max_delay * 1000 < 2 ^ 64" "sh_due s = 0"
    and "sh_holds max_delay ((draw, held, since, start) # cs) s = Some s'"
    and "packets \<noteq> 0" "unat start + max_delay * 1000 \<le> unat now"
  shows "fst (sh_ready draw' packets age max_delay now s')"
proof -
  obtain s1 where r: "held \<noteq> 0" "sh_ready draw held since max_delay start s = (False, s1)"
      "sh_holds max_delay cs s1 = Some s'"
    using assms(4) by (auto split: if_splits prod.splits)
  let ?d = "draw (max_delay * 1000)"
  have s1: "sh_due s1 = start + of_nat ?d" "start < sh_due s1"
    using r(1,2) assms(3) by (auto simp: sh_ready_def Let_def not_le split: if_splits)
  have d: "?d \<le> max_delay * 1000" using assms(1) by blast
  have "unat (sh_due s1) = unat start + ?d"
    unfolding s1(1) using d assms(2) by (simp add: unat_word_ariths unat_of_nat)
  with d assms(6) have due: "sh_due s1 \<le> now" by (simp add: word_le_nat_alt)
  have nz: "sh_due s1 \<noteq> 0" using s1(2) by auto
  have "s' = s1" using sh_holds_due [OF r(3) nz] .
  with due nz assms(5) show ?thesis by (simp add: sh_ready_def)
qed

theorem shaper_delay_bounded_witness:
  "fst (sh_ready (\<lambda>n. n) 1 0 5 6000 ((new_shaper 0)\<lparr>sh_due := 6000\<rparr>))"
proof (rule shaper_delay_bounded [where s = "new_shaper 0" and start = 1000 and draw = "\<lambda>n. n"
      and held = 1 and since = 0 and cs = "[(\<lambda>n. n, 2, 0, 3000)]"])
  show "sh_holds 5 [(\<lambda>n. n, 1, 0, 1000), (\<lambda>n. n, 2, 0, 3000)] (new_shaper 0) = Some ((new_shaper 0)\<lparr>sh_due := 6000\<rparr>)"
    by (simp add: sh_ready_def new_shaper_def sh_bulk_def)
qed (simp_all add: new_shaper_def)

section \<open>LatencyRenewal\<close>

record renewal =
  lr_sample :: u64
  lr_last_attempt :: u64
  lr_streak :: nat
  lr_attempted :: bool

definition new_renewal :: renewal where
  "new_renewal = \<lparr>lr_sample = 0, lr_last_attempt = 0, lr_streak = 0, lr_attempted = False\<rparr>"

text \<open>One observation: the sample's time stamp, the round trip, the clock, whether traffic flows.\<close>

record observation =
  ob_sample :: u64
  ob_rtt_us :: int
  ob_now :: u64
  ob_active :: bool

definition lr_observe :: "int \<Rightarrow> nat \<Rightarrow> nat \<Rightarrow> observation \<Rightarrow> renewal \<Rightarrow> bool \<times> renewal" where
  "lr_observe threshold_ms required cooldown_sec ob s =
     (let sample = ob_sample ob; now = ob_now ob in
      if \<not> ob_active ob then (False, s\<lparr>lr_streak := 0, lr_sample := sample\<rparr>)
      else if sample = 0 \<or> sample = lr_sample s \<or> now < sample then (False, s)
      else let s1 = s\<lparr>lr_sample := sample\<rparr> in
        if now - sample > 60000000 \<or> threshold_ms \<le> 0 \<or> ob_rtt_us ob \<le> threshold_ms * 1000
          then (False, s1\<lparr>lr_streak := 0\<rparr>)
        else let s2 = s1\<lparr>lr_streak := lr_streak s1 + 1\<rparr> in
          if lr_streak s2 < required \<or>
             (lr_attempted s2 \<and> now - lr_last_attempt s2 < of_nat cooldown_sec * 1000000)
            then (False, s2)
          else (True, s2\<lparr>lr_streak := 0, lr_last_attempt := now, lr_attempted := True\<rparr>))"

definition lr_reset_samples :: "renewal \<Rightarrow> renewal" where
  "lr_reset_samples s = s\<lparr>lr_streak := 0, lr_sample := 0\<rparr>"

text \<open>A slow sample: fresh, and above the threshold while traffic flows.\<close>

definition slow :: "int \<Rightarrow> observation \<Rightarrow> bool" where
  "slow threshold_ms ob \<longleftrightarrow> ob_active ob \<and> ob_sample ob \<noteq> 0 \<and> ob_sample ob \<le> ob_now ob \<and>
     ob_now ob - ob_sample ob \<le> 60000000 \<and> threshold_ms * 1000 < ob_rtt_us ob"

fun lr_quiet :: "int \<Rightarrow> nat \<Rightarrow> nat \<Rightarrow> observation list \<Rightarrow> renewal \<Rightarrow> renewal option" where
  "lr_quiet thr req cool [] s = Some s"
| "lr_quiet thr req cool (ob # obs) s =
     (case lr_observe thr req cool ob s of (fired, s1) \<Rightarrow> if fired then None else lr_quiet thr req cool obs s1)"

lemma lr_observe_quiet:
  assumes "lr_observe thr req cool ob s = (False, s1)"
  shows "lr_attempted s1 = lr_attempted s" "lr_last_attempt s1 = lr_last_attempt s"
    "lr_streak s1 \<le> lr_streak s + (if slow thr ob then 1 else 0)"
  using assms by (auto simp: lr_observe_def Let_def slow_def not_le not_less split: if_splits)

lemma lr_observe_fires:
  assumes "lr_observe thr req cool ob s = (True, s1)"
  shows "slow thr ob" "req \<le> lr_streak s + 1"
    "lr_attempted s \<Longrightarrow> of_nat cool * 1000000 \<le> ob_now ob - lr_last_attempt s"
    "lr_attempted s1" "lr_last_attempt s1 = ob_now ob" "lr_streak s1 = 0"
  using assms by (auto simp: lr_observe_def Let_def slow_def not_le not_less split: if_splits)

lemma lr_quiet_inv:
  "lr_quiet thr req cool obs s = Some s1 \<Longrightarrow>
   lr_attempted s1 = lr_attempted s \<and> lr_last_attempt s1 = lr_last_attempt s \<and>
   lr_streak s1 \<le> lr_streak s + length (filter (slow thr) obs)"
proof (induction obs arbitrary: s)
  case (Cons ob obs)
  then obtain s2 where "lr_observe thr req cool ob s = (False, s2)" "lr_quiet thr req cool obs s2 = Some s1"
    by (auto split: prod.splits if_splits)
  with Cons.IH [of s2] lr_observe_quiet [of thr req cool ob s s2] show ?case by (auto split: if_splits)
qed simp

text \<open>
  Renewals are rare and justified. Between one renewal of a lane and the next at least the
  cooldown has passed and at least the required number of fresh samples above the threshold
  has been seen while traffic flowed, whatever else was observed in between.
\<close>

theorem renewal_limited:
  assumes "lr_observe thr req cool ob s = (True, s1)" "lr_quiet thr req cool obs s1 = Some s2"
    and "lr_observe thr req cool ob' s2 = (True, s3)"
  shows "of_nat cool * 1000000 \<le> ob_now ob' - ob_now ob \<and> req \<le> length (filter (slow thr) (obs @ [ob']))"
  using lr_observe_fires [OF assms(1)] lr_quiet_inv [OF assms(2)] lr_observe_fires [OF assms(3)] by simp

definition demo_ob :: "u64 \<Rightarrow> observation" where
  "demo_ob t = \<lparr>ob_sample = t, ob_rtt_us = 900000, ob_now = t, ob_active = True\<rparr>"

theorem renewal_limited_witness:
  "fst (lr_observe 500 1 10 (demo_ob 10000007)
      (snd (lr_observe 500 1 10 (demo_ob 5) (snd (lr_observe 500 1 10 (demo_ob 1) new_renewal))))) \<and>
   (of_nat 10 * 1000000 :: u64) \<le> ob_now (demo_ob 10000007) - ob_now (demo_ob 1)"
proof -
  let ?o = "lr_observe 500 1 10"
  obtain s1 where 1: "?o (demo_ob 1) new_renewal = (True, s1)"
    and s1: "s1 = \<lparr>lr_sample = 1, lr_last_attempt = 1, lr_streak = 0, lr_attempted = True\<rparr>"
    by (simp add: lr_observe_def demo_ob_def new_renewal_def Let_def)
  obtain s2 where 2: "?o (demo_ob 5) s1 = (False, s2)"
    and s2: "s2 = \<lparr>lr_sample = 5, lr_last_attempt = 1, lr_streak = 1, lr_attempted = True\<rparr>"
    by (simp add: lr_observe_def demo_ob_def s1 Let_def)
  obtain s3 where 3: "?o (demo_ob 10000007) s2 = (True, s3)"
    by (simp add: lr_observe_def demo_ob_def s2 Let_def)
  have "lr_quiet 500 1 10 [demo_ob 5] s1 = Some s2" using 2 by simp
  from renewal_limited [OF 1 this 3] 1 2 3 show ?thesis by simp
qed

end
