(* ===== verification/Telemetry.thy ===== *)
theory Telemetry
  imports Prelude Complex_Main "HOL-Library.Multiset"
begin

text \<open>
  \<open>src/cdn/include/pacetun/telemetry.hpp\<close>, the bounded round-trip history with its nearest-rank
  percentiles, and \<open>src/cdn/include/pacetun/edge_selection.hpp\<close>, the rotation over the addresses
  of an edge. The mutex of the history makes each method one atomic step.
\<close>

section \<open>RttHistory\<close>

record rtt_history =
  rh_all :: "u64 list"
  rh_active :: "u64 list"
  rh_idle :: "u64 list"

record rtt_percentiles =
  rp_count :: nat
  rp_p50_ms :: rat
  rp_p95_ms :: rat
  rp_p99_ms :: rat

definition rh_reset :: rtt_history where
  "rh_reset = \<lparr>rh_all = [], rh_active = [], rh_idle = []\<rparr>"

definition rh_append :: "u64 list \<Rightarrow> u64 \<Rightarrow> u64 list" where
  "rh_append q v = (if length q = 128 then tl q else q) @ [v]"

definition rh_record :: "u64 \<Rightarrow> bool \<Rightarrow> rtt_history \<Rightarrow> rtt_history" where
  "rh_record rtt_us active h =
     (let h1 = h\<lparr>rh_all := rh_append (rh_all h) rtt_us\<rparr> in
      if active then h1\<lparr>rh_active := rh_append (rh_active h) rtt_us\<rparr>
      else h1\<lparr>rh_idle := rh_append (rh_idle h) rtt_us\<rparr>)"

text \<open>The nearest rank of a percentile in a sorted sample.\<close>

definition percentile :: "u64 list \<Rightarrow> nat \<Rightarrow> u64" where
  "percentile ordered numerator =
     (let rank = (length ordered * numerator + 99) div 100 in ordered ! (max 1 rank - 1))"

definition rh_samples :: "nat \<Rightarrow> rtt_history \<Rightarrow> u64 list" where
  "rh_samples which h = (if which = 1 then rh_active h else if which = 2 then rh_idle h else rh_all h)"

text \<open>The conversion to milliseconds is a division of doubles, rounded by \<open>rnd\<close>.\<close>

definition rh_snapshot :: "(rat \<Rightarrow> rat) \<Rightarrow> nat \<Rightarrow> rtt_history \<Rightarrow> rtt_percentiles" where
  "rh_snapshot rnd which h =
     (let samples = rh_samples which h; ordered = sort samples;
          ms = (\<lambda>x. rnd (rnd (of_nat (unat x)) / 1000)) in
      if samples = [] then \<lparr>rp_count = 0, rp_p50_ms = -1, rp_p95_ms = -1, rp_p99_ms = -1\<rparr>
      else \<lparr>rp_count = length ordered, rp_p50_ms = ms (percentile ordered 50),
            rp_p95_ms = ms (percentile ordered 95), rp_p99_ms = ms (percentile ordered 99)\<rparr>)"

definition latest :: "'a list \<Rightarrow> 'a list" where
  "latest vs = drop (length vs - 128) vs"

lemma rh_append_latest: "rh_append (latest vs) v = latest (vs @ [v])"
proof (cases "128 \<le> length vs")
  case True
  then have "length (latest vs) = 128" by (simp add: latest_def)
  then have "rh_append (latest vs) v = drop (Suc (length vs - 128)) vs @ [v]"
    unfolding rh_append_def by (simp only: if_True simp_thms) (simp only: latest_def tl_drop drop_Suc)
  also have "Suc (length vs - 128) = length vs - 127" using True by simp
  also have "drop (length vs - 127) vs @ [v] = latest (vs @ [v])" using True by (simp add: latest_def)
  finally show ?thesis .
next
  case False
  then show ?thesis by (simp add: rh_append_def latest_def)
qed

text \<open>
  The history is a window. After any recordings each of the three series holds exactly the
  latest 128 of its samples, in order, and never more.
\<close>

theorem history_window:
  fixes rs :: "(u64 \<times> bool) list"
  defines "h \<equiv> fold (\<lambda>(v, active). rh_record v active) rs rh_reset"
  shows "rh_all h = latest (map fst rs) \<and>
    rh_active h = latest (map fst (filter snd rs)) \<and>
    rh_idle h = latest (map fst (filter (\<lambda>r. \<not> snd r) rs)) \<and> length (rh_all h) \<le> 128"
  unfolding h_def
proof (induction rs rule: rev_induct)
  case Nil
  show ?case by (simp add: rh_reset_def latest_def)
next
  case (snoc r rs)
  obtain v a where r: "r = (v, a)" by (cases r)
  have "length (latest xs) \<le> 128" for xs :: "u64 list" by (simp add: latest_def)
  with snoc r show ?case by (cases a) (auto simp: rh_record_def Let_def rh_append_latest)
qed

lemma rank_bounds:
  "1 \<le> m \<Longrightarrow> m \<le> n * 100 \<Longrightarrow> 1 \<le> (m + 99) div 100 \<and> (m + 99) div 100 \<le> n \<and>
   m \<le> 100 * ((m + 99) div 100) \<and> 100 * ((m + 99) div 100 - 1) < (m :: nat)"
proof -
  define r where "r = (m + 99) div 100"
  have "m + 99 = 100 * r + (m + 99) mod 100" "(m + 99) mod 100 < 100" by (simp_all add: r_def)
  then have r: "m \<le> 100 * r" "100 * r \<le> m + 99" by linarith+
  assume "1 \<le> m" "m \<le> n * 100"
  with r have "1 \<le> r" "r \<le> n" "100 * (r - 1) < m" by auto
  with r show ?thesis by (simp add: r_def)
qed

text \<open>
  The percentiles are nearest ranks. In a non-empty window of \<open>n\<close> samples the reported
  \<open>p\<close>-th percentile, for \<open>p\<close> from 1 to 100, is one of the samples, at least \<open>p\<close> per cent of the
  samples are not above it, and fewer than \<open>p\<close> per cent are below it.
\<close>

theorem percentile_nearest_rank:
  assumes "xs \<noteq> []" "1 \<le> p" "p \<le> 100"
  defines "v \<equiv> percentile (sort xs) p"
  shows "v \<in> set xs \<and> p * length xs \<le> 100 * length (filter (\<lambda>x. x \<le> v) xs) \<and>
    100 * length (filter (\<lambda>x. x < v) xs) < p * length xs"
proof -
  let ?s = "sort xs" and ?n = "length xs"
  define rank where "rank = (?n * p + 99) div 100"
  have n: "0 < ?n" using assms(1) by simp
  have np: "1 \<le> ?n * p" using n assms(2) by (simp add: Suc_le_eq)
  have "?n * p \<le> ?n * 100" using assms(3) by simp
  then have r: "1 \<le> rank" "rank \<le> ?n" "?n * p \<le> 100 * rank" "100 * (rank - 1) < ?n * p"
    using rank_bounds [OF np, of ?n] unfolding rank_def by simp_all
  have v: "v = ?s ! (rank - 1)" using r(1) by (simp add: v_def percentile_def rank_def [symmetric] max_def)
  have i: "rank - 1 < length ?s" using r by simp
  have "v \<in> set ?s" unfolding v by (rule nth_mem [OF i])
  then have m: "v \<in> set xs" by simp
  have fs: "length (filter P xs) = length (filter P ?s)" for P :: "u64 \<Rightarrow> bool"
    by (metis mset_filter mset_sort size_mset)
  have "\<forall>x \<in> set (take rank ?s). x \<le> v"
  proof
    fix x assume "x \<in> set (take rank ?s)"
    then obtain j where "j < rank" "j < length ?s" "x = ?s ! j" by (auto simp: in_set_conv_nth)
    then show "x \<le> v" using i sorted_nth_mono [of ?s j "rank - 1"] by (simp add: v)
  qed
  then have "length (filter (\<lambda>x. x \<le> v) (take rank ?s)) = rank" using r(2) by simp
  moreover have "length (filter (\<lambda>x. x \<le> v) ?s) =
      length (filter (\<lambda>x. x \<le> v) (take rank ?s)) + length (filter (\<lambda>x. x \<le> v) (drop rank ?s))"
    by (metis append_take_drop_id filter_append length_append)
  ultimately have le: "rank \<le> length (filter (\<lambda>x. x \<le> v) xs)" by (simp only: fs)
  have "\<forall>x \<in> set (drop (rank - 1) ?s). \<not> x < v"
  proof
    fix x assume "x \<in> set (drop (rank - 1) ?s)"
    then obtain j where "j < length ?s - (rank - 1)" "x = ?s ! (rank - 1 + j)"
      by (auto simp: in_set_conv_nth)
    then show "\<not> x < v" using i sorted_nth_mono [of ?s "rank - 1" "rank - 1 + j"] by (simp add: v not_less)
  qed
  then have "filter (\<lambda>x. x < v) (drop (rank - 1) ?s) = []" by (simp add: filter_empty_conv)
  then have "filter (\<lambda>x. x < v) ?s = filter (\<lambda>x. x < v) (take (rank - 1) ?s)"
    by (metis append_Nil2 append_take_drop_id filter_append)
  then have lt: "length (filter (\<lambda>x. x < v) xs) \<le> rank - 1"
    unfolding fs by (metis length_filter_le length_take min.boundedE)
  have "p * ?n \<le> 100 * length (filter (\<lambda>x. x \<le> v) xs)" using r(3) le by (simp add: mult.commute)
  moreover have "100 * length (filter (\<lambda>x. x < v) xs) < p * ?n"
    using r(4) lt by (simp add: mult.commute)
  ultimately show ?thesis using m by blast
qed

theorem percentile_nearest_rank_witness:
  "percentile (sort [30, 10, 20]) 95 = 30 \<and> percentile (sort [30, 10, 20]) 95 \<in> set [30, 10, 20]"
  using percentile_nearest_rank [of "[30, 10, 20]" 95] by (simp add: percentile_def)

section \<open>Edge addresses\<close>

datatype edge_error = OutOfRange

definition edge_address_index :: "nat \<Rightarrow> u64 \<Rightarrow> nat \<Rightarrow> bool \<Rightarrow> (edge_error, nat) result" where
  "edge_address_index n dial_number attempt enabled =
     (if n = 0 \<or> attempt \<ge> n then Inl OutOfRange
      else Inr (if enabled then (unat dial_number mod n + attempt) mod n else attempt))"

text \<open>
  A dial tries every address once. For \<open>n\<close> addresses the attempts \<open>0, ..., n - 1\<close> give
  a permutation of them, the first being the dial number modulo the count when rotation is
  enabled; any further attempt is the out-of-range error.
\<close>

theorem edge_addresses_covered:
  assumes "0 < n"
  shows "\<exists>order. map (\<lambda>a. edge_address_index n dial a enabled) [0..<n] = map Inr order \<and>
      mset order = mset [0..<n] \<and> hd order = (if enabled then unat dial mod n else 0) \<and>
    (\<forall>a \<ge> n. edge_address_index n dial a enabled = Inl OutOfRange)"
proof -
  let ?f = "\<lambda>a. if enabled then (unat dial mod n + a) mod n else a"
  have "inj_on ?f {0..<n}"
  proof (rule inj_onI)
    fix a b assume ab: "a \<in> {0..<n}" "b \<in> {0..<n}" "?f a = ?f b"
    show "a = b"
    proof (cases enabled)
      case True
      have m: "(c + a) mod n = (if c + a < n then c + a else c + a - n)" if "c < n" "a < n" for c a
        using that by (simp add: mod_if)
      have "unat dial mod n < n" using assms by simp
      with True ab m [of "unat dial mod n" a] m [of "unat dial mod n" b] show ?thesis by (auto split: if_splits)
    qed (use ab in simp)
  qed
  moreover have "?f ` {0..<n} \<subseteq> {0..<n}" using assms by auto
  ultimately have "?f ` {0..<n} = {0..<n}" by (metis card_image card_subset_eq finite_atLeastLessThan)
  with \<open>inj_on ?f {0..<n}\<close> have "mset (map ?f [0..<n]) = mset [0..<n]"
    by (intro set_eq_iff_mset_eq_distinct [THEN iffD1]) (simp_all add: distinct_map)
  moreover have "map (\<lambda>a. edge_address_index n dial a enabled) [0..<n] = map Inr (map ?f [0..<n])"
    using assms by (simp add: edge_address_index_def)
  moreover have "hd (map ?f [0..<n]) = (if enabled then unat dial mod n else 0)"
    using assms by (simp add: hd_map)
  ultimately show ?thesis by (intro exI [of _ "map ?f [0..<n]"]) (simp add: edge_address_index_def)
qed

theorem edge_addresses_covered_witness:
  "\<exists>order. map (\<lambda>a. edge_address_index 3 7 a True) [0..<3] = map Inr order \<and> mset order = mset [0..<3] \<and> hd order = 1"
  using edge_addresses_covered [of 3 7 True] by auto

end
