(* ===== verification/CarrierSpec.thy ===== *)
theory CarrierSpec
  imports Prelude
begin

text \<open>
  The interface of \<open>class Carrier\<close> in \<open>src/cdn/include/pacetun/carrier.hpp\<close> as a locale: what a
  tunnel loop may rely on when it sends messages and flushes a carrier. The laws speak of the
  bytes still to be written; the lemmas hold for every carrier that keeps them.
\<close>

text \<open>The calls of a tunnel loop; \<open>'x\<close> is what a send takes from outside, \<open>'y\<close> the transport during a flush.\<close>

datatype ('x, 'y) carrier_op = Send bytes 'x | SendPing bytes 'x | Flush 'y nat

datatype message_kind = Data | Ping

text \<open>
  A run of calls: the final state, the messages that were accepted, and the bytes the transport
  took. A refused message leaves the carrier as it was.
\<close>

fun carrier_run :: "(bytes \<Rightarrow> 'x \<Rightarrow> 's \<Rightarrow> ('e, 's) result) \<Rightarrow> (bytes \<Rightarrow> 'x \<Rightarrow> 's \<Rightarrow> ('e, 's) result) \<Rightarrow>
    ('y \<Rightarrow> nat \<Rightarrow> 's \<Rightarrow> 's \<times> ('e, nat) result \<times> bytes) \<Rightarrow> ('x, 'y) carrier_op list \<Rightarrow> 's \<Rightarrow>
    's \<times> (message_kind \<times> bytes) list \<times> bytes" where
  "carrier_run send ping flush [] s = (s, [], [])"
| "carrier_run send ping flush (Send p x # ops) s =
     (case send p x s of
        Inl _ \<Rightarrow> carrier_run send ping flush ops s
      | Inr s1 \<Rightarrow> (case carrier_run send ping flush ops s1 of (s2, ms, wire) \<Rightarrow> (s2, (Data, p) # ms, wire)))"
| "carrier_run send ping flush (SendPing p x # ops) s =
     (case ping p x s of
        Inl _ \<Rightarrow> carrier_run send ping flush ops s
      | Inr s1 \<Rightarrow> (case carrier_run send ping flush ops s1 of (s2, ms, wire) \<Rightarrow> (s2, (Ping, p) # ms, wire)))"
| "carrier_run send ping flush (Flush y budget # ops) s =
     (case flush y budget s of
        (s1, _, sent) \<Rightarrow> (case carrier_run send ping flush ops s1 of (s2, ms, wire) \<Rightarrow> (s2, ms, sent @ wire)))"

fun op_ok :: "('x \<Rightarrow> bool) \<Rightarrow> ('y \<Rightarrow> bool) \<Rightarrow> ('x, 'y) carrier_op \<Rightarrow> bool" where
  "op_ok xok yok (Send p x) = xok x"
| "op_ok xok yok (SendPing p x) = xok x"
| "op_ok xok yok (Flush y budget) = yok y"

locale carrier =
  fixes send send_ping :: "bytes \<Rightarrow> 'x \<Rightarrow> 's \<Rightarrow> ('e, 's) result"
    and flush :: "'y \<Rightarrow> nat \<Rightarrow> 's \<Rightarrow> 's \<times> ('e, nat) result \<times> bytes"
    and tx_pending :: "'s \<Rightarrow> bool"
    and tx_pending_bytes :: "'s \<Rightarrow> nat"
    and invar :: "'s \<Rightarrow> bool"
    and unsent :: "'s \<Rightarrow> bytes"
    and encoded :: "bytes \<Rightarrow> message_kind \<times> bytes \<Rightarrow> bool"
    and xok :: "'x \<Rightarrow> bool" and yok :: "'y \<Rightarrow> bool"
    and limit :: nat
  assumes send_law: "invar s \<Longrightarrow> xok x \<Longrightarrow> send p x s = Inr s' \<Longrightarrow>
      invar s' \<and> (\<exists>d. encoded d (Data, p) \<and> unsent s' = unsent s @ d)"
    and ping_law: "invar s \<Longrightarrow> xok x \<Longrightarrow> send_ping p x s = Inr s' \<Longrightarrow>
      invar s' \<and> (\<exists>d. encoded d (Ping, p) \<and> unsent s' = unsent s @ d)"
    and flush_law: "invar s \<Longrightarrow> yok y \<Longrightarrow> flush y budget s = (s', r, sent) \<Longrightarrow>
      invar s' \<and> unsent s = sent @ unsent s' \<and> length sent \<le> budget \<and> (\<forall>n. r = Inr n \<longrightarrow> n = length sent)"
    and pending_law: "invar s \<Longrightarrow> tx_pending s \<longleftrightarrow> unsent s \<noteq> []"
    and pending_bytes_law: "invar s \<Longrightarrow> tx_pending_bytes s = length (unsent s)"
    and limit_law: "invar s \<Longrightarrow> tx_pending_bytes s \<le> limit"
begin

lemma run_stream:
  assumes "invar s" "\<forall>c \<in> set ops. op_ok xok yok c"
    and "carrier_run send send_ping flush ops s = (s', ms, wire)"
  shows "invar s' \<and> (\<exists>ds. list_all2 encoded ds ms \<and> unsent s @ concat ds = wire @ unsent s')"
  using assms
proof (induction ops arbitrary: s ms wire)
  case Nil
  then show ?case by simp
next
  case (Cons c ops)
  show ?case
  proof (cases c)
    case (Send p x)
    show ?thesis
    proof (cases "send p x s")
      case (Inl e)
      with Cons Send show ?thesis by simp
    next
      case (Inr s1)
      with Cons.prems Send send_law obtain d where d: "invar s1" "encoded d (Data, p)" "unsent s1 = unsent s @ d" by fastforce
      from Cons.prems(3) Send Inr obtain ms1 where r: "carrier_run send send_ping flush ops s1 = (s', ms1, wire)"
        "ms = (Data, p) # ms1" by (auto split: prod.splits)
      from Cons.IH [OF d(1) _ r(1)] Cons.prems(2) obtain ds where
        "invar s'" "list_all2 encoded ds ms1" "unsent s1 @ concat ds = wire @ unsent s'" by auto
      with d r(2) show ?thesis by (intro conjI exI [of _ "d # ds"]) simp_all
    qed
  next
    case (SendPing p x)
    show ?thesis
    proof (cases "send_ping p x s")
      case (Inl e)
      with Cons SendPing show ?thesis by simp
    next
      case (Inr s1)
      with Cons.prems SendPing ping_law obtain d where d: "invar s1" "encoded d (Ping, p)" "unsent s1 = unsent s @ d" by fastforce
      from Cons.prems(3) SendPing Inr obtain ms1 where r: "carrier_run send send_ping flush ops s1 = (s', ms1, wire)"
        "ms = (Ping, p) # ms1" by (auto split: prod.splits)
      from Cons.IH [OF d(1) _ r(1)] Cons.prems(2) obtain ds where
        "invar s'" "list_all2 encoded ds ms1" "unsent s1 @ concat ds = wire @ unsent s'" by auto
      with d r(2) show ?thesis by (intro conjI exI [of _ "d # ds"]) simp_all
    qed
  next
    case (Flush y budget)
    obtain s1 r sent where f: "flush y budget s = (s1, r, sent)" by (cases "flush y budget s") auto
    with Cons.prems Flush flush_law have l: "invar s1" "unsent s = sent @ unsent s1" by fastforce+
    from Cons.prems(3) Flush f obtain wire1 where r: "carrier_run send send_ping flush ops s1 = (s', ms, wire1)"
      "wire = sent @ wire1" by (auto split: prod.splits)
    from Cons.IH [OF l(1) _ r(1)] Cons.prems(2) l(2) r(2) show ?thesis by auto
  qed
qed

text \<open>Once nothing is pending, the transport has taken exactly the encoded messages.\<close>

lemma drained:
  assumes "invar s" "unsent s = []" "\<forall>c \<in> set ops. op_ok xok yok c"
    and "carrier_run send send_ping flush ops s = (s', ms, wire)" "\<not> tx_pending s'"
  shows "\<exists>ds. list_all2 encoded ds ms \<and> wire = concat ds"
  using run_stream [OF assms(1,3,4)] assms(2,5) pending_law [of s'] by auto

lemma run_pending_bytes:
  assumes "invar s" "\<forall>c \<in> set ops. op_ok xok yok c" "carrier_run send send_ping flush ops s = (s', ms, wire)"
  shows "tx_pending_bytes s' \<le> limit" "tx_pending s' \<longleftrightarrow> tx_pending_bytes s' > 0"
  using run_stream [OF assms] limit_law pending_law pending_bytes_law by auto

end

end
