(* ===== verification/WsFrames.thy ===== *)
theory WsFrames
  imports Prelude
begin

text \<open>
  The WebSocket session of \<open>src/cdn/src/websocket.cpp\<close> and \<open>src/cdn/include/pacetun/websocket.hpp\<close>:
  its state, the frame encoder, the transmit queue and \<open>websocket_flush\<close>. The socket or TLS
  connection is the parameter of the loops: \<open>io k\<close> is the outcome of the \<open>k\<close>-th call with the
  clock after it. The random mask of a frame and the clock are arguments.
\<close>

section \<open>State\<close>

record ws_tx_frame =
  fr_data :: bytes
  fr_offset :: nat
  fr_payload_bytes :: nat
  fr_opcode :: byte

record ws_session =
  ws_fd_open :: bool        \<comment> \<open>\<open>fd >= 0\<close>\<close>
  ws_ssl :: bool            \<comment> \<open>\<open>ssl != nullptr\<close>\<close>
  ws_client :: bool
  ws_browser_profile :: string
  ws_rx :: bytes
  prefetched_messages :: "bytes list"
  io_timeout_ms :: int
  rx_frames :: u64
  rx_ping_frames :: u64
  rx_pong_frames :: u64
  tx_binary_frames :: u64
  tx_binary_payload_bytes :: u64
  tx_ping_frames :: u64
  tx_pong_frames :: u64
  peer_eof :: bool
  close_received :: bool
  close_has_code :: bool
  close_code :: nat
  close_reason_bytes :: nat
  rx_binary_payload_bytes :: u64
  ws_upgraded :: bool
  ws_authenticated :: bool
  ws_tx :: "ws_tx_frame list"
  tx_queued_bytes :: nat
  tx_last_progress_ms :: u64
  tx_wait :: nat
  rx_wait :: nat
  fragment_opcode :: byte
  fragment_payload :: bytes
  pong_payloads :: "bytes list"

definition new_session :: "bool \<Rightarrow> ws_session" where
  "new_session client =
     \<lparr>ws_fd_open = True, ws_ssl = False, ws_client = client, ws_browser_profile = ''none'', ws_rx = [], prefetched_messages = [],
      io_timeout_ms = 30000,
      rx_frames = 0, rx_ping_frames = 0, rx_pong_frames = 0, tx_binary_frames = 0,
      tx_binary_payload_bytes = 0, tx_ping_frames = 0, tx_pong_frames = 0,
      peer_eof = False, close_received = False, close_has_code = False, close_code = 0,
      close_reason_bytes = 0, rx_binary_payload_bytes = 0, ws_upgraded = False, ws_authenticated = False,
      ws_tx = [], tx_queued_bytes = 0, tx_last_progress_ms = 0, tx_wait = 0, rx_wait = 0,
      fragment_opcode = 0, fragment_payload = [], pong_payloads = []\<rparr>"

definition kMaxWsMessageBytes :: nat where "kMaxWsMessageBytes = 16777216"
definition kMaxWsTxBytes :: nat where "kMaxWsTxBytes = 16842752"
definition kMaxWsRxBufferedBytes :: nat where "kMaxWsRxBufferedBytes = 33619968"
definition kMaxRememberedPongs :: nat where "kMaxRememberedPongs = 16"

text \<open>Every exception of the framing and session code.\<close>

datatype ws_error =
    ControlPayloadTooLarge | PayloadTooLarge | MaskRngFailed | TxQueueLimit | WriteFailed
  | PeerClosed string | PeerEof | RxLimit | ReadFailed
  | RsvBits | FragmentedControl | ControlLength | MaskedServerFrame | UnmaskedClientFrame
  | Invalid64BitLength | FrameTooLarge | NewDataDuringFragment | UnexpectedContinuation
  | FragmentedTooLarge | UnsupportedFragmented | InvalidClosePayload | InvalidCloseStatus
  | TextUnsupported | UnsupportedOpcode | TruncatedFrame | TruncatedFragmented

section \<open>Frames\<close>

definition is_control :: "byte \<Rightarrow> bool" where
  "is_control opcode \<longleftrightarrow> opcode AND 0x8 \<noteq> 0"

text \<open>\<open>pay[i] ^= mk[i % 4]\<close>.\<close>

definition mask_bytes :: "bytes \<Rightarrow> bytes \<Rightarrow> bytes" where
  "mask_bytes mk p = map (\<lambda>i. (p ! i) XOR (mk ! (i mod 4))) [0..<length p]"

definition length_bytes :: "byte \<Rightarrow> nat \<Rightarrow> bytes" where
  "length_bytes mbit n =
     (if n < 126 then [mbit OR of_nat n]
      else if n \<le> 65535 then [mbit OR 126] @ be16 n
      else [mbit OR 127] @ be64 (of_nat n))"

text \<open>\<open>mk\<close> is the outcome of \<open>RAND_bytes\<close> for the mask; it is drawn only by a client.\<close>

definition make_frame :: "bool \<Rightarrow> byte \<Rightarrow> bytes \<Rightarrow> bytes option \<Rightarrow> (ws_error, bytes) result" where
  "make_frame client opcode p mk =
     (if is_control opcode \<and> length p > 125 then Inl ControlPayloadTooLarge
      else if \<not> is_control opcode \<and> length p > kMaxWsMessageBytes then Inl PayloadTooLarge
      else let head = (0x80 OR opcode) # length_bytes (if client then 0x80 else 0) (length p) in
      if client then andThen (ofOption MaskRngFailed mk) (\<lambda>mk. Inr (head @ mk @ mask_bytes mk p))
      else Inr (head @ p))"

definition queue_frame :: "byte \<Rightarrow> bytes \<Rightarrow> bytes option \<Rightarrow> u64 \<Rightarrow> ws_session \<Rightarrow> (ws_error, ws_session) result" where
  "queue_frame opcode p mk now w =
     andThen (make_frame (ws_client w) opcode p mk) (\<lambda>data.
       if length data > kMaxWsTxBytes \<or> tx_queued_bytes w > kMaxWsTxBytes - length data then Inl TxQueueLimit
       else Inr (w\<lparr>tx_queued_bytes := tx_queued_bytes w + length data,
                   ws_tx := ws_tx w @ [\<lparr>fr_data = data, fr_offset = 0, fr_payload_bytes = length p, fr_opcode = opcode\<rparr>],
                   tx_last_progress_ms := (if ws_tx w = [] then now else tx_last_progress_ms w)\<rparr>))"

definition websocket_send_binary :: "bytes \<Rightarrow> bytes option \<Rightarrow> u64 \<Rightarrow> ws_session \<Rightarrow> (ws_error, ws_session) result" where
  "websocket_send_binary p = queue_frame 2 p"
definition websocket_send_ping :: "bytes \<Rightarrow> bytes option \<Rightarrow> u64 \<Rightarrow> ws_session \<Rightarrow> (ws_error, ws_session) result" where
  "websocket_send_ping p = queue_frame 9 p"
definition websocket_send_pong :: "bytes \<Rightarrow> bytes option \<Rightarrow> u64 \<Rightarrow> ws_session \<Rightarrow> (ws_error, ws_session) result" where
  "websocket_send_pong p = queue_frame 10 p"

section \<open>The transmit queue\<close>

definition account_completed_frame :: "ws_tx_frame \<Rightarrow> ws_session \<Rightarrow> ws_session" where
  "account_completed_frame f w =
     (if fr_opcode f = 2 then w\<lparr>tx_binary_frames := tx_binary_frames w + 1,
        tx_binary_payload_bytes := tx_binary_payload_bytes w + of_nat (fr_payload_bytes f)\<rparr>
      else if fr_opcode f = 9 then w\<lparr>tx_ping_frames := tx_ping_frames w + 1\<rparr>
      else if fr_opcode f = 10 then w\<lparr>tx_pong_frames := tx_pong_frames w + 1\<rparr>
      else w)"

text \<open>
  The outcome of \<open>io_write\<close>: bytes taken, \<open>EAGAIN\<close> with the direction to wait for, or a failure
  (a closed connection returns 0).
\<close>

datatype wr = Wrote nat | WAgain nat | WFailed

definition frame_work :: "ws_session \<Rightarrow> nat" where
  "frame_work w = sum_list (map (\<lambda>f. Suc (length (fr_data f) - fr_offset f)) (ws_tx w))"

lemma account_tx [simp]: "ws_tx (account_completed_frame f w) = ws_tx w"
  by (simp add: account_completed_frame_def)

text \<open>
  The loop of \<open>websocket_flush\<close>; the last component is the bytes the transport took. Writing
  zero bytes is the failure branch, as in the source.
\<close>

function flush_loop :: "(nat \<Rightarrow> bytes \<Rightarrow> wr \<times> u64) \<Rightarrow> nat \<Rightarrow> nat \<Rightarrow> nat \<Rightarrow> ws_session \<Rightarrow>
    ws_session \<times> (ws_error, nat) result \<times> bytes" where
  "flush_loop io k budget written w =
     (if ws_tx w = [] \<or> \<not> written < budget then (w, Inr written, [])
      else let f = hd (ws_tx w) in
      if fr_offset f \<ge> length (fr_data f) then
        flush_loop io k budget written ((account_completed_frame f w)\<lparr>ws_tx := tl (ws_tx w)\<rparr>)
      else let want = min (length (fr_data f) - fr_offset f) (budget - written);
               chunk = take want (drop (fr_offset f) (fr_data f)) in
      case io k chunk of
        (Wrote n, now) \<Rightarrow>
          if n = 0 then (if ws_ssl w then w else w\<lparr>tx_wait := 0\<rparr>, Inl WriteFailed, [])
          else let f' = f\<lparr>fr_offset := fr_offset f + n\<rparr>;
                   w1 = w\<lparr>tx_queued_bytes := tx_queued_bytes w - n, tx_last_progress_ms := now, tx_wait := 0\<rparr>;
                   w2 = (if fr_offset f' = length (fr_data f')
                         then (account_completed_frame f' w1)\<lparr>ws_tx := tl (ws_tx w),
                                tx_last_progress_ms := (if tl (ws_tx w) = [] then 0 else now)\<rparr>
                         else w1\<lparr>ws_tx := f' # tl (ws_tx w)\<rparr>)
               in (case flush_loop io (k + 1) budget (written + n) w2 of (w3, r, sent) \<Rightarrow> (w3, r, take n chunk @ sent))
      | (WAgain d, now) \<Rightarrow> (w\<lparr>tx_wait := d\<rparr>, Inr written, [])
      | (WFailed, now) \<Rightarrow> (w, Inl WriteFailed, []))"
  by pat_completeness auto
termination
  by (relation "measure (\<lambda>(io, k, budget, written, w). frame_work w)")
     (auto simp: frame_work_def neq_Nil_conv split: if_splits)

declare flush_loop.simps [simp del]

definition websocket_flush :: "(nat \<Rightarrow> bytes \<Rightarrow> wr \<times> u64) \<Rightarrow> nat \<Rightarrow> ws_session \<Rightarrow>
    ws_session \<times> (ws_error, nat) result \<times> bytes" where
  "websocket_flush io byte_budget w =
     (if byte_budget = 0 then (w, Inr 0, []) else flush_loop io 0 byte_budget 0 w)"

definition websocket_tx_pending :: "ws_session \<Rightarrow> bool" where
  "websocket_tx_pending w \<longleftrightarrow> ws_tx w \<noteq> []"

datatype poll_event = POLLIN | POLLOUT

definition websocket_tx_poll_events :: "ws_session \<Rightarrow> poll_event option" where
  "websocket_tx_poll_events w =
     (if ws_tx w = [] then None else if tx_wait w = 1 then Some POLLIN else Some POLLOUT)"

definition websocket_rx_poll_events :: "ws_session \<Rightarrow> poll_event" where
  "websocket_rx_poll_events w = (if rx_wait w = 2 then POLLOUT else POLLIN)"

definition websocket_tx_queued_bytes :: "ws_session \<Rightarrow> nat" where
  "websocket_tx_queued_bytes w = tx_queued_bytes w"

definition websocket_tx_stalled :: "u64 \<Rightarrow> int \<Rightarrow> ws_session \<Rightarrow> bool" where
  "websocket_tx_stalled now timeout_ms w =
     (if ws_tx w = [] \<or> tx_last_progress_ms w = 0 \<or> timeout_ms \<le> 0 then False
      else tx_last_progress_ms w \<le> now \<and> now - tx_last_progress_ms w > of_int timeout_ms)"

section \<open>The byte stream of the queue\<close>

text \<open>What is still to be written, and the invariant of the queue.\<close>

definition frame_rest :: "ws_tx_frame \<Rightarrow> bytes" where
  "frame_rest f = drop (fr_offset f) (fr_data f)"

definition pending :: "ws_session \<Rightarrow> bytes" where
  "pending w = concat (map frame_rest (ws_tx w))"

definition tx_ok :: "ws_session \<Rightarrow> bool" where
  "tx_ok w \<longleftrightarrow> (\<forall>f \<in> set (ws_tx w). fr_offset f < length (fr_data f)) \<and>
     tx_queued_bytes w = length (pending w) \<and> tx_queued_bytes w \<le> kMaxWsTxBytes"

text \<open>The transport takes no more than it was offered.\<close>

definition io_ok :: "(nat \<Rightarrow> bytes \<Rightarrow> wr \<times> u64) \<Rightarrow> bool" where
  "io_ok io \<longleftrightarrow> (\<forall>k c n t. io k c = (Wrote n, t) \<longrightarrow> n \<le> length c)"

lemma tx_ok_update [simp]:
  "tx_ok (w\<lparr>ws_rx := v1\<rparr>) = tx_ok w" "tx_ok (w\<lparr>rx_frames := v2\<rparr>) = tx_ok w"
  "tx_ok (w\<lparr>rx_ping_frames := v2\<rparr>) = tx_ok w" "tx_ok (w\<lparr>rx_pong_frames := v2\<rparr>) = tx_ok w"
  "tx_ok (w\<lparr>rx_binary_payload_bytes := v2\<rparr>) = tx_ok w" "tx_ok (w\<lparr>pong_payloads := v3\<rparr>) = tx_ok w"
  "tx_ok (w\<lparr>prefetched_messages := v3\<rparr>) = tx_ok w"
  "tx_ok (w\<lparr>fragment_opcode := v4\<rparr>) = tx_ok w" "tx_ok (w\<lparr>fragment_payload := v1\<rparr>) = tx_ok w"
  "tx_ok (w\<lparr>close_received := v5\<rparr>) = tx_ok w" "tx_ok (w\<lparr>close_has_code := v5\<rparr>) = tx_ok w"
  "tx_ok (w\<lparr>close_code := v6\<rparr>) = tx_ok w" "tx_ok (w\<lparr>close_reason_bytes := v6\<rparr>) = tx_ok w"
  "tx_ok (w\<lparr>peer_eof := v5\<rparr>) = tx_ok w" "tx_ok (w\<lparr>rx_wait := v6\<rparr>) = tx_ok w"
  "tx_ok (w\<lparr>tx_wait := v6\<rparr>) = tx_ok w"
  by (simp_all add: tx_ok_def pending_def)

lemma tx_ok_new: "tx_ok (new_session client)"
  by (simp add: tx_ok_def new_session_def pending_def)

lemma length_bytes_nonempty: "length (length_bytes m n) \<ge> 1"
  by (simp add: length_bytes_def)

lemma make_frame_nonempty: "make_frame client opcode p mk = Inr data \<Longrightarrow> data \<noteq> []"
  by (auto simp: make_frame_def Let_def result_iff split: if_splits)

lemma queue_frame_ok:
  assumes "tx_ok w" "queue_frame opcode p mk now w = Inr w'"
  shows "\<exists>data. make_frame (ws_client w) opcode p mk = Inr data \<and> pending w' = pending w @ data \<and>
    tx_ok w' \<and> w' = w\<lparr>ws_tx := ws_tx w', tx_queued_bytes := tx_queued_bytes w', tx_last_progress_ms := tx_last_progress_ms w'\<rparr>"
proof -
  from assms(2) obtain data where d: "make_frame (ws_client w) opcode p mk = Inr data"
    and l: "length data \<le> kMaxWsTxBytes" "tx_queued_bytes w \<le> kMaxWsTxBytes - length data"
    and w': "w' = w\<lparr>tx_queued_bytes := tx_queued_bytes w + length data,
       ws_tx := ws_tx w @ [\<lparr>fr_data = data, fr_offset = 0, fr_payload_bytes = length p, fr_opcode = opcode\<rparr>],
       tx_last_progress_ms := (if ws_tx w = [] then now else tx_last_progress_ms w)\<rparr>"
    by (auto simp: queue_frame_def result_iff not_less split: if_splits)
  have "pending w' = pending w @ data" by (simp add: w' pending_def frame_rest_def)
  moreover have "tx_ok w'"
    using assms(1) l make_frame_nonempty [OF d] calculation by (auto simp: tx_ok_def w')
  ultimately show ?thesis using d w' by simp
qed

lemma flush_step_pending:
  assumes "ws_tx w = f # fs" "n \<le> length (frame_rest f)"
  shows "pending w = take n (frame_rest f) @ drop n (frame_rest f) @ concat (map frame_rest fs)"
  using assms by (simp add: pending_def)

lemma account_frame:
  "pending (account_completed_frame f w) = pending w" "tx_queued_bytes (account_completed_frame f w) = tx_queued_bytes w"
  "ws_client (account_completed_frame f w) = ws_client w"
  "close_received (account_completed_frame f w) = close_received w"
  by (simp_all add: account_completed_frame_def pending_def)

text \<open>
  Flushing moves a prefix of the pending bytes to the transport, keeps the counter exact and
  writes no more than the budget.
\<close>

lemma flush_loop_ok:
  assumes "io_ok io"
  shows "tx_ok w \<Longrightarrow> flush_loop io k budget written w = (w', r, sent) \<Longrightarrow>
    tx_ok w' \<and> pending w = sent @ pending w' \<and> ws_client w' = ws_client w \<and> close_received w' = close_received w \<and>
    (r = Inl WriteFailed \<or> r = Inr (written + length sent)) \<and>
    (written \<le> budget \<longrightarrow> written + length sent \<le> budget)"
proof (induction "frame_work w" arbitrary: w k written w' r sent rule: less_induct)
  case less
  show ?case
  proof (cases "ws_tx w = [] \<or> \<not> written < budget")
    case True
    with less.prems show ?thesis by (auto simp: flush_loop.simps [of io k budget written w])
  next
    case go: False
    then obtain f fs where tx: "ws_tx w = f # fs" by (cases "ws_tx w") auto
    have off: "fr_offset f < length (fr_data f)" using less.prems(1) tx by (simp add: tx_ok_def)
    define want where "want = min (length (fr_data f) - fr_offset f) (budget - written)"
    define chunk where "chunk = take want (drop (fr_offset f) (fr_data f))"
    note unf = flush_loop.simps [of io k budget written w] tx Let_def want_def [symmetric] chunk_def [symmetric]
    obtain o1 now where io: "io k chunk = (o1, now)" by (cases "io k chunk")
    show ?thesis
    proof (cases o1)
      case (Wrote n)
      show ?thesis
      proof (cases "n = 0")
        case True
        then have "(w' = w \<or> w' = w\<lparr>tx_wait := 0\<rparr>) \<and> r = Inl WriteFailed \<and> sent = []"
          using less.prems(2) go off io Wrote by (auto simp: unf split: if_splits)
        with less.prems(1) go show ?thesis by (auto simp: tx_ok_def pending_def)
      next
        case n: False
        let ?f = "f\<lparr>fr_offset := fr_offset f + n\<rparr>"
        let ?w1 = "w\<lparr>tx_queued_bytes := tx_queued_bytes w - n, tx_last_progress_ms := now, tx_wait := 0\<rparr>"
        define w2 where "w2 = (if fr_offset ?f = length (fr_data ?f)
           then (account_completed_frame ?f ?w1)\<lparr>ws_tx := tl (ws_tx w),
             tx_last_progress_ms := (if tl (ws_tx w) = [] then 0 else now)\<rparr>
           else ?w1\<lparr>ws_tx := ?f # tl (ws_tx w)\<rparr>)"
        have nc: "n \<le> length chunk" using assms io Wrote by (auto simp: io_ok_def)
        then have nn: "n \<le> length (fr_data f) - fr_offset f" "n \<le> budget - written"
          by (simp_all add: chunk_def want_def)
        obtain sent1 where rec: "flush_loop io (k + 1) budget (written + n) w2 = (w', r, sent1)"
          and sent: "sent = take n chunk @ sent1"
          using less.prems(2) go off io Wrote n by (auto simp: unf w2_def not_le split: prod.splits)
        have tn: "take n chunk = take n (frame_rest f)"
          using nc by (auto simp: chunk_def frame_rest_def min_def split: if_splits)
        have p2: "pending w2 = drop n (frame_rest f) @ concat (map frame_rest fs)"
          using nn(1) off by (auto simp: w2_def tx pending_def frame_rest_def add.commute)
        have p: "pending w = take n chunk @ pending w2"
          unfolding p2 tn by (rule flush_step_pending [OF tx]) (use nn(1) in \<open>simp add: frame_rest_def\<close>)
        have q2: "tx_queued_bytes w2 = tx_queued_bytes w - n" "ws_client w2 = ws_client w" "close_received w2 = close_received w"
          by (simp_all add: w2_def account_frame)
        have ok2: "tx_ok w2"
          using less.prems(1) p q2 nc nn(1) tx by (auto simp: tx_ok_def w2_def split: if_splits)
        have "frame_work w2 < frame_work w"
          using tx n off nn(1) by (auto simp: frame_work_def w2_def)
        from less.hyps [OF this ok2 rec] have ih: "tx_ok w'" "pending w2 = sent1 @ pending w'" "ws_client w' = ws_client w2"
          "close_received w' = close_received w2"
          "r = Inl WriteFailed \<or> r = Inr (written + n + length sent1)"
          "written + n \<le> budget \<longrightarrow> written + n + length sent1 \<le> budget" by blast+
        have "length (take n chunk) = n" using nc by simp
        with ih p q2(2,3) sent nn(2) go show ?thesis by auto
      qed
    next
      case (WAgain d)
      then have "w' = w\<lparr>tx_wait := d\<rparr> \<and> r = Inr written \<and> sent = []"
        using less.prems(2) go off io by (auto simp: unf)
      with less.prems(1) go show ?thesis by (auto simp: tx_ok_def pending_def)
    next
      case WFailed
      then have "w' = w \<and> r = Inl WriteFailed \<and> sent = []"
        using less.prems(2) go off io by (auto simp: unf)
      with less.prems(1) go show ?thesis by simp
    qed
  qed
qed

lemma websocket_flush_ok:
  assumes "io_ok io" "tx_ok w" "websocket_flush io budget w = (w', r, sent)"
  shows "tx_ok w'" "pending w = sent @ pending w'" "ws_client w' = ws_client w"
    "r = Inl WriteFailed \<or> r = Inr (length sent)" "length sent \<le> budget" "close_received w' = close_received w"
  using assms flush_loop_ok [OF assms(1,2), of 0 budget 0 w' r sent]
  by (auto simp: websocket_flush_def split: if_splits)

end
