(* ===== verification/WsRead.thy ===== *)
theory WsRead
  imports WsFrames
begin

text \<open>
  The receiving side of the WebSocket session: \<open>websocket_read_messages\<close> of
  \<open>src/cdn/src/websocket.cpp\<close> with its read loop, frame parser, fragment reassembly, control
  frames and close handling, and \<open>websocket_close\<close>. The outcomes of the reads and, for every
  frame that is answered, the mask and the clock are parameters.
\<close>

section \<open>Close frames\<close>

definition valid_close_status :: "nat \<Rightarrow> bool" where
  "valid_close_status code \<longleftrightarrow>
     (1000 \<le> code \<and> code \<le> 1014 \<and> code \<noteq> 1004 \<and> code \<noteq> 1005 \<and> code \<noteq> 1006) \<or>
     (3000 \<le> code \<and> code \<le> 4999)"

definition close_category :: "nat \<Rightarrow> string" where
  "close_category code =
     (if code = 1000 then ''normal'' else if code = 1001 then ''going_away''
      else if code = 1002 then ''protocol_error'' else if code = 1003 then ''unsupported_data''
      else if code = 1007 then ''invalid_payload'' else if code = 1008 then ''policy_violation''
      else if code = 1009 then ''message_too_big'' else if code = 1010 then ''extension_required''
      else if code = 1011 then ''server_error'' else if code = 1012 then ''service_restart''
      else if code = 1013 then ''try_again_later'' else if code = 1014 then ''bad_gateway''
      else if 3000 \<le> code \<and> code \<le> 3999 then ''registered'' else ''private'')"

definition websocket_close_summary :: "ws_session \<Rightarrow> string" where
  "websocket_close_summary w =
     (if \<not> close_received w then ''WebSocket peer close not received''
      else if \<not> close_has_code w
        then ''WebSocket peer close received code=none category=unspecified reason_bytes=0''
      else ''WebSocket peer close received code='' @ dec (close_code w) @ '' category='' @
        close_category (close_code w) @ '' reason_bytes='' @ dec (close_reason_bytes w))"

section \<open>One frame\<close>

datatype frame_view = Need | Bad ws_error | Frame bool byte bytes bytes

text \<open>
  The extended length: how many bytes the head takes and the payload length, \<open>None\<close> while bytes
  are missing. The comparison with \<open>SIZE_MAX\<close> of the source cannot fail after the size check.
\<close>

definition frame_length :: "byte \<Rightarrow> bytes \<Rightarrow> (ws_error, nat \<times> nat) result option" where
  "frame_length b1 rx =
     (let len7 = unat (b1 AND 0x7f) in
      if len7 = 126 then
        (if length rx < 4 then None else Some (Inr (4, rd16 (rx ! 2) (rx ! 3))))
      else if len7 = 127 then
        (if length rx < 10 then None
         else if rx ! 2 AND 0x80 \<noteq> 0 then Some (Inl Invalid64BitLength)
         else Some (Inr (10, unat (rd64 (take 8 (drop 2 rx))))))
      else Some (Inr (2, len7)))"

definition head_error :: "bool \<Rightarrow> byte \<Rightarrow> byte \<Rightarrow> ws_error option" where
  "head_error client b0 b1 =
     (let fin = (b0 AND 0x80 \<noteq> 0); masked = (b1 AND 0x80 \<noteq> 0); op = b0 AND 0x0f in
      if b0 AND 0x70 \<noteq> 0 then Some RsvBits
      else if is_control op \<and> \<not> fin then Some FragmentedControl
      else if is_control op \<and> unat (b1 AND 0x7f) \<ge> 126 then Some ControlLength
      else if client \<and> masked then Some MaskedServerFrame
      else if \<not> client \<and> \<not> masked then Some UnmaskedClientFrame
      else None)"

definition parse_frame :: "bool \<Rightarrow> nat \<Rightarrow> bytes \<Rightarrow> frame_view" where
  "parse_frame client limit rx =
     (if length rx < 2 then Need
      else let b0 = rx ! 0; b1 = rx ! 1; masked = (b1 AND 0x80 \<noteq> 0) in
      case head_error client b0 b1 of
        Some e \<Rightarrow> Bad e
      | None \<Rightarrow>
        (case frame_length b1 rx of
           None \<Rightarrow> Need
         | Some (Inl e) \<Rightarrow> Bad e
         | Some (Inr (pos, n)) \<Rightarrow>
             if masked \<and> length rx < pos + 4 then Need
             else let mk = take 4 (drop pos rx); pos' = (if masked then pos + 4 else pos) in
             if n > limit then Bad FrameTooLarge
             else if length rx < pos' + n then Need
             else let pay = take n (drop pos' rx) in
               Frame (b0 AND 0x80 \<noteq> 0) (b0 AND 0x0f) (if masked then mask_bytes mk pay else pay)
                 (drop (pos' + n) rx)))"

section \<open>What a frame does\<close>

text \<open>
  The result of handling one frame: the session and either the exception or the messages so far
  and whether the loop ends. \<open>mk\<close> and \<open>now\<close> serve a frame that is queued in answer.
\<close>

definition handle_frame :: "bytes option \<Rightarrow> u64 \<Rightarrow> bool \<Rightarrow> byte \<Rightarrow> bytes \<Rightarrow> ws_session \<Rightarrow> bytes list \<Rightarrow>
    ws_session \<times> (ws_error, bytes list \<times> bool) result" where
  "handle_frame mk now fin op pay w out =
     (if op = 2 then
        if fragment_opcode w \<noteq> 0 then (w, Inl NewDataDuringFragment)
        else if fin then (w\<lparr>rx_binary_payload_bytes := rx_binary_payload_bytes w + of_nat (length pay)\<rparr>, Inr (out @ [pay], False))
        else (w\<lparr>fragment_opcode := 2, fragment_payload := pay\<rparr>, Inr (out, False))
      else if op = 0 then
        if fragment_opcode w = 0 then (w, Inl UnexpectedContinuation)
        else if length (fragment_payload w) > kMaxWsMessageBytes - length pay then (w, Inl FragmentedTooLarge)
        else let w1 = w\<lparr>fragment_payload := fragment_payload w @ pay\<rparr> in
          if fin then
            if fragment_opcode w \<noteq> 2 then (w1, Inl UnsupportedFragmented)
            else (w1\<lparr>rx_binary_payload_bytes := rx_binary_payload_bytes w + of_nat (length (fragment_payload w1)),
                     fragment_payload := [], fragment_opcode := 0\<rparr>, Inr (out @ [fragment_payload w1], False))
          else (w1, Inr (out, False))
      else if op = 9 then
        let w1 = w\<lparr>rx_ping_frames := rx_ping_frames w + 1\<rparr> in
        (case websocket_send_pong pay mk now w1 of Inl e \<Rightarrow> (w1, Inl e) | Inr w2 \<Rightarrow> (w2, Inr (out, False)))
      else if op = 10 then
        (w\<lparr>rx_pong_frames := rx_pong_frames w + 1,
           pong_payloads := (if length (pong_payloads w) \<ge> kMaxRememberedPongs then tl (pong_payloads w)
                             else pong_payloads w) @ [pay]\<rparr>, Inr (out, False))
      else if op = 8 then
        if length pay = 1 then (w, Inl InvalidClosePayload)
        else if length pay \<ge> 2 \<and> \<not> valid_close_status (rd16 (pay ! 0) (pay ! 1)) then (w, Inl InvalidCloseStatus)
        else let w1 = (if length pay \<ge> 2 then w\<lparr>close_code := rd16 (pay ! 0) (pay ! 1), close_has_code := True,
                          close_reason_bytes := length pay - 2\<rparr> else w);
                 w2 = (case queue_frame 8 pay mk now w1 of Inl _ \<Rightarrow> w1 | Inr w' \<Rightarrow> w');
                 w3 = w2\<lparr>close_received := True\<rparr> in
          if out = [] then (w3, Inl (PeerClosed (websocket_close_summary w3))) else (w3, Inr (out, True))
      else if op = 1 then (w, Inl TextUnsupported)
      else (w, Inl UnsupportedOpcode))"

definition frame_limit :: "ws_session \<Rightarrow> nat" where
  "frame_limit w = (if ws_authenticated w then kMaxWsMessageBytes else 1024)"

lemma parse_frame_shrinks:
  "parse_frame client limit rx = Frame fin op pay rest \<Longrightarrow> length rest < length rx"
  by (auto simp: parse_frame_def frame_length_def Let_def split: if_splits option.splits sum.splits)

text \<open>
  The parsing loop over the bytes not yet consumed; \<open>env i\<close> is the mask and clock for the
  \<open>i\<close>-th frame of the call.
\<close>

function parse_loop :: "(nat \<Rightarrow> bytes option \<times> u64) \<Rightarrow> nat \<Rightarrow> bytes \<Rightarrow> ws_session \<Rightarrow> bytes list \<Rightarrow>
    ws_session \<times> (ws_error, bytes list \<times> bytes) result" where
  "parse_loop env i rest w out =
     (case parse_frame (ws_client w) (frame_limit w) rest of
        Need \<Rightarrow> (w, Inr (out, rest))
      | Bad e \<Rightarrow> (w, Inl e)
      | Frame fin op pay rest' \<Rightarrow>
          (case handle_frame (fst (env i)) (snd (env i)) fin op pay (w\<lparr>rx_frames := rx_frames w + 1\<rparr>) out of
             (w1, Inl e) \<Rightarrow> (w1, Inl e)
           | (w1, Inr (out1, stop)) \<Rightarrow>
               if stop then (w1, Inr (out1, rest')) else parse_loop env (i + 1) rest' w1 out1))"
  by pat_completeness auto
termination
  by (relation "measure (\<lambda>(env, i, rest, w, out). length rest)") (auto intro: parse_frame_shrinks)

declare parse_loop.simps [simp del]

section \<open>Reading\<close>

text \<open>
  The outcome of \<open>io_read\<close>: bytes (none at the end of the stream), \<open>EAGAIN\<close> with the direction to
  wait for, or a failure. After a TLS failure \<open>errno\<close> is left from an earlier call, and the
  loop takes a stale \<open>EAGAIN\<close> for one of this call: the flag of \<open>RBroken\<close>.
\<close>

datatype rd = RGot bytes | RAgain nat | RBroken bool

function ws_fill :: "(nat \<Rightarrow> rd) \<Rightarrow> nat \<Rightarrow> nat \<Rightarrow> ws_session \<Rightarrow> ws_session \<times> (ws_error, unit) result" where
  "ws_fill reads i received w =
     (if received < 262144 then
        (case reads i of
           RGot b \<Rightarrow>
             if b = [] then (w\<lparr>peer_eof := True, rx_wait := (if ws_ssl w then rx_wait w else 0)\<rparr>, Inr ())
             else let w1 = w\<lparr>rx_wait := 0\<rparr> in
               if length (ws_rx w) > kMaxWsRxBufferedBytes - length b then (w1, Inl RxLimit)
               else ws_fill reads (i + 1) (received + length b) (w1\<lparr>ws_rx := ws_rx w @ b\<rparr>)
         | RAgain d \<Rightarrow> (w\<lparr>rx_wait := d\<rparr>, Inr ())
         | RBroken stale \<Rightarrow> (w, if stale then Inr () else Inl ReadFailed))
      else (w, Inr ()))"
  by pat_completeness auto
termination
  by (relation "measure (\<lambda>(reads, i, received, w). 262144 - received)")
     (simp_all add: diff_less_mono2 flip: length_greater_0_conv)

declare ws_fill.simps [simp del]

text \<open>\<open>ready\<close>: TLS has buffered bytes, or \<open>poll\<close> reported the descriptor.\<close>

definition websocket_read_messages :: "bool \<Rightarrow> (nat \<Rightarrow> rd) \<Rightarrow> (nat \<Rightarrow> bytes option \<times> u64) \<Rightarrow> ws_session \<Rightarrow>
    ws_session \<times> (ws_error, bytes list) result" where
  "websocket_read_messages ready reads env w =
     (if prefetched_messages w \<noteq> [] then (w\<lparr>prefetched_messages := []\<rparr>, Inr (prefetched_messages w))
      else if close_received w then (w, Inl (PeerClosed (websocket_close_summary w)))
      else if peer_eof w \<and> ws_rx w = [] then (w, Inl PeerEof)
      else if \<not> ready \<and> ws_rx w = [] then (w, Inr [])
      else case ws_fill reads 0 0 w of
        (w1, Inl e) \<Rightarrow> (w1, Inl e)
      | (w1, Inr _) \<Rightarrow>
        (case parse_loop env 0 (ws_rx w1) w1 [] of
           (w2, Inl e) \<Rightarrow> (w2, Inl e)
         | (w2, Inr (out, rest)) \<Rightarrow>
             let w3 = w2\<lparr>ws_rx := rest\<rparr> in
             if peer_eof w3 \<and> rest \<noteq> [] then (w3, Inl TruncatedFrame)
             else if peer_eof w3 \<and> fragment_opcode w3 \<noteq> 0 then (w3, Inl TruncatedFragmented)
             else if peer_eof w3 \<and> out = [] then (w3, Inl PeerEof)
             else (w3, Inr out)))"

definition websocket_take_pongs :: "ws_session \<Rightarrow> bytes list \<times> ws_session" where
  "websocket_take_pongs w = (pong_payloads w, w\<lparr>pong_payloads := []\<rparr>)"

text \<open>
  \<open>websocket_close\<close>: the best-effort close frame drops the queue first (what the transport does
  with the frame does not change the session beyond \<open>tx_wait\<close>, reset right after).
\<close>

definition websocket_close :: "ws_session \<Rightarrow> ws_session" where
  "websocket_close w = w\<lparr>ws_ssl := False, ws_fd_open := False, ws_tx := [], tx_queued_bytes := 0,
     tx_last_progress_ms := 0, tx_wait := 0, rx_wait := 0\<rparr>"

section \<open>A frame is read back as it was made\<close>

lemma length_mask_bytes [simp]: "length (mask_bytes mk p) = length p"
  by (simp add: mask_bytes_def)

lemma mask_bytes_involution: "mask_bytes mk (mask_bytes mk p) = p"
  by (rule nth_equalityI) (simp_all add: mask_bytes_def xor.assoc)

lemma bit_128_127: "bit (128 :: byte) i \<longleftrightarrow> i = 7" "bit (127 :: byte) i \<longleftrightarrow> i < 7"
proof -
  have "\<forall>i \<in> set [0..<8]. (bit (128 :: byte) i \<longleftrightarrow> i = 7) \<and> (bit (127 :: byte) i \<longleftrightarrow> i < 7)"
    by (simp add: upt_rec)
  then show "bit (128 :: byte) i \<longleftrightarrow> i = 7" "bit (127 :: byte) i \<longleftrightarrow> i < 7"
    by (cases "i < 8"; auto dest: bit_imp_le_length)+
qed

lemma small_length_byte:
  assumes "n < 126" "mbit = 0 \<or> mbit = (0x80 :: byte)"
  shows "(mbit OR of_nat n) AND 0x80 = mbit" "unat ((mbit OR of_nat n) AND 0x7f) = n"
proof -
  have n7: "take_bit 7 n = n" using assms(1) by (simp add: take_bit_nat_eq_self)
  have hi: "\<not> bit n i" if "7 \<le> i" for i using n7 that by (metis bit_take_bit_iff not_less)
  have n: "bit (of_nat n :: byte) i \<Longrightarrow> i < 7" for i using hi [of i] by (auto simp: bit_simps not_less [symmetric])
  show "(mbit OR of_nat n) AND 0x80 = mbit"
    using assms(2) by (intro bit_word_eqI) (auto simp: bit_and_iff bit_or_iff bit_128_127 simp del: bit_numeral_word_iff dest: n)
  have "(mbit OR of_nat n) AND 0x7f = (of_nat n :: byte)"
    using assms(2) by (intro bit_word_eqI) (auto simp: bit_and_iff bit_or_iff bit_128_127 simp del: bit_numeral_word_iff dest: n)
  then show "unat ((mbit OR of_nat n) AND 0x7f) = n" using assms(1) by (simp add: unat_of_nat)
qed

lemma length_head:
  assumes "n \<le> kMaxWsMessageBytes" "mbit = 0 \<or> mbit = 0x80"
  obtains b1 ext where "length_bytes mbit n = b1 # ext" "b1 AND 0x80 = mbit"
    "\<And>b0 r. frame_length b1 (b0 # b1 # ext @ r) = Some (Inr (2 + length ext, n))"
    "126 \<le> unat (b1 AND 0x7f) \<longleftrightarrow> 126 \<le> n"
    "\<And>b0 p. length p < length ext \<Longrightarrow> frame_length b1 (b0 # b1 # p) = None"
proof -
  consider "n < 126" | "126 \<le> n" "n \<le> 65535" | "65535 < n" by linarith
  then show ?thesis
  proof cases
    case 1
    note b = small_length_byte [OF 1 assms(2)]
    show ?thesis
      by (rule that [of "mbit OR of_nat n" "[]"]) (use 1 b in \<open>simp_all add: length_bytes_def frame_length_def\<close>)
  next
    case 2
    have b: "(mbit OR 126) AND 0x80 = mbit" "unat ((mbit OR 126) AND 0x7f) = 126" using assms(2) by auto
    have r: "rd16 (word_of_nat (n div 256)) (word_of_nat n) = n" using 2 by (intro rd16_be16) simp
    show ?thesis
      by (rule that [of "mbit OR 126" "be16 n"])
         (use 2 b r in \<open>simp_all add: length_bytes_def frame_length_def, simp add: be16_def\<close>)
  next
    case 3
    have b: "(mbit OR 127) AND 0x80 = mbit" "unat ((mbit OR 127) AND 0x7f) = 127" using assms(2) by auto
    have n: "n < 2 ^ 56" using assms(1) by (simp add: kMaxWsMessageBytes_def)
    then have u: "unat (of_nat n :: u64) = n" by (simp add: unat_of_nat)
    have "unat (drop_bit 56 (of_nat n :: u64)) = drop_bit 56 n" by (simp only: unat_drop_bit_eq u)
    also have "\<dots> = 0" using n by (simp add: drop_bit_eq_div)
    finally have "drop_bit 56 (of_nat n :: u64) = 0" by (simp only: unat_eq_0)
    then have h: "be64 (of_nat n) ! 0 AND 0x80 = 0" by (simp add: be64_def)
    have idx: "(be64 (of_nat n) @ r) ! 0 = be64 (of_nat n) ! 0" for r :: bytes
      by (simp only: nth_append length_be64) simp
    show ?thesis
      by (rule that [of "mbit OR 127" "be64 (of_nat n)"])
         (use 3 b h u in \<open>simp_all add: length_bytes_def frame_length_def idx del: of_nat_numeral\<close>)
  qed
qed

definition frame_body :: "bool \<Rightarrow> bytes \<Rightarrow> bytes option \<Rightarrow> bytes" where
  "frame_body client p mk = (if client then the mk @ mask_bytes (the mk) p else p)"

lemma frame_shape:
  assumes "make_frame client op p mk = Inr data" "op \<in> {2, 8, 9, 10}"
  obtains b1 ext where "data = (0x80 OR op) # b1 # ext @ frame_body client p mk"
    "b1 AND 0x80 = (if client then 0x80 else 0)" "head_error (\<not> client) (0x80 OR op) b1 = None"
    "\<And>b0 r. frame_length b1 (b0 # b1 # ext @ r) = Some (Inr (2 + length ext, length p))"
    "\<And>b0 q. length q < length ext \<Longrightarrow> frame_length b1 (b0 # b1 # q) = None"
proof -
  let ?m = "if client then 0x80 else 0 :: byte"
  from assms have n: "length p \<le> kMaxWsMessageBytes" and c: "is_control op \<Longrightarrow> length p < 126"
    and d: "data = (0x80 OR op) # length_bytes ?m (length p) @ frame_body client p mk"
    by (auto simp: make_frame_def frame_body_def Let_def result_iff kMaxWsMessageBytes_def split: if_splits)
  from n obtain b1 ext where b: "length_bytes ?m (length p) = b1 # ext" "b1 AND 0x80 = ?m"
    "\<And>b0 r. frame_length b1 (b0 # b1 # ext @ r) = Some (Inr (2 + length ext, length p))"
    "126 \<le> unat (b1 AND 0x7f) \<longleftrightarrow> 126 \<le> length p"
    "\<And>b0 q. length q < length ext \<Longrightarrow> frame_length b1 (b0 # b1 # q) = None"
    by (rule length_head [of "length p" ?m]) auto
  have "head_error (\<not> client) (0x80 OR op) b1 = None"
    using assms(2) b(2) c b(4) by (auto simp: head_error_def is_control_def Let_def split: if_splits)
  with b d show ?thesis by (intro that [of b1 ext]) simp_all
qed

definition mask_ok :: "bool \<Rightarrow> bytes option \<Rightarrow> bool" where
  "mask_ok client mk \<longleftrightarrow> (client \<longrightarrow> (\<exists>m. mk = Some m \<and> length m = 4))"

lemma opcode_bits: "op \<in> {2, 8, 9, 10} \<Longrightarrow> (0x80 OR op) AND 0x80 \<noteq> (0 :: byte) \<and> (0x80 OR op) AND 0x0f = (op :: byte)"
  by auto

lemma parse_make_frame:
  assumes mf: "make_frame client op p mk = Inr data" and op: "op \<in> {2, 8, 9, 10}"
    and mk: "mask_ok client mk" and lim: "length p \<le> limit"
  shows "parse_frame (\<not> client) limit (data @ rest) = Frame True op p rest"
proof -
  from mf op obtain b1 ext where d: "data = (0x80 OR op) # b1 # ext @ frame_body client p mk"
    and b: "b1 AND 0x80 = (if client then 0x80 else 0)" "head_error (\<not> client) (0x80 OR op) b1 = None"
    and fl: "\<And>b0 r. frame_length b1 (b0 # b1 # ext @ r) = Some (Inr (2 + length ext, length p))"
    by (rule frame_shape) blast
  note ob = opcode_bits [OF op]
  show ?thesis
  proof (cases client)
    case True
    then obtain m where m: "mk = Some m" "length m = 4" using mk by (auto simp: mask_ok_def)
    have "drop (6 + length ext) (x # y # ext @ m @ r) = r" "drop (6 + length ext + k) (x # y # ext @ m @ r) = drop k r"
      for x y r k using m by (simp_all add: drop_Cons')
    with True m show ?thesis
      using b lim ob by (simp add: parse_frame_def d Let_def fl frame_body_def mask_bytes_involution)
  next
    case False
    then show ?thesis using b lim ob by (simp add: parse_frame_def d Let_def fl frame_body_def)
  qed
qed

lemma parse_partial_frame:
  assumes mf: "make_frame client op p mk = Inr data" and op: "op \<in> {2, 8, 9, 10}"
    and mk: "mask_ok client mk" and lim: "length p \<le> limit" and t: "strict_prefix t data"
  shows "parse_frame (\<not> client) limit t = Need"
proof (cases "length t < 2")
  case True
  then show ?thesis by (simp add: parse_frame_def)
next
  case False
  from mf op obtain b1 ext where d: "data = (0x80 OR op) # b1 # ext @ frame_body client p mk"
    and b: "b1 AND 0x80 = (if client then 0x80 else 0)" "head_error (\<not> client) (0x80 OR op) b1 = None"
    and fl: "\<And>b0 r. frame_length b1 (b0 # b1 # ext @ r) = Some (Inr (2 + length ext, length p))"
    and short: "\<And>b0 q. length q < length ext \<Longrightarrow> frame_length b1 (b0 # b1 # q) = None"
    by (rule frame_shape) blast
  from t False d obtain q where q: "t = (0x80 OR op) # b1 # q" "strict_prefix q (ext @ frame_body client p mk)"
    by (cases t; cases "tl t") auto
  show ?thesis
  proof (cases "length q < length ext")
    case True
    then show ?thesis using b short by (simp add: parse_frame_def q(1) Let_def)
  next
    case False
    with q(2) obtain r where r: "q = ext @ r"
      by (auto simp: strict_prefix_def prefix_append) (auto simp: prefix_def)
    have "length (frame_body client p mk) = (if client then 4 else 0) + length p"
      using mk by (auto simp: frame_body_def mask_ok_def)
    with prefix_length_less [OF q(2)] have "length r < (if client then 4 else 0) + length p" by (simp add: r)
    with b lim show ?thesis by (auto simp: parse_frame_def q(1) r Let_def fl)
  qed
qed

end
