(* ===== verification/WsStream.thy ===== *)
theory WsStream
  imports WsRead
begin

text \<open>
  The two directions of a WebSocket session as byte streams: a run of sends and flushes puts
  the frames on the wire in order, and a run of \<open>websocket_read_messages\<close> over any chunking of that
  wire returns the payloads of its binary frames in order.
\<close>

section \<open>Frames of a conforming sender\<close>

definition sent_frame :: "bool \<Rightarrow> bytes \<Rightarrow> byte \<times> bytes \<Rightarrow> bool" where
  "sent_frame client data f \<longleftrightarrow> fst f \<in> {2, 9, 10} \<and>
     (\<exists>mk. mask_ok client mk \<and> make_frame client (fst f) (snd f) mk = Inr data)"

definition binaries :: "(byte \<times> bytes) list \<Rightarrow> bytes list" where
  "binaries fs = map snd (filter (\<lambda>f. fst f = 2) fs)"

text \<open>The payloads of the pings, and the bytes of the frames that answer them (the answers to a server are masked).\<close>

definition ping_payloads :: "(byte \<times> bytes) list \<Rightarrow> bytes list" where
  "ping_payloads fs = map snd (filter (\<lambda>f. fst f = 9) fs)"

definition pong_bytes :: "bool \<Rightarrow> (byte \<times> bytes) list \<Rightarrow> nat" where
  "pong_bytes client fs = sum_list (map (\<lambda>p. length p + (if client then 2 else 6)) (ping_payloads fs))"

lemma sent_frame_parse:
  assumes "sent_frame client data f" "length (snd f) \<le> limit"
  shows "parse_frame (\<not> client) limit (data @ rest) = Frame True (fst f) (snd f) rest"
    and "strict_prefix t data \<Longrightarrow> parse_frame (\<not> client) limit t = Need"
proof -
  from assms obtain mk where m: "mask_ok client mk" "make_frame client (fst f) (snd f) mk = Inr data"
    and o: "fst f \<in> {2, 8, 9, 10}" by (auto simp: sent_frame_def)
  show "parse_frame (\<not> client) limit (data @ rest) = Frame True (fst f) (snd f) rest"
    by (rule parse_make_frame [OF m(2) o m(1) assms(2)])
  show "parse_frame (\<not> client) limit t = Need" if "strict_prefix t data"
    by (rule parse_partial_frame [OF m(2) o m(1) assms(2) that])
qed

lemma parse_frame_empty: "parse_frame client limit [] = Need"
  by (simp add: parse_frame_def)

section \<open>The parsing loop on whole frames\<close>

text \<open>What handling a complete data or ping/pong frame leaves alone.\<close>

definition same_rx :: "ws_session \<Rightarrow> ws_session \<Rightarrow> bool" where
  "same_rx w w' \<longleftrightarrow> ws_client w' = ws_client w \<and> ws_authenticated w' = ws_authenticated w \<and>
     fragment_opcode w' = fragment_opcode w \<and> peer_eof w' = peer_eof w \<and>
     close_received w' = close_received w \<and> ws_rx w' = ws_rx w \<and>
     prefetched_messages w' = prefetched_messages w"

lemma same_rx_refl [simp]: "same_rx w w"
  by (simp add: same_rx_def)

lemma same_rx_trans [trans]: "same_rx a b \<Longrightarrow> same_rx b c \<Longrightarrow> same_rx a c"
  by (simp add: same_rx_def)

lemma same_rx_limit: "same_rx w w' \<Longrightarrow> frame_limit w' = frame_limit w"
  by (simp add: same_rx_def frame_limit_def)

lemma queue_frame_same_rx: "queue_frame op p mk now w = Inr w' \<Longrightarrow> same_rx w w'"
  by (auto simp: queue_frame_def result_iff same_rx_def split: if_splits)

lemma sent_control_short: "sent_frame client data f \<Longrightarrow> fst f \<noteq> 2 \<Longrightarrow> length (snd f) \<le> 125"
  by (auto simp: sent_frame_def make_frame_def is_control_def split: if_splits)

text \<open>
  The pings among the frames are answered, if there is room in the queue and a mask can be drawn: behind what the queue holds stands one pong for
  each of them, with its payload.
\<close>

definition answered :: "bool \<Rightarrow> ws_session \<Rightarrow> (byte \<times> bytes) list \<Rightarrow> ws_session \<Rightarrow> bool" where
  "answered client w fs w' \<longleftrightarrow>
     (\<exists>as. list_all2 (sent_frame (\<not> client)) as (map (Pair 10) (ping_payloads fs)) \<and> pending w' = pending w @ concat as) \<and>
     tx_queued_bytes w' = tx_queued_bytes w + pong_bytes client fs"

definition pong_room :: "bool \<Rightarrow> (byte \<times> bytes) list \<Rightarrow> ws_session \<Rightarrow> bool" where
  "pong_room client fs w \<longleftrightarrow> ping_payloads fs = [] \<or> tx_queued_bytes w + pong_bytes client fs \<le> kMaxWsTxBytes"

definition pong_masks :: "bool \<Rightarrow> (byte \<times> bytes) list \<Rightarrow> (nat \<Rightarrow> bytes option \<times> u64) \<Rightarrow> bool" where
  "pong_masks client fs env \<longleftrightarrow> ping_payloads fs = [] \<or> (\<forall>i. mask_ok (\<not> client) (fst (env i)))"

lemma ping_payloads_append: "ping_payloads (xs @ ys) = ping_payloads xs @ ping_payloads ys"
  by (simp add: ping_payloads_def)

lemma pong_bytes_append: "pong_bytes client (xs @ ys) = pong_bytes client xs + pong_bytes client ys"
  by (simp add: pong_bytes_def ping_payloads_append)

lemma answered_none:
  "ping_payloads fs = [] \<Longrightarrow> pending w' = pending w \<Longrightarrow> tx_queued_bytes w' = tx_queued_bytes w \<Longrightarrow> answered client w fs w'"
  by (simp add: answered_def pong_bytes_def)

lemma answered_trans:
  assumes "answered client w fs w1" "answered client w1 gs w2"
  shows "answered client w (fs @ gs) w2"
proof -
  from assms obtain as bs where "list_all2 (sent_frame (\<not> client)) as (map (Pair 10) (ping_payloads fs))" "pending w1 = pending w @ concat as"
    "list_all2 (sent_frame (\<not> client)) bs (map (Pair 10) (ping_payloads gs))" "pending w2 = pending w1 @ concat bs" by (auto simp: answered_def)
  then have "list_all2 (sent_frame (\<not> client)) (as @ bs) (map (Pair 10) (ping_payloads (fs @ gs)))" "pending w2 = pending w @ concat (as @ bs)"
    by (simp_all add: ping_payloads_append list_all2_appendI)
  then show ?thesis using assms by (auto simp: answered_def pong_bytes_append)
qed

lemma pong_room_append:
  assumes "pong_room client (fs @ gs) w"
  shows "pong_room client fs w" "answered client w fs w1 \<Longrightarrow> pong_room client gs w1"
  using assms by (auto simp: pong_room_def answered_def ping_payloads_append pong_bytes_append)

lemma pong_masks_append: "pong_masks client (fs @ gs) env \<Longrightarrow> pong_masks client fs env \<and> pong_masks client gs env"
  by (auto simp: pong_masks_def ping_payloads_append)

lemma queue_pong:
  assumes "length p \<le> 125" "mask_ok (ws_client w) mk" "tx_queued_bytes w + (length p + (if ws_client w then 6 else 2)) \<le> kMaxWsTxBytes"
  obtains w' data where "websocket_send_pong p mk now w = Inr w'" "sent_frame (ws_client w) data (10, p)" "pending w' = pending w @ data"
    "tx_queued_bytes w' = tx_queued_bytes w + (length p + (if ws_client w then 6 else 2))"
proof -
  from assms(1,2) obtain data where d: "make_frame (ws_client w) 10 p mk = Inr data" "length data = length p + (if ws_client w then 6 else 2)"
    by (cases "ws_client w") (auto simp: make_frame_def mask_ok_def length_bytes_def Let_def is_control_def kMaxWsMessageBytes_def)
  let ?w = "w\<lparr>tx_queued_bytes := tx_queued_bytes w + length data,
    ws_tx := ws_tx w @ [\<lparr>fr_data = data, fr_offset = 0, fr_payload_bytes = length p, fr_opcode = 10\<rparr>],
    tx_last_progress_ms := (if ws_tx w = [] then now else tx_last_progress_ms w)\<rparr>"
  have q: "websocket_send_pong p mk now w = Inr ?w" using d assms(3) by (auto simp: websocket_send_pong_def queue_frame_def)
  have p: "pending ?w = pending w @ data" by (simp add: pending_def frame_rest_def)
  have s: "sent_frame (ws_client w) data (10, p)" using assms(2) d(1) by (auto simp: sent_frame_def)
  have t: "tx_queued_bytes ?w = tx_queued_bytes w + (length p + (if ws_client w then 6 else 2))" using d(2) by simp
  from q s p t show ?thesis by (rule that)
qed

lemma handle_sent_frame:
  assumes "fst f \<in> {2, 9, 10}" "fst f \<noteq> 2 \<Longrightarrow> length (snd f) \<le> 125" "fragment_opcode w = 0" "ws_client w = (\<not> client)"
    and "pong_room client [f] w" "fst f = 9 \<Longrightarrow> mask_ok (\<not> client) mk"
  obtains w' where "handle_frame mk now True (fst f) (snd f) w out = (w', Inr (out @ binaries [f], False))"
    "same_rx w w'" "answered client w [f] w'"
proof -
  consider "fst f = 2" | "fst f = 10" | "fst f = 9" using assms(1) by auto
  then show ?thesis
  proof cases
    case 1
    let ?w = "w\<lparr>rx_binary_payload_bytes := rx_binary_payload_bytes w + of_nat (length (snd f))\<rparr>"
    have "handle_frame mk now True (fst f) (snd f) w out = (?w, Inr (out @ binaries [f], False))"
      using 1 assms(3) by (simp add: handle_frame_def binaries_def)
    moreover have "answered client w [f] ?w" using 1 by (intro answered_none) (simp_all add: ping_payloads_def pending_def)
    ultimately show ?thesis by (intro that) (simp_all add: same_rx_def)
  next
    case 2
    let ?ps = "(if length (pong_payloads w) \<ge> kMaxRememberedPongs then tl (pong_payloads w) else pong_payloads w) @ [snd f]"
    let ?w = "w\<lparr>rx_pong_frames := rx_pong_frames w + 1, pong_payloads := ?ps\<rparr>"
    have "handle_frame mk now True (fst f) (snd f) w out = (?w, Inr (out @ binaries [f], False))"
      using 2 by (simp add: handle_frame_def binaries_def)
    moreover have "answered client w [f] ?w" using 2 by (intro answered_none) (simp_all add: ping_payloads_def pending_def)
    ultimately show ?thesis by (intro that) (simp_all add: same_rx_def)
  next
    case 3
    let ?w = "w\<lparr>rx_ping_frames := rx_ping_frames w + 1\<rparr>"
    have s: "same_rx w ?w" by (simp add: same_rx_def)
    have l: "length (snd f) \<le> 125" "mask_ok (ws_client ?w) mk" "tx_queued_bytes ?w + (length (snd f) + (if ws_client ?w then 6 else 2)) \<le> kMaxWsTxBytes"
      using 3 assms(2,4,5,6) by (auto simp: pong_room_def pong_bytes_def ping_payloads_def)
    from queue_pong [OF l, of now] obtain w2 data where q: "websocket_send_pong (snd f) mk now ?w = Inr w2"
      "sent_frame (ws_client ?w) data (10, snd f)" "pending w2 = pending ?w @ data"
      "tx_queued_bytes w2 = tx_queued_bytes ?w + (length (snd f) + (if ws_client ?w then 6 else 2))" by blast
    have "handle_frame mk now True (fst f) (snd f) w out = (w2, Inr (out @ binaries [f], False))"
      using 3 q(1) by (simp add: handle_frame_def Let_def binaries_def)
    moreover have "same_rx w w2" using same_rx_trans [OF s queue_frame_same_rx] q(1) by (simp add: websocket_send_pong_def)
    moreover have "answered client w [f] w2" using 3 q(2-4) assms(4)
      by (auto simp: answered_def pong_bytes_def ping_payloads_def pending_def intro!: exI [of _ "[data]"])
    ultimately show ?thesis by (rule that)
  qed
qed

lemma parse_loop_frames:
  assumes "list_all2 (sent_frame client) ds fs" "ws_client w = (\<not> client)" "fragment_opcode w = 0"
    and "\<forall>f \<in> set fs. length (snd f) \<le> frame_limit w"
    and "parse_frame (ws_client w) (frame_limit w) tail = Need" "pong_room client fs w" "pong_masks client fs env"
  shows "\<exists>w'. parse_loop env i (concat ds @ tail) w out = (w', Inr (out @ binaries fs, tail)) \<and> same_rx w w' \<and> answered client w fs w'"
  using assms
proof (induction ds fs arbitrary: i w out rule: list_all2_induct)
  case Nil
  then show ?case by (simp add: parse_loop.simps [of env i tail] binaries_def answered_none ping_payloads_def)
next
  case (Cons d ds f fs)
  let ?w = "w\<lparr>rx_frames := rx_frames w + 1\<rparr>"
  have p: "parse_frame (ws_client w) (frame_limit w) (d @ concat ds @ tail) = Frame True (fst f) (snd f) (concat ds @ tail)"
    using sent_frame_parse(1) [OF Cons.hyps(1), of "frame_limit w" "concat ds @ tail"] Cons.prems(1,3) by simp
  have s: "same_rx w ?w" and n: "answered client w [] ?w" by (simp_all add: same_rx_def answered_none ping_payloads_def pending_def)
  have op: "fst f \<in> {2, 9, 10}" using Cons.hyps(1) by (simp add: sent_frame_def)
  have room: "pong_room client ([] @ [f] @ fs) w" "pong_masks client ([f] @ fs) env" using Cons.prems(5,6) by simp_all
  have mask: "mask_ok (\<not> client) (fst (env i))" if "fst f = 9" using that Cons.prems(6) by (auto simp: pong_masks_def ping_payloads_def)
  note room1 = pong_room_append(2) [OF room(1) n]
  obtain w1 where h: "handle_frame (fst (env i)) (snd (env i)) True (fst f) (snd f) ?w out = (w1, Inr (out @ binaries [f], False))"
    "same_rx ?w w1" "answered client ?w [f] w1"
    by (rule handle_sent_frame [of f ?w client "fst (env i)" "snd (env i)" out])
      (use op sent_control_short [OF Cons.hyps(1)] Cons.prems(1,2) pong_room_append(1) [OF room1] mask in auto)
  have s1: "same_rx w w1" using s h(2) same_rx_trans by blast
  have "\<exists>w'. parse_loop env (i + 1) (concat ds @ tail) w1 (out @ binaries [f]) = (w', Inr ((out @ binaries [f]) @ binaries fs, tail)) \<and>
      same_rx w1 w' \<and> answered client w1 fs w'"
    by (rule Cons.IH) (use Cons.prems(1-4) s1 same_rx_limit [OF s1] pong_room_append(2) [OF room1 h(3)] pong_masks_append [OF room(2)]
      in \<open>auto simp: same_rx_def\<close>)
  then obtain w' where w': "parse_loop env (i + 1) (concat ds @ tail) w1 (out @ binaries [f]) = (w', Inr ((out @ binaries [f]) @ binaries fs, tail))"
    "same_rx w1 w'" "answered client w1 fs w'" by blast
  have "answered client w (f # fs) w'" using answered_trans [OF answered_trans [OF n h(3)] w'(3)] by simp
  moreover have "binaries [f] @ binaries fs = binaries (f # fs)" by (simp add: binaries_def)
  ultimately show ?case using w' h(1) same_rx_trans [OF s1 w'(2)] by (simp add: parse_loop.simps [of env i "d @ concat ds @ tail" w out] p)
qed

section \<open>A run of reads\<close>

text \<open>
  What the transport hands to one call: some non-empty chunks of at most the size of the read
  buffer, then \<open>EAGAIN\<close>. All of them are taken when the chunks before the last stay below the limit of a call.
\<close>

definition chunk_reads :: "bytes list \<Rightarrow> nat \<Rightarrow> rd" where
  "chunk_reads cs i = (if i < length cs then RGot (cs ! i) else RAgain 1)"

definition one_poll :: "bytes list \<Rightarrow> bool" where
  "one_poll cs \<longleftrightarrow> (\<forall>c \<in> set cs. c \<noteq> [] \<and> length c \<le> 65536) \<and> length (concat (butlast cs)) < 262144"

lemma chunk_reads_Cons [simp]: "chunk_reads (c # cs) 0 = RGot c" "chunk_reads (c # cs) (Suc i) = chunk_reads cs i"
  by (simp_all add: chunk_reads_def)

lemma ws_fill_chunks:
  "\<lbrakk>\<And>j. reads (i + j) = chunk_reads cs j; \<forall>c \<in> set cs. c \<noteq> [];
    cs \<noteq> [] \<Longrightarrow> received + length (concat (butlast cs)) < 262144;
    length (ws_rx w) + length (concat cs) \<le> kMaxWsRxBufferedBytes\<rbrakk> \<Longrightarrow>
   \<exists>w'. ws_fill reads i received w = (w', Inr ()) \<and> same_rx (w\<lparr>ws_rx := ws_rx w @ concat cs\<rparr>) w' \<and>
     ws_tx w' = ws_tx w \<and> tx_queued_bytes w' = tx_queued_bytes w"
proof (induction cs arbitrary: i received w)
  case Nil
  have "reads i = RAgain 1" using Nil.prems(1) [of 0] by (simp add: chunk_reads_def)
  then show ?case by (simp add: ws_fill.simps [of reads i] same_rx_def)
next
  case (Cons c cs)
  let ?w = "w\<lparr>rx_wait := 0, ws_rx := ws_rx w @ c\<rparr>"
  have r: "reads i = RGot c" "reads (Suc i + j) = chunk_reads cs j" for j
    using Cons.prems(1) [of 0] Cons.prems(1) [of "Suc j"] by simp_all
  have l: "received < 262144" "c \<noteq> []" "length (ws_rx w) \<le> kMaxWsRxBufferedBytes - length c"
    using Cons.prems by auto
  have "\<exists>w'. ws_fill reads (Suc i) (received + length c) ?w = (w', Inr ()) \<and>
      same_rx (?w\<lparr>ws_rx := ws_rx ?w @ concat cs\<rparr>) w' \<and> ws_tx w' = ws_tx ?w \<and> tx_queued_bytes w' = tx_queued_bytes ?w"
    by (rule Cons.IH) (use Cons.prems r in \<open>auto simp: add.assoc split: if_splits\<close>)
  then show ?case using r l by (auto simp: ws_fill.simps [of reads i] same_rx_def)
qed

fun recv_run :: "ws_session \<Rightarrow> (bytes list \<times> (nat \<Rightarrow> bytes option \<times> u64)) list \<Rightarrow>
    ws_session \<times> (ws_error, bytes list) result" where
  "recv_run w [] = (w, Inr [])"
| "recv_run w ((cs, env) # polls) =
     (case websocket_read_messages True (chunk_reads cs) env w of
        (w1, Inl e) \<Rightarrow> (w1, Inl e)
      | (w1, Inr ms) \<Rightarrow>
          (case recv_run w1 polls of (w2, Inl e) \<Rightarrow> (w2, Inl e) | (w2, Inr ms') \<Rightarrow> (w2, Inr (ms @ ms'))))"

text \<open>A session that waits for more: open, between messages, with at most a part of the next frame.\<close>

definition awaiting :: "bool \<Rightarrow> bytes list \<Rightarrow> ws_session \<Rightarrow> bool" where
  "awaiting client ds w \<longleftrightarrow> ws_client w = (\<not> client) \<and> fragment_opcode w = 0 \<and> \<not> peer_eof w \<and>
     \<not> close_received w \<and> prefetched_messages w = [] \<and>
     (ws_rx w = [] \<or> (ds \<noteq> [] \<and> strict_prefix (ws_rx w) (hd ds)))"

lemma sent_frame_length: "sent_frame client d f \<Longrightarrow> length d \<le> 16777230"
  by (auto simp: sent_frame_def make_frame_def mask_ok_def length_bytes_def Let_def result_iff
      kMaxWsMessageBytes_def split: if_splits)

lemma awaiting_rx_length:
  assumes "awaiting client ds w" "list_all2 (sent_frame client) ds fs"
  shows "length (ws_rx w) \<le> 16777230"
proof (cases "ws_rx w = []")
  case False
  with assms(1) have p: "strict_prefix (ws_rx w) (hd ds)" "ds \<noteq> []" by (auto simp: awaiting_def)
  have "sent_frame client (hd ds) (hd fs)" using assms(2) p(2) by (cases ds; cases fs) simp_all
  from sent_frame_length [OF this] prefix_length_less [OF p(1)] show ?thesis by simp
qed simp

lemma one_poll_length: "one_poll cs \<Longrightarrow> length (concat cs) \<le> 262144 + 65536"
  by (cases cs rule: rev_cases) (auto simp: one_poll_def)

text \<open>One call takes the complete frames and keeps the part of the next one.\<close>

lemma read_step:
  assumes "awaiting client ds w" "list_all2 (sent_frame client) ds fs" "pong_room client fs w"
    and "\<forall>f \<in> set fs. length (snd f) \<le> frame_limit w" "one_poll cs" "pong_masks client fs env"
    and "prefix (ws_rx w @ concat cs) (concat ds)"
  shows "\<exists>w' k. websocket_read_messages True (chunk_reads cs) env w = (w', Inr (binaries (take k fs))) \<and>
    k \<le> length ds \<and> ws_rx w @ concat cs = concat (take k ds) @ ws_rx w' \<and>
    awaiting client (drop k ds) w' \<and> frame_limit w' = frame_limit w \<and> answered client w (take k fs) w'"
proof -
  from prefix_of_concat [OF assms(7)] obtain k tail where k: "k \<le> length ds"
    "ws_rx w @ concat cs = concat (take k ds) @ tail" and t: "tail = [] \<or> (k < length ds \<and> strict_prefix tail (ds ! k))"
    by blast
  have "length (ws_rx w) + length (concat cs) \<le> kMaxWsRxBufferedBytes"
    using awaiting_rx_length [OF assms(1,2)] one_poll_length [OF assms(5)] by (simp add: kMaxWsRxBufferedBytes_def)
  with ws_fill_chunks [of "chunk_reads cs" 0 cs 0 w] assms(5) obtain w1 where
    f: "ws_fill (chunk_reads cs) 0 0 w = (w1, Inr ())" and s1: "same_rx (w\<lparr>ws_rx := ws_rx w @ concat cs\<rparr>) w1"
    and x1: "pending w1 = pending w" "tx_queued_bytes w1 = tx_queued_bytes w"
    by (auto simp: one_poll_def pending_def)
  have room: "pong_room client (take k fs @ drop k fs) w" "pong_masks client (take k fs @ drop k fs) env" using assms(3,6) by simp_all
  have n: "answered client w [] w1" using x1 by (simp add: answered_none ping_payloads_def)
  have lim: "frame_limit w1 = frame_limit w" using same_rx_limit [OF s1] by (simp add: frame_limit_def)
  have tk: "list_all2 (sent_frame client) (take k ds) (take k fs)" using assms(2) by (rule list_all2_takeI)
  have need: "parse_frame (ws_client w1) (frame_limit w1) tail = Need"
  proof (cases "tail = []")
    case False
    with t assms(2) have "sent_frame client (ds ! k) (fs ! k)" "strict_prefix tail (ds ! k)" "fs ! k \<in> set fs"
      by (auto simp: list_all2_conv_all_nth)
    with sent_frame_parse(2) assms(1,4) s1 lim show ?thesis by (auto simp: awaiting_def same_rx_def)
  qed (simp add: parse_frame_empty)
  have "\<exists>w2. parse_loop env 0 (concat (take k ds) @ tail) w1 [] = (w2, Inr ([] @ binaries (take k fs), tail)) \<and> same_rx w1 w2 \<and>
      answered client w1 (take k fs) w2"
    by (rule parse_loop_frames [OF tk])
       (use assms(1,4) s1 need lim pong_room_append(1) [OF room(1)] x1 pong_masks_append [OF room(2)]
         in \<open>auto simp: awaiting_def same_rx_def pong_room_def dest: in_set_takeD\<close>)
  then obtain w2 where p: "parse_loop env 0 (concat (take k ds) @ tail) w1 [] = (w2, Inr (binaries (take k fs), tail))"
    and s2: "same_rx w1 w2" and a2: "answered client w1 (take k fs) w2" by auto
  have "answered client w (take k fs) (w2\<lparr>ws_rx := tail\<rparr>)" using answered_trans [OF n a2] by (simp add: answered_def pending_def)
  moreover have "websocket_read_messages True (chunk_reads cs) env w = (w2\<lparr>ws_rx := tail\<rparr>, Inr (binaries (take k fs)))"
    using assms(1) f p s1 s2 k(2) by (simp add: websocket_read_messages_def awaiting_def same_rx_def)
  moreover have "awaiting client (drop k ds) (w2\<lparr>ws_rx := tail\<rparr>)"
    using assms(1) s1 s2 t by (auto simp: awaiting_def same_rx_def hd_drop_conv_nth)
  moreover have "frame_limit (w2\<lparr>ws_rx := tail\<rparr>) = frame_limit w"
    using same_rx_limit [OF s2] lim by (simp add: frame_limit_def)
  ultimately show ?thesis using k by (intro exI [of _ "w2\<lparr>ws_rx := tail\<rparr>"] exI [of _ k]) simp
qed

definition received_bytes :: "(bytes list \<times> (nat \<Rightarrow> bytes option \<times> u64)) list \<Rightarrow> bytes" where
  "received_bytes polls = concat (concat (map fst polls))"

lemma binaries_append: "binaries (xs @ ys) = binaries xs @ binaries ys"
  by (simp add: binaries_def)

lemma recv_run_frames:
  assumes "awaiting client ds w" "list_all2 (sent_frame client) ds fs" "pong_room client fs w"
    and "\<forall>f \<in> set fs. length (snd f) \<le> frame_limit w" "\<forall>(cs, env) \<in> set polls. one_poll cs \<and> pong_masks client fs env"
    and "prefix (ws_rx w @ received_bytes polls) (concat ds)"
  shows "\<exists>w' k. recv_run w polls = (w', Inr (binaries (take k fs))) \<and> k \<le> length ds \<and>
    ws_rx w @ received_bytes polls = concat (take k ds) @ ws_rx w' \<and>
    awaiting client (drop k ds) w' \<and> answered client w (take k fs) w'"
  using assms
proof (induction polls arbitrary: w ds fs)
  case Nil
  then show ?case by (intro exI [of _ w] exI [of _ 0]) (simp add: binaries_def received_bytes_def answered_none ping_payloads_def)
next
  case (Cons poll polls)
  obtain cs env where poll: "poll = (cs, env)" by (cases poll)
  let ?more = "received_bytes polls"
  have stream: "prefix ((ws_rx w @ concat cs) @ ?more) (concat ds)" using Cons.prems(6) by (simp add: poll received_bytes_def)
  then have "prefix (ws_rx w @ concat cs) (concat ds)" by (rule append_prefixD)
  with read_step [OF Cons.prems(1-4), of cs env] Cons.prems(5) obtain w1 k where
    r: "websocket_read_messages True (chunk_reads cs) env w = (w1, Inr (binaries (take k fs)))"
    and k: "k \<le> length ds" "ws_rx w @ concat cs = concat (take k ds) @ ws_rx w1"
    and aw: "awaiting client (drop k ds) w1" "frame_limit w1 = frame_limit w" "answered client w (take k fs) w1"
    by (auto simp: poll)
  have "prefix (ws_rx w1 @ ?more) (concat (drop k ds))"
  proof -
    have "concat (take k ds) @ concat (drop k ds) = concat ds" by (simp flip: concat_append)
    moreover have "(ws_rx w @ concat cs) @ ?more = concat (take k ds) @ ws_rx w1 @ ?more" by (simp only: k(2) append.assoc)
    ultimately show ?thesis using stream by (metis same_prefix_prefix)
  qed
  moreover have "pong_room client (drop k fs) w1" using Cons.prems(3) aw(3) pong_room_append(2) [of client "take k fs" "drop k fs" w w1] by simp
  moreover have "\<forall>f \<in> set (drop k fs). length (snd f) \<le> frame_limit w1" "\<forall>(cs, env) \<in> set polls. one_poll cs \<and> pong_masks client (drop k fs) env"
    using Cons.prems(4,5) aw(2) pong_masks_append [of client "take k fs" "drop k fs"] by (auto dest: in_set_dropD)
  ultimately obtain w2 m where
    r2: "recv_run w1 polls = (w2, Inr (binaries (take m (drop k fs))))" and m: "m \<le> length (drop k ds)"
      "ws_rx w1 @ ?more = concat (take m (drop k ds)) @ ws_rx w2" "awaiting client (drop m (drop k ds)) w2"
      and a2: "answered client w1 (take m (drop k fs)) w2"
    using Cons.IH [OF aw(1) list_all2_dropI [OF Cons.prems(2)]] by blast
  have "recv_run w (poll # polls) = (w2, Inr (binaries (take (k + m) fs)))"
    using r r2 by (simp add: poll take_add binaries_append)
  moreover have "ws_rx w @ received_bytes (poll # polls) = concat (take (k + m) ds) @ ws_rx w2"
  proof -
    have "received_bytes (poll # polls) = concat cs @ ?more" by (simp add: poll received_bytes_def)
    then have "ws_rx w @ received_bytes (poll # polls) = (ws_rx w @ concat cs) @ ?more" by simp
    also have "\<dots> = concat (take (k + m) ds) @ ws_rx w2" by (simp only: k(2) append.assoc m(2) take_add concat_append)
    finally show ?thesis .
  qed
  moreover have "answered client w (take (k + m) fs) w2" using answered_trans [OF aw(3) a2] by (simp add: take_add)
  ultimately show ?case using k(1) m by (intro exI [of _ w2] exI [of _ "k + m"]) (simp add: add.commute)
qed

end
