(* ===== verification/Carrier.thy ===== *)
theory Carrier
  imports CarrierSpec WsStream
begin

text \<open>
  \<open>WebSocketCarrier\<close> of \<open>src/cdn/src/carrier.cpp\<close>: its methods on a WebSocket session, the proof
  that it is a carrier, and the properties of the session that follow.
\<close>

section \<open>The methods\<close>

type_synonym ws_env = "bytes option \<times> u64"
type_synonym ws_io = "nat \<Rightarrow> bytes \<Rightarrow> wr \<times> u64"

record carrier_counters =
  cc_rx_frames :: u64
  cc_rx_ping_frames :: u64
  cc_rx_pong_frames :: u64
  cc_tx_messages :: u64
  cc_tx_payload_bytes :: u64
  cc_tx_ping_frames :: u64
  cc_tx_pong_frames :: u64

definition carrier_send :: "bytes \<Rightarrow> ws_env \<Rightarrow> ws_session \<Rightarrow> (ws_error, ws_session) result" where
  "carrier_send p x w = websocket_send_binary p (fst x) (snd x) w"

definition carrier_send_ping :: "bytes \<Rightarrow> ws_env \<Rightarrow> ws_session \<Rightarrow> (ws_error, ws_session) result" where
  "carrier_send_ping p x w = websocket_send_ping p (fst x) (snd x) w"

definition carrier_read :: "bool \<Rightarrow> (nat \<Rightarrow> rd) \<Rightarrow> (nat \<Rightarrow> ws_env) \<Rightarrow> ws_session \<Rightarrow>
    ws_session \<times> (ws_error, bytes list) result" where
  "carrier_read ready reads env w = websocket_read_messages ready reads env w"

definition carrier_flush :: "ws_io \<Rightarrow> nat \<Rightarrow> ws_session \<Rightarrow> ws_session \<times> (ws_error, nat) result \<times> bytes" where
  "carrier_flush io byte_budget w = websocket_flush io byte_budget w"

definition carrier_tx_pending :: "ws_session \<Rightarrow> bool" where
  "carrier_tx_pending w = websocket_tx_pending w"

definition carrier_tx_pending_bytes :: "ws_session \<Rightarrow> nat" where
  "carrier_tx_pending_bytes w = websocket_tx_queued_bytes w"

definition carrier_tx_stalled :: "u64 \<Rightarrow> int \<Rightarrow> ws_session \<Rightarrow> bool" where
  "carrier_tx_stalled now_ms timeout_ms w = websocket_tx_stalled now_ms timeout_ms w"

definition carrier_tx_poll_events :: "ws_session \<Rightarrow> poll_event option" where
  "carrier_tx_poll_events w = websocket_tx_poll_events w"

definition carrier_rx_poll_events :: "ws_session \<Rightarrow> poll_event" where
  "carrier_rx_poll_events w = websocket_rx_poll_events w"

definition carrier_take_pongs :: "ws_session \<Rightarrow> bytes list \<times> ws_session" where
  "carrier_take_pongs w = websocket_take_pongs w"

definition carrier_counters_of :: "ws_session \<Rightarrow> carrier_counters" where
  "carrier_counters_of w =
     \<lparr>cc_rx_frames = rx_frames w, cc_rx_ping_frames = rx_ping_frames w, cc_rx_pong_frames = rx_pong_frames w,
      cc_tx_messages = tx_binary_frames w, cc_tx_payload_bytes = tx_binary_payload_bytes w,
      cc_tx_ping_frames = tx_ping_frames w, cc_tx_pong_frames = tx_pong_frames w\<rparr>"

section \<open>It is a carrier\<close>

definition opcode_of :: "message_kind \<Rightarrow> byte" where
  "opcode_of k = (case k of Data \<Rightarrow> 2 | Ping \<Rightarrow> 9)"

definition ws_encoded :: "bool \<Rightarrow> bytes \<Rightarrow> message_kind \<times> bytes \<Rightarrow> bool" where
  "ws_encoded client d m \<longleftrightarrow> sent_frame client d (opcode_of (fst m), snd m)"

definition ws_invar :: "bool \<Rightarrow> ws_session \<Rightarrow> bool" where
  "ws_invar client w \<longleftrightarrow> ws_client w = client \<and> tx_ok w"

lemma ws_queue_law:
  assumes "ws_invar client w" "mask_ok client mk" "op \<in> {2, 9, 10}" "queue_frame op p mk now w = Inr w'"
  shows "ws_invar client w' \<and> (\<exists>d. sent_frame client d (op, p) \<and> pending w' = pending w @ d)"
proof -
  from assms(1) have "tx_ok w" "ws_client w = client" by (simp_all add: ws_invar_def)
  with queue_frame_ok [OF _ assms(4)] obtain d where "make_frame client op p mk = Inr d" "pending w' = pending w @ d"
    "tx_ok w'" by blast
  moreover have "ws_client w' = ws_client w" using queue_frame_same_rx [OF assms(4)] by (simp add: same_rx_def)
  ultimately show ?thesis using assms by (auto simp: ws_invar_def sent_frame_def)
qed

lemma pending_empty_iff: "tx_ok w \<Longrightarrow> pending w = [] \<longleftrightarrow> ws_tx w = []"
  by (cases "ws_tx w") (auto simp: tx_ok_def pending_def frame_rest_def)

interpretation wsc: carrier carrier_send carrier_send_ping carrier_flush carrier_tx_pending carrier_tx_pending_bytes
  "ws_invar client" pending "ws_encoded client" "\<lambda>x. mask_ok client (fst x)" io_ok kMaxWsTxBytes for client
proof unfold_locales
  fix w w' and x :: ws_env and p assume "ws_invar client w" "mask_ok client (fst x)"
  note l = ws_queue_law [OF this]
  show "carrier_send p x w = Inr w' \<Longrightarrow> ws_invar client w' \<and> (\<exists>d. ws_encoded client d (Data, p) \<and> pending w' = pending w @ d)"
    using l [of 2] by (simp add: carrier_send_def websocket_send_binary_def ws_encoded_def opcode_of_def)
  show "carrier_send_ping p x w = Inr w' \<Longrightarrow> ws_invar client w' \<and> (\<exists>d. ws_encoded client d (Ping, p) \<and> pending w' = pending w @ d)"
    using l [of 9] by (simp add: carrier_send_ping_def websocket_send_ping_def ws_encoded_def opcode_of_def)
next
  fix w io budget w' r sent assume a: "ws_invar client w" "io_ok io" "carrier_flush io budget w = (w', r, sent)"
  then show "ws_invar client w' \<and> pending w = sent @ pending w' \<and> length sent \<le> budget \<and> (\<forall>n. r = Inr n \<longrightarrow> n = length sent)"
    using websocket_flush_ok [of io w budget w' r sent] by (auto simp: ws_invar_def carrier_flush_def)
next
  fix w assume "ws_invar client w"
  then show "carrier_tx_pending w \<longleftrightarrow> pending w \<noteq> []" "carrier_tx_pending_bytes w = length (pending w)"
    "carrier_tx_pending_bytes w \<le> kMaxWsTxBytes"
    by (simp_all add: ws_invar_def carrier_tx_pending_def websocket_tx_pending_def pending_empty_iff
        carrier_tx_pending_bytes_def websocket_tx_queued_bytes_def tx_ok_def)
qed

section \<open>Properties\<close>

lemma new_session_invar: "ws_invar client (new_session client)" "pending (new_session client) = []"
  by (simp_all add: ws_invar_def tx_ok_new) (simp_all add: new_session_def pending_def)

text \<open>
  C22: whatever calls of \<open>send\<close>, \<open>send_ping\<close> and \<open>flush\<close> a tunnel makes, and however little the
  transport takes at a time, the bytes on the wire followed by the bytes still queued are the
  frames of the accepted messages in order; the queued-bytes counter is exact, never exceeds
  \<open>kMaxWsTxBytes\<close>, and the carrier reports pending data exactly when there is some.
\<close>

theorem carrier_stream:
  assumes "\<forall>c \<in> set ops. op_ok (\<lambda>x. mask_ok client (fst x)) io_ok c"
    and "carrier_run carrier_send carrier_send_ping carrier_flush ops (new_session client) = (w, ms, wire)"
  shows "(\<exists>ds. list_all2 (ws_encoded client) ds ms \<and> concat ds = wire @ pending w) \<and>
    carrier_tx_pending_bytes w = length (pending w) \<and> carrier_tx_pending_bytes w \<le> kMaxWsTxBytes \<and>
    (carrier_tx_pending w \<longleftrightarrow> pending w \<noteq> [])"
proof -
  note r = wsc.run_stream [OF new_session_invar(1) assms]
  then have "\<exists>ds. list_all2 (ws_encoded client) ds ms \<and> concat ds = wire @ pending w"
    by (simp add: new_session_invar(2))
  moreover from r have "ws_invar client w" by blast
  ultimately show ?thesis
    using wsc.pending_law wsc.pending_bytes_law wsc.limit_law by (metis (no_types))
qed

definition two_at_a_time :: ws_io where
  "two_at_a_time k chunk = (if k < 2 then (Wrote (min 2 (length chunk)), 5) else (WAgain 2, 5))"

lemma two_at_a_time_ok: "io_ok two_at_a_time"
  by (simp add: io_ok_def two_at_a_time_def)

theorem carrier_stream_witness:
  "\<exists>w ms. carrier_run carrier_send carrier_send_ping carrier_flush
      [Send [7, 8, 9] (None, 3), SendPing [1] (None, 4), Flush two_at_a_time 100] (new_session False) = (w, ms, [0x82, 3, 7, 8]) \<and>
    ms = [(Data, [7, 8, 9]), (Ping, [1])] \<and> pending w = [9, 0x89, 1, 1] \<and> carrier_tx_pending_bytes w = 4"
proof -
  let ?ops = "[Send [7, 8, 9] (None, 3), SendPing [1] (None, 4), Flush two_at_a_time 100] :: (ws_env, ws_io) carrier_op list"
  obtain w where r: "carrier_run carrier_send carrier_send_ping carrier_flush ?ops (new_session False) =
      (w, [(Data, [7, 8, 9]), (Ping, [1])], [0x82, 3, 7, 8])" and p: "pending w = [9, 0x89, 1, 1]"
    by (simp add: carrier_send_def carrier_send_ping_def carrier_flush_def websocket_send_binary_def
        websocket_send_ping_def queue_frame_def make_frame_def length_bytes_def is_control_def new_session_def
        kMaxWsTxBytes_def kMaxWsMessageBytes_def websocket_flush_def flush_loop.simps two_at_a_time_def
        pending_def frame_rest_def Let_def)
  from carrier_stream [OF _ r] p two_at_a_time_ok r show ?thesis by (simp add: mask_ok_def)
qed

end
