(* ===== verification/WsProps.thy ===== *)
theory WsProps
  imports Carrier
begin

text \<open>
  Properties of the WebSocket session as the tunnel loops see it: delivery over any chunking,
  the memory bounds of the receiving side, the frames it refuses and the reassembly of fragments.
\<close>

section \<open>Delivery\<close>

text \<open>
  C19: a run of \<open>websocket_read_messages\<close> over any chunking of a prefix of the sender's frames, binary messages, pings and pongs in any order,
  returns exactly the binary payloads of the frames that are complete so far, in order and each
  once; the rest of the bytes, a part of the next frame, stays buffered, no exception is raised and the
  session is ready for more. Every ping so far is answered: behind what was queued to be sent stand the pongs, with the payloads of the pings, in
  their order. Where there are pings, the queue has room for the answers and a client can draw the masks of its answers.
\<close>

theorem websocket_delivery:
  assumes "list_all2 (sent_frame client) ds fs" "awaiting client ds w" "\<forall>f \<in> set fs. length (snd f) \<le> frame_limit w"
    and "ping_payloads fs = [] \<or> tx_queued_bytes w + pong_bytes client fs \<le> kMaxWsTxBytes"
    and "\<forall>(cs, env) \<in> set polls. one_poll cs \<and> (ping_payloads fs = [] \<or> (\<forall>i. mask_ok (\<not> client) (fst (env i))))"
    and "prefix (ws_rx w @ received_bytes polls) (concat ds)"
  shows "\<exists>w' k. recv_run w polls = (w', Inr (binaries (take k fs))) \<and> k \<le> length ds \<and>
    ws_rx w @ received_bytes polls = concat (take k ds) @ ws_rx w' \<and> awaiting client (drop k ds) w' \<and>
    (\<exists>as. list_all2 (sent_frame (\<not> client)) as (map (Pair 10) (ping_payloads (take k fs))) \<and> pending w' = pending w @ concat as) \<and>
    (ws_rx w @ received_bytes polls = concat ds \<longrightarrow> binaries (take k fs) = binaries fs \<and> ws_rx w' = [])"
proof -
  have "pong_room client fs w" "\<forall>(cs, env) \<in> set polls. one_poll cs \<and> pong_masks client fs env"
    using assms(4,5) by (auto simp: pong_room_def pong_masks_def)
  from recv_run_frames [OF assms(2,1) this(1) assms(3) this(2) assms(6)] obtain w' k where
    r: "recv_run w polls = (w', Inr (binaries (take k fs)))" "k \<le> length ds"
      "ws_rx w @ received_bytes polls = concat (take k ds) @ ws_rx w'" "awaiting client (drop k ds) w'"
      "\<exists>as. list_all2 (sent_frame (\<not> client)) as (map (Pair 10) (ping_payloads (take k fs))) \<and> pending w' = pending w @ concat as"
    by (auto simp: answered_def)
  have "binaries (take k fs) = binaries fs \<and> ws_rx w' = []" if full: "ws_rx w @ received_bytes polls = concat ds"
  proof -
    have "concat (take k ds) @ concat (drop k ds) = concat ds" by (simp flip: concat_append)
    with full r(3) have t: "ws_rx w' = concat (drop k ds)" by (metis same_append_eq)
    show ?thesis
    proof (cases "drop k ds")
      case Nil
      with assms(1) t show ?thesis by (auto dest: list_all2_lengthD)
    next
      case (Cons d ds')
      with assms(1) have "d \<in> set ds" by (metis in_set_dropD list.set_intros(1))
      then have "d \<noteq> []" using assms(1) make_frame_nonempty
        by (auto simp: sent_frame_def list_all2_conv_all_nth in_set_conv_nth)
      with t Cons r(4) show ?thesis by (auto simp: awaiting_def strict_prefix_def dest: prefix_length_le)
    qed
  qed
  with r show ?thesis by blast
qed

definition demo_peer :: ws_session where
  "demo_peer = (new_session True)\<lparr>ws_authenticated := True\<rparr>"

text \<open>Two messages with a ping, a pong and part of a frame in between; the answer to the ping is masked.\<close>

theorem websocket_delivery_witness:
  "\<exists>w' k as. recv_run demo_peer [([[0x82], [2, 7]], \<lambda>_. (Some [1, 2, 3, 4], 0)), ([], \<lambda>_. (Some [1, 2, 3, 4], 0)),
        ([[8, 0x89, 1, 5, 0x8A, 0, 0x82, 1, 9]], \<lambda>_. (Some [1, 2, 3, 4], 0))] =
      (w', Inr (binaries (take k [(2, [7, 8]), (9, [5]), (10, []), (2, [9])]))) \<and>
    binaries (take k [(2, [7, 8]), (9, [5]), (10, []), (2, [9])]) = [[7, 8], [9]] \<and> ws_rx w' = [] \<and>
    list_all2 (sent_frame True) as (map (Pair 10) (ping_payloads (take k [(2, [7, 8]), (9, [5]), (10, []), (2, [9])]))) \<and> pending w' = concat as"
proof -
  let ?ds = "[[0x82, 2, 7, 8], [0x89, 1, 5], [0x8A, 0], [0x82, 1, 9]] :: bytes list"
  let ?fs = "[(2, [7, 8]), (9, [5]), (10, []), (2, [9])] :: (byte \<times> bytes) list"
  let ?env = "\<lambda>_. (Some [1, 2, 3, 4], 0) :: bytes option \<times> u64"
  let ?polls = "[([[0x82], [2, 7]], ?env), ([], ?env), ([[8, 0x89, 1, 5, 0x8A, 0, 0x82, 1, 9]], ?env)]"
  have "list_all2 (sent_frame False) ?ds ?fs"
    by (simp add: sent_frame_def mask_ok_def make_frame_def length_bytes_def is_control_def kMaxWsMessageBytes_def)
  moreover have "awaiting False ?ds demo_peer" by (simp add: awaiting_def demo_peer_def new_session_def)
  moreover have "\<forall>f \<in> set ?fs. length (snd f) \<le> frame_limit demo_peer"
    by (simp add: frame_limit_def demo_peer_def new_session_def kMaxWsMessageBytes_def)
  moreover have "tx_queued_bytes demo_peer + pong_bytes False ?fs \<le> kMaxWsTxBytes"
    by (simp add: demo_peer_def new_session_def pong_bytes_def ping_payloads_def kMaxWsTxBytes_def)
  moreover have "\<forall>(cs, env) \<in> set ?polls. one_poll cs \<and> (ping_payloads ?fs = [] \<or> (\<forall>i. mask_ok (\<not> False) (fst (env i))))"
    by (simp add: one_poll_def mask_ok_def)
  moreover have "prefix (ws_rx demo_peer @ received_bytes ?polls) (concat ?ds)"
    by (simp add: demo_peer_def new_session_def received_bytes_def)
  ultimately obtain w' k as where "recv_run demo_peer ?polls = (w', Inr (binaries (take k ?fs)))"
    "list_all2 (sent_frame True) as (map (Pair 10) (ping_payloads (take k ?fs)))" "pending w' = pending demo_peer @ concat as"
    "ws_rx demo_peer @ received_bytes ?polls = concat ?ds \<longrightarrow> binaries (take k ?fs) = binaries ?fs \<and> ws_rx w' = []"
    using websocket_delivery [of False ?ds ?fs demo_peer ?polls] unfolding not_False_eq_True by blast
  then show ?thesis
    by (intro exI [of _ w'] exI [of _ k] exI [of _ as])
      (simp add: received_bytes_def demo_peer_def new_session_def binaries_def pending_def)
qed

section \<open>Memory bounds\<close>

text \<open>What a peer can make a session hold; \<open>reads_ok\<close> is the size of the read buffer.\<close>

definition rx_bounded :: "ws_session \<Rightarrow> bool" where
  "rx_bounded w \<longleftrightarrow> length (ws_rx w) \<le> kMaxWsRxBufferedBytes \<and> length (pong_payloads w) \<le> kMaxRememberedPongs \<and>
     length (fragment_payload w) \<le> kMaxWsMessageBytes \<and> tx_ok w"

definition reads_ok :: "(nat \<Rightarrow> rd) \<Rightarrow> bool" where
  "reads_ok reads \<longleftrightarrow> (\<forall>i b. reads i = RGot b \<longrightarrow> length b \<le> 65536)"

definition short_messages :: "bytes list \<Rightarrow> bool" where
  "short_messages ms \<longleftrightarrow> (\<forall>m \<in> set ms. length m \<le> kMaxWsMessageBytes)"

lemma parse_frame_bounds:
  "parse_frame client limit rx = Frame fin op pay rest \<Longrightarrow> length pay \<le> limit \<and> length rest \<le> length rx"
  by (auto simp: parse_frame_def Let_def split: if_splits option.splits sum.splits)

lemma frame_limit_max: "frame_limit w \<le> kMaxWsMessageBytes"
  by (simp add: frame_limit_def kMaxWsMessageBytes_def)

lemma queue_frame_bounded:
  assumes "rx_bounded w" "queue_frame op p mk now w = Inr w'"
  shows "rx_bounded w'"
proof -
  have "tx_ok w'" using queue_frame_ok [OF _ assms(2)] assms(1) by (auto simp: rx_bounded_def)
  with assms show ?thesis by (auto simp: rx_bounded_def queue_frame_def result_iff split: if_splits)
qed

lemma handle_frame_bounded:
  assumes "rx_bounded w" "length pay \<le> kMaxWsMessageBytes" "short_messages out"
    and "handle_frame mk now fin op pay w out = (w', r)"
  shows "rx_bounded w' \<and> (\<forall>out' stop. r = Inr (out', stop) \<longrightarrow> short_messages out')"
proof -
  note d = rx_bounded_def short_messages_def
  consider "op = 2" | "op = 0" | "op = 9" | "op = 10" | "op = 8" | "op \<notin> {2, 0, 9, 10, 8}" by auto
  then show ?thesis
  proof cases
    case 1
    then show ?thesis using assms by (auto simp: handle_frame_def d split: if_splits)
  next
    case 2
    then show ?thesis using assms by (auto simp: handle_frame_def d Let_def split: if_splits)
  next
    case 3
    let ?w = "w\<lparr>rx_ping_frames := rx_ping_frames w + 1\<rparr>"
    have "rx_bounded ?w" using assms(1) by (simp add: d)
    then show ?thesis using 3 assms(3,4) queue_frame_bounded [of ?w]
      by (auto simp: handle_frame_def websocket_send_pong_def Let_def split: sum.splits)
  next
    case 4
    then show ?thesis using assms by (auto simp: handle_frame_def d kMaxRememberedPongs_def)
  next
    case 5
    let ?w1 = "if length pay \<ge> 2 then w\<lparr>close_code := rd16 (pay ! 0) (pay ! 1), close_has_code := True,
                          close_reason_bytes := length pay - 2\<rparr> else w"
    let ?w2 = "case queue_frame 8 pay mk now ?w1 of Inl _ \<Rightarrow> ?w1 | Inr w' \<Rightarrow> w'"
    have "rx_bounded ?w1" using assms(1) by (simp add: d)
    then have "rx_bounded ?w2" using queue_frame_bounded [of ?w1] by (auto split: sum.splits)
    then have "rx_bounded (?w2\<lparr>close_received := True\<rparr>)" by (simp add: rx_bounded_def)
    moreover have "w' = ?w2\<lparr>close_received := True\<rparr> \<or> w' = w"
      using 5 assms(4) by (simp add: handle_frame_def Let_def split: if_splits)
    ultimately show ?thesis using 5 assms by (auto simp: handle_frame_def Let_def split: if_splits)
  next
    case 6
    then show ?thesis using assms by (auto simp: handle_frame_def split: if_splits)
  qed
qed

lemma parse_loop_bounded:
  assumes "rx_bounded w" "short_messages out" "length rest \<le> kMaxWsRxBufferedBytes"
    and "parse_loop env i rest w out = (w', r)"
  shows "rx_bounded w' \<and> (\<forall>out' rest'. r = Inr (out', rest') \<longrightarrow> short_messages out' \<and> length rest' \<le> kMaxWsRxBufferedBytes)"
  using assms
proof (induction env i rest w out rule: parse_loop.induct)
  case (1 env i rest w out)
  show ?case
  proof (cases "parse_frame (ws_client w) (frame_limit w) rest")
    case Need
    with "1.prems" show ?thesis by (auto simp: parse_loop.simps [of env i rest])
  next
    case (Bad e)
    with "1.prems" show ?thesis by (auto simp: parse_loop.simps [of env i rest])
  next
    case (Frame fin op pay rest1)
    let ?w = "w\<lparr>rx_frames := rx_frames w + 1\<rparr>"
    have b: "length pay \<le> kMaxWsMessageBytes" "length rest1 \<le> kMaxWsRxBufferedBytes"
      using parse_frame_bounds [OF Frame] frame_limit_max [of w] "1.prems"(3) by simp_all
    have w: "rx_bounded ?w" using "1.prems"(1) by (simp add: rx_bounded_def)
    obtain w1 r1 where h: "handle_frame (fst (env i)) (snd (env i)) fin op pay ?w out = (w1, r1)" by fastforce
    note hb = handle_frame_bounded [OF w b(1) "1.prems"(2) h]
    show ?thesis
    proof (cases r1)
      case (Inl e)
      with "1.prems"(4) Frame h hb show ?thesis by (auto simp: parse_loop.simps [of env i rest])
    next
      case (Inr os)
      obtain out1 stop where os: "os = (out1, stop)" by fastforce
      show ?thesis
      proof (cases stop)
        case True
        with "1.prems"(4) Frame h hb Inr os b(2) show ?thesis by (auto simp: parse_loop.simps [of env i rest])
      next
        case False
        with "1.prems"(4) Frame h Inr os have "parse_loop env (i + 1) rest1 w1 out1 = (w', r)"
          by (simp add: parse_loop.simps [of env i rest])
        with "1.IH" [OF Frame] h Inr os False hb b(2) show ?thesis by simp
      qed
    qed
  qed
qed

lemma ws_fill_bounded:
  "reads_ok reads \<Longrightarrow> rx_bounded w \<Longrightarrow> ws_fill reads i received w = (w', r) \<Longrightarrow>
    rx_bounded w' \<and> prefetched_messages w' = prefetched_messages w"
proof (induction reads i received w arbitrary: r rule: ws_fill.induct)
  case (1 reads i received w)
  show ?case
  proof (cases "received < 262144")
    case False
    with "1.prems" show ?thesis by (simp add: ws_fill.simps [of reads i])
  next
    case True
    note unf = ws_fill.simps [of reads i received w]
    show ?thesis
    proof (cases "reads i")
      case (RGot b)
      show ?thesis
      proof (cases "b = [] \<or> length (ws_rx w) > kMaxWsRxBufferedBytes - length b")
        case True
        with RGot \<open>received < 262144\<close> "1.prems" show ?thesis
          by (auto simp: unf rx_bounded_def Let_def split: if_splits)
      next
        case False
        let ?w = "w\<lparr>rx_wait := 0, ws_rx := ws_rx w @ b\<rparr>"
        have "length b \<le> kMaxWsRxBufferedBytes"
          using "1.prems"(1) RGot by (fastforce simp: reads_ok_def kMaxWsRxBufferedBytes_def)
        moreover have "ws_fill reads (i + 1) (received + length b) ?w = (w', r)"
          using "1.prems"(3) False RGot True by (simp add: unf Let_def)
        moreover from calculation(1) False have "length (ws_rx w) + length b \<le> kMaxWsRxBufferedBytes"
          by linarith
        then have "rx_bounded ?w" using "1.prems"(2) by (simp add: rx_bounded_def)
        ultimately show ?thesis using "1.IH" [OF True RGot, of "w\<lparr>rx_wait := 0\<rparr>"] False "1.prems"(1) by simp
      qed
    next
      case (RAgain d)
      with True "1.prems" show ?thesis by (auto simp: unf rx_bounded_def)
    next
      case (RBroken stale)
      with True "1.prems" show ?thesis by (auto simp: unf split: if_splits)
    qed
  qed
qed

text \<open>
  C31: whatever a peer sends, and on every outcome including each exception, one call of
  \<open>websocket_read_messages\<close> keeps the memory of a session bounded: the receive buffer, the remembered pongs, the
  message under reassembly and the transmit queue (which answers pings) stay within their limits, and no message it
  returns is longer than \<open>kMaxWsMessageBytes\<close>.
\<close>

theorem session_memory_bounded:
  assumes "rx_bounded w" "short_messages (prefetched_messages w)" "reads_ok reads"
    and "websocket_read_messages ready reads env w = (w', r)"
  shows "rx_bounded w' \<and> (\<forall>ms. r = Inr ms \<longrightarrow> short_messages ms)"
proof -
  consider "prefetched_messages w \<noteq> []" | "prefetched_messages w = []"
    "close_received w \<or> peer_eof w \<and> ws_rx w = [] \<or> \<not> ready \<and> ws_rx w = []" |
    (read) "prefetched_messages w = []" "\<not> (close_received w \<or> peer_eof w \<and> ws_rx w = [] \<or> \<not> ready \<and> ws_rx w = [])" by blast
  then show ?thesis
  proof cases
    case 1
    with assms show ?thesis by (auto simp: websocket_read_messages_def rx_bounded_def)
  next
    case 2
    with assms show ?thesis by (auto simp: websocket_read_messages_def short_messages_def split: if_splits)
  next
    case read
    obtain w1 f where f: "ws_fill reads 0 0 w = (w1, f)" by fastforce
    note b1 = conjunct1 [OF ws_fill_bounded [OF assms(3,1) f]]
    show ?thesis
    proof (cases f)
      case (Inl e)
      with read f b1 assms(4) show ?thesis by (auto simp: websocket_read_messages_def)
    next
      case (Inr u)
      obtain w2 p where p: "parse_loop env 0 (ws_rx w1) w1 [] = (w2, p)" by fastforce
      have b2: "rx_bounded w2 \<and> (\<forall>out rest. p = Inr (out, rest) \<longrightarrow> short_messages out \<and> length rest \<le> kMaxWsRxBufferedBytes)"
        by (rule parse_loop_bounded [OF b1 _ _ p]) (use b1 in \<open>simp_all add: short_messages_def rx_bounded_def\<close>)
      show ?thesis
      proof (cases p)
        case (Inl e)
        with read f Inr p b2 assms(4) show ?thesis by (auto simp: websocket_read_messages_def)
      next
        case q: (Inr os)
        obtain out rest where os: "os = (out, rest)" by fastforce
        have "w' = w2\<lparr>ws_rx := rest\<rparr> \<and> (\<forall>ms. r = Inr ms \<longrightarrow> ms = out)"
          using read f Inr p q os assms(4) by (auto simp: websocket_read_messages_def Let_def split: if_splits)
        with b2 q os show ?thesis by (auto simp: rx_bounded_def)
      qed
    qed
  qed
qed

theorem session_memory_bounded_witness:
  "\<exists>w' r. websocket_read_messages True (\<lambda>i. if i = 0 then RGot [0x89, 0, 0x70, 1] else RAgain 1) (\<lambda>_. (Some [1, 2, 3, 4], 9)) demo_peer = (w', r) \<and>
     r = Inl RsvBits \<and> length (ws_tx w') = 1 \<and> rx_bounded w'"
proof -
  let ?reads = "\<lambda>i. if i = 0 then RGot [0x89, 0, 0x70, 1] else RAgain 1"
  let ?env = "\<lambda>_ :: nat. (Some [1, 2, 3, 4], 9) :: ws_env"
  obtain w' r where r: "websocket_read_messages True ?reads ?env demo_peer = (w', r)" by fastforce
  have "r = Inl RsvBits \<and> length (ws_tx w') = 1"
    using r by (simp add: websocket_read_messages_def demo_peer_def new_session_def ws_fill.simps parse_loop.simps
        parse_frame_def head_error_def frame_length_def frame_limit_def handle_frame_def websocket_send_pong_def
        queue_frame_def make_frame_def length_bytes_def is_control_def mask_bytes_def kMaxWsMessageBytes_def kMaxWsTxBytes_def
        kMaxWsRxBufferedBytes_def Let_def)
       (auto simp: mask_bytes_def)
  moreover have "rx_bounded demo_peer" by (simp add: rx_bounded_def demo_peer_def new_session_def tx_ok_def pending_def)
  moreover have "short_messages (prefetched_messages demo_peer)" by (simp add: demo_peer_def new_session_def short_messages_def)
  moreover have "reads_ok ?reads" by (simp add: reads_ok_def)
  ultimately show ?thesis using session_memory_bounded [of demo_peer ?reads True ?env w' r] r by blast
qed

section \<open>Refused frames\<close>

text \<open>
  A frame of the own role, as a peer that reflects the session's own traffic would return, is
  refused on its first two bytes: a client rejects every masked frame and a server every unmasked
  one, and no message of the same call is delivered.
\<close>

theorem reflected_frames_refused:
  assumes "make_frame client op p mk = Inr data" "op \<in> {2, 8, 9, 10}"
    and "awaiting (\<not> client) [] w" "length data \<le> 65536"
  shows "\<exists>w'. websocket_read_messages True (chunk_reads [data]) env w =
    (w', Inl (if client then MaskedServerFrame else UnmaskedClientFrame)) \<and> ws_rx w' = data \<and> rx_frames w' = rx_frames w"
proof -
  let ?e = "if client then MaskedServerFrame else UnmaskedClientFrame"
  from assms(1,2) obtain b1 ext where d: "data = (0x80 OR op) # b1 # ext @ frame_body client p mk"
    and m: "b1 AND 0x80 = (if client then 0x80 else 0)" and h: "head_error (\<not> client) (0x80 OR op) b1 = None"
    by (rule frame_shape) blast
  have "head_error client (0x80 OR op) b1 = Some ?e"
    using h m by (simp add: head_error_def Let_def split: if_splits)
  then have p: "parse_frame client limit data = Bad ?e" for limit
    by (simp add: parse_frame_def d Let_def)
  have w: "ws_client w = client" "ws_rx w = []" "\<not> peer_eof w" "\<not> close_received w" "prefetched_messages w = []"
    using assms(3) by (simp_all add: awaiting_def)
  have "data \<noteq> []" by (simp add: d)
  then have "ws_fill (chunk_reads [data]) 0 0 w = (w\<lparr>rx_wait := 1, ws_rx := data\<rparr>, Inr ())"
    using assms(4) w(2) by (simp add: ws_fill.simps chunk_reads_def kMaxWsRxBufferedBytes_def)
  then show ?thesis
    using w p by (simp add: websocket_read_messages_def parse_loop.simps [of env 0 data])
qed

theorem reflected_frames_refused_witness:
  "\<exists>w'. websocket_read_messages True (chunk_reads [[0x82, 0x81, 1, 2, 3, 4, 6]]) (\<lambda>_. (None, 0)) demo_peer =
     (w', Inl MaskedServerFrame) \<and> ws_rx w' = [0x82, 0x81, 1, 2, 3, 4, 6] \<and> rx_frames w' = 0"
proof -
  have "make_frame True 2 [7] (Some [1, 2, 3, 4]) = Inr [0x82, 0x81, 1, 2, 3, 4, 6]"
    by (simp add: make_frame_def length_bytes_def is_control_def kMaxWsMessageBytes_def mask_bytes_def Let_def)
  moreover have "awaiting (\<not> True) [] demo_peer" by (simp add: awaiting_def demo_peer_def new_session_def)
  ultimately show ?thesis
    using reflected_frames_refused [of True 2 "[7]" "Some [1, 2, 3, 4]" _ demo_peer "\<lambda>_. (None, 0)"]
    by (fastforce simp: demo_peer_def new_session_def)
qed

section \<open>Fragmented messages\<close>

text \<open>The frames of a fragmented binary message, and the handling of a list of frames.\<close>

fun continuations :: "bytes list \<Rightarrow> (bool \<times> byte \<times> bytes) list" where
  "continuations [] = []"
| "continuations [p] = [(True, 0, p)]"
| "continuations (p # ps) = (False, 0, p) # continuations ps"

fun handle_all :: "bytes option \<Rightarrow> u64 \<Rightarrow> (bool \<times> byte \<times> bytes) list \<Rightarrow> ws_session \<Rightarrow> bytes list \<Rightarrow>
    ws_session \<times> (ws_error, bytes list) result" where
  "handle_all mk now [] w out = (w, Inr out)"
| "handle_all mk now ((fin, op, p) # fs) w out =
     (case handle_frame mk now fin op p w out of
        (w1, Inl e) \<Rightarrow> (w1, Inl e)
      | (w1, Inr (out1, stop)) \<Rightarrow> if stop then (w1, Inr out1) else handle_all mk now fs w1 out1)"

lemma continuations_handled:
  "\<lbrakk>ps \<noteq> []; fragment_opcode w = 2; \<forall>p \<in> set ps. length p \<le> kMaxWsMessageBytes\<rbrakk> \<Longrightarrow>
   \<exists>w'. if length (fragment_payload w) + length (concat ps) \<le> kMaxWsMessageBytes
     then handle_all mk now (continuations ps) w out = (w', Inr (out @ [fragment_payload w @ concat ps])) \<and>
       fragment_opcode w' = 0 \<and> fragment_payload w' = [] \<and>
       rx_binary_payload_bytes w' = rx_binary_payload_bytes w + of_nat (length (fragment_payload w @ concat ps))
     else handle_all mk now (continuations ps) w out = (w', Inl FragmentedTooLarge)"
proof (induction ps arbitrary: w rule: continuations.induct)
  case 1
  then show ?case by simp
next
  case (2 p)
  then show ?case by (auto simp: handle_frame_def Let_def)
next
  case (3 p q ps)
  show ?case
  proof (cases "length (fragment_payload w) > kMaxWsMessageBytes - length p")
    case True
    then show ?thesis using 3 by (auto simp: handle_frame_def)
  next
    case False
    let ?w = "w\<lparr>fragment_payload := fragment_payload w @ p\<rparr>"
    have "handle_all mk now (continuations (p # q # ps)) w out = handle_all mk now (continuations (q # ps)) ?w out"
      using 3(3) False by (simp add: handle_frame_def Let_def)
    then show ?thesis using "3.IH" [of ?w] "3.prems"
      by (cases "length (fragment_payload w) + length (concat (p # q # ps)) \<le> kMaxWsMessageBytes")
         (simp_all add: add.assoc del: handle_all.simps continuations.simps)
  qed
qed

text \<open>
  C32: a binary message sent in two or more fragments is delivered once, as the fragments joined in
  order, after the last one; the reassembly state is empty again and the payload counter has
  grown by the whole message. A message longer than \<open>kMaxWsMessageBytes\<close> is refused instead.
\<close>

theorem fragments_reassembled:
  assumes "fragment_opcode w = 0" "ps \<noteq> []" "\<forall>p \<in> set (p0 # ps). length p \<le> kMaxWsMessageBytes"
  shows "\<exists>w'. if length (concat (p0 # ps)) \<le> kMaxWsMessageBytes
    then handle_all mk now ((False, 2, p0) # continuations ps) w out = (w', Inr (out @ [concat (p0 # ps)])) \<and>
      fragment_opcode w' = 0 \<and> fragment_payload w' = [] \<and>
      rx_binary_payload_bytes w' = rx_binary_payload_bytes w + of_nat (length (concat (p0 # ps)))
    else handle_all mk now ((False, 2, p0) # continuations ps) w out = (w', Inl FragmentedTooLarge)"
proof -
  let ?w = "w\<lparr>fragment_opcode := 2, fragment_payload := p0\<rparr>"
  have "handle_all mk now ((False, 2, p0) # continuations ps) w out = handle_all mk now (continuations ps) ?w out"
    using assms(1) by (simp add: handle_frame_def)
  then show ?thesis
    using continuations_handled [of ps ?w mk now out] assms(2,3)
    by (cases "length (concat (p0 # ps)) \<le> kMaxWsMessageBytes") (simp_all del: handle_all.simps)
qed

theorem fragments_reassembled_witness:
  "\<exists>w'. handle_all None 0 [(False, 2, [1]), (False, 0, []), (True, 0, [2, 3])] demo_peer [[9]] = (w', Inr [[9], [1, 2, 3]]) \<and>
     rx_binary_payload_bytes w' = 3"
  using fragments_reassembled [of demo_peer "[[], [2, 3]]" "[1]" None 0 "[[9]]"]
  by (auto simp: demo_peer_def new_session_def kMaxWsMessageBytes_def simp del: handle_all.simps)

end
