(* ===== verification/Text.thy ===== *)
theory Text
  imports Prelude
begin

text \<open>
  What the source uses of \<open>std::string\<close>: the character classes of the C locale, trimming, searching,
  splitting and the numeric conversions \<open>std::stoi\<close>, \<open>std::stoull\<close> and \<open>std::stoul\<close>. An exception of a conversion
  is the text its \<open>what()\<close> returns.
\<close>

section \<open>Characters\<close>

definition is_space :: "char \<Rightarrow> bool" where
  "is_space ch \<longleftrightarrow> (of_char ch :: nat) \<in> {9, 10, 11, 12, 13, 32}"

definition is_digit :: "char \<Rightarrow> bool" where
  "is_digit ch \<longleftrightarrow> 48 \<le> (of_char ch :: nat) \<and> (of_char ch :: nat) \<le> 57"

definition digit_value :: "char \<Rightarrow> nat" where
  "digit_value ch = of_char ch - 48"

definition lower_char :: "char \<Rightarrow> char" where
  "lower_char ch = (let n = (of_char ch :: nat) in if 65 \<le> n \<and> n \<le> 90 then char_of (n + 32) else ch)"

definition lower :: "string \<Rightarrow> string" where
  "lower s = map lower_char s"

definition trim :: "string \<Rightarrow> string" where
  "trim s = rev (dropWhile is_space (rev (dropWhile is_space s)))"

section \<open>Searching\<close>

text \<open>\<open>find\<close> and \<open>rfind\<close> of a character, \<open>None\<close> for \<open>npos\<close>; \<open>find_sub\<close> is \<open>find\<close> of a string.\<close>

definition find_char :: "char \<Rightarrow> string \<Rightarrow> nat option" where
  "find_char ch s = (if ch \<in> set s then Some (length (takeWhile (\<lambda>x. x \<noteq> ch) s)) else None)"

definition rfind_char :: "char \<Rightarrow> string \<Rightarrow> nat option" where
  "rfind_char ch s = map_option (\<lambda>i. length s - 1 - i) (find_char ch (rev s))"

fun find_sub :: "string \<Rightarrow> string \<Rightarrow> nat option" where
  "find_sub needle s =
     (if take (length needle) s = needle then Some 0
      else case s of [] \<Rightarrow> None | _ # r \<Rightarrow> map_option Suc (find_sub needle r))"

declare find_sub.simps [simp del]

definition contains :: "string \<Rightarrow> string \<Rightarrow> bool" where
  "contains s needle \<longleftrightarrow> find_sub needle s \<noteq> None"

definition starts_with :: "string \<Rightarrow> string \<Rightarrow> bool" where
  "starts_with p s \<longleftrightarrow> take (length p) s = p"

text \<open>The lines \<open>std::getline\<close> returns: no empty line after a final newline.\<close>

fun text_lines :: "string \<Rightarrow> string list" where
  "text_lines s =
     (if s = [] then []
      else takeWhile (\<lambda>x. x \<noteq> CHR 0x0A) s # text_lines (drop (Suc (length (takeWhile (\<lambda>x. x \<noteq> CHR 0x0A) s))) s))"

declare text_lines.simps [simp del]

section \<open>Numbers\<close>

text \<open>The sign, and the digits of base \<open>b\<close> (at most ten) that follow the leading white space.\<close>

definition number_parts :: "nat \<Rightarrow> string \<Rightarrow> bool \<times> string" where
  "number_parts b s =
     (let s1 = dropWhile is_space s;
          neg = (s1 \<noteq> [] \<and> hd s1 = CHR ''-'');
          s2 = (if s1 \<noteq> [] \<and> (hd s1 = CHR ''-'' \<or> hd s1 = CHR ''+'') then tl s1 else s1)
      in (neg, takeWhile (\<lambda>ch. is_digit ch \<and> digit_value ch < b) s2))"

definition digits_value :: "nat \<Rightarrow> string \<Rightarrow> nat" where
  "digits_value b ds = foldl (\<lambda>v ch. v * b + digit_value ch) 0 ds"

definition stoi :: "nat \<Rightarrow> string \<Rightarrow> (string, int) result" where
  "stoi b s =
     (case number_parts b s of
        (neg, ds) \<Rightarrow>
          let v = (if neg then - int (digits_value b ds) else int (digits_value b ds)) in
          if ds = [] then Inl ''stoi''
          else if v < - 2147483648 \<or> v > 2147483647 then Inl ''stoi''
          else Inr v)"

text \<open>A negative number wraps around, as \<open>strtoull\<close> does.\<close>

definition stoull :: "string \<Rightarrow> (string, nat) result" where
  "stoull s =
     (case number_parts 10 s of
        (neg, ds) \<Rightarrow>
          let v = digits_value 10 ds in
          if ds = [] then Inl ''stoull''
          else if v \<ge> 18446744073709551616 then Inl ''stoull''
          else Inr (if neg \<and> v > 0 then 18446744073709551616 - v else v))"

section \<open>Facts\<close>

lemma find_char_Some:
  "find_char ch s = Some i \<longleftrightarrow> i < length s \<and> s ! i = ch \<and> (\<forall>j < i. s ! j \<noteq> ch)"
proof -
  let ?p = "takeWhile (\<lambda>x. x \<noteq> ch) s"
  have a: "length ?p < length s \<and> s ! length ?p = ch" if "ch \<in> set s"
  proof
    show "length ?p < length s" using that by (metis (mono_tags, lifting) length_takeWhile_le nat_less_le takeWhile_eq_all_conv takeWhile_eq_take take_all_iff)
    then show "s ! length ?p = ch" using nth_length_takeWhile by blast
  qed
  have b: "s ! j \<noteq> ch" if "j < length ?p" for j
    using that nth_mem [OF that] set_takeWhileD takeWhile_nth by metis
  show ?thesis
  proof
    assume "find_char ch s = Some i"
    then show "i < length s \<and> s ! i = ch \<and> (\<forall>j < i. s ! j \<noteq> ch)"
      using a b by (auto simp: find_char_def split: if_splits)
  next
    assume i: "i < length s \<and> s ! i = ch \<and> (\<forall>j < i. s ! j \<noteq> ch)"
    then have m: "ch \<in> set s" by auto
    with i a b have "length ?p = i" by (metis linorder_neqE_nat)
    with m show "find_char ch s = Some i" by (simp add: find_char_def)
  qed
qed

lemma find_char_None: "find_char ch s = None \<longleftrightarrow> ch \<notin> set s"
  by (simp add: find_char_def)

lemma rfind_char_Some:
  "rfind_char ch s = Some i \<longleftrightarrow> i < length s \<and> s ! i = ch \<and> (\<forall>j. i < j \<longrightarrow> j < length s \<longrightarrow> s ! j \<noteq> ch)"
proof
  assume "rfind_char ch s = Some i"
  then obtain k where k: "find_char ch (rev s) = Some k" "i = length s - 1 - k" by (auto simp: rfind_char_def)
  then have k': "k < length s" "rev s ! k = ch" "\<forall>j < k. rev s ! j \<noteq> ch" by (auto simp: find_char_Some)
  have "s ! j \<noteq> ch" if "i < j" "j < length s" for j
    using k'(3) [rule_format, of "length s - 1 - j"] that k' k(2) by (auto simp: rev_nth)
  with k' k(2) show "i < length s \<and> s ! i = ch \<and> (\<forall>j. i < j \<longrightarrow> j < length s \<longrightarrow> s ! j \<noteq> ch)"
    by (auto simp: rev_nth)
next
  assume i: "i < length s \<and> s ! i = ch \<and> (\<forall>j. i < j \<longrightarrow> j < length s \<longrightarrow> s ! j \<noteq> ch)"
  then have "find_char ch (rev s) = Some (length s - 1 - i)"
    by (auto simp: find_char_Some rev_nth)
  with i show "rfind_char ch s = Some i" by (simp add: rfind_char_def)
qed

lemma stoi_range: "stoi b s = Inr v \<Longrightarrow> - 2147483648 \<le> v \<and> v \<le> 2147483647"
  by (auto simp: stoi_def Let_def split: prod.splits if_splits)

lemma stoull_range: "stoull s = Inr v \<Longrightarrow> v < 18446744073709551616"
  by (auto simp: stoull_def Let_def split: prod.splits if_splits)

lemma trim_edges:
  "trim s \<noteq> [] \<Longrightarrow> \<not> is_space (hd (trim s)) \<and> \<not> is_space (last (trim s))"
proof -
  assume ne: "trim s \<noteq> []"
  let ?a = "dropWhile is_space s"
  have l: "\<not> is_space (last (trim s))"
    using ne by (simp add: trim_def hd_dropWhile last_rev)
  have p: "prefix (trim s) ?a" by (metis rev_rev_ident suffix_dropWhile suffix_to_prefix trim_def)
  then have "hd (trim s) = hd ?a" using ne by (cases "trim s"; cases ?a) (auto simp: prefix_def)
  moreover have "?a \<noteq> []" using p ne prefix_Nil by metis
  ultimately show ?thesis using l hd_dropWhile by metis
qed

lemma trim_id: "s = [] \<or> \<not> is_space (hd s) \<and> \<not> is_space (last s) \<Longrightarrow> trim s = s"
proof (cases s)
  case (Cons ch r)
  assume "s = [] \<or> \<not> is_space (hd s) \<and> \<not> is_space (last s)"
  with Cons have h: "\<not> is_space ch" "\<not> is_space (last s)" by auto
  then have "dropWhile is_space s = s" using Cons by simp
  moreover have "dropWhile is_space (rev s) = rev s"
    using h(2) Cons by (metis dropWhile_eq_self_iff hd_rev)
  ultimately show ?thesis by (simp add: trim_def)
qed (simp add: trim_def)

lemma trim_id_iff: "trim s = s \<longleftrightarrow> s = [] \<or> \<not> is_space (hd s) \<and> \<not> is_space (last s)"
  using trim_id trim_edges by metis

lemma text_lines_join:
  "CHR 0x0A \<notin> set l \<Longrightarrow> text_lines (l @ CHR 0x0A # r) = l # text_lines r"
proof -
  assume n: "CHR 0x0A \<notin> set l"
  then have t: "takeWhile (\<lambda>x. x \<noteq> CHR 0x0A) (l @ CHR 0x0A # r) = l"
    by (subst takeWhile_append2) auto
  show ?thesis by (subst text_lines.simps) (simp add: t)
qed

lemma text_lines_Nil [simp]: "text_lines [] = []"
  by (simp add: text_lines.simps)

lemma find_char_append: "ch \<notin> set a \<Longrightarrow> find_char ch (a @ ch # b) = Some (length a)"
  by (auto simp: find_char_Some nth_append)

end
