(* ===== verification/Config.thy ===== *)
theory Config
  imports Text
begin

text \<open>
  The configuration: \<open>src/cdn/include/pacetun/config.hpp\<close> and \<open>src/cdn/src/config.cpp\<close>. \<open>load_config\<close>
  is modelled from the text of the file to the validated structure, in the order of the source, with
  the text of each exception. \<open>unordered_map\<close> is an association list in the order of insertion, which fixes
  which of several unknown keys is reported.
\<close>

section \<open>The structure\<close>

text \<open>
  The last six members are used by \<open>config.cpp\<close> but not declared by \<open>struct Config\<close>; their default values
  are therefore an argument.
\<close>

record config =
  mode :: string
  transport :: string
  listen :: string
  server :: string
  server_name :: string
  path :: string
  host_header :: string
  max_connections :: int
  pool_drain_sec :: int
  pool_idle_poll_ms :: int
  address_family :: string
  flow_scheduler :: bool
  edge_dns_rotation :: bool
  websocket_tls :: bool
  tls_backend :: string
  tls_adapter_socket :: string
  websocket_ping_sec :: int
  websocket_pong_timeout_sec :: int
  websocket_poll_ms :: int
  websocket_upgrade_timeout_sec :: int
  websocket_io_timeout_sec :: int
  websocket_padding_max_bytes :: int
  websocket_control_padding_bytes :: int
  padding_budget_pct :: int
  timing_jitter_pct :: int
  reply_degraded_sec :: int
  reply_renew_sec :: int
  reply_timeout_sec :: int
  candidate_max_rtt_ms :: int
  latency_renew_ms :: int
  latency_renew_samples :: int
  latency_renew_cooldown_sec :: int
  idle_probe_sec :: int
  log_format :: string
  listen_backlog :: int
  session_max_age_sec :: int
  dev :: string
  cidr :: string
  peer_cidr :: string
  mtu :: int
  tls_cert :: string
  tls_key :: string
  tls_ca :: string
  verify_peer :: bool
  psk_file :: string
  psk_previous_file :: string
  profile :: string
  resource_profile :: string
  max_record_buffer_bytes :: nat
  control_mode :: int
  queue_packets :: nat
  queue_bytes :: nat
  queue_delay_ms :: int
  batch_packets :: int
  batch_bytes :: nat
  adaptive_batching :: bool
  adaptive_batch_min_packets :: int
  adaptive_batch_max_packets :: int
  queue_target_delay_ms :: int
  connect_timeout_sec :: int
  idle_timeout_sec :: int
  keepalive_sec :: int
  rtt_probe_sec :: int
  reconnect_initial_ms :: int
  reconnect_max_ms :: int
  reconnect_jitter_pct :: int
  tcp_keepidle_sec :: int
  tcp_keepintvl_sec :: int
  tcp_keepcnt :: int
  tcp_user_timeout_ms :: int
  sndbuf :: int
  rcvbuf :: int
  stats_interval_sec :: int
  control_socket :: string
  strict_file_permissions :: bool
  browser_profile :: string
  traffic_shaping :: bool
  shaping_startup_ms :: int
  shaping_delay_ms :: int
  shaping_rate_bytes :: int
  shaping_burst_bytes :: int


type_synonym undeclared = "string \<times> bool \<times> int \<times> int \<times> int \<times> int"
type_synonym settings = "(string \<times> string) list"

definition default_config :: "undeclared \<Rightarrow> config" where
  "default_config u = (case u of (bp, ts, st, dl, rt, bu) \<Rightarrow> \<lparr>
     mode = '''', transport = ''tls'', listen = '''', server = '''', server_name = '''',
     path = ''/assets/api/v6'', host_header = '''', max_connections = 1, pool_drain_sec = 30,
     pool_idle_poll_ms = 100, address_family = ''auto'', flow_scheduler = False, edge_dns_rotation = False,
     websocket_tls = True, tls_backend = ''openssl'',
     tls_adapter_socket = ''/run/pacetun-utls/bridge.sock'', websocket_ping_sec = 0,
     websocket_pong_timeout_sec = 0, websocket_poll_ms = 5, websocket_upgrade_timeout_sec = 10,
     websocket_io_timeout_sec = 30, websocket_padding_max_bytes = 0, websocket_control_padding_bytes = 0,
     padding_budget_pct = 10, timing_jitter_pct = 15, reply_degraded_sec = 10, reply_renew_sec = 30,
     reply_timeout_sec = 60, candidate_max_rtt_ms = 1500, latency_renew_ms = 600,
     latency_renew_samples = 3, latency_renew_cooldown_sec = 180, idle_probe_sec = 45,
     log_format = ''human'', listen_backlog = 128, session_max_age_sec = 0, dev = ''phtun0'', cidr = '''',
     peer_cidr = '''', mtu = 1280, tls_cert = '''', tls_key = '''', tls_ca = '''', verify_peer = True,
     psk_file = '''', psk_previous_file = '''', profile = ''balanced'', resource_profile = ''normal'',
     max_record_buffer_bytes = 262144, control_mode = 432, queue_packets = 4096, queue_bytes = 8388608,
     queue_delay_ms = 500, batch_packets = 8, batch_bytes = 16384, adaptive_batching = True,
     adaptive_batch_min_packets = 1, adaptive_batch_max_packets = 16, queue_target_delay_ms = 40,
     connect_timeout_sec = 10, idle_timeout_sec = 300, keepalive_sec = 10, rtt_probe_sec = 30,
     reconnect_initial_ms = 500, reconnect_max_ms = 15000, reconnect_jitter_pct = 20,
     tcp_keepidle_sec = 15, tcp_keepintvl_sec = 5, tcp_keepcnt = 3, tcp_user_timeout_ms = 20000,
     sndbuf = 4194304, rcvbuf = 4194304, stats_interval_sec = 5, control_socket = '''',
     strict_file_permissions = True, browser_profile = bp, traffic_shaping = ts, shaping_startup_ms = st,
     shaping_delay_ms = dl, shaping_rate_bytes = rt, shaping_burst_bytes = bu\<rparr>)"


section \<open>Helpers\<close>

definition bval :: "string \<Rightarrow> (string, bool) result" where
  "bval v =
     (if v \<in> {''1'', ''true'', ''yes'', ''on''} then Inr True
      else if v \<in> {''0'', ''false'', ''no'', ''off''} then Inr False
      else Inl (''invalid boolean: '' @ v))"

definition ival :: "settings \<Rightarrow> string \<Rightarrow> int \<Rightarrow> (string, int) result" where
  "ival m k d = (case map_of m k of None \<Rightarrow> Inr d | Some v \<Rightarrow> stoi 10 v)"

definition zval :: "settings \<Rightarrow> string \<Rightarrow> nat \<Rightarrow> (string, nat) result" where
  "zval m k d = (case map_of m k of None \<Rightarrow> Inr d | Some v \<Rightarrow> stoull v)"

definition sval :: "settings \<Rightarrow> string \<Rightarrow> string \<Rightarrow> string" where
  "sval m k d = (case map_of m k of None \<Rightarrow> d | Some v \<Rightarrow> v)"

text \<open>
  Conversions of the source: \<open>size_t\<close> to \<open>long long\<close>, and a signed value to \<open>size_t\<close>. The sums of
  \<open>int\<close> members are taken without overflow.
\<close>

definition to_ll :: "nat \<Rightarrow> int" where
  "to_ll n = (if n < 9223372036854775808 then int n else int n - 18446744073709551616)"

definition to_size :: "int \<Rightarrow> nat" where
  "to_size x = nat (x mod 18446744073709551616)"

definition range_check :: "string \<Rightarrow> int \<Rightarrow> int \<Rightarrow> int \<Rightarrow> string option" where
  "range_check name v lo hi = (if v < lo \<or> v > hi then Some (name @ '' out of range'') else None)"

definition reject :: "bool \<Rightarrow> string \<Rightarrow> string option" where
  "reject bad message = (if bad then Some message else None)"

definition validate_http_field :: "string \<Rightarrow> string \<Rightarrow> nat \<Rightarrow> bool \<Rightarrow> string option" where
  "validate_http_field name s max_len allow_empty =
     (if s = [] then (if allow_empty then None else Some (name @ '' is required''))
      else if length s > max_len then Some (name @ '' is too long'')
      else if \<exists>ch \<in> set s. (of_char ch :: nat) \<le> 32 \<or> (of_char ch :: nat) = 127
        then Some (name @ '' contains whitespace/control characters'')
      else None)"

text \<open>Host and port of an endpoint, or the exception: the two branches of \<open>validate_endpoint\<close>.\<close>

definition endpoint_parts :: "string \<Rightarrow> string \<Rightarrow> (string, string \<times> string) result" where
  "endpoint_parts name s =
     (if hd s = CHR ''['' then
        (case find_char (CHR '']'') s of
           None \<Rightarrow> Inl (name @ '' must use [ipv6]:port'')
         | Some rb \<Rightarrow>
             if rb = 1 \<or> rb + 1 \<ge> length s \<or> s ! (rb + 1) \<noteq> CHR '':'' \<or> rb + 2 \<ge> length s
             then Inl (name @ '' must use [ipv6]:port'')
             else Inr (take (rb - 1) (drop 1 s), drop (rb + 2) s))
      else
        (case find_char (CHR '':'') s of
           None \<Rightarrow> Inl (name @ '' must use host:port (IPv6 requires brackets)'')
         | Some first \<Rightarrow>
             if first = 0 \<or> Some first \<noteq> rfind_char (CHR '':'') s \<or> first + 1 \<ge> length s
             then Inl (name @ '' must use host:port (IPv6 requires brackets)'')
             else Inr (take first s, drop (first + 1) s)))"

definition validate_endpoint :: "string \<Rightarrow> string \<Rightarrow> string option" where
  "validate_endpoint name s =
     (if s = [] then Some (name @ '' is empty'')
      else case endpoint_parts name s of
        Inl e \<Rightarrow> Some e
      | Inr (host, port) \<Rightarrow>
          if host = [] \<or> port = [] \<or> \<not> list_all is_digit port then Some (name @ '' has invalid host/port'')
          else let value = digits_value 10 port in
            if value \<ge> 18446744073709551616 then Some (name @ '' has invalid port'')
            else if value < 1 \<or> value > 65535 then Some (name @ '' port out of range'')
            else None)"

section \<open>Profiles\<close>

definition apply_profile :: "string \<Rightarrow> config \<Rightarrow> config" where
  "apply_profile p c =
     (if p = ''balanced'' then c\<lparr>queue_packets := 4096, queue_bytes := 8388608, queue_delay_ms := 500, batch_packets := 8,
         batch_bytes := 16384, queue_target_delay_ms := 40, sndbuf := 4194304, rcvbuf := 4194304,
         keepalive_sec := 10, rtt_probe_sec := 5, websocket_poll_ms := 5\<rparr>
      else if p = ''lightning'' then c\<lparr>queue_packets := 2048, queue_bytes := 4194304, queue_delay_ms := 25, batch_packets := 1,
         batch_bytes := 4096, queue_target_delay_ms := 10, sndbuf := 2097152, rcvbuf := 2097152,
         keepalive_sec := 5, rtt_probe_sec := 3, websocket_poll_ms := 1\<rparr>
      else if p = ''bulk'' then c\<lparr>queue_packets := 8192, queue_bytes := 16777216, queue_delay_ms := 1000, batch_packets := 32,
         batch_bytes := 65536, queue_target_delay_ms := 100, sndbuf := 8388608, rcvbuf := 8388608,
         keepalive_sec := 15, rtt_probe_sec := 10, websocket_poll_ms := 15\<rparr>
      else if p = ''ultra'' then c\<lparr>queue_packets := 16384, queue_bytes := 33554432, queue_delay_ms := 750, batch_packets := 64,
         batch_bytes := 131072, queue_target_delay_ms := 60, sndbuf := 16777216, rcvbuf := 16777216,
         keepalive_sec := 10, rtt_probe_sec := 5, websocket_poll_ms := 2\<rparr>
      else c)"

definition apply_resource_cap :: "string \<Rightarrow> config \<Rightarrow> config" where
  "apply_resource_cap r c =
     (if r \<noteq> ''lowmem'' then c
      else c\<lparr>max_record_buffer_bytes := min (max_record_buffer_bytes c) 131072,
             queue_packets := min (queue_packets c) 512, queue_bytes := min (queue_bytes c) 1048576,
             queue_delay_ms := min (queue_delay_ms c) 250, batch_packets := min (batch_packets c) 4,
             batch_bytes := min (batch_bytes c) 8192, sndbuf := min (sndbuf c) 524288, rcvbuf := min (rcvbuf c) 524288,
             stats_interval_sec := max (stats_interval_sec c) 10\<rparr>)"

section \<open>Validation\<close>

text \<open>The checks of \<open>validate_config\<close> in order, \<open>Some\<close> the exception; the first failing one is thrown.\<close>

definition checks_pool :: "config \<Rightarrow> string option list" where
  "checks_pool c =
    [range_check ''max_connections'' (max_connections c) 1 4,
     range_check ''pool_drain_sec'' (pool_drain_sec c) 1 120,
     range_check ''pool_idle_poll_ms'' (pool_idle_poll_ms c) 1 250,
     reject (address_family c \<noteq> ''auto'' \<and> address_family c \<noteq> ''ipv4'' \<and> address_family c \<noteq> ''ipv6'') ''address_family must be auto, ipv4 or ipv6'',
     reject (max_connections c > 1 \<and> transport c \<noteq> ''websocket'') ''max_connections requires websocket'',
     reject (max_connections c > 2 \<and> resource_profile c = ''lowmem'') ''lowmem limits max_connections to 2'']"

definition checks_shaping :: "config \<Rightarrow> string option list" where
  "checks_shaping c =
    [range_check ''websocket_control_padding_bytes'' (websocket_control_padding_bytes c) 0 1024,
     reject (browser_profile c \<noteq> ''none'' \<and> browser_profile c \<noteq> ''firefox120'' \<and> browser_profile c \<noteq> ''chrome120'') ''invalid browser_profile'',
     range_check ''shaping_startup_ms'' (shaping_startup_ms c) 0 10000,
     range_check ''shaping_delay_ms'' (shaping_delay_ms c) 0 10,
     range_check ''shaping_rate_bytes'' (shaping_rate_bytes c) 0 65536,
     range_check ''shaping_burst_bytes'' (shaping_burst_bytes c) 0 65536,
     reject (traffic_shaping c \<and> (transport c \<noteq> ''websocket'' \<or> websocket_padding_max_bytes c = 0 \<or> websocket_control_padding_bytes c = 0)) ''traffic_shaping requires websocket transport and nonzero data/control padding limits'',
     range_check ''padding_budget_pct'' (padding_budget_pct c) 0 50,
     range_check ''latency_renew_ms'' (latency_renew_ms c) 0 60000,
     range_check ''latency_renew_samples'' (latency_renew_samples c) 2 20,
     range_check ''latency_renew_cooldown_sec'' (latency_renew_cooldown_sec c) 60 3600,
     range_check ''idle_probe_sec'' (idle_probe_sec c) 0 300,
     range_check ''reply_degraded_sec'' (reply_degraded_sec c) 2 60,
     range_check ''reply_renew_sec'' (reply_renew_sec c) 5 120,
     range_check ''reply_timeout_sec'' (reply_timeout_sec c) 10 300,
     range_check ''candidate_max_rtt_ms'' (candidate_max_rtt_ms c) 100 5000,
     reject (reply_degraded_sec c \<ge> reply_renew_sec c \<or> reply_renew_sec c \<ge> reply_timeout_sec c) ''reply deadlines must increase: degraded < renew < timeout'',
     range_check ''timing_jitter_pct'' (timing_jitter_pct c) 0 30,
     reject (log_format c \<noteq> ''human'' \<and> log_format c \<noteq> ''legacy'') ''log_format must be human or legacy'',
     reject (websocket_control_padding_bytes c \<noteq> 0 \<and> transport c \<noteq> ''websocket'') ''control padding requires websocket'',
     reject (websocket_control_padding_bytes c \<noteq> 0 \<and>
       batch_bytes c < to_size (max (mtu c + websocket_padding_max_bytes c) (8 + websocket_control_padding_bytes c) + 35)) ''batch_bytes too small for padded envelope'',
     range_check ''websocket_padding_max_bytes'' (websocket_padding_max_bytes c) 0 1024,
     reject (websocket_padding_max_bytes c \<noteq> 0 \<and> transport c \<noteq> ''websocket'') ''padding requires websocket transport'']"

definition checks_endpoints :: "config \<Rightarrow> string option list" where
  "checks_endpoints c =
    [reject (transport c \<noteq> ''tls'' \<and> transport c \<noteq> ''websocket'') ''transport must be tls or websocket'',
     reject (mode c \<noteq> ''server'' \<and> mode c \<noteq> ''client'') ''mode must be server or client'',
     reject (mode c = ''server'' \<and> listen c = []) ''listen is required in server mode'',
     reject (mode c = ''client'' \<and> (server c = [] \<or> server_name c = [])) ''server and server_name are required in client mode'',
     reject (mode c = ''server'' \<and> server_name c = []) ''server_name is required in server mode'',
     validate_http_field ''server_name'' (server_name c) 255 False,
     validate_http_field ''host_header'' (host_header c) 255 True,
     (if mode c = ''server'' then validate_endpoint ''listen'' (listen c) else validate_endpoint ''server'' (server c)),
     reject (path c = [] \<or> hd (path c) \<noteq> CHR ''/'') ''path must start with /'',
     validate_http_field ''path'' (path c) 2048 False,
     reject (dev c = [] \<or> length (dev c) > 15) ''dev must contain 1..15 characters'',
     reject (cidr c = [] \<or> peer_cidr c = []) ''cidr and peer_cidr are required'']"

definition checks_tls :: "config \<Rightarrow> string option list" where
  "checks_tls c =
    [reject (mode c = ''server'' \<and> transport c = ''tls'' \<and> (tls_cert c = [] \<or> tls_key c = [])) ''tls_cert and tls_key are required in server mode'',
     reject (tls_backend c \<noteq> ''openssl'' \<and> tls_backend c \<noteq> ''utls'') ''tls_backend must be openssl or utls'',
     reject (tls_backend c = ''utls'' \<and> (mode c \<noteq> ''client'' \<or> transport c \<noteq> ''websocket'' \<or> \<not> websocket_tls c \<or> \<not> verify_peer c)) ''uTLS adapter requires authenticated HTTPS WebSocket client'',
     reject (tls_backend c = ''utls'' \<and> edge_dns_rotation c) ''disable edge_dns_rotation with uTLS: adapter performs DNS resolution'',
     reject (tls_backend c = ''utls'' \<and> (tls_adapter_socket c = [] \<or> hd (tls_adapter_socket c) \<noteq> CHR ''/'' \<or>
       length (tls_adapter_socket c) \<ge> 100 \<or> contains (tls_adapter_socket c) ''..'')) ''tls_adapter_socket must be a short absolute path without ..'',
     reject (edge_dns_rotation c \<and> (mode c \<noteq> ''client'' \<or> transport c \<noteq> ''websocket'')) ''edge_dns_rotation requires websocket client'',
     reject (mode c = ''client'' \<and> transport c = ''websocket'' \<and> (\<not> websocket_tls c \<or> \<not> verify_peer c)) ''WSS requires websocket_tls=1 and verify_peer=1'',
     reject ((mode c = ''client'' \<and> (transport c \<noteq> ''websocket'' \<or> websocket_tls c)) \<and> verify_peer c \<and> tls_ca c = []) ''tls_ca is required when verify_peer=1'',
     reject (psk_file c = []) ''psk_file is required'',
     reject (profile c \<noteq> ''balanced'' \<and> profile c \<noteq> ''lightning'' \<and> profile c \<noteq> ''bulk'' \<and> profile c \<noteq> ''ultra'') ''profile must be balanced, lightning, bulk, or ultra'',
     reject (resource_profile c \<noteq> ''normal'' \<and> resource_profile c \<noteq> ''lowmem'') ''resource_profile must be normal or lowmem'']"

definition checks_tuning :: "config \<Rightarrow> string option list" where
  "checks_tuning c =
    [range_check ''mtu'' (mtu c) 576 9000,
     range_check ''websocket_ping_sec'' (websocket_ping_sec c) 0 300,
     range_check ''websocket_pong_timeout_sec'' (websocket_pong_timeout_sec c) 0 120,
     range_check ''websocket_poll_ms'' (websocket_poll_ms c) 1 100,
     range_check ''websocket_upgrade_timeout_sec'' (websocket_upgrade_timeout_sec c) 1 120,
     range_check ''websocket_io_timeout_sec'' (websocket_io_timeout_sec c) 1 300,
     range_check ''listen_backlog'' (listen_backlog c) 16 4096,
     range_check ''session_max_age_sec'' (session_max_age_sec c) 0 604800,
     range_check ''max_record_buffer_bytes'' (to_ll (max_record_buffer_bytes c)) 65536 16777216,
     range_check ''control_mode'' (control_mode c) 0 511,
     range_check ''queue_packets'' (to_ll (queue_packets c)) 16 1000000,
     range_check ''queue_bytes'' (to_ll (queue_bytes c)) 65536 2147483648,
     range_check ''queue_delay_ms'' (queue_delay_ms c) 10 60000,
     range_check ''batch_packets'' (batch_packets c) 1 256,
     range_check ''batch_bytes'' (to_ll (batch_bytes c)) 1024 4194304,
     reject (transport c = ''websocket'' \<and>
       batch_bytes c < to_size (mtu c + 32 + (if websocket_padding_max_bytes c \<noteq> 0 then 2 + websocket_padding_max_bytes c else 0))) ''batch_bytes must be at least mtu + 32 (plus 2 + websocket_padding_max_bytes when padding is enabled) for PTT5 WebSocket records'',
     range_check ''adaptive_batch_min_packets'' (adaptive_batch_min_packets c) 1 256,
     range_check ''adaptive_batch_max_packets'' (adaptive_batch_max_packets c) (adaptive_batch_min_packets c) 256,
     range_check ''queue_target_delay_ms'' (queue_target_delay_ms c) 1 60000,
     reject (transport c = ''websocket'' \<and> adaptive_batching c \<and> queue_target_delay_ms c > queue_delay_ms c) ''queue_target_delay_ms must not exceed queue_delay_ms for adaptive WebSocket batching'',
     range_check ''connect_timeout_sec'' (connect_timeout_sec c) 1 300,
     range_check ''idle_timeout_sec'' (idle_timeout_sec c) 5 3600,
     range_check ''keepalive_sec'' (keepalive_sec c) 0 300,
     range_check ''rtt_probe_sec'' (rtt_probe_sec c) 0 300,
     range_check ''reconnect_initial_ms'' (reconnect_initial_ms c) 100 60000,
     range_check ''reconnect_max_ms'' (reconnect_max_ms c) (reconnect_initial_ms c) 600000,
     range_check ''reconnect_jitter_pct'' (reconnect_jitter_pct c) 0 50,
     range_check ''tcp_keepidle_sec'' (tcp_keepidle_sec c) 1 3600,
     range_check ''tcp_keepintvl_sec'' (tcp_keepintvl_sec c) 1 300,
     range_check ''tcp_keepcnt'' (tcp_keepcnt c) 1 20,
     range_check ''tcp_user_timeout_ms'' (tcp_user_timeout_ms c) 1000 600000,
     range_check ''sndbuf'' (sndbuf c) 65536 1073741824,
     range_check ''rcvbuf'' (rcvbuf c) 65536 1073741824,
     range_check ''stats_interval_sec'' (stats_interval_sec c) 1 300,
     reject (control_socket c = []) ''control_socket is required'',
     reject (length (control_socket c) \<ge> 100) ''control_socket path is too long'']"

fun first_error :: "string option list \<Rightarrow> string option" where
  "first_error [] = None"
| "first_error (None # es) = first_error es"
| "first_error (Some e # es) = Some e"

definition validate_config :: "config \<Rightarrow> (string, unit) result" where
  "validate_config c =
     (case first_error (checks_pool c @ checks_shaping c @ checks_endpoints c @ checks_tls c @ checks_tuning c) of
        None \<Rightarrow> Inr () | Some e \<Rightarrow> Inl e)"

section \<open>Loading\<close>

text \<open>One line of the file: \<open>None\<close> for a blank one.\<close>

definition parse_line :: "nat \<Rightarrow> string \<Rightarrow> (string, (string \<times> string) option) result" where
  "parse_line no s =
     (let line = trim (takeWhile (\<lambda>x. x \<noteq> CHR ''#'') s) in
      if line = [] then Inr None
      else case find_char (CHR ''='') line of
        None \<Rightarrow> Inl (''config line '' @ dec no @ '': expected key=value'')
      | Some e \<Rightarrow>
          let k = trim (take e line); v = trim (drop (e + 1) line) in
          if k = [] then Inl (''config line '' @ dec no @ '': empty key'') else Inr (Some (k, v)))"

fun parse_lines :: "nat \<Rightarrow> string list \<Rightarrow> settings \<Rightarrow> (string, settings) result" where
  "parse_lines no [] m = Inr m"
| "parse_lines no (l # ls) m =
     andThen (parse_line no l) (\<lambda>kv.
       case kv of
         None \<Rightarrow> parse_lines (no + 1) ls m
       | Some (k, v) \<Rightarrow>
           if k \<in> fst ` set m then Inl (''duplicate config key: '' @ k)
           else parse_lines (no + 1) ls (m @ [(k, v)]))"

text \<open>One assignment \<open>c.f = ...\<close> of \<open>load_config\<close>.\<close>

definition set_str :: "settings \<Rightarrow> string \<Rightarrow> (config \<Rightarrow> string) \<Rightarrow> ((string \<Rightarrow> string) \<Rightarrow> config \<Rightarrow> config) \<Rightarrow>
    config \<Rightarrow> (string, config) result" where
  "set_str m k d upd c = Inr (upd (\<lambda>_. sval m k (d c)) c)"

definition set_int :: "settings \<Rightarrow> string \<Rightarrow> (config \<Rightarrow> int) \<Rightarrow> ((int \<Rightarrow> int) \<Rightarrow> config \<Rightarrow> config) \<Rightarrow>
    config \<Rightarrow> (string, config) result" where
  "set_int m k d upd c = andThen (ival m k (d c)) (\<lambda>v. Inr (upd (\<lambda>_. v) c))"

definition set_size :: "settings \<Rightarrow> string \<Rightarrow> (config \<Rightarrow> nat) \<Rightarrow> ((nat \<Rightarrow> nat) \<Rightarrow> config \<Rightarrow> config) \<Rightarrow>
    config \<Rightarrow> (string, config) result" where
  "set_size m k d upd c = andThen (zval m k (d c)) (\<lambda>v. Inr (upd (\<lambda>_. v) c))"

definition set_bool :: "settings \<Rightarrow> string \<Rightarrow> ((bool \<Rightarrow> bool) \<Rightarrow> config \<Rightarrow> config) \<Rightarrow> config \<Rightarrow> (string, config) result" where
  "set_bool m k upd c =
     (case map_of m k of None \<Rightarrow> Inr c | Some v \<Rightarrow> andThen (bval v) (\<lambda>b. Inr (upd (\<lambda>_. b) c)))"

definition set_octal :: "settings \<Rightarrow> string \<Rightarrow> ((int \<Rightarrow> int) \<Rightarrow> config \<Rightarrow> config) \<Rightarrow> config \<Rightarrow> (string, config) result" where
  "set_octal m k upd c =
     (case map_of m k of None \<Rightarrow> Inr c | Some v \<Rightarrow> andThen (stoi 8 v) (\<lambda>n. Inr (upd (\<lambda>_. n) c)))"

fun run_steps :: "(config \<Rightarrow> (string, config) result) list \<Rightarrow> config \<Rightarrow> (string, config) result" where
  "run_steps [] c = Inr c"
| "run_steps (f # fs) c = andThen (f c) (run_steps fs)"

definition steps_first :: "settings \<Rightarrow> (config \<Rightarrow> (string, config) result) list" where
  "steps_first m =
    [set_str m ''browser_profile'' browser_profile browser_profile_update,
     set_bool m ''traffic_shaping'' traffic_shaping_update,
     set_int m ''shaping_startup_ms'' shaping_startup_ms shaping_startup_ms_update,
     set_int m ''shaping_delay_ms'' shaping_delay_ms shaping_delay_ms_update,
     set_int m ''shaping_rate_bytes'' shaping_rate_bytes shaping_rate_bytes_update,
     set_int m ''shaping_burst_bytes'' shaping_burst_bytes shaping_burst_bytes_update,
     set_int m ''websocket_control_padding_bytes'' (\<lambda>_. 0) websocket_control_padding_bytes_update,
     set_int m ''padding_budget_pct'' (\<lambda>_. 10) padding_budget_pct_update,
     set_int m ''latency_renew_ms'' (\<lambda>_. 600) latency_renew_ms_update,
     set_int m ''latency_renew_samples'' (\<lambda>_. 3) latency_renew_samples_update,
     set_int m ''latency_renew_cooldown_sec'' (\<lambda>_. 180) latency_renew_cooldown_sec_update,
     set_int m ''idle_probe_sec'' (\<lambda>_. 20) idle_probe_sec_update,
     set_int m ''reply_degraded_sec'' (\<lambda>_. 10) reply_degraded_sec_update,
     set_int m ''reply_renew_sec'' (\<lambda>_. 30) reply_renew_sec_update,
     set_int m ''reply_timeout_sec'' (\<lambda>_. 60) reply_timeout_sec_update,
     set_int m ''candidate_max_rtt_ms'' (\<lambda>_. 1500) candidate_max_rtt_ms_update,
     set_int m ''timing_jitter_pct'' (\<lambda>_. 15) timing_jitter_pct_update,
     set_str m ''log_format'' (\<lambda>_. ''human'') log_format_update,
     set_int m ''websocket_padding_max_bytes'' (\<lambda>_. 0) websocket_padding_max_bytes_update,
     set_int m ''max_connections'' max_connections max_connections_update,
     set_int m ''pool_drain_sec'' pool_drain_sec pool_drain_sec_update,
     set_int m ''pool_idle_poll_ms'' pool_idle_poll_ms pool_idle_poll_ms_update,
     set_str m ''address_family'' address_family address_family_update,
     set_bool m ''flow_scheduler'' flow_scheduler_update,
     set_str m ''profile'' profile profile_update,
     set_str m ''resource_profile'' resource_profile resource_profile_update]"

definition steps_transport :: "settings \<Rightarrow> (config \<Rightarrow> (string, config) result) list" where
  "steps_transport m =
    [set_str m ''mode'' (\<lambda>_. '''') mode_update,
     set_str m ''transport'' transport transport_update,
     set_str m ''listen'' (\<lambda>_. '''') listen_update,
     set_str m ''server'' (\<lambda>_. '''') server_update,
     set_str m ''server_name'' (\<lambda>_. '''') server_name_update,
     set_str m ''path'' path path_update,
     set_str m ''host_header'' host_header host_header_update,
     set_str m ''tls_backend'' tls_backend tls_backend_update,
     set_str m ''tls_adapter_socket'' tls_adapter_socket tls_adapter_socket_update,
     set_bool m ''edge_dns_rotation'' edge_dns_rotation_update,
     set_bool m ''websocket_tls'' websocket_tls_update,
     set_int m ''websocket_ping_sec'' websocket_ping_sec websocket_ping_sec_update,
     set_int m ''websocket_pong_timeout_sec'' websocket_pong_timeout_sec websocket_pong_timeout_sec_update,
     set_int m ''websocket_poll_ms'' websocket_poll_ms websocket_poll_ms_update,
     set_int m ''websocket_upgrade_timeout_sec'' websocket_upgrade_timeout_sec websocket_upgrade_timeout_sec_update,
     set_int m ''websocket_io_timeout_sec'' websocket_io_timeout_sec websocket_io_timeout_sec_update,
     set_int m ''listen_backlog'' listen_backlog listen_backlog_update,
     set_int m ''session_max_age_sec'' session_max_age_sec session_max_age_sec_update,
     set_str m ''dev'' dev dev_update,
     set_str m ''cidr'' (\<lambda>_. '''') cidr_update,
     set_str m ''peer_cidr'' (\<lambda>_. '''') peer_cidr_update,
     set_int m ''mtu'' mtu mtu_update,
     set_str m ''tls_cert'' (\<lambda>_. '''') tls_cert_update,
     set_str m ''tls_key'' (\<lambda>_. '''') tls_key_update,
     set_str m ''tls_ca'' (\<lambda>_. '''') tls_ca_update,
     set_bool m ''verify_peer'' verify_peer_update,
     set_str m ''psk_file'' (\<lambda>_. '''') psk_file_update,
     set_str m ''psk_previous_file'' (\<lambda>_. '''') psk_previous_file_update]"

definition steps_tuning :: "settings \<Rightarrow> (config \<Rightarrow> (string, config) result) list" where
  "steps_tuning m =
    [set_size m ''max_record_buffer_bytes'' max_record_buffer_bytes max_record_buffer_bytes_update,
     set_octal m ''control_mode'' control_mode_update,
     set_size m ''queue_packets'' queue_packets queue_packets_update,
     set_size m ''queue_bytes'' queue_bytes queue_bytes_update,
     set_int m ''queue_delay_ms'' queue_delay_ms queue_delay_ms_update,
     set_int m ''batch_packets'' batch_packets batch_packets_update,
     set_size m ''batch_bytes'' batch_bytes batch_bytes_update,
     set_bool m ''adaptive_batching'' adaptive_batching_update,
     set_int m ''adaptive_batch_min_packets'' adaptive_batch_min_packets adaptive_batch_min_packets_update,
     set_int m ''adaptive_batch_max_packets'' adaptive_batch_max_packets adaptive_batch_max_packets_update,
     set_int m ''queue_target_delay_ms'' queue_target_delay_ms queue_target_delay_ms_update,
     set_int m ''connect_timeout_sec'' connect_timeout_sec connect_timeout_sec_update,
     set_int m ''idle_timeout_sec'' idle_timeout_sec idle_timeout_sec_update,
     set_int m ''keepalive_sec'' keepalive_sec keepalive_sec_update,
     set_int m ''rtt_probe_sec'' rtt_probe_sec rtt_probe_sec_update,
     set_int m ''reconnect_initial_ms'' reconnect_initial_ms reconnect_initial_ms_update,
     set_int m ''reconnect_max_ms'' reconnect_max_ms reconnect_max_ms_update,
     set_int m ''reconnect_jitter_pct'' reconnect_jitter_pct reconnect_jitter_pct_update,
     set_int m ''tcp_keepidle_sec'' tcp_keepidle_sec tcp_keepidle_sec_update,
     set_int m ''tcp_keepintvl_sec'' tcp_keepintvl_sec tcp_keepintvl_sec_update,
     set_int m ''tcp_keepcnt'' tcp_keepcnt tcp_keepcnt_update,
     set_int m ''tcp_user_timeout_ms'' tcp_user_timeout_ms tcp_user_timeout_ms_update,
     set_int m ''sndbuf'' sndbuf sndbuf_update,
     set_int m ''rcvbuf'' rcvbuf rcvbuf_update,
     set_int m ''stats_interval_sec'' stats_interval_sec stats_interval_sec_update,
     set_str m ''control_socket'' (\<lambda>_. '''') control_socket_update,
     set_bool m ''strict_file_permissions'' strict_file_permissions_update]"

definition known_keys :: "string list" where
  "known_keys =
    [''browser_profile'', ''traffic_shaping'', ''shaping_startup_ms'', ''shaping_delay_ms'',
     ''shaping_rate_bytes'', ''shaping_burst_bytes'', ''pool_drain_sec'', ''pool_idle_poll_ms'',
     ''address_family'', ''reply_degraded_sec'', ''reply_renew_sec'', ''reply_timeout_sec'',
     ''candidate_max_rtt_ms'', ''latency_renew_ms'', ''latency_renew_samples'',
     ''latency_renew_cooldown_sec'', ''idle_probe_sec'', ''websocket_control_padding_bytes'',
     ''padding_budget_pct'', ''timing_jitter_pct'', ''log_format'', ''websocket_padding_max_bytes'',
     ''flow_scheduler'', ''max_connections'', ''mode'', ''transport'', ''listen'', ''server'',
     ''server_name'', ''path'', ''host_header'', ''edge_dns_rotation'', ''tls_backend'',
     ''tls_adapter_socket'', ''websocket_tls'', ''websocket_ping_sec'', ''websocket_pong_timeout_sec'',
     ''websocket_poll_ms'', ''websocket_upgrade_timeout_sec'', ''websocket_io_timeout_sec'',
     ''listen_backlog'', ''session_max_age_sec'', ''dev'', ''cidr'', ''peer_cidr'', ''mtu'', ''tls_cert'',
     ''tls_key'', ''tls_ca'', ''verify_peer'', ''psk_file'', ''psk_previous_file'', ''profile'',
     ''resource_profile'', ''max_record_buffer_bytes'', ''control_mode'', ''queue_packets'',
     ''queue_bytes'', ''queue_delay_ms'', ''batch_packets'', ''batch_bytes'', ''adaptive_batching'',
     ''adaptive_batch_min_packets'', ''adaptive_batch_max_packets'', ''queue_target_delay_ms'',
     ''connect_timeout_sec'', ''idle_timeout_sec'', ''keepalive_sec'', ''rtt_probe_sec'',
     ''reconnect_initial_ms'', ''reconnect_max_ms'', ''reconnect_jitter_pct'', ''tcp_keepidle_sec'',
     ''tcp_keepintvl_sec'', ''tcp_keepcnt'', ''tcp_user_timeout_ms'', ''sndbuf'', ''rcvbuf'',
     ''stats_interval_sec'', ''control_socket'', ''strict_file_permissions'']"

definition read_settings :: "undeclared \<Rightarrow> settings \<Rightarrow> (string, config) result" where
  "read_settings u m =
     andThen (run_steps (steps_first m) (default_config u)) (\<lambda>c1.
     andThen (run_steps (steps_transport m) (apply_profile (profile c1) c1)) (\<lambda>c2.
     andThen (run_steps (steps_tuning m) c2) (\<lambda>c3.
     Inr (apply_resource_cap (resource_profile c3) c3))))"

text \<open>The file is \<open>None\<close> when it cannot be opened.\<close>

definition load_config :: "undeclared \<Rightarrow> string \<Rightarrow> string option \<Rightarrow> (string, config) result" where
  "load_config u file content =
     andThen (ofOption (''cannot open config: '' @ file) content) (\<lambda>text.
     andThen (parse_lines 1 (text_lines text) []) (\<lambda>m.
     andThen (read_settings u m) (\<lambda>c.
     andThen (case filter (\<lambda>k. k \<notin> set known_keys) (map fst m) of
                [] \<Rightarrow> Inr () | k # _ \<Rightarrow> Inl (''unknown config key: '' @ k)) (\<lambda>_.
     andThen (validate_config c) (\<lambda>_. Inr c)))))"

end
