(* ===== verification/ConfigProps.thy ===== *)
theory ConfigProps
  imports Config
begin

text \<open>
  What an accepted configuration guarantees to the rest of the program: the ranges and relations the
  tunnel loops rely on, that a packet of the configured size fits one batch as a record, that unknown or repeated
  keys are refused, and that the caps of the small resource profile win over every other setting.
\<close>

section \<open>Accepted configurations\<close>

lemma first_error_None: "first_error es = None \<longleftrightarrow> (\<forall>e \<in> set es. e = None)"
  by (induction es rule: first_error.induct) auto

lemma validate_config_Inr:
  "validate_config c = Inr u \<longleftrightarrow>
     (\<forall>e \<in> set (checks_pool c @ checks_shaping c @ checks_endpoints c @ checks_tls c @ checks_tuning c). e = None)"
  unfolding first_error_None [symmetric] validate_config_def by (simp split: option.splits)

lemma range_check_None: "range_check name v lo hi = None \<longleftrightarrow> lo \<le> v \<and> v \<le> hi"
  by (auto simp: range_check_def)

lemma reject_None: "reject bad e = None \<longleftrightarrow> \<not> bad"
  by (simp add: reject_def)

lemmas check_None = range_check_None reject_None

lemma validated:
  assumes "validate_config c = Inr u"
  shows "list_all (\<lambda>e. e = None) (checks_pool c)" "list_all (\<lambda>e. e = None) (checks_shaping c)"
    "list_all (\<lambda>e. e = None) (checks_endpoints c)" "list_all (\<lambda>e. e = None) (checks_tls c)"
    "list_all (\<lambda>e. e = None) (checks_tuning c)"
  using assms unfolding validate_config_Inr by (simp_all add: list_all_iff)

lemma load_config_Inr:
  assumes "load_config u file content = Inr c"
  obtains body m c0 where "content = Some body" "parse_lines 1 (text_lines body) [] = Inr m"
    "c = apply_resource_cap (resource_profile c0) c0" "set (map fst m) \<subseteq> set known_keys"
    "validate_config c = Inr ()" "read_settings u m = Inr c"
proof -
  from assms obtain body m and v1 v2 :: unit where t: "content = Some body" "parse_lines 1 (text_lines body) [] = Inr m"
    and r: "read_settings u m = Inr c" and v: "validate_config c = Inr v1"
    and k: "(case filter (\<lambda>k. k \<notin> set known_keys) (map fst m) of [] \<Rightarrow> Inr () | k # _ \<Rightarrow> Inl (''unknown config key: '' @ k)) = Inr v2"
    unfolding load_config_def by (auto simp only: andThen_Inr ofOption_Inr sum.inject)
  from r obtain c0 where c0: "c = apply_resource_cap (resource_profile c0) c0"
    unfolding read_settings_def by (auto simp only: andThen_Inr sum.inject)
  have "filter (\<lambda>k. k \<notin> set known_keys) (map fst m) = []" using k by (auto split: list.splits)
  then have "set (map fst m) \<subseteq> set known_keys" by (auto simp only: filter_empty_conv subset_eq)
  moreover have "validate_config c = Inr ()" using v by simp
  ultimately show ?thesis using t c0 r by (intro that [of body m c0])
qed

lemma to_size_small: "0 \<le> x \<Longrightarrow> x < 18446744073709551616 \<Longrightarrow> to_size x = nat x"
  by (simp add: to_size_def)

lemma to_ll_small: "to_ll n \<ge> 0 \<Longrightarrow> to_ll n \<le> 9223372036854775807 \<Longrightarrow> n < 18446744073709551616 \<Longrightarrow> to_ll n = int n"
  by (simp add: to_ll_def split: if_splits)

lemma validated_pool: "validate_config c = Inr u \<Longrightarrow> 1 \<le> max_connections c \<and> max_connections c \<le> 4 \<and>
    (max_connections c > 1 \<longrightarrow> transport c = ''websocket'') \<and> (resource_profile c = ''lowmem'' \<longrightarrow> max_connections c \<le> 2)"
  by (drule validated(1)) (auto simp: checks_pool_def check_None)

lemma validated_shaping: "validate_config c = Inr u \<Longrightarrow>
    reply_degraded_sec c < reply_renew_sec c \<and> reply_renew_sec c < reply_timeout_sec c \<and>
    0 \<le> websocket_padding_max_bytes c \<and> websocket_padding_max_bytes c \<le> 1024 \<and>
    0 \<le> websocket_control_padding_bytes c \<and> websocket_control_padding_bytes c \<le> 1024 \<and>
    (websocket_control_padding_bytes c \<noteq> 0 \<longrightarrow>
      to_size (max (mtu c + websocket_padding_max_bytes c) (8 + websocket_control_padding_bytes c) + 35) \<le> batch_bytes c)"
  by (drule validated(2)) (auto simp: checks_shaping_def check_None not_less)

lemma validated_tls: "validate_config c = Inr u \<Longrightarrow> mode c = ''client'' \<and> transport c = ''websocket'' \<longrightarrow>
    websocket_tls c \<and> verify_peer c \<and> tls_ca c \<noteq> []"
  by (drule validated(4)) (auto simp: checks_tls_def check_None)

lemma validated_endpoints: "validate_config c = Inr u \<Longrightarrow>
    (mode c = ''server'' \<or> mode c = ''client'') \<and> (transport c = ''tls'' \<or> transport c = ''websocket'') \<and>
    validate_endpoint (if mode c = ''server'' then ''listen'' else ''server'')
      (if mode c = ''server'' then listen c else server c) = None"
  by (drule validated(3)) (auto simp: checks_endpoints_def check_None split: if_splits)

lemma validated_tuning: "validate_config c = Inr u \<Longrightarrow>
    576 \<le> mtu c \<and> mtu c \<le> 9000 \<and> 1024 \<le> to_ll (batch_bytes c) \<and> to_ll (batch_bytes c) \<le> 4194304 \<and>
    65536 \<le> to_ll (max_record_buffer_bytes c) \<and> to_ll (max_record_buffer_bytes c) \<le> 16777216 \<and>
    16 \<le> to_ll (queue_packets c) \<and> 65536 \<le> to_ll (queue_bytes c) \<and> to_ll (queue_bytes c) \<le> 2147483648 \<and>
    1 \<le> adaptive_batch_min_packets c \<and> adaptive_batch_min_packets c \<le> adaptive_batch_max_packets c \<and>
    adaptive_batch_max_packets c \<le> 256 \<and> 1 \<le> batch_packets c \<and> batch_packets c \<le> 256 \<and>
    100 \<le> reconnect_initial_ms c \<and> reconnect_initial_ms c \<le> reconnect_max_ms c \<and> reconnect_max_ms c \<le> 600000 \<and>
    0 \<le> reconnect_jitter_pct c \<and> reconnect_jitter_pct c \<le> 50 \<and> 1 \<le> queue_target_delay_ms c \<and>
    (transport c = ''websocket'' \<longrightarrow>
       to_size (mtu c + 32 + (if websocket_padding_max_bytes c \<noteq> 0 then 2 + websocket_padding_max_bytes c else 0)) \<le> batch_bytes c)"
  by (drule validated(5)) (auto simp: checks_tuning_def check_None not_less split: if_splits)

section \<open>Sizes fit 64 bits\<close>

definition sizes_ok :: "config \<Rightarrow> bool" where
  "sizes_ok c \<longleftrightarrow> max_record_buffer_bytes c < 18446744073709551616 \<and> queue_packets c < 18446744073709551616 \<and>
     queue_bytes c < 18446744073709551616 \<and> batch_bytes c < 18446744073709551616"

lemma run_steps_inv:
  "\<lbrakk>list_all (\<lambda>f. \<forall>c c'. P c \<longrightarrow> f c = Inr c' \<longrightarrow> P c') fs; P c; run_steps fs c = Inr c'\<rbrakk> \<Longrightarrow> P c'"
  by (induction fs arbitrary: c) (auto simp: result_iff)

lemma zval_range: "zval m k d = Inr v \<Longrightarrow> d < 18446744073709551616 \<Longrightarrow> v < 18446744073709551616"
  by (auto simp: zval_def dest: stoull_range split: option.splits)

lemma set_sizes_ok:
  "(\<And>c v. sizes_ok (supd (\<lambda>_. v) c) = sizes_ok c) \<Longrightarrow> sizes_ok c \<longrightarrow> set_str m k sd supd c = Inr c' \<longrightarrow> sizes_ok c'"
  "(\<And>c v. sizes_ok (iupd (\<lambda>_. v) c) = sizes_ok c) \<Longrightarrow> sizes_ok c \<longrightarrow> set_int m k idf iupd c = Inr c' \<longrightarrow> sizes_ok c'"
  "(\<And>c v. sizes_ok (bupd (\<lambda>_. v) c) = sizes_ok c) \<Longrightarrow> sizes_ok c \<longrightarrow> set_bool m k bupd c = Inr c' \<longrightarrow> sizes_ok c'"
  "(\<And>c v. sizes_ok (iupd (\<lambda>_. v) c) = sizes_ok c) \<Longrightarrow> sizes_ok c \<longrightarrow> set_octal m k iupd c = Inr c' \<longrightarrow> sizes_ok c'"
  "(\<And>c v. sizes_ok c \<Longrightarrow> v < 18446744073709551616 \<Longrightarrow> sizes_ok (zupd (\<lambda>_. v) c)) \<Longrightarrow>
     (\<And>c. sizes_ok c \<Longrightarrow> zdf c < 18446744073709551616) \<Longrightarrow> sizes_ok c \<longrightarrow> set_size m k zdf zupd c = Inr c' \<longrightarrow> sizes_ok c'"
  by (auto simp: set_str_def set_int_def set_bool_def set_octal_def set_size_def result_iff
      dest: zval_range split: option.splits)

lemma steps_sizes:
  "list_all (\<lambda>f. \<forall>c c'. sizes_ok c \<longrightarrow> f c = Inr c' \<longrightarrow> sizes_ok c') (steps_first m)"
  "list_all (\<lambda>f. \<forall>c c'. sizes_ok c \<longrightarrow> f c = Inr c' \<longrightarrow> sizes_ok c') (steps_transport m)"
  "list_all (\<lambda>f. \<forall>c c'. sizes_ok c \<longrightarrow> f c = Inr c' \<longrightarrow> sizes_ok c') (steps_tuning m)"
  unfolding steps_first_def steps_transport_def steps_tuning_def list.pred_inject
  by (intro conjI allI set_sizes_ok TrueI; simp add: sizes_ok_def)+

lemma read_settings_sizes:
  assumes "read_settings u m = Inr c"
  shows "sizes_ok c"
proof -
  from assms obtain c1 c2 c3 where r: "run_steps (steps_first m) (default_config u) = Inr c1"
    "run_steps (steps_transport m) (apply_profile (profile c1) c1) = Inr c2" "run_steps (steps_tuning m) c2 = Inr c3"
    "c = apply_resource_cap (resource_profile c3) c3"
    unfolding read_settings_def by (auto simp only: andThen_Inr sum.inject)
  have "sizes_ok (default_config u)" by (cases u) (simp add: default_config_def sizes_ok_def)
  from run_steps_inv [OF steps_sizes(1) this r(1)] have "sizes_ok (apply_profile (profile c1) c1)"
    by (simp add: apply_profile_def sizes_ok_def)
  from run_steps_inv [OF steps_sizes(3) run_steps_inv [OF steps_sizes(2) this r(2)] r(3)]
  show ?thesis by (auto simp: r(4) apply_resource_cap_def sizes_ok_def)
qed

lemma to_ll_sizes: "n < 18446744073709551616 \<Longrightarrow> 0 \<le> to_ll n \<Longrightarrow> to_ll n = int n"
  by (simp add: to_ll_def split: if_splits)

section \<open>The text of a configuration\<close>

text \<open>A file with one \<open>key=value\<close> line per setting, and the settings it can express.\<close>

definition print_settings :: "settings \<Rightarrow> string" where
  "print_settings m = concat (map (\<lambda>(k, v). k @ ''='' @ v @ [CHR 0x0A]) m)"

definition plain :: "string \<Rightarrow> bool" where
  "plain s \<longleftrightarrow> trim s = s \<and> CHR ''#'' \<notin> set s \<and> CHR 0x0A \<notin> set s"

definition printable :: "settings \<Rightarrow> bool" where
  "printable m \<longleftrightarrow> list_all (\<lambda>(k, v). k \<noteq> [] \<and> CHR ''='' \<notin> set k \<and> plain k \<and> plain v) m"

lemma parse_print_line:
  assumes "k \<noteq> []" "CHR ''='' \<notin> set k" "plain k" "plain v"
  shows "parse_line no (k @ ''='' @ v) = Inr (Some (k, v))"
proof -
  let ?l = "k @ ''='' @ v"
  have "CHR ''#'' \<notin> set ?l" using assms(3,4) by (auto simp: plain_def)
  then have tk: "takeWhile (\<lambda>x. x \<noteq> CHR ''#'') ?l = ?l" unfolding takeWhile_eq_all_conv by fast
  have "\<not> is_space (CHR ''='')" by (simp add: is_space_def)
  then have tr: "trim ?l = ?l" using assms by (auto simp: plain_def trim_id_iff)
  have fc: "find_char (CHR ''='') ?l = Some (length k)" using find_char_append [OF assms(2)] by simp
  show ?thesis unfolding parse_line_def Let_def tk tr fc using assms by (simp add: plain_def)
qed

lemma parse_print:
  "printable m \<Longrightarrow> distinct (map fst (m0 @ m)) \<Longrightarrow>
   parse_lines no (text_lines (print_settings m)) m0 = Inr (m0 @ m)"
proof (induction m arbitrary: no m0)
  case Nil
  then show ?case by (simp add: print_settings_def)
next
  case (Cons kv m)
  obtain k v where kv: "kv = (k, v)" by (cases kv)
  have p: "k \<noteq> []" "CHR ''='' \<notin> set k" "plain k" "plain v" "printable m" using Cons.prems(1) by (auto simp: printable_def kv)
  have "CHR 0x0A \<notin> set (k @ ''='' @ v)" using p by (auto simp: plain_def)
  from text_lines_join [OF this] have "text_lines (print_settings (kv # m)) = (k @ ''='' @ v) # text_lines (print_settings m)"
    by (simp add: print_settings_def kv)
  moreover have "k \<notin> fst ` set m0" using Cons.prems(2) by (auto simp: kv)
  ultimately show ?case
    using parse_print_line [OF p(1-4), of no] Cons.IH [OF p(5), of "m0 @ [kv]" "no + 1"] Cons.prems(2) by (simp add: kv)
qed

lemma parse_lines_keys:
  "parse_lines no ls m0 = Inr m \<Longrightarrow> distinct (map fst m0) \<Longrightarrow> distinct (map fst m)"
proof (induction ls arbitrary: no m0)
  case (Cons l ls)
  from Cons.prems(1) obtain kv where l: "parse_line no l = Inr kv"
    and r: "(case kv of None \<Rightarrow> parse_lines (no + 1) ls m0 | Some (k, v) \<Rightarrow>
      if k \<in> fst ` set m0 then Inl (''duplicate config key: '' @ k) else parse_lines (no + 1) ls (m0 @ [(k, v)])) = Inr m"
    by (auto simp only: parse_lines.simps andThen_Inr)
  show ?case
  proof (cases kv)
    case None
    with r Cons show ?thesis by simp
  next
    case (Some kv')
    obtain k v where kv: "kv' = (k, v)" by (cases kv')
    with r Some have "k \<notin> fst ` set m0" "parse_lines (no + 1) ls (m0 @ [(k, v)]) = Inr m" by (auto split: if_splits)
    with Cons.IH [of "no + 1" "m0 @ [(k, v)]"] Cons.prems(2) show ?thesis by simp
  qed
qed simp

lemma load_printed:
  assumes "printable m" "distinct (map fst m)"
  shows "load_config u file (Some (print_settings m)) = Inr c \<longleftrightarrow>
    read_settings u m = Inr c \<and> set (map fst m) \<subseteq> set known_keys \<and> validate_config c = Inr ()"
proof -
  have p: "parse_lines 1 (text_lines (print_settings m)) [] = Inr m" using parse_print [OF assms(1), of "[]" 1] assms(2) by simp
  have k: "(case filter (\<lambda>k. k \<notin> set known_keys) ks of [] \<Rightarrow> Inr () | k # _ \<Rightarrow> Inl (''unknown config key: '' @ k)) = Inr x \<longleftrightarrow>
      set ks \<subseteq> set known_keys" for ks and x :: unit
    by (cases "filter (\<lambda>k. k \<notin> set known_keys) ks") (auto simp: filter_empty_conv filter_eq_Cons_iff)
  show ?thesis unfolding load_config_def ofOption.simps andThen.simps p andThen_Inr k by auto
qed

text \<open>A small configuration of a client.\<close>

definition demo_settings :: settings where
  "demo_settings =
    [(''mode'', ''client''), (''transport'', ''websocket''), (''server'', ''vpn:443''), (''server_name'', ''vpn''),
     (''cidr'', ''10.0.0.2/30''), (''peer_cidr'', ''10.0.0.1/30''), (''tls_ca'', ''ca''), (''psk_file'', ''psk''),
     (''control_socket'', ''ctl''), (''websocket_padding_max_bytes'', ''64''), (''resource_profile'', ''lowmem'')]"

definition demo_undeclared :: undeclared where
  "demo_undeclared = (''none'', False, 0, 0, 0, 0)"

lemma demo_printable: "printable demo_settings" "distinct (map fst demo_settings)"
  by (simp_all add: printable_def plain_def demo_settings_def trim_def is_space_def)

lemma demo_keys: "set (map fst demo_settings) \<subseteq> set known_keys"
  by (simp add: demo_settings_def known_keys_def)

lemmas setter_defs = set_str_def set_int_def set_bool_def set_octal_def set_size_def sval_def ival_def zval_def

lemma demo_read: "\<exists>c. read_settings demo_undeclared demo_settings = Inr c \<and> mtu c = 1280 \<and> batch_bytes c = 8192 \<and>
    resource_profile c = ''lowmem'' \<and> validate_config c = Inr ()"
  by (simp add: read_settings_def demo_settings_def demo_undeclared_def steps_first_def steps_transport_def steps_tuning_def
      setter_defs default_config_def apply_profile_def apply_resource_cap_def stoi_def number_parts_def
      digits_value_def digit_value_def is_digit_def is_space_def Let_def validate_config_def checks_pool_def
      checks_shaping_def checks_endpoints_def checks_tls_def checks_tuning_def range_check_def reject_def to_ll_def
      to_size_def validate_http_field_def validate_endpoint_def endpoint_parts_def find_char_def rfind_char_def)

lemma demo_load: "\<exists>c. load_config demo_undeclared file (Some (print_settings demo_settings)) = Inr c \<and>
    mtu c = 1280 \<and> batch_bytes c = 8192 \<and> resource_profile c = ''lowmem''"
  using demo_read load_printed [OF demo_printable] demo_keys by blast

section \<open>Properties\<close>

text \<open>
  C34: a configuration that \<open>load_config\<close> returns is safe to run: the packet size, the batch and buffer
  sizes and the adaptive and reconnect bounds are in order, the reply deadlines increase strictly, a pool needs WebSocket,
  a WebSocket client always verifies its peer over TLS with a CA, and a batch holds the record of a full packet with the
  configured padding, also in the enveloped form.
\<close>

theorem accepted_config_safe:
  assumes "load_config u file content = Inr c"
  shows "576 \<le> mtu c \<and> mtu c \<le> 9000 \<and> batch_bytes c \<le> 4194304 \<and> max_record_buffer_bytes c \<ge> 65536 \<and>
    queue_bytes c \<ge> 65536 \<and> queue_packets c \<ge> 16 \<and>
    1 \<le> adaptive_batch_min_packets c \<and> adaptive_batch_min_packets c \<le> adaptive_batch_max_packets c \<and>
    100 \<le> reconnect_initial_ms c \<and> reconnect_initial_ms c \<le> reconnect_max_ms c \<and>
    reply_degraded_sec c < reply_renew_sec c \<and> reply_renew_sec c < reply_timeout_sec c \<and>
    (max_connections c > 1 \<longrightarrow> transport c = ''websocket'') \<and>
    (mode c = ''client'' \<and> transport c = ''websocket'' \<longrightarrow> websocket_tls c \<and> verify_peer c \<and> tls_ca c \<noteq> []) \<and>
    (transport c = ''websocket'' \<longrightarrow>
       mtu c + 32 + (if websocket_padding_max_bytes c \<noteq> 0 then 2 + websocket_padding_max_bytes c else 0) \<le> int (batch_bytes c)) \<and>
    (websocket_control_padding_bytes c \<noteq> 0 \<longrightarrow>
       mtu c + websocket_padding_max_bytes c + 35 \<le> int (batch_bytes c) \<and> websocket_control_padding_bytes c + 43 \<le> int (batch_bytes c))"
proof -
  from assms obtain m where v: "validate_config c = Inr ()" and r: "read_settings u m = Inr c"
    by (rule load_config_Inr) blast
  note vt = validated_tuning [OF v] and vs = validated_shaping [OF v]
  have z: "to_ll (batch_bytes c) = int (batch_bytes c)" "to_ll (max_record_buffer_bytes c) = int (max_record_buffer_bytes c)"
    "to_ll (queue_bytes c) = int (queue_bytes c)" "to_ll (queue_packets c) = int (queue_packets c)"
    using read_settings_sizes [OF r] vt by (auto intro!: to_ll_sizes simp: sizes_ok_def)
  have e: "mtu c + websocket_padding_max_bytes c + 35 \<le> int (batch_bytes c) \<and> websocket_control_padding_bytes c + 43 \<le> int (batch_bytes c)"
    if "websocket_control_padding_bytes c \<noteq> 0"
  proof -
    let ?x = "max (mtu c + websocket_padding_max_bytes c) (8 + websocket_control_padding_bytes c) + 35"
    have "to_size ?x = nat ?x" using vt vs by (intro to_size_small) auto
    with vs that have "?x \<le> int (batch_bytes c)" by (simp only: nat_le_iff simp_thms)
    then show ?thesis by linarith
  qed
  have d: "mtu c + 32 + (if websocket_padding_max_bytes c \<noteq> 0 then 2 + websocket_padding_max_bytes c else 0) \<le> int (batch_bytes c)"
    if "transport c = ''websocket''"
  proof -
    let ?x = "mtu c + 32 + (if websocket_padding_max_bytes c \<noteq> 0 then 2 + websocket_padding_max_bytes c else 0)"
    have "to_size ?x = nat ?x" using vt vs by (intro to_size_small) auto
    with vt that show ?thesis by (simp only: nat_le_iff)
  qed
  show ?thesis using vt vs z d e validated_pool [OF v] validated_tls [OF v] by (intro conjI) simp_all
qed

theorem accepted_config_safe_witness:
  "\<exists>c. load_config demo_undeclared ''f'' (Some (print_settings demo_settings)) = Inr c \<and> 576 \<le> mtu c \<and>
     reply_degraded_sec c < reply_renew_sec c \<and> batch_bytes c = 8192"
proof -
  from demo_load obtain c where c: "load_config demo_undeclared ''f'' (Some (print_settings demo_settings)) = Inr c"
    "batch_bytes c = 8192" by blast
  with accepted_config_safe [OF c(1)] show ?thesis by blast
qed

text \<open>
  The caps of \<open>resource_profile=lowmem\<close> are applied last, so no profile and no explicit setting of the file
  exceeds them; and whatever file is accepted has no repeated key and no key the program does not know.
\<close>

theorem lowmem_caps_and_keys:
  assumes "load_config u file content = Inr c"
  shows "(resource_profile c = ''lowmem'' \<longrightarrow> max_record_buffer_bytes c \<le> 131072 \<and> queue_packets c \<le> 512 \<and>
      queue_bytes c \<le> 1048576 \<and> queue_delay_ms c \<le> 250 \<and> batch_packets c \<le> 4 \<and> batch_bytes c \<le> 8192 \<and>
      sndbuf c \<le> 524288 \<and> rcvbuf c \<le> 524288 \<and> stats_interval_sec c \<ge> 10 \<and> max_connections c \<le> 2) \<and>
    (\<exists>body m. content = Some body \<and> parse_lines 1 (text_lines body) [] = Inr m \<and> distinct (map fst m) \<and>
      set (map fst m) \<subseteq> set known_keys)"
proof -
  from assms obtain body m c0 where m: "content = Some body" "parse_lines 1 (text_lines body) [] = Inr m"
    and c0: "c = apply_resource_cap (resource_profile c0) c0" and k: "set (map fst m) \<subseteq> set known_keys"
    and v: "validate_config c = Inr ()" by (rule load_config_Inr) blast
  have "resource_profile c = resource_profile c0" by (simp add: c0 apply_resource_cap_def)
  then have "resource_profile c = ''lowmem'' \<longrightarrow> max_record_buffer_bytes c \<le> 131072 \<and> queue_packets c \<le> 512 \<and>
      queue_bytes c \<le> 1048576 \<and> queue_delay_ms c \<le> 250 \<and> batch_packets c \<le> 4 \<and> batch_bytes c \<le> 8192 \<and>
      sndbuf c \<le> 524288 \<and> rcvbuf c \<le> 524288 \<and> stats_interval_sec c \<ge> 10"
    by (simp add: c0 apply_resource_cap_def)
  with m k parse_lines_keys [OF m(2)] validated_pool [OF v] show ?thesis by auto
qed

theorem lowmem_caps_and_keys_witness:
  "\<exists>c. load_config demo_undeclared ''f'' (Some (print_settings demo_settings)) = Inr c \<and> queue_bytes c \<le> 1048576"
proof -
  from demo_load obtain c where c: "load_config demo_undeclared ''f'' (Some (print_settings demo_settings)) = Inr c"
    "resource_profile c = ''lowmem''" by blast
  with lowmem_caps_and_keys [OF c(1)] show ?thesis by blast
qed

text \<open>
  A file of \<open>key=value\<close> lines is read back as written: with distinct keys, and names and values free of
  newlines, comment signs and outer white space, it is accepted exactly if every key is known and the settings themselves,
  read in the order of \<open>load_config\<close>, give a valid configuration, which is then the result.
\<close>

theorem config_text_roundtrip:
  assumes "printable m" "distinct (map fst m)"
  shows "load_config u file (Some (print_settings m)) = Inr c \<longleftrightarrow>
    read_settings u m = Inr c \<and> set (map fst m) \<subseteq> set known_keys \<and> validate_config c = Inr ()"
  by (rule load_printed [OF assms])

theorem config_text_roundtrip_witness:
  "\<exists>c. load_config demo_undeclared ''f'' (Some (print_settings demo_settings)) = Inr c \<and> mtu c = 1280"
  using config_text_roundtrip [OF demo_printable, of demo_undeclared "''f''"] demo_read demo_keys by blast

end
