(* ===== verification/Crypto.thy ===== *)
theory Crypto
  imports Prelude
begin

text \<open>
  The cryptographic primitives the program takes from OpenSSL. They are not code of the
  repository, so they are one record of functions, an argument of every definition that
  calls them; \<open>None\<close> is a call that OpenSSL reports as failed. The predicates
  \<open>hmac_ok\<close> and \<open>aead_ok\<close> state the documented behaviour a theorem may rely on, and
  \<open>demo_crypto\<close> is a concrete instance on which they hold, used by the witnesses.
\<close>

record crypto =
  hmac_sha256 :: "bytes \<Rightarrow> bytes \<Rightarrow> bytes option"
    \<comment> \<open>\<open>HMAC(EVP_sha256(), key, data)\<close>\<close>
  seal :: "bytes \<Rightarrow> bytes \<Rightarrow> bytes \<Rightarrow> bytes \<Rightarrow> (bytes \<times> bytes) option"
    \<comment> \<open>ChaCha20-Poly1305 with key, nonce, associated data, plaintext: ciphertext and tag\<close>
  unseal :: "bytes \<Rightarrow> bytes \<Rightarrow> bytes \<Rightarrow> bytes \<Rightarrow> bytes \<Rightarrow> bytes option"
    \<comment> \<open>key, nonce, associated data, ciphertext, tag: the plaintext, if the tag verifies\<close>

definition hmac_ok :: "crypto \<Rightarrow> bool" where
  "hmac_ok C \<longleftrightarrow>
     (\<forall>k d. length k \<le> 2147483647 \<longrightarrow> (\<exists>m. hmac_sha256 C k d = Some m \<and> length m = 32))"

definition aead_ok :: "crypto \<Rightarrow> bool" where
  "aead_ok C \<longleftrightarrow>
     (\<forall>k n a p. length k = 32 \<longrightarrow> length n = 12 \<longrightarrow>
        (\<exists>c t. seal C k n a p = Some (c, t) \<and> length c = length p \<and> length t = 16 \<and>
               unseal C k n a c t = Some p))"

lemma aead_okE:
  assumes "aead_ok C" "length k = 32" "length n = 12"
  obtains c t where "seal C k n a p = Some (c, t)" "length c = length p" "length t = 16"
    "unseal C k n a c t = Some p"
  using assms unfolding aead_ok_def by blast

lemma hmac_okE:
  assumes "hmac_ok C" "length k \<le> 2147483647"
  obtains m where "hmac_sha256 C k d = Some m" "length m = 32"
  using assms unfolding hmac_ok_def by blast

section \<open>A concrete instance\<close>

text \<open>
  A checksum in place of the MAC and the identity in place of the stream cipher: enough to
  evaluate the model on concrete records, since tampering with a byte changes the tag.
\<close>

definition demo_sum :: "bytes \<Rightarrow> byte" where
  "demo_sum bs = foldl (\<lambda>a x. a * 5 + x + 1) 7 bs"

definition demo_crypto :: crypto where
  "demo_crypto = \<lparr>
     hmac_sha256 = (\<lambda>k d. Some (replicate 32 (demo_sum (k @ d)))),
     seal = (\<lambda>k n a p. Some (p, replicate 16 (demo_sum (k @ n @ a @ p)))),
     unseal = (\<lambda>k n a c t. if t = replicate 16 (demo_sum (k @ n @ a @ c)) then Some c else None)\<rparr>"

lemma demo_hmac_ok [simp]: "hmac_ok demo_crypto"
  by (simp add: hmac_ok_def demo_crypto_def)

lemma demo_aead_ok [simp]: "aead_ok demo_crypto"
  by (simp add: aead_ok_def demo_crypto_def)

end
