(* ===== verification/Records.thy ===== *)
theory Records
  imports Crypto
begin

text \<open>
  The authenticated record layer, \<open>src/cdn/src/record.cpp\<close> and
  \<open>src/cdn/include/pacetun/record.hpp\<close>: the hexadecimal codec, the record shapes, the three
  encoders (PTT3 with an HMAC, PTT4 and PTT5 with ChaCha20-Poly1305), the padded and envelope
  records of PTT5, and the streaming decoders with their replay window and gap counter.
\<close>

section \<open>Errors\<close>

text \<open>Every exception and every error string of \<open>record.cpp\<close>, one constructor each.\<close>

datatype wire = PTT4 | PTT5

datatype record_error =
    HmacKeyTooLarge | HmacFailed | InvalidHex | AeadKeyLength | SequenceExhausted
  | PacketTooLarge | EncryptFailed
  | InvalidEnvelopeLength | InvalidPaddedLength | InvalidDrainLength
  | UnknownFlags wire | AmbiguousFlags wire | InvalidInnerLength | InvalidKeepalive
  | InvalidControl
  | PaddingOutOfRange | InvalidPaddedSize | PaddingRngFailed
  | InvalidEnvelopeFlags | InvalidEnvelopeSize
  | BufferLimit | RecordMismatch wire | ExceedsBuffer | InvalidSequence | AuthFailed
  | ReplayDetected | InvalidEnvelopePayload | InvalidPaddedPayload
  | V3MagicMismatch | V3Version | V3InvalidKeepalive | V3InvalidControl | V3UnknownFlags
  | V3ExceedsBuffer | V3Replay
  | KeyNot32 | KeyHexNot32
  | NonceNot32 | KeyMaterialNot32 | CannotOpenPsk | PskTooShort | RandFailed
  | X25519KeyLength | X25519Failed

section \<open>Hexadecimal\<close>

text \<open>\<open>hex_nibble\<close> returns -1 for a character that is no hexadecimal digit: \<open>None\<close> here.\<close>

definition hex_nibble :: "byte \<Rightarrow> nat option" where
  "hex_nibble c =
     (if 48 \<le> c \<and> c \<le> 57 then Some (unat c - 48)
      else if 97 \<le> c \<and> c \<le> 102 then Some (unat c - 97 + 10)
      else if 65 \<le> c \<and> c \<le> 70 then Some (unat c - 65 + 10)
      else None)"

fun hex_pairs :: "bytes \<Rightarrow> (record_error, bytes) result" where
  "hex_pairs (h # l # s) =
     (case (hex_nibble h, hex_nibble l) of
        (Some hi, Some lo) \<Rightarrow> andThen (hex_pairs s) (\<lambda>v. Inr (word_of_nat (hi * 16 + lo) # v))
      | _ \<Rightarrow> Inl InvalidHex)"
| "hex_pairs _ = Inr []"

definition hex_decode :: "bytes \<Rightarrow> (record_error, bytes) result" where
  "hex_decode s = (if length s mod 2 \<noteq> 0 then Inl InvalidHex else hex_pairs s)"

definition hex_digit :: "nat \<Rightarrow> byte" where
  "hex_digit n = (if n < 10 then word_of_nat (48 + n) else word_of_nat (97 + (n - 10)))"

definition hex_encode :: "bytes \<Rightarrow> bytes" where
  "hex_encode v = concat (map (\<lambda>b. [hex_digit (unat b div 16), hex_digit (unat b mod 16)]) v)"

definition key32_hex :: "bytes \<Rightarrow> (record_error, bytes) result" where
  "key32_hex k = (if length k \<noteq> 32 then Inl KeyNot32 else Inr (hex_encode k))"

definition key32_from_hex :: "bytes \<Rightarrow> (record_error, bytes) result" where
  "key32_from_hex hex =
     andThen (hex_decode hex) (\<lambda>v. if length v \<noteq> 32 then Inl KeyHexNot32 else Inr v)"

lemma hex_nibble_digit: "n < 16 \<Longrightarrow> hex_nibble (hex_digit n) = Some n"
proof -
  have "\<forall>n \<in> set [0..<16]. hex_nibble (hex_digit n) = Some n"
    by (simp add: upt_rec hex_nibble_def hex_digit_def)
  then show "n < 16 \<Longrightarrow> hex_nibble (hex_digit n) = Some n" by simp
qed

lemma byte_div16: "unat (b :: byte) div 16 < 16"
  using byte_less [of b] by linarith

lemma hex_pairs_encode: "hex_pairs (hex_encode v) = Inr v"
proof (induction v)
  case Nil
  show ?case by (simp add: hex_encode_def)
next
  case (Cons b v)
  have "unat b div 16 * 16 + unat b mod 16 = unat b" by simp
  then have "(word_of_nat (unat b div 16 * 16 + unat b mod 16) :: byte) = b" by simp
  moreover have "hex_encode (b # v) =
      hex_digit (unat b div 16) # hex_digit (unat b mod 16) # hex_encode v"
    by (simp add: hex_encode_def)
  ultimately show ?case
    using Cons.IH by (simp only: hex_pairs.simps hex_nibble_digit byte_div16) (simp add: hex_nibble_digit)
qed

lemma length_hex_encode [simp]: "length (hex_encode v) = 2 * length v"
  by (induction v) (simp_all add: hex_encode_def)

lemma hex_decode_encode: "hex_decode (hex_encode v) = Inr v"
  by (simp add: hex_decode_def hex_pairs_encode)

lemma length_hex_pairs:
  "hex_pairs s = Inr v \<Longrightarrow> even (length s) \<Longrightarrow> length s = 2 * length v"
  by (induction s arbitrary: v rule: hex_pairs.induct)
     (auto simp: result_iff split: option.splits)

lemma length_hex_decode: "hex_decode s = Inr v \<Longrightarrow> length s = 2 * length v"
  by (auto simp: hex_decode_def split: if_splits intro: length_hex_pairs)


section \<open>Flags, wires and record shapes\<close>

definition RECORD_KEEPALIVE :: byte where "RECORD_KEEPALIVE = 0x01"
definition RECORD_PING :: byte where "RECORD_PING = 0x02"
definition RECORD_PONG :: byte where "RECORD_PONG = 0x04"
definition RECORD_DRAIN :: byte where "RECORD_DRAIN = 0x08"
definition RECORD_PADDED :: byte where "RECORD_PADDED = 0x10"
definition RECORD_ENVELOPE :: byte where "RECORD_ENVELOPE = 0x20"

lemmas record_flags = RECORD_KEEPALIVE_def RECORD_PING_def RECORD_PONG_def RECORD_DRAIN_def
  RECORD_PADDED_def RECORD_ENVELOPE_def

text \<open>Character literals of the source as bytes.\<close>

definition str :: "string \<Rightarrow> bytes" where
  "str s = map of_char s"

definition magic4 :: "wire \<Rightarrow> byte" where
  "magic4 w = (case w of PTT4 \<Rightarrow> of_char (CHR ''4'') | PTT5 \<Rightarrow> of_char (CHR ''5''))"

definition wire_version :: "wire \<Rightarrow> byte" where
  "wire_version w = (case w of PTT4 \<Rightarrow> 4 | PTT5 \<Rightarrow> 5)"

definition nonce_label :: "wire \<Rightarrow> bytes" where
  "nonce_label w = (case w of PTT4 \<Rightarrow> str ''pacetun-v4-nonce'' | PTT5 \<Rightarrow> str ''pacetun-v5-nonce'')"

definition validate_record_shape :: "byte \<Rightarrow> nat \<Rightarrow> wire \<Rightarrow> (record_error, unit) result" where
  "validate_record_shape flags len w =
     (if flags = RECORD_ENVELOPE \<and> w = PTT5 then check (3 \<le> len) InvalidEnvelopeLength
      else if flags = RECORD_PADDED \<and> w = PTT5 then check (22 \<le> len) InvalidPaddedLength
      else if flags = RECORD_DRAIN \<and> w = PTT5 then check (len = 0) InvalidDrainLength
      else if flags AND NOT (RECORD_KEEPALIVE OR RECORD_PING OR RECORD_PONG) \<noteq> 0
        then Inl (UnknownFlags w)
      else if flags \<noteq> 0 \<and> flags \<noteq> RECORD_KEEPALIVE \<and> flags \<noteq> RECORD_PING \<and> flags \<noteq> RECORD_PONG
        then Inl (AmbiguousFlags w)
      else if flags = 0 \<and> len < 20 then Inl InvalidInnerLength
      else if flags = RECORD_KEEPALIVE \<and> len \<noteq> 0 then Inl InvalidKeepalive
      else if (flags = RECORD_PING \<or> flags = RECORD_PONG) \<and> len \<noteq> 8 then Inl InvalidControl
      else Inr ())"

text \<open>The records the receiver's callback may see, and the shapes of the wire.\<close>

definition inner_shape :: "byte \<Rightarrow> nat \<Rightarrow> bool" where
  "inner_shape flags len \<longleftrightarrow>
     (flags = 0 \<and> 20 \<le> len) \<or> (flags = RECORD_KEEPALIVE \<and> len = 0) \<or>
     ((flags = RECORD_PING \<or> flags = RECORD_PONG) \<and> len = 8)"

definition wire_shape :: "byte \<Rightarrow> nat \<Rightarrow> wire \<Rightarrow> bool" where
  "wire_shape flags len w \<longleftrightarrow>
     inner_shape flags len \<or>
     (w = PTT5 \<and> ((flags = RECORD_ENVELOPE \<and> 3 \<le> len) \<or> (flags = RECORD_PADDED \<and> 22 \<le> len) \<or>
                  (flags = RECORD_DRAIN \<and> len = 0)))"

lemma validate_record_shape_iff [result_iff]:
  "validate_record_shape flags len w = Inr u \<longleftrightarrow> wire_shape flags len w"
  by (auto simp: validate_record_shape_def wire_shape_def inner_shape_def record_flags check_def)

lemma validate_record_shape_ok: "wire_shape flags len w \<Longrightarrow> validate_record_shape flags len w = Inr ()"
  by (simp add: result_iff)

section \<open>MAC, nonce and header\<close>

definition mac :: "crypto \<Rightarrow> bytes \<Rightarrow> bytes \<Rightarrow> (record_error, bytes) result" where
  "mac C key data =
     (if length key > 2147483647 then Inl HmacKeyTooLarge
      else case hmac_sha256 C key data of
             None \<Rightarrow> Inl HmacFailed
           | Some m \<Rightarrow> if length m \<noteq> 32 then Inl HmacFailed else Inr m)"

definition nonce12_label :: "crypto \<Rightarrow> bytes \<Rightarrow> u64 \<Rightarrow> bytes \<Rightarrow> (record_error, bytes) result" where
  "nonce12_label C key seq label =
     andThen (mac C key label) (\<lambda>p. Inr (take 4 p @ be64 seq))"

text \<open>The sixteen bytes before the payload: magic, version, flags, length, sequence number.\<close>

definition record_header :: "byte \<Rightarrow> byte \<Rightarrow> byte \<Rightarrow> nat \<Rightarrow> u64 \<Rightarrow> bytes" where
  "record_header m v flags len seq = str ''PTT'' @ [m, v, flags] @ be16 len @ be64 seq"

lemma length_record_header [simp]: "length (record_header m v flags len seq) = 16"
  by (simp add: record_header_def str_def)

lemma mac_ok: "hmac_ok C \<Longrightarrow> length key \<le> 2147483647 \<Longrightarrow> \<exists>m. mac C key d = Inr m \<and> length m = 32"
  by (elim hmac_okE [of C key d]) (simp_all add: mac_def)

lemma length_mac: "mac C key d = Inr m \<Longrightarrow> length m = 32"
  by (auto simp: mac_def split: if_splits option.splits)

lemma length_nonce12: "nonce12_label C key seq l = Inr n \<Longrightarrow> length n = 12"
  by (auto simp: nonce12_label_def result_iff dest!: length_mac)

lemma nonce12_ok:
  "hmac_ok C \<Longrightarrow> length key = 32 \<Longrightarrow> \<exists>n. nonce12_label C key seq l = Inr n \<and> length n = 12"
  using mac_ok [of C key l] by (auto simp: nonce12_label_def)

section \<open>Encoders\<close>

definition encode_aead_record ::
    "crypto \<Rightarrow> wire \<Rightarrow> bytes \<Rightarrow> u64 \<Rightarrow> bytes \<Rightarrow> byte \<Rightarrow> (record_error, bytes) result" where
  "encode_aead_record C w key seq payload flags =
     (if length key \<noteq> 32 then Inl AeadKeyLength
      else if seq = 0 then Inl SequenceExhausted
      else if length payload > 65535 then Inl PacketTooLarge
      else andThen (validate_record_shape flags (length payload) w) (\<lambda>_.
        let v = record_header (magic4 w) (wire_version w) flags (length payload) seq in
        andThen (nonce12_label C key seq (nonce_label w)) (\<lambda>n.
          case seal C key n v payload of
            None \<Rightarrow> Inl EncryptFailed
          | Some (c, t) \<Rightarrow>
              if length c \<noteq> length payload \<or> length t \<noteq> 16 then Inl EncryptFailed
              else Inr (v @ c @ t))))"

definition encode_record_v4 :: "crypto \<Rightarrow> bytes \<Rightarrow> u64 \<Rightarrow> bytes \<Rightarrow> byte \<Rightarrow> (record_error, bytes) result" where
  "encode_record_v4 C = encode_aead_record C PTT4"

definition encode_record_v5 :: "crypto \<Rightarrow> bytes \<Rightarrow> u64 \<Rightarrow> bytes \<Rightarrow> byte \<Rightarrow> (record_error, bytes) result" where
  "encode_record_v5 C = encode_aead_record C PTT5"

text \<open>PTT3: no shape check, no check of the sequence number, the first 16 bytes of the HMAC.\<close>

definition encode_record :: "crypto \<Rightarrow> bytes \<Rightarrow> u64 \<Rightarrow> bytes \<Rightarrow> byte \<Rightarrow> (record_error, bytes) result" where
  "encode_record C key seq payload flags =
     (if length payload > 65535 then Inl PacketTooLarge
      else let v = record_header (of_char (CHR ''3'')) 3 flags (length payload) seq @ payload in
        andThen (mac C key v) (\<lambda>m. Inr (v @ take 16 m)))"

text \<open>
  \<open>rng k n\<close> is the result of the \<open>k\<close>-th call \<open>RAND_bytes(buf, n)\<close> of an encoder, \<open>None\<close> a failed
  call. The pad length is two random bytes modulo \<open>max_padding + 1\<close>.
\<close>

definition draw_pad :: "(nat \<Rightarrow> nat \<Rightarrow> bytes option) \<Rightarrow> int \<Rightarrow> (record_error, bytes) result" where
  "draw_pad rng max_padding =
     andThen (ofOption PaddingRngFailed (rng 0 2)) (\<lambda>r.
       let pad = rd16 (r ! 0) (r ! 1) mod nat (max_padding + 1) in
       if pad = 0 then Inr [] else ofOption PaddingRngFailed (rng 1 pad))"

definition encode_padded_record_v5 ::
    "crypto \<Rightarrow> (nat \<Rightarrow> nat \<Rightarrow> bytes option) \<Rightarrow> bytes \<Rightarrow> u64 \<Rightarrow> bytes \<Rightarrow> int \<Rightarrow> (record_error, bytes) result" where
  "encode_padded_record_v5 C rng key seq payload max_padding =
     (if max_padding < 0 \<or> max_padding > 1024 then Inl PaddingOutOfRange
      else if max_padding = 0 then encode_record_v5 C key seq payload 0
      else if length payload < 20 \<or> length payload + 2 + nat max_padding > 65535 then Inl InvalidPaddedSize
      else andThen (draw_pad rng max_padding) (\<lambda>tail.
        encode_record_v5 C key seq (be16 (length payload) @ payload @ tail) RECORD_PADDED))"

definition encode_envelope_record_v5 ::
    "crypto \<Rightarrow> (nat \<Rightarrow> nat \<Rightarrow> bytes option) \<Rightarrow> bytes \<Rightarrow> u64 \<Rightarrow> bytes \<Rightarrow> byte \<Rightarrow> int \<Rightarrow>
     (record_error, bytes) result" where
  "encode_envelope_record_v5 C rng key seq payload flags max_padding =
     (if flags \<noteq> 0 \<and> flags \<noteq> RECORD_KEEPALIVE \<and> flags \<noteq> RECORD_PING \<and> flags \<noteq> RECORD_PONG
        then Inl InvalidEnvelopeFlags
      else if max_padding < 0 \<or> max_padding > 1024 \<or> length payload + 3 + nat max_padding > 65535
        then Inl InvalidEnvelopeSize
      else andThen (validate_record_shape flags (length payload) PTT5) (\<lambda>_.
        andThen (draw_pad rng max_padding) (\<lambda>tail.
          encode_record_v5 C key seq ([flags] @ be16 (length payload) @ payload @ tail) RECORD_ENVELOPE)))"


section \<open>Decoders\<close>

text \<open>
  The members of \<open>RecordDecoder\<close>, \<open>RecordDecoderV4\<close> and \<open>RecordDecoderV5\<close>, which have the same
  fields. The counters are 64-bit words, as in the source.
\<close>

record decoder =
  dec_key :: bytes
  dec_buffer :: bytes
  dec_max :: nat
  have_seq :: bool
  highest_seq :: u64
  replay_drops :: u64
  sequence_gaps :: u64

definition new_decoder :: "bytes \<Rightarrow> nat \<Rightarrow> decoder" where
  "new_decoder key max_buffer =
     \<lparr>dec_key = key, dec_buffer = [], dec_max = max_buffer, have_seq = False, highest_seq = 0,
      replay_drops = 0, sequence_gaps = 0\<rparr>"

text \<open>
  One turn of the loop of \<open>feed\<close>: it waits for more bytes, refuses (\<open>error = ...; return false\<close>),
  lets an exception of the MAC escape, or hands one record to the callback.
\<close>

type_synonym delivery = "byte \<times> u64 \<times> bytes"

datatype dec_step =
    NeedMore
  | Refuse decoder record_error
  | Raise record_error
  | Deliver decoder delivery

datatype feed_outcome = FeedOk | FeedError record_error | FeedThrow record_error

type_synonym feed_result = "decoder \<times> delivery list \<times> feed_outcome"

definition accept_seq :: "decoder \<Rightarrow> u64 \<Rightarrow> decoder" where
  "accept_seq d seq =
     d\<lparr>sequence_gaps := (if have_seq d \<and> seq > highest_seq d + 1
                          then sequence_gaps d + (seq - highest_seq d - 1) else sequence_gaps d),
       highest_seq := seq, have_seq := True\<rparr>"

text \<open>The plaintext of an authenticated record: what the callback gets, or the error.\<close>

definition open_payload :: "byte \<Rightarrow> bytes \<Rightarrow> (record_error, byte \<times> bytes) result" where
  "open_payload flags plain =
     (if flags = RECORD_ENVELOPE then
        let inner_flags = plain ! 0; inner = rd16 (plain ! 1) (plain ! 2) in
        if (inner_flags \<noteq> 0 \<and> inner_flags \<noteq> RECORD_KEEPALIVE \<and> inner_flags \<noteq> RECORD_PING \<and>
            inner_flags \<noteq> RECORD_PONG) \<or>
           inner > length plain - 3 \<or> length plain - 3 - inner > 1024
        then Inl InvalidEnvelopePayload
        else andThen (validate_record_shape inner_flags inner PTT5)
               (\<lambda>_. Inr (inner_flags, take inner (drop 3 plain)))
      else if flags = RECORD_PADDED then
        let inner = rd16 (plain ! 0) (plain ! 1) in
        if inner < 20 \<or> inner > length plain - 2 \<or> length plain - 2 - inner > 1024
        then Inl InvalidPaddedPayload
        else Inr (0, take inner (drop 2 plain))
      else Inr (flags, plain))"

text \<open>The checks of a complete header, before any length is compared with the buffer.\<close>

definition aead_header :: "wire \<Rightarrow> bytes \<Rightarrow> (record_error, unit) result" where
  "aead_header w b =
     (if take 3 b \<noteq> str ''PTT'' \<or> b ! 3 \<noteq> magic4 w \<or> b ! 4 \<noteq> wire_version w
      then Inl (RecordMismatch w)
      else validate_record_shape (b ! 5) (rd16 (b ! 6) (b ! 7)) w)"

definition v3_header :: "bytes \<Rightarrow> (record_error, unit) result" where
  "v3_header b =
     (if take 3 b \<noteq> str ''PTT'' \<or> b ! 3 \<noteq> of_char (CHR ''3'') then Inl V3MagicMismatch
      else if b ! 4 \<noteq> 3 then Inl V3Version
      else let flags = b ! 5; len = rd16 (b ! 6) (b ! 7) in
      if flags = 0 \<and> len < 20 then Inl InvalidInnerLength
      else if flags AND RECORD_KEEPALIVE \<noteq> 0 \<and> len \<noteq> 0 then Inl V3InvalidKeepalive
      else if flags AND (RECORD_PING OR RECORD_PONG) \<noteq> 0 \<and> len \<noteq> 8 then Inl V3InvalidControl
      else check (flags AND NOT (RECORD_KEEPALIVE OR RECORD_PING OR RECORD_PONG) = 0) V3UnknownFlags)"

definition aead_step :: "crypto \<Rightarrow> wire \<Rightarrow> decoder \<Rightarrow> dec_step" where
  "aead_step C w d =
     (let b = dec_buffer d in
      if length b < 16 then NeedMore
      else case aead_header w b of
        Inl e \<Rightarrow> Refuse d e
      | Inr _ \<Rightarrow>
        let flags = b ! 5; len = rd16 (b ! 6) (b ! 7); total = 16 + len + 16 in
        if total > dec_max d then Refuse d ExceedsBuffer
        else if length b < total then NeedMore
        else let seq = rd64 (take 8 (drop 8 b)) in
        if seq = 0 then Refuse d InvalidSequence
        else case nonce12_label C (dec_key d) seq (nonce_label w) of
          Inl e \<Rightarrow> Raise e
        | Inr n \<Rightarrow>
          case unseal C (dec_key d) n (take 16 b) (take len (drop 16 b)) (take 16 (drop (16 + len) b)) of
            None \<Rightarrow> Refuse d AuthFailed
          | Some plain \<Rightarrow>
            if length plain \<noteq> len then Refuse d AuthFailed
            else if have_seq d \<and> seq \<le> highest_seq d
              then Refuse (d\<lparr>replay_drops := replay_drops d + 1\<rparr>) ReplayDetected
            else case open_payload flags plain of
                Inl e \<Rightarrow> Refuse (accept_seq d seq) e
              | Inr (f, p) \<Rightarrow>
                  Deliver ((accept_seq d seq)\<lparr>dec_buffer := drop total b\<rparr>) (f, seq, p))"

definition v3_step :: "crypto \<Rightarrow> decoder \<Rightarrow> dec_step" where
  "v3_step C d =
     (let b = dec_buffer d in
      if length b < 16 then NeedMore
      else case v3_header b of
        Inl e \<Rightarrow> Refuse d e
      | Inr _ \<Rightarrow>
        let flags = b ! 5; len = rd16 (b ! 6) (b ! 7); total = 16 + len + 16 in
        if total > dec_max d then Refuse d V3ExceedsBuffer
        else if length b < total then NeedMore
        else case mac C (dec_key d) (take (total - 16) b) of
          Inl e \<Rightarrow> Raise e
        | Inr m \<Rightarrow>
          if take 16 m \<noteq> take 16 (drop (total - 16) b) then Refuse d AuthFailed
          else let seq = rd64 (take 8 (drop 8 b)) in
          if have_seq d \<and> seq \<le> highest_seq d
            then Refuse (d\<lparr>replay_drops := replay_drops d + 1\<rparr>) V3Replay
          else Deliver ((accept_seq d seq)\<lparr>dec_buffer := drop total b\<rparr>)
                 (flags, seq, take len (drop 16 b)))"

text \<open>The loops end because every delivery takes at least the sixteen header bytes off the buffer.\<close>

lemma aead_step_shrinks:
  "aead_step C w d = Deliver d' r \<Longrightarrow> length (dec_buffer d') < length (dec_buffer d)"
  by (auto simp: aead_step_def Let_def split: if_splits sum.splits option.splits prod.splits)

lemma v3_step_shrinks:
  "v3_step C d = Deliver d' r \<Longrightarrow> length (dec_buffer d') < length (dec_buffer d)"
  by (auto simp: v3_step_def Let_def split: if_splits sum.splits)

function aead_loop :: "crypto \<Rightarrow> wire \<Rightarrow> decoder \<Rightarrow> feed_result" where
  "aead_loop C w d =
     (case aead_step C w d of
        NeedMore \<Rightarrow> (d, [], FeedOk)
      | Refuse d' e \<Rightarrow> (d', [], FeedError e)
      | Raise e \<Rightarrow> (d, [], FeedThrow e)
      | Deliver d' r \<Rightarrow> (case aead_loop C w d' of (d'', rs, out) \<Rightarrow> (d'', r # rs, out)))"
  by pat_completeness auto
termination
  by (relation "measure (\<lambda>(C, w, d). length (dec_buffer d))") (auto intro: aead_step_shrinks)

function v3_loop :: "crypto \<Rightarrow> decoder \<Rightarrow> feed_result" where
  "v3_loop C d =
     (case v3_step C d of
        NeedMore \<Rightarrow> (d, [], FeedOk)
      | Refuse d' e \<Rightarrow> (d', [], FeedError e)
      | Raise e \<Rightarrow> (d, [], FeedThrow e)
      | Deliver d' r \<Rightarrow> (case v3_loop C d' of (d'', rs, out) \<Rightarrow> (d'', r # rs, out)))"
  by pat_completeness auto
termination
  by (relation "measure (\<lambda>(C, d). length (dec_buffer d))") (auto intro: v3_step_shrinks)

declare aead_loop.simps [simp del] v3_loop.simps [simp del]

definition feed_aead :: "crypto \<Rightarrow> wire \<Rightarrow> decoder \<Rightarrow> bytes \<Rightarrow> feed_result" where
  "feed_aead C w d bs =
     (if length (dec_buffer d) + length bs > dec_max d then (d, [], FeedError BufferLimit)
      else aead_loop C w (d\<lparr>dec_buffer := dec_buffer d @ bs\<rparr>))"

definition feed_v4 :: "crypto \<Rightarrow> decoder \<Rightarrow> bytes \<Rightarrow> feed_result" where
  "feed_v4 C = feed_aead C PTT4"

definition feed_v5 :: "crypto \<Rightarrow> decoder \<Rightarrow> bytes \<Rightarrow> feed_result" where
  "feed_v5 C = feed_aead C PTT5"

definition feed_v3 :: "crypto \<Rightarrow> decoder \<Rightarrow> bytes \<Rightarrow> feed_result" where
  "feed_v3 C d bs =
     (if length (dec_buffer d) + length bs > dec_max d then (d, [], FeedError BufferLimit)
      else v3_loop C (d\<lparr>dec_buffer := dec_buffer d @ bs\<rparr>))"

end
