(* ===== verification/Keys.thy ===== *)
theory Keys
  imports Records
begin

text \<open>
  Key material of \<open>src/cdn/src/record.cpp\<close>: the pre-shared key, the session keys of the three wires and
  the tokens of the handshakes. SHA-256 and X25519 are OpenSSL functions and fields of \<open>kex\<close>, which
  extends the record of primitives by a \<open>base\<close> component.
\<close>

section \<open>Primitives\<close>

record kex =
  base :: crypto
  sha256 :: "bytes \<Rightarrow> bytes"
  x25519 :: "bytes \<Rightarrow> bytes \<Rightarrow> bytes option"
    \<comment> \<open>\<open>EVP_PKEY_derive\<close>: private key, peer's public key\<close>
  x25519_pub :: "bytes \<Rightarrow> bytes"
    \<comment> \<open>the public key \<open>EVP_PKEY_keygen\<close> exports with a private key\<close>
  sha1 :: "bytes \<Rightarrow> bytes"
  b64_encode :: "bytes \<Rightarrow> string"
    \<comment> \<open>\<open>EVP_EncodeBlock\<close>\<close>
  b64_decoded :: "string \<Rightarrow> int"
    \<comment> \<open>what \<open>EVP_DecodeBlock\<close> returns, negative for malformed input\<close>

text \<open>
  Documented behaviour: digests have 32 bytes, and the two sides of an X25519 exchange derive the
  same non-zero secret.
\<close>

definition kex_ok :: "kex \<Rightarrow> bool" where
  "kex_ok H \<longleftrightarrow> hmac_ok (base H) \<and> (\<forall>d. length (sha256 H d) = 32) \<and>
     (\<forall>a. length a = 32 \<longrightarrow> length (x25519_pub H a) = 32) \<and>
     (\<forall>a b. length a = 32 \<longrightarrow> length b = 32 \<longrightarrow>
        (\<exists>s. x25519 H a (x25519_pub H b) = Some s \<and> x25519 H b (x25519_pub H a) = Some s \<and>
             length s = 32 \<and> (\<exists>x \<in> set s. x \<noteq> 0)))"

section \<open>The pre-shared key and nonces\<close>

text \<open>The file is \<open>None\<close> when it cannot be opened.\<close>

definition read_psk :: "bytes option \<Rightarrow> (record_error, bytes) result" where
  "read_psk content =
     andThen (ofOption CannotOpenPsk content) (\<lambda>v.
       let k = rev (dropWhile (\<lambda>b. b \<in> {10, 13, 32, 9}) (rev v)) in
       if length k < 32 then Inl PskTooShort else Inr k)"

text \<open>The argument is the outcome of \<open>RAND_bytes\<close> for 32 bytes.\<close>

definition random_nonce_hex :: "bytes option \<Rightarrow> (record_error, bytes) result" where
  "random_nonce_hex drawn = andThen (ofOption RandFailed drawn) (\<lambda>b. Inr (hex_encode b))"

section \<open>Session keys\<close>

record session_keys =
  client_tx :: bytes
  server_tx :: bytes
  auth :: bytes

definition hkdf_expand_one :: "crypto \<Rightarrow> bytes \<Rightarrow> bytes \<Rightarrow> (record_error, bytes) result" where
  "hkdf_expand_one C prk label = mac C prk (label @ [1])"

definition expand_keys :: "crypto \<Rightarrow> bytes \<Rightarrow> bytes \<Rightarrow> bytes \<Rightarrow> bytes \<Rightarrow> (record_error, session_keys) result" where
  "expand_keys C prk lc ls la =
     andThen (hkdf_expand_one C prk lc) (\<lambda>kc.
     andThen (hkdf_expand_one C prk ls) (\<lambda>ks.
     andThen (hkdf_expand_one C prk la) (\<lambda>ka.
     Inr \<lparr>client_tx = kc, server_tx = ks, auth = ka\<rparr>)))"

definition decode_nonces :: "bytes \<Rightarrow> bytes \<Rightarrow> (record_error, bytes \<times> bytes) result" where
  "decode_nonces snonce cnonce =
     andThen (hex_decode snonce) (\<lambda>s. andThen (hex_decode cnonce) (\<lambda>c.
       if length s \<noteq> 32 \<or> length c \<noteq> 32 then Inl NonceNot32 else Inr (s, c)))"

definition derive_session_keys :: "crypto \<Rightarrow> bytes \<Rightarrow> bytes \<Rightarrow> bytes \<Rightarrow> (record_error, session_keys) result" where
  "derive_session_keys C psk snonce cnonce =
     andThen (decode_nonces snonce cnonce) (\<lambda>(s, c).
     andThen (mac C (s @ c) psk) (\<lambda>prk.
     expand_keys C prk (str ''pacetun-v3 client-to-server'') (str ''pacetun-v3 server-to-client'')
       (str ''pacetun-v3 handshake-auth'')))"

definition derive_session_keys_v4 :: "crypto \<Rightarrow> bytes \<Rightarrow> bytes \<Rightarrow> bytes \<Rightarrow> (record_error, session_keys) result" where
  "derive_session_keys_v4 C psk snonce cnonce =
     andThen (decode_nonces snonce cnonce) (\<lambda>(s, c).
     andThen (mac C (s @ c) psk) (\<lambda>prk.
     expand_keys C prk (str ''pacetun-v4 client-to-server'') (str ''pacetun-v4 server-to-client'')
       (str ''pacetun-v4 handshake-auth'')))"

definition derive_session_keys_v5 :: "kex \<Rightarrow> bytes \<Rightarrow> bytes \<Rightarrow> bytes \<Rightarrow> bytes \<Rightarrow> bytes \<Rightarrow> bytes \<Rightarrow>
    (record_error, session_keys) result" where
  "derive_session_keys_v5 H psk shared snonce cnonce cpub spub =
     (if length shared \<noteq> 32 \<or> length cpub \<noteq> 32 \<or> length spub \<noteq> 32 then Inl KeyMaterialNot32
      else andThen (decode_nonces snonce cnonce) (\<lambda>(s, c).
        let transcript = str ''PaceTun-PTT5'' @ s @ c @ cpub @ spub;
            salt = sha256 H transcript in
        andThen (mac (base H) salt (shared @ psk)) (\<lambda>prk.
        expand_keys (base H) prk (str ''pacetun-v5 client-to-server'') (str ''pacetun-v5 server-to-client'')
          (str ''pacetun-v5 transcript-auth''))))"

definition x25519_shared_secret :: "kex \<Rightarrow> bytes \<Rightarrow> bytes \<Rightarrow> (record_error, bytes) result" where
  "x25519_shared_secret H private_key peer_public_key =
     (if length private_key \<noteq> 32 \<or> length peer_public_key \<noteq> 32 then Inl X25519KeyLength
      else case x25519 H private_key peer_public_key of
        None \<Rightarrow> Inl X25519Failed
      | Some out \<Rightarrow> if length out \<noteq> 32 \<or> (\<forall>b \<in> set out. b = 0) then Inl X25519Failed else Inr out)"

section \<open>Handshake tokens\<close>

definition nl :: bytes where "nl = [10]"

definition handshake_token :: "crypto \<Rightarrow> bytes \<Rightarrow> bytes \<Rightarrow> bytes \<Rightarrow> bytes \<Rightarrow> bytes \<Rightarrow> (record_error, bytes) result" where
  "handshake_token C auth_key authority path snonce cnonce =
     andThen (mac C auth_key (str ''pacetun-tls-v3'' @ nl @ authority @ nl @ path @ nl @ snonce @ nl @ cnonce))
       (\<lambda>m. Inr (hex_encode m))"

definition websocket_auth_token :: "crypto \<Rightarrow> bytes \<Rightarrow> bytes \<Rightarrow> bytes \<Rightarrow> bytes \<Rightarrow> (record_error, bytes) result" where
  "websocket_auth_token C psk authority path cnonce =
     andThen (mac C psk (str ''pacetun-websocket-v4'' @ nl @ authority @ nl @ path @ nl @ cnonce)) (\<lambda>m. Inr (hex_encode m))"

definition client_transcript :: "bytes \<Rightarrow> bytes \<Rightarrow> bytes \<Rightarrow> bytes \<Rightarrow> bytes" where
  "client_transcript authority path cnonce cpub =
     str ''pacetun-websocket-v5-client'' @ nl @ authority @ nl @ path @ nl @ cnonce @ nl @ cpub"

definition websocket_client_auth_token_v5 :: "crypto \<Rightarrow> bytes \<Rightarrow> bytes \<Rightarrow> bytes \<Rightarrow> bytes \<Rightarrow> bytes \<Rightarrow>
    (record_error, bytes) result" where
  "websocket_client_auth_token_v5 C psk authority path cnonce cpub =
     andThen (mac C psk (client_transcript authority path cnonce cpub)) (\<lambda>m. Inr (hex_encode m))"

definition server_transcript :: "bytes \<Rightarrow> bytes \<Rightarrow> bytes \<Rightarrow> bytes \<Rightarrow> bytes \<Rightarrow> bytes \<Rightarrow> bytes" where
  "server_transcript authority path cnonce snonce cpub spub =
     str ''pacetun-websocket-v5-server'' @ nl @ authority @ nl @ path @ nl @ cnonce @ nl @ snonce @ nl @ cpub @ nl @ spub"

definition websocket_server_proof_v5 :: "crypto \<Rightarrow> bytes \<Rightarrow> bytes \<Rightarrow> bytes \<Rightarrow> bytes \<Rightarrow> bytes \<Rightarrow> bytes \<Rightarrow> bytes \<Rightarrow>
    (record_error, bytes) result" where
  "websocket_server_proof_v5 C psk authority path cnonce snonce cpub spub =
     andThen (mac C psk (server_transcript authority path cnonce snonce cpub spub)) (\<lambda>m. Inr (hex_encode m))"

section \<open>Facts\<close>

lemma hex_encode_inj:
  assumes "hex_encode a = hex_encode b"
  shows "a = b"
proof -
  from assms have "hex_decode (hex_encode a) = hex_decode (hex_encode b)" by (rule arg_cong)
  then show ?thesis by (simp only: hex_decode_encode sum.inject)
qed

lemma expand_keys_ok:
  assumes "hmac_ok C" "length prk = 32"
  shows "\<exists>k. expand_keys C prk lc ls la = Inr k \<and> length (client_tx k) = 32 \<and> length (server_tx k) = 32 \<and> length (auth k) = 32"
proof -
  have h: "\<exists>m. hkdf_expand_one C prk l = Inr m \<and> length m = 32" for l
    using mac_ok [OF assms(1), of prk] assms(2) by (simp add: hkdf_expand_one_def)
  obtain a where a: "hkdf_expand_one C prk lc = Inr a" "length a = 32" using h by blast
  obtain b where b: "hkdf_expand_one C prk ls = Inr b" "length b = 32" using h by blast
  obtain c where c: "hkdf_expand_one C prk la = Inr c" "length c = 32" using h by blast
  show ?thesis by (simp add: expand_keys_def a b c)
qed

lemma decode_nonces_ok: "length s = 32 \<Longrightarrow> length c = 32 \<Longrightarrow> decode_nonces (hex_encode s) (hex_encode c) = Inr (s, c)"
  by (simp add: decode_nonces_def hex_decode_encode)

lemma derive_v5_ok:
  assumes "kex_ok H" "length shared = 32" "length cpub = 32" "length spub = 32" "length s = 32" "length c = 32"
  shows "\<exists>k. derive_session_keys_v5 H psk shared (hex_encode s) (hex_encode c) cpub spub = Inr k \<and>
    length (client_tx k) = 32 \<and> length (server_tx k) = 32 \<and> length (auth k) = 32"
proof -
  have h: "hmac_ok (base H)" and l: "\<And>d. length (sha256 H d) = 32" using assms(1) by (auto simp: kex_ok_def)
  let ?salt = "sha256 H (str ''PaceTun-PTT5'' @ s @ c @ cpub @ spub)"
  have "length ?salt \<le> 2147483647" by (simp add: l)
  then obtain prk where p: "mac (base H) ?salt (shared @ psk) = Inr prk" "length prk = 32"
    using mac_ok [OF h] by blast
  obtain k where "expand_keys (base H) prk (str ''pacetun-v5 client-to-server'') (str ''pacetun-v5 server-to-client'')
      (str ''pacetun-v5 transcript-auth'') = Inr k" "length (client_tx k) = 32" "length (server_tx k) = 32" "length (auth k) = 32"
    using expand_keys_ok [OF h p(2)] by blast
  with p show ?thesis using assms(2-6) by (simp add: derive_session_keys_v5_def decode_nonces_ok)
qed

text \<open>The two sides of an exchange compute the same shared secret.\<close>

lemma shared_secret_agrees:
  assumes "kex_ok H" "length a = 32" "length b = 32"
  obtains s where "x25519_shared_secret H a (x25519_pub H b) = Inr s" "x25519_shared_secret H b (x25519_pub H a) = Inr s" "length s = 32"
proof -
  have p: "\<forall>a. length a = 32 \<longrightarrow> length (x25519_pub H a) = 32" using assms(1) by (simp add: kex_ok_def)
  from assms obtain s where s: "x25519 H a (x25519_pub H b) = Some s" "x25519 H b (x25519_pub H a) = Some s" "length s = 32"
    "\<exists>x \<in> set s. x \<noteq> 0" unfolding kex_ok_def by blast
  have "x25519_shared_secret H a (x25519_pub H b) = Inr s" "x25519_shared_secret H b (x25519_pub H a) = Inr s"
    using s assms(2,3) p by (auto simp: x25519_shared_secret_def)
  then show ?thesis using s(3) by (rule that)
qed

text \<open>A transcript determines its parts when the free texts contain no newline.\<close>

lemma nl_split:
  assumes "a @ nl @ r = b @ nl @ r'" "10 \<notin> set a" "10 \<notin> set b"
  shows "a = b \<and> r = r'"
  using assms by (induction a arbitrary: b) (auto simp: nl_def Cons_eq_append_conv)

end
