(* ===== verification/StateError.thy ===== *)
theory StateError
  imports Prelude
begin

text \<open>
  Code that changes a state and may throw: a function from the state to the state it leaves behind and a
  result. The state survives an exception, as it does in the source. Relations between states (\<open>keeps\<close>), invariants (\<open>holds\<close>)
  and triples (\<open>runs\<close>) of such code.
\<close>

type_synonym ('s, 'e, 'a) se = "'s \<Rightarrow> 's \<times> ('e, 'a) result"

definition retS :: "('e, 'a) result \<Rightarrow> ('s, 'e, 'a) se" where
  "retS r s = (s, r)"

definition bindS :: "('s, 'e, 'a) se \<Rightarrow> ('a \<Rightarrow> ('s, 'e, 'b) se) \<Rightarrow> ('s, 'e, 'b) se" where
  "bindS m f s = (case m s of (s', Inl e) \<Rightarrow> (s', Inl e) | (s', Inr x) \<Rightarrow> f x s')"

definition thenS :: "('s, 'e, 'a) se \<Rightarrow> ('s, 'e, 'b) se \<Rightarrow> ('s, 'e, 'b) se" where
  "thenS m k = bindS m (\<lambda>_. k)"

definition modS :: "('s \<Rightarrow> 's) \<Rightarrow> ('s, 'e, unit) se" where
  "modS f s = (f s, Inr ())"

definition withS :: "('s \<Rightarrow> ('s, 'e, 'a) se) \<Rightarrow> ('s, 'e, 'a) se" where
  "withS f s = f s s"

definition skipS :: "('s, 'e, unit) se" where
  "skipS = retS (Inr ())"

definition throwS :: "'e \<Rightarrow> ('s, 'e, 'a) se" where
  "throwS e = retS (Inl e)"

definition whenS :: "bool \<Rightarrow> ('s, 'e, unit) se \<Rightarrow> ('s, 'e, unit) se" where
  "whenS b m = (if b then m else skipS)"

text \<open>\<open>try\<close> and \<open>catch\<close>.\<close>

definition catchS :: "('s, 'e, 'a) se \<Rightarrow> ('e \<Rightarrow> ('s, 'e, 'a) se) \<Rightarrow> ('s, 'e, 'a) se" where
  "catchS m h s = (case m s of (s', Inl e) \<Rightarrow> h e s' | (s', Inr x) \<Rightarrow> (s', Inr x))"

text \<open>A loop over a list, and a sequence of steps.\<close>

fun eachS :: "('b \<Rightarrow> ('s, 'e, unit) se) \<Rightarrow> 'b list \<Rightarrow> ('s, 'e, unit) se" where
  "eachS f [] = skipS"
| "eachS f (x # xs) = thenS (f x) (eachS f xs)"

fun seqS :: "('s, 'e, unit) se list \<Rightarrow> ('s, 'e, unit) se" where
  "seqS [] = skipS"
| "seqS (m # ms) = thenS m (seqS ms)"

section \<open>Laws\<close>

lemma bindS_retS: "bindS (retS (Inr x)) f s = f x s"
  by (simp add: bindS_def retS_def)

lemma bindS_assoc: "bindS (bindS m f) g = bindS m (\<lambda>x. bindS (f x) g)"
  by (rule ext) (simp add: bindS_def split: prod.splits sum.splits)

lemma bindS_Inr: "bindS m f s = (s', Inr y) \<longleftrightarrow> (\<exists>t x. m s = (t, Inr x) \<and> f x t = (s', Inr y))"
  by (auto simp: bindS_def split: prod.splits sum.splits)

lemma retS_Inr: "retS r s = (s', Inr y) \<longleftrightarrow> r = Inr y \<and> s' = s"
  by (auto simp: retS_def)

lemma bindS_run: "m s = (s', Inr x) \<Longrightarrow> bindS m f s = f x s'"
  by (simp add: bindS_def)

section \<open>Preservation\<close>

text \<open>
  A relation between the state before and the state after that holds however the code ends. A reflexive
  and transitive relation is kept by sequences, branches and loops.
\<close>

definition keeps :: "('s \<Rightarrow> 's \<Rightarrow> bool) \<Rightarrow> ('s, 'e, 'a) se \<Rightarrow> bool" where
  "keeps R m \<longleftrightarrow> (\<forall>s. R s (fst (m s)))"

locale preserved =
  fixes R :: "'s \<Rightarrow> 's \<Rightarrow> bool"
  assumes refl: "R s s" and trans: "R s t \<Longrightarrow> R t u \<Longrightarrow> R s u"
begin

lemma keeps_retS [simp, intro]: "keeps R (retS r)" "keeps R skipS" "keeps R (throwS e)"
  by (simp_all add: keeps_def retS_def skipS_def throwS_def refl)

lemma keeps_bindS [intro]:
  assumes "keeps R m" "\<And>x. keeps R (f x)"
  shows "keeps R (bindS m f)"
  unfolding keeps_def
proof
  fix s
  obtain s1 r where m: "m s = (s1, r)" by (cases "m s")
  with assms(1) have "R s s1" by (metis fst_conv keeps_def)
  then show "R s (fst (bindS m f s))"
    using m assms(2) trans by (cases r) (auto simp: bindS_def keeps_def)
qed

lemma keeps_thenS [intro]: "keeps R m \<Longrightarrow> keeps R k \<Longrightarrow> keeps R (thenS m k)"
  by (auto simp: thenS_def)

lemma keeps_whenS [intro]: "(b \<Longrightarrow> keeps R m) \<Longrightarrow> keeps R (whenS b m)"
  by (simp add: whenS_def)

lemma keeps_withS [intro]: "(\<And>s. keeps R (f s)) \<Longrightarrow> keeps R (withS f)"
  by (simp add: keeps_def withS_def)

lemma keeps_modS [intro]: "(\<And>s. R s (f s)) \<Longrightarrow> keeps R (modS f)"
  by (simp add: keeps_def modS_def)

lemma keeps_eachS [intro]: "(\<And>x. x \<in> set xs \<Longrightarrow> keeps R (f x)) \<Longrightarrow> keeps R (eachS f xs)"
  by (induction xs) auto

lemma keeps_seqS [intro]: "(\<And>m. m \<in> set ms \<Longrightarrow> keeps R m) \<Longrightarrow> keeps R (seqS ms)"
  by (induction ms) auto

end

section \<open>Invariants\<close>

text \<open>
  \<open>I\<close> holds between the steps of a loop, \<open>Q\<close> is what is left of it when an exception ends the loop.
\<close>

definition holds :: "('s \<Rightarrow> bool) \<Rightarrow> ('s \<Rightarrow> bool) \<Rightarrow> ('s, 'e, 'a) se \<Rightarrow> bool" where
  "holds I Q m \<longleftrightarrow> (\<forall>s. I s \<longrightarrow> (case m s of (s', Inl e) \<Rightarrow> Q s' | (s', Inr x) \<Rightarrow> I s'))"

lemma holdsI:
  assumes "\<And>s s' e. I s \<Longrightarrow> m s = (s', Inl e) \<Longrightarrow> Q s'" "\<And>s s' x. I s \<Longrightarrow> m s = (s', Inr x) \<Longrightarrow> I s'"
  shows "holds I Q m"
  unfolding holds_def using assms by (auto split: prod.splits sum.splits)

lemma holdsD: "holds I Q m \<Longrightarrow> I s \<Longrightarrow> m s = (s', Inl e) \<Longrightarrow> Q s'" "holds I Q m \<Longrightarrow> I s \<Longrightarrow> m s = (s', Inr x) \<Longrightarrow> I s'"
  unfolding holds_def by (erule allE [of _ s], simp)+

locale guarded =
  fixes I Q :: "'s \<Rightarrow> bool"
  assumes weaker: "I s \<Longrightarrow> Q s"
begin

lemma holds_retS [intro]: "holds I Q (retS r)" "holds I Q skipS" "holds I Q (throwS e)"
  by (auto simp: holds_def retS_def skipS_def throwS_def weaker split: sum.splits)

lemma holds_modS [intro]: "(\<And>s. I s \<Longrightarrow> I (f s)) \<Longrightarrow> holds I Q (modS f)"
  by (simp add: holds_def modS_def)

lemma holds_bindS [intro]:
  assumes "holds I Q m" "\<And>x. holds I Q (f x)"
  shows "holds I Q (bindS m f)"
proof (rule holdsI)
  fix s s' e assume "I s" "bindS m f s = (s', Inl e)"
  then show "Q s'" using assms unfolding bindS_def by (auto split: prod.splits sum.splits dest: holdsD)
next
  fix s s' y assume "I s" "bindS m f s = (s', Inr y)"
  then show "I s'" using assms by (auto simp: bindS_Inr dest: holdsD)
qed

lemma holds_thenS [intro]: "holds I Q m \<Longrightarrow> holds I Q k \<Longrightarrow> holds I Q (thenS m k)"
  by (auto simp: thenS_def)

lemma holds_whenS [intro]: "(b \<Longrightarrow> holds I Q m) \<Longrightarrow> holds I Q (whenS b m)"
  by (auto simp: whenS_def)

lemma holds_withS [intro]: "(\<And>s. I s \<Longrightarrow> holds I Q (f s)) \<Longrightarrow> holds I Q (withS f)"
  by (auto simp: holds_def withS_def)

lemma holds_eachS [intro]: "(\<And>x. x \<in> set xs \<Longrightarrow> holds I Q (f x)) \<Longrightarrow> holds I Q (eachS f xs)"
  by (induction xs) auto

lemma holds_seqS [intro]: "(\<And>m. m \<in> set ms \<Longrightarrow> holds I Q m) \<Longrightarrow> holds I Q (seqS ms)"
  by (induction ms) auto

lemma holds_if: "(b \<Longrightarrow> holds I Q m) \<Longrightarrow> (\<not> b \<Longrightarrow> holds I Q k) \<Longrightarrow> holds I Q (if b then m else k)"
  by simp

end

section \<open>Triples\<close>

text \<open>From a state with \<open>I\<close> the code ends with a result and a state with \<open>J\<close>, whether or not it throws.\<close>

definition runs :: "('s \<Rightarrow> bool) \<Rightarrow> ('s, 'e, 'a) se \<Rightarrow> (('e, 'a) result \<Rightarrow> 's \<Rightarrow> bool) \<Rightarrow> bool" where
  "runs I m J \<longleftrightarrow> (\<forall>s. I s \<longrightarrow> J (snd (m s)) (fst (m s)))"

lemma runsD: "runs I m J \<Longrightarrow> I s \<Longrightarrow> m s = (s', r) \<Longrightarrow> J r s'"
  unfolding runs_def by (metis fst_conv snd_conv)

lemma runsI: "(\<And>s s' r. I s \<Longrightarrow> m s = (s', r) \<Longrightarrow> J r s') \<Longrightarrow> runs I m J"
  unfolding runs_def by (metis prod.collapse)

lemma runs_pre: "runs I m J \<Longrightarrow> (\<And>s. I' s \<Longrightarrow> I s) \<Longrightarrow> runs I' m J"
  by (simp add: runs_def)

lemma runs_post: "runs I m J \<Longrightarrow> (\<And>r s. J r s \<Longrightarrow> J' r s) \<Longrightarrow> runs I m J'"
  by (simp add: runs_def)

lemma runs_bindS:
  assumes "runs I m M" "\<And>x. runs (M (Inr x)) (f x) J" "\<And>e s. M (Inl e) s \<Longrightarrow> J (Inl e) s"
  shows "runs I (bindS m f) J"
proof (rule runsI)
  fix s s' r assume "I s" "bindS m f s = (s', r)"
  moreover obtain s1 r1 where m: "m s = (s1, r1)" by (cases "m s")
  ultimately show "J r s'" using runsD [OF assms(1) _ m] runsD [OF assms(2)] assms(3) by (cases r1) (auto simp: bindS_def)
qed

lemma runs_thenS: "runs I m M \<Longrightarrow> runs (M (Inr ())) k J \<Longrightarrow> (\<And>e s. M (Inl e) s \<Longrightarrow> J (Inl e) s) \<Longrightarrow> runs I (thenS m k) J"
  unfolding thenS_def by (rule runs_bindS [where M = M]) auto

lemma runs_modS: "(\<And>s. I s \<Longrightarrow> J (Inr ()) (f s)) \<Longrightarrow> runs I (modS f) J"
  by (simp add: runs_def modS_def)

lemma runs_retS: "(\<And>s. I s \<Longrightarrow> J r s) \<Longrightarrow> runs I (retS r) J"
  by (simp add: runs_def retS_def)

lemma runs_skipS: "(\<And>s. I s \<Longrightarrow> J (Inr ()) s) \<Longrightarrow> runs I skipS J"
  by (simp add: skipS_def runs_retS)

lemma runs_throwS: "(\<And>s. I s \<Longrightarrow> J (Inl e) s) \<Longrightarrow> runs I (throwS e) J"
  by (simp add: throwS_def runs_retS)

lemma runs_withS: "(\<And>q. runs (\<lambda>s. I s \<and> s = q) (f q) J) \<Longrightarrow> runs I (withS f) J"
  by (simp add: runs_def withS_def)

lemma runs_whenS: "(b \<Longrightarrow> runs I m J) \<Longrightarrow> (\<And>s. \<not> b \<Longrightarrow> I s \<Longrightarrow> J (Inr ()) s) \<Longrightarrow> runs I (whenS b m) J"
  by (simp add: whenS_def runs_skipS)

lemma runs_catchS:
  assumes "runs I m M" "\<And>e. runs (M (Inl e)) (h e) J" "\<And>x s. M (Inr x) s \<Longrightarrow> J (Inr x) s"
  shows "runs I (catchS m h) J"
proof (rule runsI)
  fix s s' r assume "I s" "catchS m h s = (s', r)"
  moreover obtain s1 r1 where m: "m s = (s1, r1)" by (cases "m s")
  ultimately show "J r s'" using runsD [OF assms(1) _ m] runsD [OF assms(2)] assms(3) by (cases r1) (auto simp: catchS_def)
qed

lemma runs_seqS: "(\<And>m. m \<in> set ms \<Longrightarrow> runs I m (\<lambda>r. I)) \<Longrightarrow> runs I (seqS ms) (\<lambda>r. I)"
proof (induction ms)
  case Nil
  then show ?case by (simp add: runs_skipS)
next
  case (Cons m ms)
  have "runs I (thenS m (seqS ms)) (\<lambda>r. I)" by (rule runs_thenS [where M = "\<lambda>r. I"]) (use Cons in auto)
  then show ?case by simp
qed

end
