(* ===== verification/Handshake.thy ===== *)
theory Handshake
  imports Keys Text StateError
begin

text \<open>
  The WebSocket handshake of \<open>src/cdn/src/websocket.cpp\<close>: the HTTP upgrade, the authenticated key exchange
  after it, the key confirmation and the trial of a candidate session, on both sides. Random numbers, the
  measured round trips and the outcome of reading the HTTP headers are arguments. The messages of the session come in
  batches, one per \<open>websocket_read_messages\<close>; running out of them is the timeout.
\<close>

section \<open>Results\<close>

datatype hs_error = HsMsg string | HsRecord record_error

definition lift_record :: "(record_error, 'a) result \<Rightarrow> (hs_error, 'a) result" where
  "lift_record r = (case r of Inl e \<Rightarrow> Inl (HsRecord e) | Inr x \<Rightarrow> Inr x)"

record ws_handshake_result =
  hs_keys :: session_keys
  peer_padding :: bool
  peer_envelope :: bool
  hs_confirmed :: bool
  peer_trial :: bool
  trial_max_rtt_us :: int
  psk_index :: nat
  hs_pool_connections :: int
  client_nonce :: bytes
  server_nonce :: bytes

section \<open>HTTP headers\<close>

definition crlf :: string where "crlf = [CHR 0x0D, CHR 0x0A]"

definition ws_guid :: string where "ws_guid = ''258EAFA5-E914-47DA-95CA-C5AB0DC85B11''"

definition ws_accept :: "kex \<Rightarrow> string \<Rightarrow> string" where
  "ws_accept H key = b64_encode H (sha1 H (str (key @ ws_guid)))"

definition rand_key :: "kex \<Rightarrow> bytes option \<Rightarrow> (hs_error, string) result" where
  "rand_key H drawn = andThen (ofOption (HsMsg ''RAND_bytes failed'') drawn) (\<lambda>b. Inr (b64_encode H b))"

definition valid_ws_key :: "kex \<Rightarrow> string \<Rightarrow> bool" where
  "valid_ws_key H key \<longleftrightarrow>
     length key = 24 \<and> b64_decoded H key \<ge> 0 \<and>
     b64_decoded H key - (if last key = CHR ''='' then 1 else 0) - (if key ! 22 = CHR ''='' then 1 else 0) = 16"

definition hdr :: "string \<Rightarrow> string \<Rightarrow> string" where
  "hdr s name =
     (let needle = crlf @ lower name @ '':'' in
      case find_sub needle (lower s) of
        None \<Rightarrow> []
      | Some p \<Rightarrow>
          let rest = dropWhile (\<lambda>ch. ch = CHR '' '' \<or> ch = CHR 0x09) (drop (p + length needle) s) in
          trim (case find_sub crlf rest of None \<Rightarrow> rest | Some e \<Rightarrow> take e rest))"

text \<open>The comma-separated parts of a header value.\<close>

function header_token :: "string \<Rightarrow> string \<Rightarrow> bool" where
  "header_token value token =
     (case find_char (CHR '','') value of
        None \<Rightarrow> lower (trim value) = lower token
      | Some comma \<Rightarrow> lower (trim (take comma value)) = lower token \<or> header_token (drop (comma + 1) value) token)"
  by pat_completeness auto
termination
  by (relation "measure (\<lambda>(value, token). length value)") (auto simp: find_char_Some)

declare header_token.simps [simp del]

definition host_matches :: "string \<Rightarrow> string \<Rightarrow> bool" where
  "host_matches got expected \<longleftrightarrow>
     (let g = lower (trim got); e = lower (trim expected) in g = e \<or> g = e @ '':443'' \<or> g = e @ '':80'')"

definition browser_headers :: "string \<Rightarrow> string \<Rightarrow> string" where
  "browser_headers prof host =
     (if prof = ''none'' then []
      else ''User-Agent: '' @
        (if prof = ''chrome120''
         then ''Mozilla/5.0 (X11; Linux x86_64) AppleWebKit/537.36 (KHTML, like Gecko) Chrome/120.0.0.0 Safari/537.36''
         else ''Mozilla/5.0 (X11; Linux x86_64; rv:120.0) Gecko/20100101 Firefox/120.0'') @ crlf @
        ''Origin: https://'' @ host @ crlf @ ''Sec-Fetch-Dest: websocket'' @ crlf @
        ''Sec-Fetch-Mode: websocket'' @ crlf @ ''Sec-Fetch-Site: same-origin'' @ crlf)"

definition upgrade_request :: "string \<Rightarrow> string \<Rightarrow> string \<Rightarrow> string \<Rightarrow> string" where
  "upgrade_request prof host path key =
     ''GET '' @ path @ '' HTTP/1.1'' @ crlf @ ''Host: '' @ host @ crlf @ ''Upgrade: websocket'' @ crlf @
     ''Connection: Upgrade'' @ crlf @ ''Sec-WebSocket-Key: '' @ key @ crlf @ ''Sec-WebSocket-Version: 13'' @ crlf @
     browser_headers prof host @ crlf"

definition check_upgrade_response :: "kex \<Rightarrow> string \<Rightarrow> string \<Rightarrow> (hs_error, unit) result" where
  "check_upgrade_response H key r =
     (if \<not> starts_with ''HTTP/1.1 101 '' r \<and> \<not> starts_with (''HTTP/1.1 101'' @ crlf) r
      then Inl (HsMsg (''WebSocket upgrade rejected: '' @ (case find_sub crlf r of None \<Rightarrow> r | Some e \<Rightarrow> take e r)))
      else if lower (hdr r ''Upgrade'') \<noteq> ''websocket'' \<or> \<not> header_token (hdr r ''Connection'') ''upgrade'' \<or>
              hdr r ''Sec-WebSocket-Accept'' \<noteq> ws_accept H key \<or> hdr r ''Sec-WebSocket-Protocol'' \<noteq> []
      then Inl (HsMsg ''invalid RFC6455 upgrade response'')
      else Inr ())"

definition check_upgrade_request :: "kex \<Rightarrow> string \<Rightarrow> string \<Rightarrow> string \<Rightarrow> (hs_error, string) result" where
  "check_upgrade_request H host path r =
     (let key = hdr r ''Sec-WebSocket-Key'' in
      case find_sub crlf r of
        None \<Rightarrow> Inl (HsMsg ''invalid WebSocket path or method'')
      | Some e \<Rightarrow>
          if take e r \<noteq> ''GET '' @ path @ '' HTTP/1.1'' then Inl (HsMsg ''invalid WebSocket path or method'')
          else if lower (hdr r ''Upgrade'') \<noteq> ''websocket'' \<or> \<not> header_token (hdr r ''Connection'') ''upgrade'' \<or>
                  hdr r ''Sec-WebSocket-Version'' \<noteq> ''13'' \<or> \<not> valid_ws_key H key \<or> hdr r ''Sec-WebSocket-Protocol'' \<noteq> []
          then Inl (HsMsg ''invalid RFC6455 request'')
          else if \<not> host_matches (hdr r ''Host'') host then Inl (HsMsg ''invalid WebSocket Host'')
          else Inr key)"

definition upgrade_response :: "kex \<Rightarrow> string \<Rightarrow> string" where
  "upgrade_response H key =
     ''HTTP/1.1 101 Switching Protocols'' @ crlf @ ''Upgrade: websocket'' @ crlf @ ''Connection: Upgrade'' @ crlf @
     ''Sec-WebSocket-Accept: '' @ ws_accept H key @ crlf @ crlf"

section \<open>Messages\<close>

definition confirmation_mac :: "kex \<Rightarrow> session_keys \<Rightarrow> bool \<Rightarrow> (hs_error, bytes) result" where
  "confirmation_mac H keys client =
     (case hmac_sha256 (base H) (auth keys)
        (str (if client then ''PTT5 client key confirmation v1'' else ''PTT5 server key confirmation v1'')) of
        None \<Rightarrow> Inl (HsMsg ''confirmation MAC failed'')
      | Some m \<Rightarrow> if length m \<noteq> 32 then Inl (HsMsg ''confirmation MAC failed'') else Inr m)"

definition trial_message :: "kex \<Rightarrow> session_keys \<Rightarrow> byte \<Rightarrow> bytes \<Rightarrow> (hs_error, bytes) result" where
  "trial_message H keys ty nonce =
     (case hmac_sha256 (base H) (auth keys) (str ''PTT5 candidate trial v1'' @ [ty] @ nonce) of
        None \<Rightarrow> Inl (HsMsg ''trial MAC failed'')
      | Some m \<Rightarrow> if length m \<noteq> 32 then Inl (HsMsg ''trial MAC failed'') else Inr ([ty] @ nonce @ m))"

definition client_prefix :: "int \<Rightarrow> bytes" where
  "client_prefix pool = (if pool > 1 then str ''PTT8-C:'' else str ''PTT6-C:'')"

definition server_prefix :: "int \<Rightarrow> bytes" where
  "server_prefix pool = (if pool > 1 then str ''PTT8-S:'' else str ''PTT6-S:'')"

definition pool_bind :: "int \<Rightarrow> bytes" where
  "pool_bind pool = (if pool > 1 then str (''pool-v2:'' @ dec (nat pool)) else [])"

definition hello_size :: nat where "hello_size = 199"

section \<open>Sending and receiving\<close>

record hs_state =
  hs_http :: string
    \<comment> \<open>the HTTP text written so far\<close>
  hs_in :: "bytes list list"
  hs_out :: "bytes list"
  hs_upgraded :: bool
  hs_authenticated :: bool

type_synonym 'a hs = "(hs_state, hs_error, 'a) se"

definition sendH :: "bytes \<Rightarrow> unit hs" where
  "sendH m s = (s\<lparr>hs_out := hs_out s @ [m]\<rparr>, Inr ())"

text \<open>\<open>write_all_until\<close> of an HTTP message, with its outcome.\<close>

definition httpH :: "string \<Rightarrow> (hs_error, unit) result \<Rightarrow> unit hs" where
  "httpH msg outcome s = (s\<lparr>hs_http := hs_http s @ msg\<rparr>, outcome)"

definition upgradedH :: "unit hs" where
  "upgradedH s = (s\<lparr>hs_upgraded := True\<rparr>, Inr ())"

definition authenticatedH :: "unit hs" where
  "authenticatedH s = (s\<lparr>hs_authenticated := True\<rparr>, Inr ())"

text \<open>The first non-empty batch.\<close>

fun next_batch :: "bytes list list \<Rightarrow> (bytes list \<times> bytes list list) option" where
  "next_batch [] = None"
| "next_batch ([] # bs) = next_batch bs"
| "next_batch ((m # ms) # bs) = Some (m # ms, bs)"

text \<open>
  \<open>receive\<close> of the confirmation and the trial: the first message; the others are prefetched for
  the next read.
\<close>

definition recvH :: "string \<Rightarrow> bytes hs" where
  "recvH timeout s =
     (case next_batch (hs_in s) of
        None \<Rightarrow> (s\<lparr>hs_in := []\<rparr>, Inl (HsMsg timeout))
      | Some (ms, bs) \<Rightarrow> (s\<lparr>hs_in := (if tl ms = [] then bs else tl ms # bs)\<rparr>, Inr (hd ms)))"

definition send_handshake :: "bytes \<Rightarrow> unit hs" where
  "send_handshake data = (if length data > 1024 then retS (Inl (HsMsg ''oversized handshake'')) else sendH data)"

definition receive_handshake :: "bytes hs" where
  "receive_handshake s =
     (case next_batch (hs_in s) of
        None \<Rightarrow> (s\<lparr>hs_in := []\<rparr>, Inl (HsMsg ''post-upgrade authentication timeout''))
      | Some (ms, bs) \<Rightarrow>
          (s\<lparr>hs_in := bs\<rparr>,
           if length ms \<noteq> 1 \<or> length (hd ms) > 1024
           then Inl (HsMsg ''invalid post-upgrade negotiation frame count or size'') else Inr (hd ms)))"

definition expectH :: "string \<Rightarrow> bytes \<Rightarrow> bytes \<Rightarrow> unit hs" where
  "expectH failure got want = retS (if got = want then Inr () else Inl (HsMsg failure))"

section \<open>Confirmation and trial\<close>

definition confirm_session :: "kex \<Rightarrow> bool \<Rightarrow> session_keys \<Rightarrow> unit hs" where
  "confirm_session H client keys =
     (let send = bindS (retS (confirmation_mac H keys client)) sendH;
          receive = bindS (recvH ''key confirmation timeout'') (\<lambda>got.
            bindS (retS (confirmation_mac H keys (\<not> client))) (\<lambda>wanted. expectH ''key confirmation failed'' got wanted))
      in if client then bindS send (\<lambda>_. receive) else bindS receive (\<lambda>_. send))"

text \<open>
  The three rounds. The client draws a nonce and measures the round trip \<open>us\<close> in each; the server
  answers what it receives. The result is the last nonce and the largest round trip.
\<close>

fun client_rounds :: "kex \<Rightarrow> session_keys \<Rightarrow> int \<Rightarrow> nat \<Rightarrow> (bytes option \<times> int) list \<Rightarrow> bytes \<Rightarrow> int \<Rightarrow> (bytes \<times> int) hs" where
  "client_rounds H keys max_rtt i [] nonce best = retS (Inr (nonce, best))"
| "client_rounds H keys max_rtt i ((drawn, us) # rounds) nonce best =
     bindS (retS (ofOption (HsMsg ''trial randomness failed'') drawn)) (\<lambda>n.
     bindS (retS (trial_message H keys (0x40 + of_nat i) n)) (\<lambda>request.
     bindS (sendH request) (\<lambda>_.
     bindS (recvH ''candidate trial receive timeout'') (\<lambda>got.
     bindS (retS (trial_message H keys (0x50 + of_nat i) n)) (\<lambda>want.
     bindS (expectH ''candidate trial authentication failed'' got want) (\<lambda>_.
     if max_rtt > 0 \<and> us > max_rtt * 1000
     then retS (Inl (HsMsg (''candidate rejected: authenticated trial RTT exceeds '' @ dec (nat max_rtt) @ '' ms'')))
     else client_rounds H keys max_rtt (i + 1) rounds n (max best us)))))))"

fun server_rounds :: "kex \<Rightarrow> session_keys \<Rightarrow> nat \<Rightarrow> nat \<Rightarrow> bytes \<Rightarrow> bytes hs" where
  "server_rounds H keys i 0 nonce = retS (Inr nonce)"
| "server_rounds H keys i (Suc rounds) nonce =
     bindS (recvH ''candidate trial receive timeout'') (\<lambda>got.
     if length got \<noteq> 65 then retS (Inl (HsMsg ''invalid trial request''))
     else let n = take 32 (drop 1 got) in
     bindS (retS (trial_message H keys (0x40 + of_nat i) n)) (\<lambda>want.
     bindS (expectH ''candidate trial authentication failed'' got want) (\<lambda>_.
     bindS (retS (trial_message H keys (0x50 + of_nat i) n)) (\<lambda>response.
     bindS (sendH response) (\<lambda>_.
     server_rounds H keys (i + 1) rounds n)))))"

definition trial_client :: "kex \<Rightarrow> session_keys \<Rightarrow> int \<Rightarrow> (nat \<Rightarrow> bytes option \<times> int) \<Rightarrow> int hs" where
  "trial_client H keys max_rtt rounds =
     bindS (client_rounds H keys max_rtt 0 (map rounds [0..<3]) (replicate 32 0) (- 1)) (\<lambda>(nonce, best).
     bindS (retS (trial_message H keys 0x60 nonce)) (\<lambda>commit.
     bindS (retS (trial_message H keys 0x61 nonce)) (\<lambda>ack.
     bindS (sendH commit) (\<lambda>_.
     bindS (recvH ''candidate trial receive timeout'') (\<lambda>got.
     bindS (expectH ''candidate commit acknowledgement failed'' got ack) (\<lambda>_. retS (Inr best)))))))"

definition trial_server :: "kex \<Rightarrow> session_keys \<Rightarrow> unit hs" where
  "trial_server H keys =
     bindS (server_rounds H keys 0 3 (replicate 32 0)) (\<lambda>nonce.
     bindS (retS (trial_message H keys 0x60 nonce)) (\<lambda>commit.
     bindS (retS (trial_message H keys 0x61 nonce)) (\<lambda>ack.
     bindS (recvH ''candidate trial receive timeout'') (\<lambda>got.
     bindS (expectH ''candidate commit failed'' got commit) (\<lambda>_. sendH ack)))))"

section \<open>The two sides\<close>

text \<open>
  What a client takes from outside: its randomness, the profile of its session, the outcomes of writing the request and
  of reading the response, the randomness and the duration of each trial round.
\<close>

record client_env =
  ce_keygen :: "(hs_error, unit) result"
    \<comment> \<open>the outcome of \<open>generate_x25519_keypair\<close>, which gives \<open>ce_private\<close>\<close>
  ce_private :: bytes
  ce_nonce :: "bytes option"
  ce_key :: "bytes option"
  ce_profile :: string
  ce_write :: "(hs_error, unit) result"
  ce_response :: "(hs_error, string) result"
  ce_rounds :: "nat \<Rightarrow> bytes option \<times> int"

definition accept_server_hello :: "kex \<Rightarrow> bytes \<Rightarrow> string \<Rightarrow> string \<Rightarrow> int \<Rightarrow> bytes \<Rightarrow> bytes \<Rightarrow> bytes \<Rightarrow>
    (hs_error, session_keys \<times> bytes) result" where
  "accept_server_hello H psk host path pool priv cnonce response =
     (if length response \<noteq> hello_size \<or> take 7 response \<noteq> server_prefix pool
      then Inl (HsMsg ''invalid authenticated server negotiation'')
      else let snonce = take 64 (drop 7 response); spub_hex = take 64 (drop 71 response); proof = take 64 (drop 135 response);
               cpub = x25519_pub H priv in
      case key32_from_hex spub_hex of
        Inl _ \<Rightarrow> Inl (HsMsg ''invalid server public key'')
      | Inr spub \<Rightarrow>
          andThen (lift_record (websocket_server_proof_v5 (base H) psk (str host) (str path) cnonce snonce (hex_encode cpub) (spub_hex @ pool_bind pool))) (\<lambda>want.
          if proof \<noteq> want then Inl (HsMsg ''server authentication failed'')
          else andThen (lift_record (x25519_shared_secret H priv spub)) (\<lambda>shared.
          andThen (lift_record (derive_session_keys_v5 H psk shared snonce cnonce cpub spub)) (\<lambda>keys.
          Inr (keys, snonce)))))"

definition websocket_client_upgrade :: "kex \<Rightarrow> client_env \<Rightarrow> string \<Rightarrow> string \<Rightarrow> bytes \<Rightarrow> int \<Rightarrow> bool \<Rightarrow> int \<Rightarrow>
    ws_handshake_result hs" where
  "websocket_client_upgrade H env host path psk max_rtt require_trial pool =
     (if pool < 1 \<or> pool > 4 then retS (Inl (HsMsg ''invalid pool handshake size''))
      else
        bindS (retS (ce_keygen env)) (\<lambda>_.
        bindS (retS (lift_record (random_nonce_hex (ce_nonce env)))) (\<lambda>cnonce.
        bindS (retS (lift_record (key32_hex (x25519_pub H (ce_private env))))) (\<lambda>cpub_hex.
        bindS (retS (rand_key H (ce_key env))) (\<lambda>key.
        bindS (httpH (upgrade_request (ce_profile env) host path key) (ce_write env)) (\<lambda>_.
        bindS (retS (ce_response env)) (\<lambda>r.
        bindS (retS (check_upgrade_response H key r)) (\<lambda>_.
        bindS upgradedH (\<lambda>_.
        bindS (retS (lift_record (websocket_client_auth_token_v5 (base H) psk (str host) (str path) cnonce (cpub_hex @ pool_bind pool)))) (\<lambda>token.
        bindS (send_handshake (client_prefix pool @ cnonce @ cpub_hex @ token)) (\<lambda>_.
        bindS receive_handshake (\<lambda>response.
        bindS (retS (accept_server_hello H psk host path pool (ce_private env) cnonce response)) (\<lambda>(keys, snonce).
        bindS (confirm_session H True keys) (\<lambda>_.
        bindS (trial_client H keys max_rtt (ce_rounds env)) (\<lambda>best.
        bindS authenticatedH (\<lambda>_.
        retS (Inr \<lparr>hs_keys = keys, peer_padding = True, peer_envelope = True, hs_confirmed = True, peer_trial = True,
                   trial_max_rtt_us = best, psk_index = 0, hs_pool_connections = pool,
                   client_nonce = cnonce, server_nonce = snonce\<rparr>)))))))))))))))))"

record server_env =
  se_request :: "(hs_error, string) result"
  se_write :: "(hs_error, unit) result"
  se_keygen :: "(hs_error, unit) result"
  se_private :: bytes
  se_nonce :: "bytes option"

fun find_psk :: "crypto \<Rightarrow> bytes \<Rightarrow> bytes \<Rightarrow> bytes \<Rightarrow> bytes \<Rightarrow> bytes \<Rightarrow> nat \<Rightarrow> bytes list \<Rightarrow> (hs_error, nat \<times> bytes) result" where
  "find_psk C host path cnonce cpub token i [] = Inl (HsMsg ''post-upgrade client authentication failed'')"
| "find_psk C host path cnonce cpub token i (psk # psks) =
     andThen (lift_record (websocket_client_auth_token_v5 C psk host path cnonce cpub)) (\<lambda>want.
       if token = want then Inr (i, psk) else find_psk C host path cnonce cpub token (i + 1) psks)"

definition accept_client_hello :: "kex \<Rightarrow> bytes list \<Rightarrow> string \<Rightarrow> string \<Rightarrow> int \<Rightarrow> bytes \<Rightarrow>
    (hs_error, bytes \<times> bytes \<times> nat \<times> bytes) result" where
  "accept_client_hello H psks host path pool hello =
     (if length hello \<noteq> hello_size \<or> take 7 hello \<noteq> client_prefix pool
      then Inl (HsMsg ''invalid post-upgrade client negotiation'')
      else let cnonce = take 64 (drop 7 hello); cpub_hex = take 64 (drop 71 hello); token = take 64 (drop 135 hello) in
      case key32_from_hex cpub_hex of
        Inl _ \<Rightarrow> Inl (HsMsg ''invalid client public key'')
      | Inr cpub \<Rightarrow>
          andThen (find_psk (base H) (str host) (str path) cnonce (cpub_hex @ pool_bind pool) token 0 psks) (\<lambda>(i, psk).
          Inr (cnonce, cpub, i, psk)))"

definition websocket_server_upgrade :: "kex \<Rightarrow> server_env \<Rightarrow> string \<Rightarrow> string \<Rightarrow> bytes list \<Rightarrow> int \<Rightarrow>
    ws_handshake_result hs" where
  "websocket_server_upgrade H env host path psks pool =
     (if pool < 1 \<or> pool > 4 then retS (Inl (HsMsg ''invalid server pool handshake size''))
      else
        bindS (retS (se_request env)) (\<lambda>r.
        bindS (retS (check_upgrade_request H host path r)) (\<lambda>key.
        bindS (httpH (upgrade_response H key) (se_write env)) (\<lambda>_.
        bindS upgradedH (\<lambda>_.
        bindS receive_handshake (\<lambda>hello.
        bindS (retS (accept_client_hello H psks host path pool hello)) (\<lambda>(cnonce, cpub, i, psk).
        bindS (retS (se_keygen env)) (\<lambda>_.
        bindS (retS (lift_record (random_nonce_hex (se_nonce env)))) (\<lambda>snonce.
        bindS (retS (lift_record (key32_hex (x25519_pub H (se_private env))))) (\<lambda>spub_hex.
        bindS (retS (lift_record (websocket_server_proof_v5 (base H) psk (str host) (str path) cnonce snonce (take 64 (drop 71 hello)) (spub_hex @ pool_bind pool)))) (\<lambda>proof.
        bindS (retS (lift_record (x25519_shared_secret H (se_private env) cpub))) (\<lambda>shared.
        bindS (retS (lift_record (derive_session_keys_v5 H psk shared snonce cnonce cpub (x25519_pub H (se_private env))))) (\<lambda>keys.
        bindS (send_handshake (server_prefix pool @ snonce @ spub_hex @ proof)) (\<lambda>_.
        bindS (confirm_session H False keys) (\<lambda>_.
        bindS (trial_server H keys) (\<lambda>_.
        bindS authenticatedH (\<lambda>_.
        retS (Inr \<lparr>hs_keys = keys, peer_padding = True, peer_envelope = True, hs_confirmed = True, peer_trial = True,
                   trial_max_rtt_us = - 1, psk_index = i, hs_pool_connections = pool,
                   client_nonce = cnonce, server_nonce = snonce\<rparr>))))))))))))))))))"

end
