(* ===== verification/HttpUpgrade.thy ===== *)
theory HttpUpgrade
  imports Handshake
begin

text \<open>
  The HTTP upgrade: reading a header back from a message made of lines, and that each side accepts the message
  the other one writes.
\<close>

section \<open>Searching in lines\<close>

definition cr :: char where "cr = CHR 0x0D"

lemma crlf_alt: "crlf = [cr, CHR 0x0A]"
  by (simp add: crlf_def cr_def)

lemma find_sub_skip:
  assumes "ch \<notin> set a"
  shows "find_sub (ch # n) (a @ b) = map_option (\<lambda>p. length a + p) (find_sub (ch # n) b)"
  using assms
proof (induction a)
  case Nil
  then show ?case by (simp add: option.map_ident)
next
  case (Cons x a)
  then show ?case by (subst find_sub.simps) (cases "find_sub (ch # n) b"; auto)
qed

lemma find_sub_here: "find_sub n (n @ b) = Some 0"
  by (subst find_sub.simps) simp

lemma find_crlf: "cr \<notin> set v \<Longrightarrow> find_sub crlf (v @ crlf @ b) = Some (length v)"
  by (simp add: crlf_alt find_sub_skip find_sub_here [of "[cr, CHR 0x0A]", simplified])

text \<open>One line further: the needle is at the next line, or after it.\<close>

lemma find_sub_line:
  assumes "cr \<notin> set l" "take (length n) rest \<noteq> n"
  shows "find_sub (crlf @ n) (l @ crlf @ rest) = map_option (\<lambda>p. length l + 2 + p) (find_sub (crlf @ n) rest)"
proof -
  have "find_sub (cr # CHR 0x0A # n) (l @ cr # CHR 0x0A # rest) =
      map_option (\<lambda>p. length l + p) (find_sub (cr # CHR 0x0A # n) (cr # CHR 0x0A # rest))"
    by (rule find_sub_skip [OF assms(1)])
  also have "find_sub (cr # CHR 0x0A # n) (cr # CHR 0x0A # rest) = map_option Suc (find_sub (cr # CHR 0x0A # n) (CHR 0x0A # rest))"
    using assms(2) by (subst find_sub.simps) simp
  also have "find_sub (cr # CHR 0x0A # n) (CHR 0x0A # rest) = map_option Suc (find_sub (cr # CHR 0x0A # n) rest)"
    by (subst find_sub.simps) (simp add: cr_def)
  finally show ?thesis by (simp add: crlf_alt option.map_comp o_def)
qed

lemma find_sub_next_line:
  assumes "cr \<notin> set l" "take (length n) rest = n"
  shows "find_sub (crlf @ n) (l @ crlf @ rest) = Some (length l)"
proof -
  have "rest = n @ drop (length n) rest" using assms(2) by (metis append_take_drop_id)
  then have "find_sub (crlf @ n) (crlf @ rest) = Some 0" using find_sub_here [of "crlf @ n" "drop (length n) rest"] by simp
  then show ?thesis using assms(1) by (simp add: crlf_alt find_sub_skip)
qed

section \<open>Headers\<close>

lemma lower_append [simp]: "lower (a @ b) = lower a @ lower b"
  by (simp add: lower_def)

lemma length_lower [simp]: "length (lower a) = length a"
  by (simp add: lower_def)

lemma of_lower_char: "(of_char (lower_char ch) :: nat) = (let n = of_char ch in if 65 \<le> n \<and> n \<le> 90 then n + 32 else n)"
  by (simp add: lower_char_def Let_def)

lemma lower_char_cr: "lower_char ch = cr \<longleftrightarrow> ch = cr"
proof -
  have "lower_char ch = cr \<longleftrightarrow> (of_char (lower_char ch) :: nat) = of_char cr" by simp
  also have "\<dots> \<longleftrightarrow> (of_char ch :: nat) = of_char cr"
    by (simp only: of_lower_char Let_def cr_def) (simp split: if_splits)
  finally show ?thesis by simp
qed

lemma cr_lower [simp]: "cr \<in> set (lower a) \<longleftrightarrow> cr \<in> set a"
  by (induction a) (auto simp: lower_def lower_char_cr eq_commute [of cr])

lemma lower_crlf [simp]: "lower crlf = crlf"
  by (simp add: lower_def crlf_def lower_char_def)

text \<open>A message: its first line, the header lines, the empty line.\<close>

definition http_message :: "string \<Rightarrow> string list \<Rightarrow> string" where
  "http_message start ls = start @ concat (map ((@) crlf) ls) @ crlf @ crlf"

lemma http_message_Cons: "http_message start (l # ls) = start @ crlf @ http_message l ls"
  by (simp add: http_message_def)

text \<open>The line a header is read from.\<close>

definition is_header :: "string \<Rightarrow> string \<Rightarrow> bool" where
  "is_header n l \<longleftrightarrow> take (length n) (lower l) = n"

lemma dropWhile_until: "\<not> P x \<Longrightarrow> dropWhile P (v @ x # b) = dropWhile P v @ x # b"
  by (induction v) auto

lemma trim_dropWhile: "trim (dropWhile (\<lambda>ch. ch = CHR '' '' \<or> ch = CHR 0x09) v) = trim v"
proof -
  have "dropWhile is_space (dropWhile (\<lambda>ch. ch = CHR '' '' \<or> ch = CHR 0x09) v) = dropWhile is_space v"
    by (induction v) (auto simp: is_space_def)
  then show ?thesis by (simp add: trim_def)
qed

lemma header_value_of_line:
  assumes "cr \<notin> set v"
  shows "(let rest = dropWhile (\<lambda>ch. ch = CHR '' '' \<or> ch = CHR 0x09) (v @ crlf @ b) in
          trim (case find_sub crlf rest of None \<Rightarrow> rest | Some e \<Rightarrow> take e rest)) = trim v"
proof -
  let ?v = "dropWhile (\<lambda>ch. ch = CHR '' '' \<or> ch = CHR 0x09) v"
  have "dropWhile (\<lambda>ch. ch = CHR '' '' \<or> ch = CHR 0x09) (v @ crlf @ b) = ?v @ crlf @ b"
    by (simp add: crlf_def dropWhile_until)
  moreover have "cr \<notin> set ?v" using assms set_dropWhileD by metis
  ultimately show ?thesis by (simp add: find_crlf trim_dropWhile)
qed

lemma lower_message [simp]: "lower (http_message l ls) = http_message (lower l) (map lower ls)"
  by (induction ls arbitrary: l) (simp_all add: http_message_def)

lemma find_header:
  assumes "n \<noteq> []" "cr \<notin> set n" "cr \<notin> set start" "\<forall>l \<in> set ls. cr \<notin> set l"
  shows "find_sub (crlf @ n) (http_message start ls) =
    (case ls of [] \<Rightarrow> None | l # ls' \<Rightarrow> if take (length n) l = n then Some (length start)
       else map_option (\<lambda>p. length start + 2 + p) (find_sub (crlf @ n) (http_message l ls')))"
proof (cases ls)
  case Nil
  have e: "find_sub (crlf @ n) [] = None" by (subst find_sub.simps) (simp add: crlf_def)
  have "find_sub (crlf @ n) ([] @ crlf @ []) = None"
    by (subst find_sub_line) (use assms e in auto)
  then have "find_sub (crlf @ n) crlf = None" by simp
  moreover have "take (length n) crlf \<noteq> n" using assms(1,2) by (cases n) (auto simp: crlf_alt)
  ultimately have "find_sub (crlf @ n) (start @ crlf @ crlf) = None"
    by (subst find_sub_line) (use assms in auto)
  then show ?thesis by (simp add: Nil http_message_def)
next
  case (Cons l ls')
  have t: "take (length n) (http_message l ls') = n \<longleftrightarrow> take (length n) l = n"
  proof -
    obtain b where "http_message l ls' = l @ cr # b"
      by (cases ls') (auto simp: http_message_def crlf_alt)
    then show ?thesis using assms(2)
      by (auto simp: take_Cons' split: if_splits) (metis in_set_conv_decomp)+
  qed
  show ?thesis
  proof (cases "take (length n) l = n")
    case True
    then show ?thesis using t assms(3) by (simp add: Cons http_message_Cons find_sub_next_line)
  next
    case False
    then show ?thesis using t assms(3)
      by (cases "find_sub (crlf @ n) (http_message l ls')") (simp_all add: Cons http_message_Cons find_sub_line)
  qed
qed

lemma cr_colon [simp]: "cr \<noteq> CHR '':''"
  by (simp add: cr_def)

lemma hdr_message:
  assumes "cr \<notin> set name" "cr \<notin> set start" "\<forall>l \<in> set ls. cr \<notin> set l"
  shows "hdr (http_message start ls) name =
    (case List.find (is_header (lower name @ '':'')) ls of None \<Rightarrow> [] | Some l \<Rightarrow> trim (drop (length name + 1) l))"
  using assms(2,3)
proof (induction ls arbitrary: start)
  case Nil
  have "find_sub (crlf @ lower name @ '':'') (http_message (lower start) []) = None"
    by (subst find_header) (use assms(1) Nil in auto)
  then show ?case by (simp add: hdr_def)
next
  case (Cons l ls)
  let ?n = "lower name @ '':''"
  have f: "find_sub (crlf @ ?n) (http_message (lower start) (map lower (l # ls))) =
    (if is_header ?n l then Some (length start)
     else map_option (\<lambda>p. length start + 2 + p) (find_sub (crlf @ ?n) (http_message (lower l) (map lower ls))))"
    by (subst find_header) (use assms(1) Cons.prems in \<open>auto simp: is_header_def simp del: length_append\<close>)
  show ?case
  proof (cases "is_header ?n l")
    case True
    then have "length ?n \<le> length l" unfolding is_header_def by (metis length_lower length_take min.cobounded1)
    then have "drop (length start + length (crlf @ ?n)) (http_message start (l # ls)) =
        drop (length name + 1) l @ drop (length l) (http_message l ls)"
      by (simp add: http_message_def crlf_def numeral_3_eq_3)
    moreover obtain b where "drop (length l) (http_message l ls) = crlf @ b" by (cases ls) (auto simp: http_message_def)
    ultimately have d: "drop (length start + length (crlf @ ?n)) (http_message start (l # ls)) =
        drop (length name + 1) l @ crlf @ b" by simp
    have "cr \<notin> set (drop (length name + 1) l)" using Cons.prems by (meson in_set_dropD list.set_intros(1))
    then have "hdr (http_message start (l # ls)) name = trim (drop (length name + 1) l)"
      unfolding hdr_def Let_def lower_message f if_P [OF True] option.case d
      by (rule header_value_of_line [unfolded Let_def])
    then show ?thesis using True by simp
  next
    case False
    have d: "drop (length start + 2 + p + k) (http_message start (l # ls)) = drop (p + k) (http_message l ls)" for p k
      by (simp add: http_message_Cons crlf_def)
    have "hdr (http_message start (l # ls)) name = hdr (http_message l ls) name"
      unfolding hdr_def Let_def lower_message f if_not_P [OF False]
      by (cases "find_sub (crlf @ ?n) (http_message (lower l) (map lower ls))") (simp_all only: option.map option.case d)
    then show ?thesis using False Cons.IH [of l] Cons.prems by simp
  qed
qed

section \<open>The two messages\<close>

lemma trim_space_Cons [simp]: "trim (CHR '' '' # v) = trim v"
  by (simp add: trim_def is_space_def)

lemma trim_trim [simp]: "trim (trim v) = trim v"
  using trim_edges trim_id by metis

definition browser_lines :: "string \<Rightarrow> string \<Rightarrow> string list" where
  "browser_lines prof host =
     (if prof = ''none'' then []
      else [''User-Agent: '' @
        (if prof = ''chrome120''
         then ''Mozilla/5.0 (X11; Linux x86_64) AppleWebKit/537.36 (KHTML, like Gecko) Chrome/120.0.0.0 Safari/537.36''
         else ''Mozilla/5.0 (X11; Linux x86_64; rv:120.0) Gecko/20100101 Firefox/120.0''),
        ''Origin: https://'' @ host, ''Sec-Fetch-Dest: websocket'',
        ''Sec-Fetch-Mode: websocket'', ''Sec-Fetch-Site: same-origin''])"

lemma upgrade_request_lines:
  "upgrade_request prof host path key = http_message (''GET '' @ path @ '' HTTP/1.1'')
     ([''Host: '' @ host, ''Upgrade: websocket'', ''Connection: Upgrade'', ''Sec-WebSocket-Key: '' @ key,
       ''Sec-WebSocket-Version: 13''] @ browser_lines prof host)"
  by (simp add: upgrade_request_def browser_headers_def browser_lines_def http_message_def)

lemma upgrade_response_lines:
  "upgrade_response H key = http_message ''HTTP/1.1 101 Switching Protocols''
     [''Upgrade: websocket'', ''Connection: Upgrade'', ''Sec-WebSocket-Accept: '' @ ws_accept H key]"
  by (simp add: upgrade_response_def http_message_def)

text \<open>The client accepts the response the server writes for its key.\<close>

lemma response_headers:
  assumes "cr \<notin> set (ws_accept H key)"
  shows "hdr (upgrade_response H key) ''Upgrade'' = ''websocket''"
    "hdr (upgrade_response H key) ''Connection'' = ''Upgrade''"
    "hdr (upgrade_response H key) ''Sec-WebSocket-Accept'' = trim (ws_accept H key)"
    "hdr (upgrade_response H key) ''Sec-WebSocket-Protocol'' = []"
  using assms unfolding upgrade_response_lines
  by (simp_all add: hdr_message cr_def is_header_def lower_def lower_char_def trim_def is_space_def)

text \<open>
  Documented behaviour of the Base64 functions: no white space in an encoding, and 16 bytes are
  22 characters and two padding characters, which decode to 18 bytes, the padding included.
\<close>

definition b64_ok :: "kex \<Rightarrow> bool" where
  "b64_ok H \<longleftrightarrow> (\<forall>d. list_all (\<lambda>ch. \<not> is_space ch) (b64_encode H d)) \<and>
     (\<forall>d. length d = 16 \<longrightarrow> length (b64_encode H d) = 24 \<and> b64_encode H d ! 22 = CHR ''='' \<and>
        b64_encode H d ! 23 = CHR ''='' \<and> b64_decoded H (b64_encode H d) = 18)"

lemma b64_text:
  assumes "b64_ok H"
  shows "cr \<notin> set (b64_encode H d)" "trim (b64_encode H d) = b64_encode H d"
proof -
  have n: "\<not> is_space ch" if "ch \<in> set (b64_encode H d)" for ch
    using assms that by (auto simp: b64_ok_def list_all_iff)
  moreover have "is_space cr" by (simp add: cr_def is_space_def)
  ultimately show "cr \<notin> set (b64_encode H d)" by blast
  show "trim (b64_encode H d) = b64_encode H d" by (rule trim_id) (use n in \<open>auto intro: n\<close>)
qed

lemma rand_key_valid:
  assumes "b64_ok H" "length d = 16"
  shows "valid_ws_key H (b64_encode H d)"
proof -
  have k: "length (b64_encode H d) = 24" "b64_encode H d ! 22 = CHR ''=''" "b64_encode H d ! 23 = CHR ''=''" "b64_decoded H (b64_encode H d) = 18"
    using assms by (auto simp: b64_ok_def)
  then have "last (b64_encode H d) = CHR ''=''" by (subst last_conv_nth) auto
  with k show ?thesis by (simp add: valid_ws_key_def)
qed

lemma token_upgrade: "header_token ''Upgrade'' ''upgrade''" and lower_websocket: "lower ''websocket'' = ''websocket''"
  by code_simp+

lemma response_accepted:
  assumes "b64_ok H"
  shows "check_upgrade_response H key (upgrade_response H key) = Inr ()"
proof -
  have c: "cr \<notin> set (ws_accept H key)" "trim (ws_accept H key) = ws_accept H key"
    using b64_text [OF assms] by (simp_all add: ws_accept_def)
  have "starts_with ''HTTP/1.1 101 '' (upgrade_response H key)" by (simp add: starts_with_def upgrade_response_def)
  then show ?thesis
    by (simp add: check_upgrade_response_def response_headers c token_upgrade lower_websocket)
qed

text \<open>The server accepts the request the client writes for its host and path.\<close>

lemma request_headers:
  assumes "cr \<notin> set host" "cr \<notin> set path" "cr \<notin> set key"
  shows "hdr (upgrade_request prof host path key) ''Upgrade'' = ''websocket''"
    "hdr (upgrade_request prof host path key) ''Connection'' = ''Upgrade''"
    "hdr (upgrade_request prof host path key) ''Host'' = trim host"
    "hdr (upgrade_request prof host path key) ''Sec-WebSocket-Key'' = trim key"
    "hdr (upgrade_request prof host path key) ''Sec-WebSocket-Version'' = ''13''"
    "hdr (upgrade_request prof host path key) ''Sec-WebSocket-Protocol'' = []"
proof -
  have c: "cr \<notin> set (''GET '' @ path @ '' HTTP/1.1'')"
    "\<forall>l \<in> set ([''Host: '' @ host, ''Upgrade: websocket'', ''Connection: Upgrade'', ''Sec-WebSocket-Key: '' @ key,
       ''Sec-WebSocket-Version: 13''] @ browser_lines prof host). cr \<notin> set l"
    using assms by (simp_all add: cr_def browser_lines_def)
  note h = hdr_message [OF _ c, folded upgrade_request_lines]
  show "hdr (upgrade_request prof host path key) ''Upgrade'' = ''websocket''"
    "hdr (upgrade_request prof host path key) ''Connection'' = ''Upgrade''"
    "hdr (upgrade_request prof host path key) ''Host'' = trim host"
    "hdr (upgrade_request prof host path key) ''Sec-WebSocket-Key'' = trim key"
    "hdr (upgrade_request prof host path key) ''Sec-WebSocket-Version'' = ''13''"
    by (subst h; simp add: cr_def is_header_def lower_def lower_char_def trim_def is_space_def)+
  show "hdr (upgrade_request prof host path key) ''Sec-WebSocket-Protocol'' = []"
    by (subst h) (simp_all add: cr_def is_header_def lower_def lower_char_def browser_lines_def)
qed

lemma request_accepted:
  assumes "cr \<notin> set host" "cr \<notin> set path" "b64_ok H" "length d = 16"
  shows "check_upgrade_request H host path (upgrade_request prof host path (b64_encode H d)) = Inr (b64_encode H d)"
proof -
  let ?k = "b64_encode H d" and ?start = "''GET '' @ path @ '' HTTP/1.1''"
  note h = request_headers [OF assms(1,2), of ?k prof, OF b64_text(1) [OF assms(3)]]
  have "cr \<notin> set ?start" using assms(2) by (simp add: cr_def)
  then have "find_sub crlf (upgrade_request prof host path ?k) = Some (length ?start)"
    using find_crlf [of ?start] by (simp add: upgrade_request_def)
  moreover have "take (length ?start) (upgrade_request prof host path ?k) = ?start" by (simp add: upgrade_request_def)
  moreover have "host_matches (trim host) host" by (simp add: host_matches_def)
  ultimately show ?thesis
    using rand_key_valid [OF assms(3,4)] b64_text(2) [OF assms(3)]
    by (simp add: check_upgrade_request_def h token_upgrade lower_websocket)
qed

end
