(* ===== verification/HandshakeProps.thy ===== *)
theory HandshakeProps
  imports HttpUpgrade
begin

text \<open>
  Correctness of the handshake: two honest sides with a common key complete it with the same session keys, and a
  client that accepts a proof made by a server shares with that server the keys and everything they are derived
  from, whatever an attacker does with the messages in between.
\<close>

section \<open>Fields of the hello messages\<close>

lemma length_prefixes [simp]: "length (client_prefix pool) = 7" "length (server_prefix pool) = 7"
  by (simp_all add: client_prefix_def server_prefix_def str_def)

lemma hello_fields:
  assumes "length p = 7" "length a = 64" "length b = 64" "length c = 64"
  shows "length (p @ a @ b @ c) = hello_size" "take 7 (p @ a @ b @ c) = p" "take 64 (drop 7 (p @ a @ b @ c)) = a"
    "take 64 (drop 71 (p @ a @ b @ c)) = b" "take 64 (drop 135 (p @ a @ b @ c)) = c"
  using assms by (simp_all add: hello_size_def)

lemma length_hex64 [simp]: "length k = 32 \<Longrightarrow> length (hex_encode k) = 64"
  by (simp add: length_hex_encode)

lemma key32_from_hex_encode: "length k = 32 \<Longrightarrow> key32_from_hex (hex_encode k) = Inr k"
  by (simp add: key32_from_hex_def hex_decode_encode)

lemma token_length: "websocket_client_auth_token_v5 C psk h p n k = Inr t \<Longrightarrow> length t = 64"
  "websocket_server_proof_v5 C psk h p n sn k sk = Inr t \<Longrightarrow> length t = 64"
  by (auto simp: websocket_client_auth_token_v5_def websocket_server_proof_v5_def result_iff dest: length_mac)

section \<open>Transcripts\<close>

lemma server_transcript_inj:
  assumes "server_transcript h p cn sn cp sp = server_transcript h' p' cn' sn' cp' sp'"
    and "10 \<notin> set h" "10 \<notin> set p" "10 \<notin> set h'" "10 \<notin> set p'"
    and "length cn = length cn'" "length sn = length sn'" "length cp = length cp'"
  shows "h = h' \<and> p = p' \<and> cn = cn' \<and> sn = sn' \<and> cp = cp' \<and> sp = sp'"
proof -
  from assms(1) have "h @ nl @ p @ nl @ cn @ nl @ sn @ nl @ cp @ nl @ sp = h' @ nl @ p' @ nl @ cn' @ nl @ sn' @ nl @ cp' @ nl @ sp'"
    by (simp add: server_transcript_def)
  then have hp: "h = h'" "p = p'" and "cn @ nl @ sn @ nl @ cp @ nl @ sp = cn' @ nl @ sn' @ nl @ cp' @ nl @ sp'"
    using assms(2-5) by (auto dest!: nl_split)
  with assms(6-8) show ?thesis by (simp add: nl_def)
qed

lemma pool_bind_inj:
  assumes "1 \<le> p" "p \<le> 4" "1 \<le> q" "q \<le> 4" "pool_bind p = pool_bind q"
  shows "p = q"
proof -
  have "p = 1 \<or> p = 2 \<or> p = 3 \<or> p = 4" "q = 1 \<or> q = 2 \<or> q = 3 \<or> q = 4" using assms(1-4) by presburger+
  moreover have "pool_bind 1 = []" "pool_bind 2 = str ''pool-v2:2''" "pool_bind 3 = str ''pool-v2:3''" "pool_bind 4 = str ''pool-v2:4''"
    by code_simp+
  ultimately show ?thesis using assms(5) by (auto simp: str_def)
qed

section \<open>Running the handshake\<close>

text \<open>Steps of a run in which every message has arrived on its own.\<close>

named_theorems run

declare bindS_retS [run]

lemma bindS_sendH [run]: "bindS (sendH m) f s = f () (s\<lparr>hs_out := hs_out s @ [m]\<rparr>)"
  by (simp add: bindS_def sendH_def)

lemma bindS_recvH [run]: "hs_in s = [m] # bs \<Longrightarrow> bindS (recvH t) f s = f m (s\<lparr>hs_in := bs\<rparr>)"
  by (simp add: bindS_def recvH_def)

lemma bindS_expectH [run]: "bindS (expectH t m m) f s = f () s"
  by (simp add: bindS_def expectH_def retS_def)

lemma bindS_httpH [run]: "bindS (httpH msg (Inr ())) f s = f () (s\<lparr>hs_http := hs_http s @ msg\<rparr>)"
  by (simp add: bindS_def httpH_def)

lemma bindS_marks [run]:
  "bindS upgradedH f s = f () (s\<lparr>hs_upgraded := True\<rparr>)" "bindS authenticatedH f s = f () (s\<lparr>hs_authenticated := True\<rparr>)"
  by (simp_all add: bindS_def upgradedH_def authenticatedH_def)

lemma bindS_send_handshake [run]:
  "length m \<le> 1024 \<Longrightarrow> bindS (send_handshake m) f s = f () (s\<lparr>hs_out := hs_out s @ [m]\<rparr>)"
  by (simp add: bindS_def sendH_def send_handshake_def)

lemma bindS_receive_handshake [run]:
  "hs_in s = [m] # bs \<Longrightarrow> length m \<le> 1024 \<Longrightarrow> bindS receive_handshake f s = f m (s\<lparr>hs_in := bs\<rparr>)"
  by (simp add: bindS_def receive_handshake_def)

lemma confirmation_ok:
  assumes "hmac_ok (base H)" "length (auth keys) = 32"
  obtains m where "confirmation_mac H keys client = Inr m"
proof -
  obtain m where "hmac_sha256 (base H) (auth keys)
      (str (if client then ''PTT5 client key confirmation v1'' else ''PTT5 server key confirmation v1'')) = Some m" "length m = 32"
    using assms by (elim hmac_okE) auto
  then have "confirmation_mac H keys client = Inr m" by (simp add: confirmation_mac_def)
  then show ?thesis by (rule that)
qed

lemma confirm_runs:
  assumes "confirmation_mac H keys True = Inr mc" "confirmation_mac H keys False = Inr ms"
  shows "hs_in s = [ms] # bs \<Longrightarrow>
      confirm_session H True keys s = (s\<lparr>hs_in := bs, hs_out := hs_out s @ [mc]\<rparr>, Inr ())"
    "hs_in s = [mc] # bs \<Longrightarrow>
      confirm_session H False keys s = (s\<lparr>hs_in := bs, hs_out := hs_out s @ [ms]\<rparr>, Inr ())"
  by (simp_all add: confirm_session_def bindS_assoc run assms) (simp_all add: expectH_def retS_def sendH_def)

text \<open>The trial message, once the MAC is known to succeed.\<close>

definition trial_frame :: "kex \<Rightarrow> session_keys \<Rightarrow> byte \<Rightarrow> bytes \<Rightarrow> bytes" where
  "trial_frame H keys ty nonce =
     [ty] @ nonce @ the (hmac_sha256 (base H) (auth keys) (str ''PTT5 candidate trial v1'' @ [ty] @ nonce))"

lemma trial_message_ok:
  assumes "hmac_ok (base H)" "length (auth keys) = 32"
  shows "trial_message H keys ty nonce = Inr (trial_frame H keys ty nonce)" "length (trial_frame H keys ty nonce) = 33 + length nonce"
proof -
  obtain m where "hmac_sha256 (base H) (auth keys) (str ''PTT5 candidate trial v1'' @ [ty] @ nonce) = Some m" "length m = 32"
    using assms by (elim hmac_okE) auto
  then show "trial_message H keys ty nonce = Inr (trial_frame H keys ty nonce)" "length (trial_frame H keys ty nonce) = 33 + length nonce"
    by (simp_all add: trial_message_def trial_frame_def)
qed

lemma trial_frame_nonce: "length nonce = 32 \<Longrightarrow> take 32 (drop (Suc 0) (trial_frame H keys ty nonce)) = nonce"
  by (simp add: trial_frame_def)

text \<open>What the two sides of a trial exchange.\<close>

definition trial_requests :: "kex \<Rightarrow> session_keys \<Rightarrow> (nat \<Rightarrow> bytes) \<Rightarrow> bytes list" where
  "trial_requests H keys n = [trial_frame H keys 0x40 (n 0), trial_frame H keys 0x41 (n 1), trial_frame H keys 0x42 (n 2),
     trial_frame H keys 0x60 (n 2)]"

definition trial_responses :: "kex \<Rightarrow> session_keys \<Rightarrow> (nat \<Rightarrow> bytes) \<Rightarrow> bytes list" where
  "trial_responses H keys n = [trial_frame H keys 0x50 (n 0), trial_frame H keys 0x51 (n 1), trial_frame H keys 0x52 (n 2),
     trial_frame H keys 0x61 (n 2)]"

lemma trial_client_run:
  assumes "hmac_ok (base H)" "length (auth keys) = 32" "\<And>i. i < 3 \<Longrightarrow> rounds i = (Some (n i), us i)"
    and "\<And>i. i < 3 \<Longrightarrow> max_rtt > 0 \<Longrightarrow> us i \<le> max_rtt * 1000"
    and "hs_in s = map (\<lambda>m. [m]) (trial_responses H keys n) @ bs"
  shows "trial_client H keys max_rtt rounds s =
    (s\<lparr>hs_in := bs, hs_out := hs_out s @ trial_requests H keys n\<rparr>, Inr (max (max (max (- 1) (us 0)) (us 1)) (us 2)))"
proof -
  have r: "map rounds [0..<3] = [(Some (n 0), us 0), (Some (n 1), us 1), (Some (n 2), us 2)]"
    using assms(3) by (simp add: upt_rec numeral_2_eq_2)
  have u: "\<not> (0 < max_rtt \<and> max_rtt * 1000 < us 0)" "\<not> (0 < max_rtt \<and> max_rtt * 1000 < us (Suc 0))" "\<not> (0 < max_rtt \<and> max_rtt * 1000 < us 2)"
    using assms(4) [of 0] assms(4) [of 1] assms(4) [of 2] by auto
  show ?thesis
    unfolding trial_client_def r
    by (simp add: bindS_assoc run trial_message_ok [OF assms(1,2)] u assms(5) trial_responses_def trial_requests_def retS_def)
qed

lemma trial_server_run:
  assumes "hmac_ok (base H)" "length (auth keys) = 32" "\<And>i. length (n i) = 32"
    and "hs_in s = map (\<lambda>m. [m]) (trial_requests H keys n) @ bs"
  shows "trial_server H keys s = (s\<lparr>hs_in := bs, hs_out := hs_out s @ trial_responses H keys n\<rparr>, Inr ())"
  by (simp add: trial_server_def numeral_3_eq_3 Let_def bindS_assoc run trial_message_ok [OF assms(1,2)] trial_frame_nonce assms(3,4)
      trial_requests_def trial_responses_def sendH_def)

section \<open>Two honest sides\<close>

definition fresh_handshake :: "bytes list \<Rightarrow> hs_state" where
  "fresh_handshake ms = \<lparr>hs_http = [], hs_in = map (\<lambda>m. [m]) ms, hs_out = [], hs_upgraded = False, hs_authenticated = False\<rparr>"

definition client_token :: "kex \<Rightarrow> bytes \<Rightarrow> string \<Rightarrow> string \<Rightarrow> int \<Rightarrow> bytes \<Rightarrow> bytes \<Rightarrow> (record_error, bytes) result" where
  "client_token H a host path pool cn q =
     websocket_client_auth_token_v5 (base H) q (str host) (str path) (hex_encode cn) (hex_encode (x25519_pub H a) @ pool_bind pool)"

lemma tokens_ok:
  assumes "hmac_ok C" "length psk \<le> 2147483647"
  shows "\<exists>t. websocket_client_auth_token_v5 C psk h p n k = Inr t" "\<exists>t. websocket_server_proof_v5 C psk h p n sn k sk = Inr t"
  using mac_ok [OF assms] by (auto simp: websocket_client_auth_token_v5_def websocket_server_proof_v5_def result_iff)

lemma find_psk_found:
  assumes "hmac_ok C" "\<forall>q \<in> set psks. length q \<le> 2147483647" "i < length psks"
    and "websocket_client_auth_token_v5 C (psks ! i) h p n k = Inr t"
    and "\<forall>q \<in> set (take i psks). websocket_client_auth_token_v5 C q h p n k \<noteq> Inr t"
  shows "find_psk C h p n k t j psks = Inr (j + i, psks ! i)"
  using assms(2-5)
proof (induction psks arbitrary: i j)
  case (Cons q psks)
  show ?case
  proof (cases i)
    case 0
    with Cons.prems show ?thesis by (simp add: lift_record_def)
  next
    case (Suc i')
    obtain t' where t': "websocket_client_auth_token_v5 C q h p n k = Inr t'"
      using tokens_ok(1) [OF assms(1)] Cons.prems(1) by (meson list.set_intros(1))
    then have "t \<noteq> t'" using Cons.prems(4) Suc by auto
    then show ?thesis using Cons.IH [of i' "j + 1"] Cons.prems Suc t' by (simp add: lift_record_def)
  qed
qed simp

lemma lift_record_Inr [simp]: "lift_record (Inr x) = Inr x"
  by (simp add: lift_record_def)

lemma lift_record_eq: "lift_record r = Inr x \<longleftrightarrow> r = Inr x"
  by (cases r) (simp_all add: lift_record_def)

text \<open>
  Two honest sides: the same host, path and pool size, the client's key at position \<open>i\<close> of the server's, random values that could be
  drawn, each side reading the HTTP message the other one writes, and trial round trips within the limit.
\<close>

definition honest_sides :: "kex \<Rightarrow> string \<Rightarrow> string \<Rightarrow> int \<Rightarrow> bytes list \<Rightarrow> nat \<Rightarrow> client_env \<Rightarrow> server_env \<Rightarrow> int \<Rightarrow>
    bytes \<Rightarrow> bytes \<Rightarrow> bytes \<Rightarrow> (nat \<Rightarrow> bytes) \<Rightarrow> (nat \<Rightarrow> int) \<Rightarrow> bool" where
  "honest_sides H host path pool psks i cenv senv max_rtt cn sn k n us \<longleftrightarrow>
     cr \<notin> set host \<and> cr \<notin> set path \<and> 1 \<le> pool \<and> pool \<le> 4 \<and>
     i < length psks \<and> list_all (\<lambda>q. length q \<le> 2147483647) psks \<and>
     (\<forall>q \<in> set (take i psks). client_token H (ce_private cenv) host path pool cn q \<noteq>
        client_token H (ce_private cenv) host path pool cn (psks ! i)) \<and>
     length (ce_private cenv) = 32 \<and> length (se_private senv) = 32 \<and>
     ce_keygen cenv = Inr () \<and> se_keygen senv = Inr () \<and>
     ce_nonce cenv = Some cn \<and> length cn = 32 \<and> se_nonce senv = Some sn \<and> length sn = 32 \<and>
     ce_key cenv = Some k \<and> length k = 16 \<and>
     ce_write cenv = Inr () \<and> ce_response cenv = Inr (upgrade_response H (b64_encode H k)) \<and>
     se_write senv = Inr () \<and> se_request senv = Inr (upgrade_request (ce_profile cenv) host path (b64_encode H k)) \<and>
     (\<forall>j < 3. ce_rounds cenv j = (Some (n j), us j) \<and> (max_rtt > 0 \<longrightarrow> us j \<le> max_rtt * 1000)) \<and>
     (\<forall>j. length (n j) = 32)"

text \<open>The values the two sides compute on the way.\<close>

lemma honest_values:
  assumes "kex_ok H" "honest_sides H host path pool psks i cenv senv max_rtt cn sn k n us"
  obtains cpub spub t pf shared keys mc ms where
    "x25519_pub H (ce_private cenv) = cpub" "length cpub = 32" "x25519_pub H (se_private senv) = spub" "length spub = 32"
    "websocket_client_auth_token_v5 (base H) (psks ! i) (str host) (str path) (hex_encode cn) (hex_encode cpub @ pool_bind pool) = Inr t" "length t = 64"
    "find_psk (base H) (str host) (str path) (hex_encode cn) (hex_encode cpub @ pool_bind pool) t 0 psks = Inr (i, psks ! i)"
    "websocket_server_proof_v5 (base H) (psks ! i) (str host) (str path) (hex_encode cn) (hex_encode sn) (hex_encode cpub) (hex_encode spub @ pool_bind pool) = Inr pf"
    "length pf = 64"
    "x25519_shared_secret H (ce_private cenv) spub = Inr shared" "x25519_shared_secret H (se_private senv) cpub = Inr shared"
    "derive_session_keys_v5 H (psks ! i) shared (hex_encode sn) (hex_encode cn) cpub spub = Inr keys" "length (auth keys) = 32"
    "confirmation_mac H keys True = Inr mc" "confirmation_mac H keys False = Inr ms"
proof -
  have hm: "hmac_ok (base H)" using assms(1) by (simp add: kex_ok_def)
  have i: "i < length psks" and q: "\<forall>q \<in> set psks. length q \<le> 2147483647"
    and first: "\<forall>q \<in> set (take i psks). client_token H (ce_private cenv) host path pool cn q \<noteq>
        client_token H (ce_private cenv) host path pool cn (psks ! i)"
    and l: "length (ce_private cenv) = 32" "length (se_private senv) = 32" "length cn = 32" "length sn = 32"
    using assms(2) by (simp_all add: honest_sides_def list_all_iff)
  let ?c = "x25519_pub H (ce_private cenv)" and ?s = "x25519_pub H (se_private senv)"
  have p: "length ?c = 32" "length ?s = 32" using assms(1) l by (simp_all add: kex_ok_def)
  have ql: "length (psks ! i) \<le> 2147483647" using i q by simp
  obtain t where t: "websocket_client_auth_token_v5 (base H) (psks ! i) (str host) (str path) (hex_encode cn) (hex_encode ?c @ pool_bind pool) = Inr t"
    using tokens_ok(1) [OF hm ql] by blast
  have f: "find_psk (base H) (str host) (str path) (hex_encode cn) (hex_encode ?c @ pool_bind pool) t 0 psks = Inr (0 + i, psks ! i)"
    by (rule find_psk_found [OF hm q i t]) (use first t in \<open>simp add: client_token_def\<close>)
  obtain pf where pr: "websocket_server_proof_v5 (base H) (psks ! i) (str host) (str path) (hex_encode cn) (hex_encode sn) (hex_encode ?c) (hex_encode ?s @ pool_bind pool) = Inr pf"
    using tokens_ok(2) [OF hm ql] by blast
  obtain sh where sh: "x25519_shared_secret H (ce_private cenv) ?s = Inr sh" "x25519_shared_secret H (se_private senv) ?c = Inr sh" "length sh = 32"
    using shared_secret_agrees [OF assms(1) l(1,2)] by blast
  obtain keys where ks: "derive_session_keys_v5 H (psks ! i) sh (hex_encode sn) (hex_encode cn) ?c ?s = Inr keys" "length (auth keys) = 32"
    using derive_v5_ok [OF assms(1) sh(3) p l(4,3)] by blast
  obtain mc where mc: "confirmation_mac H keys True = Inr mc" using confirmation_ok [OF hm ks(2)] by blast
  obtain ms where ms: "confirmation_mac H keys False = Inr ms" using confirmation_ok [OF hm ks(2)] by blast
  show ?thesis
    by (rule that [OF refl p(1) refl p(2) t token_length(1) [OF t] _ pr token_length(2) [OF pr] sh(1,2) ks mc ms]) (use f in simp)
qed

lemma server_hello_accepted:
  assumes "x25519_pub H a = cpub" "length spub = 32" "length sn = 32" "length pf = 64"
    "websocket_server_proof_v5 (base H) psk (str host) (str path) cn (hex_encode sn) (hex_encode cpub) (hex_encode spub @ pool_bind pool) = Inr pf"
    "x25519_shared_secret H a spub = Inr shared" "derive_session_keys_v5 H psk shared (hex_encode sn) cn cpub spub = Inr keys"
  shows "accept_server_hello H psk host path pool a cn (server_prefix pool @ hex_encode sn @ hex_encode spub @ pf) =
    Inr (keys, hex_encode sn)"
  unfolding accept_server_hello_def Let_def
    hello_fields [OF length_prefixes(2) length_hex64 [OF assms(3)] length_hex64 [OF assms(2)] assms(4)]
  by (simp add: assms key32_from_hex_encode)

lemma client_hello_accepted:
  assumes "length cpub = 32" "length cn = 32" "length t = 64"
    "find_psk (base H) (str host) (str path) (hex_encode cn) (hex_encode cpub @ pool_bind pool) t 0 psks = Inr (i, psk)"
  shows "accept_client_hello H psks host path pool (client_prefix pool @ hex_encode cn @ hex_encode cpub @ t) =
    Inr (hex_encode cn, cpub, i, psk)"
  unfolding accept_client_hello_def Let_def
    hello_fields [OF length_prefixes(1) length_hex64 [OF assms(2)] length_hex64 [OF assms(1)] assms(3)]
  by (simp add: assms key32_from_hex_encode)

lemma honest_run:
  assumes "kex_ok H" "b64_ok H" "honest_sides H host path pool psks i cenv senv max_rtt cn sn k n us"
  obtains cs c_res ss s_res keys t pf co so where
    "websocket_client_upgrade H cenv host path (psks ! i) max_rtt trial pool (fresh_handshake (hs_out ss)) = (cs, Inr c_res)"
    "websocket_server_upgrade H senv host path psks pool (fresh_handshake (hs_out cs)) = (ss, Inr s_res)"
    "c_res = \<lparr>hs_keys = keys, peer_padding = True, peer_envelope = True, hs_confirmed = True, peer_trial = True,
       trial_max_rtt_us = max (max (max (- 1) (us 0)) (us 1)) (us 2), psk_index = 0, hs_pool_connections = pool,
       client_nonce = hex_encode cn, server_nonce = hex_encode sn\<rparr>"
    "s_res = \<lparr>hs_keys = keys, peer_padding = True, peer_envelope = True, hs_confirmed = True, peer_trial = True,
       trial_max_rtt_us = - 1, psk_index = i, hs_pool_connections = pool,
       client_nonce = hex_encode cn, server_nonce = hex_encode sn\<rparr>"
    "hs_in cs = []" "hs_in ss = []" "hs_authenticated cs" "hs_authenticated ss"
    "se_request senv = Inr (hs_http cs)" "ce_response cenv = Inr (hs_http ss)"
    "hs_out cs = (client_prefix pool @ hex_encode cn @ hex_encode (x25519_pub H (ce_private cenv)) @ t) # co" "length t = 64"
    "hs_out ss = (server_prefix pool @ hex_encode sn @ hex_encode (x25519_pub H (se_private senv)) @ pf) # so" "length pf = 64"
proof -
  obtain cpub spub t pf shared keys mc ms where v:
    "x25519_pub H (ce_private cenv) = cpub" "length cpub = 32" "x25519_pub H (se_private senv) = spub" "length spub = 32"
    "websocket_client_auth_token_v5 (base H) (psks ! i) (str host) (str path) (hex_encode cn) (hex_encode cpub @ pool_bind pool) = Inr t" "length t = 64"
    "find_psk (base H) (str host) (str path) (hex_encode cn) (hex_encode cpub @ pool_bind pool) t 0 psks = Inr (i, psks ! i)"
    "websocket_server_proof_v5 (base H) (psks ! i) (str host) (str path) (hex_encode cn) (hex_encode sn) (hex_encode cpub) (hex_encode spub @ pool_bind pool) = Inr pf"
    "length pf = 64"
    "x25519_shared_secret H (ce_private cenv) spub = Inr shared" "x25519_shared_secret H (se_private senv) cpub = Inr shared"
    "derive_session_keys_v5 H (psks ! i) shared (hex_encode sn) (hex_encode cn) cpub spub = Inr keys" "length (auth keys) = 32"
    "confirmation_mac H keys True = Inr mc" "confirmation_mac H keys False = Inr ms"
    by (rule honest_values [OF assms(1,3)])
  have hm: "hmac_ok (base H)" using assms(1) by (simp add: kex_ok_def)
  have h: "cr \<notin> set host" "cr \<notin> set path" "1 \<le> pool" "pool \<le> 4" "ce_nonce cenv = Some cn" "length cn = 32"
    "se_nonce senv = Some sn" "length sn = 32" "ce_key cenv = Some k" "length k = 16"
    "ce_write cenv = Inr ()" "ce_response cenv = Inr (upgrade_response H (b64_encode H k))"
    "se_write senv = Inr ()" "se_request senv = Inr (upgrade_request (ce_profile cenv) host path (b64_encode H k))"
    "\<And>j. j < 3 \<Longrightarrow> ce_rounds cenv j = (Some (n j), us j)" "\<And>j. j < 3 \<Longrightarrow> max_rtt > 0 \<Longrightarrow> us j \<le> max_rtt * 1000"
    "\<And>j. length (n j) = 32" "ce_keygen cenv = Inr ()" "se_keygen senv = Inr ()"
    using assms(3) by (simp_all add: honest_sides_def)
  let ?chello = "client_prefix pool @ hex_encode cn @ hex_encode cpub @ t"
    and ?shello = "server_prefix pool @ hex_encode sn @ hex_encode spub @ pf"
  let ?cout = "[?chello, mc] @ trial_requests H keys n" and ?sout = "[?shello, ms] @ trial_responses H keys n"
  let ?best = "max (max (max (- 1) (us 0)) (us 1)) (us 2)"
  note tc = trial_client_run [OF hm v(13) h(15,16), where bs = "[]"]
  note ts = trial_server_run [OF hm v(13) h(17), where bs = "[]"]
  note ash = server_hello_accepted [OF v(1,4) h(8) v(9,8,10,12)]
  note ach = client_hello_accepted [OF v(2) h(6) v(6,7)]
  have g: "\<not> (pool < 1 \<or> pool > 4)" using h(3,4) by simp
  have f: "take 64 (drop 71 ?chello) = hex_encode cpub"
    by (rule hello_fields(4)) (use v h in simp_all)
  have "websocket_client_upgrade H cenv host path (psks ! i) max_rtt trial pool (fresh_handshake ?sout) =
    (\<lparr>hs_http = upgrade_request (ce_profile cenv) host path (b64_encode H k), hs_in = [], hs_out = ?cout, hs_upgraded = True,
      hs_authenticated = True\<rparr>,
     Inr \<lparr>hs_keys = keys, peer_padding = True, peer_envelope = True, hs_confirmed = True, peer_trial = True,
       trial_max_rtt_us = ?best, psk_index = 0, hs_pool_connections = pool,
       client_nonce = hex_encode cn, server_nonce = hex_encode sn\<rparr>)"
    unfolding websocket_client_upgrade_def fresh_handshake_def if_not_P [OF g]
    by (simp add: run random_nonce_hex_def key32_hex_def rand_key_def h v(1,2,4,5,6,9) response_accepted [OF assms(2)] ash
        bindS_run [OF confirm_runs(1) [OF v(14,15)]] bindS_run [OF tc]) (simp add: retS_def)
  moreover have "websocket_server_upgrade H senv host path psks pool (fresh_handshake ?cout) =
    (\<lparr>hs_http = upgrade_response H (b64_encode H k), hs_in = [], hs_out = ?sout, hs_upgraded = True,
      hs_authenticated = True\<rparr>,
     Inr \<lparr>hs_keys = keys, peer_padding = True, peer_envelope = True, hs_confirmed = True, peer_trial = True,
       trial_max_rtt_us = - 1, psk_index = i, hs_pool_connections = pool,
       client_nonce = hex_encode cn, server_nonce = hex_encode sn\<rparr>)"
    unfolding websocket_server_upgrade_def fresh_handshake_def if_not_P [OF g]
    by (simp add: run random_nonce_hex_def key32_hex_def h v(2,3,4,6,8,9,11,12) request_accepted [OF h(1,2) assms(2) h(10)] ach f
        bindS_run [OF confirm_runs(2) [OF v(14,15)]] bindS_run [OF ts]) (simp add: retS_def)
  ultimately show ?thesis
    using h(12,14) v(6,9) by (intro that [where ss = "\<lparr>hs_http = _, hs_in = _, hs_out = ?sout, hs_upgraded = _, hs_authenticated = _\<rparr>"
      and cs = "\<lparr>hs_http = _, hs_in = _, hs_out = ?cout, hs_upgraded = _, hs_authenticated = _\<rparr>" and t = t and pf = pf]) (simp_all only: hs_state.select_convs v(1,3) append_Cons append_Nil)
qed

section \<open>What a finished run has done\<close>

text \<open>No step takes back what was sent.\<close>

interpretation outputs: preserved "\<lambda>s t. prefix (hs_out s) (hs_out t)"
  by unfold_locales (auto intro: prefix_order.trans)

abbreviation appends :: "'a hs \<Rightarrow> bool" where
  "appends m \<equiv> keeps (\<lambda>s t. prefix (hs_out s) (hs_out t)) m"

lemma appends_steps [simp, intro]: "appends (retS r)" "appends (sendH m)" "appends (recvH t)" "appends (expectH t a b)"
  by (auto simp: keeps_def retS_def sendH_def recvH_def expectH_def split: option.splits)

lemma appends_confirm: "appends (confirm_session H client keys)"
  by (auto simp: confirm_session_def Let_def intro!: outputs.keeps_bindS)

lemma appends_rounds: "appends (server_rounds H keys j r nonce)"
  by (induction r arbitrary: j nonce) (auto simp: Let_def intro!: outputs.keeps_bindS)

lemma appends_trial: "appends (trial_server H keys)"
  unfolding trial_server_def by (intro outputs.keeps_bindS appends_rounds appends_steps)

lemma find_psk_Inr:
  "find_psk C h p n k t j psks = Inr (i, q) \<Longrightarrow> j \<le> i \<and> i - j < length psks \<and> psks ! (i - j) = q"
proof (induction psks arbitrary: j)
  case (Cons q' psks)
  then consider "i = j" "q' = q" | "find_psk C h p n k t (j + 1) psks = Inr (i, q)"
    by (auto simp: result_iff lift_record_eq split: if_splits)
  then show ?case
  proof cases
    case 2
    then have "j + 1 \<le> i \<and> i - (j + 1) < length psks \<and> psks ! (i - (j + 1)) = q" by (rule Cons.IH)
    then show ?thesis by (auto simp: nth_Cons')
  qed simp
qed simp

lemma receive_handshake_Inr:
  assumes "receive_handshake s = (s', Inr m)" "next_batch (hs_in s) = Some (m' # rest, bs)"
  shows "m = m'" "hs_out s' = hs_out s"
  using assms by (auto simp: receive_handshake_def split: if_splits)

lemma decode_nonces_length: "decode_nonces s c = Inr x \<Longrightarrow> hex_decode s = Inr (fst x) \<and> length (fst x) = 32"
  by (auto simp: decode_nonces_def result_iff split: if_splits)

lemma derive_v5_nonce:
  "derive_session_keys_v5 H q sh (hex_encode b) cn cpub spub = Inr keys \<Longrightarrow> length b = 32"
  using decode_nonces_length [of "hex_encode b" cn]
  by (auto simp: derive_session_keys_v5_def result_iff hex_decode_encode split: if_splits)

lemma server_run_inv:
  assumes "websocket_server_upgrade H env host path psks pool s = (s', Inr r)" "hs_out s = []" "next_batch (hs_in s) = Some (hello # rest, bs)"
  obtains cpub q pf sh where "length hello = hello_size" "key32_from_hex (take 64 (drop 71 hello)) = Inr cpub"
    "client_nonce r = take 64 (drop 7 hello)" "length (server_nonce r) = 64" "psk_index r < length psks" "psks ! psk_index r = q"
    "websocket_server_proof_v5 (base H) q (str host) (str path) (client_nonce r) (server_nonce r) (take 64 (drop 71 hello))
       (hex_encode (x25519_pub H (se_private env)) @ pool_bind pool) = Inr pf"
    "x25519_shared_secret H (se_private env) cpub = Inr sh" "length (x25519_pub H (se_private env)) = 32"
    "derive_session_keys_v5 H q sh (server_nonce r) (client_nonce r) cpub (x25519_pub H (se_private env)) = Inr (hs_keys r)"
    "hd (hs_out s') = server_prefix pool @ server_nonce r @ hex_encode (x25519_pub H (se_private env)) @ pf"
    "1 \<le> pool" "pool \<le> 4" "hs_pool_connections r = pool"
proof -
  have g: "\<not> (pool < 1 \<or> pool > 4)" using assms(1) by (auto simp: websocket_server_upgrade_def retS_def)
  from assms(1) obtain hello' cn cpub i q snonce spub pf sh keys t1 t2 t3 t4 t5 where v:
    "receive_handshake t1 = (t2, Inr hello')" "hs_in t1 = hs_in s" "hs_out t1 = hs_out s"
    "accept_client_hello H psks host path pool hello' = Inr (cn, cpub, i, q)"
    "random_nonce_hex (se_nonce env) = Inr snonce" "key32_hex (x25519_pub H (se_private env)) = Inr spub"
    "websocket_server_proof_v5 (base H) q (str host) (str path) cn snonce (take 64 (drop 71 hello')) (spub @ pool_bind pool) = Inr pf"
    "x25519_shared_secret H (se_private env) cpub = Inr sh"
    "derive_session_keys_v5 H q sh snonce cn cpub (x25519_pub H (se_private env)) = Inr keys"
    "send_handshake (server_prefix pool @ snonce @ spub @ pf) t2 = (t3, Inr ())"
    "confirm_session H False keys t3 = (t4, Inr ())" "trial_server H keys t4 = (t5, Inr ())" "authenticatedH t5 = (s', Inr ())"
    "r = \<lparr>hs_keys = keys, peer_padding = True, peer_envelope = True, hs_confirmed = True, peer_trial = True,
                   trial_max_rtt_us = - 1, psk_index = i, hs_pool_connections = pool,
                   client_nonce = cn, server_nonce = snonce\<rparr>"
    unfolding websocket_server_upgrade_def if_not_P [OF g]
    by (clarsimp simp: bindS_Inr retS_Inr lift_record_eq httpH_def upgradedH_def)
  have hello: "hello' = hello" "hs_out t2 = []"
    using receive_handshake_Inr [OF v(1), unfolded v(2,3), OF assms(3)] assms(2) by simp_all
  have spub: "spub = hex_encode (x25519_pub H (se_private env))" "length (x25519_pub H (se_private env)) = 32"
    using v(6) by (auto simp: key32_hex_def split: if_splits)
  obtain b where b: "snonce = hex_encode b" using v(5) by (auto simp: random_nonce_hex_def result_iff)
  have "length snonce = 64" using derive_v5_nonce v(9) by (simp add: b)
  moreover have "hs_out t3 = [server_prefix pool @ snonce @ spub @ pf]"
    using v(10) hello(2) by (auto simp: send_handshake_def sendH_def retS_def split: if_splits)
  then have "prefix [server_prefix pool @ snonce @ spub @ pf] (hs_out s')"
    using appends_confirm [of H False keys] appends_trial [of H keys] v(11-13) unfolding keeps_def authenticatedH_def
    by (metis (no_types, lifting) fst_conv hs_state.select_convs(3) hs_state.surjective hs_state.update_convs(5) prefix_order.trans)
  then have "hd (hs_out s') = server_prefix pool @ snonce @ spub @ pf" by (auto simp: prefix_def)
  moreover have "length hello = hello_size" "key32_from_hex (take 64 (drop 71 hello)) = Inr cpub" "cn = take 64 (drop 7 hello)"
    "find_psk (base H) (str host) (str path) cn (take 64 (drop 71 hello) @ pool_bind pool) (take 64 (drop 135 hello)) 0 psks = Inr (i, q)"
    using v(4) by (auto simp: hello accept_client_hello_def Let_def result_iff split: if_splits sum.splits)
  moreover from this(4) have "i < length psks" "psks ! i = q" by (auto dest: find_psk_Inr)
  ultimately show ?thesis using v(7-9,14) g spub hello by (intro that [of cpub q pf sh]) simp_all
qed

lemma client_run_inv:
  assumes "websocket_client_upgrade H env host path psk max_rtt trial pool s = (s', Inr r)" "next_batch (hs_in s) = Some (response # rest, bs)"
  obtains spub sh where "length response = hello_size" "key32_from_hex (take 64 (drop 71 response)) = Inr spub"
    "server_nonce r = take 64 (drop 7 response)" "length (client_nonce r) = 64" "length (x25519_pub H (ce_private env)) = 32"
    "websocket_server_proof_v5 (base H) psk (str host) (str path) (client_nonce r) (server_nonce r) (hex_encode (x25519_pub H (ce_private env)))
       (take 64 (drop 71 response) @ pool_bind pool) = Inr (take 64 (drop 135 response))"
    "x25519_shared_secret H (ce_private env) spub = Inr sh"
    "derive_session_keys_v5 H psk sh (server_nonce r) (client_nonce r) (x25519_pub H (ce_private env)) spub = Inr (hs_keys r)"
    "1 \<le> pool" "pool \<le> 4" "hs_pool_connections r = pool"
proof -
  have g: "\<not> (pool < 1 \<or> pool > 4)" using assms(1) by (auto simp: websocket_client_upgrade_def retS_def)
  from assms(1) obtain cn cpub m t1 t2 keys snonce best where v:
    "random_nonce_hex (ce_nonce env) = Inr cn" "key32_hex (x25519_pub H (ce_private env)) = Inr cpub"
    "receive_handshake t1 = (t2, Inr m)" "hs_in t1 = hs_in s"
    "accept_server_hello H psk host path pool (ce_private env) cn m = Inr (keys, snonce)"
    "r = \<lparr>hs_keys = keys, peer_padding = True, peer_envelope = True, hs_confirmed = True, peer_trial = True,
                   trial_max_rtt_us = best, psk_index = 0, hs_pool_connections = pool,
                   client_nonce = cn, server_nonce = snonce\<rparr>"
    unfolding websocket_client_upgrade_def if_not_P [OF g]
    by (clarsimp simp: bindS_Inr retS_Inr lift_record_eq httpH_def upgradedH_def send_handshake_def sendH_def split: if_splits)
  have m: "m = response" using receive_handshake_Inr [OF v(3), unfolded v(4), OF assms(2)] by simp
  have l: "length (x25519_pub H (ce_private env)) = 32" using v(2) by (auto simp: key32_hex_def split: if_splits)
  obtain spub sh where a: "length response = hello_size" "key32_from_hex (take 64 (drop 71 response)) = Inr spub"
    "snonce = take 64 (drop 7 response)" 
    "websocket_server_proof_v5 (base H) psk (str host) (str path) cn snonce (hex_encode (x25519_pub H (ce_private env)))
       (take 64 (drop 71 response) @ pool_bind pool) = Inr (take 64 (drop 135 response))"
    "x25519_shared_secret H (ce_private env) spub = Inr sh"
    "derive_session_keys_v5 H psk sh snonce cn (x25519_pub H (ce_private env)) spub = Inr keys"
    using v(5) by (auto simp: m accept_server_hello_def Let_def result_iff lift_record_eq split: if_splits sum.splits)
  obtain b where "cn = hex_encode b" using v(1) by (auto simp: random_nonce_hex_def result_iff)
  then have "length cn = 64" using a(6) by (auto simp: derive_session_keys_v5_def result_iff decode_nonces_def hex_decode_encode split: if_splits)
  then show ?thesis using that a l v(6) g by simp
qed

section \<open>Properties\<close>

lemma of_char_byte: "(of_char a :: byte) = of_char b \<longleftrightarrow> a = b"
proof
  assume "(of_char a :: byte) = of_char b"
  then have "(of_nat (of_char a) :: byte) = of_nat (of_char b)" by (simp only: of_nat_of_char)
  then have "(of_char a :: nat) = of_char b" by (simp add: word_of_nat_eq_iff take_bit_eq_mod)
  then show "a = b" by simp
qed simp

lemma str_inj: "str a = str b \<longleftrightarrow> a = b"
  by (simp add: str_def inj_map_eq_map inj_on_def of_char_byte)

lemma str_newline: "10 \<in> set (str h) \<longleftrightarrow> CHR 0x0A \<in> set h"
proof -
  have "(10 :: byte) = of_char (CHR 0x0A)" by simp
  then show ?thesis unfolding str_def by (simp only: set_map image_iff of_char_byte) blast
qed

lemma server_proofs_eq:
  assumes "websocket_server_proof_v5 C k h p cn sn cp sp = Inr t" "websocket_server_proof_v5 C k' h' p' cn' sn' cp' sp' = Inr t"
  shows "mac C k (server_transcript h p cn sn cp sp) = mac C k' (server_transcript h' p' cn' sn' cp' sp')"
proof -
  obtain m m' where "mac C k (server_transcript h p cn sn cp sp) = Inr m" "mac C k' (server_transcript h' p' cn' sn' cp' sp') = Inr m'"
    "hex_encode m = hex_encode m'" using assms by (auto simp: websocket_server_proof_v5_def result_iff)
  then show ?thesis using hex_encode_inj by metis
qed

lemma append_parts: "a @ b = c @ d \<Longrightarrow> length a = length c \<Longrightarrow> a = c \<and> b = d"
  by simp

lemma transcripts_agree:
  assumes "server_transcript (str h) (str p) cn sn (hex_encode cpub) sp = server_transcript (str h') (str p') cn' sn' cp' sp'"
    and "CHR 0x0A \<notin> set h" "CHR 0x0A \<notin> set p" "CHR 0x0A \<notin> set h'" "CHR 0x0A \<notin> set p'"
    and "length cn = 64" "length cn' = 64" "length sn = 64" "length sn' = 64" "length cpub = 32" "length cp' = 64"
  shows "str h = str h'" "str p = str p'" "cn = cn'" "sn = sn'" "hex_encode cpub = cp'" "sp = sp'"
  using server_transcript_inj [OF assms(1)] assms(2-) by (simp_all add: str_newline)

text \<open>
  C24: a client and a server with the same host, path and pool size, the client's key among the server's and no earlier key of
  the server giving the same token, complete the handshake when each receives what the other sends: the HTTP request and
  response are accepted, both sides are authenticated with the same session keys and nonces, the server identifies the client's key, and
  every message is consumed.
\<close>

theorem handshake_completes:
  assumes "kex_ok H" "b64_ok H" "honest_sides H host path pool psks i cenv senv max_rtt cn sn k n us"
  shows "\<exists>cs c_res ss s_res.
    websocket_client_upgrade H cenv host path (psks ! i) max_rtt trial pool (fresh_handshake (hs_out ss)) = (cs, Inr c_res) \<and>
    websocket_server_upgrade H senv host path psks pool (fresh_handshake (hs_out cs)) = (ss, Inr s_res) \<and>
    se_request senv = Inr (hs_http cs) \<and> ce_response cenv = Inr (hs_http ss) \<and>
    hs_keys c_res = hs_keys s_res \<and> client_nonce c_res = client_nonce s_res \<and> server_nonce c_res = server_nonce s_res \<and>
    psk_index s_res = i \<and> hs_in cs = [] \<and> hs_in ss = [] \<and> hs_authenticated cs \<and> hs_authenticated ss"
proof -
  obtain cs c_res ss s_res keys t pf co so where r:
    "websocket_client_upgrade H cenv host path (psks ! i) max_rtt trial pool (fresh_handshake (hs_out ss)) = (cs, Inr c_res)"
    "websocket_server_upgrade H senv host path psks pool (fresh_handshake (hs_out cs)) = (ss, Inr s_res)"
    "c_res = \<lparr>hs_keys = keys, peer_padding = True, peer_envelope = True, hs_confirmed = True, peer_trial = True,
       trial_max_rtt_us = max (max (max (- 1) (us 0)) (us 1)) (us 2), psk_index = 0, hs_pool_connections = pool,
       client_nonce = hex_encode cn, server_nonce = hex_encode sn\<rparr>"
    "s_res = \<lparr>hs_keys = keys, peer_padding = True, peer_envelope = True, hs_confirmed = True, peer_trial = True,
       trial_max_rtt_us = - 1, psk_index = i, hs_pool_connections = pool,
       client_nonce = hex_encode cn, server_nonce = hex_encode sn\<rparr>"
    "hs_in cs = []" "hs_in ss = []" "hs_authenticated cs" "hs_authenticated ss"
    "se_request senv = Inr (hs_http cs)" "ce_response cenv = Inr (hs_http ss)"
    "hs_out cs = (client_prefix pool @ hex_encode cn @ hex_encode (x25519_pub H (ce_private cenv)) @ t) # co" "length t = 64"
    "hs_out ss = (server_prefix pool @ hex_encode sn @ hex_encode (x25519_pub H (se_private senv)) @ pf) # so" "length pf = 64"
    by (rule honest_run [OF assms])
  then show ?thesis by (intro exI [of _ cs] exI [of _ c_res] exI [of _ ss] exI [of _ s_res]) simp
qed

text \<open>
  C23: whatever the network does to the messages, a client that finishes the handshake on a server hello whose proof a finished
  server run has made holds the same session keys as that server, made from the same pre-shared key, nonces, host, path and
  pool size, unless the two proofs are an HMAC collision between different keys or transcripts.
\<close>

theorem key_agreement:
  assumes "kex_ok H"
    and client: "websocket_client_upgrade H cenv host path psk max_rtt trial pool c0 = (c1, Inr c_res)" "next_batch (hs_in c0) = Some (response # rs, cb)"
    and server: "websocket_server_upgrade H senv host' path' psks pool' s0 = (s1, Inr s_res)" "next_batch (hs_in s0) = Some (hello # hs, sb)"
      "hs_out s0 = []"
    and same_proof: "drop 135 response = drop 135 (hd (hs_out s1))"
    and no_collision: "let tc = server_transcript (str host) (str path) (client_nonce c_res) (server_nonce c_res)
          (hex_encode (x25519_pub H (ce_private cenv))) (take 64 (drop 71 response) @ pool_bind pool);
        ts = server_transcript (str host') (str path') (client_nonce s_res) (server_nonce s_res)
          (take 64 (drop 71 hello)) (hex_encode (x25519_pub H (se_private senv)) @ pool_bind pool') in
        mac (base H) psk tc = mac (base H) (psks ! psk_index s_res) ts \<longrightarrow> psk = psks ! psk_index s_res \<and> tc = ts"
    and lines: "CHR 0x0A \<notin> set host" "CHR 0x0A \<notin> set path" "CHR 0x0A \<notin> set host'" "CHR 0x0A \<notin> set path'"
  shows "hs_keys c_res = hs_keys s_res \<and> psk = psks ! psk_index s_res \<and>
    client_nonce c_res = client_nonce s_res \<and> server_nonce c_res = server_nonce s_res \<and> host = host' \<and> path = path' \<and> pool = pool'"
proof -
  let ?cpub = "x25519_pub H (ce_private cenv)" and ?spub = "x25519_pub H (se_private senv)"
  obtain spub csh where c: "length response = hello_size" "key32_from_hex (take 64 (drop 71 response)) = Inr spub"
    "server_nonce c_res = take 64 (drop 7 response)" "length (client_nonce c_res) = 64" "length ?cpub = 32"
    "websocket_server_proof_v5 (base H) psk (str host) (str path) (client_nonce c_res) (server_nonce c_res) (hex_encode ?cpub)
       (take 64 (drop 71 response) @ pool_bind pool) = Inr (take 64 (drop 135 response))"
    "x25519_shared_secret H (ce_private cenv) spub = Inr csh"
    "derive_session_keys_v5 H psk csh (server_nonce c_res) (client_nonce c_res) ?cpub spub = Inr (hs_keys c_res)"
    "1 \<le> pool" "pool \<le> 4" "hs_pool_connections c_res = pool"
    by (rule client_run_inv [OF client])
  obtain cpub q pf ssh where s: "length hello = hello_size" "key32_from_hex (take 64 (drop 71 hello)) = Inr cpub"
    "client_nonce s_res = take 64 (drop 7 hello)" "length (server_nonce s_res) = 64" "psk_index s_res < length psks" "psks ! psk_index s_res = q"
    "websocket_server_proof_v5 (base H) q (str host') (str path') (client_nonce s_res) (server_nonce s_res) (take 64 (drop 71 hello))
       (hex_encode ?spub @ pool_bind pool') = Inr pf"
    "x25519_shared_secret H (se_private senv) cpub = Inr ssh" "length ?spub = 32"
    "derive_session_keys_v5 H q ssh (server_nonce s_res) (client_nonce s_res) cpub ?spub = Inr (hs_keys s_res)"
    "hd (hs_out s1) = server_prefix pool' @ server_nonce s_res @ hex_encode ?spub @ pf"
    "1 \<le> pool'" "pool' \<le> 4" "hs_pool_connections s_res = pool'"
    by (rule server_run_inv [OF server(1,3,2)])
  have "length pf = 64" using s(7) by (rule token_length(2))
  have "take 64 (drop 135 response) = pf"
    unfolding same_proof s(11) using hello_fields(5) [OF length_prefixes(2) s(4) length_hex64 [OF s(9)] \<open>length pf = 64\<close>] .
  with c(6) s(7) have "mac (base H) psk (server_transcript (str host) (str path) (client_nonce c_res) (server_nonce c_res) (hex_encode ?cpub)
       (take 64 (drop 71 response) @ pool_bind pool)) =
     mac (base H) q (server_transcript (str host') (str path') (client_nonce s_res) (server_nonce s_res) (take 64 (drop 71 hello))
       (hex_encode ?spub @ pool_bind pool'))"
    by (intro server_proofs_eq) simp_all
  with no_collision s(6) have q: "psk = q" and "server_transcript (str host) (str path) (client_nonce c_res) (server_nonce c_res) (hex_encode ?cpub)
       (take 64 (drop 71 response) @ pool_bind pool) =
     server_transcript (str host') (str path') (client_nonce s_res) (server_nonce s_res) (take 64 (drop 71 hello))
       (hex_encode ?spub @ pool_bind pool')" unfolding Let_def by blast+
  moreover have "length (client_nonce s_res) = 64" "length (server_nonce c_res) = 64" "length (take 64 (drop 71 hello)) = 64"
    using c(1,3) s(1,3) by (simp_all add: hello_size_def)
  ultimately have t: "str host = str host'" "str path = str path'" "client_nonce c_res = client_nonce s_res" "server_nonce c_res = server_nonce s_res"
    "hex_encode ?cpub = take 64 (drop 71 hello)" "take 64 (drop 71 response) @ pool_bind pool = hex_encode ?spub @ pool_bind pool'"
    by - (erule transcripts_agree [OF _ lines c(4) _ _ s(4) c(5)]; assumption)+
  have h: "host = host'" "path = path'" using t by (simp_all add: str_inj)
  have "length (take 64 (drop 71 response)) = length (hex_encode ?spub)" using s(9) c(1) by (simp add: hello_size_def)
  with t(6) have p: "take 64 (drop 71 response) = hex_encode ?spub" "pool_bind pool = pool_bind pool'"
    by (blast dest: append_parts)+
  then have "pool = pool'" using pool_bind_inj c(9,10) s(12,13) by blast
  have "spub = ?spub" using c(2) p(1) key32_from_hex_encode [OF s(9)] by simp
  moreover have "cpub = ?cpub" using s(2) t(5) key32_from_hex_encode [OF c(5)] by simp
  moreover have "length (ce_private cenv) = 32" "length (se_private senv) = 32"
    using c(7) s(8) by (auto simp: x25519_shared_secret_def split: if_splits)
  ultimately have "csh = ssh" using shared_secret_agrees [OF assms(1)] c(7) s(8) by (metis sum.inject(2))
  then have "hs_keys c_res = hs_keys s_res"
    using c(8) s(10) q t \<open>spub = ?spub\<close> \<open>cpub = ?cpub\<close> by simp
  then show ?thesis using q s(6) t h \<open>pool = pool'\<close> by simp
qed

section \<open>Witnesses\<close>

text \<open>A concrete exchange: the public key is the private one, the shared secret a sum.\<close>

definition demo_kex :: kex where
  "demo_kex = \<lparr>base = demo_crypto, sha256 = (\<lambda>d. replicate 32 (demo_sum d)),
     x25519 = (\<lambda>a p. Some (1 # tl (map2 (+) a p))), x25519_pub = (\<lambda>a. a), sha1 = (\<lambda>d. replicate 20 (demo_sum d)),
     b64_encode = (\<lambda>d. replicate 22 (CHR ''A'') @ ''==''), b64_decoded = (\<lambda>s. 18)\<rparr>"

lemma demo_kex_ok: "kex_ok demo_kex"
proof -
  have "map2 (+) a b = map2 (+) b (a :: bytes)" for a b
    by (rule nth_equalityI) (auto simp: add.commute)
  then show ?thesis by (auto simp: kex_ok_def demo_kex_def)
qed

lemma demo_b64_ok: "b64_ok demo_kex"
  by (simp add: b64_ok_def demo_kex_def is_space_def nth_append list_all_iff)

definition demo_client_env :: client_env where
  "demo_client_env = \<lparr>ce_keygen = Inr (), ce_private = replicate 32 3, ce_nonce = Some (replicate 32 1), ce_key = Some (replicate 16 9), ce_profile = ''none'',
     ce_write = Inr (), ce_response = Inr (upgrade_response demo_kex (b64_encode demo_kex (replicate 16 9))),
     ce_rounds = (\<lambda>j. (Some (replicate 32 (of_nat j)), 1500))\<rparr>"

definition demo_server_env :: server_env where
  "demo_server_env = \<lparr>se_request = Inr (upgrade_request ''none'' ''edge.example'' ''/ws'' (b64_encode demo_kex (replicate 16 9))),
     se_write = Inr (), se_keygen = Inr (), se_private = replicate 32 4, se_nonce = Some (replicate 32 2)\<rparr>"

lemma demo_honest:
  "honest_sides demo_kex ''edge.example'' ''/ws'' 2 [replicate 32 8, replicate 32 7] 0 demo_client_env demo_server_env 20
     (replicate 32 1) (replicate 32 2) (replicate 16 9) (\<lambda>j. replicate 32 (of_nat j)) (\<lambda>j. 1500)"
  by (simp add: honest_sides_def demo_client_env_def demo_server_env_def cr_def)

theorem handshake_completes_witness:
  "\<exists>cs c_res ss s_res.
    websocket_client_upgrade demo_kex demo_client_env ''edge.example'' ''/ws'' (replicate 32 8) 20 True 2 (fresh_handshake (hs_out ss)) = (cs, Inr c_res) \<and>
    websocket_server_upgrade demo_kex demo_server_env ''edge.example'' ''/ws'' [replicate 32 8, replicate 32 7] 2 (fresh_handshake (hs_out cs)) = (ss, Inr s_res) \<and>
    hs_keys c_res = hs_keys s_res \<and> psk_index s_res = 0 \<and> hs_authenticated cs \<and> hs_authenticated ss"
  using handshake_completes [OF demo_kex_ok demo_b64_ok demo_honest, of True] by auto

theorem key_agreement_witness:
  "\<exists>cs c_res ss s_res.
    websocket_client_upgrade demo_kex demo_client_env ''edge.example'' ''/ws'' (replicate 32 8) 20 True 2 (fresh_handshake (hs_out ss)) = (cs, Inr c_res) \<and>
    websocket_server_upgrade demo_kex demo_server_env ''edge.example'' ''/ws'' [replicate 32 8, replicate 32 7] 2 (fresh_handshake (hs_out cs)) = (ss, Inr s_res) \<and>
    hs_keys c_res = hs_keys s_res"
proof -
  let ?a = "replicate 32 3 :: bytes" and ?b = "replicate 32 4 :: bytes" and ?cn = "replicate 32 1 :: bytes" and ?sn = "replicate 32 2 :: bytes"
  have p: "x25519_pub demo_kex (ce_private demo_client_env) = ?a" "x25519_pub demo_kex (se_private demo_server_env) = ?b"
    by (simp_all add: demo_kex_def demo_client_env_def demo_server_env_def)
  obtain cs c_res ss s_res keys t pf co so where r:
    "websocket_client_upgrade demo_kex demo_client_env ''edge.example'' ''/ws'' ([replicate 32 8, replicate 32 7] ! 0) 20 True 2 (fresh_handshake (hs_out ss)) = (cs, Inr c_res)"
    "websocket_server_upgrade demo_kex demo_server_env ''edge.example'' ''/ws'' [replicate 32 8, replicate 32 7] 2 (fresh_handshake (hs_out cs)) = (ss, Inr s_res)"
    "c_res = \<lparr>hs_keys = keys, peer_padding = True, peer_envelope = True, hs_confirmed = True, peer_trial = True,
       trial_max_rtt_us = max (max (max (- 1) 1500) 1500) 1500, psk_index = 0, hs_pool_connections = 2,
       client_nonce = hex_encode ?cn, server_nonce = hex_encode ?sn\<rparr>"
    "s_res = \<lparr>hs_keys = keys, peer_padding = True, peer_envelope = True, hs_confirmed = True, peer_trial = True,
       trial_max_rtt_us = - 1, psk_index = 0, hs_pool_connections = 2,
       client_nonce = hex_encode ?cn, server_nonce = hex_encode ?sn\<rparr>"
    "hs_out cs = (client_prefix 2 @ hex_encode ?cn @ hex_encode ?a @ t) # co" "length t = 64"
    "hs_out ss = (server_prefix 2 @ hex_encode ?sn @ hex_encode ?b @ pf) # so" "length pf = 64"
    using honest_run [OF demo_kex_ok demo_b64_ok demo_honest, of True, unfolded p] by metis
  let ?chello = "client_prefix 2 @ hex_encode ?cn @ hex_encode ?a @ t" and ?shello = "server_prefix 2 @ hex_encode ?sn @ hex_encode ?b @ pf"
  have f: "take 64 (drop 71 ?chello) = hex_encode ?a" "take 64 (drop 71 ?shello) = hex_encode ?b"
    by (rule hello_fields(4); simp add: r(6,8))+
  have n: "next_batch (hs_in (fresh_handshake (hs_out ss))) = Some ([?shello], map (\<lambda>m. [m]) so)"
    "next_batch (hs_in (fresh_handshake (hs_out cs))) = Some ([?chello], map (\<lambda>m. [m]) co)" "hs_out (fresh_handshake (hs_out cs)) = []"
    by (simp_all only: fresh_handshake_def r(5,7) hs_state.select_convs list.map next_batch.simps)
  have "hs_keys c_res = hs_keys s_res \<and> [replicate 32 8, replicate 32 7 :: bytes] ! 0 = [replicate 32 8, replicate 32 7] ! psk_index s_res \<and>
    client_nonce c_res = client_nonce s_res \<and> server_nonce c_res = server_nonce s_res \<and> ''edge.example'' = ''edge.example'' \<and> ''/ws'' = ''/ws'' \<and> (2::int) = 2"
    by (rule key_agreement [OF demo_kex_ok r(1) n(1) r(2) n(2,3)])
      (simp_all only: r(7) list.sel Let_def f p r(3,4) ws_handshake_result.select_convs simp_thms, simp_all)
  then show ?thesis using r(1,2) by auto
qed

end
