(* ===== verification/Admission.thy ===== *)
theory Admission
  imports Handshake "HOL-Library.Multiset"
begin

text \<open>
  The admission server of \<open>src/cdn/src/admission.cpp\<close>: an acceptor that fills a bounded queue, worker threads that
  upgrade connections, and the consumer that takes the admitted ones. A critical section under \<open>mu_\<close> is one function;
  the threads interleave as the steps of \<open>adm_step\<close>, and the invariants hold in every reachable state. The outcome
  of an upgrade is an argument of the step, since a worker runs \<open>websocket_server_upgrade\<close> outside the lock.
\<close>

section \<open>State\<close>

record admitted =
  adm_fd :: int
  adm_handshake :: ws_handshake_result

text \<open>
  The fields of the class, the threads' connections (\<open>adm_busy\<close> in the workers, \<open>adm_taken\<close> with the consumer), and what
  the kernel has seen: the accepted and the closed sockets, and those answered with the fallback page.
\<close>

record admission =
  adm_limit :: int
  adm_workers :: int
  adm_max_active :: int
  adm_stop :: bool
  adm_claimed :: nat
  adm_pending :: "int list"
  adm_ready :: "admitted list"
  adm_rejected :: nat
  adm_overloaded :: nat
  adm_busy :: "int list"
  adm_taken :: "admitted list"
  adm_accepted :: "int list"
  adm_closed :: "int list"
  adm_fallback :: "int list"

section \<open>Operations\<close>

definition new_admission :: "int \<Rightarrow> int \<Rightarrow> int \<Rightarrow> int \<Rightarrow> (string, admission) result" where
  "new_admission timeout workers limit pool =
     (if workers < 1 \<or> workers > 16 \<or> limit < 1 \<or> limit > 128 \<or> timeout < 100 \<or> timeout > 120000 \<or> pool < 1 \<or> pool > 4
      then Inl ''invalid admission limits''
      else Inr \<lparr>adm_limit = limit, adm_workers = workers, adm_max_active = (if pool > 1 then pool + 1 else 2), adm_stop = False,
        adm_claimed = 0, adm_pending = [], adm_ready = [], adm_rejected = 0, adm_overloaded = 0, adm_busy = [], adm_taken = [],
        adm_accepted = [], adm_closed = [], adm_fallback = []\<rparr>)"

text \<open>The critical section of \<open>accept_loop\<close>, for the socket \<open>accept4\<close> has returned.\<close>

definition adm_accept :: "int \<Rightarrow> admission \<Rightarrow> admission" where
  "adm_accept fd s =
     (let s = s\<lparr>adm_accepted := adm_accepted s @ [fd]\<rparr> in
      if adm_stop s \<or> int (length (adm_pending s)) \<ge> adm_limit s
      then s\<lparr>adm_overloaded := adm_overloaded s + 1, adm_closed := adm_closed s @ [fd]\<rparr>
      else s\<lparr>adm_pending := adm_pending s @ [fd]\<rparr>)"

text \<open>A worker takes the oldest socket; \<open>None\<close> while it waits or when it returns.\<close>

definition adm_begin :: "admission \<Rightarrow> (int \<times> admission) option" where
  "adm_begin s =
     (if adm_stop s then None
      else case adm_pending s of
        [] \<Rightarrow> None
      | fd # rest \<Rightarrow> Some (fd, s\<lparr>adm_pending := rest, adm_busy := adm_busy s @ [fd]\<rparr>))"

text \<open>
  The rest of the worker's turn. The upgrade gives a handshake, or an exception with the \<open>upgraded\<close> flag of the session; a
  connection that is not moved into \<open>ready_\<close> is closed by its destructor.
\<close>

definition adm_discard :: "int \<Rightarrow> bool \<Rightarrow> admission \<Rightarrow> admission" where
  "adm_discard fd upgraded s =
     s\<lparr>adm_rejected := adm_rejected s + 1, adm_busy := remove1 fd (adm_busy s), adm_closed := adm_closed s @ [fd],
       adm_fallback := (if upgraded then adm_fallback s else adm_fallback s @ [fd])\<rparr>"

definition adm_finish :: "int \<Rightarrow> (bool, ws_handshake_result) result \<Rightarrow> admission \<Rightarrow> admission" where
  "adm_finish fd outcome s =
     (case outcome of
        Inl upgraded \<Rightarrow> adm_discard fd upgraded s
      | Inr hs \<Rightarrow>
          let count = adm_claimed s in
          if adm_stop s \<or> int count \<ge> adm_max_active s \<or> count > 0 \<and> \<not> hs_confirmed hs
          then adm_discard fd True s
          else s\<lparr>adm_claimed := adm_claimed s + 1, adm_busy := remove1 fd (adm_busy s),
                 adm_ready := adm_ready s @ [\<lparr>adm_fd = fd, adm_handshake = hs\<rparr>]\<rparr>)"

definition has_ready :: "admission \<Rightarrow> bool" where
  "has_ready s \<longleftrightarrow> adm_ready s \<noteq> []"

definition adm_take :: "admission \<Rightarrow> admission \<times> admitted option" where
  "adm_take s =
     (case adm_ready s of
        [] \<Rightarrow> (s, None)
      | c # rest \<Rightarrow> (s\<lparr>adm_ready := rest, adm_taken := adm_taken s @ [c]\<rparr>, Some c))"

text \<open>\<open>~AdmittedConnection\<close>.\<close>

definition adm_release :: "admitted \<Rightarrow> admission \<Rightarrow> admission" where
  "adm_release c s =
     s\<lparr>adm_taken := remove1 c (adm_taken s), adm_closed := adm_closed s @ [adm_fd c], adm_claimed := adm_claimed s - 1\<rparr>"

text \<open>\<open>~AdmissionServer\<close>: the stop request, and what is left to do when the threads are joined.\<close>

definition adm_request_stop :: "admission \<Rightarrow> admission" where
  "adm_request_stop s = s\<lparr>adm_stop := True\<rparr>"

definition adm_drain :: "admission \<Rightarrow> admission" where
  "adm_drain s =
     s\<lparr>adm_pending := [], adm_ready := [], adm_closed := adm_closed s @ adm_pending s @ map adm_fd (adm_ready s),
       adm_claimed := adm_claimed s - length (adm_ready s)\<rparr>"

section \<open>Interleavings\<close>

inductive adm_step :: "admission \<Rightarrow> admission \<Rightarrow> bool" where
  accept: "adm_step s (adm_accept fd s)"
| dispatch: "adm_begin s = Some (fd, s') \<Longrightarrow> int (length (adm_busy s)) < adm_workers s \<Longrightarrow> adm_step s s'"
| finish: "fd \<in> set (adm_busy s) \<Longrightarrow> adm_step s (adm_finish fd outcome s)"
| take: "adm_take s = (s', c) \<Longrightarrow> adm_step s s'"
| release: "c \<in> set (adm_taken s) \<Longrightarrow> adm_step s (adm_release c s)"
| stop: "adm_step s (adm_request_stop s)"

inductive_cases adm_stepE: "adm_step s s'"

text \<open>The states a server started with these limits can reach.\<close>

inductive adm_reach :: "int \<Rightarrow> int \<Rightarrow> int \<Rightarrow> int \<Rightarrow> admission \<Rightarrow> bool" for timeout workers limit pool where
  start: "new_admission timeout workers limit pool = Inr s \<Longrightarrow> adm_reach timeout workers limit pool s"
| step: "adm_reach timeout workers limit pool s \<Longrightarrow> adm_step s s' \<Longrightarrow> adm_reach timeout workers limit pool s'"

section \<open>Invariants\<close>

lemma adm_limits:
  "adm_reach t w l p s \<Longrightarrow> adm_limit s = l \<and> adm_workers s = w \<and> adm_max_active s = (if p > 1 then p + 1 else 2) \<and> 1 \<le> l \<and> 1 \<le> w \<and> 1 \<le> p"
proof (induction rule: adm_reach.induct)
  case (start s)
  then show ?case by (auto simp: new_admission_def split: if_splits)
next
  case (step s s')
  from step.hyps(2) step.IH show ?case
    by cases (auto simp: adm_accept_def adm_begin_def adm_finish_def adm_discard_def adm_take_def adm_release_def adm_request_stop_def
        Let_def split: sum.splits list.splits if_splits)
qed

definition queues_bounded :: "admission \<Rightarrow> bool" where
  "queues_bounded s \<longleftrightarrow> int (length (adm_pending s)) \<le> adm_limit s \<and> int (length (adm_busy s)) \<le> adm_workers s"

definition claims_counted :: "admission \<Rightarrow> bool" where
  "claims_counted s \<longleftrightarrow> adm_claimed s = length (adm_ready s) + length (adm_taken s) \<and> int (adm_claimed s) \<le> adm_max_active s"

definition sockets_accounted :: "admission \<Rightarrow> bool" where
  "sockets_accounted s \<longleftrightarrow> mset (adm_accepted s) =
     mset (adm_pending s) + mset (adm_busy s) + mset (map adm_fd (adm_ready s)) + mset (map adm_fd (adm_taken s)) + mset (adm_closed s)"

lemmas adm_invs = queues_bounded_def claims_counted_def sockets_accounted_def

lemma remove1_parts:
  assumes "x \<in> set b"
  obtains M where "mset b = add_mset x M" "mset (remove1 x b) = M" "length b = Suc (length (remove1 x b))"
  using assms by (metis Suc_pred' insert_DiffM length_pos_if_in_set length_remove1 mset_remove1 set_mset_mset)

lemma discard_inv:
  assumes "fd \<in> set (adm_busy s)" "queues_bounded s" "claims_counted s" "sockets_accounted s"
  shows "queues_bounded (adm_discard fd u s) \<and> claims_counted (adm_discard fd u s) \<and> sockets_accounted (adm_discard fd u s)"
proof -
  obtain M where "mset (adm_busy s) = add_mset fd M" "mset (remove1 fd (adm_busy s)) = M" "length (adm_busy s) = Suc (length (remove1 fd (adm_busy s)))"
    by (rule remove1_parts [OF assms(1)])
  then show ?thesis using assms(2-4) by (simp add: adm_invs adm_discard_def del: mset_remove1)
qed

lemma finish_inv:
  assumes "fd \<in> set (adm_busy s)" "queues_bounded s" "claims_counted s" "sockets_accounted s"
  shows "queues_bounded (adm_finish fd r s) \<and> claims_counted (adm_finish fd r s) \<and> sockets_accounted (adm_finish fd r s)"
proof (cases "\<exists>hs. r = Inr hs \<and> \<not> (adm_stop s \<or> int (adm_claimed s) \<ge> adm_max_active s \<or> adm_claimed s > 0 \<and> \<not> hs_confirmed hs)")
  case True
  then obtain hs where hs: "r = Inr hs" "\<not> (adm_stop s \<or> int (adm_claimed s) \<ge> adm_max_active s \<or> adm_claimed s > 0 \<and> \<not> hs_confirmed hs)" by blast
  obtain M where "mset (adm_busy s) = add_mset fd M" "mset (remove1 fd (adm_busy s)) = M" "length (adm_busy s) = Suc (length (remove1 fd (adm_busy s)))"
    by (rule remove1_parts [OF assms(1)])
  moreover have "adm_finish fd r s = s\<lparr>adm_claimed := adm_claimed s + 1, adm_busy := remove1 fd (adm_busy s),
                 adm_ready := adm_ready s @ [\<lparr>adm_fd = fd, adm_handshake = hs\<rparr>]\<rparr>"
    unfolding adm_finish_def hs(1) Let_def sum.case if_not_P [OF hs(2)] ..
  ultimately show ?thesis using assms(2-4) hs(2) by (simp add: adm_invs del: mset_remove1)
next
  case False
  then have "\<exists>u. adm_finish fd r s = adm_discard fd u s" by (cases r) (auto simp: adm_finish_def Let_def)
  then show ?thesis using discard_inv [OF assms] by auto
qed

lemma release_inv:
  assumes "c \<in> set (adm_taken s)" "queues_bounded s" "claims_counted s" "sockets_accounted s"
  shows "queues_bounded (adm_release c s) \<and> claims_counted (adm_release c s) \<and> sockets_accounted (adm_release c s)"
proof -
  obtain M where "mset (adm_taken s) = add_mset c M" "mset (remove1 c (adm_taken s)) = M" "length (adm_taken s) = Suc (length (remove1 c (adm_taken s)))"
    by (rule remove1_parts [OF assms(1)])
  then show ?thesis using assms(2-4) by (simp add: adm_invs adm_release_def mset_map [symmetric] del: mset_remove1 mset_map) (simp add: mset_map del: mset_remove1)
qed

lemma adm_step_inv:
  assumes "adm_step s s'" "queues_bounded s" "claims_counted s" "sockets_accounted s"
  shows "queues_bounded s' \<and> claims_counted s' \<and> sockets_accounted s'"
  using assms(1)
proof cases
  case (finish fd outcome)
  then show ?thesis using finish_inv [OF _ assms(2-4)] by blast
next
  case (release c)
  then show ?thesis using release_inv [OF _ assms(2-4)] by blast
qed (use assms(2-4) in \<open>auto simp: adm_invs adm_accept_def adm_begin_def adm_take_def adm_request_stop_def Let_def split: list.splits if_splits\<close>)

lemma adm_reach_inv:
  "adm_reach t w l p s \<Longrightarrow> queues_bounded s \<and> claims_counted s \<and> sockets_accounted s"
proof (induction rule: adm_reach.induct)
  case (start s)
  then show ?case by (auto simp: new_admission_def adm_invs split: if_splits)
next
  case (step s s')
  then show ?case using adm_step_inv by blast
qed

section \<open>Properties\<close>

text \<open>
  C33: in every state the threads of an admission server can reach, whatever the order of their critical sections and the outcomes of the
  upgrades, the queue of unauthenticated sockets, the upgrades in progress and the admitted connections stay within
  their limits, the shared counter is the number of admitted connections alive, and every accepted socket is in exactly one place: no
  socket is lost and none is closed twice. Once the workers have ended, draining closes everything the consumer has not taken.
\<close>

theorem admission_bounded:
  assumes "adm_reach timeout workers limit pool s"
  shows "int (length (adm_pending s)) \<le> limit \<and> int (length (adm_busy s)) \<le> workers \<and>
    int (length (adm_ready s) + length (adm_taken s)) \<le> (if pool > 1 then pool + 1 else 2) \<and>
    adm_claimed s = length (adm_ready s) + length (adm_taken s) \<and>
    mset (adm_accepted s) = mset (adm_pending s) + mset (adm_busy s) + mset (map adm_fd (adm_ready s)) + mset (map adm_fd (adm_taken s)) + mset (adm_closed s) \<and>
    (adm_busy s = [] \<longrightarrow> mset (adm_accepted (adm_drain s)) = mset (adm_closed (adm_drain s)) + mset (map adm_fd (adm_taken (adm_drain s))) \<and>
       adm_claimed (adm_drain s) = length (adm_taken (adm_drain s)))"
  using adm_reach_inv [OF assms] adm_limits [OF assms] by (simp add: adm_invs adm_drain_def)

section \<open>Witness\<close>

definition demo_handshake :: ws_handshake_result where
  "demo_handshake = \<lparr>hs_keys = \<lparr>client_tx = [], server_tx = [], auth = []\<rparr>, peer_padding = True, peer_envelope = True, hs_confirmed = True,
     peer_trial = True, trial_max_rtt_us = - 1, psk_index = 0, hs_pool_connections = 1, client_nonce = [], server_nonce = []\<rparr>"

text \<open>Three sockets: one is admitted and taken, one fails and is closed, one is still waiting.\<close>

definition demo_admission :: admission where
  "demo_admission = \<lparr>adm_limit = 16, adm_workers = 4, adm_max_active = 2, adm_stop = False, adm_claimed = 1, adm_pending = [9],
     adm_ready = [], adm_rejected = 1, adm_overloaded = 0, adm_busy = [], adm_taken = [\<lparr>adm_fd = 7, adm_handshake = demo_handshake\<rparr>],
     adm_accepted = [7, 8, 9], adm_closed = [8], adm_fallback = [8]\<rparr>"

lemma demo_reach: "adm_reach 15000 4 16 1 demo_admission"
proof -
  define s0 where "s0 = (case new_admission 15000 4 16 1 of Inr s \<Rightarrow> s)"
  have "adm_reach 15000 4 16 1 s0" by (rule adm_reach.start) (simp add: s0_def new_admission_def)
  then have "adm_reach 15000 4 16 1 (adm_accept 9 (adm_accept 8 (adm_accept 7 s0)))" (is "adm_reach _ _ _ _ ?s1")
    by (intro adm_reach.step [OF _ adm_step.accept])
  then have "adm_reach 15000 4 16 1 (snd (the (adm_begin ?s1)))" (is "adm_reach _ _ _ _ ?s2")
    by (rule adm_reach.step) (rule adm_step.dispatch [of _ 7]; simp add: adm_begin_def adm_accept_def s0_def new_admission_def)
  then have "adm_reach 15000 4 16 1 (snd (the (adm_begin ?s2)))" (is "adm_reach _ _ _ _ ?s3")
    by (rule adm_reach.step) (rule adm_step.dispatch [of _ 8]; simp add: adm_begin_def adm_accept_def s0_def new_admission_def)
  then have "adm_reach 15000 4 16 1 (adm_finish 8 (Inl False) ?s3)" (is "adm_reach _ _ _ _ ?s4")
    by (rule adm_reach.step) (rule adm_step.finish; simp add: adm_begin_def adm_accept_def s0_def new_admission_def)
  then have "adm_reach 15000 4 16 1 (adm_finish 7 (Inr demo_handshake) ?s4)" (is "adm_reach _ _ _ _ ?s5")
    by (rule adm_reach.step) (rule adm_step.finish; simp add: adm_finish_def adm_discard_def adm_begin_def adm_accept_def s0_def new_admission_def)
  then have "adm_reach 15000 4 16 1 (fst (adm_take ?s5))"
    by (rule adm_reach.step) (rule adm_step.take [of _ _ "snd (adm_take ?s5)"]; simp)
  moreover have "fst (adm_take ?s5) = demo_admission"
    by (simp add: adm_take_def adm_finish_def adm_discard_def adm_begin_def adm_accept_def s0_def new_admission_def demo_admission_def demo_handshake_def)
  ultimately show ?thesis by simp
qed

theorem admission_bounded_witness:
  "int (length (adm_pending demo_admission)) \<le> 16 \<and> int (length (adm_busy demo_admission)) \<le> 4 \<and>
   adm_claimed demo_admission = 1 \<and> mset (adm_closed (adm_drain demo_admission)) = {#8, 9#}"
  using admission_bounded [OF demo_reach] by (simp add: demo_admission_def adm_drain_def)

end
