(* ===== verification/RuntimeBase.thy ===== *)
theory RuntimeBase
  imports Config Telemetry StateError "HOL-Library.Signed_Division"
begin

text \<open>
  The parts of \<open>src/cdn/src/runtime.cpp\<close> below its loops: the counters, the transmit queue of encoded
  records, the size of a batch, the names and codes of the diagnostics, the classification of a
  disconnect and the splitting of an endpoint.
\<close>

section \<open>Counters\<close>

text \<open>
  \<open>Stats\<close>, without the figures \<open>update_tcp_info\<close> and \<open>update_socket_family\<close> copy from the kernel. An
  atomic \<open>uint64_t\<close> is a 64-bit word and wraps as it does.
\<close>

record stats =
  st_tun_in_bytes :: u64
  st_tun_out_bytes :: u64
  st_tun_in_pkts :: u64
  st_tun_out_pkts :: u64
  st_payload_tx :: u64
  st_payload_rx :: u64
  st_wire_tx :: u64
  st_wire_rx :: u64
  st_keepalive_tx :: u64
  st_keepalive_rx :: u64
  st_ping_tx :: u64
  st_ping_rx :: u64
  st_pong_tx :: u64
  st_pong_rx :: u64
  st_drop_queue :: u64
  st_drop_delay :: u64
  st_drop_malformed :: u64
  st_auth_fail :: u64
  st_reconnects :: u64
  st_replay_drop :: u64
  st_sequence_gap :: u64
  st_queue_pkts :: u64
  st_queue_bytes :: u64
  st_last_rx_age_ms :: u64
  st_degraded :: bool
  st_probe_pending_age_ms :: u64
  st_reply_timeouts :: u64
  st_candidate_attempts :: u64
  st_candidate_failures :: u64
  st_candidate_successes :: u64
  st_rtt_sample_us :: u64
  st_rtt_sample_seq :: u64
  st_padding_extra_tx :: u64
  st_padding_control_extra_tx :: u64
  st_rtt_us :: int
  st_ws_rtt_us :: int
  st_ws_messages_tx :: u64
  st_ws_messages_rx :: u64
  st_ws_control_tx :: u64
  st_ws_control_rx :: u64
  st_ws_ping_tx :: u64
  st_ws_ping_rx :: u64
  st_ws_pong_tx :: u64
  st_ws_pong_rx :: u64
  st_ws_missed_pongs :: u64
  st_session_renewals :: u64
  st_ws_tx_pending_bytes :: u64
  st_event_loop_delay_us :: u64
  st_queue_oldest_age_us :: u64
  st_queue_peak_pkts :: u64
  st_queue_peak_bytes :: u64
  st_tx_stalls :: u64
  st_ptt5_sessions :: u64
  st_reconnect_pong_timeout :: u64
  st_reconnect_tx_timeout :: u64
  st_reconnect_idle :: u64
  st_reconnect_session :: u64
  st_reconnect_network :: u64
  st_reconnect_manual :: u64
  st_adaptive_batch_packets :: int
  st_pool_dials :: u64
  st_pool_dial_failures :: u64
  st_pool_failures :: u64
  st_pool_active :: u64
  st_rtt_history :: rtt_history
  st_payload_tx_rate_bps :: u64
  st_payload_rx_rate_bps :: u64
  st_latency_renewals :: u64
  st_reply_renewals :: u64

definition new_stats :: stats where
  "new_stats = \<lparr>
     st_tun_in_bytes = 0, st_tun_out_bytes = 0, st_tun_in_pkts = 0, st_tun_out_pkts = 0, st_payload_tx = 0,
     st_payload_rx = 0, st_wire_tx = 0, st_wire_rx = 0, st_keepalive_tx = 0, st_keepalive_rx = 0, st_ping_tx = 0,
     st_ping_rx = 0, st_pong_tx = 0, st_pong_rx = 0, st_drop_queue = 0, st_drop_delay = 0, st_drop_malformed = 0,
     st_auth_fail = 0, st_reconnects = 0, st_replay_drop = 0, st_sequence_gap = 0, st_queue_pkts = 0,
     st_queue_bytes = 0, st_last_rx_age_ms = 0, st_degraded = False, st_probe_pending_age_ms = 0,
     st_reply_timeouts = 0, st_candidate_attempts = 0, st_candidate_failures = 0, st_candidate_successes = 0,
     st_rtt_sample_us = 0, st_rtt_sample_seq = 0, st_padding_extra_tx = 0, st_padding_control_extra_tx = 0,
     st_rtt_us = - 1, st_ws_rtt_us = - 1, st_ws_messages_tx = 0, st_ws_messages_rx = 0, st_ws_control_tx = 0,
     st_ws_control_rx = 0, st_ws_ping_tx = 0, st_ws_ping_rx = 0, st_ws_pong_tx = 0, st_ws_pong_rx = 0,
     st_ws_missed_pongs = 0, st_session_renewals = 0, st_ws_tx_pending_bytes = 0, st_event_loop_delay_us = 0,
     st_queue_oldest_age_us = 0, st_queue_peak_pkts = 0, st_queue_peak_bytes = 0, st_tx_stalls = 0,
     st_ptt5_sessions = 0, st_reconnect_pong_timeout = 0, st_reconnect_tx_timeout = 0, st_reconnect_idle = 0,
     st_reconnect_session = 0, st_reconnect_network = 0, st_reconnect_manual = 0, st_adaptive_batch_packets = 1,
     st_pool_dials = 0, st_pool_dial_failures = 0, st_pool_failures = 0, st_pool_active = 0,
     st_rtt_history = rh_reset, st_payload_tx_rate_bps = 0, st_payload_rx_rate_bps = 0, st_latency_renewals = 0,
     st_reply_renewals = 0\<rparr>"

section \<open>Names\<close>

definition state_name :: "int \<Rightarrow> string" where
  "state_name s =
     (if s = 1 then ''LISTENING'' else if s = 2 then ''CONNECTING'' else if s = 3 then ''ONLINE'' else if s = 4 then ''RECONNECTING''
      else if s = 5 then ''STOPPING'' else ''STARTING'')"

definition phase_name :: "int \<Rightarrow> string" where
  "phase_name p =
     (if p = 1 then ''TUN_READY'' else if p = 2 then ''LISTENING'' else if p = 3 then ''TCP_CONNECTING'' else if p = 4 then ''TLS_HANDSHAKE''
      else if p = 5 then ''CARRIER_UPGRADE'' else if p = 6 then ''AUTHENTICATED'' else if p = 7 then ''ONLINE''
      else if p = 8 then ''RECONNECTING'' else if p = 9 then ''STOPPING'' else if p = 10 then ''LEGACY'' else ''STARTING'')"

definition wire_name :: "config \<Rightarrow> string" where
  "wire_name c = (if transport c = ''websocket'' then (if max_connections c > 1 then ''PTT8-POOL'' else ''PTT5'') else ''PTT3'')"

text \<open>The log of events keeps the latest 64; the time stamp is part of the text.\<close>

definition event :: "string \<Rightarrow> string list \<Rightarrow> string list" where
  "event line events = (if length events \<ge> 64 then tl events else events) @ [line]"

section \<open>Endpoints\<close>

definition split_hostport :: "string \<Rightarrow> (string, string \<times> string) result" where
  "split_hostport s =
     (if s = [] then Inl ''empty host:port''
      else if hd s = CHR ''['' then
        (case find_char (CHR '']'') s of
           None \<Rightarrow> Inl (''expected [ipv6]:port: '' @ s)
         | Some rb \<Rightarrow>
             if rb + 1 \<ge> length s \<or> s ! (rb + 1) \<noteq> CHR '':'' \<or> rb = 1 \<or> rb + 2 \<ge> length s then Inl (''expected [ipv6]:port: '' @ s)
             else Inr (take (rb - 1) (drop 1 s), drop (rb + 2) s))
      else
        (case rfind_char (CHR '':'') s of
           None \<Rightarrow> Inl (''expected host:port (IPv6 must use [addr]:port): '' @ s)
         | Some p \<Rightarrow>
             if p = 0 \<or> p + 1 \<ge> length s \<or> find_char (CHR '':'') s \<noteq> Some p
             then Inl (''expected host:port (IPv6 must use [addr]:port): '' @ s)
             else Inr (take p s, drop (p + 1) s)))"

section \<open>Times and tokens\<close>

text \<open>
  Times are microseconds of the monotonic clock; \<open>elapsed\<close> is the signed difference of two readings, and a
  \<open>duration_cast\<close> to a coarser unit truncates.
\<close>

definition elapsed :: "u64 \<Rightarrow> u64 \<Rightarrow> int" where
  "elapsed now before = uint now - uint before"

definition elapsed_ms :: "u64 \<Rightarrow> u64 \<Rightarrow> int" where
  "elapsed_ms now before = elapsed now before sdiv 1000"

definition elapsed_sec :: "u64 \<Rightarrow> u64 \<Rightarrow> int" where
  "elapsed_sec now before = elapsed now before sdiv 1000000"

definition encode_u64 :: "u64 \<Rightarrow> bytes" where "encode_u64 v = be64 v"

definition decode_u64 :: "bytes \<Rightarrow> u64" where "decode_u64 b = rd64 b"

section \<open>The transmit queue\<close>

record queued =
  qd_data :: bytes
  qd_at :: u64
  qd_payload :: bool

type_synonym tx_queue = "queued list \<times> nat"

definition queue_full :: "config \<Rightarrow> nat \<Rightarrow> queued list \<Rightarrow> nat \<Rightarrow> bool" where
  "queue_full cfg n q qb \<longleftrightarrow> length q \<ge> queue_packets cfg \<or> qb + n > queue_bytes cfg"

definition count_drop :: "stats \<Rightarrow> stats" where
  "count_drop st = st\<lparr>st_drop_queue := st_drop_queue st + 1\<rparr>"

text \<open>The loop of \<open>enqueue\<close> that drops from the front.\<close>

fun evict :: "config \<Rightarrow> nat \<Rightarrow> queued list \<Rightarrow> nat \<Rightarrow> stats \<Rightarrow> queued list \<times> nat \<times> stats" where
  "evict cfg n [] qb st = ([], qb, st)"
| "evict cfg n (x # q) qb st =
     (if queue_full cfg n (x # q) qb then evict cfg n q (qb - length (qd_data x)) (count_drop st) else (x # q, qb, st))"

definition enqueue :: "config \<Rightarrow> bool \<Rightarrow> queued \<Rightarrow> queued list \<Rightarrow> nat \<Rightarrow> stats \<Rightarrow> queued list \<times> nat \<times> stats" where
  "enqueue cfg protect_front x q qb st =
     (let n = length (qd_data x) in
      if n > queue_bytes cfg then (q, qb, count_drop st)
      else if protect_front \<and> q \<noteq> [] \<and> queue_full cfg n q qb then (q, qb, count_drop st)
      else
        (case evict cfg n q qb st of
           (q, qb, st) \<Rightarrow>
             let q = q @ [x]; qb = qb + n in
             (q, qb, st\<lparr>st_queue_pkts := of_nat (length q), st_queue_bytes := of_nat qb,
                st_queue_peak_pkts := max (st_queue_peak_pkts st) (of_nat (length q)),
                st_queue_peak_bytes := max (st_queue_peak_bytes st) (of_nat qb)\<rparr>)))"

definition effective_batch_packets :: "queued list \<Rightarrow> config \<Rightarrow> u64 \<Rightarrow> stats \<Rightarrow> int \<times> stats" where
  "effective_batch_packets q cfg now st =
     (if \<not> adaptive_batching cfg then (batch_packets cfg, st\<lparr>st_adaptive_batch_packets := batch_packets cfg\<rparr>)
      else
        let lo = adaptive_batch_min_packets cfg; hi = adaptive_batch_max_packets cfg;
            chosen =
              (case q of
                 [] \<Rightarrow> lo
               | x # _ \<Rightarrow>
                   let age = elapsed_ms now (qd_at x); depth = int (min (length q) 64); chosen = lo + ((hi - lo) * depth) sdiv 64 in
                   if age \<ge> queue_target_delay_ms cfg then hi
                   else if age < queue_target_delay_ms cfg sdiv 4 \<and> length q \<le> 4 then lo else chosen);
            chosen = (if chosen < lo then lo else if hi < chosen then hi else chosen) in
        (chosen, st\<lparr>st_adaptive_batch_packets := chosen\<rparr>))"

section \<open>Diagnostics\<close>

text \<open>\<open>contains_insensitive\<close> of \<open>logging.hpp\<close>.\<close>

definition contains_insensitive :: "string \<Rightarrow> string \<Rightarrow> bool" where
  "contains_insensitive s pattern \<longleftrightarrow> contains (lower s) (lower pattern)"

definition failure_code :: "int \<Rightarrow> string \<Rightarrow> string" where
  "failure_code phase reason =
     (if contains_insensitive reason ''HTTP/1.1 502'' \<or> contains_insensitive reason ''502 Bad Gateway'' then ''HTTP_502_GATEWAY''
      else if contains_insensitive reason ''HTTP/1.1 504'' \<or> contains_insensitive reason ''504 Gateway'' then ''HTTP_504_TIMEOUT''
      else if contains_insensitive reason ''DNS resolution failed'' \<or> contains_insensitive reason ''DNS returned no usable'' then ''DNS_RESOLUTION_FAILED''
      else if contains_insensitive reason ''certificate verify'' \<or> contains_insensitive reason ''certificate has expired'' \<or>
              contains_insensitive reason ''hostname mismatch'' then ''TLS_CERTIFICATE_FAILED''
      else if contains_insensitive reason ''TCP connect failed'' \<and> contains_insensitive reason ''timed out'' then ''TCP_CONNECT_TIMEOUT''
      else if contains_insensitive reason ''TLS handshake timeout'' then ''TLS_HANDSHAKE_TIMEOUT''
      else if contains reason ''authenticated probe reply timeout'' then ''AUTH_PROBE_TIMEOUT''
      else if contains reason ''control requested reconnect'' then ''MANUAL_RECONNECT''
      else if contains reason ''carrier PONG timeout'' then ''WEBSOCKET_PONG_TIMEOUT''
      else if contains reason ''WebSocket peer close received'' then ''WEBSOCKET_PEER_CLOSE''
      else if contains reason ''authentication'' \<or> contains reason ''key confirmation'' then ''AUTHENTICATION_FAILED''
      else if contains reason ''WebSocket upgrade'' then ''WEBSOCKET_UPGRADE_FAILED''
      else if phase = 3 then ''TCP_CONNECT_FAILED''
      else if phase = 4 then ''TLS_HANDSHAKE_FAILED''
      else if phase = 5 then ''CARRIER_UPGRADE_FAILED''
      else ''ESTABLISHED_CONNECTION_LOST'')"

definition classify_reconnect :: "string \<Rightarrow> stats \<Rightarrow> stats" where
  "classify_reconnect reason st =
     (if contains reason ''authenticated probe reply timeout'' then st
      else if contains reason ''PONG timeout'' then st\<lparr>st_reconnect_pong_timeout := st_reconnect_pong_timeout st + 1\<rparr>
      else if contains reason ''TX no-progress timeout''
      then st\<lparr>st_reconnect_tx_timeout := st_reconnect_tx_timeout st + 1, st_tx_stalls := st_tx_stalls st + 1\<rparr>
      else if contains reason ''idle timeout'' then st\<lparr>st_reconnect_idle := st_reconnect_idle st + 1\<rparr>
      else if contains reason ''session max age'' then st\<lparr>st_reconnect_session := st_reconnect_session st + 1\<rparr>
      else if contains reason ''control requested reconnect'' then st\<lparr>st_reconnect_manual := st_reconnect_manual st + 1\<rparr>
      else st\<lparr>st_reconnect_network := st_reconnect_network st + 1\<rparr>)"

text \<open>The delay before a new attempt; \<open>draw\<close> is the random distribution on \<open>-span .. span\<close>.\<close>

definition jittered :: "int \<Rightarrow> int \<Rightarrow> (int \<Rightarrow> int) \<Rightarrow> int" where
  "jittered base_ms pct draw =
     (if pct = 0 then base_ms else let span = base_ms * pct sdiv 100 in max 1 (base_ms + draw span))"

section \<open>Facts\<close>

text \<open>The queue and its byte count belong together, and stay within the configured limits.\<close>

definition total :: "queued list \<Rightarrow> nat" where
  "total q = sum_list (map (\<lambda>x. length (qd_data x)) q)"

definition queue_ok :: "config \<Rightarrow> queued list \<Rightarrow> nat \<Rightarrow> bool" where
  "queue_ok cfg q qb \<longleftrightarrow> qb = total q \<and> length q \<le> queue_packets cfg \<and> qb \<le> queue_bytes cfg"

lemma total_simps [simp]: "total [] = 0" "total (x # q) = length (qd_data x) + total q" "total (q @ r) = total q + total r"
  by (simp_all add: total_def)

lemma queue_ok_Nil [simp]: "queue_ok cfg [] 0"
  by (simp add: queue_ok_def)

lemma queue_ok_Cons: "queue_ok cfg (x # q) qb \<Longrightarrow> queue_ok cfg q (qb - length (qd_data x))"
  by (simp add: queue_ok_def)

lemma evict_spec:
  assumes "qb = total q" "evict cfg n q qb st = (q', qb', st')"
  shows "\<exists>k. q' = drop k q \<and> k \<le> length q \<and> qb' = total q' \<and> st' = (count_drop ^^ k) st \<and>
    (q' = [] \<or> \<not> queue_full cfg n q' qb') \<and> (\<forall>j < k. queue_full cfg n (drop j q) (total (drop j q)))"
  using assms
proof (induction q arbitrary: qb st)
  case Nil
  then show ?case by simp
next
  case (Cons x q)
  show ?case
  proof (cases "queue_full cfg n (x # q) qb")
    case False
    with Cons.prems show ?thesis by (intro exI [of _ 0]) auto
  next
    case True
    then have "evict cfg n q (total q) (count_drop st) = (q', qb', st')" using Cons.prems by simp
    from Cons.IH [OF refl this] obtain k where k: "q' = drop k q" "k \<le> length q" "qb' = total q'" "st' = (count_drop ^^ k) (count_drop st)"
      "q' = [] \<or> \<not> queue_full cfg n q' qb'" "\<forall>j < k. queue_full cfg n (drop j q) (total (drop j q))" by blast
    have "\<forall>j < Suc k. queue_full cfg n (drop j (x # q)) (total (drop j (x # q)))"
      using k(6) True Cons.prems(1) by (auto simp: less_Suc_eq_0_disj)
    then show ?thesis using k by (intro exI [of _ "Suc k"]) (simp add: funpow_swap1)
  qed
qed

lemma drops_counted: "st_drop_queue ((count_drop ^^ k) st) = st_drop_queue st + of_nat k"
  by (induction k) (simp_all add: count_drop_def algebra_simps)

lemma enqueue_ok:
  assumes "queue_ok cfg q qb" "1 \<le> queue_packets cfg" "enqueue cfg p x q qb st = (q', qb', st')"
  shows "queue_ok cfg q' qb'"
proof (cases "length (qd_data x) > queue_bytes cfg \<or> p \<and> q \<noteq> [] \<and> queue_full cfg (length (qd_data x)) q qb")
  case True
  then show ?thesis using assms by (auto simp: enqueue_def Let_def split: if_splits)
next
  case False
  obtain r rb st1 where e: "evict cfg (length (qd_data x)) q qb st = (r, rb, st1)" by (cases "evict cfg (length (qd_data x)) q qb st") auto
  with assms(1) evict_spec have r: "rb = total r" "r = [] \<or> \<not> queue_full cfg (length (qd_data x)) r rb"
    unfolding queue_ok_def by blast+
  moreover have "q' = r @ [x]" "qb' = rb + length (qd_data x)" using assms(3) False e by (auto simp: enqueue_def Let_def)
  ultimately show ?thesis using assms(2) False by (auto simp: queue_ok_def queue_full_def)
qed

text \<open>Every endpoint the configuration accepts is split into a host and a port number.\<close>

lemma split_validated:
  assumes "validate_endpoint name s = None"
  shows "\<exists>host port. split_hostport s = Inr (host, port) \<and> host \<noteq> [] \<and> port \<noteq> [] \<and> list_all is_digit port \<and>
    1 \<le> digits_value 10 port \<and> digits_value 10 port \<le> 65535"
proof -
  have s: "s \<noteq> []" using assms by (auto simp: validate_endpoint_def)
  then obtain host port where p: "endpoint_parts name s = Inr (host, port)" "host \<noteq> []" "port \<noteq> []" "list_all is_digit port"
      "1 \<le> digits_value 10 port" "digits_value 10 port \<le> 65535"
    using assms by (auto simp: validate_endpoint_def Let_def not_less split: sum.splits if_splits)
  have "split_hostport s = Inr (host, port)"
    using p(1) s by (cases "rfind_char (CHR '':'') s") (auto simp: endpoint_parts_def split_hostport_def split: if_splits option.splits)
  with p show ?thesis by blast
qed

lemma effective_batch_range:
  assumes "adaptive_batch_min_packets cfg \<le> adaptive_batch_max_packets cfg" "effective_batch_packets q cfg now st = (n, st')"
  shows "adaptive_batching cfg \<Longrightarrow> adaptive_batch_min_packets cfg \<le> n \<and> n \<le> adaptive_batch_max_packets cfg"
    "\<not> adaptive_batching cfg \<Longrightarrow> n = batch_packets cfg" "st' = st\<lparr>st_adaptive_batch_packets := n\<rparr>"
  using assms by (auto simp: effective_batch_packets_def Let_def split: list.splits if_splits)

end
