(* ===== verification/Tunnel.thy ===== *)
theory Tunnel
  imports RuntimeBase Traffic FlowQueue Carrier Records
begin

text \<open>
  \<open>carrier_tunnel_loop\<close> of \<open>src/cdn/src/runtime.cpp\<close>, the loop of a session over one carrier: packets of the TUN
  device are scheduled, encoded, queued and sent in batches, messages of the carrier are decoded and their
  records handled, and timers probe the peer. Each lambda and each stage of the loop body is one definition.

  Everything the loop takes from outside is in a \<open>world\<close>: the clock, the random numbers, the outcomes of the
  system calls. The state counts the interactions, and the \<open>k\<close>-th one gets the \<open>k\<close>-th answer, so that a run is a
  function of the world and two readings of the clock may differ as they do in the program.
\<close>

section \<open>World and state\<close>

datatype tun_read = TunPacket bytes | TunAgain | TunStopped | TunClosed | TunFailed

text \<open>The part of \<open>revents\<close> the loop looks at: carrier ready, carrier in error, TUN readable.\<close>

datatype poll_outcome = PollFailed | PollInterrupted | Polled bool bool bool

record world =
  w_clock :: "nat \<Rightarrow> u64"
  w_pad :: "nat \<Rightarrow> nat \<Rightarrow> nat \<Rightarrow> bytes option"
    \<comment> \<open>\<open>RAND_bytes\<close> in an encoder\<close>
  w_mask :: "nat \<Rightarrow> bytes option"
    \<comment> \<open>\<open>RAND_bytes\<close> for the mask of a frame\<close>
  w_jitter :: "nat \<Rightarrow> int \<Rightarrow> int"
  w_delay :: "nat \<Rightarrow> nat \<Rightarrow> nat"
    \<comment> \<open>the random draws of \<open>traffic_interval_ms\<close> and \<open>BurstShaper::ready\<close>\<close>
  w_io :: "nat \<Rightarrow> ws_io"
  w_ready :: "nat \<Rightarrow> bool"
  w_reads :: "nat \<Rightarrow> nat \<Rightarrow> rd"
  w_read_env :: "nat \<Rightarrow> nat \<Rightarrow> ws_env"
  w_poll :: "nat \<Rightarrow> int \<Rightarrow> poll_event list \<Rightarrow> poll_outcome"
  w_tun_read :: "nat \<Rightarrow> tun_read"
    \<comment> \<open>\<open>read_packet\<close>, repeated while it is interrupted and no stop is requested\<close>
  w_tun_write :: "nat \<Rightarrow> bytes \<Rightarrow> bool"
    \<comment> \<open>whether \<open>write_packet\<close> takes the whole packet\<close>
  w_tick :: "nat \<Rightarrow> string option"
    \<comment> \<open>what the \<open>tick\<close> callback throws\<close>
  w_force :: "nat \<Rightarrow> bool"
    \<comment> \<open>\<open>g_force_disconnect.exchange(false)\<close>\<close>

text \<open>What stays the same during a session.\<close>

record link =
  lk_cfg :: config
  lk_crypto :: crypto
  lk_round :: "rat \<Rightarrow> rat"
  lk_tx_key :: bytes
  lk_world :: world

datatype tun_error = TunFail string | TunRecord record_error | TunCarrier ws_error | TunDecode record_error

text \<open>
  The local variables of the loop, the counters, the event log, and what left the process: the bytes the transport
  took, the packets given to the TUN device, the messages given to the carrier, and every record made
  (\<open>sequence, flags, payload, bytes\<close>).
\<close>

record tunnel =
  t_ev :: nat
  t_q :: "queued list"
  t_queued_bytes :: nat
  t_pending :: flow_queue
  t_sequence :: u64
  t_dec :: decoder
  t_padding :: padding_budget
  t_shape :: shape_budget
  t_shaper :: shaper
  t_watchdog :: u64
  t_carrier :: ws_session
  t_seen :: carrier_counters
  t_ping_queued :: bool
  t_ping_outstanding :: bool
  t_ping_payload :: bytes
  t_ping_sent_at :: u64
  t_last_rx :: u64
  t_last_tx :: u64
  t_last_probe :: u64
  t_last_payload :: u64
  t_last_carrier_ping :: u64
  t_session_started :: u64
  t_keepalive_interval :: int
  t_probe_interval :: int
  t_stats :: stats
  t_events :: "string list"
  t_wire :: bytes
  t_tun_out :: "bytes list"
  t_sent :: "bytes list"
  t_log :: "(u64 \<times> byte \<times> bytes \<times> bytes) list"

type_synonym 'a tun = "(tunnel, tun_error, 'a) se"

definition ask :: "(nat \<Rightarrow> 'a) \<Rightarrow> 'a tun" where
  "ask f s = (s\<lparr>t_ev := Suc (t_ev s)\<rparr>, Inr (f (t_ev s)))"

definition now :: "link \<Rightarrow> u64 tun" where
  "now L = ask (w_clock (lk_world L))"

definition stat :: "(stats \<Rightarrow> stats) \<Rightarrow> unit tun" where
  "stat f = modS (\<lambda>s. s\<lparr>t_stats := f (t_stats s)\<rparr>)"

definition logS :: "string \<Rightarrow> unit tun" where
  "logS line = modS (\<lambda>s. s\<lparr>t_events := event line (t_events s)\<rparr>)"

definition fail :: "string \<Rightarrow> 'a tun" where
  "fail msg = throwS (TunFail msg)"

section \<open>Encoding a record\<close>

text \<open>The allowance for padding: shaper, padding budget and shape budget in turn.\<close>

definition padding_maximum :: "link \<Rightarrow> bool \<Rightarrow> int tun" where
  "padding_maximum L control =
     (let cfg = lk_cfg L;
          maximum = (if control then websocket_control_padding_bytes cfg else websocket_padding_max_bytes cfg) in
      if traffic_shaping cfg \<and> \<not> control
      then bindS (now L) (\<lambda>t. withS (\<lambda>s. retS (Inr (sh_maximum maximum (nat (shaping_startup_ms cfg)) t (t_shaper s)))))
      else retS (Inr maximum))"

definition padding_allowance :: "link \<Rightarrow> bool \<Rightarrow> nat \<Rightarrow> int \<Rightarrow> int tun" where
  "padding_allowance L control bytes maximum =
     bindS
       (if control
        then bindS (now L) (\<lambda>t s. case control_allowance (lk_round L) maximum t (t_padding s) of (a, b) \<Rightarrow> (s\<lparr>t_padding := b\<rparr>, Inr a))
        else (\<lambda>s. case data_allowance (lk_round L) bytes maximum (t_padding s) of (a, b) \<Rightarrow> (s\<lparr>t_padding := b\<rparr>, Inr a)))
       (\<lambda>a. bindS (now L) (\<lambda>t s. case shape_allowance (lk_round L) a t (t_shape s) of (a, b) \<Rightarrow> (s\<lparr>t_shape := b\<rparr>, Inr a)))"

definition next_sequence :: "u64 tun" where
  "next_sequence s = (s\<lparr>t_sequence := t_sequence s + 1\<rparr>, Inr (t_sequence s))"

definition choose_record :: "link \<Rightarrow> (nat \<Rightarrow> nat \<Rightarrow> bytes option) \<Rightarrow> int \<Rightarrow> int \<Rightarrow> u64 \<Rightarrow> bytes \<Rightarrow> byte \<Rightarrow> (record_error, bytes) result" where
  "choose_record L rng maximum allowance seq payload flags =
     (if maximum > 0 \<and> allowance \<ge> 3
      then if websocket_control_padding_bytes (lk_cfg L) > 0
        then encode_envelope_record_v5 (lk_crypto L) rng (lk_tx_key L) seq payload flags (allowance - 3)
        else encode_padded_record_v5 (lk_crypto L) rng (lk_tx_key L) seq payload (allowance - 3)
      else encode_record_v5 (lk_crypto L) (lk_tx_key L) seq payload flags)"

definition spend_padding :: "link \<Rightarrow> bool \<Rightarrow> nat \<Rightarrow> unit tun" where
  "spend_padding L control extra = modS (\<lambda>s.
     let s = s\<lparr>t_shape := shape_spend (lk_round L) extra (t_shape s)\<rparr> in
     if control
     then s\<lparr>t_padding := spend_control (lk_round L) extra (t_padding s),
            t_stats := t_stats s\<lparr>st_padding_control_extra_tx := st_padding_control_extra_tx (t_stats s) + of_nat extra\<rparr>\<rparr>
     else s\<lparr>t_padding := spend_data (lk_round L) extra (t_padding s),
            t_stats := t_stats s\<lparr>st_padding_extra_tx := st_padding_extra_tx (t_stats s) + of_nat extra\<rparr>\<rparr>)"

definition encode :: "link \<Rightarrow> bytes \<Rightarrow> byte \<Rightarrow> bytes tun" where
  "encode L payload flags =
     (let control = (flags \<noteq> 0) in
      thenS (whenS (\<not> control) (bindS (now L) (\<lambda>t.
        modS (\<lambda>s. s\<lparr>t_shaper := sh_observe (of_nat (length payload)) t (t_shaper s)\<rparr>))))
      (bindS (padding_maximum L control) (\<lambda>maximum.
       bindS (padding_allowance L control (length payload) maximum) (\<lambda>allowance.
       bindS next_sequence (\<lambda>seq.
       bindS (ask (w_pad (lk_world L))) (\<lambda>rng.
       case choose_record L rng maximum allowance seq payload flags of
         Inl e \<Rightarrow> throwS (TunRecord e)
       | Inr rec \<Rightarrow>
           thenS (modS (\<lambda>s. s\<lparr>t_log := t_log s @ [(seq, flags, payload, rec)]\<rparr>))
          (thenS (spend_padding L control (length rec - 32 - length payload))
           (retS (Inr rec)))))))))"

section \<open>Queue and transport\<close>

definition put_queue :: "link \<Rightarrow> bytes \<Rightarrow> bool \<Rightarrow> unit tun" where
  "put_queue L rec payload =
     bindS (now L) (\<lambda>t s.
       case enqueue (lk_cfg L) False \<lparr>qd_data = rec, qd_at = t, qd_payload = payload\<rparr> (t_q s) (t_queued_bytes s) (t_stats s) of
         (q, qb, st) \<Rightarrow> (s\<lparr>t_q := q, t_queued_bytes := qb, t_stats := st\<rparr>, Inr ()))"

definition enqueue_control :: "link \<Rightarrow> byte \<Rightarrow> bytes \<Rightarrow> unit tun" where
  "enqueue_control L flags payload = bindS (encode L payload flags) (\<lambda>rec. put_queue L rec False)"

definition enqueue_packet :: "link \<Rightarrow> bytes \<Rightarrow> unit tun" where
  "enqueue_packet L packet = bindS (encode L packet 0) (\<lambda>rec. put_queue L rec True)"

definition sync_carrier_tx :: "link \<Rightarrow> unit tun" where
  "sync_carrier_tx L = withS (\<lambda>s0.
     let cur = carrier_counters_of (t_carrier s0); seen = t_seen s0;
         pings = cc_tx_ping_frames cur - cc_tx_ping_frames seen; pongs = cc_tx_pong_frames cur - cc_tx_pong_frames seen in
     seqS
      [whenS (cc_tx_messages cur \<noteq> cc_tx_messages seen) (bindS (now L) (\<lambda>t. modS (\<lambda>s. s\<lparr>t_last_tx := t,
         t_stats := t_stats s\<lparr>st_ws_messages_tx := st_ws_messages_tx (t_stats s) + (cc_tx_messages cur - cc_tx_messages seen)\<rparr>\<rparr>))),
       stat (\<lambda>st. st\<lparr>st_wire_tx := st_wire_tx st + (cc_tx_payload_bytes cur - cc_tx_payload_bytes seen)\<rparr>),
       whenS (cc_tx_ping_frames cur \<noteq> cc_tx_ping_frames seen)
         (thenS (stat (\<lambda>st. st\<lparr>st_ws_ping_tx := st_ws_ping_tx st + pings, st_ws_control_tx := st_ws_control_tx st + pings\<rparr>))
           (whenS (t_ping_queued s0) (bindS (now L) (\<lambda>t. modS (\<lambda>s. s\<lparr>t_ping_queued := False, t_ping_outstanding := True, t_ping_sent_at := t\<rparr>))))),
       whenS (cc_tx_pong_frames cur \<noteq> cc_tx_pong_frames seen)
         (stat (\<lambda>st. st\<lparr>st_ws_pong_tx := st_ws_pong_tx st + pongs, st_ws_control_tx := st_ws_control_tx st + pongs\<rparr>)),
       modS (\<lambda>s. s\<lparr>t_seen := cur, t_stats := t_stats s\<lparr>st_ws_tx_pending_bytes := of_nat (carrier_tx_pending_bytes (t_carrier s))\<rparr>\<rparr>)])"

definition carrier_flush_step :: "link \<Rightarrow> unit tun" where
  "carrier_flush_step L =
     bindS (ask (w_io (lk_world L))) (\<lambda>io s.
       case carrier_flush io 262144 (t_carrier s) of
         (w, r, sent) \<Rightarrow>
           (s\<lparr>t_carrier := w, t_wire := t_wire s @ sent\<rparr>, case r of Inl e \<Rightarrow> Inl (TunCarrier e) | Inr _ \<Rightarrow> Inr ()))"

definition flush_transport :: "link \<Rightarrow> unit tun" where
  "flush_transport L =
     thenS (carrier_flush_step L) (thenS (sync_carrier_tx L)
       (bindS (now L) (\<lambda>t. withS (\<lambda>s.
          whenS (carrier_tx_stalled (t div 1000) (websocket_io_timeout_sec (lk_cfg L) * 1000) (t_carrier s))
            (fail ''carrier TX no-progress timeout'')))))"

definition send_message :: "link \<Rightarrow> bytes \<Rightarrow> unit tun" where
  "send_message L message =
     bindS (ask (w_mask (lk_world L))) (\<lambda>mk. bindS (now L) (\<lambda>t s.
       case carrier_send message (mk, t div 1000) (t_carrier s) of
         Inl e \<Rightarrow> (s, Inl (TunCarrier e))
       | Inr w \<Rightarrow> (s\<lparr>t_carrier := w, t_sent := t_sent s @ [message]\<rparr>, Inr ())))"

text \<open>The loop that fills a batch: at most \<open>n\<close> records, and no more bytes than the batch may have.\<close>

fun take_batch :: "nat \<Rightarrow> nat \<Rightarrow> bytes \<Rightarrow> queued list \<Rightarrow> nat \<Rightarrow> bytes \<times> queued list \<times> nat" where
  "take_batch limit 0 message q qb = (message, q, qb)"
| "take_batch limit (Suc n) message [] qb = (message, [], qb)"
| "take_batch limit (Suc n) message (x # q) qb =
     (if length message + length (qd_data x) \<le> limit
      then take_batch limit n (message @ qd_data x) q (qb - length (qd_data x)) else (message, x # q, qb))"

text \<open>The shaper may hold back a queue of payload records.\<close>

definition shaper_ready :: "link \<Rightarrow> bool tun" where
  "shaper_ready L = withS (\<lambda>s0.
     if traffic_shaping (lk_cfg L) \<and> list_all qd_payload (t_q s0)
     then bindS (now L) (\<lambda>t1. bindS (now L) (\<lambda>t2. bindS (ask (w_delay (lk_world L))) (\<lambda>draw s.
       case sh_ready draw (length (t_q s)) (t1 - qd_at (hd (t_q s))) (nat (shaping_delay_ms (lk_cfg L))) t2 (t_shaper s) of
         (b, sh) \<Rightarrow> (s\<lparr>t_shaper := sh\<rparr>, Inr b))))
     else retS (Inr True))"

definition batch_limit :: "link \<Rightarrow> int tun" where
  "batch_limit L = bindS (now L) (\<lambda>t s.
     case effective_batch_packets (t_q s) (lk_cfg L) t (t_stats s) of (n, st) \<Rightarrow> (s\<lparr>t_stats := st\<rparr>, Inr n))"

definition flush_carrier :: "link \<Rightarrow> unit tun" where
  "flush_carrier L =
     thenS (flush_transport L) (withS (\<lambda>s0.
       if carrier_tx_pending (t_carrier s0) \<or> t_q s0 = [] then skipS
       else bindS (shaper_ready L) (\<lambda>ready.
         if \<not> ready then skipS
         else bindS (batch_limit L) (\<lambda>limit. withS (\<lambda>s1.
           case take_batch (batch_bytes (lk_cfg L)) (nat (max 1 limit)) [] (t_q s1) (t_queued_bytes s1) of
             (message, q, qb) \<Rightarrow>
               thenS (modS (\<lambda>s. s\<lparr>t_q := q, t_queued_bytes := qb\<rparr>))
                 (whenS (message \<noteq> [])
                   (seqS [send_message L message,
                          stat (\<lambda>st. st\<lparr>st_queue_pkts := of_nat (length q), st_queue_bytes := of_nat qb\<rparr>),
                          flush_transport L])))))))"

section \<open>Packets waiting for their turn\<close>

definition note_queues :: "tunnel \<Rightarrow> tunnel" where
  "note_queues s = s\<lparr>t_stats := t_stats s\<lparr>st_queue_pkts := of_nat (length (t_q s) + fq_packets (t_pending s)),
     st_queue_bytes := of_nat (t_queued_bytes s + fq_bytes (t_pending s))\<rparr>\<rparr>"

definition note_peaks :: "tunnel \<Rightarrow> tunnel" where
  "note_peaks s = s\<lparr>t_stats := t_stats s\<lparr>st_queue_peak_pkts := max (st_queue_peak_pkts (t_stats s)) (st_queue_pkts (t_stats s)),
     st_queue_peak_bytes := max (st_queue_peak_bytes (t_stats s)) (st_queue_bytes (t_stats s))\<rparr>\<rparr>"

fun drain_loop :: "link \<Rightarrow> nat \<Rightarrow> unit tun" where
  "drain_loop L 0 = skipS"
| "drain_loop L (Suc n) = withS (\<lambda>s.
     let cfg = lk_cfg L in
     if fq_empty (t_pending s) then skipS
     else if length (t_q s) + fq_packets (t_pending s) \<ge> queue_packets cfg \<and> t_queued_bytes s \<ge> queue_bytes cfg div 2 then skipS
     else case fq_pop (t_pending s) of (item, rest) \<Rightarrow>
       thenS (modS (\<lambda>s. s\<lparr>t_pending := rest\<rparr>))
         (if fp_bytes item = [] then skipS else thenS (enqueue_packet L (fp_bytes item)) (drain_loop L n)))"

definition drain_pending :: "link \<Rightarrow> unit tun" where
  "drain_pending L = withS (\<lambda>s.
     let cfg = lk_cfg L in
     if \<not> flow_scheduler cfg \<or> fq_empty (t_pending s) then skipS
     else if carrier_tx_pending (t_carrier s) \<and> t_queued_bytes s > batch_bytes cfg * 2 then skipS
     else thenS (drain_loop L (nat (max 1 (batch_packets cfg)))) (modS (note_peaks \<circ> note_queues)))"

section \<open>Records and messages of the peer\<close>

definition on_record :: "link \<Rightarrow> delivery \<Rightarrow> bool tun" where
  "on_record L r =
     (case r of (flags, _, payload) \<Rightarrow>
      if flags = 0 then
        bindS (now L) (\<lambda>t. thenS (modS (\<lambda>s. s\<lparr>t_last_payload := t\<rparr>))
         (bindS (ask (w_tun_write (lk_world L))) (\<lambda>write.
           thenS (if write payload
                  then thenS (modS (\<lambda>s. s\<lparr>t_tun_out := t_tun_out s @ [payload]\<rparr>))
                    (stat (\<lambda>st. st\<lparr>st_tun_out_bytes := st_tun_out_bytes st + of_nat (length payload),
                       st_tun_out_pkts := st_tun_out_pkts st + 1, st_payload_rx := st_payload_rx st + of_nat (length payload)\<rparr>))
                  else stat (\<lambda>st. st\<lparr>st_drop_malformed := st_drop_malformed st + 1\<rparr>))
             (retS (Inr False)))))
      else if flags AND RECORD_KEEPALIVE \<noteq> 0 then
        thenS (stat (\<lambda>st. st\<lparr>st_keepalive_rx := st_keepalive_rx st + 1, st_ws_control_rx := st_ws_control_rx st + 1\<rparr>)) (retS (Inr False))
      else if flags AND RECORD_PING \<noteq> 0 then
        thenS (seqS [stat (\<lambda>st. st\<lparr>st_ping_rx := st_ping_rx st + 1, st_ws_control_rx := st_ws_control_rx st + 1\<rparr>),
                     enqueue_control L RECORD_PONG payload,
                     stat (\<lambda>st. st\<lparr>st_pong_tx := st_pong_tx st + 1, st_ws_control_tx := st_ws_control_tx st + 1\<rparr>)]) (retS (Inr True))
      else if flags AND RECORD_PONG \<noteq> 0 then
        thenS (stat (\<lambda>st. st\<lparr>st_pong_rx := st_pong_rx st + 1, st_ws_control_rx := st_ws_control_rx st + 1\<rparr>))
         (thenS (whenS (length payload = 8) (bindS (now L) (\<lambda>cur. withS (\<lambda>s.
            let sent = decode_u64 payload in
            case wd_reply sent cur (t_watchdog s) of (ok, token) \<Rightarrow>
              thenS (modS (\<lambda>s. s\<lparr>t_watchdog := token\<rparr>))
               (whenS ok (bindS (now L) (\<lambda>t. modS (\<lambda>s. s\<lparr>t_stats := t_stats s\<lparr>
                  st_rtt_us := uint (cur - sent), st_rtt_sample_us := cur,
                  st_rtt_history := rh_record (cur - sent) (elapsed t (t_last_payload s) \<le> 60000000) (st_rtt_history (t_stats s)),
                  st_rtt_sample_seq := st_rtt_sample_seq (t_stats s) + 1\<rparr>\<rparr>)))))))) (retS (Inr False)))
      else retS (Inr False))"

fun on_records :: "link \<Rightarrow> delivery list \<Rightarrow> bool tun" where
  "on_records L [] = retS (Inr False)"
| "on_records L (r # rs) = bindS (on_record L r) (\<lambda>a. bindS (on_records L rs) (\<lambda>b. retS (Inr (a \<or> b))))"

text \<open>
  One message: the decoder hands over its records one by one, then accepts, refuses or throws. The
  callbacks do not touch the decoder, so they are run in order before its outcome is looked at.
\<close>

definition on_message :: "link \<Rightarrow> bytes \<Rightarrow> unit tun" where
  "on_message L msg =
     thenS (stat (\<lambda>st. st\<lparr>st_ws_messages_rx := st_ws_messages_rx st + 1, st_wire_rx := st_wire_rx st + of_nat (length msg)\<rparr>))
      (withS (\<lambda>s0.
        case feed_v5 (lk_crypto L) (t_dec s0) msg of
          (d, records, outcome) \<Rightarrow>
            let gaps = sequence_gaps d - sequence_gaps (t_dec s0); replays = replay_drops d - replay_drops (t_dec s0) in
            bindS (on_records L records) (\<lambda>control_generated.
            thenS (modS (\<lambda>s. s\<lparr>t_dec := d\<rparr>))
            (case outcome of
               FeedOk \<Rightarrow>
                 thenS (stat (\<lambda>st. st\<lparr>st_sequence_gap := st_sequence_gap st + gaps\<rparr>))
                   (whenS control_generated (flush_carrier L))
             | FeedThrow e \<Rightarrow> throwS (TunDecode e)
             | FeedError e \<Rightarrow>
                 thenS (stat (\<lambda>st. st\<lparr>st_replay_drop := st_replay_drop st + replays, st_sequence_gap := st_sequence_gap st + gaps\<rparr>))
                 (thenS (stat (if e = AuthFailed then (\<lambda>st. st\<lparr>st_auth_fail := st_auth_fail st + 1\<rparr>)
                               else (\<lambda>st. st\<lparr>st_drop_malformed := st_drop_malformed st + 1\<rparr>)))
                   (throwS (TunDecode e)))))))"

section \<open>The body of the loop\<close>

text \<open>The reply watchdog, the caller's tick and a requested reconnect.\<close>

definition check_watchdog :: "link \<Rightarrow> unit tun" where
  "check_watchdog L =
     bindS (now L) (\<lambda>t. withS (\<lambda>s.
       let cfg = lk_cfg L; pending_ms = wd_age_us t (t_watchdog s) div 1000 in
       seqS
        [stat (\<lambda>st. st\<lparr>st_probe_pending_age_ms := pending_ms, st_degraded := pending_ms \<ge> of_int (reply_degraded_sec cfg) * 1000\<rparr>),
         bindS (ask (w_tick (lk_world L))) (\<lambda>tick. case tick of None \<Rightarrow> skipS | Some e \<Rightarrow> fail e),
         whenS (pending_ms \<ge> of_int (reply_timeout_sec cfg) * 1000)
           (thenS (stat (\<lambda>st. st\<lparr>st_reply_timeouts := st_reply_timeouts st + 1\<rparr>)) (fail ''authenticated probe reply timeout'')),
         bindS (ask (w_force (lk_world L))) (\<lambda>force. whenS force (fail ''control requested reconnect''))]))"

fun drop_old :: "config \<Rightarrow> u64 \<Rightarrow> queued list \<Rightarrow> nat \<Rightarrow> stats \<Rightarrow> string list \<Rightarrow> queued list \<times> nat \<times> stats \<times> string list" where
  "drop_old cfg t [] qb st ev = ([], qb, st, ev)"
| "drop_old cfg t (x # q) qb st ev =
     (if elapsed_ms t (qd_at x) > queue_delay_ms cfg
      then drop_old cfg t q (qb - length (qd_data x)) (st\<lparr>st_drop_delay := st_drop_delay st + 1\<rparr>) (event ''queue_delay_drop'' ev)
      else (x # q, qb, st, ev))"

definition drop_delayed :: "link \<Rightarrow> u64 \<Rightarrow> unit tun" where
  "drop_delayed L loop_started =
     (let cfg = lk_cfg L in
      seqS
       [modS (\<lambda>s. case drop_old cfg loop_started (t_q s) (t_queued_bytes s) (t_stats s) (t_events s) of
           (q, qb, st, ev) \<Rightarrow> s\<lparr>t_q := q, t_queued_bytes := qb, t_stats := st, t_events := ev\<rparr>),
        whenS (flow_scheduler cfg) (bindS (now L) (\<lambda>t. withS (\<lambda>s.
          case drop_expired t (of_int (queue_delay_ms cfg) * 1000) (t_pending s) of (n, rest) \<Rightarrow>
            thenS (modS (\<lambda>s. s\<lparr>t_pending := rest\<rparr>))
              (whenS (n \<noteq> 0) (thenS (stat (\<lambda>st. st\<lparr>st_drop_delay := st_drop_delay st + of_nat n\<rparr>))
                (logS ''plaintext_flow_queue_delay_drop'')))))),
        modS note_queues,
        modS (\<lambda>s. s\<lparr>t_stats := t_stats s\<lparr>
          st_queue_oldest_age_us := (if t_q s = [] then 0 else loop_started - qd_at (hd (t_q s))),
          st_last_rx_age_ms := of_int (elapsed_ms loop_started (t_last_rx s))\<rparr>\<rparr>),
        modS (\<lambda>s. s\<lparr>t_stats := snd (effective_batch_packets (t_q s) cfg loop_started (t_stats s))\<rparr>)])"

definition poll_step :: "link \<Rightarrow> poll_outcome tun" where
  "poll_step L = withS (\<lambda>s.
     let cfg = lk_cfg L;
         timeout_ms = (if (t_q s \<noteq> [] \<or> \<not> fq_empty (t_pending s)) \<and> \<not> carrier_tx_pending (t_carrier s)
                       then (if traffic_shaping cfg then 1 else 0) else websocket_poll_ms cfg);
         events = carrier_rx_poll_events (t_carrier s) # (case carrier_tx_poll_events (t_carrier s) of None \<Rightarrow> [] | Some e \<Rightarrow> [e]) in
     ask (\<lambda>k. w_poll (lk_world L) k timeout_ms events))"

text \<open>Reading from the TUN device, at most \<open>n\<close> packets.\<close>

fun read_burst :: "link \<Rightarrow> nat \<Rightarrow> bytes list \<Rightarrow> bytes list tun" where
  "read_burst L 0 burst = retS (Inr burst)"
| "read_burst L (Suc n) burst =
     bindS (ask (w_tun_read (lk_world L))) (\<lambda>r.
       case r of
         TunPacket p \<Rightarrow>
           bindS (now L) (\<lambda>t. thenS (modS (\<lambda>s. s\<lparr>t_last_payload := t, t_stats := t_stats s\<lparr>
               st_tun_in_bytes := st_tun_in_bytes (t_stats s) + of_nat (length p), st_tun_in_pkts := st_tun_in_pkts (t_stats s) + 1,
               st_payload_tx := st_payload_tx (t_stats s) + of_nat (length p)\<rparr>\<rparr>))
             (read_burst L n (burst @ [p])))
       | TunAgain \<Rightarrow> retS (Inr burst)
       | TunStopped \<Rightarrow> retS (Inr burst)
       | TunClosed \<Rightarrow> fail ''TUN closed''
       | TunFailed \<Rightarrow> fail ''TUN read failed'')"

definition schedule_packet :: "link \<Rightarrow> bytes \<Rightarrow> unit tun" where
  "schedule_packet L packet = withS (\<lambda>s.
     let cfg = lk_cfg L;
         room = length (t_q s) + fq_packets (t_pending s) < queue_packets cfg \<and> length packet + 64 \<le> queue_bytes cfg \<and>
                t_queued_bytes s + fq_bytes (t_pending s) \<le> queue_bytes cfg - length packet - 64 in
     if \<not> room then stat count_drop
     else bindS (now L) (\<lambda>t s.
       case fq_push packet t (queue_packets cfg) (queue_bytes cfg) (t_pending s) of
         (ok, p) \<Rightarrow> (s\<lparr>t_pending := p, t_stats := (if ok then t_stats s else count_drop (t_stats s))\<rparr>, Inr ())))"

definition read_tun :: "link \<Rightarrow> unit tun" where
  "read_tun L =
     (let cfg = lk_cfg L; read_budget = (if adaptive_batching cfg then adaptive_batch_max_packets cfg else max 1 (batch_packets cfg)) in
      bindS (read_burst L (nat (max 1 read_budget)) []) (\<lambda>burst.
      thenS (if flow_scheduler cfg
             then thenS (eachS (schedule_packet L) burst) (drain_pending L)
             else eachS (enqueue_packet L) burst)
        (flush_carrier L)))"

definition note_pong :: "link \<Rightarrow> bytes \<Rightarrow> unit tun" where
  "note_pong L pong = withS (\<lambda>s.
     whenS (t_ping_outstanding s \<and> length pong = length (t_ping_payload s) \<and> pong = t_ping_payload s)
       (bindS (now L) (\<lambda>cur. modS (\<lambda>s. let sent = decode_u64 pong in
          s\<lparr>t_ping_outstanding := False,
            t_stats := (if cur \<ge> sent then t_stats s\<lparr>st_ws_rtt_us := uint (cur - sent)\<rparr> else t_stats s)\<rparr>))))"

definition read_carrier :: "link \<Rightarrow> unit tun" where
  "read_carrier L =
     bindS (ask (w_ready (lk_world L))) (\<lambda>ready. bindS (ask (w_reads (lk_world L))) (\<lambda>reads. bindS (ask (w_read_env (lk_world L))) (\<lambda>env.
     withS (\<lambda>s0. case carrier_read ready reads env (t_carrier s0) of
       (w, Inl e) \<Rightarrow> thenS (modS (\<lambda>s. s\<lparr>t_carrier := w\<rparr>)) (throwS (TunCarrier e))
     | (w, Inr messages) \<Rightarrow>
         let before = carrier_counters_of (t_carrier s0); after = carrier_counters_of w;
             pings = cc_rx_ping_frames after - cc_rx_ping_frames before; pongs = cc_rx_pong_frames after - cc_rx_pong_frames before in
         seqS
          [modS (\<lambda>s. s\<lparr>t_carrier := w\<rparr>),
           whenS (cc_rx_frames after \<noteq> cc_rx_frames before) (bindS (now L) (\<lambda>t. modS (\<lambda>s. s\<lparr>t_last_rx := t\<rparr>))),
           stat (\<lambda>st. st\<lparr>st_ws_ping_rx := st_ws_ping_rx st + pings, st_ws_pong_rx := st_ws_pong_rx st + pongs,
             st_ws_control_rx := st_ws_control_rx st + (pings + pongs)\<rparr>),
           modS (\<lambda>s. s\<lparr>t_seen := t_seen s\<lparr>cc_rx_frames := cc_rx_frames after, cc_rx_ping_frames := cc_rx_ping_frames after,
             cc_rx_pong_frames := cc_rx_pong_frames after\<rparr>\<rparr>),
           withS (\<lambda>s. case carrier_take_pongs (t_carrier s) of (ps, w') \<Rightarrow>
             thenS (modS (\<lambda>s. s\<lparr>t_carrier := w'\<rparr>)) (eachS (note_pong L) ps)),
           eachS (on_message L) messages]))))"

section \<open>Timers\<close>

definition send_probe :: "link \<Rightarrow> u64 \<Rightarrow> unit tun" where
  "send_probe L t = withS (\<lambda>s.
     let cfg = lk_cfg L in
     whenS (\<not> wd_pending (t_watchdog s) \<and> elapsed_ms t (t_last_probe s) \<ge> t_probe_interval s)
      (bindS (now L) (\<lambda>token.
       seqS
        [modS (\<lambda>s. s\<lparr>t_watchdog := wd_sent token (t_watchdog s)\<rparr>),
         enqueue_control L RECORD_PING (encode_u64 token),
         stat (\<lambda>st. st\<lparr>st_ping_tx := st_ping_tx st + 1, st_ws_control_tx := st_ws_control_tx st + 1\<rparr>),
         bindS (ask (w_jitter (lk_world L))) (\<lambda>draw. modS (\<lambda>s.
           let seconds = (if idle_probe_sec cfg > 0 \<and> elapsed t (t_last_payload s) > 60000000
                          then max (idle_probe_sec cfg) (rtt_probe_sec cfg) else rtt_probe_sec cfg) in
           s\<lparr>t_last_probe := t,
             t_probe_interval := traffic_interval_ms (min 20 (max 5 seconds)) (timing_jitter_pct cfg) draw\<rparr>)),
         flush_carrier L])))"

definition send_carrier_ping :: "link \<Rightarrow> u64 \<Rightarrow> unit tun" where
  "send_carrier_ping L t = withS (\<lambda>s.
     let cfg = lk_cfg L in
     whenS (websocket_ping_sec cfg > 0 \<and> \<not> t_ping_queued s \<and> \<not> t_ping_outstanding s \<and>
            elapsed_sec t (t_last_carrier_ping s) \<ge> websocket_ping_sec cfg)
      (bindS (now L) (\<lambda>token. let b = encode_u64 token in
       thenS (modS (\<lambda>s. s\<lparr>t_ping_payload := b\<rparr>))
        (bindS (ask (w_mask (lk_world L))) (\<lambda>mk. bindS (now L) (\<lambda>u. withS (\<lambda>s.
           case carrier_send_ping b (mk, u div 1000) (t_carrier s) of
             Inl e \<Rightarrow> throwS (TunCarrier e)
           | Inr w \<Rightarrow> thenS (modS (\<lambda>s. s\<lparr>t_carrier := w, t_ping_queued := True, t_last_carrier_ping := t\<rparr>)) (flush_transport L))))))))"

definition check_pong :: "link \<Rightarrow> u64 \<Rightarrow> unit tun" where
  "check_pong L t = withS (\<lambda>s.
     let cfg = lk_cfg L in
     if t_ping_outstanding s \<and> websocket_pong_timeout_sec cfg > 0 \<and> elapsed_sec t (t_ping_sent_at s) \<ge> websocket_pong_timeout_sec cfg
     then seqS [stat (\<lambda>st. st\<lparr>st_ws_missed_pongs := st_ws_missed_pongs st + 1\<rparr>), logS ''carrier_pong_timeout'', fail ''carrier PONG timeout'']
     else whenS (t_ping_outstanding s \<and> websocket_pong_timeout_sec cfg = 0 \<and> elapsed_sec t (t_ping_sent_at s) \<ge> websocket_ping_sec cfg)
       (modS (\<lambda>s. s\<lparr>t_ping_outstanding := False\<rparr>)))"

definition send_keepalive :: "link \<Rightarrow> u64 \<Rightarrow> unit tun" where
  "send_keepalive L t = withS (\<lambda>s.
     let cfg = lk_cfg L in
     whenS (keepalive_sec cfg > 0 \<and> t_q s = [] \<and> fq_empty (t_pending s) \<and> \<not> carrier_tx_pending (t_carrier s) \<and>
            elapsed_ms t (t_last_tx s) \<ge> t_keepalive_interval s)
      (seqS
        [enqueue_control L RECORD_KEEPALIVE [],
         bindS (ask (w_jitter (lk_world L))) (\<lambda>draw.
           modS (\<lambda>s. s\<lparr>t_keepalive_interval := traffic_interval_ms (keepalive_sec cfg) (timing_jitter_pct cfg) draw\<rparr>)),
         stat (\<lambda>st. st\<lparr>st_keepalive_tx := st_keepalive_tx st + 1, st_ws_control_tx := st_ws_control_tx st + 1\<rparr>),
         flush_carrier L]))"

definition check_session :: "link \<Rightarrow> u64 \<Rightarrow> bool \<Rightarrow> unit tun" where
  "check_session L t gone = withS (\<lambda>s.
     let cfg = lk_cfg L in
     if session_max_age_sec cfg > 0 \<and> elapsed_sec t (t_session_started s) \<ge> session_max_age_sec cfg
     then seqS [stat (\<lambda>st. st\<lparr>st_session_renewals := st_session_renewals st + 1\<rparr>), logS ''carrier_session_renewal'', fail ''session max age reached'']
     else if elapsed_sec t (t_last_rx s) > idle_timeout_sec cfg then fail ''idle timeout''
     else whenS gone (fail ''carrier closed''))"

definition run_timers :: "link \<Rightarrow> bool \<Rightarrow> unit tun" where
  "run_timers L gone =
     thenS (flush_transport L) (bindS (now L) (\<lambda>t.
       seqS
        [send_probe L t, send_carrier_ping L t, check_pong L t, send_keepalive L t,
         whenS (flow_scheduler (lk_cfg L)) (drain_pending L),
         withS (\<lambda>s. whenS (t_q s \<noteq> []) (flush_carrier L)),
         check_session L t gone]))"

text \<open>One turn of the loop; an interrupted \<open>poll\<close> ends it early.\<close>

definition tunnel_turn :: "link \<Rightarrow> unit tun" where
  "tunnel_turn L =
     thenS (check_watchdog L) (bindS (now L) (\<lambda>loop_started.
     thenS (seqS [drop_delayed L loop_started, flush_transport L, drain_pending L, flush_carrier L])
     (bindS (poll_step L) (\<lambda>p.
      case p of
        PollFailed \<Rightarrow> fail ''poll failed''
      | PollInterrupted \<Rightarrow> skipS
      | Polled carrier_ready carrier_error tun_ready \<Rightarrow>
          bindS (now L) (\<lambda>after_poll.
          seqS
           [stat (\<lambda>st. st\<lparr>st_event_loop_delay_us := after_poll - loop_started\<rparr>),
            whenS carrier_ready (flush_transport L),
            whenS tun_ready (read_tun L),
            read_carrier L,
            run_timers L carrier_error])))))"

text \<open>The loop runs until a stop is requested after \<open>n\<close> turns, or a turn throws.\<close>

fun tunnel_loop_n :: "link \<Rightarrow> nat \<Rightarrow> unit tun" where
  "tunnel_loop_n L 0 = skipS"
| "tunnel_loop_n L (Suc n) = thenS (tunnel_turn L) (tunnel_loop_n L n)"

text \<open>The state at the start: one reading of the clock stands for those of the initialisers.\<close>

definition start_tunnel :: "link \<Rightarrow> u64 \<Rightarrow> (int \<Rightarrow> int) \<Rightarrow> (int \<Rightarrow> int) \<Rightarrow> bytes \<Rightarrow> ws_session \<Rightarrow> stats \<Rightarrow> tunnel" where
  "start_tunnel L t jitter1 jitter2 rx_key w st =
     (let cfg = lk_cfg L in
      \<lparr>t_ev = 0, t_q = [], t_queued_bytes = 0, t_pending = new_queue, t_sequence = 1,
       t_dec = new_decoder rx_key (max_record_buffer_bytes cfg),
       t_padding = new_padding_budget (nat (padding_budget_pct cfg)) t,
       t_shape = new_shape_budget (traffic_shaping cfg) (nat (shaping_rate_bytes cfg)) (nat (shaping_burst_bytes cfg)) t,
       t_shaper = new_shaper t, t_watchdog = 0, t_carrier = w, t_seen = carrier_counters_of w,
       t_ping_queued = False, t_ping_outstanding = False, t_ping_payload = replicate 8 0, t_ping_sent_at = t,
       t_last_rx = t, t_last_tx = t, t_last_probe = t, t_last_payload = t - 61000000, t_last_carrier_ping = t, t_session_started = t,
       t_keepalive_interval = traffic_interval_ms (keepalive_sec cfg) (timing_jitter_pct cfg) jitter1,
       t_probe_interval = traffic_interval_ms (min 20 (max 5 (rtt_probe_sec cfg))) (timing_jitter_pct cfg) jitter2,
       t_stats = st\<lparr>st_rtt_us := - 1, st_rtt_sample_us := 0, st_ws_rtt_us := - 1, st_rtt_history := rh_reset,
         st_degraded := False, st_probe_pending_age_ms := 0, st_last_rx_age_ms := 0\<rparr>,
       t_events = [], t_wire = [], t_tun_out = [], t_sent = [], t_log = []\<rparr>)"

end
