(* ===== verification/WireStream.thy ===== *)
theory WireStream
  imports WsProps
begin

text \<open>
  What a session puts on the wire, whatever it reads: the frames of the messages the tunnel sends, the pongs and the
  close frame that answer the peer, in the order in which they were queued.
\<close>

definition wire_frame :: "bool \<Rightarrow> bytes \<Rightarrow> byte \<times> bytes \<Rightarrow> bool" where
  "wire_frame client data f \<longleftrightarrow> fst f \<in> {2, 8, 9, 10} \<and>
     (\<exists>mk. mask_ok client mk \<and> make_frame client (fst f) (snd f) mk = Inr data)"

text \<open>The random mask has four bytes, if it could be drawn.\<close>

definition mask4 :: "bytes option \<Rightarrow> bool" where
  "mask4 mk \<longleftrightarrow> (\<forall>m. mk = Some m \<longrightarrow> length m = 4)"

lemma queue_frame_wire:
  assumes "ws_invar client w" "mask4 mk" "op \<in> {2, 8, 9, 10}" "queue_frame op p mk now w = Inr w'"
  shows "ws_invar client w' \<and> close_received w' = close_received w \<and>
    (\<exists>d. wire_frame client d (op, p) \<and> pending w' = pending w @ d)"
proof -
  have w: "tx_ok w" "ws_client w = client" using assms(1) by (simp_all add: ws_invar_def)
  then obtain d where d: "make_frame client op p mk = Inr d" "pending w' = pending w @ d" "tx_ok w'"
    using queue_frame_ok [OF _ assms(4)] by blast
  have "mask_ok client mk"
    using d(1) assms(2) by (cases mk) (auto simp: mask_ok_def mask4_def make_frame_def Let_def split: if_splits)
  moreover have "same_rx w w'" using queue_frame_same_rx [OF assms(4)] .
  ultimately show ?thesis using d w assms(3) by (auto simp: wire_frame_def ws_invar_def same_rx_def)
qed

text \<open>Answers to the peer: pongs, and a close frame once its close frame has arrived.\<close>

definition answers :: "bool \<Rightarrow> ws_session \<Rightarrow> ws_session \<Rightarrow> bool" where
  "answers client w w' \<longleftrightarrow> (ws_invar client w \<longrightarrow>
     ws_invar client w' \<and> (close_received w \<longrightarrow> close_received w') \<and>
     (\<exists>ds fs. list_all2 (wire_frame client) ds fs \<and> pending w' = pending w @ concat ds \<and> fst ` set fs \<subseteq> {8, 10} \<and>
        (8 \<in> fst ` set fs \<longrightarrow> close_received w')))"

lemma answers_trans:
  assumes "answers client w w1" "answers client w1 w2"
  shows "answers client w w2"
  unfolding answers_def
proof
  assume i: "ws_invar client w"
  with assms(1) obtain ds fs where a: "ws_invar client w1" "close_received w \<longrightarrow> close_received w1" "list_all2 (wire_frame client) ds fs"
    "pending w1 = pending w @ concat ds" "fst ` set fs \<subseteq> {8, 10}" "8 \<in> fst ` set fs \<longrightarrow> close_received w1" by (auto simp: answers_def)
  from a(1) assms(2) obtain ds' fs' where b: "ws_invar client w2" "close_received w1 \<longrightarrow> close_received w2" "list_all2 (wire_frame client) ds' fs'"
    "pending w2 = pending w1 @ concat ds'" "fst ` set fs' \<subseteq> {8, 10}" "8 \<in> fst ` set fs' \<longrightarrow> close_received w2" by (auto simp: answers_def)
  show "ws_invar client w2 \<and> (close_received w \<longrightarrow> close_received w2) \<and>
     (\<exists>ds fs. list_all2 (wire_frame client) ds fs \<and> pending w2 = pending w @ concat ds \<and> fst ` set fs \<subseteq> {8, 10} \<and>
        (8 \<in> fst ` set fs \<longrightarrow> close_received w2))"
    using a b by (intro conjI exI [of _ "ds @ ds'"] exI [of _ "fs @ fs'"]) (auto intro: list_all2_appendI)
qed

text \<open>A change that leaves the transmit side alone.\<close>

lemma answers_same:
  assumes "ws_tx w' = ws_tx w" "tx_queued_bytes w' = tx_queued_bytes w" "ws_client w' = ws_client w" "close_received w \<Longrightarrow> close_received w'"
  shows "answers client w w'"
  unfolding answers_def
proof
  assume "ws_invar client w"
  moreover have "pending w' = pending w" using assms(1) by (simp add: pending_def)
  ultimately show "ws_invar client w' \<and> (close_received w \<longrightarrow> close_received w') \<and>
     (\<exists>ds fs. list_all2 (wire_frame client) ds fs \<and> pending w' = pending w @ concat ds \<and> fst ` set fs \<subseteq> {8, 10} \<and>
        (8 \<in> fst ` set fs \<longrightarrow> close_received w'))"
    using assms by (intro conjI exI [of _ "[]"]) (auto simp: ws_invar_def tx_ok_def)
qed

lemma answers_queued:
  assumes "mask4 mk" "op = 10 \<or> op = 8 \<and> close_received w'" "queue_frame op p mk now w = Inr w1"
    and "w' = w1 \<or> w' = w1\<lparr>close_received := True\<rparr>"
  shows "answers client w w'"
  unfolding answers_def
proof
  assume i: "ws_invar client w"
  have "op \<in> {2, 8, 9, 10}" using assms(2) by auto
  then obtain d where d: "ws_invar client w1" "close_received w1 = close_received w" "wire_frame client d (op, p)" "pending w1 = pending w @ d"
    using queue_frame_wire [OF i assms(1) _ assms(3)] by blast
  have "ws_invar client w'" "pending w' = pending w1" "close_received w \<longrightarrow> close_received w'"
    using d(1,2) assms(4) by (auto simp: ws_invar_def pending_def)
  then show "ws_invar client w' \<and> (close_received w \<longrightarrow> close_received w') \<and>
     (\<exists>ds fs. list_all2 (wire_frame client) ds fs \<and> pending w' = pending w @ concat ds \<and> fst ` set fs \<subseteq> {8, 10} \<and>
        (8 \<in> fst ` set fs \<longrightarrow> close_received w'))"
    using d assms(2) by (intro conjI exI [of _ "[d]"] exI [of _ "[(op, p)]"]) auto
qed

lemma handle_frame_answers:
  assumes "mask4 mk" "handle_frame mk now fin op pay w out = (w', r)"
  shows "answers client w w'"
proof -
  consider (ping) "op = 9" | (close) "op = 8" | (rest) "op \<noteq> 9" "op \<noteq> 8" by blast
  then show ?thesis
  proof cases
    case ping
    let ?w = "w\<lparr>rx_ping_frames := rx_ping_frames w + 1\<rparr>"
    have a: "answers client w ?w" by (rule answers_same) simp_all
    have "w' = ?w \<or> (\<exists>w1. queue_frame 10 pay mk now ?w = Inr w1 \<and> w' = w1)"
      using assms(2) ping by (auto simp: handle_frame_def websocket_send_pong_def Let_def split: sum.splits)
    then have "answers client ?w w'" using answers_queued [OF assms(1), of 10 w' pay now ?w] answers_same [of ?w ?w] by auto
    with a show ?thesis by (rule answers_trans)
  next
    case close
    let ?w = "if length pay \<ge> 2 then w\<lparr>close_code := rd16 (pay ! 0) (pay ! 1), close_has_code := True, close_reason_bytes := length pay - 2\<rparr> else w"
    have a: "answers client w ?w" by (rule answers_same) simp_all
    define w2 where "w2 = (case queue_frame 8 pay mk now ?w of Inl _ \<Rightarrow> ?w | Inr x \<Rightarrow> x)"
    have "w' = w \<or> w' = w2\<lparr>close_received := True\<rparr>"
      using arg_cong [OF assms(2), of fst] close
      unfolding handle_frame_def Let_def w2_def by (simp split: if_splits)
    moreover have "answers client ?w (w2\<lparr>close_received := True\<rparr>)"
    proof (cases "queue_frame 8 pay mk now ?w")
      case (Inl e)
      then show ?thesis by (intro answers_same) (simp_all add: w2_def)
    next
      case (Inr w1)
      then show ?thesis by (intro answers_queued [OF assms(1) _ Inr]) (simp_all add: w2_def)
    qed
    ultimately show ?thesis using answers_trans [OF a] answers_same [of w w] by metis
  next
    case rest
    then have "ws_tx w' = ws_tx w \<and> tx_queued_bytes w' = tx_queued_bytes w \<and> ws_client w' = ws_client w \<and> close_received w' = close_received w"
      using assms(2) by (auto simp: handle_frame_def Let_def split: if_splits)
    then show ?thesis by (intro answers_same) simp_all
  qed
qed

lemma parse_loop_answers:
  assumes "\<forall>i. mask4 (fst (env i))" "parse_loop env i rest w out = (w', r)"
  shows "answers client w w'"
  using assms
proof (induction env i rest w out rule: parse_loop.induct)
  case (1 env i rest w out)
  show ?case
  proof (cases "parse_frame (ws_client w) (frame_limit w) rest")
    case (Frame fin op pay rest')
    let ?w = "w\<lparr>rx_frames := rx_frames w + 1\<rparr>"
    obtain w1 h where h: "handle_frame (fst (env i)) (snd (env i)) fin op pay ?w out = (w1, h)" by fastforce
    have "answers client w ?w" by (rule answers_same) simp_all
    also have "answers client ?w w1" using handle_frame_answers [OF _ h] "1.prems"(1) by blast
    finally (answers_trans) have a: "answers client w w1" .
    show ?thesis
    proof (cases "\<exists>out1. h = Inr (out1, False)")
      case True
      then obtain out1 where o: "h = Inr (out1, False)" by blast
      then have "parse_loop env (i + 1) rest' w1 out1 = (w', r)"
        using "1.prems"(2) Frame h by (subst (asm) parse_loop.simps) simp
      then have "answers client w1 w'" using "1.IH" [OF Frame h [symmetric] o refl] "1.prems"(1) by simp
      with a show ?thesis by (rule answers_trans)
    next
      case False
      then have "w' = w1" using "1.prems"(2) Frame h
        by (subst (asm) parse_loop.simps) (auto split: sum.splits prod.splits if_splits)
      with a show ?thesis by simp
    qed
  qed (use "1.prems"(2) in \<open>auto simp: parse_loop.simps [of env i rest] intro: answers_same\<close>)
qed

lemma ws_fill_answers: "ws_fill reads i n w = (w', r) \<Longrightarrow> answers client w w'"
proof (induction reads i n w rule: ws_fill.induct)
  case (1 reads i n w)
  show ?case
  proof (cases "n < 262144 \<and> (\<exists>b. reads i = RGot b \<and> b \<noteq> [] \<and> \<not> length (ws_rx w) > kMaxWsRxBufferedBytes - length b)")
    case True
    then obtain b where b: "n < 262144" "reads i = RGot b" "b \<noteq> []" "\<not> length (ws_rx w) > kMaxWsRxBufferedBytes - length b" by blast
    let ?w = "w\<lparr>rx_wait := 0, ws_rx := ws_rx w @ b\<rparr>"
    have "answers client w ?w" by (rule answers_same) simp_all
    moreover have "answers client ?w w'"
      using "1.IH" [OF b(1,2,3) refl b(4)] "1.prems" b by (subst (asm) (2) ws_fill.simps) (simp add: Let_def)
    ultimately show ?thesis by (rule answers_trans)
  next
    case False
    then have "ws_tx w' = ws_tx w \<and> tx_queued_bytes w' = tx_queued_bytes w \<and> ws_client w' = ws_client w \<and> close_received w' = close_received w"
      using "1.prems" by (subst (asm) ws_fill.simps) (auto simp: Let_def split: if_splits rd.splits)
    then show ?thesis by (intro answers_same) simp_all
  qed
qed

text \<open>Whatever a call of \<open>read\<close> receives, it only appends such answers to what is still to be written.\<close>

lemma read_answers:
  assumes "\<forall>i. mask4 (fst (env i))" "carrier_read ready reads env w = (w', r)"
  shows "answers client w w'"
proof -
  obtain w1 f where f: "ws_fill reads 0 0 w = (w1, f)" by fastforce
  obtain w2 p where p: "parse_loop env 0 (ws_rx w1) w1 [] = (w2, p)" by fastforce
  have a: "answers client w w1" "answers client w w2"
    using ws_fill_answers [OF f] parse_loop_answers [OF assms(1) p] answers_trans by blast+
  have r: "answers client w (w2\<lparr>ws_rx := rx\<rparr>)" for rx
    using a(2) answers_same [of "w2\<lparr>ws_rx := rx\<rparr>" w2] answers_trans by fastforce
  have "w' = w \<or> w' = w\<lparr>prefetched_messages := []\<rparr> \<or> w' = w1 \<or> w' = w2 \<or> (\<exists>rx. w' = w2\<lparr>ws_rx := rx\<rparr>)"
    using assms(2) f p by (auto simp: carrier_read_def websocket_read_messages_def Let_def split: if_splits prod.splits sum.splits)
  then show ?thesis using a r by (auto intro: answers_same)
qed

section \<open>The whole wire\<close>

text \<open>
  The bytes taken so far and the bytes still queued are frames in order; the data messages among
  them are the messages sent, pings occur only where the tunnel sends them, a close frame only after the peer's.
\<close>

definition framed :: "bool \<Rightarrow> bool \<Rightarrow> ws_session \<Rightarrow> bytes \<Rightarrow> bytes list \<Rightarrow> bool" where
  "framed client pings w wire sent \<longleftrightarrow> ws_invar client w \<and>
     (\<exists>ds fs. list_all2 (wire_frame client) ds fs \<and> wire @ pending w = concat ds \<and> binaries fs = sent \<and>
        (8 \<in> fst ` set fs \<longrightarrow> close_received w) \<and> (9 \<in> fst ` set fs \<longrightarrow> pings))"

lemma framed_flush:
  assumes "framed client pings w wire sent" "io_ok io" "carrier_flush io n w = (w', r, out)"
  shows "framed client pings w' (wire @ out) sent"
proof -
  have w: "ws_invar client w" using assms(1) by (simp add: framed_def)
  have "ws_invar client w'" "pending w = out @ pending w'" using wsc.flush_law [OF w assms(2,3)] by simp_all
  moreover have "close_received w' = close_received w"
    using websocket_flush_ok(6) [OF assms(2)] assms(3) w by (simp add: carrier_flush_def ws_invar_def)
  ultimately show ?thesis using assms(1) by (auto simp: framed_def)
qed

lemma framed_send:
  assumes "framed client pings w wire sent" "mask4 (fst x)" "carrier_send p x w = Inr w'"
  shows "framed client pings w' wire (sent @ [p])"
proof -
  obtain ds fs where f: "ws_invar client w" "list_all2 (wire_frame client) ds fs" "wire @ pending w = concat ds" "binaries fs = sent"
    "8 \<in> fst ` set fs \<longrightarrow> close_received w" "9 \<in> fst ` set fs \<longrightarrow> pings" using assms(1) by (auto simp: framed_def)
  obtain d where d: "ws_invar client w'" "close_received w' = close_received w" "wire_frame client d (2, p)" "pending w' = pending w @ d"
    using queue_frame_wire [OF f(1) assms(2), of 2 p "snd x" w'] assms(3) by (auto simp: carrier_send_def websocket_send_binary_def)
  show ?thesis
    unfolding framed_def using f d by (intro conjI exI [of _ "ds @ [d]"] exI [of _ "fs @ [(2, p)]"]) (auto simp: binaries_def intro: list_all2_appendI)
qed

lemma framed_ping:
  assumes "framed client pings w wire sent" "mask4 (fst x)" "carrier_send_ping p x w = Inr w'" "pings"
  shows "framed client pings w' wire sent"
proof -
  obtain ds fs where f: "ws_invar client w" "list_all2 (wire_frame client) ds fs" "wire @ pending w = concat ds" "binaries fs = sent"
    "8 \<in> fst ` set fs \<longrightarrow> close_received w" "9 \<in> fst ` set fs \<longrightarrow> pings" using assms(1) by (auto simp: framed_def)
  obtain d where d: "ws_invar client w'" "close_received w' = close_received w" "wire_frame client d (9, p)" "pending w' = pending w @ d"
    using queue_frame_wire [OF f(1) assms(2), of 9 p "snd x" w'] assms(3) by (auto simp: carrier_send_ping_def websocket_send_ping_def)
  show ?thesis
    unfolding framed_def using f d assms(4) by (intro conjI exI [of _ "ds @ [d]"] exI [of _ "fs @ [(9, p)]"]) (auto simp: binaries_def intro: list_all2_appendI)
qed

lemma framed_answers:
  assumes "framed client pings w wire sent" "answers client w w'"
  shows "framed client pings w' wire sent"
proof -
  obtain ds fs where f: "ws_invar client w" "list_all2 (wire_frame client) ds fs" "wire @ pending w = concat ds" "binaries fs = sent"
    "8 \<in> fst ` set fs \<longrightarrow> close_received w" "9 \<in> fst ` set fs \<longrightarrow> pings" using assms(1) by (auto simp: framed_def)
  obtain ds' fs' where a: "ws_invar client w'" "close_received w \<longrightarrow> close_received w'" "list_all2 (wire_frame client) ds' fs'"
    "pending w' = pending w @ concat ds'" "fst ` set fs' \<subseteq> {8, 10}" "8 \<in> fst ` set fs' \<longrightarrow> close_received w'"
    using assms(2) f(1) by (auto simp: answers_def)
  have "binaries fs' = []" using a(5) by (auto simp: binaries_def filter_empty_conv)
  then show ?thesis
    unfolding framed_def using f a by (intro conjI exI [of _ "ds @ ds'"] exI [of _ "fs @ fs'"]) (auto simp: binaries_append intro: list_all2_appendI)
qed

end
