(* ===== verification/RecordStream.thy ===== *)
theory RecordStream
  imports Records
begin

text \<open>
  The contract of a streaming record decoder and what follows from it, proved once: the
  sequence numbers handed to the callback strictly increase, the gap counter accounts for
  every number skipped, cutting the stream into chunks does not matter, and a stream of
  valid records is delivered exactly. The decoders of all three wires are instances.
\<close>

section \<open>A session of feeds\<close>

text \<open>
  The receive loops of the runtime feed every carrier message to the decoder and end the
  session at the first failed feed.
\<close>

fun feed_all :: "(decoder \<Rightarrow> bytes \<Rightarrow> feed_result) \<Rightarrow> decoder \<Rightarrow> bytes list \<Rightarrow> feed_result" where
  "feed_all feed d [] = (d, [], FeedOk)"
| "feed_all feed d (m # ms) =
     (case feed d m of
        (d', rs, FeedOk) \<Rightarrow> (case feed_all feed d' ms of (d'', rs', out) \<Rightarrow> (d'', rs @ rs', out))
      | failed \<Rightarrow> failed)"

abbreviation with_more :: "decoder \<Rightarrow> bytes \<Rightarrow> decoder" where
  "with_more d bs \<equiv> d\<lparr>dec_buffer := dec_buffer d @ bs\<rparr>"

abbreviation seq_of :: "delivery \<Rightarrow> u64" where
  "seq_of r \<equiv> fst (snd r)"

text \<open>Nothing at or below the highest accepted number can be accepted any more.\<close>

definition fresh :: "decoder \<Rightarrow> u64 \<Rightarrow> bool" where
  "fresh d s \<longleftrightarrow> (have_seq d \<longrightarrow> highest_seq d < s)"

section \<open>The decoder contract\<close>

locale record_decoder =
  fixes step :: "decoder \<Rightarrow> dec_step"
    and loop :: "decoder \<Rightarrow> feed_result"
    and feed :: "decoder \<Rightarrow> bytes \<Rightarrow> feed_result"
  assumes loop_unfold: "loop d = (case step d of
        NeedMore \<Rightarrow> (d, [], FeedOk)
      | Refuse d' e \<Rightarrow> (d', [], FeedError e)
      | Raise e \<Rightarrow> (d, [], FeedThrow e)
      | Deliver d' r \<Rightarrow> (case loop d' of (d'', rs, out) \<Rightarrow> (d'', r # rs, out)))"
    and feed_unfold: "feed d bs =
      (if length (dec_buffer d) + length bs > dec_max d then (d, [], FeedError BufferLimit)
       else loop (with_more d bs))"
    and deliver_shrinks: "step d = Deliver d' r \<Longrightarrow> length (dec_buffer d') < length (dec_buffer d)"
    and deliver_state: "step d = Deliver d' r \<Longrightarrow>
      fresh d (seq_of r) \<and> d' = (accept_seq d (seq_of r))\<lparr>dec_buffer := dec_buffer d'\<rparr>"
    and deliver_more: "step d = Deliver d' r \<Longrightarrow> step (with_more d bs) = Deliver (with_more d' bs) r"
    and refuse_more: "step d = Refuse d' e \<Longrightarrow> step (with_more d bs) = Refuse (with_more d' bs) e"
    and raise_more: "step d = Raise e \<Longrightarrow> step (with_more d bs) = Raise e"
    and refuse_state: "step d = Refuse d' e \<Longrightarrow>
      dec_key d' = dec_key d \<and> dec_max d' = dec_max d \<and>
      (have_seq d \<longrightarrow> have_seq d' \<and> highest_seq d \<le> highest_seq d')"
begin

lemma deliver_seq:
  "step d = Deliver d' r \<Longrightarrow>
   have_seq d' \<and> highest_seq d' = seq_of r \<and> dec_key d' = dec_key d \<and> dec_max d' = dec_max d"
  by (drule deliver_state) (cases d', simp add: accept_seq_def)

lemma loop_induct [consumes 1, case_names stop deliver]:
  assumes "loop d = (d', rs, out)"
    and stop: "\<And>d d' out. (case step d of NeedMore \<Rightarrow> d' = d \<and> out = FeedOk
        | Refuse d1 e \<Rightarrow> d' = d1 \<and> out = FeedError e
        | Raise e \<Rightarrow> d' = d \<and> out = FeedThrow e
        | Deliver d1 r \<Rightarrow> False) \<Longrightarrow> P d d' [] out"
    and deliver: "\<And>d d1 r d' rs out. step d = Deliver d1 r \<Longrightarrow> loop d1 = (d', rs, out) \<Longrightarrow>
        P d1 d' rs out \<Longrightarrow> P d d' (r # rs) out"
  shows "P d d' rs out"
  using assms(1)
proof (induction "length (dec_buffer d)" arbitrary: d rs rule: less_induct)
  case less
  show ?case
  proof (cases "step d")
    case (Deliver d1 r)
    with less.prems obtain rs1 where rs1: "loop d1 = (d', rs1, out)" "rs = r # rs1"
      by (auto simp: loop_unfold [of d] split: prod.splits)
    moreover have "P d1 d' rs1 out"
      using less.hyps [OF deliver_shrinks [OF Deliver] rs1(1)] .
    ultimately show ?thesis using deliver [OF Deliver] by blast
  qed (use less.prems stop [where d = d and d' = d' and out = out] in \<open>auto simp: loop_unfold [of d]\<close>)
qed

lemma loop_have_seq:
  "loop d = (d', rs, out) \<Longrightarrow>
   dec_key d' = dec_key d \<and> dec_max d' = dec_max d \<and>
   (have_seq d \<longrightarrow> have_seq d' \<and> highest_seq d \<le> highest_seq d')"
proof (induction rule: loop_induct)
  case (stop d d' out)
  then show ?case using refuse_state [of d] by (auto split: dec_step.splits)
next
  case (deliver d d1 r d' rs out)
  then show ?case
    using deliver_state [OF deliver(1)] deliver_seq [OF deliver(1)] by (auto simp: fresh_def)
qed

text \<open>Replay protection: for any bytes whatever, the delivered numbers strictly increase.\<close>

lemma loop_increasing:
  "loop d = (d', rs, out) \<Longrightarrow>
   sorted_wrt (<) (map seq_of rs) \<and> (\<forall>r \<in> set rs. fresh d (seq_of r) \<and> \<not> fresh d' (seq_of r))"
proof (induction rule: loop_induct)
  case (stop d d' out)
  then show ?case by simp
next
  case (deliver d d1 r d' rs out)
  have r: "fresh d (seq_of r)" "have_seq d1" "highest_seq d1 = seq_of r"
    using deliver_state [OF deliver(1)] deliver_seq [OF deliver(1)] by simp_all
  moreover have "have_seq d'" "seq_of r \<le> highest_seq d'"
    using loop_have_seq [OF deliver(2)] r by auto
  ultimately show ?case
    using deliver(3) by (force simp: fresh_def)
qed

lemma fresh_back: "loop d = (d', rs, out) \<Longrightarrow> fresh d' s \<Longrightarrow> fresh d s"
  using loop_have_seq by (fastforce simp: fresh_def)

lemma feed_cases:
  assumes "feed d bs = (d', rs, out)"
  obtains "d' = d" "rs = []" "out = FeedError BufferLimit" "dec_max d < length (dec_buffer d) + length bs"
  | "length (dec_buffer d) + length bs \<le> dec_max d" "loop (with_more d bs) = (d', rs, out)"
  using assms by (auto simp: feed_unfold split: if_splits)

lemma feed_increasing:
  assumes "feed d bs = (d', rs, out)"
  shows "sorted_wrt (<) (map seq_of rs) \<and>
    (\<forall>r \<in> set rs. fresh d (seq_of r) \<and> \<not> fresh d' (seq_of r)) \<and>
    (\<forall>s. fresh d' s \<longrightarrow> fresh d s)"
  using assms
proof (cases rule: feed_cases)
  case 2
  then show ?thesis
    using loop_increasing [OF 2(2)] fresh_back [OF 2(2)] by (simp add: fresh_def)
qed simp

lemma feed_all_increasing:
  "feed_all feed d ms = (d', rs, out) \<Longrightarrow>
   sorted_wrt (<) (map seq_of rs) \<and> (\<forall>r \<in> set rs. fresh d (seq_of r) \<and> \<not> fresh d' (seq_of r)) \<and>
   (\<forall>s. fresh d' s \<longrightarrow> fresh d s)"
proof (induction ms arbitrary: d rs)
  case Nil
  then show ?case by simp
next
  case (Cons m ms)
  obtain d1 rs1 out1 where f: "feed d m = (d1, rs1, out1)" by (cases "feed d m")
  note fi = feed_increasing [OF f]
  show ?case
  proof (cases "out1 = FeedOk")
    case True
    with f Cons.prems obtain rs2 where r2: "feed_all feed d1 ms = (d', rs2, out)" "rs = rs1 @ rs2"
      by (auto split: prod.splits)
    note ih = Cons.IH [OF r2(1)]
    have "seq_of a < seq_of b" if "a \<in> set rs1" "b \<in> set rs2" for a b
    proof -
      have "\<not> fresh d1 (seq_of a)" "fresh d1 (seq_of b)" using fi ih that by auto
      then show ?thesis by (auto simp: fresh_def)
    qed
    moreover have "\<not> fresh d' (seq_of a)" if "a \<in> set rs1" for a using fi ih that by blast
    moreover have "fresh d (seq_of b)" if "b \<in> set rs2" for b using fi ih that by blast
    ultimately show ?thesis
      using fi ih r2(2) by (auto simp: sorted_wrt_append)
  next
    case False
    with f Cons.prems have "d' = d1" "rs = rs1" by (auto split: feed_outcome.splits)
    with fi show ?thesis by simp
  qed
qed

end

section \<open>Gap accounting and chunking\<close>

lemma accept_seq_gaps:
  assumes "fresh d s" "have_seq d"
  shows "sequence_gaps (accept_seq d s) = sequence_gaps d + (s - highest_seq d - 1)"
proof (cases "s > highest_seq d + 1")
  case True
  with assms(2) show ?thesis by (simp add: accept_seq_def)
next
  case False
  from assms have "highest_seq d < s" by (simp add: fresh_def)
  then have "highest_seq d + 1 \<le> s" by (rule inc_le)
  with False have "s = highest_seq d + 1" by simp
  then show ?thesis by (simp add: accept_seq_def)
qed

context record_decoder
begin

lemma deliver_gaps:
  "step d = Deliver d' r \<Longrightarrow> sequence_gaps d' = sequence_gaps (accept_seq d (seq_of r))"
  by (drule deliver_state) (cases d', simp add: accept_seq_def)

lemma loop_gaps:
  "loop d = (d', rs, out) \<Longrightarrow> out = FeedOk \<Longrightarrow> have_seq d \<Longrightarrow>
   sequence_gaps d' + of_nat (length rs) - highest_seq d' = sequence_gaps d - highest_seq d"
proof (induction rule: loop_induct)
  case (stop d d' out)
  then show ?case by (auto split: dec_step.splits)
next
  case (deliver d d1 r d' rs out)
  note st = deliver_state [OF deliver(1)]
  have "sequence_gaps d1 = sequence_gaps d + (seq_of r - highest_seq d - 1)"
    using st accept_seq_gaps [of d "seq_of r"] deliver.prems
    by (simp add: deliver_gaps [OF deliver(1)])
  moreover have "have_seq d1" "highest_seq d1 = seq_of r"
    using deliver_seq [OF deliver(1)] by simp_all
  moreover note deliver.IH deliver.prems(1)
  ultimately have "sequence_gaps d' + of_nat (length rs) - highest_seq d' =
      sequence_gaps d - highest_seq d - 1" by simp
  then show ?case by (simp add: algebra_simps)
qed

lemma feed_gaps:
  assumes "feed d bs = (d', rs, FeedOk)" "have_seq d"
  shows "sequence_gaps d' + of_nat (length rs) - highest_seq d' = sequence_gaps d - highest_seq d"
  using assms(1)
proof (cases rule: feed_cases)
  case 2
  with loop_gaps [OF 2(2)] assms(2) show ?thesis by simp
qed simp

lemma loop_more:
  "loop d = (d1, rs, out) \<Longrightarrow> out = FeedOk \<Longrightarrow>
   loop (with_more d bs) = (case loop (with_more d1 bs) of (d2, rs2, out2) \<Rightarrow> (d2, rs @ rs2, out2))"
proof (induction rule: loop_induct)
  case (stop d d' out)
  then have "d' = d" by (auto split: dec_step.splits)
  then show ?case by (auto split: prod.splits)
next
  case (deliver d d1 r d' rs out)
  then show ?case
    by (auto simp: loop_unfold [of "with_more d bs"] deliver_more [OF deliver(1)] split: prod.splits)
qed

lemma loop_more_failed:
  "loop d = (d1, rs, out) \<Longrightarrow> out \<noteq> FeedOk \<Longrightarrow> snd (loop (with_more d bs)) = (rs, out)"
proof (induction rule: loop_induct)
  case (stop d d' out)
  then show ?case
    by (cases "step d") (auto simp: loop_unfold [of "with_more d bs"] refuse_more raise_more)
next
  case (deliver d d1 r d' rs out)
  then show ?case
    by (auto simp: loop_unfold [of "with_more d bs"] deliver_more [OF deliver(1)] split: prod.splits)
qed

text \<open>Cutting the bytes of one feed in two changes neither the deliveries nor the outcome.\<close>

lemma loop_buffer_shrinks: "loop d = (d', rs, out) \<Longrightarrow> out = FeedOk \<Longrightarrow> length (dec_buffer d') \<le> length (dec_buffer d)"
proof (induction rule: loop_induct)
  case (stop d d' out)
  then show ?case by (auto split: dec_step.splits)
next
  case (deliver d d1 r d' rs out)
  then show ?case using deliver_shrinks [OF deliver(1)] by simp
qed

lemma loop_buffer_bound:
  "loop d = (d', rs, out) \<Longrightarrow> (\<And>e d e'. step d = Refuse e e' \<Longrightarrow> dec_buffer e = dec_buffer d) \<Longrightarrow>
   length (dec_buffer d') \<le> length (dec_buffer d)"
proof (induction rule: loop_induct)
  case (stop d d' out)
  then show ?case by (auto split: dec_step.splits)
next
  case (deliver d d1 r d' rs out)
  then show ?case using deliver_shrinks [OF deliver(1)] by simp
qed

lemma feed_chunks:
  assumes "length (dec_buffer d) + length a + length b \<le> dec_max d"
  shows "snd (feed d (a @ b)) = snd (feed_all feed d [a, b])"
proof -
  obtain d1 rs out where l: "loop (with_more d a) = (d1, rs, out)" by (cases "loop (with_more d a)")
  have fa: "feed d a = (d1, rs, out)" using assms l by (simp add: feed_unfold)
  have fab: "feed d (a @ b) = loop (with_more (with_more d a) b)" using assms by (simp add: feed_unfold)
  show ?thesis
  proof (cases "out = FeedOk")
    case True
    have "length (dec_buffer d1) \<le> length (dec_buffer d) + length a" "dec_max d1 = dec_max d"
      using loop_buffer_shrinks [OF l True] loop_have_seq [OF l] by simp_all
    then have "feed d1 b = loop (with_more d1 b)" using assms by (simp add: feed_unfold)
    with True fa fab loop_more [OF l True] show ?thesis by (auto split: prod.splits feed_outcome.splits)
  next
    case False
    with fa fab loop_more_failed [OF l False] show ?thesis by (auto split: feed_outcome.splits)
  qed
qed

end

context record_decoder
begin

text \<open>The same from a decoder that has accepted nothing: the first number is free.\<close>

lemma loop_gaps_new:
  assumes "loop d = (d', rs, FeedOk)" "\<not> have_seq d"
  shows "if rs = [] then sequence_gaps d' = sequence_gaps d \<and> \<not> have_seq d' else have_seq d' \<and>
    sequence_gaps d' + of_nat (length rs) - highest_seq d' = sequence_gaps d + 1 - seq_of (hd rs)"
proof (cases "step d")
  case (Deliver d1 r)
  with assms obtain rs1 where rs1: "loop d1 = (d', rs1, FeedOk)" "rs = r # rs1"
    by (auto simp: loop_unfold [of d] split: prod.splits)
  have d1: "sequence_gaps d1 = sequence_gaps d" "have_seq d1" "highest_seq d1 = seq_of r"
    using deliver_state [OF Deliver] deliver_seq [OF Deliver] assms(2)
    by (simp_all add: deliver_gaps [OF Deliver] accept_seq_def)
  then have "sequence_gaps d' + of_nat (length rs1) - highest_seq d' = sequence_gaps d - seq_of r"
    using loop_gaps [OF rs1(1)] by simp
  with d1 rs1(2) loop_have_seq [OF rs1(1)] show ?thesis by (simp add: algebra_simps)
qed (use assms in \<open>auto simp: loop_unfold [of d]\<close>)

lemma feed_all_have_seq:
  "feed_all feed d ms = (d', rs, out) \<Longrightarrow> have_seq d \<Longrightarrow> have_seq d'"
proof (induction ms arbitrary: d rs)
  case (Cons m ms)
  obtain d1 rs1 out1 where f: "feed d m = (d1, rs1, out1)" by (cases "feed d m")
  then have "have_seq d1" using Cons.prems(2) loop_have_seq by (fastforce elim: feed_cases)
  with f Cons show ?case by (auto split: feed_outcome.splits prod.splits)
qed simp

lemma feed_all_gaps:
  "feed_all feed d ms = (d', rs, FeedOk) \<Longrightarrow>
   (have_seq d \<longrightarrow> sequence_gaps d' + of_nat (length rs) - highest_seq d' = sequence_gaps d - highest_seq d) \<and>
   (\<not> have_seq d \<longrightarrow> (if rs = [] then sequence_gaps d' = sequence_gaps d \<and> \<not> have_seq d' else have_seq d' \<and>
     sequence_gaps d' + of_nat (length rs) - highest_seq d' = sequence_gaps d + 1 - seq_of (hd rs)))"
proof (induction ms arbitrary: d rs)
  case Nil
  then show ?case by auto
next
  case (Cons m ms)
  from Cons.prems obtain d1 rs1 rs2 where f: "feed d m = (d1, rs1, FeedOk)"
      "feed_all feed d1 ms = (d', rs2, FeedOk)" and rs: "rs = rs1 @ rs2"
    by (auto split: prod.splits feed_outcome.splits)
  note ih = Cons.IH [OF f(2)]
  from f(1) have l: "loop (with_more d m) = (d1, rs1, FeedOk)"
    by (auto elim: feed_cases)
  show ?case
  proof (cases "have_seq d")
    case True
    then have "have_seq d1" using loop_have_seq [OF l] by simp
    have "sequence_gaps d' + of_nat (length rs) - highest_seq d' =
        (sequence_gaps d' + of_nat (length rs2) - highest_seq d') + of_nat (length rs1)"
      by (simp add: rs algebra_simps)
    also have "\<dots> = sequence_gaps d1 + of_nat (length rs1) - highest_seq d1"
      using ih \<open>have_seq d1\<close> by (simp add: algebra_simps)
    also have "\<dots> = sequence_gaps d - highest_seq d"
      using loop_gaps [OF l] True by simp
    finally show ?thesis using True by simp
  next
    case False
    note new = loop_gaps_new [OF l]
    show ?thesis
    proof (cases "rs1 = []")
      case True
      with False new ih rs show ?thesis by simp
    next
      case nonempty: False
      have "have_seq d1" using False new nonempty by simp
      have "sequence_gaps d' + of_nat (length rs) - highest_seq d' =
          (sequence_gaps d' + of_nat (length rs2) - highest_seq d') + of_nat (length rs1)"
        by (simp add: rs algebra_simps)
      also have "\<dots> = sequence_gaps d1 + of_nat (length rs1) - highest_seq d1"
        using ih \<open>have_seq d1\<close> by (simp add: algebra_simps)
      also have "\<dots> = sequence_gaps d + 1 - seq_of (hd rs)"
        using False new nonempty rs by simp
      finally have "sequence_gaps d' + of_nat (length rs) - highest_seq d' =
          sequence_gaps d + 1 - seq_of (hd rs)" .
      moreover have "have_seq d'" using feed_all_have_seq [OF f(2)] \<open>have_seq d1\<close> by simp
      ultimately show ?thesis using False nonempty rs by simp
    qed
  qed
qed

text \<open>Any two ways of cutting the same bytes give the same deliveries and outcome.\<close>

lemma feed_all_concat:
  assumes "length (dec_buffer d) + length (concat ms) \<le> dec_max d" "ms \<noteq> []"
  shows "snd (feed_all feed d ms) = snd (feed d (concat ms))"
  using assms
proof (induction ms arbitrary: d)
  case Nil
  then show ?case by simp
next
  case (Cons m ms)
  show ?case
  proof (cases "ms = []")
    case True
    then show ?thesis by (auto split: prod.splits feed_outcome.splits)
  next
    case False
    have c: "snd (feed d (m @ concat ms)) = snd (feed_all feed d [m, concat ms])"
      using Cons.prems by (intro feed_chunks) simp
    obtain d1 rs out where f: "feed d m = (d1, rs, out)" by (cases "feed d m")
    show ?thesis
    proof (cases "out = FeedOk")
      case True
      have l: "loop (with_more d m) = (d1, rs, FeedOk)" using f True by (auto elim: feed_cases)
      have "length (dec_buffer d1) \<le> length (dec_buffer d) + length m" "dec_max d1 = dec_max d"
        using loop_buffer_shrinks [OF l] loop_have_seq [OF l] by simp_all
      then have "snd (feed_all feed d1 ms) = snd (feed d1 (concat ms))"
        using Cons.prems False by (intro Cons.IH) simp_all
      with f True c show ?thesis by (auto split: prod.splits feed_outcome.splits)
    next
      case False
      with f c show ?thesis by (auto split: feed_outcome.splits)
    qed
  qed
qed

end

section \<open>Valid records and streams of them\<close>

text \<open>
  \<open>valid k r x\<close>: the bytes \<open>r\<close> are one whole record that a decoder with key \<open>k\<close> opens to the
  delivery \<open>x\<close>, unless the sequence number is stale.
\<close>

locale record_codec = record_decoder +
  fixes valid :: "bytes \<Rightarrow> bytes \<Rightarrow> delivery \<Rightarrow> bool"
  assumes valid_deliver:
    "valid (dec_key d) r x \<Longrightarrow> length r \<le> dec_max d \<Longrightarrow> fresh d (seq_of x) \<Longrightarrow>
     step (d\<lparr>dec_buffer := r\<rparr>) = Deliver ((accept_seq d (seq_of x))\<lparr>dec_buffer := []\<rparr>) x"
    and valid_partial:
    "valid (dec_key d) r x \<Longrightarrow> length r \<le> dec_max d \<Longrightarrow> strict_prefix p r \<Longrightarrow>
     step (d\<lparr>dec_buffer := p\<rparr>) = NeedMore"
    and empty_needs_more: "step (d\<lparr>dec_buffer := []\<rparr>) = NeedMore"
    and deliver_valid: "step d = Deliver d' x \<Longrightarrow>
     \<exists>r. dec_buffer d = r @ dec_buffer d' \<and> valid (dec_key d) r x"
    and refuse_reason: "step d = Refuse d' e \<Longrightarrow> e \<noteq> BufferLimit"
begin

lemma valid_deliver_more:
  assumes "valid (dec_key d) r x" "length r \<le> dec_max d" "fresh d (seq_of x)"
  shows "step (d\<lparr>dec_buffer := r @ bs\<rparr>) = Deliver ((accept_seq d (seq_of x))\<lparr>dec_buffer := bs\<rparr>) x"
  using deliver_more [OF valid_deliver [OF assms], of bs] by simp

lemma accept_seq_frame:
  "dec_key (accept_seq d s) = dec_key d \<and> dec_max (accept_seq d s) = dec_max d \<and>
   have_seq (accept_seq d s) \<and> highest_seq (accept_seq d s) = s"
  by (simp add: accept_seq_def)

lemma loop_stream:
  assumes "list_all2 (valid k) rs xs" "dec_key d = k" "\<forall>r \<in> set rs. length r \<le> dec_max d"
    and "sorted_wrt (<) (map seq_of xs)" "\<forall>x \<in> set xs. fresh d (seq_of x)"
    and tail: "tail = [] \<or> (\<exists>r x. valid k r x \<and> length r \<le> dec_max d \<and> strict_prefix tail r)"
  shows "\<exists>d'. loop (d\<lparr>dec_buffer := concat rs @ tail\<rparr>) = (d', xs, FeedOk) \<and>
    dec_buffer d' = tail \<and> dec_key d' = k \<and> dec_max d' = dec_max d \<and>
    (\<forall>s. fresh d s \<and> (\<forall>x \<in> set xs. seq_of x < s) \<longrightarrow> fresh d' s)"
  using assms
proof (induction arbitrary: d rule: list_all2_induct)
  case Nil
  then have "step (d\<lparr>dec_buffer := tail\<rparr>) = NeedMore"
    using empty_needs_more valid_partial by blast
  with Nil show ?case by (auto simp: loop_unfold [of "d\<lparr>dec_buffer := tail\<rparr>"] fresh_def)
next
  case (Cons r rs x xs)
  let ?d1 = "accept_seq d (seq_of x)"
  have st: "step (d\<lparr>dec_buffer := concat (r # rs) @ tail\<rparr>) =
      Deliver (?d1\<lparr>dec_buffer := concat rs @ tail\<rparr>) x"
    using Cons valid_deliver_more [of d r x "concat rs @ tail"] by simp
  have "\<exists>d'. loop (?d1\<lparr>dec_buffer := concat rs @ tail\<rparr>) = (d', xs, FeedOk) \<and>
    dec_buffer d' = tail \<and> dec_key d' = k \<and> dec_max d' = dec_max ?d1 \<and>
    (\<forall>s. fresh ?d1 s \<and> (\<forall>x \<in> set xs. seq_of x < s) \<longrightarrow> fresh d' s)"
    using Cons.prems Cons.hyps by (intro Cons.IH) (auto simp: accept_seq_frame fresh_def)
  then obtain d' where "loop (?d1\<lparr>dec_buffer := concat rs @ tail\<rparr>) = (d', xs, FeedOk)"
    "dec_buffer d' = tail" "dec_key d' = k" "dec_max d' = dec_max ?d1"
    "\<forall>s. fresh ?d1 s \<and> (\<forall>x \<in> set xs. seq_of x < s) \<longrightarrow> fresh d' s" by blast
  then show ?case
    by (auto simp: loop_unfold [of "d\<lparr>dec_buffer := concat (r # rs) @ tail\<rparr>"] st accept_seq_frame fresh_def
        simp del: concat.simps)
qed

text \<open>
  The stream theorem: valid records with increasing numbers, cut into any chunks that fit the
  buffer beside one incomplete record, come out one delivery each, in order.
\<close>

lemma feed_all_stream:
  assumes "list_all2 (valid (dec_key d)) rs xs" "sorted_wrt (<) (map seq_of xs)"
    and "\<forall>x \<in> set xs. fresh d (seq_of x)" "dec_buffer d @ concat ms = concat rs"
    and "length (dec_buffer d) \<le> R" "\<forall>r \<in> set rs. length r \<le> R \<and> R \<le> dec_max d"
    and "\<forall>m \<in> set ms. R + length m \<le> dec_max d" "dec_buffer d = [] \<or> ms \<noteq> []"
  shows "\<exists>d'. feed_all feed d ms = (d', xs, FeedOk)"
  using assms
proof (induction ms arbitrary: d rs xs)
  case Nil
  then have c: "concat rs = []" and v: "list_all2 (valid (dec_key d)) rs xs" by simp_all
  have "rs = []"
  proof (rule ccontr)
    assume "rs \<noteq> []"
    with c v obtain x where "valid (dec_key d) [] x" "x \<in> set xs"
      by (cases rs; cases xs) auto
    with Nil.prems valid_deliver [of d "[]" x] empty_needs_more [of d] show False by simp
  qed
  with v show ?case by simp
next
  case (Cons m ms)
  let ?p = "dec_buffer d @ m"
  have whole: "?p @ concat ms = concat rs" using Cons.prems(4) by simp
  then have "prefix ?p (concat rs)" by (metis prefixI)
  then obtain k tail where k: "k \<le> length rs" "?p = concat (take k rs) @ tail"
      and tl: "tail = [] \<or> (k < length rs \<and> strict_prefix tail (rs ! k))"
    using prefix_of_concat by blast
  have rest: "tail @ concat ms = concat (drop k rs)"
  proof -
    have "concat (take k rs) @ tail @ concat ms = concat (take k rs) @ concat (drop k rs)"
      using whole k(2) by (metis append.assoc append_take_drop_id concat_append)
    then show ?thesis by simp
  qed
  have len: "length rs = length xs" using Cons.prems(1) by (rule list_all2_lengthD)
  have v: "list_all2 (valid (dec_key d)) (take k rs) (take k xs)"
    "list_all2 (valid (dec_key d)) (drop k rs) (drop k xs)"
    using Cons.prems(1) by (auto intro: list_all2_takeI list_all2_dropI)
  have sorted: "sorted_wrt (<) (map seq_of (take k xs) @ map seq_of (drop k xs))"
    using Cons.prems(2) by (metis append_take_drop_id map_append)
  have "tail = [] \<or> (\<exists>r x. valid (dec_key d) r x \<and> length r \<le> dec_max d \<and> strict_prefix tail r)"
  proof (cases "tail = []")
    case False
    with tl have k': "k < length rs" "strict_prefix tail (rs ! k)" by auto
    then have "rs ! k \<in> set rs" by simp
    then have "length (rs ! k) \<le> dec_max d" using Cons.prems(6) order_trans by blast
    with k' list_all2_nthD [OF Cons.prems(1) k'(1)] show ?thesis by blast
  qed simp
  moreover have "sorted_wrt (<) (map seq_of (take k xs))"
    using sorted by (simp only: sorted_wrt_append)
  moreover have "\<forall>x \<in> set (take k xs). fresh d (seq_of x)"
    using Cons.prems(3) by (blast dest: in_set_takeD)
  moreover have "\<forall>r \<in> set (take k rs). length r \<le> dec_max d"
    using Cons.prems(6) by (meson in_set_takeD order_trans)
  ultimately obtain d1 where d1:
      "loop (d\<lparr>dec_buffer := concat (take k rs) @ tail\<rparr>) = (d1, take k xs, FeedOk)"
      "dec_buffer d1 = tail" "dec_key d1 = dec_key d" "dec_max d1 = dec_max d"
      "\<forall>s. fresh d s \<and> (\<forall>x \<in> set (take k xs). seq_of x < s) \<longrightarrow> fresh d1 s"
    using loop_stream [OF v(1) refl] by blast
  have "length (dec_buffer d) + length m \<le> dec_max d" using Cons.prems(5,7) by simp
  then have fd: "feed d m = (d1, take k xs, FeedOk)"
    using d1(1) k(2) by (simp add: feed_unfold)
  have R: "length tail \<le> R"
  proof (cases "tail = []")
    case False
    with tl have "length tail < length (rs ! k)" "rs ! k \<in> set rs"
      by (auto dest: prefix_length_less)
    with Cons.prems(6) show ?thesis by fastforce
  qed simp
  have fresh1: "\<forall>x \<in> set (drop k xs). fresh d1 (seq_of x)"
  proof
    fix x assume x: "x \<in> set (drop k xs)"
    then have "fresh d (seq_of x)" using Cons.prems(3) by (blast dest: in_set_dropD)
    moreover have "\<forall>y \<in> set (take k xs). seq_of y < seq_of x"
      using sorted x by (simp add: sorted_wrt_append)
    ultimately show "fresh d1 (seq_of x)" using d1(5) by blast
  qed
  have last: "tail = [] \<or> ms \<noteq> []"
  proof (rule ccontr)
    assume "\<not> (tail = [] \<or> ms \<noteq> [])"
    with tl rest have "k < length rs" "strict_prefix tail (rs ! k)" "tail = concat (drop k rs)"
      by simp_all
    then have "length tail < length (rs ! k)" "length tail = length (rs ! k @ concat (drop (Suc k) rs))"
      by (simp_all only: prefix_length_less Cons_nth_drop_Suc [symmetric] concat.simps)
    then show False by simp
  qed
  have "\<exists>d2. feed_all feed d1 ms = (d2, drop k xs, FeedOk)"
  proof (rule Cons.IH)
    show "list_all2 (valid (dec_key d1)) (drop k rs) (drop k xs)" using v(2) d1(3) by simp
    show "sorted_wrt (<) (map seq_of (drop k xs))" using sorted by (simp only: sorted_wrt_append)
    show "\<forall>x \<in> set (drop k xs). fresh d1 (seq_of x)" by (rule fresh1)
    show "dec_buffer d1 @ concat ms = concat (drop k rs)" using rest d1(2) by simp
    show "length (dec_buffer d1) \<le> R" using R d1(2) by simp
    show "\<forall>r \<in> set (drop k rs). length r \<le> R \<and> R \<le> dec_max d1"
      using Cons.prems(6) d1(4) by (auto dest: in_set_dropD)
    show "\<forall>m \<in> set ms. R + length m \<le> dec_max d1" using Cons.prems(7) d1(4) by simp
    show "dec_buffer d1 = [] \<or> ms \<noteq> []" using last d1(2) by simp
  qed
  then obtain d2 where "feed_all feed d1 ms = (d2, drop k xs, FeedOk)" ..
  with fd show ?case by simp
qed

text \<open>
  What is handed over is a sequence of valid records at the front of the bytes, and it is all there is to hand over: behind them no
  valid record with a new number follows, unless the buffer had no room.
\<close>

lemma record_ahead:
  assumes "valid (dec_key d) r x" "length r \<le> dec_max d" "fresh d (seq_of x)" "prefix r (dec_buffer d @ bs)"
  shows "(\<exists>d'. step d = Deliver d' x) \<or> step d = NeedMore \<and> strict_prefix (dec_buffer d) r"
proof (cases "prefix r (dec_buffer d)")
  case True
  then obtain c where "dec_buffer d = r @ c" by (auto simp: prefix_def)
  then have "d = d\<lparr>dec_buffer := r @ c\<rparr>" by simp
  with valid_deliver_more [OF assms(1-3), of c] show ?thesis by metis
next
  case False
  then have p: "strict_prefix (dec_buffer d) r" using assms(4) by (auto simp: strict_prefix_def prefix_append)
  then have "step (d\<lparr>dec_buffer := dec_buffer d\<rparr>) = NeedMore" by (rule valid_partial [OF assms(1,2)])
  then show ?thesis using p by simp
qed

lemma loop_exact:
  "loop d = (d', xs, out) \<Longrightarrow> \<exists>rs rest. list_all2 (valid (dec_key d)) rs xs \<and>
     dec_buffer d = concat rs @ rest \<and> (out = FeedOk \<longrightarrow> rest = dec_buffer d') \<and> out \<noteq> FeedError BufferLimit \<and>
     (\<forall>bs r x. (out = FeedOk \<longrightarrow> bs = []) \<longrightarrow> valid (dec_key d) r x \<longrightarrow> length r \<le> dec_max d \<longrightarrow> prefix r (rest @ bs) \<longrightarrow> \<not> fresh d' (seq_of x))"
proof (induction rule: loop_induct)
  case (stop d d' out)
  have o: "out = FeedOk \<longrightarrow> d' = d" "out \<noteq> FeedError BufferLimit" using stop refuse_reason by (auto split: dec_step.splits)
  have "\<not> fresh d' (seq_of x)" if r: "out = FeedOk \<longrightarrow> bs = []" "valid (dec_key d) r x" "length r \<le> dec_max d" "prefix r (dec_buffer d @ bs)"
    for bs r x
  proof
    assume "fresh d' (seq_of x)"
    moreover have "have_seq d \<longrightarrow> have_seq d' \<and> highest_seq d \<le> highest_seq d'"
      using stop refuse_state [of d] by (auto split: dec_step.splits)
    ultimately have "fresh d (seq_of x)" by (auto simp: fresh_def)
    then have n: "step d = NeedMore" "strict_prefix (dec_buffer d) r" using record_ahead [OF r(2,3) _ r(4)] stop by (auto split: dec_step.splits)
    then have "out = FeedOk" using stop by simp
    then show False using r(1,4) n(2) by (auto simp: strict_prefix_def intro: prefix_order.antisym)
  qed
  then show ?case using o by (intro exI [of _ "[]"] exI [of _ "dec_buffer d"]) auto
next
  case (deliver d d1 x d' xs out)
  obtain r where r: "dec_buffer d = r @ dec_buffer d1" "valid (dec_key d) r x"
    using deliver_valid [OF deliver(1)] by blast
  have "dec_key d1 = dec_key d" "dec_max d1 = dec_max d" using deliver_seq [OF deliver(1)] by simp_all
  with deliver.IH obtain rs rest where rs: "list_all2 (valid (dec_key d)) rs xs"
    "dec_buffer d1 = concat rs @ rest" "out = FeedOk \<longrightarrow> rest = dec_buffer d'" "out \<noteq> FeedError BufferLimit"
    "\<forall>bs r x. (out = FeedOk \<longrightarrow> bs = []) \<longrightarrow> valid (dec_key d) r x \<longrightarrow> length r \<le> dec_max d \<longrightarrow> prefix r (rest @ bs) \<longrightarrow> \<not> fresh d' (seq_of x)"
    by auto
  then show ?case using r by (intro exI [of _ "r # rs"] exI [of _ rest]) simp
qed

lemma feed_all_exact:
  "feed_all feed d ms = (d', xs, out) \<Longrightarrow> \<exists>rs rest. list_all2 (valid (dec_key d)) rs xs \<and>
     dec_buffer d @ concat ms = concat rs @ rest \<and> (out = FeedOk \<longrightarrow> rest = dec_buffer d') \<and>
     (if out = FeedError BufferLimit then \<exists>m \<in> set ms. dec_max d < length (dec_buffer d') + length m
      else \<forall>r x. valid (dec_key d) r x \<longrightarrow> length r \<le> dec_max d \<longrightarrow> prefix r rest \<longrightarrow> ms = [] \<or> \<not> fresh d' (seq_of x))"
proof (induction ms arbitrary: d xs)
  case Nil
  then show ?case by auto
next
  case (Cons m ms)
  obtain d1 xs1 out1 where f: "feed d m = (d1, xs1, out1)" by (cases "feed d m")
  show ?case
  proof (cases "out1 = FeedOk")
    case True
    with f have l: "loop (with_more d m) = (d1, xs1, FeedOk)" by (auto elim: feed_cases)
    from loop_exact [OF l] obtain rs1 where rs1: "list_all2 (valid (dec_key d)) rs1 xs1"
      "dec_buffer d @ m = concat rs1 @ dec_buffer d1"
      "\<forall>r x. valid (dec_key d) r x \<longrightarrow> length r \<le> dec_max d \<longrightarrow> prefix r (dec_buffer d1) \<longrightarrow> \<not> fresh d1 (seq_of x)" by auto
    from Cons.prems f True obtain xs2 where xs2: "feed_all feed d1 ms = (d', xs2, out)" "xs = xs1 @ xs2"
      by (auto split: prod.splits)
    have k: "dec_key d1 = dec_key d" "dec_max d1 = dec_max d" using loop_have_seq [OF l] by simp_all
    obtain rs2 rest where rs2: "list_all2 (valid (dec_key d)) rs2 xs2"
      "dec_buffer d1 @ concat ms = concat rs2 @ rest" "out = FeedOk \<longrightarrow> rest = dec_buffer d'"
      "if out = FeedError BufferLimit then \<exists>m \<in> set ms. dec_max d < length (dec_buffer d') + length m
       else \<forall>r x. valid (dec_key d) r x \<longrightarrow> length r \<le> dec_max d \<longrightarrow> prefix r rest \<longrightarrow> ms = [] \<or> \<not> fresh d' (seq_of x)"
      using Cons.IH [OF xs2(1)] unfolding k by blast
    have now: "\<not> fresh d' (seq_of x)" if "ms = []" "valid (dec_key d) r x" "length r \<le> dec_max d" "prefix r rest" for r x
      using that rs1(3) [rule_format, of r x] rs2(3) xs2(1) by auto
    have "if out = FeedError BufferLimit then \<exists>m \<in> set (m # ms). dec_max d < length (dec_buffer d') + length m
       else \<forall>r x. valid (dec_key d) r x \<longrightarrow> length r \<le> dec_max d \<longrightarrow> prefix r rest \<longrightarrow> m # ms = [] \<or> \<not> fresh d' (seq_of x)"
    proof (cases "out = FeedError BufferLimit")
      case o: False
      show ?thesis using rs2(4) now unfolding if_not_P [OF o] by blast
    qed (use rs2(4) in auto)
    moreover have "dec_buffer d @ concat (m # ms) = concat (rs1 @ rs2) @ rest"
    proof -
      have "dec_buffer d @ concat (m # ms) = (dec_buffer d @ m) @ concat ms" by simp
      then show ?thesis by (simp only: rs1(2) rs2(2) append_assoc concat_append)
    qed
    moreover have "list_all2 (valid (dec_key d)) (rs1 @ rs2) xs" using rs1(1) rs2(1) xs2(2) by (simp add: list_all2_appendI)
    ultimately show ?thesis using rs2(3) by blast
  next
    case False
    with f Cons.prems have res: "d' = d1" "xs = xs1" "out = out1" by (auto split: feed_outcome.splits)
    from f show ?thesis
    proof (cases rule: feed_cases)
      case 1
      with res False show ?thesis
        by (intro exI [of _ "[] :: bytes list"] exI [of _ "dec_buffer d @ concat (m # ms)"]) simp
    next
      case 2
      from loop_exact [OF 2(2)] obtain rs rest where "list_all2 (valid (dec_key d)) rs xs1"
        "dec_buffer d @ m = concat rs @ rest" "out1 \<noteq> FeedError BufferLimit"
        "\<forall>bs r x. valid (dec_key d) r x \<longrightarrow> length r \<le> dec_max d \<longrightarrow> prefix r (rest @ bs) \<longrightarrow> \<not> fresh d1 (seq_of x)" using False by auto
      then show ?thesis
        using res False by (intro exI [of _ rs] exI [of _ "rest @ concat ms"]) auto
    qed
  qed
qed

end

end
