(* ===== verification/RecordCodecs.thy ===== *)
theory RecordCodecs
  imports RecordStream
begin

text \<open>
  The three wires as instances of the decoder contract, what the encoders produce, and the
  properties of the record layer: replay protection, gap accounting, independence of the
  chunking, the stream round trip, the shapes that reach the callback.
\<close>

section \<open>The steps of the three decoders\<close>


text \<open>More bytes at the end of the buffer change nothing once a record can be judged.\<close>

fun more_step :: "bytes \<Rightarrow> dec_step \<Rightarrow> dec_step" where
  "more_step bs NeedMore = NeedMore"
| "more_step bs (Refuse d e) = Refuse (with_more d bs) e"
| "more_step bs (Raise e) = Raise e"
| "more_step bs (Deliver d r) = Deliver (with_more d bs) r"

lemma nth_take_more:
  "16 \<le> length b \<Longrightarrow> i < 16 \<Longrightarrow> (b @ bs) ! i = b ! i"
  "16 \<le> length b \<Longrightarrow> i \<le> 16 \<Longrightarrow> take i (b @ bs) = take i b"
  by (simp_all add: nth_append)

lemma accept_seq_buffer:
  "accept_seq (d\<lparr>dec_buffer := b\<rparr>) s = (accept_seq d s)\<lparr>dec_buffer := b\<rparr>"
  "dec_buffer (accept_seq d s) = dec_buffer d"
  by (simp_all add: accept_seq_def)

lemma header_more:
  assumes "16 \<le> length b"
  shows "aead_header w (b @ bs) = aead_header w b" "v3_header (b @ bs) = v3_header b"
  by (simp_all only: aead_header_def v3_header_def nth_take_more [OF assms])

lemma aead_step_more:
  assumes "aead_step C w d \<noteq> NeedMore"
  shows "aead_step C w (with_more d bs) = more_step bs (aead_step C w d)"
proof -
  obtain b where b: "dec_buffer d = b" by simp
  obtain len where len: "rd16 (b ! 6) (b ! 7) = len" by simp
  have 16: "16 \<le> length b" using assms b by (intro leI notI) (simp add: aead_step_def)
  then have short: "\<not> length b < 16" "\<not> length b + length bs < 16"
    "3 \<le> length b" "3 - length b = 0" "16 - length b = 0" by simp_all
  note s = aead_step_def Let_def header_more [OF 16] nth_take_more [OF 16] b len short
  show ?thesis
  proof (cases "aead_header w b")
    case header: (Inr u)
    show ?thesis
    proof (cases "16 + len + 16 \<le> dec_max d")
      case True
      then have "16 + len + 16 \<le> length b" using assms header by (simp add: s split: if_splits)
      with True header show ?thesis
        by (simp add: s accept_seq_buffer split: sum.split option.split prod.split) blast
    qed (simp add: s header)
  qed (simp add: s)
qed

lemma v3_step_more:
  assumes "v3_step C d \<noteq> NeedMore"
  shows "v3_step C (with_more d bs) = more_step bs (v3_step C d)"
proof -
  obtain b where b: "dec_buffer d = b" by simp
  obtain len where len: "rd16 (b ! 6) (b ! 7) = len" by simp
  have 16: "16 \<le> length b" using assms b by (intro leI notI) (simp add: v3_step_def)
  then have short: "\<not> length b < 16" "\<not> length b + length bs < 16" by simp_all
  note s = v3_step_def Let_def header_more [OF 16] nth_take_more [OF 16] b len short
  show ?thesis
  proof (cases "v3_header b")
    case header: (Inr u)
    show ?thesis
    proof (cases "16 + len + 16 \<le> dec_max d")
      case True
      then have "16 + len + 16 \<le> length b" using assms header by (simp add: s split: if_splits)
      with True header show ?thesis by (simp add: s accept_seq_buffer split: sum.split)
    qed (simp add: s header)
  qed (simp add: s)
qed


lemma aead_deliver:
  assumes "aead_step C w d = Deliver d' r"
  shows "fresh d (seq_of r)" "d' = (accept_seq d (seq_of r))\<lparr>dec_buffer := dec_buffer d'\<rparr>"
  using assms
  by (auto simp: aead_step_def Let_def fresh_def split: if_splits sum.splits option.splits)

lemma v3_deliver:
  assumes "v3_step C d = Deliver d' r"
  shows "fresh d (seq_of r)" "d' = (accept_seq d (seq_of r))\<lparr>dec_buffer := dec_buffer d'\<rparr>"
  using assms by (auto simp: v3_step_def Let_def fresh_def split: if_splits sum.splits)

lemma aead_refuse:
  assumes "aead_step C w d = Refuse d' e"
  shows "dec_key d' = dec_key d \<and> dec_max d' = dec_max d \<and>
    (have_seq d \<longrightarrow> have_seq d' \<and> highest_seq d \<le> highest_seq d')"
  using assms
  by (auto simp: aead_step_def Let_def accept_seq_def split: if_splits sum.splits option.splits)

lemma v3_refuse:
  assumes "v3_step C d = Refuse d' e"
  shows "dec_key d' = dec_key d \<and> dec_max d' = dec_max d \<and>
    (have_seq d \<longrightarrow> have_seq d' \<and> highest_seq d \<le> highest_seq d')"
  using assms by (auto simp: v3_step_def Let_def split: if_splits sum.splits)

section \<open>Valid records\<close>

text \<open>
  \<open>valid_record C w key r (f, s, p)\<close>: \<open>r\<close> is one whole record on the wire \<open>w\<close> that authenticates
  under \<open>key\<close> and carries the payload \<open>p\<close> with flags \<open>f\<close> under the number \<open>s\<close>.
\<close>

definition valid_record :: "crypto \<Rightarrow> wire \<Rightarrow> bytes \<Rightarrow> bytes \<Rightarrow> delivery \<Rightarrow> bool" where
  "valid_record C w key r x \<longleftrightarrow>
     (\<exists>flags c t n plain.
        r = record_header (magic4 w) (wire_version w) flags (length c) (seq_of x) @ c @ t \<and>
        length c \<le> 65535 \<and> length t = 16 \<and> seq_of x \<noteq> 0 \<and> wire_shape flags (length c) w \<and>
        nonce12_label C key (seq_of x) (nonce_label w) = Inr n \<and>
        unseal C key n (take 16 r) c t = Some plain \<and> length plain = length c \<and>
        open_payload flags plain = Inr (fst x, snd (snd x)))"

definition valid_record3 :: "crypto \<Rightarrow> bytes \<Rightarrow> bytes \<Rightarrow> delivery \<Rightarrow> bool" where
  "valid_record3 C key r x \<longleftrightarrow>
     (\<exists>m. let p = snd (snd x); v = record_header (of_char (CHR ''3'')) 3 (fst x) (length p) (seq_of x) @ p in
        length p \<le> 65535 \<and> v3_header v = Inr () \<and> mac C key v = Inr m \<and> r = v @ take 16 m)"

lemma header_fields:
  assumes "len \<le> 65535" and h: "h = record_header m v flags len seq"
  shows "take 3 (h @ bs) = str ''PTT''" "(h @ bs) ! 3 = m" "(h @ bs) ! 4 = v" "(h @ bs) ! 5 = flags"
    "rd16 ((h @ bs) ! 6) ((h @ bs) ! 7) = len" "rd64 (take 8 (drop 8 (h @ bs))) = seq"
    "take 16 (h @ bs) = h" "drop 16 (h @ bs) = bs"
proof -
  have p: "length (str ''PTT'') = 3" by (simp add: str_def)
  have l: "length h = 16" using h by simp
  have h1: "h @ bs = str ''PTT'' @ m # v # flags # word_of_nat (len div 256) # word_of_nat len #
      be64 seq @ bs"
    using h by (simp add: record_header_def be16_def)
  show "take 3 (h @ bs) = str ''PTT''" "(h @ bs) ! 3 = m" "(h @ bs) ! 4 = v" "(h @ bs) ! 5 = flags"
    unfolding h1 using p by (simp_all add: nth_append)
  have "(h @ bs) ! 6 = word_of_nat (len div 256)" "(h @ bs) ! 7 = word_of_nat len"
    unfolding h1 using p by (simp_all add: nth_append)
  then show "rd16 ((h @ bs) ! 6) ((h @ bs) ! 7) = len" using assms(1) by (simp add: rd16_be16)
  have "drop 8 (h @ bs) = be64 seq @ bs" unfolding h1 using p by simp
  then show "rd64 (take 8 (drop 8 (h @ bs))) = seq" by simp
  show "take 16 (h @ bs) = h" "drop 16 (h @ bs) = bs" using l by simp_all
qed

lemma valid_record_step:
  assumes v: "valid_record C w (dec_key d) r x" and m: "length r \<le> dec_max d"
  shows "fresh d (seq_of x) \<Longrightarrow>
      aead_step C w (d\<lparr>dec_buffer := r\<rparr>) = Deliver ((accept_seq d (seq_of x))\<lparr>dec_buffer := []\<rparr>) x"
    and "\<not> fresh d (seq_of x) \<Longrightarrow>
      aead_step C w (d\<lparr>dec_buffer := r\<rparr>) =
        Refuse (d\<lparr>dec_buffer := r, replay_drops := replay_drops d + 1\<rparr>) ReplayDetected"
    and "strict_prefix p r \<Longrightarrow> aead_step C w (d\<lparr>dec_buffer := p\<rparr>) = NeedMore"
proof -
  obtain f s pl where x: "x = (f, s, pl)" by (cases x)
  obtain h flags c t n plain where r: "r = h @ c @ t"
    and h: "h = record_header (magic4 w) (wire_version w) flags (length c) s"
    and c: "length c \<le> 65535" "length t = 16" "s \<noteq> 0" and shape: "wire_shape flags (length c) w"
    and n: "nonce12_label C (dec_key d) s (nonce_label w) = Inr n"
    and plain: "unseal C (dec_key d) n (take 16 r) c t = Some plain" "length plain = length c"
      "open_payload flags plain = Inr (f, pl)"
    using v unfolding valid_record_def x fst_conv snd_conv by blast
  note hf = header_fields [OF c(1) h, of "c @ t"]
  have head: "aead_header w r = Inr ()"
    unfolding aead_header_def r hf by (simp add: validate_record_shape_ok [OF shape])
  have len: "length r = 16 + length c + 16" using r h c(2) by simp
  have t: "take 16 (drop (16 + length c) r) = t" "take (length c) (drop 16 r) = c"
    unfolding r using c(2) h by (simp_all)
  note s = aead_step_def Let_def head len hf [folded r] n t plain c(3) shape x
  { assume "fresh d (seq_of x)"
    then show "aead_step C w (d\<lparr>dec_buffer := r\<rparr>) = Deliver ((accept_seq d (seq_of x))\<lparr>dec_buffer := []\<rparr>) x"
      using m len by (simp add: s plain [unfolded hf [folded r]] fresh_def accept_seq_buffer not_le) }
  { assume "\<not> fresh d (seq_of x)"
    then show "aead_step C w (d\<lparr>dec_buffer := r\<rparr>) =
        Refuse (d\<lparr>dec_buffer := r, replay_drops := replay_drops d + 1\<rparr>) ReplayDetected"
      using m len by (simp add: s plain [unfolded hf [folded r]] fresh_def not_less) }
  { assume "strict_prefix p r"
    then have p: "length p < length r" and q: "\<exists>q. r = p @ q"
      by (auto simp: prefix_length_less strict_prefix_def prefix_def)
    show "aead_step C w (d\<lparr>dec_buffer := p\<rparr>) = NeedMore"
    proof (cases "length p < 16")
      case False
      from q obtain q where q: "r = p @ q" by blast
      have "aead_header w p = Inr ()" "rd16 (p ! 6) (p ! 7) = length c"
        using False head hf(5) [folded r] header_more(1) [where b = p and bs = q and w = w] nth_take_more(1) [where b = p and bs = q] by (simp_all add: q)
      with False p m len show ?thesis by (simp add: aead_step_def Let_def)
    qed (simp add: aead_step_def) }
qed


lemma valid_record3_step:
  assumes v: "valid_record3 C (dec_key d) r x" and m: "length r \<le> dec_max d"
  shows "fresh d (seq_of x) \<Longrightarrow>
      v3_step C (d\<lparr>dec_buffer := r\<rparr>) = Deliver ((accept_seq d (seq_of x))\<lparr>dec_buffer := []\<rparr>) x"
    and "strict_prefix p r \<Longrightarrow> v3_step C (d\<lparr>dec_buffer := p\<rparr>) = NeedMore"
proof -
  obtain f s pl where x: "x = (f, s, pl)" by (cases x)
  obtain h mm where r: "r = (h @ pl) @ take 16 mm" and h: "h = record_header (of_char (CHR ''3'')) 3 f (length pl) s"
    and c: "length pl \<le> 65535" and head: "v3_header (h @ pl) = Inr ()"
    and mac: "mac C (dec_key d) (h @ pl) = Inr mm"
    using v unfolding valid_record3_def x fst_conv snd_conv Let_def by blast
  have r': "r = h @ pl @ take 16 mm" using r by simp
  note hf = header_fields [OF c h, of "pl @ take 16 mm", folded r']
  have lm: "length mm = 32" using mac by (rule length_mac)
  have len: "length r = 16 + length pl + 16" using r h lm by simp
  have t: "take 16 (drop (16 + length pl) r) = take 16 mm" "take (length pl) (drop 16 r) = pl"
    "take (16 + length pl) r = h @ pl"
    unfolding r using lm h by (simp_all)
  have head: "v3_header r = Inr ()"
    using head header_more(2) [where b = "h @ pl" and bs = "take 16 mm"] h unfolding r by simp
  note s = v3_step_def Let_def head len hf mac t x
  { assume "fresh d (seq_of x)"
    then show "v3_step C (d\<lparr>dec_buffer := r\<rparr>) = Deliver ((accept_seq d (seq_of x))\<lparr>dec_buffer := []\<rparr>) x"
      using m len by (simp add: s fresh_def accept_seq_buffer not_le) }
  { assume "strict_prefix p r"
    then have p: "length p < length r" and q: "\<exists>q. r = p @ q"
      by (auto simp: prefix_length_less strict_prefix_def prefix_def)
    show "v3_step C (d\<lparr>dec_buffer := p\<rparr>) = NeedMore"
    proof (cases "length p < 16")
      case False
      from q obtain q where q: "r = p @ q" by blast
      have "v3_header p = Inr ()" "rd16 (p ! 6) (p ! 7) = length pl"
        using False head hf(5) header_more(2) [where b = p and bs = q]
          nth_take_more(1) [where b = p and bs = q] by (simp_all add: q)
      with False p m len show ?thesis by (simp add: v3_step_def Let_def)
    qed (simp add: v3_step_def) }
qed

lemma header_rebuild:
  assumes "16 \<le> length b" "take 3 b = str ''PTT''"
  shows "record_header (b ! 3) (b ! 4) (b ! 5) (rd16 (b ! 6) (b ! 7)) (rd64 (take 8 (drop 8 b))) = take 16 b"
proof -
  have "take 16 b = take 3 b @ take 5 (drop 3 b) @ take 8 (drop 8 b)"
    by (simp add: take_add [symmetric] flip: take_drop append_assoc)
  moreover have "take 5 (drop 3 b) = [b ! 3, b ! 4, b ! 5, b ! 6, b ! 7]"
    using assms(1) by (simp add: list_eq_iff_nth_eq less_Suc_eq numeral_eq_Suc)
  ultimately show ?thesis
    using assms by (simp add: record_header_def be16_rd16 be64_rd64)
qed

text \<open>Conversely, what a step delivers is a valid record at the front of the buffer.\<close>

lemma aead_deliver_valid:
  assumes "aead_step C w d = Deliver d' x"
  shows "\<exists>r. dec_buffer d = r @ dec_buffer d' \<and> valid_record C w (dec_key d) r x"
proof -
  obtain b where b: "dec_buffer d = b" by simp
  obtain len where len: "rd16 (b ! 6) (b ! 7) = len" by simp
  let ?seq = "rd64 (take 8 (drop 8 b))"
  let ?c = "take len (drop 16 b)" and ?t = "take 16 (drop (16 + len) b)"
  from assms have 16: "16 \<le> length b" and head: "aead_header w b = Inr ()"
    and long: "16 + len + 16 \<le> length b" and seq: "?seq \<noteq> 0" and rest: "dec_buffer d' = drop (16 + len + 16) b"
    by (auto simp: aead_step_def Let_def b len split: if_splits sum.splits option.splits)
  from assms 16 head obtain n plain f p where
    n: "nonce12_label C (dec_key d) ?seq (nonce_label w) = Inr n" and
    plain: "unseal C (dec_key d) n (take 16 b) ?c ?t = Some plain" "length plain = len"
      "open_payload (b ! 5) plain = Inr (f, p)" and x: "x = (f, ?seq, p)"
    by (auto simp: aead_step_def Let_def b len split: if_splits sum.splits option.splits)
  have l: "length ?c = len" "length ?t = 16" "len \<le> 65535"
    using long rd16_bound [of "b ! 6" "b ! 7"] by (simp_all add: len)
  from head have shape: "take 3 b = str ''PTT''" "b ! 3 = magic4 w" "b ! 4 = wire_version w"
      "wire_shape (b ! 5) len w"
    by (auto simp: aead_header_def len result_iff split: if_splits)
  then have h: "record_header (magic4 w) (wire_version w) (b ! 5) len ?seq = take 16 b"
    using header_rebuild [OF 16] by (simp add: len)
  let ?r = "take 16 b @ ?c @ ?t"
  have "take (16 + len + 16) b = ?r" by (simp only: take_add append_assoc)
  then have "dec_buffer d = ?r @ dec_buffer d'"
    by (metis append_take_drop_id b rest)
  moreover have "valid_record C w (dec_key d) ?r x"
    unfolding valid_record_def x fst_conv snd_conv
    using h l seq shape n plain 16
    by (intro exI [of _ "b ! 5"] exI [of _ ?c] exI [of _ ?t] exI [of _ n] exI [of _ plain]) simp
  ultimately show ?thesis by blast
qed

lemma v3_deliver_valid:
  assumes "v3_step C d = Deliver d' x"
  shows "\<exists>r. dec_buffer d = r @ dec_buffer d' \<and> valid_record3 C (dec_key d) r x"
proof -
  obtain b where b: "dec_buffer d = b" by simp
  obtain len where len: "rd16 (b ! 6) (b ! 7) = len" by simp
  let ?seq = "rd64 (take 8 (drop 8 b))" and ?p = "take len (drop 16 b)"
  from assms obtain m where 16: "16 \<le> length b" and head: "v3_header b = Inr ()"
    and long: "16 + len + 16 \<le> length b" and rest: "dec_buffer d' = drop (16 + len + 16) b"
    and m: "mac C (dec_key d) (take (16 + len) b) = Inr m" "take 16 m = take 16 (drop (16 + len) b)"
    and x: "x = (b ! 5, ?seq, ?p)"
    by (auto simp: v3_step_def Let_def b len split: if_splits sum.splits)
  have l: "length ?p = len" "len \<le> 65535"
    using long rd16_bound [of "b ! 6" "b ! 7"] by (simp_all add: len)
  from head have shape: "take 3 b = str ''PTT''" "b ! 3 = of_char (CHR ''3'')" "b ! 4 = 3"
    by (auto simp: v3_header_def split: if_splits)
  then have h: "record_header (of_char (CHR ''3'')) 3 (b ! 5) len ?seq = take 16 b"
    using header_rebuild [OF 16] by (simp add: len)
  have v: "take 16 b @ ?p = take (16 + len) b" by (simp add: take_add)
  have "v3_header (take (16 + len) b) = Inr ()"
    using head header_more(2) [where b = "take (16 + len) b" and bs = "drop (16 + len) b"] 16 by simp
  then have "valid_record3 C (dec_key d) (take (16 + len) b @ take 16 m) x"
    unfolding valid_record3_def x fst_conv snd_conv Let_def l h v using m l by blast
  moreover have "dec_buffer d = (take (16 + len) b @ take 16 m) @ dec_buffer d'"
    unfolding m(2) rest b by (simp add: take_add [symmetric] add.assoc)
  ultimately show ?thesis by blast
qed

text \<open>No step complains about the buffer; \<open>feed\<close> does.\<close>

lemma shape_reason: "validate_record_shape f n w = Inl e \<Longrightarrow> e \<noteq> BufferLimit"
  by (auto simp: validate_record_shape_def Let_def check_def split: if_splits)

lemma header_reasons:
  "aead_header w b = Inl e \<Longrightarrow> e \<noteq> BufferLimit" "v3_header b = Inl e \<Longrightarrow> e \<noteq> BufferLimit"
  by (auto simp: aead_header_def v3_header_def Let_def check_def split: if_splits dest: shape_reason)

lemma payload_reason: "open_payload f plain = Inl e \<Longrightarrow> e \<noteq> BufferLimit"
  by (cases "validate_record_shape (plain ! 0) (rd16 (plain ! 1) (plain ! 2)) PTT5")
    (auto simp: open_payload_def Let_def split: if_splits dest: shape_reason)

lemma refuse_reasons:
  "aead_step C w d = Refuse d' e \<Longrightarrow> e \<noteq> BufferLimit"
  "v3_step C d = Refuse d' e \<Longrightarrow> e \<noteq> BufferLimit"
  by (auto simp: aead_step_def v3_step_def Let_def split: if_splits sum.splits option.splits dest: header_reasons payload_reason)

interpretation aead: record_codec "aead_step C w" "aead_loop C w" "feed_aead C w" "valid_record C w" for C w
proof
  fix d d' r bs e x p
  show "aead_loop C w d = (case aead_step C w d of
        NeedMore \<Rightarrow> (d, [], FeedOk)
      | Refuse d' e \<Rightarrow> (d', [], FeedError e)
      | Raise e \<Rightarrow> (d, [], FeedThrow e)
      | Deliver d' r \<Rightarrow> (case aead_loop C w d' of (d'', rs, out) \<Rightarrow> (d'', r # rs, out)))"
    by (rule aead_loop.simps)
  show "feed_aead C w d bs =
      (if length (dec_buffer d) + length bs > dec_max d then (d, [], FeedError BufferLimit)
       else aead_loop C w (with_more d bs))" by (simp add: feed_aead_def)
  show "aead_step C w d = Deliver d' x \<Longrightarrow> length (dec_buffer d') < length (dec_buffer d)"
    by (rule aead_step_shrinks)
  show "aead_step C w d = Deliver d' x \<Longrightarrow>
      fresh d (seq_of x) \<and> d' = (accept_seq d (seq_of x))\<lparr>dec_buffer := dec_buffer d'\<rparr>"
    using aead_deliver by blast
  show "aead_step C w d = Refuse d' e \<Longrightarrow> dec_key d' = dec_key d \<and> dec_max d' = dec_max d \<and>
      (have_seq d \<longrightarrow> have_seq d' \<and> highest_seq d \<le> highest_seq d')" by (rule aead_refuse)
  show "aead_step C w (d\<lparr>dec_buffer := []\<rparr>) = NeedMore" by (simp add: aead_step_def)
  show "aead_step C w d = Refuse d' e \<Longrightarrow> e \<noteq> BufferLimit" by (rule refuse_reasons(1))
qed (simp_all add: aead_step_more valid_record_step aead_deliver_valid)

interpretation v3: record_codec "v3_step C" "v3_loop C" "feed_v3 C" "valid_record3 C" for C
proof
  fix d d' r bs e x p
  show "v3_loop C d = (case v3_step C d of
        NeedMore \<Rightarrow> (d, [], FeedOk)
      | Refuse d' e \<Rightarrow> (d', [], FeedError e)
      | Raise e \<Rightarrow> (d, [], FeedThrow e)
      | Deliver d' r \<Rightarrow> (case v3_loop C d' of (d'', rs, out) \<Rightarrow> (d'', r # rs, out)))"
    by (rule v3_loop.simps)
  show "feed_v3 C d bs =
      (if length (dec_buffer d) + length bs > dec_max d then (d, [], FeedError BufferLimit)
       else v3_loop C (with_more d bs))" by (simp add: feed_v3_def)
  show "v3_step C d = Deliver d' x \<Longrightarrow> length (dec_buffer d') < length (dec_buffer d)"
    by (rule v3_step_shrinks)
  show "v3_step C d = Deliver d' x \<Longrightarrow>
      fresh d (seq_of x) \<and> d' = (accept_seq d (seq_of x))\<lparr>dec_buffer := dec_buffer d'\<rparr>"
    using v3_deliver by blast
  show "v3_step C d = Refuse d' e \<Longrightarrow> dec_key d' = dec_key d \<and> dec_max d' = dec_max d \<and>
      (have_seq d \<longrightarrow> have_seq d' \<and> highest_seq d \<le> highest_seq d')" by (rule v3_refuse)
  show "v3_step C (d\<lparr>dec_buffer := []\<rparr>) = NeedMore" by (simp add: v3_step_def)
  show "v3_step C d = Refuse d' e \<Longrightarrow> e \<noteq> BufferLimit" by (rule refuse_reasons(2))
qed (simp_all add: v3_step_more valid_record3_step v3_deliver_valid)


section \<open>The encoders produce valid records\<close>

definition rng_ok :: "(nat \<Rightarrow> nat \<Rightarrow> bytes option) \<Rightarrow> bool" where
  "rng_ok rng \<longleftrightarrow> (\<forall>k n b. rng k n = Some b \<longrightarrow> length b = n)"

lemma encode_aead_record_iff [result_iff]:
  "encode_aead_record C w key seq payload flags = Inr r \<longleftrightarrow>
     length key = 32 \<and> seq \<noteq> 0 \<and> length payload \<le> 65535 \<and> wire_shape flags (length payload) w \<and>
     (\<exists>n c t. nonce12_label C key seq (nonce_label w) = Inr n \<and>
        seal C key n (record_header (magic4 w) (wire_version w) flags (length payload) seq) payload = Some (c, t) \<and>
        length c = length payload \<and> length t = 16 \<and>
        r = record_header (magic4 w) (wire_version w) flags (length payload) seq @ c @ t)"
proof (cases "nonce12_label C key seq (nonce_label w)")
  case (Inr n)
  then show ?thesis
    by (cases "seal C key n (record_header (magic4 w) (wire_version w) flags (length payload) seq) payload")
       (auto simp: encode_aead_record_def Let_def result_iff split: if_splits)
qed (auto simp: encode_aead_record_def Let_def result_iff)

lemma encode_valid:
  assumes ok: "aead_ok C" and e: "encode_aead_record C w key seq payload flags = Inr r"
    and o: "open_payload flags payload = Inr (f, p)"
  shows "valid_record C w key r (f, seq, p)" "length r = 16 + length payload + 16"
proof -
  let ?h = "record_header (magic4 w) (wire_version w) flags (length payload) seq"
  from e obtain n c t where k: "length key = 32" "seq \<noteq> 0" "length payload \<le> 65535"
    "wire_shape flags (length payload) w" and n: "nonce12_label C key seq (nonce_label w) = Inr n"
    and c: "seal C key n ?h payload = Some (c, t)" "length c = length payload" "length t = 16"
    and r: "r = ?h @ c @ t"
    by (auto simp: result_iff)
  have "unseal C key n ?h c t = Some payload"
    using aead_okE [OF ok k(1) length_nonce12 [OF n], of ?h payload] c(1) by auto
  then show "valid_record C w key r (f, seq, p)"
    unfolding valid_record_def fst_conv snd_conv
    using k n c r o
    by (intro exI [of _ flags] exI [of _ c] exI [of _ t] exI [of _ n] exI [of _ payload]) simp
  show "length r = 16 + length payload + 16" using r c by simp
qed

lemma open_plain:
  "flags \<noteq> RECORD_ENVELOPE \<Longrightarrow> flags \<noteq> RECORD_PADDED \<Longrightarrow> open_payload flags p = Inr (flags, p)"
  by (simp add: open_payload_def)

lemma be16_nth: "n \<le> 65535 \<Longrightarrow> rd16 (be16 n ! 0) (be16 n ! 1) = n"
  by (simp add: be16_def rd16_be16)

lemma open_padded:
  assumes "20 \<le> length p" "length p \<le> 65535" "length tail \<le> 1024"
  shows "open_payload RECORD_PADDED (be16 (length p) @ p @ tail) = Inr (0, p)"
proof -
  have "rd16 ((be16 (length p) @ p @ tail) ! 0) ((be16 (length p) @ p @ tail) ! 1) = length p"
    using be16_nth [OF assms(2)] by (simp add: nth_append)
  with assms show ?thesis by (simp add: open_payload_def record_flags)
qed

lemma open_envelope:
  assumes "inner_shape f (length p)" "length p \<le> 65535" "length tail \<le> 1024"
  shows "open_payload RECORD_ENVELOPE ([f] @ be16 (length p) @ p @ tail) = Inr (f, p)"
proof -
  have "rd16 (([f] @ be16 (length p) @ p @ tail) ! 1) (([f] @ be16 (length p) @ p @ tail) ! 2) = length p"
    using be16_nth [OF assms(2)] by (simp add: be16_def nth_append)
  moreover have "validate_record_shape f (length p) PTT5 = Inr ()"
    using assms(1) by (intro validate_record_shape_ok) (simp add: wire_shape_def)
  ultimately show ?thesis using assms by (auto simp: open_payload_def inner_shape_def)
qed

lemma draw_pad_length:
  assumes "rng_ok rng" "draw_pad rng mp = Inr tail" "0 \<le> mp"
  shows "length tail \<le> nat mp"
proof -
  from assms(2) obtain r where r: "tail = [] \<or> rng 1 (rd16 (r ! 0) (r ! 1) mod nat (mp + 1)) = Some tail"
    by (auto simp: draw_pad_def Let_def result_iff split: if_splits)
  then have "tail = [] \<or> length tail = rd16 (r ! 0) (r ! 1) mod nat (mp + 1)"
    using assms(1) unfolding rng_ok_def by blast
  moreover have "nat (mp + 1) = Suc (nat mp)" using assms(3) by simp
  ultimately show ?thesis using mod_less_divisor [of "Suc (nat mp)" "rd16 (r ! 0) (r ! 1)"] by auto
qed

lemma encode_padded_valid:
  assumes "aead_ok C" "rng_ok rng" "encode_padded_record_v5 C rng key seq payload mp = Inr r"
  shows "valid_record C PTT5 key r (0, seq, payload) \<and>
    length payload + 32 \<le> length r \<and> length r \<le> length payload + (if mp = 0 then 0 else 2 + nat mp) + 32"
proof (cases "mp = 0")
  case True
  with assms(3) have "encode_aead_record C PTT5 key seq payload 0 = Inr r"
    by (simp add: encode_padded_record_v5_def encode_record_v5_def)
  from encode_valid [OF assms(1) this, of 0 payload] True show ?thesis by (simp add: open_plain record_flags)
next
  case False
  with assms(3) obtain tail where p: "0 \<le> mp" "mp \<le> 1024" "20 \<le> length payload"
    "length payload + 2 + nat mp \<le> 65535" "draw_pad rng mp = Inr tail"
    and e: "encode_aead_record C PTT5 key seq (be16 (length payload) @ payload @ tail) RECORD_PADDED = Inr r"
    by (auto simp: encode_padded_record_v5_def encode_record_v5_def result_iff split: if_splits)
  have t: "length tail \<le> nat mp" using draw_pad_length [OF assms(2) p(5,1)] .
  then have "open_payload RECORD_PADDED (be16 (length payload) @ payload @ tail) = Inr (0, payload)"
    using p by (intro open_padded) auto
  from encode_valid [OF assms(1) e this] t False show ?thesis by simp
qed

lemma encode_envelope_valid:
  assumes "aead_ok C" "rng_ok rng" "encode_envelope_record_v5 C rng key seq payload flags mp = Inr r"
  shows "valid_record C PTT5 key r (flags, seq, payload) \<and>
    length payload + 35 \<le> length r \<and> length r \<le> length payload + 3 + nat mp + 32"
proof -
  from assms(3) obtain tail where
    f: "flags = 0 \<or> flags = RECORD_KEEPALIVE \<or> flags = RECORD_PING \<or> flags = RECORD_PONG"
    and p: "0 \<le> mp" "mp \<le> 1024" "length payload + 3 + nat mp \<le> 65535" "draw_pad rng mp = Inr tail"
      "wire_shape flags (length payload) PTT5"
    and e: "encode_aead_record C PTT5 key seq ([flags] @ be16 (length payload) @ payload @ tail) RECORD_ENVELOPE = Inr r"
    by (auto simp: encode_envelope_record_v5_def encode_record_v5_def result_iff split: if_splits)
  have t: "length tail \<le> nat mp" using draw_pad_length [OF assms(2) p(4,1)] .
  have "inner_shape flags (length payload)"
    using f p(5) by (auto simp: wire_shape_def record_flags)
  then have "open_payload RECORD_ENVELOPE ([flags] @ be16 (length payload) @ payload @ tail) = Inr (flags, payload)"
    using p t by (intro open_envelope) auto
  from encode_valid [OF assms(1) e this] t show ?thesis by simp
qed

lemma encode_record3_valid:
  assumes "encode_record C key seq payload flags = Inr r" "inner_shape flags (length payload)"
  shows "valid_record3 C key r (flags, seq, payload)" "length r = 16 + length payload + 16"
proof -
  let ?h = "record_header (of_char (CHR ''3'')) 3 flags (length payload) seq"
  from assms(1) obtain m where p: "length payload \<le> 65535" and m: "mac C key (?h @ payload) = Inr m"
    and r: "r = (?h @ payload) @ take 16 m"
    by (auto simp: encode_record_def Let_def result_iff split: if_splits)
  have "v3_header (?h @ payload) = Inr ()"
    using assms(2) unfolding v3_header_def header_fields [OF p refl] Let_def
    by (auto simp: inner_shape_def record_flags)
  with p m r show "valid_record3 C key r (flags, seq, payload)"
    unfolding valid_record3_def fst_conv snd_conv Let_def by blast
  show "length r = 16 + length payload + 16" using r length_mac [OF m] by simp
qed


lemma valid_record_length: "valid_record C w key r x \<Longrightarrow> 32 \<le> length r \<and> length r \<le> 65567"
  by (auto simp: valid_record_def)

lemma valid_record3_length: "valid_record3 C key r x \<Longrightarrow> 32 \<le> length r \<and> length r \<le> 65567"
  by (auto simp: valid_record3_def Let_def dest: length_mac)

lemma feed_aead_wire: "feed_v4 C = feed_aead C PTT4" "feed_v5 C = feed_aead C PTT5"
  by (simp_all add: feed_v4_def feed_v5_def)

text \<open>The record \<open>r\<close> is what some encoder of the wire made of the message \<open>(flags, seq, payload)\<close>.\<close>

definition sent_v5 :: "crypto \<Rightarrow> bytes \<Rightarrow> bytes \<Rightarrow> delivery \<Rightarrow> bool" where
  "sent_v5 C key r = (\<lambda>(f, s, p).
     (f \<noteq> RECORD_ENVELOPE \<and> f \<noteq> RECORD_PADDED \<and> encode_record_v5 C key s p f = Inr r) \<or>
     (\<exists>rng mp. rng_ok rng \<and> f = 0 \<and> encode_padded_record_v5 C rng key s p mp = Inr r) \<or>
     (\<exists>rng mp. rng_ok rng \<and> encode_envelope_record_v5 C rng key s p f mp = Inr r))"

definition sent_v4 :: "crypto \<Rightarrow> bytes \<Rightarrow> bytes \<Rightarrow> delivery \<Rightarrow> bool" where
  "sent_v4 C key r = (\<lambda>(f, s, p). encode_record_v4 C key s p f = Inr r)"

definition sent_v3 :: "crypto \<Rightarrow> bytes \<Rightarrow> bytes \<Rightarrow> delivery \<Rightarrow> bool" where
  "sent_v3 C key r = (\<lambda>(f, s, p). inner_shape f (length p) \<and> encode_record C key s p f = Inr r)"

lemma sent_v5_valid: "aead_ok C \<Longrightarrow> sent_v5 C key r x \<Longrightarrow> valid_record C PTT5 key r x"
  by (auto simp: sent_v5_def encode_record_v5_def open_plain
      intro: encode_valid(1) dest: encode_padded_valid encode_envelope_valid)

lemma wire_shape_v4: "wire_shape f n PTT4 \<Longrightarrow> f \<noteq> RECORD_ENVELOPE \<and> f \<noteq> RECORD_PADDED"
  by (auto simp: wire_shape_def inner_shape_def record_flags)

lemma sent_v4_valid:
  assumes "aead_ok C" "sent_v4 C key r x"
  shows "valid_record C PTT4 key r x"
proof -
  obtain f s p where x: "x = (f, s, p)" by (cases x)
  with assms(2) have e: "encode_aead_record C PTT4 key s p f = Inr r"
    by (simp add: sent_v4_def encode_record_v4_def)
  then have "f \<noteq> RECORD_ENVELOPE" "f \<noteq> RECORD_PADDED" by (auto simp: result_iff dest: wire_shape_v4)
  then have "open_payload f p = Inr (f, p)" by (rule open_plain)
  with assms(1) e x show ?thesis by (auto intro: encode_valid)
qed

lemma sent_v3_valid: "sent_v3 C key r x \<Longrightarrow> valid_record3 C key r x"
  by (auto simp: sent_v3_def intro: encode_record3_valid)

text \<open>What the stream theorem needs of the chunk sizes.\<close>

lemma room_for_records:
  assumes "concat ms = concat rs" "\<forall>m \<in> set ms. 65567 + length m \<le> mx"
    "\<forall>r \<in> set rs. 32 \<le> length r \<and> length r \<le> 65567"
  shows "\<forall>r \<in> set rs. length r \<le> 65567 \<and> 65567 \<le> mx"
proof
  fix r assume r: "r \<in> set rs"
  with assms(3) have "concat rs \<noteq> []" by force
  then have "ms \<noteq> []" using assms(1) by auto
  then have "hd ms \<in> set ms" by simp
  then have "65567 \<le> mx" using assms(2) by fastforce
  with r assms(3) show "length r \<le> 65567 \<and> 65567 \<le> mx" by blast
qed

lemma list_all2_set1: "list_all2 P xs ys \<Longrightarrow> x \<in> set xs \<Longrightarrow> \<exists>y. P x y"
  by (auto simp: list_all2_conv_all_nth in_set_conv_nth)

text \<open>One whole record fed to a decoder with an empty buffer.\<close>

lemma feed_valid_fresh:
  assumes "valid_record C w (dec_key d) r x" "length r \<le> dec_max d" "dec_buffer d = []" "fresh d (seq_of x)"
  shows "feed_aead C w d r = ((accept_seq d (seq_of x))\<lparr>dec_buffer := []\<rparr>, [x], FeedOk)"
  using assms aead.empty_needs_more [of C w "accept_seq d (seq_of x)"]
  by (simp add: feed_aead_def aead_loop.simps [of C w "d\<lparr>dec_buffer := r\<rparr>"] valid_record_step(1)
      aead_loop.simps [of C w "(accept_seq d (seq_of x))\<lparr>dec_buffer := []\<rparr>"])

lemma feed_valid_stale:
  assumes "valid_record C w (dec_key d) r x" "length r \<le> dec_max d" "dec_buffer d = []" "\<not> fresh d (seq_of x)"
  shows "feed_aead C w d r = (d\<lparr>dec_buffer := r, replay_drops := replay_drops d + 1\<rparr>, [], FeedError ReplayDetected)"
  using assms
  by (simp add: feed_aead_def aead_loop.simps [of C w "d\<lparr>dec_buffer := r\<rparr>"] valid_record_step(2))

lemma open_payload_shape:
  assumes "open_payload flags plain = Inr (f, p)" "wire_shape flags (length plain) w"
  shows "inner_shape f (length p) \<or> (w = PTT5 \<and> f = RECORD_DRAIN \<and> p = [])"
proof (cases "flags = RECORD_ENVELOPE \<or> flags = RECORD_PADDED")
  case True
  with assms(1) have "inner_shape f (length p)"
    by (auto simp: open_payload_def Let_def result_iff wire_shape_def record_flags inner_shape_def split: if_splits)
  then show ?thesis by simp
next
  case False
  with assms show ?thesis by (auto simp: open_payload_def wire_shape_def)
qed

lemma valid_record_shape:
  "valid_record C w key r x \<Longrightarrow> seq_of x \<noteq> 0 \<and>
   (inner_shape (fst x) (length (snd (snd x))) \<or> (w = PTT5 \<and> fst x = RECORD_DRAIN \<and> snd (snd x) = []))"
  unfolding valid_record_def by (metis open_payload_shape)

end
