(* ===== verification/RecordProps.thy ===== *)
theory RecordProps
  imports RecordCodecs
begin

text \<open>
  The properties of the record layer: what a receiver gets for what a sender sent, and what
  it can never get whatever bytes arrive. Each follows from the contract of
  \<open>RecordStream\<close> through its instances \<open>aead\<close> (PTT4, PTT5) and \<open>v3\<close> (PTT3).
\<close>

section \<open>A concrete session\<close>

definition demo_key :: bytes where "demo_key = replicate 32 9"
definition demo_packet :: bytes where "demo_packet = replicate 20 1"
definition demo_rng :: "nat \<Rightarrow> nat \<Rightarrow> bytes option" where "demo_rng k n = Some (replicate n 3)"
definition demo_sent :: bytes where
  "demo_sent = projr (encode_padded_record_v5 demo_crypto demo_rng demo_key 7 demo_packet 16)"
definition demo_sent4 :: bytes where
  "demo_sent4 = projr (encode_record_v4 demo_crypto demo_key 3 demo_packet 0)"
definition demo_sent3 :: bytes where
  "demo_sent3 = projr (encode_record demo_crypto demo_key 3 demo_packet 0)"

lemmas demo_eval = encode_padded_record_v5_def draw_pad_def encode_record_v5_def encode_record_v4_def
  encode_record_def encode_aead_record_def validate_record_shape_def nonce12_label_def mac_def
  demo_crypto_def demo_key_def demo_packet_def demo_rng_def rd16_def record_flags Let_def

lemma demo_rng_ok [simp]: "rng_ok demo_rng"
  by (simp add: rng_ok_def demo_rng_def)

lemma demo_encode:
  "encode_padded_record_v5 demo_crypto demo_rng demo_key 7 demo_packet 16 = Inr demo_sent"
  "encode_record_v4 demo_crypto demo_key 3 demo_packet 0 = Inr demo_sent4"
  "encode_record demo_crypto demo_key 3 demo_packet 0 = Inr demo_sent3"
  by (simp_all add: demo_sent_def demo_sent4_def demo_sent3_def demo_eval)

lemma demo_lengths: "length demo_sent = 60" "length demo_sent4 = 52" "length demo_sent3 = 52"
  by (simp_all add: demo_sent_def demo_sent4_def demo_sent3_def demo_eval)

lemma demo_sent_v5: "sent_v5 demo_crypto demo_key demo_sent (0, 7, demo_packet)"
  using demo_encode(1) demo_rng_ok unfolding sent_v5_def by auto

section \<open>What is sent is what is received\<close>

text \<open>Valid records with increasing numbers, in messages cut in any way, on both AEAD wires.\<close>

lemma aead_stream:
  assumes "list_all2 (valid_record C w key) rs xs" "sorted_wrt (<) (map seq_of xs)"
    and "concat ms = concat rs" "\<forall>m \<in> set ms. 65567 + length m \<le> mx"
  shows "\<exists>d. feed_all (feed_aead C w) (new_decoder key mx) ms = (d, xs, FeedOk)"
proof -
  have room: "\<forall>r \<in> set rs. length r \<le> 65567 \<and> 65567 \<le> mx"
    using assms(1) by (intro room_for_records [OF assms(3,4)]) (blast dest: list_all2_set1 valid_record_length)
  then show ?thesis
    using assms by (intro aead.feed_all_stream [where R = 65567]) (simp_all add: new_decoder_def fresh_def)
qed

text \<open>
  C17: PTT5 stream round trip. The records of any mix of the three PTT5 encoders (plain,
  padded, envelope) over increasing sequence numbers, joined and cut into carrier messages
  in any way, come out of \<open>RecordDecoderV5\<close> as exactly the messages sent, in order, once each,
  with no error, whenever the buffer has room for one record beside the next message.
\<close>

theorem record_stream_roundtrip:
  assumes "aead_ok C" "list_all2 (sent_v5 C key) rs xs" "sorted_wrt (<) (map seq_of xs)"
    and "concat ms = concat rs" "\<forall>m \<in> set ms. 65567 + length m \<le> mx"
  shows "\<exists>d. feed_all (feed_v5 C) (new_decoder key mx) ms = (d, xs, FeedOk)"
proof -
  have "list_all2 (valid_record C PTT5 key) rs xs"
    using assms(1,2) by (auto elim!: list_all2_mono intro: sent_v5_valid)
  then show ?thesis unfolding feed_aead_wire using assms(3,4,5) by (rule aead_stream)
qed

theorem record_stream_roundtrip_witness:
  "\<exists>d. feed_all (feed_v5 demo_crypto) (new_decoder demo_key 70000) [take 30 demo_sent, drop 30 demo_sent] =
     (d, [(0, 7, demo_packet)], FeedOk)"
  by (rule record_stream_roundtrip [where rs = "[demo_sent]"]) (simp_all add: demo_sent_v5 demo_lengths)

text \<open>
  C35: the stream round trip of the legacy wires: records of \<open>encode_record_v4\<close> through
  \<open>RecordDecoderV4\<close>, and of \<open>encode_record\<close> (with a well-shaped message, which that encoder does
  not check) through \<open>RecordDecoder\<close>.
\<close>

theorem legacy_stream_roundtrip:
  assumes "aead_ok C" "sorted_wrt (<) (map seq_of xs)"
    and "concat ms = concat rs" "\<forall>m \<in> set ms. 65567 + length m \<le> mx"
  shows "(list_all2 (sent_v4 C key) rs xs \<longrightarrow>
      (\<exists>d. feed_all (feed_v4 C) (new_decoder key mx) ms = (d, xs, FeedOk))) \<and>
    (list_all2 (sent_v3 C key) rs xs \<longrightarrow>
      (\<exists>d. feed_all (feed_v3 C) (new_decoder key mx) ms = (d, xs, FeedOk)))"
proof (intro conjI impI)
  { assume s: "list_all2 (sent_v4 C key) rs xs"
    have v: "list_all2 (valid_record C PTT4 key) rs xs"
      using assms(1) s by (auto elim!: list_all2_mono intro: sent_v4_valid)
    show "\<exists>d. feed_all (feed_v4 C) (new_decoder key mx) ms = (d, xs, FeedOk)"
      unfolding feed_aead_wire using v assms(2,3,4) by (rule aead_stream) }
  { assume s: "list_all2 (sent_v3 C key) rs xs"
    have v: "list_all2 (valid_record3 C key) rs xs"
      using s by (auto elim!: list_all2_mono intro: sent_v3_valid)
    have room: "\<forall>r \<in> set rs. length r \<le> 65567 \<and> 65567 \<le> mx"
      using v by (intro room_for_records [OF assms(3,4)]) (blast dest: list_all2_set1 valid_record3_length)
    show "\<exists>d. feed_all (feed_v3 C) (new_decoder key mx) ms = (d, xs, FeedOk)"
      using v room assms(2,3,4)
      by (intro v3.feed_all_stream [where R = 65567]) (simp_all add: new_decoder_def fresh_def) }
qed

theorem legacy_stream_roundtrip_witness:
  "(\<exists>d. feed_all (feed_v4 demo_crypto) (new_decoder demo_key 70000) [demo_sent4] =
     (d, [(0, 3, demo_packet)], FeedOk)) \<and>
   (\<exists>d. feed_all (feed_v3 demo_crypto) (new_decoder demo_key 70000) [demo_sent3] =
     (d, [(0, 3, demo_packet)], FeedOk))"
proof
  have "inner_shape 0 (length demo_packet)" by (simp add: inner_shape_def demo_packet_def)
  then have s: "list_all2 (sent_v4 demo_crypto demo_key) [demo_sent4] [(0, 3, demo_packet)]"
    "list_all2 (sent_v3 demo_crypto demo_key) [demo_sent3] [(0, 3, demo_packet)]"
    by (simp_all add: sent_v4_def sent_v3_def demo_encode)
  show "\<exists>d. feed_all (feed_v4 demo_crypto) (new_decoder demo_key 70000) [demo_sent4] =
     (d, [(0, 3, demo_packet)], FeedOk)"
    using s(1) legacy_stream_roundtrip [of demo_crypto "[(0, 3, demo_packet)]" "[demo_sent4]" "[demo_sent4]" 70000 demo_key]
    by (simp add: demo_lengths)
  show "\<exists>d. feed_all (feed_v3 demo_crypto) (new_decoder demo_key 70000) [demo_sent3] =
     (d, [(0, 3, demo_packet)], FeedOk)"
    using s(2) legacy_stream_roundtrip [of demo_crypto "[(0, 3, demo_packet)]" "[demo_sent3]" "[demo_sent3]" 70000 demo_key]
    by (simp add: demo_lengths)
qed

section \<open>What a receiver can never get\<close>

text \<open>
  C25: replay protection. Whatever bytes arrive in whatever messages, the sequence numbers a
  decoder of any wire hands to its callback over the whole session strictly increase, so no
  record is delivered twice and none after a later one.
\<close>

theorem replay_protection:
  assumes "feed_all feed (new_decoder key mx) ms = (d, xs, out)"
    and "feed \<in> {feed_v3 C, feed_v4 C, feed_v5 C}"
  shows "sorted_wrt (<) (map seq_of xs) \<and> (xs \<noteq> [] \<longrightarrow> have_seq d \<and> seq_of (last xs) \<le> highest_seq d)"
proof -
  consider w where "feed = feed_aead C w" | "feed = feed_v3 C"
    using assms(2) by (auto simp: feed_aead_wire)
  then have "sorted_wrt (<) (map seq_of xs) \<and> (\<forall>x \<in> set xs. \<not> fresh d (seq_of x))"
  proof cases
    case 1
    with aead.feed_all_increasing assms(1) show ?thesis by blast
  next
    case 2
    with v3.feed_all_increasing assms(1) show ?thesis by blast
  qed
  then have f: "sorted_wrt (<) (map seq_of xs)" "\<forall>x \<in> set xs. \<not> fresh d (seq_of x)" by blast+
  then have "xs \<noteq> [] \<longrightarrow> \<not> fresh d (seq_of (last xs))" by simp
  with f(1) show ?thesis by (auto simp: fresh_def)
qed

theorem replay_protection_witness:
  "\<exists>d out. feed_all (feed_v5 demo_crypto) (new_decoder demo_key 70000) [demo_sent, demo_sent] =
     (d, [(0, 7, demo_packet)], out) \<and> sorted_wrt (<) (map seq_of [(0 :: byte, 7 :: u64, demo_packet)])"
proof -
  let ?d = "new_decoder demo_key 70000"
  have v: "valid_record demo_crypto PTT5 demo_key demo_sent (0, 7, demo_packet)"
    by (rule sent_v5_valid) (simp_all add: demo_sent_v5)
  let ?d1 = "(accept_seq ?d 7)\<lparr>dec_buffer := []\<rparr>"
  have "feed_v5 demo_crypto ?d demo_sent = (?d1, [(0, 7, demo_packet)], FeedOk)"
    using feed_valid_fresh [of demo_crypto PTT5 ?d demo_sent "(0, 7, demo_packet)"] v
    by (simp add: feed_v5_def new_decoder_def demo_lengths fresh_def)
  moreover have "feed_v5 demo_crypto ?d1 demo_sent =
      (?d1\<lparr>dec_buffer := demo_sent, replay_drops := replay_drops ?d1 + 1\<rparr>, [], FeedError ReplayDetected)"
    using feed_valid_stale [of demo_crypto PTT5 ?d1 demo_sent "(0, 7, demo_packet)"] v
    by (simp add: feed_v5_def new_decoder_def demo_lengths fresh_def accept_seq_def)
  ultimately obtain d out where
    2: "feed_all (feed_v5 demo_crypto) ?d [demo_sent, demo_sent] = (d, [(0, 7, demo_packet)], out)" by simp
  from replay_protection [OF this, of demo_crypto] 2 show ?thesis by blast
qed

text \<open>
  A replayed record. A record of the PTT5 encoders whose number is not above the highest
  accepted one is refused with the replay error, counted, and not delivered; the accepted
  number does not move, even though the record authenticates.
\<close>

theorem replayed_record_refused:
  assumes "aead_ok C" "sent_v5 C (dec_key d) r (f, s, p)" "have_seq d" "s \<le> highest_seq d"
    and "dec_buffer d = []" "length r \<le> dec_max d"
  shows "feed_v5 C d r =
    (d\<lparr>dec_buffer := r, replay_drops := replay_drops d + 1\<rparr>, [], FeedError ReplayDetected)"
proof -
  have "valid_record C PTT5 (dec_key d) r (f, s, p)" using assms(1,2) by (rule sent_v5_valid)
  then show ?thesis
    using assms feed_valid_stale [of C PTT5 d r "(f, s, p)"] by (simp add: feed_v5_def fresh_def)
qed

theorem replayed_record_refused_witness:
  "feed_v5 demo_crypto \<lparr>dec_key = demo_key, dec_buffer = [], dec_max = 60, have_seq = True,
      highest_seq = 9, replay_drops = 0, sequence_gaps = 0\<rparr> demo_sent =
    (\<lparr>dec_key = demo_key, dec_buffer = demo_sent, dec_max = 60, have_seq = True,
      highest_seq = 9, replay_drops = 1, sequence_gaps = 0\<rparr>, [], FeedError ReplayDetected)"
  by (subst replayed_record_refused [where f = 0 and s = 7 and p = demo_packet])
     (simp_all add: demo_sent_v5 demo_lengths)

text \<open>
  C27: authenticity, and nothing withheld. Whatever bytes arrive in whatever messages, what the AEAD decoders hand over in a session, whether it
  ends well or in an error, is a sequence of records that open under the session key, one after the other from the very front of the
  received bytes, up to where no further one follows: the rest does not begin with a whole record that opens under the key, fits the buffer and has
  a new number. After a session without error exactly this rest is buffered. Only a message that does not fit the buffer beside what is
  there ends the session earlier, and then with that error.
\<close>

theorem delivered_records_authentic:
  assumes "feed_all (feed_aead C w) (new_decoder key mx) ms = (d, xs, out)"
  shows "\<exists>rs rest. list_all2 (valid_record C w key) rs xs \<and> concat ms = concat rs @ rest \<and>
    (out = FeedOk \<longrightarrow> rest = dec_buffer d) \<and>
    (if out = FeedError BufferLimit then \<exists>m \<in> set ms. mx < length (dec_buffer d) + length m
     else \<forall>r x. valid_record C w key r x \<and> length r \<le> mx \<and> fresh d (seq_of x) \<longrightarrow> \<not> prefix r rest)"
proof -
  have k: "dec_key (new_decoder key mx) = key" "dec_max (new_decoder key mx) = mx" "dec_buffer (new_decoder key mx) = []"
    by (simp_all add: new_decoder_def)
  from aead.feed_all_exact [OF assms, unfolded k] obtain rs rest where r: "list_all2 (valid_record C w key) rs xs" "concat ms = concat rs @ rest"
    "out = FeedOk \<longrightarrow> rest = dec_buffer d"
    "if out = FeedError BufferLimit then \<exists>m \<in> set ms. mx < length (dec_buffer d) + length m
     else \<forall>r x. valid_record C w key r x \<longrightarrow> length r \<le> mx \<longrightarrow> prefix r rest \<longrightarrow> ms = [] \<or> \<not> fresh d (seq_of x)" by auto
  have "\<not> prefix r rest" if "valid_record C w key r x" "ms = []" for r x
    using that r(2) valid_record_length [of C w key r x] by (auto simp: prefix_def)
  then have "if out = FeedError BufferLimit then \<exists>m \<in> set ms. mx < length (dec_buffer d) + length m
     else \<forall>r x. valid_record C w key r x \<and> length r \<le> mx \<and> fresh d (seq_of x) \<longrightarrow> \<not> prefix r rest"
    using r(4) by (cases "out = FeedError BufferLimit") (simp, simp only: if_False, blast)
  then show ?thesis using r(1-3) by blast
qed

theorem delivered_records_authentic_witness:
  "\<exists>d rs rest. feed_all (feed_aead demo_crypto PTT5) (new_decoder demo_key 70000) [demo_sent] =
      (d, [(0, 7, demo_packet)], FeedOk) \<and>
    list_all2 (valid_record demo_crypto PTT5 demo_key) rs [(0, 7, demo_packet)] \<and>
    demo_sent = concat rs @ rest"
proof -
  have "valid_record demo_crypto PTT5 demo_key demo_sent (0, 7, demo_packet)"
    by (rule sent_v5_valid) (simp_all add: demo_sent_v5)
  then obtain d where "feed_all (feed_aead demo_crypto PTT5) (new_decoder demo_key 70000) [demo_sent] =
      (d, [(0, 7, demo_packet)], FeedOk)"
    using feed_valid_fresh [of demo_crypto PTT5 "new_decoder demo_key 70000" demo_sent "(0, 7, demo_packet)"]
    by (simp add: new_decoder_def demo_lengths fresh_def)
  from delivered_records_authentic [OF this] this show ?thesis by auto
qed

text \<open>
  C36: shapes at the callback. A delivery of the PTT4 and PTT5 decoders carries a non-zero
  sequence number and is an IP packet of at least twenty bytes, an empty keepalive, a ping or
  pong of eight bytes or, on PTT5, an empty drain notice: never a padded or envelope record,
  an unknown flag or two flags at once.
\<close>

theorem delivered_shapes:
  assumes "feed_all (feed_aead C w) (new_decoder key mx) ms = (d, xs, out)" "(f, s, p) \<in> set xs"
  shows "s \<noteq> 0 \<and> (inner_shape f (length p) \<or> (w = PTT5 \<and> f = RECORD_DRAIN \<and> p = []))"
proof -
  from aead.feed_all_exact [OF assms(1)] obtain rs where
    "list_all2 (valid_record C w key) rs xs" by (auto simp: new_decoder_def)
  with assms(2) obtain r where "valid_record C w key r (f, s, p)"
    by (auto simp: list_all2_conv_all_nth in_set_conv_nth)
  from valid_record_shape [OF this] show ?thesis by simp
qed

theorem delivered_shapes_witness:
  "\<exists>d. feed_all (feed_aead demo_crypto PTT5) (new_decoder demo_key 70000) [demo_sent] =
      (d, [(0, 7, demo_packet)], FeedOk) \<and> inner_shape 0 (length demo_packet)"
proof -
  have "valid_record demo_crypto PTT5 demo_key demo_sent (0, 7, demo_packet)"
    by (rule sent_v5_valid) (simp_all add: demo_sent_v5)
  then obtain d where d: "feed_all (feed_aead demo_crypto PTT5) (new_decoder demo_key 70000) [demo_sent] =
      (d, [(0, 7, demo_packet)], FeedOk)"
    using feed_valid_fresh [of demo_crypto PTT5 "new_decoder demo_key 70000" demo_sent "(0, 7, demo_packet)"]
    by (simp add: new_decoder_def demo_lengths fresh_def)
  have "inner_shape 0 (length demo_packet)"
    using delivered_shapes [OF d, of 0 7 demo_packet] by (auto simp: record_flags)
  with d show ?thesis by blast
qed

text \<open>
  Gap accounting. After a session without error the gap counter of a decoder is exactly
  the number of sequence numbers that were skipped between the first and the last delivery
  (all three counters are 64-bit words).
\<close>

theorem gaps_accounted:
  assumes "feed_all feed (new_decoder key mx) ms = (d, xs, FeedOk)" "xs \<noteq> []"
    and "feed \<in> {feed_v3 C, feed_v4 C, feed_v5 C}"
  shows "sequence_gaps d + of_nat (length xs) = highest_seq d - seq_of (hd xs) + 1"
proof -
  have n: "\<not> have_seq (new_decoder key mx)" "sequence_gaps (new_decoder key mx) = 0"
    by (simp_all add: new_decoder_def)
  consider w where "feed = feed_aead C w" | "feed = feed_v3 C"
    using assms(3) by (auto simp: feed_aead_wire)
  then have "sequence_gaps d + of_nat (length xs) - highest_seq d = 0 + 1 - seq_of (hd xs)"
  proof cases
    case 1
    with aead.feed_all_gaps [OF assms(1) [unfolded 1]] n assms(2) show ?thesis by simp
  next
    case 2
    with v3.feed_all_gaps [OF assms(1) [unfolded 2]] n assms(2) show ?thesis by simp
  qed
  then show ?thesis by (simp add: algebra_simps)
qed

theorem gaps_accounted_witness:
  "\<exists>d. feed_all (feed_v5 demo_crypto) (new_decoder demo_key 70000) [demo_sent] =
      (d, [(0, 7, demo_packet)], FeedOk) \<and> sequence_gaps d + 1 = highest_seq d - 7 + 1"
proof -
  have "valid_record demo_crypto PTT5 demo_key demo_sent (0, 7, demo_packet)"
    by (rule sent_v5_valid) (simp_all add: demo_sent_v5)
  then obtain d where d: "feed_all (feed_v5 demo_crypto) (new_decoder demo_key 70000) [demo_sent] =
      (d, [(0, 7, demo_packet)], FeedOk)"
    using feed_valid_fresh [of demo_crypto PTT5 "new_decoder demo_key 70000" demo_sent "(0, 7, demo_packet)"]
    by (simp add: new_decoder_def demo_lengths fresh_def feed_aead_wire)
  from gaps_accounted [OF d, of demo_crypto] d show ?thesis by auto
qed

text \<open>
  Chunking is immaterial. Bytes that fit the buffer give the same deliveries and the same
  outcome whether they arrive as one message or cut into any non-empty list of messages, for
  valid and invalid streams alike.
\<close>

theorem chunking_immaterial:
  assumes "feed \<in> {feed_v3 C, feed_v4 C, feed_v5 C}"
    and "length (dec_buffer d) + length (concat ms) \<le> dec_max d" "ms \<noteq> []"
  shows "snd (feed_all feed d ms) = snd (feed d (concat ms))"
proof -
  consider w where "feed = feed_aead C w" | "feed = feed_v3 C"
    using assms(1) by (auto simp: feed_aead_wire)
  then show ?thesis
    using assms(2,3) aead.feed_all_concat v3.feed_all_concat by cases blast+
qed

theorem chunking_immaterial_witness:
  "snd (feed_all (feed_v5 demo_crypto) (new_decoder demo_key 70000) [[1, 2], [3]]) =
   snd (feed_v5 demo_crypto (new_decoder demo_key 70000) [1, 2, 3])"
  using chunking_immaterial [of "feed_v5 demo_crypto" demo_crypto "new_decoder demo_key 70000" "[[1, 2], [3]]"]
  by (simp add: new_decoder_def)

text \<open>
  Bounded memory. However hostile the stream, the buffer of a decoder of any wire never
  holds more than the configured maximum, on success, on error and on an escaping exception.
\<close>

theorem decoder_buffer_bounded:
  assumes "feed \<in> {feed_v3 C, feed_v4 C, feed_v5 C}" "length (dec_buffer d) \<le> dec_max d"
    and "feed d bs = (d', xs, out)"
  shows "length (dec_buffer d') \<le> dec_max d' \<and> dec_max d' = dec_max d"
proof -
  have r: "aead_step C w d1 = Refuse d2 e \<Longrightarrow> dec_buffer d2 = dec_buffer d1" for w d1 d2 e
    by (auto simp: aead_step_def Let_def accept_seq_def split: if_splits sum.splits option.splits)
  have r3: "v3_step C d1 = Refuse d2 e \<Longrightarrow> dec_buffer d2 = dec_buffer d1" for d1 d2 e
    by (auto simp: v3_step_def Let_def split: if_splits sum.splits)
  consider w where "feed = feed_aead C w" | "feed = feed_v3 C"
    using assms(1) by (auto simp: feed_aead_wire)
  then show ?thesis
  proof cases
    case 1
    from assms(3) [unfolded 1] show ?thesis
    proof (cases rule: aead.feed_cases)
      case 2
      have "length (dec_buffer d') \<le> length (dec_buffer (with_more d bs))"
        by (rule aead.loop_buffer_bound [OF 2(2)]) (rule r)
      with 2 aead.loop_have_seq [OF 2(2)] show ?thesis by simp
    qed (use assms(2) in simp)
  next
    case 2
    from assms(3) [unfolded 2] show ?thesis
    proof (cases rule: v3.feed_cases)
      case 2
      have "length (dec_buffer d') \<le> length (dec_buffer (with_more d bs))"
        by (rule v3.loop_buffer_bound [OF 2(2)]) (rule r3)
      with 2 v3.loop_have_seq [OF 2(2)] show ?thesis by simp
    qed (use assms(2) in simp)
  qed
qed

theorem decoder_buffer_bounded_witness:
  "\<exists>d' xs out. feed_v5 demo_crypto (new_decoder demo_key 2) [1, 2, 3] = (d', xs, out) \<and>
     length (dec_buffer d') \<le> 2"
  using decoder_buffer_bounded [of "feed_v5 demo_crypto" demo_crypto "new_decoder demo_key 2" "[1, 2, 3]"]
  by (cases "feed_v5 demo_crypto (new_decoder demo_key 2) [1, 2, 3]") (auto simp: new_decoder_def)

section \<open>Encoders and keys\<close>

text \<open>
  The AEAD encoders succeed on exactly the messages with a 32-byte key, a non-zero
  sequence number, at most 65535 payload bytes and an allowed shape, and every record they
  make is 32 bytes longer than its payload.
\<close>

theorem encode_aead_total:
  assumes "hmac_ok C" "aead_ok C"
  shows "(\<exists>r. encode_aead_record C w key seq payload flags = Inr r \<and> length r = length payload + 32) \<longleftrightarrow>
    length key = 32 \<and> seq \<noteq> 0 \<and> length payload \<le> 65535 \<and> wire_shape flags (length payload) w"
proof
  assume ok: "length key = 32 \<and> seq \<noteq> 0 \<and> length payload \<le> 65535 \<and> wire_shape flags (length payload) w"
  then obtain n where n: "nonce12_label C key seq (nonce_label w) = Inr n" "length n = 12"
    using nonce12_ok [OF assms(1)] by blast
  let ?h = "record_header (magic4 w) (wire_version w) flags (length payload) seq"
  from aead_okE [OF assms(2) _ n(2), of key ?h payload] ok obtain c t where
    "seal C key n ?h payload = Some (c, t)" "length c = length payload" "length t = 16" by blast
  with ok n show "\<exists>r. encode_aead_record C w key seq payload flags = Inr r \<and> length r = length payload + 32"
    by (intro exI [of _ "?h @ c @ t"]) (simp add: result_iff)
qed (auto simp: result_iff)

theorem encode_aead_total_witness:
  "\<not> (\<exists>r. encode_aead_record demo_crypto PTT4 demo_key 1 [] RECORD_DRAIN = Inr r \<and> length r = 32) \<and>
   (\<exists>r. encode_aead_record demo_crypto PTT5 demo_key 1 [] RECORD_DRAIN = Inr r \<and> length r = 32)"
  using encode_aead_total [of demo_crypto PTT4 demo_key 1 "[]" RECORD_DRAIN]
    encode_aead_total [of demo_crypto PTT5 demo_key 1 "[]" RECORD_DRAIN]
  by (simp add: demo_key_def wire_shape_def inner_shape_def record_flags)

text \<open>
  Padding. A padded or envelope record opens to the message that was put in, without the
  padding, and is never shorter than the plain record nor longer than it by more than the
  configured padding and the two or three bytes of the inner header.
\<close>

theorem padding_hidden_and_bounded:
  assumes "aead_ok C" "rng_ok rng"
    and "encode_padded_record_v5 C rng key seq payload mp = Inr r \<and> flags = 0 \<or>
         encode_envelope_record_v5 C rng key seq payload flags mp = Inr r"
  shows "valid_record C PTT5 key r (flags, seq, payload) \<and>
    length payload + 32 \<le> length r \<and> length r \<le> length payload + 3 + nat mp + 32"
  using assms(3) encode_padded_valid [OF assms(1,2), of key seq payload mp r]
    encode_envelope_valid [OF assms(1,2), of key seq payload flags mp r]
  by (auto split: if_splits)

theorem padding_hidden_and_bounded_witness:
  "valid_record demo_crypto PTT5 demo_key demo_sent (0, 7, demo_packet) \<and>
    length demo_packet + 32 \<le> length demo_sent \<and> length demo_sent \<le> length demo_packet + 3 + nat 16 + 32"
  by (rule padding_hidden_and_bounded [where rng = demo_rng]) (simp_all add: demo_encode)

text \<open>
  Key encoding. The hexadecimal form of a 32-byte key has 64 characters and reads back
  as the key, and \<open>key32_from_hex\<close> accepts nothing but 64 characters.
\<close>

theorem key_hex_roundtrip:
  "(length k = 32 \<longrightarrow> (\<exists>h. key32_hex k = Inr h \<and> length h = 64 \<and> key32_from_hex h = Inr k)) \<and>
   (length k \<noteq> 32 \<longrightarrow> key32_hex k = Inl KeyNot32) \<and>
   (key32_from_hex s = Inr k' \<longrightarrow> length s = 64)"
  by (auto simp: key32_hex_def key32_from_hex_def hex_decode_encode result_iff split: if_splits
      dest!: length_hex_decode)

theorem key_hex_roundtrip_witness:
  "\<exists>h. key32_hex demo_key = Inr h \<and> length h = 64 \<and> key32_from_hex h = Inr demo_key"
  using key_hex_roundtrip [of demo_key "[]"] by (simp add: demo_key_def)

end
