(* ===== verification/TunnelProps.thy ===== *)
theory TunnelProps
  imports Tunnel WireStream RecordProps
begin

text \<open>
  What holds in a session, in every turn of the loop and however it ends: the limits of the queues, the records made,
  and the bytes on the wire.
\<close>

section \<open>Steps that do not touch queues, records and carrier\<close>

definition vital :: "tunnel \<Rightarrow> queued list \<times> nat \<times> flow_queue \<times> ws_session \<times> bytes \<times> bytes list \<times> u64 \<times> (u64 \<times> byte \<times> bytes \<times> bytes) list" where
  "vital s = (t_q s, t_queued_bytes s, t_pending s, t_carrier s, t_wire s, t_sent s, t_sequence s, t_log s)"

definition same :: "tunnel \<Rightarrow> tunnel \<Rightarrow> bool" where
  "same s s' \<longleftrightarrow> vital s' = vital s"

lemmas same_simps = same_def vital_def

interpretation idle: preserved same
  by unfold_locales (simp_all add: same_def)

lemma idle_ask [intro]: "keeps same (ask f)"
  by (simp add: keeps_def ask_def same_simps)

lemma idle_now [intro]: "keeps same (now L)"
  by (simp add: now_def idle_ask)

lemma idle_stat [intro]: "keeps same (stat f)"
  by (auto simp: stat_def same_simps)

lemma idle_logS [intro]: "keeps same (logS l)"
  by (auto simp: logS_def same_simps)

lemma idle_fail [intro]: "keeps same (fail m)"
  by (auto simp: fail_def)

lemma keepsD: "keeps R m \<Longrightarrow> m s = (s', r) \<Longrightarrow> R s s'"
  by (metis fst_conv keeps_def)

lemma idle_pair: "(\<And>s a b. g s = (a, b) \<Longrightarrow> same s (h a b s)) \<Longrightarrow> keeps same (\<lambda>s. case g s of (a, b) \<Rightarrow> (h a b s, k a b s))"
  by (auto simp: keeps_def split: prod.split)

lemmas idle_rules = idle.keeps_retS idle.keeps_bindS idle.keeps_thenS idle.keeps_whenS idle.keeps_withS idle.keeps_modS
  idle.keeps_eachS idle_ask idle_now idle_stat idle_logS idle_fail idle_pair

lemma bindS_cases:
  assumes "bindS m f s = (s', r)"
  obtains e where "m s = (s', Inl e)" "r = Inl e" | x t where "m s = (t, Inr x)" "f x t = (s', r)"
  using assms by (auto simp: bindS_def split: prod.splits sum.splits)

lemmas thenS_cases = bindS_cases [where f = "\<lambda>_. k" for k, folded thenS_def]

lemma thenS_modS: "thenS (modS f) k s = k (f s)"
  by (simp add: thenS_def bindS_def modS_def)

section \<open>Making a record\<close>

lemma idle_padding_maximum: "keeps same (padding_maximum L control)"
  by (simp add: padding_maximum_def Let_def idle_rules)

lemma idle_padding_allowance: "keeps same (padding_allowance L control n m)"
  unfolding padding_allowance_def
  by (cases control, simp_all only: if_True if_False) (intro idle_rules; simp add: same_simps)+

lemma idle_spend_padding: "keeps same (spend_padding L control n)"
  unfolding spend_padding_def by (intro idle_rules) (simp add: Let_def same_simps)

lemma padding_maximum_control: "padding_maximum L True s = (s', Inr m) \<Longrightarrow> m = websocket_control_padding_bytes (lk_cfg L)"
  by (simp add: padding_maximum_def retS_def)

lemma encode_spec:
  assumes "encode L payload flags s = (s', r)"
  shows "(\<exists>e. r = Inl e \<and> (vital s' = vital s \<or> vital s' = vital (s\<lparr>t_sequence := t_sequence s + 1\<rparr>))) \<or>
    (\<exists>k rec maximum allowance. r = Inr rec \<and>
       choose_record L (w_pad (lk_world L) k) maximum allowance (t_sequence s) payload flags = Inr rec \<and>
       (flags \<noteq> 0 \<longrightarrow> maximum = websocket_control_padding_bytes (lk_cfg L)) \<and>
       vital s' = vital (s\<lparr>t_sequence := t_sequence s + 1, t_log := t_log s @ [(t_sequence s, flags, payload, rec)]\<rparr>))"
proof -
  let ?observe = "whenS (\<not> flags \<noteq> 0) (bindS (now L) (\<lambda>t. modS (\<lambda>s. s\<lparr>t_shaper := sh_observe (of_nat (length payload)) t (t_shaper s)\<rparr>))) :: unit tun"
  have o: "keeps same ?observe" by (intro idle_rules) (simp add: same_simps)
  have early: ?thesis if "same s t" "s' = t" "r = Inl e" for t e using that by (auto simp: same_def)
  from assms show ?thesis
    unfolding encode_def Let_def thenS_def
  proof (elim bindS_cases)
    fix u t1 maximum t2 allowance t3 seq t4 rng t5
    assume 1: "?observe s = (t1, Inr u)" "padding_maximum L (flags \<noteq> 0) t1 = (t2, Inr maximum)"
      "padding_allowance L (flags \<noteq> 0) (length payload) maximum t2 = (t3, Inr allowance)"
      "next_sequence t3 = (t4, Inr seq)" "ask (w_pad (lk_world L)) t4 = (t5, Inr rng)"
      and 2: "(case choose_record L rng maximum allowance seq payload flags of Inl e \<Rightarrow> throwS (TunRecord e)
        | Inr rec \<Rightarrow> bindS (modS (\<lambda>s. s\<lparr>t_log := t_log s @ [(seq, flags, payload, rec)]\<rparr>))
            (\<lambda>_. bindS (spend_padding L (flags \<noteq> 0) (length rec - 32 - length payload)) (\<lambda>_. retS (Inr rec)))) t5 = (s', r)"
    have v: "vital t3 = vital s"
      using keepsD [OF o 1(1)] keepsD [OF idle_padding_maximum 1(2)] keepsD [OF idle_padding_allowance 1(3)] by (simp add: same_def)
    have m: "flags \<noteq> 0 \<longrightarrow> maximum = websocket_control_padding_bytes (lk_cfg L)"
      using 1(2) padding_maximum_control by (metis (full_types))
    have n: "seq = t_sequence s" "vital t5 = vital (s\<lparr>t_sequence := t_sequence s + 1\<rparr>)" "rng = w_pad (lk_world L) (t_ev t4)"
      using 1(4,5) v by (auto simp: next_sequence_def ask_def vital_def)
    show ?thesis
    proof (cases "choose_record L rng maximum allowance seq payload flags")
      case (Inl e)
      with 2 n show ?thesis by (auto simp: throwS_def retS_def)
    next
      case (Inr rec)
      obtain t6 where "spend_padding L (flags \<noteq> 0) (length rec - 32 - length payload) (t5\<lparr>t_log := t_log t5 @ [(seq, flags, payload, rec)]\<rparr>) = (t6, Inr ())"
        by (simp add: spend_padding_def modS_def)
      with 2 Inr have "s' = t6" "r = Inr rec" and "same (t5\<lparr>t_log := t_log t5 @ [(seq, flags, payload, rec)]\<rparr>) s'"
        using keepsD [OF idle_spend_padding] by (auto simp: bindS_def modS_def retS_def)
      with n m Inr show ?thesis by (auto simp: same_simps)
    qed
  qed (use keepsD [OF o] keepsD [OF idle_padding_maximum] keepsD [OF idle_padding_allowance] in
      \<open>auto simp: next_sequence_def ask_def same_def dest!: keepsD [OF o] keepsD [OF idle_padding_maximum] keepsD [OF idle_padding_allowance]\<close>)
qed

section \<open>The invariant of a session\<close>

text \<open>What the session needs of its surroundings, and of the configuration.\<close>

definition link_ok :: "link \<Rightarrow> bool" where
  "link_ok L \<longleftrightarrow> 1 \<le> queue_packets (lk_cfg L) \<and> (\<forall>k. rng_ok (w_pad (lk_world L) k)) \<and> (\<forall>k. mask4 (w_mask (lk_world L) k)) \<and>
     (\<forall>k. io_ok (w_io (lk_world L) k)) \<and> (\<forall>k i. mask4 (fst (w_read_env (lk_world L) k i)))"

definition rec_of :: "u64 \<times> byte \<times> bytes \<times> bytes \<Rightarrow> bytes" where
  "rec_of e = snd (snd (snd e))"

definition made_ok :: "link \<Rightarrow> u64 \<times> byte \<times> bytes \<times> bytes \<Rightarrow> bool" where
  "made_ok L e = (case e of (q, f, p, r) \<Rightarrow> sent_v5 (lk_crypto L) (lk_tx_key L) r (f, q, p))"

definition limits_ok :: "config \<Rightarrow> tunnel \<Rightarrow> bool" where
  "limits_ok cfg s \<longleftrightarrow> queue_ok cfg (t_q s) (t_queued_bytes s) \<and> fq_inv (t_pending s) \<and>
     fq_packets (t_pending s) \<le> queue_packets cfg \<and> fq_bytes (t_pending s) \<le> queue_bytes cfg"

definition records_ok :: "link \<Rightarrow> tunnel \<Rightarrow> bool" where
  "records_ok L s \<longleftrightarrow> (\<forall>e \<in> set (t_log s). made_ok L e) \<and> sorted_wrt (<) (map fst (t_log s))"

definition ahead :: "tunnel \<Rightarrow> bool" where
  "ahead s \<longleftrightarrow> t_sequence s = 0 \<or> (\<forall>e \<in> set (t_log s). fst e < t_sequence s)"

text \<open>Every message is a run of whole records, and messages and queue take the records in the order they were made.\<close>

definition stream_ok :: "tunnel \<Rightarrow> bool" where
  "stream_ok s \<longleftrightarrow> (\<exists>xss ys. subseq (concat xss @ ys) (t_log s) \<and> t_sent s = map (\<lambda>xs. concat (map rec_of xs)) xss \<and>
     map qd_data (t_q s) = map rec_of ys)"

definition wire_ok :: "config \<Rightarrow> bool \<Rightarrow> tunnel \<Rightarrow> bool" where
  "wire_ok cfg client s \<longleftrightarrow> framed client (websocket_ping_sec cfg > 0) (t_carrier s) (t_wire s) (t_sent s) \<and>
     (\<forall>m \<in> set (t_sent s). length m \<le> batch_bytes cfg)"

definition session_end :: "link \<Rightarrow> bool \<Rightarrow> tunnel \<Rightarrow> bool" where
  "session_end L client s \<longleftrightarrow> limits_ok (lk_cfg L) s \<and> records_ok L s \<and> stream_ok s \<and> wire_ok (lk_cfg L) client s"

definition session_inv :: "link \<Rightarrow> bool \<Rightarrow> tunnel \<Rightarrow> bool" where
  "session_inv L client s \<longleftrightarrow> session_end L client s \<and> ahead s"

lemmas session_parts = session_inv_def session_end_def

text \<open>Each part depends on few fields.\<close>

lemma limits_cong: "t_q s' = t_q s \<Longrightarrow> t_queued_bytes s' = t_queued_bytes s \<Longrightarrow> t_pending s' = t_pending s \<Longrightarrow> limits_ok cfg s' = limits_ok cfg s"
  by (simp add: limits_ok_def)

lemma records_cong: "t_log s' = t_log s \<Longrightarrow> records_ok L s' = records_ok L s"
  by (simp add: records_ok_def)

lemma ahead_cong: "t_log s' = t_log s \<Longrightarrow> t_sequence s' = t_sequence s \<Longrightarrow> ahead s' = ahead s"
  by (simp add: ahead_def)

lemma stream_cong: "t_q s' = t_q s \<Longrightarrow> t_sent s' = t_sent s \<Longrightarrow> t_log s' = t_log s \<Longrightarrow> stream_ok s' = stream_ok s"
  by (simp add: stream_ok_def)

lemma wire_cong: "t_carrier s' = t_carrier s \<Longrightarrow> t_wire s' = t_wire s \<Longrightarrow> t_sent s' = t_sent s \<Longrightarrow> wire_ok cfg client s' = wire_ok cfg client s"
  by (simp add: wire_ok_def)

interpretation session: guarded "session_inv L client" "session_end L client" for L client
  by unfold_locales (simp add: session_inv_def)

lemma session_same:
  assumes "same s s'" "session_inv L client s"
  shows "session_inv L client s'"
proof -
  have "t_q s' = t_q s" "t_queued_bytes s' = t_queued_bytes s" "t_pending s' = t_pending s" "t_carrier s' = t_carrier s"
    "t_wire s' = t_wire s" "t_sent s' = t_sent s" "t_sequence s' = t_sequence s" "t_log s' = t_log s"
    using assms(1) by (simp_all add: same_simps)
  with assms(2) show ?thesis
    using limits_cong [of s' s] records_cong [of s' s] ahead_cong [of s' s] stream_cong [of s' s] wire_cong [of s' s]
    by (simp add: session_parts)
qed

lemma idle_holds: "keeps same m \<Longrightarrow> holds (session_inv L client) (session_end L client) m"
  by (rule holdsI) (blast dest: keepsD intro: session.weaker session_same)+

section \<open>Encoding and queueing\<close>

lemma choose_made:
  assumes "choose_record L rng maximum allowance q p f = Inr r" "rng_ok rng"
    and "f \<noteq> 0 \<longrightarrow> maximum = websocket_control_padding_bytes (lk_cfg L)" "f \<in> {0, RECORD_KEEPALIVE, RECORD_PING, RECORD_PONG}"
  shows "made_ok L (q, f, p, r) \<and> q \<noteq> 0"
proof -
  have "sent_v5 (lk_crypto L) (lk_tx_key L) r (f, q, p)"
    using assms by (auto simp: choose_record_def sent_v5_def record_flags split: if_splits)
  moreover have "q \<noteq> 0"
    using assms(1) by (auto simp: choose_record_def encode_envelope_record_v5_def encode_padded_record_v5_def
        encode_record_v5_def encode_aead_record_def result_iff split: if_splits)
  ultimately show ?thesis by (simp add: made_ok_def)
qed

text \<open>A new record has a larger sequence number than all before, even where the counter wraps to zero.\<close>

lemma records_ok_snoc:
  assumes "records_ok L s" "ahead s" "made_ok L (t_sequence s, f, p, r)" "t_sequence s \<noteq> 0"
    and "t_log s' = t_log s @ [(t_sequence s, f, p, r)]" "t_sequence s' = t_sequence s + 1"
  shows "records_ok L s' \<and> ahead s'"
proof -
  have a: "\<forall>e \<in> set (t_log s). fst e < t_sequence s" using assms(2,4) by (simp add: ahead_def)
  have n: "t_sequence s + 1 = 0 \<or> t_sequence s < t_sequence s + 1"
    by (metis add.commute lessI unatSuc word_less_nat_alt)
  have "ahead s'" using a n assms(5,6) by (auto simp: ahead_def intro: less_trans)
  then show ?thesis using assms(1,3,5) a by (auto simp: records_ok_def sorted_wrt_append)
qed

text \<open>Dropping records from the front and appending new ones keeps what is queued a part of what was made.\<close>

lemma stream_ok_queue:
  assumes "stream_ok s" "t_log s' = t_log s @ es" "t_sent s' = t_sent s"
    and "map qd_data (t_q s') = drop k (map qd_data (t_q s)) @ map rec_of fs" "subseq fs es"
  shows "stream_ok s'"
proof -
  obtain xss ys where x: "subseq (concat xss @ ys) (t_log s)" "t_sent s = map (\<lambda>xs. concat (map rec_of xs)) xss" "map qd_data (t_q s) = map rec_of ys"
    using assms(1) by (auto simp: stream_ok_def)
  have "subseq (concat xss @ drop k ys) (concat xss @ ys)"
    by (intro list_emb_append_mono subseq_order.refl) (simp add: suffix_drop suffix_imp_subseq)
  then have "subseq (concat xss @ drop k ys @ fs) (t_log s')"
    using list_emb_append_mono [OF subseq_order.trans [OF _ x(1)] assms(5), of "concat xss @ drop k ys"] assms(2) by simp
  moreover have "map qd_data (t_q s') = map rec_of (drop k ys @ fs)" using assms(4) x(3) by (simp add: drop_map)
  ultimately show ?thesis unfolding stream_ok_def using x(2) assms(3) by metis
qed

lemma enqueue_shape:
  assumes "queue_ok cfg q qb" "enqueue cfg False x q qb st = (q', qb', st')"
  shows "\<exists>k. q' = drop k q \<or> q' = drop k q @ [x]"
proof (cases "length (qd_data x) > queue_bytes cfg")
  case True
  with assms(2) have "q' = drop 0 q" by (simp add: enqueue_def)
  then show ?thesis by blast
next
  case False
  obtain r rb st1 where e: "evict cfg (length (qd_data x)) q qb st = (r, rb, st1)" by (cases "evict cfg (length (qd_data x)) q qb st") auto
  with assms(1) evict_spec obtain k where "r = drop k q" unfolding queue_ok_def by blast
  moreover have "q' = r @ [x]" using assms(2) False e by (simp add: enqueue_def Let_def)
  ultimately show ?thesis by blast
qed

lemma put_queue_spec:
  assumes "put_queue L rec payload s = (s', r)" "queue_ok (lk_cfg L) (t_q s) (t_queued_bytes s)" "1 \<le> queue_packets (lk_cfg L)"
  shows "r = Inr () \<and> queue_ok (lk_cfg L) (t_q s') (t_queued_bytes s') \<and>
    (\<exists>k fs. map qd_data (t_q s') = drop k (map qd_data (t_q s)) @ fs \<and> fs \<in> {[], [rec]}) \<and>
    vital s' = vital (s\<lparr>t_q := t_q s', t_queued_bytes := t_queued_bytes s'\<rparr>)"
proof -
  obtain t s1 where n: "now L s = (s1, Inr t)" "same s s1"
    using keepsD [OF idle_now, of L s] by (auto simp: now_def ask_def)
  let ?x = "\<lparr>qd_data = rec, qd_at = t, qd_payload = payload\<rparr>"
  obtain q qb st where e: "enqueue (lk_cfg L) False ?x (t_q s1) (t_queued_bytes s1) (t_stats s1) = (q, qb, st)"
    by (cases "enqueue (lk_cfg L) False ?x (t_q s1) (t_queued_bytes s1) (t_stats s1)") auto
  have s': "s' = s1\<lparr>t_q := q, t_queued_bytes := qb, t_stats := st\<rparr>" "r = Inr ()"
    using assms(1) n(1) e by (simp_all add: put_queue_def bindS_def)
  have v: "t_q s1 = t_q s" "t_queued_bytes s1 = t_queued_bytes s" using n(2) by (simp_all add: same_simps)
  note q = enqueue_ok [OF _ assms(3) e] enqueue_shape [OF _ e]
  obtain k where "q = drop k (t_q s) \<or> q = drop k (t_q s) @ [?x]" using q(2) v assms(2) by auto
  then have "\<exists>k fs. map qd_data q = drop k (map qd_data (t_q s)) @ fs \<and> fs \<in> {[], [rec]}"
    by (intro exI [of _ k] exI [of _ "drop (length (drop k (t_q s))) (map qd_data q)"]) (auto simp: drop_map)
  then show ?thesis using s' q(1) v assms(2) n(2) by (simp add: same_simps)
qed

text \<open>Encoding a packet or a control message and queueing it.\<close>

lemma holds_enqueue:
  assumes "link_ok L" "flags \<in> {0, RECORD_KEEPALIVE, RECORD_PING, RECORD_PONG}"
  shows "holds (session_inv L client) (session_end L client) (bindS (encode L p flags) (\<lambda>rec. put_queue L rec b))"
proof (rule holdsI)
  fix s s' e assume i: "session_inv L client s" and "bindS (encode L p flags) (\<lambda>rec. put_queue L rec b) s = (s', Inl e)"
  from this(2) show "session_end L client s'"
  proof (rule bindS_cases)
    fix e' assume "encode L p flags s = (s', Inl e')"
    from encode_spec [OF this] have "vital s' = vital s \<or> vital s' = vital (s\<lparr>t_sequence := t_sequence s + 1\<rparr>)" by auto
    then have "t_q s' = t_q s" "t_queued_bytes s' = t_queued_bytes s" "t_pending s' = t_pending s" "t_carrier s' = t_carrier s"
      "t_wire s' = t_wire s" "t_sent s' = t_sent s" "t_log s' = t_log s" by (auto simp: vital_def)
    with i show ?thesis
      using limits_cong [of s' s] records_cong [of s' s] stream_cong [of s' s] wire_cong [of s' s] by (simp add: session_parts)
  next
    fix rec t assume "encode L p flags s = (t, Inr rec)" and u: "put_queue L rec b t = (s', Inl e)"
    from encode_spec [OF this(1)] i have "queue_ok (lk_cfg L) (t_q t) (t_queued_bytes t)" by (auto simp: session_parts limits_ok_def vital_def)
    with put_queue_spec [OF u] assms(1) show ?thesis by (simp add: link_ok_def)
  qed
next
  fix s s' x assume i: "session_inv L client s" and "bindS (encode L p flags) (\<lambda>rec. put_queue L rec b) s = (s', Inr x)"
  then obtain rec t where e: "encode L p flags s = (t, Inr rec)" and u: "put_queue L rec b t = (s', Inr x)" by (auto simp: bindS_Inr)
  from encode_spec [OF e] obtain k maximum allowance where c:
    "choose_record L (w_pad (lk_world L) k) maximum allowance (t_sequence s) p flags = Inr rec"
    "flags \<noteq> 0 \<longrightarrow> maximum = websocket_control_padding_bytes (lk_cfg L)"
    and v: "vital t = vital (s\<lparr>t_sequence := t_sequence s + 1, t_log := t_log s @ [(t_sequence s, flags, p, rec)]\<rparr>)" by auto
  have m: "made_ok L (t_sequence s, flags, p, rec)" "t_sequence s \<noteq> 0"
    using choose_made [OF c(1) _ c(2) assms(2)] assms(1) by (simp_all add: link_ok_def)
  have qt: "queue_ok (lk_cfg L) (t_q t) (t_queued_bytes t)" using i v by (simp add: session_parts limits_ok_def vital_def)
  note q = put_queue_spec [OF u qt]
  obtain k fs where w: "queue_ok (lk_cfg L) (t_q s') (t_queued_bytes s')" "map qd_data (t_q s') = drop k (map qd_data (t_q s)) @ fs"
    "fs \<in> {[], [rec]}" "vital s' = vital (t\<lparr>t_q := t_q s', t_queued_bytes := t_queued_bytes s'\<rparr>)"
    using q assms(1) v by (auto simp: link_ok_def vital_def)
  have l: "t_log s' = t_log s @ [(t_sequence s, flags, p, rec)]" "t_sequence s' = t_sequence s + 1" "t_sent s' = t_sent s"
    "t_pending s' = t_pending s" "t_carrier s' = t_carrier s" "t_wire s' = t_wire s"
    using v w(4) by (simp_all add: vital_def)
  have "records_ok L s' \<and> ahead s'"
    by (rule records_ok_snoc [OF _ _ m l(1,2)]) (use i in \<open>simp_all add: session_inv_def session_end_def\<close>)
  moreover have "stream_ok s'"
  proof (cases "fs = []")
    case True
    with w(2) show ?thesis using i l stream_ok_queue [of s s' "[(t_sequence s, flags, p, rec)]" k "[]"] by (simp add: session_inv_def session_end_def)
  next
    case False
    with w(2,3) show ?thesis using i l stream_ok_queue [of s s' "[(t_sequence s, flags, p, rec)]" k "[(t_sequence s, flags, p, rec)]"]
      by (simp add: session_inv_def session_end_def rec_of_def)
  qed
  moreover have "limits_ok (lk_cfg L) s'" "wire_ok (lk_cfg L) client s'" using i l w(1) by (simp_all add: session_parts limits_ok_def wire_ok_def)
  ultimately show "session_inv L client s'" by (simp add: session_inv_def session_end_def)
qed

section \<open>The carrier\<close>

lemma holds_carrier_flush_step:
  assumes "link_ok L"
  shows "holds (session_inv L client) (session_end L client) (carrier_flush_step L)"
proof -
  have k: "session_inv L client s'" if i: "session_inv L client s" and r: "carrier_flush_step L s = (s', r)" for s s' r
  proof -
    obtain w x sent where f: "carrier_flush (w_io (lk_world L) (t_ev s)) 262144 (t_carrier s) = (w, x, sent)"
      by (cases "carrier_flush (w_io (lk_world L) (t_ev s)) 262144 (t_carrier s)") auto
    have s': "s' = s\<lparr>t_ev := Suc (t_ev s), t_carrier := w, t_wire := t_wire s @ sent\<rparr>"
      using r f by (simp add: carrier_flush_step_def bindS_def ask_def)
    have "framed client (websocket_ping_sec (lk_cfg L) > 0) w (t_wire s @ sent) (t_sent s)"
      by (rule framed_flush [OF _ _ f]) (use assms i in \<open>simp_all add: link_ok_def session_parts wire_ok_def\<close>)
    with i s' show ?thesis
      using limits_cong [of s' s] records_cong [of s' s] ahead_cong [of s' s] stream_cong [of s' s] by (simp add: session_parts wire_ok_def)
  qed
  show ?thesis by (rule holdsI) (blast dest: k intro: session.weaker)+
qed

lemma idle_sync_carrier_tx: "keeps same (sync_carrier_tx L)"
  unfolding sync_carrier_tx_def Let_def seqS.simps by (intro idle_rules; simp add: same_simps)

lemma holds_flush_transport:
  assumes "link_ok L"
  shows "holds (session_inv L client) (session_end L client) (flush_transport L)"
  unfolding flush_transport_def
  by (intro session.holds_thenS holds_carrier_flush_step [OF assms] idle_holds idle_sync_carrier_tx)
    (intro idle_rules)

text \<open>Taking a batch from the queue and handing it to the carrier.\<close>

lemma take_batch_spec:
  "take_batch limit n m q qb = (m', q', qb') \<Longrightarrow>
    \<exists>k \<le> n. q' = drop k q \<and> m' = m @ concat (map qd_data (take k q)) \<and> (length m \<le> limit \<longrightarrow> length m' \<le> limit) \<and>
      (qb = total q \<longrightarrow> qb' = total q')"
proof (induction limit n m q qb rule: take_batch.induct)
  case (3 limit n m x q qb)
  show ?case
  proof (cases "length m + length (qd_data x) \<le> limit")
    case True
    with 3 obtain k where "k \<le> n" "q' = drop k q" "m' = (m @ qd_data x) @ concat (map qd_data (take k q))" "length m' \<le> limit"
      "qb - length (qd_data x) = total q \<longrightarrow> qb' = total q'" by auto
    then show ?thesis by (intro exI [of _ "Suc k"]) auto
  next
    case False
    with 3 show ?thesis by (intro exI [of _ 0]) auto
  qed
qed (auto intro!: exI [of _ 0])

lemma queue_ok_drop: "queue_ok cfg q qb \<Longrightarrow> queue_ok cfg (drop k q) (total (drop k q))"
proof (induction k arbitrary: q qb)
  case (Suc k)
  then show ?case using queue_ok_Cons by (cases q) (fastforce simp: queue_ok_def)+
qed (simp add: queue_ok_def)

lemma stream_ok_send:
  assumes "stream_ok s" "t_log s' = t_log s" "t_q s' = drop k (t_q s)"
    and "t_sent s' = t_sent s \<or> t_sent s' = t_sent s @ [concat (map qd_data (take k (t_q s)))]"
  shows "stream_ok s'"
  using assms(4)
proof
  assume "t_sent s' = t_sent s"
  then show ?thesis using stream_ok_queue [of s s' "[]" k "[]"] assms(1,2,3) by (simp add: drop_map)
next
  assume t: "t_sent s' = t_sent s @ [concat (map qd_data (take k (t_q s)))]"
  obtain xss ys where x: "subseq (concat xss @ ys) (t_log s)" "t_sent s = map (\<lambda>xs. concat (map rec_of xs)) xss" "map qd_data (t_q s) = map rec_of ys"
    using assms(1) by (auto simp: stream_ok_def)
  have y: "subseq (concat (xss @ [take k ys]) @ drop k ys) (t_log s')" using x(1) assms(2) by simp
  have "map qd_data (take k (t_q s)) = map rec_of (take k ys)" "map qd_data (t_q s') = map rec_of (drop k ys)"
    using x(3) assms(3) by (simp_all add: take_map [symmetric] drop_map [symmetric])
  then show ?thesis unfolding stream_ok_def using y t x(2)
    by (intro exI [of _ "xss @ [take k ys]"] exI [of _ "drop k ys"]) simp
qed

lemma idle_shaper_ready: "keeps same (shaper_ready L)"
  unfolding shaper_ready_def by (intro idle.keeps_withS) (auto intro!: idle_rules simp: same_simps)

lemma idle_batch_limit: "keeps same (batch_limit L)"
  unfolding batch_limit_def by (intro idle_rules) (simp add: same_simps)

lemma send_message_cases:
  assumes "send_message L m s = (s', r)"
  obtains e where "r = Inl e" "same s s'"
  | w x where "r = Inr ()" "link_ok L \<longrightarrow> mask4 (fst x)" "carrier_send m x (t_carrier s) = Inr w"
    "vital s' = vital (s\<lparr>t_carrier := w, t_sent := t_sent s @ [m]\<rparr>)"
proof -
  let ?x = "(w_mask (lk_world L) (t_ev s), w_clock (lk_world L) (Suc (t_ev s)) div 1000)"
  have "link_ok L \<longrightarrow> mask4 (fst ?x)" by (simp add: link_ok_def)
  then show ?thesis
    using assms that(1) that(2) [of ?x]
    by (cases "carrier_send m ?x (t_carrier s)") (auto simp: send_message_def bindS_def ask_def now_def same_simps)
qed

lemma holds_send_batch:
  assumes "link_ok L"
  shows "holds (session_inv L client) (session_end L client) (withS (\<lambda>s. case take_batch (batch_bytes (lk_cfg L)) n [] (t_q s) (t_queued_bytes s) of
    (message, q, qb) \<Rightarrow> thenS (modS (\<lambda>s. s\<lparr>t_q := q, t_queued_bytes := qb\<rparr>)) (whenS (message \<noteq> []) (seqS [send_message L message, stat (f q qb), flush_transport L]))))"
proof -
  have k: "(\<forall>e. r = Inl e \<longrightarrow> session_end L client s') \<and> (\<forall>x. r = Inr x \<longrightarrow> session_inv L client s')"
    if i: "session_inv L client s" and b: "take_batch (batch_bytes (lk_cfg L)) n [] (t_q s) (t_queued_bytes s) = (m, q, qb)"
      and r: "thenS (modS (\<lambda>s. s\<lparr>t_q := q, t_queued_bytes := qb\<rparr>)) (whenS (m \<noteq> []) (seqS [send_message L m, stat (f q qb), flush_transport L])) s = (s', r)"
    for s s' m q qb and r :: "(tun_error, unit) result"
  proof -
    let ?s = "s\<lparr>t_q := q, t_queued_bytes := qb\<rparr>"
    have qo: "queue_ok (lk_cfg L) (t_q s) (t_queued_bytes s)" using i by (simp add: session_parts limits_ok_def)
    obtain k where k: "q = drop k (t_q s)" "m = concat (map qd_data (take k (t_q s)))" "qb = total q" "length m \<le> batch_bytes (lk_cfg L)"
      using take_batch_spec [OF b] qo by (auto simp: queue_ok_def)
    have l: "limits_ok (lk_cfg L) ?s" using i k(1,3) queue_ok_drop [OF qo] by (simp add: session_parts limits_ok_def)
    have i1: "session_inv L client ?s"
      using i l stream_ok_send [of s ?s k] k(1) records_cong [of ?s s] ahead_cong [of ?s s] wire_cong [of ?s s] by (simp add: session_parts)
    show ?thesis
    proof (cases "m = []")
      case True
      with r i1 show ?thesis by (auto simp: thenS_modS whenS_def skipS_def retS_def)
    next
      case False
      with r have "thenS (send_message L m) (thenS (stat (f q qb)) (thenS (flush_transport L) skipS)) ?s = (s', r)"
        by (simp add: thenS_modS whenS_def)
      then show ?thesis
      proof (rule thenS_cases)
        fix e assume "send_message L m ?s = (s', Inl e)" "r = Inl e"
        then show ?thesis using i1 session_same session.weaker by (auto elim!: send_message_cases)
      next
        fix x t assume s: "send_message L m ?s = (t, Inr x)" and t: "thenS (stat (f q qb)) (thenS (flush_transport L) skipS) t = (s', r)"
        from s obtain w y where w: "mask4 (fst y)" "carrier_send m y (t_carrier s) = Inr w"
          "vital t = vital (?s\<lparr>t_carrier := w, t_sent := t_sent s @ [m]\<rparr>)" using assms by (auto elim!: send_message_cases)
        have "framed client (websocket_ping_sec (lk_cfg L) > 0) w (t_wire s) (t_sent s @ [m])"
          by (rule framed_send [OF _ w(1,2)]) (use i in \<open>simp add: session_parts wire_ok_def\<close>)
        then have "wire_ok (lk_cfg L) client t" using w(3) i k(4) by (simp add: wire_ok_def vital_def session_parts)
        moreover have "stream_ok t" using i stream_ok_send [of s t k] w(3) k by (simp add: session_parts vital_def)
        ultimately have i2: "session_inv L client t"
          using i1 l w(3) limits_cong [of t ?s] records_cong [of t ?s] ahead_cong [of t ?s] by (simp add: session_parts vital_def)
        have "holds (session_inv L client) (session_end L client) (thenS (stat (f q qb)) (thenS (flush_transport L) skipS))"
          by (intro session.holds_thenS session.holds_retS idle_holds [OF idle_stat] holds_flush_transport assms)
        with i2 t show ?thesis by (auto dest: holdsD)
      qed
    qed
  qed
  show ?thesis by (rule holdsI) (auto simp: withS_def split: prod.splits dest: k)
qed

lemma holds_flush_carrier:
  assumes "link_ok L"
  shows "holds (session_inv L client) (session_end L client) (flush_carrier L)"
  unfolding flush_carrier_def
  by (intro session.holds_thenS session.holds_withS session.holds_if session.holds_bindS session.holds_retS
      holds_flush_transport idle_holds [OF idle_shaper_ready] idle_holds [OF idle_batch_limit] holds_send_batch assms)

section \<open>Packets waiting for their turn\<close>

text \<open>A step that reads the state and starts with a change that depends on it.\<close>

context guarded begin

lemma holds_start:
  assumes "\<And>s. I s \<Longrightarrow> \<exists>g k. f s = thenS (modS g) k \<and> I (g s) \<and> holds I Q k"
  shows "holds I Q (withS f)"
proof -
  have k: "\<exists>k t. holds I Q k \<and> I t \<and> withS f s = k t" if i: "I s" for s
  proof -
    obtain g k where "f s = thenS (modS g) k" "I (g s)" "holds I Q k" using assms [OF i] by blast
    then show ?thesis by (intro exI [of _ k] exI [of _ "g s"]) (simp add: withS_def thenS_modS)
  qed
  show ?thesis
  proof (rule holdsI)
    fix s s' e assume "I s" and w: "withS f s = (s', Inl e)"
    with k obtain k t where "holds I Q k" "I t" "withS f s = k t" by blast
    then show "Q s'" using w holdsD(1) [of I Q k t s' e] by simp
  next
    fix s s' x assume "I s" and w: "withS f s = (s', Inr x)"
    with k obtain k t where "holds I Q k" "I t" "withS f s = k t" by blast
    then show "I s'" using w holdsD(2) [of I Q k t s' x] by simp
  qed
qed

lemma holds_pair: "(\<And>s a b. I s \<Longrightarrow> g s = (a, b) \<Longrightarrow> I (h a b s)) \<Longrightarrow> holds I Q (\<lambda>s. case g s of (a, b) \<Rightarrow> (h a b s, Inr (k a b s)))"
  by (rule holdsI) (auto split: prod.splits)

end

lemma session_pending:
  assumes "session_inv L client s" "vital s' = vital (s\<lparr>t_pending := p\<rparr>)"
    and "fq_inv p" "fq_packets p \<le> queue_packets (lk_cfg L)" "fq_bytes p \<le> queue_bytes (lk_cfg L)"
  shows "session_inv L client s'"
  using assms records_cong [of s' s] ahead_cong [of s' s] stream_cong [of s' s] wire_cong [of s' s]
  by (simp add: session_parts limits_ok_def vital_def)

lemma session_limits:
  "session_inv L client s \<Longrightarrow> fq_inv (t_pending s) \<and> fq_packets (t_pending s) \<le> queue_packets (lk_cfg L) \<and> fq_bytes (t_pending s) \<le> queue_bytes (lk_cfg L)"
  by (simp add: session_parts limits_ok_def)

lemma holds_enqueue_control:
  "link_ok L \<Longrightarrow> flags \<in> {0, RECORD_KEEPALIVE, RECORD_PING, RECORD_PONG} \<Longrightarrow>
    holds (session_inv L client) (session_end L client) (enqueue_control L flags p)"
  unfolding enqueue_control_def by (rule holds_enqueue)

lemma holds_enqueue_packet: "link_ok L \<Longrightarrow> holds (session_inv L client) (session_end L client) (enqueue_packet L p)"
  unfolding enqueue_packet_def by (rule holds_enqueue) simp_all

lemma holds_drain_loop: "link_ok L \<Longrightarrow> holds (session_inv L client) (session_end L client) (drain_loop L n)"
proof (induction n)
  case 0
  then show ?case by (simp add: session.holds_retS)
next
  case (Suc n)
  have p: "holds (session_inv L client) (session_end L client) (modS (\<lambda>s. s\<lparr>t_pending := rest\<rparr>) :: unit tun)"
    if i: "session_inv L client s" and e: "\<not> fq_empty (t_pending s)" "fq_pop (t_pending s) = (item, rest)" for s item rest
  proof (rule session.holds_modS)
    fix t assume t: "session_inv L client t"
    have q: "fq_inv (t_pending s)" "fq_inv rest" using session_limits [OF i] pop_inv [of "t_pending s"] e(2) by simp_all
    show "session_inv L client (t\<lparr>t_pending := rest\<rparr>)"
      by (rule session_pending [OF t refl q(2)]) (use pop_effect(2,3) [OF q(1) e] session_limits [OF i] in auto)
  qed
  show ?case
    unfolding drain_loop.simps Let_def
    by (rule session.holds_withS)
      (auto intro!: p session.holds_retS session.holds_thenS Suc holds_enqueue_packet split: prod.splits)
qed

lemma idle_note: "keeps same (modS (note_peaks \<circ> note_queues))" "keeps same (modS note_queues)"
  by (intro idle_rules; simp add: note_peaks_def note_queues_def same_simps)+

lemma holds_drain_pending: "link_ok L \<Longrightarrow> holds (session_inv L client) (session_end L client) (drain_pending L)"
  unfolding drain_pending_def Let_def
  by (intro session.holds_withS session.holds_if session.holds_retS session.holds_thenS holds_drain_loop idle_holds [OF idle_note(1)])

lemma holds_schedule_packet: "holds (session_inv L client) (session_end L client) (schedule_packet L packet)"
proof -
  have "session_inv L client (s\<lparr>t_pending := p, t_stats := st\<rparr>)"
    if i: "session_inv L client s" and p: "fq_push packet t (queue_packets (lk_cfg L)) (queue_bytes (lk_cfg L)) (t_pending s) = (ok, p)" for s t ok p st
  proof (rule session_pending [OF i, of _ p])
    have q: "fq_inv (t_pending s)" using session_limits [OF i] by simp
    show "fq_inv p" using push_inv [OF q, of packet t "queue_packets (lk_cfg L)" "queue_bytes (lk_cfg L)"] p by simp
    show "fq_packets p \<le> queue_packets (lk_cfg L)" "fq_bytes p \<le> queue_bytes (lk_cfg L)"
      using session_limits [OF i] push_effect(2-4) [OF q] push_refused p by (cases ok; fastforce)+
  qed (simp add: vital_def)
  then show ?thesis
    unfolding schedule_packet_def Let_def
    by (intro session.holds_withS session.holds_if session.holds_bindS idle_holds [OF idle_stat] idle_holds [OF idle_now] session.holds_pair) blast+
qed

text \<open>Dropping what waited too long.\<close>

lemma drop_old_spec: "drop_old cfg t q qb st ev = (q', qb', st', ev') \<Longrightarrow> queue_ok cfg q qb \<Longrightarrow> queue_ok cfg q' qb' \<and> (\<exists>k. q' = drop k q)"
proof (induction cfg t q qb st ev rule: drop_old.induct)
  case (2 cfg t x q qb st ev)
  show ?case
  proof (cases "elapsed_ms t (qd_at x) > queue_delay_ms cfg")
    case True
    with 2 queue_ok_Cons have "queue_ok cfg q' qb' \<and> (\<exists>k. q' = drop k q)" by auto
    then show ?thesis by (metis drop_Suc_Cons)
  next
    case False
    with 2 show ?thesis by (auto intro: exI [of _ 0])
  qed
qed auto

lemma holds_drop_delayed: "holds (session_inv L client) (session_end L client) (drop_delayed L t0)"
proof -
  have a: "session_inv L client (s\<lparr>t_q := q, t_queued_bytes := qb, t_stats := st, t_events := ev\<rparr>)"
    if i: "session_inv L client s" and d: "drop_old (lk_cfg L) t0 (t_q s) (t_queued_bytes s) (t_stats s) (t_events s) = (q, qb, st, ev)" for s q qb st ev
  proof -
    let ?s = "s\<lparr>t_q := q, t_queued_bytes := qb, t_stats := st, t_events := ev\<rparr>"
    obtain k where k: "queue_ok (lk_cfg L) q qb" "q = drop k (t_q s)"
      using drop_old_spec [OF d] i by (auto simp: session_parts limits_ok_def)
    with i show ?thesis
      using stream_ok_send [of s ?s k] records_cong [of ?s s] ahead_cong [of ?s s] wire_cong [of ?s s] by (simp add: session_parts limits_ok_def)
  qed
  have b: "session_inv L client (t\<lparr>t_pending := rest\<rparr>)"
    if i: "session_inv L client s" and d: "drop_expired u ttl (t_pending s) = (n, rest)" and t: "session_inv L client t" for s t u ttl n rest
  proof -
    have q: "fq_inv (t_pending s)" "fq_inv rest" using session_limits [OF i] drop_inv [of "t_pending s" u ttl] d by simp_all
    show ?thesis
      by (rule session_pending [OF t refl q(2)]) (use drop_effect(3,4) [OF q(1) d] session_limits [OF i] in auto)
  qed
  have k: "keeps same (modS (\<lambda>s. s\<lparr>t_stats := g s\<rparr>) :: unit tun)" for g
    by (intro idle_rules) (simp add: same_simps)
  show ?thesis
    unfolding drop_delayed_def Let_def seqS.simps
    by (intro session.holds_thenS session.holds_whenS session.holds_bindS session.holds_retS idle_holds [OF idle_now]
        idle_holds [OF idle_note(2)] idle_holds [OF k] session.holds_withS session.holds_modS)
      (auto intro!: a b session.holds_thenS session.holds_whenS session.holds_modS idle_holds [OF idle_stat] idle_holds [OF idle_logS] split: prod.splits)
qed

section \<open>The stages of a turn\<close>

lemmas session_rules = session.holds_retS session.holds_bindS session.holds_thenS session.holds_whenS session.holds_withS session.holds_eachS
  idle_holds [OF idle_ask] idle_holds [OF idle_now] idle_holds [OF idle_stat] idle_holds [OF idle_logS] idle_holds [OF idle_fail]

lemma holds_modS_same: "(\<And>s. same s (f s)) \<Longrightarrow> holds (session_inv L client) (session_end L client) (modS f)"
  by (intro idle_holds idle.keeps_modS)

text \<open>What an answer of the world is known to be.\<close>

lemma holds_ask:
  assumes "\<And>k. holds (session_inv L client) (session_end L client) (f (g k))"
  shows "holds (session_inv L client) (session_end L client) (bindS (ask g) f)"
proof -
  have e: "bindS (ask g) f s = f (g (t_ev s)) (s\<lparr>t_ev := Suc (t_ev s)\<rparr>)" for s by (simp add: bindS_def ask_def)
  have i: "session_inv L client s \<Longrightarrow> session_inv L client (s\<lparr>t_ev := Suc (t_ev s)\<rparr>)" for s
    by (erule session_same [rotated]) (simp add: same_simps)
  show ?thesis by (rule holdsI) (auto simp: e dest: i holdsD [OF assms])
qed

lemma holds_on_record: "link_ok L \<Longrightarrow> holds (session_inv L client) (session_end L client) (on_record L r)"
  unfolding on_record_def Let_def seqS.simps
  by (cases r) (auto intro!: session_rules holds_modS_same holds_enqueue_control split: prod.splits simp: same_simps)

lemma holds_on_records: "link_ok L \<Longrightarrow> holds (session_inv L client) (session_end L client) (on_records L rs)"
  by (induction rs) (auto intro!: session_rules holds_on_record)

lemma holds_on_message: "link_ok L \<Longrightarrow> holds (session_inv L client) (session_end L client) (on_message L msg)"
  unfolding on_message_def Let_def
  by (auto intro!: session_rules holds_modS_same holds_on_records holds_flush_carrier split: prod.splits feed_outcome.splits simp: same_simps)

lemma holds_check_watchdog: "holds (session_inv L client) (session_end L client) (check_watchdog L)"
  unfolding check_watchdog_def Let_def seqS.simps
  by (auto intro!: session_rules split: option.splits)

lemma holds_poll_step: "holds (session_inv L client) (session_end L client) (poll_step L)"
  unfolding poll_step_def Let_def by (intro session_rules)

lemma holds_read_burst: "holds (session_inv L client) (session_end L client) (read_burst L n burst)"
proof (induction n arbitrary: burst)
  case (Suc n)
  show ?case
    unfolding read_burst.simps
    by (auto intro!: session_rules holds_modS_same Suc split: tun_read.splits simp: same_simps)
qed (simp add: session.holds_retS)

lemma holds_read_tun: "link_ok L \<Longrightarrow> holds (session_inv L client) (session_end L client) (read_tun L)"
  unfolding read_tun_def Let_def
  by (intro session_rules session.holds_if holds_read_burst holds_schedule_packet holds_drain_pending holds_enqueue_packet holds_flush_carrier)

lemma session_carrier:
  assumes "session_inv L client s" "vital s' = vital (s\<lparr>t_carrier := w\<rparr>)" "framed client (websocket_ping_sec (lk_cfg L) > 0) w (t_wire s) (t_sent s)"
  shows "session_inv L client s'"
  using assms limits_cong [of s' s] records_cong [of s' s] ahead_cong [of s' s] stream_cong [of s' s]
  by (simp add: session_parts wire_ok_def vital_def)

lemma session_framed: "session_inv L client s \<Longrightarrow> framed client (websocket_ping_sec (lk_cfg L) > 0) (t_carrier s) (t_wire s) (t_sent s)"
  by (simp add: session_parts wire_ok_def)

lemma holds_note_pong: "holds (session_inv L client) (session_end L client) (note_pong L pong)"
  unfolding note_pong_def by (intro session_rules holds_modS_same) (simp add: Let_def same_simps)

lemma holds_take_pongs:
  "holds (session_inv L client) (session_end L client) (withS (\<lambda>s. case carrier_take_pongs (t_carrier s) of (ps, w) \<Rightarrow>
     thenS (modS (\<lambda>s. s\<lparr>t_carrier := w\<rparr>)) (eachS (note_pong L) ps)))"
proof (rule session.holds_start)
  fix s assume i: "session_inv L client s"
  obtain ps w where p: "carrier_take_pongs (t_carrier s) = (ps, w)" by fastforce
  have "answers client (t_carrier s) w"
    using p by (intro answers_same) (auto simp: carrier_take_pongs_def websocket_take_pongs_def)
  then have "session_inv L client (s\<lparr>t_carrier := w\<rparr>)"
    using session_carrier [OF i refl] framed_answers [OF session_framed [OF i]] by blast
  then show "\<exists>g k. (case carrier_take_pongs (t_carrier s) of (ps, w) \<Rightarrow> thenS (modS (\<lambda>s. s\<lparr>t_carrier := w\<rparr>)) (eachS (note_pong L) ps)) = thenS (modS g) k \<and>
      session_inv L client (g s) \<and> holds (session_inv L client) (session_end L client) k"
    using p by (intro exI conjI) (auto intro!: session_rules holds_note_pong)
qed

lemma holds_read_carrier:
  assumes "link_ok L"
  shows "holds (session_inv L client) (session_end L client) (read_carrier L)"
proof -
  have r: "session_inv L client (s\<lparr>t_carrier := w\<rparr>)"
    if i: "session_inv L client s" and c: "carrier_read ready reads (w_read_env (lk_world L) k) (t_carrier s) = (w, r)" for s w r ready reads k
  proof -
    have "answers client (t_carrier s) w" by (rule read_answers [OF _ c]) (use assms in \<open>simp add: link_ok_def\<close>)
    then show ?thesis using session_carrier [OF i refl] framed_answers [OF session_framed [OF i]] by blast
  qed
  have k: "holds (session_inv L client) (session_end L client) (withS (\<lambda>s0. case carrier_read ready reads (w_read_env (lk_world L) k) (t_carrier s0) of
       (w, Inl e) \<Rightarrow> thenS (modS (\<lambda>s. s\<lparr>t_carrier := w\<rparr>)) (throwS (TunCarrier e))
     | (w, Inr messages) \<Rightarrow> thenS (modS (\<lambda>s. s\<lparr>t_carrier := w\<rparr>)) (rest s0 w messages)))"
    if m: "\<And>s w messages. holds (session_inv L client) (session_end L client) (rest s w messages)" for ready reads k and rest :: "tunnel \<Rightarrow> ws_session \<Rightarrow> bytes list \<Rightarrow> unit tun"
  proof (rule session.holds_start)
    fix s assume i: "session_inv L client s"
    obtain w x where c: "carrier_read ready reads (w_read_env (lk_world L) k) (t_carrier s) = (w, x)" by fastforce
    show "\<exists>g ka. (case carrier_read ready reads (w_read_env (lk_world L) k) (t_carrier s) of
         (w, Inl e) \<Rightarrow> thenS (modS (\<lambda>s. s\<lparr>t_carrier := w\<rparr>)) (throwS (TunCarrier e))
       | (w, Inr messages) \<Rightarrow> thenS (modS (\<lambda>s. s\<lparr>t_carrier := w\<rparr>)) (rest s w messages)) = thenS (modS g) ka \<and>
        session_inv L client (g s) \<and> holds (session_inv L client) (session_end L client) ka"
      using c r [OF i c] m by (intro exI [of _ "\<lambda>s. s\<lparr>t_carrier := w\<rparr>"] exI [of _ "case x of Inl e \<Rightarrow> throwS (TunCarrier e) | Inr ms \<Rightarrow> rest s w ms"])
        (auto split: sum.splits intro!: session_rules)
  qed
  show ?thesis
    unfolding read_carrier_def Let_def seqS.simps
    by (intro holds_ask k)
      (auto intro!: session_rules holds_modS_same holds_take_pongs holds_on_message assms simp: same_simps)
qed

section \<open>Timers\<close>

lemma holds_send_probe: "link_ok L \<Longrightarrow> holds (session_inv L client) (session_end L client) (send_probe L t)"
  unfolding send_probe_def Let_def seqS.simps
  by (intro session_rules holds_modS_same holds_enqueue_control holds_flush_carrier) (simp_all add: same_simps)

lemma holds_send_carrier_ping:
  assumes "link_ok L"
  shows "holds (session_inv L client) (session_end L client) (send_carrier_ping L t)"
proof (cases "websocket_ping_sec (lk_cfg L) > 0")
  case True
  let ?rest = "\<lambda>b mk u. withS (\<lambda>s. case carrier_send_ping b (mk, u div 1000) (t_carrier s) of
             Inl e \<Rightarrow> throwS (TunCarrier e)
           | Inr w \<Rightarrow> thenS (modS (\<lambda>s. s\<lparr>t_carrier := w, t_ping_queued := True, t_last_carrier_ping := t\<rparr>)) (flush_transport L))"
  have k: "holds (session_inv L client) (session_end L client) (?rest b (w_mask (lk_world L) k) u)" for b k u
  proof (rule session.holds_start)
    fix s assume i: "session_inv L client s"
    show "\<exists>g ka. (case carrier_send_ping b (w_mask (lk_world L) k, u div 1000) (t_carrier s) of
             Inl e \<Rightarrow> throwS (TunCarrier e)
           | Inr w \<Rightarrow> thenS (modS (\<lambda>s. s\<lparr>t_carrier := w, t_ping_queued := True, t_last_carrier_ping := t\<rparr>)) (flush_transport L)) = thenS (modS g) ka \<and>
        session_inv L client (g s) \<and> holds (session_inv L client) (session_end L client) ka"
    proof (cases "carrier_send_ping b (w_mask (lk_world L) k, u div 1000) (t_carrier s)")
      case (Inl e)
      then show ?thesis using i
        by (intro exI [of _ "\<lambda>s. s"] exI [of _ "throwS (TunCarrier e)"]) (auto intro!: session_rules ext simp: thenS_modS)
    next
      case (Inr w)
      have "framed client (websocket_ping_sec (lk_cfg L) > 0) w (t_wire s) (t_sent s)"
        by (rule framed_ping [OF session_framed [OF i] _ Inr True]) (use assms in \<open>simp add: link_ok_def\<close>)
      with i have "session_inv L client (s\<lparr>t_carrier := w, t_ping_queued := True, t_last_carrier_ping := t\<rparr>)"
        by (intro session_carrier [OF i _]) (simp_all add: vital_def)
      then show ?thesis using Inr assms
        by (intro exI [of _ "\<lambda>s. s\<lparr>t_carrier := w, t_ping_queued := True, t_last_carrier_ping := t\<rparr>"] exI [of _ "flush_transport L"])
          (auto intro: holds_flush_transport)
    qed
  qed
  show ?thesis
    unfolding send_carrier_ping_def Let_def
    by (rule session.holds_withS, rule session.holds_whenS, rule session.holds_bindS [OF idle_holds [OF idle_now]],
        rule session.holds_thenS [OF holds_modS_same], simp add: same_simps, rule holds_ask,
        rule session.holds_bindS [OF idle_holds [OF idle_now]], rule k)
next
  case False
  then show ?thesis unfolding send_carrier_ping_def Let_def by (intro session.holds_withS) (simp add: whenS_def session.holds_retS)
qed

lemma holds_check_pong: "holds (session_inv L client) (session_end L client) (check_pong L t)"
  unfolding check_pong_def Let_def seqS.simps
  by (intro session_rules session.holds_if holds_modS_same) (simp add: same_simps)

lemma holds_send_keepalive: "link_ok L \<Longrightarrow> holds (session_inv L client) (session_end L client) (send_keepalive L t)"
  unfolding send_keepalive_def Let_def seqS.simps
  by (intro session_rules holds_modS_same holds_enqueue_control holds_flush_carrier) (simp_all add: same_simps)

lemma holds_check_session: "holds (session_inv L client) (session_end L client) (check_session L t gone)"
  unfolding check_session_def Let_def seqS.simps by (intro session_rules session.holds_if)

lemma holds_run_timers: "link_ok L \<Longrightarrow> holds (session_inv L client) (session_end L client) (run_timers L gone)"
  unfolding run_timers_def seqS.simps
  by (intro session_rules holds_flush_transport holds_send_probe holds_send_carrier_ping holds_check_pong holds_send_keepalive
      holds_drain_pending holds_flush_carrier holds_check_session)

section \<open>The loop\<close>

lemma holds_turn: "link_ok L \<Longrightarrow> holds (session_inv L client) (session_end L client) (tunnel_turn L)"
  unfolding tunnel_turn_def seqS.simps
  by (auto intro!: session_rules holds_check_watchdog holds_drop_delayed holds_flush_transport holds_drain_pending holds_flush_carrier
      holds_poll_step holds_read_tun holds_read_carrier holds_run_timers split: poll_outcome.splits)

lemma holds_loop: "link_ok L \<Longrightarrow> holds (session_inv L client) (session_end L client) (tunnel_loop_n L n)"
  by (induction n) (auto intro!: session_rules holds_turn)

lemma session_start:
  assumes "ws_invar client w" "pending w = []"
  shows "session_inv L client (start_tunnel L t j1 j2 key w st)"
  using assms
  by (simp add: start_tunnel_def Let_def session_parts limits_ok_def records_ok_def ahead_def stream_ok_def wire_ok_def framed_def fq_inv_new new_queue_def binaries_def)
    (auto simp: fq_inv_new [unfolded new_queue_def] intro: exI [of _ "[]"])

lemma timeout_ok: "ws_invar client (w\<lparr>io_timeout_ms := n\<rparr>) = ws_invar client w" "pending (w\<lparr>io_timeout_ms := n\<rparr>) = pending w"
  by (simp_all add: ws_invar_def tx_ok_def pending_def)

text \<open>What is true of the state when the loop ends, in whichever way.\<close>

lemma session_result:
  assumes "link_ok L" "ws_invar client w" "pending w = []" "tunnel_loop_n L n (start_tunnel L t j1 j2 key w st) = (s, r)"
  shows "session_end L client s"
  using holdsD [OF holds_loop [OF assms(1)] session_start [OF assms(2,3)]] assms(4) session.weaker by (cases r) blast+

section \<open>A concrete session\<close>

text \<open>A server without padding, on a transport that takes everything; the TUN device always has one more packet.\<close>

definition demo_world :: world where
  "demo_world = \<lparr>w_clock = (\<lambda>k. 100000000), w_pad = (\<lambda>_. demo_rng), w_mask = (\<lambda>_. None), w_jitter = (\<lambda>_ _. 0),
     w_delay = (\<lambda>_ _. 0), w_io = (\<lambda>_ _ c. (Wrote (length c), 100000)), w_ready = (\<lambda>_. True), w_reads = (\<lambda>_ _. RAgain 1),
     w_read_env = (\<lambda>_ _. (None, 100000)), w_poll = (\<lambda>_ _ _. Polled False False True), w_tun_read = (\<lambda>_. TunPacket demo_packet),
     w_tun_write = (\<lambda>_ _. True), w_tick = (\<lambda>_. None), w_force = (\<lambda>_. False)\<rparr>"

definition demo_cfg :: config where
  "demo_cfg = (default_config ('''', False, 0, 0, 0, 0))\<lparr>adaptive_batching := False, batch_packets := 1\<rparr>"

definition demo_link :: link where
  "demo_link = \<lparr>lk_cfg = demo_cfg, lk_crypto = demo_crypto, lk_round = (\<lambda>x. x), lk_tx_key = demo_key, lk_world = demo_world\<rparr>"

definition demo_start :: tunnel where
  "demo_start = start_tunnel demo_link 100000000 (\<lambda>_. 0) (\<lambda>_. 0) demo_key (new_session False) new_stats"

lemma demo_link_simps [simp]:
  "lk_cfg demo_link = demo_cfg" "lk_crypto demo_link = demo_crypto" "lk_round demo_link = (\<lambda>x. x)" "lk_tx_key demo_link = demo_key"
  "w_clock (lk_world demo_link) = (\<lambda>k. 100000000)" "w_pad (lk_world demo_link) = (\<lambda>_. demo_rng)" "w_mask (lk_world demo_link) = (\<lambda>_. None)"
  "w_jitter (lk_world demo_link) = (\<lambda>_ _. 0)" "w_delay (lk_world demo_link) = (\<lambda>_ _. 0)" "w_io (lk_world demo_link) = (\<lambda>_ _ c. (Wrote (length c), 100000))"
  "w_ready (lk_world demo_link) = (\<lambda>_. True)" "w_reads (lk_world demo_link) = (\<lambda>_ _. RAgain 1)" "w_read_env (lk_world demo_link) = (\<lambda>_ _. (None, 100000))"
  "w_poll (lk_world demo_link) = (\<lambda>_ _ _. Polled False False True)" "w_tun_read (lk_world demo_link) = (\<lambda>_. TunPacket demo_packet)"
  "w_tick (lk_world demo_link) = (\<lambda>_. None)" "w_force (lk_world demo_link) = (\<lambda>_. False)"
  by (simp_all add: demo_link_def demo_world_def)

lemma demo_cfg_simps [simp]:
  "queue_packets demo_cfg = 4096" "queue_bytes demo_cfg = 8388608" "websocket_ping_sec demo_cfg = 0" "flow_scheduler demo_cfg = False"
  "traffic_shaping demo_cfg = False" "websocket_padding_max_bytes demo_cfg = 0" "websocket_control_padding_bytes demo_cfg = 0"
  "batch_bytes demo_cfg = 16384" "adaptive_batching demo_cfg = False" "batch_packets demo_cfg = 1" "websocket_io_timeout_sec demo_cfg = 30"
  "reply_degraded_sec demo_cfg = 10" "reply_timeout_sec demo_cfg = 60" "queue_delay_ms demo_cfg = 500" "websocket_poll_ms demo_cfg = 5"
  "keepalive_sec demo_cfg = 10" "session_max_age_sec demo_cfg = 0" "idle_timeout_sec demo_cfg = 300" "rtt_probe_sec demo_cfg = 30"
  "timing_jitter_pct demo_cfg = 15" "websocket_pong_timeout_sec demo_cfg = 0" "padding_budget_pct demo_cfg = 10"
  by (simp_all add: demo_cfg_def default_config_def)

lemma demo_link_ok [simp]: "link_ok demo_link"
  by (simp add: link_ok_def mask4_def io_ok_def)

definition demo_rec :: bytes where "demo_rec = projr (encode_record_v5 demo_crypto demo_key 1 demo_packet 0)"

lemma demo_rec: "encode_record_v5 demo_crypto demo_key 1 demo_packet 0 = Inr demo_rec" "length demo_rec = 52" "demo_rec \<noteq> []"
  by (simp_all add: demo_rec_def demo_eval)

lemmas run_simps = bindS_def thenS_def retS_def modS_def withS_def skipS_def throwS_def whenS_def ask_def now_def stat_def logS_def fail_def

lemmas carrier_run = flush_transport_def carrier_flush_step_def sync_carrier_tx_def carrier_flush_def websocket_flush_def flush_loop.simps
  carrier_counters_of_def carrier_tx_pending_def carrier_tx_pending_bytes_def websocket_tx_pending_def websocket_tx_queued_bytes_def
  carrier_tx_stalled_def websocket_tx_stalled_def new_session_def

text \<open>One turn of this session reads a packet, makes a record of it and puts it on the wire.\<close>

lemma demo_turn: "\<exists>s. tunnel_turn demo_link demo_start = (s, Inr ()) \<and> t_sent s = [demo_rec] \<and>
    t_log s = [(1, 0, demo_packet, demo_rec)] \<and> t_wire s = 0x82 # 52 # demo_rec \<and> pending (t_carrier s) = [] \<and> t_q s = [] \<and> \<not> close_received (t_carrier s)"
  apply (simp add: tunnel_turn_def check_watchdog_def run_simps Let_def wd_age_us_def demo_start_def start_tunnel_def
      drop_delayed_def note_queues_def new_queue_def effective_batch_packets_def elapsed_ms_def elapsed_def)
  apply (simp add: carrier_run run_simps Let_def)
  apply (simp add: drain_pending_def flush_carrier_def poll_step_def run_simps carrier_run Let_def fq_empty_def)
  apply (simp add: read_tun_def run_simps Let_def)
  apply (simp add: enqueue_packet_def encode_def padding_maximum_def padding_allowance_def next_sequence_def choose_record_def run_simps
      Let_def spend_padding_def demo_rec put_queue_def enqueue_def data_allowance_def shape_allowance_def new_padding_budget_def new_shape_budget_def)
  apply (simp add: flush_carrier_def run_simps carrier_run Let_def demo_rec)
  apply (simp add: shaper_ready_def batch_limit_def effective_batch_packets_def run_simps Let_def demo_rec)
  apply (simp add: send_message_def run_simps carrier_send_def websocket_send_binary_def queue_frame_def make_frame_def length_bytes_def
      is_control_def kMaxWsTxBytes_def kMaxWsMessageBytes_def demo_rec split: if_splits)
  apply (simp add: flush_transport_def carrier_flush_step_def carrier_flush_def websocket_flush_def run_simps)
  apply (subst flush_loop.simps, simp add: Let_def demo_rec account_completed_frame_def)
  apply (subst flush_loop.simps, simp add: Let_def demo_rec)
  apply (simp add: sync_carrier_tx_def carrier_counters_of_def carrier_tx_pending_bytes_def websocket_tx_queued_bytes_def
      carrier_tx_stalled_def websocket_tx_stalled_def run_simps Let_def)
  apply (simp add: read_carrier_def carrier_read_def websocket_read_messages_def ws_fill.simps parse_loop.simps parse_frame_def
      carrier_take_pongs_def websocket_take_pongs_def run_simps Let_def carrier_counters_of_def)
  apply (simp add: run_timers_def carrier_run run_simps Let_def)
  apply (simp add: send_probe_def send_carrier_ping_def check_pong_def send_keepalive_def check_session_def run_simps Let_def
      elapsed_ms_def elapsed_sec_def elapsed_def traffic_interval_ms_def pending_def)
  done

lemma demo_run:
  obtains s where "tunnel_loop_n demo_link 1 demo_start = (s, Inr ())" "t_sent s = [demo_rec]"
    "t_log s = [(1, 0, demo_packet, demo_rec)]" "t_wire s = 0x82 # 52 # demo_rec" "pending (t_carrier s) = []" "t_q s = []"
    "\<not> close_received (t_carrier s)"
  using demo_turn by (auto simp: thenS_def bindS_def skipS_def retS_def)

section \<open>Properties\<close>

text \<open>
  C4: limits of a session. After any number of turns, and also when a turn ends in an exception, the transmit queue
  holds at most \<open>queue_packets\<close> records and \<open>queue_bytes\<close> bytes and its byte count is exact; the flow queue keeps
  its own invariant and the same limits; and the carrier never holds more than its limit.
\<close>

theorem session_bounds:
  assumes "link_ok L" "ws_invar client w" "pending w = []" "tunnel_loop_n L n (start_tunnel L t j1 j2 key w st) = (s, r)"
  shows "length (t_q s) \<le> queue_packets (lk_cfg L) \<and> t_queued_bytes s = total (t_q s) \<and> t_queued_bytes s \<le> queue_bytes (lk_cfg L) \<and>
    fq_inv (t_pending s) \<and> fq_packets (t_pending s) \<le> queue_packets (lk_cfg L) \<and> fq_bytes (t_pending s) \<le> queue_bytes (lk_cfg L) \<and>
    carrier_tx_pending_bytes (t_carrier s) \<le> kMaxWsTxBytes"
proof -
  have e: "session_end L client s" by (rule session_result [OF assms])
  then have "ws_invar client (t_carrier s)" by (simp add: session_end_def wire_ok_def framed_def)
  with e show ?thesis using wsc.limit_law by (simp add: session_end_def limits_ok_def queue_ok_def)
qed

theorem session_bounds_witness:
  "\<exists>s. tunnel_loop_n demo_link 1 demo_start = (s, Inr ()) \<and> t_sent s = [demo_rec] \<and> length (t_q s) \<le> 4096 \<and> t_queued_bytes s \<le> 8388608"
proof (rule demo_run)
  fix s assume s: "tunnel_loop_n demo_link 1 demo_start = (s, Inr ())" "t_sent s = [demo_rec]"
  with session_bounds [where client = False and n = 1, OF demo_link_ok new_session_invar] show ?thesis
    unfolding demo_start_def by fastforce
qed

text \<open>
  C2: no nonce is used twice. However long a session runs and however it ends, even past the point where the 64-bit
  counter would wrap, the sequence numbers of the records it made strictly increase, and
  every record is what one of the PTT5 encoders makes of its message under the transmit key.
\<close>

theorem session_sequence:
  assumes "link_ok L" "ws_invar client w" "pending w = []" "tunnel_loop_n L n (start_tunnel L t j1 j2 key w st) = (s, r)"
  shows "sorted_wrt (<) (map fst (t_log s)) \<and>
    (\<forall>(q, f, p, rec) \<in> set (t_log s). sent_v5 (lk_crypto L) (lk_tx_key L) rec (f, q, p))"
  using session_result [OF assms] by (auto simp: session_end_def records_ok_def made_ok_def)

theorem session_sequence_witness:
  "\<exists>s. tunnel_loop_n demo_link 1 demo_start = (s, Inr ()) \<and> t_log s = [(1, 0, demo_packet, demo_rec)] \<and>
    sent_v5 demo_crypto demo_key demo_rec (0, 1, demo_packet)"
proof (rule demo_run)
  fix s assume s: "tunnel_loop_n demo_link 1 demo_start = (s, Inr ())" "t_log s = [(1, 0, demo_packet, demo_rec)]"
  with session_sequence [where client = False and n = 1, OF demo_link_ok new_session_invar] show ?thesis
    unfolding demo_start_def by fastforce
qed

text \<open>
  C3: what is on the wire. The bytes the transport took, followed by those still queued in the carrier, are whole
  WebSocket frames; their binary messages are runs of whole records, at most \<open>batch_bytes\<close> long, in the order in
  which the records were made, and the records still queued come later in that order. A ping occurs
  only if pings are configured, a close frame only after the peer's.
\<close>

theorem session_wire:
  assumes "link_ok L" "ws_invar client w" "pending w = []" "tunnel_loop_n L n (start_tunnel L t j1 j2 key w st) = (s, r)"
  shows "\<exists>ds fs xss ys. list_all2 (wire_frame client) ds fs \<and> t_wire s @ pending (t_carrier s) = concat ds \<and>
    binaries fs = map (\<lambda>xs. concat (map rec_of xs)) xss \<and> (\<forall>m \<in> set (binaries fs). length m \<le> batch_bytes (lk_cfg L)) \<and>
    map qd_data (t_q s) = map rec_of ys \<and> subseq (concat xss @ ys) (t_log s) \<and>
    (9 \<in> fst ` set fs \<longrightarrow> websocket_ping_sec (lk_cfg L) > 0) \<and> (8 \<in> fst ` set fs \<longrightarrow> close_received (t_carrier s))"
proof -
  have e: "session_end L client s" by (rule session_result [OF assms])
  then obtain xss ys where x: "subseq (concat xss @ ys) (t_log s)" "t_sent s = map (\<lambda>xs. concat (map rec_of xs)) xss"
    "map qd_data (t_q s) = map rec_of ys" by (auto simp: session_end_def stream_ok_def)
  obtain ds fs where f: "list_all2 (wire_frame client) ds fs" "t_wire s @ pending (t_carrier s) = concat ds" "binaries fs = t_sent s"
    "8 \<in> fst ` set fs \<longrightarrow> close_received (t_carrier s)" "9 \<in> fst ` set fs \<longrightarrow> websocket_ping_sec (lk_cfg L) > 0"
    "\<forall>m \<in> set (t_sent s). length m \<le> batch_bytes (lk_cfg L)" using e by (auto simp: session_end_def wire_ok_def framed_def)
  show ?thesis using x f by (intro exI [of _ ds] exI [of _ fs] exI [of _ xss] exI [of _ ys]) simp
qed

theorem session_wire_witness:
  "\<exists>s ds fs. tunnel_loop_n demo_link 1 demo_start = (s, Inr ()) \<and> t_wire s = 0x82 # 52 # demo_rec \<and> list_all2 (wire_frame False) ds fs \<and>
    t_wire s = concat ds \<and> 9 \<notin> fst ` set fs"
proof (rule demo_run)
  fix s assume s: "tunnel_loop_n demo_link 1 demo_start = (s, Inr ())" "t_wire s = 0x82 # 52 # demo_rec" "pending (t_carrier s) = []"
  have "websocket_ping_sec (lk_cfg demo_link) = 0" by simp
  with s session_wire [where client = False and n = 1, OF demo_link_ok new_session_invar] show ?thesis
    unfolding demo_start_def by fastforce
qed

end
