(* ===== verification/EndToEnd.thy ===== *)
theory EndToEnd
  imports TunnelProps
begin

text \<open>
  The way of a packet from one process to the other: the sender's loop, its carrier, a transport that delivers some
  prefix of the bytes in any chunks, the receiver's WebSocket session and its record decoder.
\<close>

definition message_of :: "u64 \<times> byte \<times> bytes \<times> bytes \<Rightarrow> delivery" where
  "message_of e = (case e of (q, f, p, r) \<Rightarrow> (f, q, p))"

lemma seq_of_message [simp]: "seq_of (message_of e) = fst e"
  by (cases e) (simp add: message_of_def)

lemma subseq_set: "subseq xs ys \<Longrightarrow> set xs \<subseteq> set ys"
  by (induction rule: list_emb.induct) auto

lemma subseq_sorted_wrt: "subseq xs ys \<Longrightarrow> sorted_wrt R ys \<Longrightarrow> sorted_wrt R xs"
  by (induction rule: list_emb.induct) (auto dest: subseq_set)

lemma wire_sent_frame: "wire_frame client d f \<Longrightarrow> fst f \<noteq> 8 \<Longrightarrow> sent_frame client d f"
  by (auto simp: wire_frame_def sent_frame_def)

lemma sent_frame_nonempty: "sent_frame client d f \<Longrightarrow> d \<noteq> []"
  by (auto simp: sent_frame_def make_frame_def length_bytes_def Let_def result_iff split: if_splits)

lemma wire_sent_frames:
  "list_all2 (wire_frame client) ds fs \<Longrightarrow> 8 \<notin> fst ` set fs \<Longrightarrow> list_all2 (sent_frame client) ds fs"
  by (induction rule: list_all2_induct) (auto intro: wire_sent_frame)

lemma binaries_set: "f \<in> set fs \<Longrightarrow> fst f = 2 \<Longrightarrow> snd f \<in> set (binaries fs)"
  by (auto simp: binaries_def)

lemma binaries_take: "\<exists>j. binaries (take k fs) = take j (binaries fs)"
proof -
  have "binaries fs = binaries (take k fs) @ binaries (drop k fs)" by (simp flip: binaries_append)
  then have "binaries (take k fs) = take (length (binaries (take k fs))) (binaries fs)" by simp
  then show ?thesis by blast
qed

lemma concat_runs: "concat (map (\<lambda>xs. concat (map f xs)) xss) = concat (map f (concat xss))"
  by (induction xss) simp_all

lemma made_sent:
  assumes "\<forall>e \<in> set es. made_ok L e"
  shows "list_all2 (sent_v5 (lk_crypto L) (lk_tx_key L)) (map rec_of es) (map message_of es)"
  using assms by (induction es) (auto simp: made_ok_def rec_of_def message_of_def)

text \<open>A session that has read nothing yet.\<close>

definition idle_session :: "bool \<Rightarrow> ws_session \<Rightarrow> bool" where
  "idle_session client v \<longleftrightarrow> ws_client v = client \<and> fragment_opcode v = 0 \<and> \<not> peer_eof v \<and> \<not> close_received v \<and>
     prefetched_messages v = [] \<and> ws_rx v = []"

lemma nothing_awaited:
  assumes "awaiting client ds v" "list_all2 (sent_frame client) ds fs" "concat ds = ws_rx v"
  shows "ds = []"
proof (rule ccontr)
  assume "ds \<noteq> []"
  then obtain a as where ds: "ds = a # as" by (cases ds) auto
  then obtain g where "sent_frame client a g" using assms(2) by (auto simp: list_all2_Cons1)
  then have "a \<noteq> []" by (rule sent_frame_nonempty)
  moreover have "ws_rx v = [] \<or> length (ws_rx v) < length (hd ds)" using assms(1) prefix_length_less unfolding awaiting_def by blast
  ultimately show False using ds assms(3) [symmetric] by simp
qed

text \<open>What a receiving session makes of the wire: whole messages that were sent, from the first one on.\<close>

lemma session_received:
  assumes e: "session_end L client s" and "websocket_ping_sec (lk_cfg L) = 0" "\<not> close_received (t_carrier s)"
    and "idle_session (\<not> client) v" "batch_bytes (lk_cfg L) \<le> frame_limit v" "125 \<le> frame_limit v"
    and "\<forall>(cs, env) \<in> set polls. one_poll cs" "prefix (received_bytes polls) (t_wire s)"
  obtains v' j where "recv_run v polls = (v', Inr (take j (t_sent s)))"
    "received_bytes polls = t_wire s \<and> pending (t_carrier s) = [] \<longrightarrow> take j (t_sent s) = t_sent s"
proof -
  obtain ds fs where f: "list_all2 (wire_frame client) ds fs" "t_wire s @ pending (t_carrier s) = concat ds" "binaries fs = t_sent s"
    "8 \<notin> fst ` set fs" "9 \<notin> fst ` set fs" "\<forall>m \<in> set (t_sent s). length m \<le> batch_bytes (lk_cfg L)"
    using e assms(2,3) by (auto simp: session_end_def wire_ok_def framed_def)
  have sf: "list_all2 (sent_frame client) ds fs" using wire_sent_frames [OF f(1,4)] .
  have small: "\<forall>f \<in> set fs. length (snd f) \<le> frame_limit v"
  proof
    fix f0 assume a: "f0 \<in> set fs"
    then obtain d where "sent_frame client d f0" using sf by (auto simp: list_all2_conv_all_nth in_set_conv_nth)
    then show "length (snd f0) \<le> frame_limit v"
      using binaries_set [OF a] sent_control_short [of client d f0] f(3,6) assms(5,6) by (cases "fst f0 = 2") fastforce+
  qed
  have aw: "awaiting client ds v" "ws_rx v = []" using assms(4) by (auto simp: awaiting_def idle_session_def)
  have p: "prefix (ws_rx v @ received_bytes polls) (concat ds)" using assms(8) f(2) aw(2) by (metis append_Nil prefix_order.trans prefixI)
  have "ping_payloads fs = []" using f(5) by (force simp: ping_payloads_def filter_empty_conv)
  then have "pong_room client fs v" "\<forall>(cs, env) \<in> set polls. one_poll cs \<and> pong_masks client fs env"
    using assms(7) by (auto simp: pong_room_def pong_masks_def)
  from recv_run_frames [OF aw(1) sf this(1) small this(2) p] obtain v' k where
    r: "recv_run v polls = (v', Inr (binaries (take k fs)))" and k: "k \<le> length ds" "received_bytes polls = concat (take k ds) @ ws_rx v'"
      "awaiting client (drop k ds) v'" using aw(2) by auto
  obtain j where j: "binaries (take k fs) = take j (t_sent s)" using binaries_take [of k fs] f(3) by auto
  have "take j (t_sent s) = t_sent s" if "received_bytes polls = t_wire s" "pending (t_carrier s) = []"
  proof -
    have "concat ds = concat (take k ds) @ ws_rx v'" using that f(2) k(2) by simp
    then have "concat (drop k ds) = ws_rx v'" by (metis append_take_drop_id concat_append same_append_eq)
    then have "drop k ds = []" by (rule nothing_awaited [OF k(3) list_all2_dropI [OF sf]])
    then have "take k fs = fs" using list_all2_lengthD [OF sf] by simp
    then show ?thesis using j f(3) by simp
  qed
  then show ?thesis using r j by (intro that) auto
qed

text \<open>What a decoder makes of these messages: records of the session, in order.\<close>

lemma session_decoded:
  assumes e: "session_end L client s" and "aead_ok (lk_crypto L)" "65567 + batch_bytes (lk_cfg L) \<le> mx"
    and "\<forall>m \<in> set (t_sent s). length m \<le> batch_bytes (lk_cfg L)"
  shows "\<exists>d es. feed_all (feed_v5 (lk_crypto L)) (new_decoder (lk_tx_key L) mx) (take j (t_sent s)) = (d, map message_of es, FeedOk) \<and>
    subseq es (t_log s) \<and> concat (take j (t_sent s)) = concat (map rec_of es)"
proof -
  obtain xss ys where x: "subseq (concat xss @ ys) (t_log s)" "t_sent s = map (\<lambda>xs. concat (map rec_of xs)) xss"
    using e by (auto simp: session_end_def stream_ok_def)
  let ?es = "concat (take j xss)"
  have "subseq ?es (concat xss @ ys)"
    by (metis append.assoc append_take_drop_id concat_append list_emb_append2 prefixI prefix_imp_subseq)
  then have sub: "subseq ?es (t_log s)" using x(1) subseq_order.trans by blast
  have made: "\<forall>e \<in> set ?es. made_ok L e" using subseq_set [OF sub] e by (auto simp: session_end_def records_ok_def)
  have "sorted_wrt (<) (map fst ?es)"
    using e subseq_map [OF sub, of fst] by (auto simp: session_end_def records_ok_def intro: subseq_sorted_wrt)
  then have so: "sorted_wrt (<) (map seq_of (map message_of ?es))" by (simp add: comp_def)
  have c: "concat (take j (t_sent s)) = concat (map rec_of ?es)" using x(2) by (simp add: take_map concat_runs)
  have v: "list_all2 (valid_record (lk_crypto L) PTT5 (lk_tx_key L)) (map rec_of ?es) (map message_of ?es)"
    using made_sent [OF made] by (rule list_all2_mono) (rule sent_v5_valid [OF assms(2)])
  have room: "\<forall>m \<in> set (take j (t_sent s)). 65567 + length m \<le> mx" using assms(3,4) by (fastforce dest: in_set_takeD)
  show ?thesis using aead_stream [OF v so c room] sub c unfolding feed_aead_wire by blast
qed

text \<open>
  C1: end to end. A sender runs for any number of turns and may end in any way; carrier pings are off and the peer
  has not closed. Whatever prefix of its bytes the transport delivers, in whatever chunks, the receiver reads
  messages and decodes from them, without error, a subsequence of the messages the sender made into records,
  each at most once and in order: exactly those whose records make up the bytes of the messages read. If
  everything that was sent arrived, these are all messages the sender handed to its carrier.
\<close>

theorem end_to_end:
  assumes "link_ok L" "aead_ok (lk_crypto L)" "ws_invar client w" "pending w = []"
    and "tunnel_loop_n L n (start_tunnel L t j1 j2 key w st) = (s, r)"
    and "websocket_ping_sec (lk_cfg L) = 0" "\<not> close_received (t_carrier s)"
    and "idle_session (\<not> client) v" "batch_bytes (lk_cfg L) \<le> frame_limit v" "125 \<le> frame_limit v"
    and "\<forall>(cs, env) \<in> set polls. one_poll cs" "prefix (received_bytes polls) (t_wire s)"
    and "65567 + batch_bytes (lk_cfg L) \<le> mx"
  shows "\<exists>v' ms d es. recv_run v polls = (v', Inr ms) \<and>
    feed_all (feed_v5 (lk_crypto L)) (new_decoder (lk_tx_key L) mx) ms = (d, map message_of es, FeedOk) \<and> subseq es (t_log s) \<and>
    concat ms = concat (map rec_of es) \<and> (received_bytes polls = t_wire s \<and> pending (t_carrier s) = [] \<longrightarrow> ms = t_sent s)"
proof -
  have e: "session_end L client s" by (rule session_result [OF assms(1,3,4,5)])
  then have b: "\<forall>m \<in> set (t_sent s). length m \<le> batch_bytes (lk_cfg L)" by (simp add: session_end_def wire_ok_def)
  obtain v' j where "recv_run v polls = (v', Inr (take j (t_sent s)))"
    "received_bytes polls = t_wire s \<and> pending (t_carrier s) = [] \<longrightarrow> take j (t_sent s) = t_sent s"
    by (rule session_received [OF e assms(6-12)])
  then show ?thesis using session_decoded [OF e assms(2,13) b, of j] by blast
qed

definition demo_receiver :: ws_session where
  "demo_receiver = (new_session True)\<lparr>ws_authenticated := True\<rparr>"

theorem end_to_end_witness:
  "\<exists>s v' d. tunnel_loop_n demo_link 1 demo_start = (s, Inr ()) \<and> t_log s = [(1, 0, demo_packet, demo_rec)] \<and>
    recv_run demo_receiver [([take 30 (t_wire s)], \<lambda>_. (None, 0)), ([drop 30 (t_wire s)], \<lambda>_. (None, 0))] = (v', Inr [demo_rec]) \<and>
    feed_all (feed_v5 demo_crypto) (new_decoder demo_key 262144) [demo_rec] = (d, [(0, 1, demo_packet)], FeedOk)"
proof (rule demo_run)
  fix s assume s: "tunnel_loop_n demo_link 1 demo_start = (s, Inr ())" "t_sent s = [demo_rec]" "t_log s = [(1, 0, demo_packet, demo_rec)]"
    "t_wire s = 0x82 # 52 # demo_rec" "pending (t_carrier s) = []" "\<not> close_received (t_carrier s)"
  let ?polls = "[([take 30 (t_wire s)], \<lambda>_. (None, 0)), ([drop 30 (t_wire s)], \<lambda>_. (None, 0))] :: (bytes list \<times> (nat \<Rightarrow> bytes option \<times> u64)) list"
  have v: "idle_session (\<not> False) demo_receiver" "frame_limit demo_receiver = 16777216"
    by (simp_all add: idle_session_def demo_receiver_def new_session_def frame_limit_def kMaxWsMessageBytes_def)
  have p: "\<forall>(cs, env) \<in> set ?polls. one_poll cs" "received_bytes ?polls = t_wire s"
    using s(4) demo_rec(2) by (auto simp: one_poll_def received_bytes_def)
  have run: "tunnel_loop_n demo_link 1 (start_tunnel demo_link 100000000 (\<lambda>_. 0) (\<lambda>_. 0) demo_key (new_session False) new_stats) = (s, Inr ())"
    using s(1) by (simp add: demo_start_def)
  have "\<exists>v' ms d es. recv_run demo_receiver ?polls = (v', Inr ms) \<and>
    feed_all (feed_v5 (lk_crypto demo_link)) (new_decoder (lk_tx_key demo_link) 262144) ms = (d, map message_of es, FeedOk) \<and> subseq es (t_log s) \<and>
    concat ms = concat (map rec_of es) \<and> (received_bytes ?polls = t_wire s \<and> pending (t_carrier s) = [] \<longrightarrow> ms = t_sent s)"
    by (rule end_to_end [OF demo_link_ok _ new_session_invar(1) new_session_invar(2) run _ s(6) v(1) _ _ p(1)]) (simp_all add: v(2) p(2))
  then obtain v' d es where r: "recv_run demo_receiver ?polls = (v', Inr [demo_rec])"
    "feed_all (feed_v5 demo_crypto) (new_decoder demo_key 262144) [demo_rec] = (d, map message_of es, FeedOk)" "subseq es (t_log s)"
    "demo_rec = concat (map rec_of es)" using s(2,5) p(2) by auto
  have "es = t_log s" using r(3,4) s(3) demo_rec(3) by (cases es) (auto split: if_splits)
  then show ?thesis using r(1,2) s(1,3) by (auto simp: message_of_def)
qed

end
