(* ===== verification/TlsTunnel.thy ===== *)
theory TlsTunnel
  imports RuntimeBase Records Tunnel
begin

text \<open>
  \<open>tunnel_loop\<close> of \<open>src/cdn/src/runtime.cpp\<close>, the loop of the legacy transport: PTT3 records written straight to a TLS
  stream. As in \<open>Tunnel\<close>, what comes from outside is the answers of a world. OpenSSL is not modelled: an
  attempt to write or read has one of the outcomes below.
\<close>

section \<open>World and state\<close>

datatype tls_end = TlsWant | TlsPeerClosed | TlsFailed string

text \<open>A write takes some bytes or ends; the reads of one turn give chunks until one of them ends.\<close>

datatype tls_write = TlsWrote nat | TlsNoWrite tls_end

record tls_world =
  lw_clock :: "nat \<Rightarrow> u64"
  lw_write :: "nat \<Rightarrow> bytes \<Rightarrow> tls_write"
  lw_buffered :: "nat \<Rightarrow> bool"
    \<comment> \<open>\<open>SSL_pending > 0\<close>\<close>
  lw_reads :: "nat \<Rightarrow> bytes list \<times> tls_end"
  lw_poll :: "nat \<Rightarrow> int \<Rightarrow> bool \<Rightarrow> poll_outcome"
    \<comment> \<open>the time-out and whether \<open>POLLOUT\<close> is asked for; the first flag of the outcome is \<open>POLLIN\<close>\<close>
  lw_tun_read :: "nat \<Rightarrow> tun_read"
  lw_tun_write :: "nat \<Rightarrow> bytes \<Rightarrow> bool"
  lw_force :: "nat \<Rightarrow> bool"

record tls_link =
  ll_cfg :: config
  ll_crypto :: crypto
  ll_tx_key :: bytes
  ll_world :: tls_world

text \<open>
  The variables of the loop, the counters and events, what left the process, the records made, and
  the data of a write that OpenSSL could not finish and wants to be repeated.
\<close>

record tls_tunnel =
  l_ev :: nat
  l_q :: "queued list"
  l_queued_bytes :: nat
  l_offset :: nat
  l_sequence :: u64
  l_dec :: decoder
  l_last_rx :: u64
  l_last_tx :: u64
  l_last_probe :: u64
  l_stats :: stats
  l_events :: "string list"
  l_wire :: bytes
  l_tun_out :: "bytes list"
  l_log :: "(u64 \<times> byte \<times> bytes \<times> bytes) list"
  l_retry :: "bytes option"
  l_bad_retry :: bool

datatype tls_error = TlsFail string | TlsRecord record_error | TlsDecode record_error

type_synonym 'a tls = "(tls_tunnel, tls_error, 'a) se"

definition tls_ask :: "(nat \<Rightarrow> 'a) \<Rightarrow> 'a tls" where
  "tls_ask f s = (s\<lparr>l_ev := Suc (l_ev s)\<rparr>, Inr (f (l_ev s)))"

definition tls_now :: "tls_link \<Rightarrow> u64 tls" where
  "tls_now L = tls_ask (lw_clock (ll_world L))"

definition tls_stat :: "(stats \<Rightarrow> stats) \<Rightarrow> unit tls" where
  "tls_stat f = modS (\<lambda>s. s\<lparr>l_stats := f (l_stats s)\<rparr>)"

definition tls_event :: "string \<Rightarrow> unit tls" where
  "tls_event line = modS (\<lambda>s. s\<lparr>l_events := event line (l_events s)\<rparr>)"

definition tls_fail :: "string \<Rightarrow> 'a tls" where
  "tls_fail msg = throwS (TlsFail msg)"

section \<open>Records and the queue\<close>

text \<open>The sequence number is taken before the record is made, so a failed record uses it up.\<close>

definition tls_encode :: "tls_link \<Rightarrow> bytes \<Rightarrow> byte \<Rightarrow> bytes tls" where
  "tls_encode L payload flags s =
     (let q = l_sequence s; s1 = s\<lparr>l_sequence := q + 1\<rparr> in
      case encode_record (ll_crypto L) (ll_tx_key L) q payload flags of
        Inl e \<Rightarrow> (s1, Inl (TlsRecord e))
      | Inr rec \<Rightarrow> (s1\<lparr>l_log := l_log s @ [(q, flags, payload, rec)]\<rparr>, Inr rec))"

definition tls_put :: "tls_link \<Rightarrow> bytes \<Rightarrow> bool \<Rightarrow> unit tls" where
  "tls_put L rec payload =
     bindS (tls_now L) (\<lambda>t s.
       case enqueue (ll_cfg L) (l_offset s > 0) \<lparr>qd_data = rec, qd_at = t, qd_payload = payload\<rparr> (l_q s) (l_queued_bytes s) (l_stats s) of
         (q, qb, st) \<Rightarrow> (s\<lparr>l_q := q, l_queued_bytes := qb, l_stats := st\<rparr>, Inr ()))"

definition tls_enqueue_control :: "tls_link \<Rightarrow> byte \<Rightarrow> bytes \<Rightarrow> unit tls" where
  "tls_enqueue_control L flags payload = bindS (tls_encode L payload flags) (\<lambda>rec. tls_put L rec False)"

section \<open>Writing\<close>

definition tls_wrote :: "nat \<Rightarrow> bytes \<Rightarrow> u64 \<Rightarrow> tls_tunnel \<Rightarrow> tls_tunnel" where
  "tls_wrote n rest t s =
     (let s1 = s\<lparr>l_offset := l_offset s + n, l_last_tx := t, l_wire := l_wire s @ take n rest, l_retry := None,
              l_stats := l_stats s\<lparr>st_wire_tx := st_wire_tx (l_stats s) + of_nat n\<rparr>\<rparr>;
          item = hd (l_q s) in
      if l_offset s1 = length (qd_data item)
      then let q = tl (l_q s); qb = l_queued_bytes s - length (qd_data item) in
        s1\<lparr>l_q := q, l_queued_bytes := qb, l_offset := 0,
           l_stats := l_stats s1\<lparr>st_queue_pkts := of_nat (length q), st_queue_bytes := of_nat qb\<rparr>\<rparr>
      else s1)"

text \<open>What OpenSSL asks of a caller: an unfinished write is repeated with the same data.\<close>

definition tls_attempt :: "bytes \<Rightarrow> tls_tunnel \<Rightarrow> tls_tunnel" where
  "tls_attempt rest s = s\<lparr>l_ev := Suc (l_ev s), l_bad_retry := (l_bad_retry s \<or> (\<exists>r \<in> set_option (l_retry s). r \<noteq> rest))\<rparr>"

definition tls_end_error :: "string \<Rightarrow> tls_end \<Rightarrow> string option" where
  "tls_end_error what e = (case e of TlsWant \<Rightarrow> None | TlsPeerClosed \<Rightarrow> Some ''TLS peer closed'' | TlsFailed d \<Rightarrow> Some (what @ d))"

function tls_flush_loop :: "tls_link \<Rightarrow> nat \<Rightarrow> nat \<Rightarrow> unit tls" where
  "tls_flush_loop L sent_records sent_bytes s =
     (if l_q s = [] \<or> \<not> int sent_records < max 1 (batch_packets (ll_cfg L)) \<or> \<not> sent_bytes < max 1 (batch_bytes (ll_cfg L))
      then (s, Inr ())
      else let rest = drop (l_offset s) (qd_data (hd (l_q s))); s1 = tls_attempt rest s in
        case lw_write (ll_world L) (l_ev s) rest of
          TlsWrote n \<Rightarrow>
            if n = 0 then (s1, Inl (TlsFail ''TLS write failed: ''))
            else let s2 = tls_wrote n rest (lw_clock (ll_world L) (l_ev s1)) (s1\<lparr>l_ev := Suc (l_ev s1)\<rparr>) in
              tls_flush_loop L (if l_offset s2 = 0 then sent_records + 1 else sent_records) (sent_bytes + n) s2
        | TlsNoWrite e \<Rightarrow>
            (case tls_end_error ''TLS write failed: '' e of
               None \<Rightarrow> (s1\<lparr>l_retry := Some rest\<rparr>, Inr ())
             | Some m \<Rightarrow> (s1, Inl (TlsFail m))))"
  by pat_completeness auto
termination
  by (relation "measure (\<lambda>(L, sr, sb, s). max 1 (batch_bytes (ll_cfg L)) - sb)") auto

declare tls_flush_loop.simps [simp del]

definition flush_tls :: "tls_link \<Rightarrow> unit tls" where
  "flush_tls L = tls_flush_loop L 0 0"

section \<open>The stages of a turn\<close>

fun tls_drop_old :: "config \<Rightarrow> u64 \<Rightarrow> queued list \<Rightarrow> nat \<Rightarrow> nat \<Rightarrow> stats \<Rightarrow> string list \<Rightarrow> queued list \<times> nat \<times> stats \<times> string list" where
  "tls_drop_old cfg t [] qb offset st ev = ([], qb, st, ev)"
| "tls_drop_old cfg t (x # q) qb offset st ev =
     (if offset = 0 \<and> elapsed_ms t (qd_at x) > queue_delay_ms cfg
      then tls_drop_old cfg t q (qb - length (qd_data x)) 0 (st\<lparr>st_drop_delay := st_drop_delay st + 1\<rparr>) (event ''queue_delay_drop'' ev)
      else (x # q, qb, st, ev))"

definition tls_drop_delayed :: "tls_link \<Rightarrow> u64 \<Rightarrow> unit tls" where
  "tls_drop_delayed L t = modS (\<lambda>s.
     case tls_drop_old (ll_cfg L) t (l_q s) (l_queued_bytes s) (l_offset s) (l_stats s) (l_events s) of
       (q, qb, st, ev) \<Rightarrow> s\<lparr>l_q := q, l_queued_bytes := qb, l_events := ev,
         l_stats := st\<lparr>st_queue_pkts := of_nat (length q), st_queue_bytes := of_nat qb, st_last_rx_age_ms := of_int (elapsed_ms t (l_last_rx s))\<rparr>\<rparr>)"

definition tls_poll :: "tls_link \<Rightarrow> poll_outcome tls" where
  "tls_poll L = withS (\<lambda>s.
     let timeout_ms = (if l_q s = [] then min 10 (max 1 (websocket_poll_ms (ll_cfg L))) else 0) in
     tls_ask (\<lambda>k. lw_poll (ll_world L) k timeout_ms (l_q s \<noteq> [])))"

fun tls_read_tun :: "tls_link \<Rightarrow> nat \<Rightarrow> unit tls" where
  "tls_read_tun L 0 = skipS"
| "tls_read_tun L (Suc n) =
     bindS (tls_ask (lw_tun_read (ll_world L))) (\<lambda>r.
       case r of
         TunPacket p \<Rightarrow>
           seqS
            [tls_stat (\<lambda>st. st\<lparr>st_tun_in_bytes := st_tun_in_bytes st + of_nat (length p), st_tun_in_pkts := st_tun_in_pkts st + 1\<rparr>),
             bindS (tls_encode L p 0) (\<lambda>rec.
               thenS (tls_stat (\<lambda>st. st\<lparr>st_payload_tx := st_payload_tx st + of_nat (length p)\<rparr>)) (tls_put L rec True)),
             tls_read_tun L n]
       | TunAgain \<Rightarrow> skipS
       | TunStopped \<Rightarrow> skipS
       | TunClosed \<Rightarrow> tls_fail ''TUN closed''
       | TunFailed \<Rightarrow> tls_fail ''TUN read failed: '')"

definition tls_on_record :: "tls_link \<Rightarrow> delivery \<Rightarrow> unit tls" where
  "tls_on_record L r =
     (case r of (flags, _, payload) \<Rightarrow>
      if flags = 0 then
        bindS (tls_ask (lw_tun_write (ll_world L))) (\<lambda>write.
          if write payload
          then thenS (modS (\<lambda>s. s\<lparr>l_tun_out := l_tun_out s @ [payload]\<rparr>))
            (tls_stat (\<lambda>st. st\<lparr>st_tun_out_bytes := st_tun_out_bytes st + of_nat (length payload),
               st_tun_out_pkts := st_tun_out_pkts st + 1, st_payload_rx := st_payload_rx st + of_nat (length payload)\<rparr>))
          else tls_stat (\<lambda>st. st\<lparr>st_drop_malformed := st_drop_malformed st + 1\<rparr>))
      else if flags AND RECORD_KEEPALIVE \<noteq> 0 then tls_stat (\<lambda>st. st\<lparr>st_keepalive_rx := st_keepalive_rx st + 1\<rparr>)
      else if flags AND RECORD_PING \<noteq> 0 then
        seqS [tls_stat (\<lambda>st. st\<lparr>st_ping_rx := st_ping_rx st + 1\<rparr>), tls_enqueue_control L RECORD_PONG payload,
              tls_stat (\<lambda>st. st\<lparr>st_pong_tx := st_pong_tx st + 1\<rparr>)]
      else if flags AND RECORD_PONG \<noteq> 0 then
        thenS (tls_stat (\<lambda>st. st\<lparr>st_pong_rx := st_pong_rx st + 1\<rparr>))
          (whenS (length payload = 8) (bindS (tls_now L) (\<lambda>current.
             let sent = decode_u64 payload in
             whenS (current \<ge> sent) (tls_stat (\<lambda>st. st\<lparr>st_rtt_us := uint (current - sent)\<rparr>)))))
      else skipS)"

text \<open>One successful read.\<close>

definition tls_on_bytes :: "tls_link \<Rightarrow> bytes \<Rightarrow> unit tls" where
  "tls_on_bytes L b =
     bindS (tls_now L) (\<lambda>t. thenS (modS (\<lambda>s. s\<lparr>l_last_rx := t, l_stats := l_stats s\<lparr>st_wire_rx := st_wire_rx (l_stats s) + of_nat (length b)\<rparr>\<rparr>))
      (withS (\<lambda>s0.
        case feed_v3 (ll_crypto L) (l_dec s0) b of
          (d, records, outcome) \<Rightarrow>
            let gaps = sequence_gaps d - sequence_gaps (l_dec s0); replays = replay_drops d - replay_drops (l_dec s0) in
            thenS (eachS (tls_on_record L) records)
            (thenS (modS (\<lambda>s. s\<lparr>l_dec := d\<rparr>))
            (case outcome of
               FeedOk \<Rightarrow> tls_stat (\<lambda>st. st\<lparr>st_sequence_gap := st_sequence_gap st + gaps\<rparr>)
             | FeedThrow e \<Rightarrow> throwS (TlsDecode e)
             | FeedError e \<Rightarrow>
                 seqS
                  [tls_stat (\<lambda>st. st\<lparr>st_replay_drop := st_replay_drop st + replays, st_sequence_gap := st_sequence_gap st + gaps\<rparr>),
                   tls_stat (if e = AuthFailed then (\<lambda>st. st\<lparr>st_auth_fail := st_auth_fail st + 1\<rparr>)
                     else if e \<noteq> ReplayDetected then (\<lambda>st. st\<lparr>st_drop_malformed := st_drop_malformed st + 1\<rparr>) else (\<lambda>st. st)),
                   tls_event ''decoder_error'', throwS (TlsDecode e)])))))"

definition tls_read :: "tls_link \<Rightarrow> bool \<Rightarrow> unit tls" where
  "tls_read L readable =
     bindS (tls_ask (lw_buffered (ll_world L))) (\<lambda>buffered.
       whenS (readable \<or> buffered) (bindS (tls_ask (lw_reads (ll_world L))) (\<lambda>r.
         case r of (chunks, e) \<Rightarrow>
           thenS (eachS (tls_on_bytes L) chunks)
             (case tls_end_error ''TLS read failed: '' e of None \<Rightarrow> skipS | Some m \<Rightarrow> tls_fail m))))"

definition tls_timers :: "tls_link \<Rightarrow> bool \<Rightarrow> unit tls" where
  "tls_timers L gone =
     bindS (tls_now L) (\<lambda>t.
       let cfg = ll_cfg L in
       seqS
        [withS (\<lambda>s. whenS (rtt_probe_sec cfg > 0 \<and> elapsed_sec t (l_last_probe s) \<ge> rtt_probe_sec cfg)
           (bindS (tls_now L) (\<lambda>token. seqS
             [tls_enqueue_control L RECORD_PING (encode_u64 token), tls_stat (\<lambda>st. st\<lparr>st_ping_tx := st_ping_tx st + 1\<rparr>),
              modS (\<lambda>s. s\<lparr>l_last_probe := t\<rparr>)]))),
         withS (\<lambda>s. whenS (keepalive_sec cfg > 0 \<and> l_q s = [] \<and> elapsed_sec t (l_last_tx s) \<ge> keepalive_sec cfg)
           (seqS [tls_enqueue_control L RECORD_KEEPALIVE [], tls_stat (\<lambda>st. st\<lparr>st_keepalive_tx := st_keepalive_tx st + 1\<rparr>)])),
         withS (\<lambda>s. whenS (l_q s \<noteq> []) (flush_tls L)),
         withS (\<lambda>s. whenS (elapsed_sec t (l_last_rx s) > idle_timeout_sec cfg) (tls_fail ''idle timeout'')),
         whenS gone (tls_fail ''TLS socket closed'')])"

definition tls_turn :: "tls_link \<Rightarrow> unit tls" where
  "tls_turn L =
     bindS (tls_ask (lw_force (ll_world L))) (\<lambda>force.
     thenS (whenS force (tls_fail ''control requested reconnect''))
     (bindS (tls_now L) (\<lambda>t.
     thenS (tls_drop_delayed L t)
     (bindS (tls_poll L) (\<lambda>p.
      case p of
        PollFailed \<Rightarrow> tls_fail ''poll failed''
      | PollInterrupted \<Rightarrow> skipS
      | Polled readable gone tun_ready \<Rightarrow>
          seqS [whenS tun_ready (tls_read_tun L (nat (max 1 (batch_packets (ll_cfg L))))), tls_read L readable, tls_timers L gone])))))"

fun tls_loop_n :: "tls_link \<Rightarrow> nat \<Rightarrow> unit tls" where
  "tls_loop_n L 0 = skipS"
| "tls_loop_n L (Suc n) = thenS (tls_turn L) (tls_loop_n L n)"

definition start_tls :: "tls_link \<Rightarrow> u64 \<Rightarrow> bytes \<Rightarrow> stats \<Rightarrow> tls_tunnel" where
  "start_tls L t rx_key st =
     \<lparr>l_ev = 0, l_q = [], l_queued_bytes = 0, l_offset = 0, l_sequence = 1, l_dec = new_decoder rx_key (max_record_buffer_bytes (ll_cfg L)),
      l_last_rx = t, l_last_tx = t, l_last_probe = t, l_stats = st, l_events = [], l_wire = [], l_tun_out = [], l_log = [],
      l_retry = None, l_bad_retry = False\<rparr>"

end
