(* ===== verification/TlsProps.thy ===== *)
theory TlsProps
  imports TlsTunnel TunnelProps
begin

text \<open>
  The legacy loop: the TLS stream consists of whole records in order, and a record of which a part is written is
  neither dropped nor replaced; the limits of its queue; and how OpenSSL's demand on unfinished writes is missed.
\<close>

section \<open>Steps that do not touch queue, stream and records\<close>

definition tls_vital :: "tls_tunnel \<Rightarrow> queued list \<times> nat \<times> nat \<times> u64 \<times> bytes \<times> (u64 \<times> byte \<times> bytes \<times> bytes) list" where
  "tls_vital s = (l_q s, l_queued_bytes s, l_offset s, l_sequence s, l_wire s, l_log s)"

definition tls_same :: "tls_tunnel \<Rightarrow> tls_tunnel \<Rightarrow> bool" where
  "tls_same s s' \<longleftrightarrow> tls_vital s' = tls_vital s"

lemmas tls_same_simps = tls_same_def tls_vital_def

interpretation tls_idle: preserved tls_same
  by unfold_locales (simp_all add: tls_same_def)

lemma tls_idle_ask: "keeps tls_same (tls_ask f)"
  by (simp add: keeps_def tls_ask_def tls_same_simps)

lemma tls_idle_now: "keeps tls_same (tls_now L)"
  by (simp add: tls_now_def tls_idle_ask)

lemma tls_idle_stat: "keeps tls_same (tls_stat f)"
  unfolding tls_stat_def by (intro tls_idle.keeps_modS) (simp add: tls_same_simps)

lemma tls_idle_event: "keeps tls_same (tls_event l)"
  unfolding tls_event_def by (intro tls_idle.keeps_modS) (simp add: tls_same_simps)

section \<open>The invariant\<close>

definition tls_queue_ok :: "tls_link \<Rightarrow> tls_tunnel \<Rightarrow> bool" where
  "tls_queue_ok L s \<longleftrightarrow> queue_ok (ll_cfg L) (l_q s) (l_queued_bytes s) \<and>
     (l_offset s = 0 \<or> l_q s \<noteq> [] \<and> l_offset s < length (qd_data (hd (l_q s))))"

text \<open>The records are numbered one after the other from 1, modulo the width of the counter.\<close>

definition tls_records_ok :: "tls_link \<Rightarrow> tls_tunnel \<Rightarrow> bool" where
  "tls_records_ok L s \<longleftrightarrow> map fst (l_log s) = map (\<lambda>i. of_nat (Suc i)) [0..<length (l_log s)] \<and>
     (\<forall>(q, f, p, r) \<in> set (l_log s). encode_record (ll_crypto L) (ll_tx_key L) q p f = Inr r)"

definition tls_stream_ok :: "tls_tunnel \<Rightarrow> bool" where
  "tls_stream_ok s \<longleftrightarrow> (\<exists>xs ys. subseq (xs @ ys) (l_log s) \<and> map qd_data (l_q s) = map rec_of ys \<and>
     l_wire s = concat (map rec_of xs) @ take (l_offset s) (qd_data (hd (l_q s))))"

definition tls_end_inv :: "tls_link \<Rightarrow> tls_tunnel \<Rightarrow> bool" where
  "tls_end_inv L s \<longleftrightarrow> tls_queue_ok L s \<and> tls_records_ok L s \<and> tls_stream_ok s"

definition tls_inv :: "tls_link \<Rightarrow> tls_tunnel \<Rightarrow> bool" where
  "tls_inv L s \<longleftrightarrow> tls_end_inv L s \<and> l_sequence s = of_nat (Suc (length (l_log s)))"

text \<open>What the session needs: room for a record, and an OpenSSL that takes no more than it was given.\<close>

definition tls_link_ok :: "tls_link \<Rightarrow> bool" where
  "tls_link_ok L \<longleftrightarrow> 1 \<le> queue_packets (ll_cfg L) \<and>
     (\<forall>k b n. lw_write (ll_world L) k b = TlsWrote n \<longrightarrow> n \<le> length b)"

interpretation tls: guarded "tls_inv L" "tls_end_inv L" for L
  by unfold_locales (simp add: tls_inv_def)

lemma tls_inv_cong:
  assumes "tls_vital s' = tls_vital s"
  shows "tls_inv L s' = tls_inv L s"
  using assms by (simp add: tls_inv_def tls_end_inv_def tls_queue_ok_def tls_records_ok_def tls_stream_ok_def tls_vital_def)

lemma tls_idle_holds: "keeps tls_same m \<Longrightarrow> holds (tls_inv L) (tls_end_inv L) m"
  by (rule holdsI) (metis keepsD tls_same_def tls_inv_cong tls.weaker)+

lemma tls_fail_holds: "holds (tls_inv L) (tls_end_inv L) (tls_fail m)"
  unfolding tls_fail_def by (rule tls.holds_retS)

lemmas tls_rules = tls.holds_retS tls.holds_bindS tls.holds_thenS tls.holds_whenS tls.holds_withS tls.holds_eachS tls_fail_holds
  tls_idle_holds [OF tls_idle_ask] tls_idle_holds [OF tls_idle_now] tls_idle_holds [OF tls_idle_stat] tls_idle_holds [OF tls_idle_event]

lemma tls_modS_same: "(\<And>s. tls_same s (f s)) \<Longrightarrow> holds (tls_inv L) (tls_end_inv L) (modS f)"
  by (intro tls_idle_holds tls_idle.keeps_modS)

section \<open>Making and queueing records\<close>

text \<open>With a record partly written, the queue only grows at its end; otherwise it may lose its front.\<close>

lemma enqueue_protected:
  assumes "queue_ok cfg q qb" "enqueue cfg protect x q qb st = (q', qb', st')"
  shows "\<exists>k. (q' = drop k q \<or> q' = drop k q @ [x]) \<and> (protect \<and> q \<noteq> [] \<longrightarrow> k = 0)"
proof (cases "protect \<and> q \<noteq> [] \<and> queue_full cfg (length (qd_data x)) q qb")
  case True
  then have "q' = drop 0 q" using assms(2) by (auto simp: enqueue_def Let_def split: if_splits)
  then show ?thesis by blast
next
  case False
  show ?thesis
  proof (cases "protect \<and> q \<noteq> []")
    case True
    with False have "\<not> queue_full cfg (length (qd_data x)) q qb" by simp
    then have "evict cfg (length (qd_data x)) q qb st = (q, qb, st)" by (cases q) simp_all
    then have "q' = drop 0 q \<or> q' = drop 0 q @ [x]" using assms(2) False by (auto simp: enqueue_def Let_def split: if_splits)
    then show ?thesis by blast
  next
    case outer: False
    have "enqueue cfg False x q qb st = (q', qb', st')" using assms(2) False by (auto simp: enqueue_def Let_def split: if_splits)
    from enqueue_shape [OF assms(1) this] outer show ?thesis by blast
  qed
qed

lemma tls_stream_queue:
  assumes "tls_stream_ok s" "l_log s' = l_log s @ es" "l_wire s' = l_wire s" "l_offset s' = l_offset s"
    and "map qd_data (l_q s') = drop k (map qd_data (l_q s)) @ map rec_of fs" "subseq fs es"
    and "l_offset s = 0 \<or> k = 0 \<and> l_q s \<noteq> []"
  shows "tls_stream_ok s'"
proof -
  obtain xs ys where x: "subseq (xs @ ys) (l_log s)" "map qd_data (l_q s) = map rec_of ys"
    "l_wire s = concat (map rec_of xs) @ take (l_offset s) (qd_data (hd (l_q s)))"
    using assms(1) by (auto simp: tls_stream_ok_def)
  have "subseq (xs @ drop k ys) (xs @ ys)"
    by (intro list_emb_append_mono subseq_order.refl) (simp add: suffix_drop suffix_imp_subseq)
  then have s: "subseq (xs @ drop k ys @ fs) (l_log s')"
    using list_emb_append_mono [OF subseq_order.trans [OF _ x(1)] assms(6), of "xs @ drop k ys"] assms(2) by simp
  have m: "map qd_data (l_q s') = map rec_of (drop k ys @ fs)" using assms(5) x(2) by (simp add: drop_map)
  have "take (l_offset s') (qd_data (hd (l_q s'))) = take (l_offset s) (qd_data (hd (l_q s)))"
  proof (cases "l_offset s = 0")
    case False
    with assms(7) have k: "k = 0" "l_q s \<noteq> []" by simp_all
    then have "hd (map qd_data (l_q s')) = hd (map qd_data (l_q s))" using assms(5) by simp
    moreover have "l_q s' \<noteq> []" using k assms(5) by auto
    ultimately show ?thesis using k(2) assms(4) by (simp add: hd_map)
  qed (simp add: assms(4))
  with s m x(3) assms(3) show ?thesis unfolding tls_stream_ok_def
    by (intro exI [of _ xs] exI [of _ "drop k ys @ fs"]) simp
qed

lemma tls_put_spec:
  assumes "tls_put L rec payload s = (s', r)" "tls_queue_ok L s" "1 \<le> queue_packets (ll_cfg L)"
  shows "r = Inr () \<and> tls_queue_ok L s' \<and>
    (\<exists>k fs. map qd_data (l_q s') = drop k (map qd_data (l_q s)) @ fs \<and> fs \<in> {[], [rec]} \<and> (l_offset s = 0 \<or> k = 0 \<and> l_q s \<noteq> [])) \<and>
    l_offset s' = l_offset s \<and> l_sequence s' = l_sequence s \<and> l_wire s' = l_wire s \<and> l_log s' = l_log s"
proof -
  let ?x = "\<lparr>qd_data = rec, qd_at = lw_clock (ll_world L) (l_ev s), qd_payload = payload\<rparr>"
  obtain q qb st where e: "enqueue (ll_cfg L) (l_offset s > 0) ?x (l_q s) (l_queued_bytes s) (l_stats s) = (q, qb, st)"
    by (cases "enqueue (ll_cfg L) (l_offset s > 0) ?x (l_q s) (l_queued_bytes s) (l_stats s)") auto
  have s': "s' = s\<lparr>l_ev := Suc (l_ev s), l_q := q, l_queued_bytes := qb, l_stats := st\<rparr>" "r = Inr ()"
    using assms(1) e by (simp_all add: tls_put_def bindS_def tls_now_def tls_ask_def)
  have qo: "queue_ok (ll_cfg L) (l_q s) (l_queued_bytes s)" using assms(2) by (simp add: tls_queue_ok_def)
  obtain k where k: "q = drop k (l_q s) \<or> q = drop k (l_q s) @ [?x]" "l_offset s > 0 \<and> l_q s \<noteq> [] \<longrightarrow> k = 0"
    using enqueue_protected [OF qo e] by blast
  have o: "l_offset s = 0 \<or> l_q s \<noteq> [] \<and> l_offset s < length (qd_data (hd (l_q s)))" using assms(2) by (simp add: tls_queue_ok_def)
  then have k0: "l_offset s = 0 \<or> k = 0 \<and> l_q s \<noteq> []" using k(2) by auto
  have "l_offset s = 0 \<or> q \<noteq> [] \<and> l_offset s < length (qd_data (hd q))" using o k0 k(1) by auto
  then have "tls_queue_ok L s'" using enqueue_ok [OF qo assms(3) e] s' by (simp add: tls_queue_ok_def)
  moreover have "\<exists>k fs. map qd_data q = drop k (map qd_data (l_q s)) @ fs \<and> fs \<in> {[], [rec]} \<and> (l_offset s = 0 \<or> k = 0 \<and> l_q s \<noteq> [])"
    using k(1) k0 by (intro exI [of _ k] exI [of _ "drop (length (drop k (l_q s))) (map qd_data q)"]) (auto simp: drop_map)
  ultimately show ?thesis using s' by simp
qed

lemma tls_records_snoc:
  assumes "tls_records_ok L s" "l_sequence s = of_nat (Suc (length (l_log s)))" "encode_record (ll_crypto L) (ll_tx_key L) (l_sequence s) p f = Inr r"
    and "l_log s' = l_log s @ [(l_sequence s, f, p, r)]" "l_sequence s' = l_sequence s + 1"
  shows "tls_records_ok L s' \<and> l_sequence s' = of_nat (Suc (length (l_log s')))"
  using assms by (auto simp: tls_records_ok_def)

lemma tls_encode_cases:
  assumes "tls_encode L p f s = (s', r)"
  obtains e where "r = Inl e" "tls_vital s' = tls_vital (s\<lparr>l_sequence := l_sequence s + 1\<rparr>)"
  | rec where "r = Inr rec" "encode_record (ll_crypto L) (ll_tx_key L) (l_sequence s) p f = Inr rec"
    "tls_vital s' = tls_vital (s\<lparr>l_sequence := l_sequence s + 1, l_log := l_log s @ [(l_sequence s, f, p, rec)]\<rparr>)"
  using assms by (auto simp: tls_encode_def Let_def tls_vital_def split: sum.splits)

lemma tls_end_sequence: "tls_end_inv L s \<Longrightarrow> tls_vital s' = tls_vital (s\<lparr>l_sequence := q\<rparr>) \<Longrightarrow> tls_end_inv L s'"
  by (simp add: tls_end_inv_def tls_queue_ok_def tls_records_ok_def tls_stream_ok_def tls_vital_def)

text \<open>The statistics between making a record and queueing it are a parameter.\<close>

lemma tls_holds_enqueue:
  assumes "tls_link_ok L" "keeps tls_same m" "\<And>s. \<exists>s'. m s = (s', Inr ())"
  shows "holds (tls_inv L) (tls_end_inv L) (bindS (tls_encode L p f) (\<lambda>rec. thenS m (tls_put L rec b)))"
proof -
  have k: "(\<forall>e. r = Inl e \<longrightarrow> tls_end_inv L s') \<and> (\<forall>x. r = Inr x \<longrightarrow> tls_inv L s')"
    if i: "tls_inv L s" and r: "bindS (tls_encode L p f) (\<lambda>rec. thenS m (tls_put L rec b)) s = (s', r)" for s s' r
    using r
  proof (rule bindS_cases)
    fix e assume "tls_encode L p f s = (s', Inl e)" "r = Inl e"
    then show ?thesis using i tls_end_sequence by (auto elim!: tls_encode_cases simp: tls_inv_def)
  next
    fix rec t assume e: "tls_encode L p f s = (t, Inr rec)" and u: "thenS m (tls_put L rec b) t = (s', r)"
    obtain t1 where t1: "m t = (t1, Inr ())" "tls_vital t1 = tls_vital t" using assms(2,3) keepsD tls_same_def by metis
    from u t1(1) have u: "tls_put L rec b t1 = (s', r)" by (simp add: thenS_def bindS_def)
    from e have c: "encode_record (ll_crypto L) (ll_tx_key L) (l_sequence s) p f = Inr rec"
      and v: "tls_vital t1 = tls_vital (s\<lparr>l_sequence := l_sequence s + 1, l_log := l_log s @ [(l_sequence s, f, p, rec)]\<rparr>)"
      using t1(2) by (auto elim!: tls_encode_cases)
    have qt: "tls_queue_ok L t1" using i v by (simp add: tls_inv_def tls_end_inv_def tls_queue_ok_def tls_vital_def)
    have p: "1 \<le> queue_packets (ll_cfg L)" using assms(1) by (simp add: tls_link_ok_def)
    obtain k fs where w: "r = Inr ()" "tls_queue_ok L s'" "map qd_data (l_q s') = drop k (map qd_data (l_q s)) @ fs" "fs \<in> {[], [rec]}"
      "l_offset s = 0 \<or> k = 0 \<and> l_q s \<noteq> []" "l_offset s' = l_offset s" "l_sequence s' = l_sequence s + 1" "l_wire s' = l_wire s"
      "l_log s' = l_log s @ [(l_sequence s, f, p, rec)]"
      using tls_put_spec [OF u qt p] v by (auto simp: tls_vital_def)
    have "tls_stream_ok s'"
    proof (cases "fs = []")
      case True
      with w i show ?thesis using tls_stream_queue [of s s' "[(l_sequence s, f, p, rec)]" k "[]"] by (simp add: tls_inv_def tls_end_inv_def)
    next
      case False
      with w i show ?thesis using tls_stream_queue [of s s' "[(l_sequence s, f, p, rec)]" k "[(l_sequence s, f, p, rec)]"]
        by (simp add: tls_inv_def tls_end_inv_def rec_of_def)
    qed
    moreover have "tls_records_ok L s' \<and> l_sequence s' = of_nat (Suc (length (l_log s')))"
      by (rule tls_records_snoc [OF _ _ c w(9,7)]) (use i in \<open>simp_all add: tls_inv_def tls_end_inv_def\<close>)
    ultimately have "tls_inv L s'" using w(2) by (simp add: tls_inv_def tls_end_inv_def)
    with w(1) show ?thesis by simp
  qed
  show ?thesis by (rule holdsI) (use k in blast)+
qed

lemma tls_holds_control: "tls_link_ok L \<Longrightarrow> holds (tls_inv L) (tls_end_inv L) (tls_enqueue_control L f p)"
proof -
  assume a: "tls_link_ok L"
  have "tls_enqueue_control L f p = bindS (tls_encode L p f) (\<lambda>rec. thenS skipS (tls_put L rec False))"
    by (rule ext) (simp add: tls_enqueue_control_def bindS_def thenS_def skipS_def retS_def split: prod.split sum.split)
  then show ?thesis using tls_holds_enqueue [OF a, of skipS p f False] by (simp add: skipS_def retS_def keeps_def tls_same_def)
qed

section \<open>Writing\<close>

lemma tls_wrote_inv:
  assumes "tls_inv L s" "l_q s \<noteq> []" "0 < n" "n \<le> length (drop (l_offset s) (qd_data (hd (l_q s))))"
  shows "tls_inv L (tls_wrote n (drop (l_offset s) (qd_data (hd (l_q s)))) t s)"
proof -
  obtain x q where q: "l_q s = x # q" using assms(2) by (cases "l_q s") auto
  let ?rest = "drop (l_offset s) (qd_data x)"
  let ?s = "tls_wrote n ?rest t s"
  have l: "n \<le> length (qd_data x) - l_offset s" "l_offset s < length (qd_data x)" using assms(3,4) q by auto
  have f: "l_sequence ?s = l_sequence s" "l_log ?s = l_log s" "l_wire ?s = l_wire s @ take n ?rest"
    by (simp_all add: tls_wrote_def Let_def)
  obtain xs ys where x: "subseq (xs @ ys) (l_log s)" "map qd_data (l_q s) = map rec_of ys"
    "l_wire s = concat (map rec_of xs) @ take (l_offset s) (qd_data x)"
    using assms(1) q by (auto simp: tls_inv_def tls_end_inv_def tls_stream_ok_def)
  have w: "l_wire ?s = concat (map rec_of xs) @ take (l_offset s + n) (qd_data x)" using f(3) x(3) by (simp add: take_add)
  have qo: "queue_ok (ll_cfg L) (x # q) (l_queued_bytes s)" using assms(1) q by (simp add: tls_inv_def tls_end_inv_def tls_queue_ok_def)
  have "tls_queue_ok L ?s \<and> tls_stream_ok ?s"
  proof (cases "l_offset s + n = length (qd_data x)")
    case True
    obtain y ys' where y: "ys = y # ys'" "qd_data x = rec_of y" "map qd_data q = map rec_of ys'" using x(2) q by (cases ys) auto
    have s: "l_q ?s = q" "l_offset ?s = 0" "l_queued_bytes ?s = l_queued_bytes s - length (qd_data x)" using True q by (simp_all add: tls_wrote_def Let_def)
    have "l_wire ?s = concat (map rec_of (xs @ [y]))" using w True y(2) by simp
    moreover have "subseq ((xs @ [y]) @ ys') (l_log ?s)" using x(1) y(1) f(2) by simp
    ultimately have "tls_stream_ok ?s" unfolding tls_stream_ok_def using s(1,2) y(3)
      by (intro exI [of _ "xs @ [y]"] exI [of _ ys']) simp
    then show ?thesis using s queue_ok_Cons [OF qo] by (simp add: tls_queue_ok_def)
  next
    case False
    have s: "l_q ?s = x # q" "l_offset ?s = l_offset s + n" "l_queued_bytes ?s = l_queued_bytes s" using False q by (simp_all add: tls_wrote_def Let_def)
    have "tls_stream_ok ?s" unfolding tls_stream_ok_def using s w x(1,2) f(2) q
      by (intro exI [of _ xs] exI [of _ ys]) simp
    moreover have "l_offset s + n < length (qd_data x)" using l False by linarith
    ultimately show ?thesis using s qo by (simp add: tls_queue_ok_def)
  qed
  then show ?thesis using f assms(1) q by (simp add: tls_inv_def tls_end_inv_def tls_records_ok_def)
qed

lemma tls_flush_loop_inv:
  assumes "tls_link_ok L"
  shows "tls_flush_loop L sr sb s = (s', r) \<Longrightarrow> tls_inv L s \<Longrightarrow> (\<forall>e. r = Inl e \<longrightarrow> tls_end_inv L s') \<and> (\<forall>x. r = Inr x \<longrightarrow> tls_inv L s')"
proof (induction "max 1 (batch_bytes (ll_cfg L)) - sb" arbitrary: sr sb s rule: less_induct)
  case less
  show ?case
  proof (cases "l_q s = [] \<or> \<not> int sr < max 1 (batch_packets (ll_cfg L)) \<or> \<not> sb < max 1 (batch_bytes (ll_cfg L))")
    case True
    then have "s' = s" using less.prems(1) by (subst (asm) tls_flush_loop.simps) (auto split: if_splits)
    then show ?thesis using less.prems(2) tls.weaker by blast
  next
    case go: False
    let ?rest = "drop (l_offset s) (qd_data (hd (l_q s)))" and ?s1 = "tls_attempt (drop (l_offset s) (qd_data (hd (l_q s)))) s"
    have i1: "tls_inv L ?s1" using less.prems(2) tls_inv_cong [of ?s1 s] by (simp add: tls_attempt_def tls_vital_def)
    note eq = less.prems(1) [unfolded tls_flush_loop.simps [of L sr sb s] if_not_P [OF go] Let_def]
    show ?thesis
    proof (cases "lw_write (ll_world L) (l_ev s) ?rest")
      case (TlsWrote n)
      show ?thesis
      proof (cases "n = 0")
        case True
        then have "s' = ?s1" using eq TlsWrote by simp
        then show ?thesis using i1 tls.weaker by blast
      next
        case False
        let ?s1' = "?s1\<lparr>l_ev := Suc (l_ev ?s1)\<rparr>"
        let ?s2 = "tls_wrote n ?rest (lw_clock (ll_world L) (l_ev ?s1)) ?s1'"
        have r: "tls_flush_loop L (if l_offset ?s2 = 0 then sr + 1 else sr) (sb + n) ?s2 = (s', r)" using eq TlsWrote False by simp
        have f: "l_q ?s1' = l_q s" "l_offset ?s1' = l_offset s" by (simp_all add: tls_attempt_def)
        have n: "n \<le> length ?rest" using assms TlsWrote unfolding tls_link_ok_def by blast
        have "tls_inv L ?s1'" using i1 tls_inv_cong [of ?s1' ?s1] by (simp add: tls_vital_def)
        from tls_wrote_inv [OF this, of n] f n False go have "tls_inv L ?s2" by simp
        moreover have "max 1 (batch_bytes (ll_cfg L)) - (sb + n) < max 1 (batch_bytes (ll_cfg L)) - sb" using go False by auto
        ultimately show ?thesis using less.hyps r by blast
      qed
    next
      case (TlsNoWrite e)
      have "s' = ?s1 \<or> s' = ?s1\<lparr>l_retry := Some ?rest\<rparr>" using eq TlsNoWrite by (auto split: option.splits)
      moreover have "tls_inv L (?s1\<lparr>l_retry := Some ?rest\<rparr>)" using i1 tls_inv_cong [of "?s1\<lparr>l_retry := Some ?rest\<rparr>" ?s1] by (simp add: tls_vital_def)
      ultimately show ?thesis using i1 tls.weaker by blast
    qed
  qed
qed

lemma tls_holds_flush: "tls_link_ok L \<Longrightarrow> holds (tls_inv L) (tls_end_inv L) (flush_tls L)"
  unfolding flush_tls_def by (rule holdsI) (use tls_flush_loop_inv in blast)+

section \<open>The loop\<close>

lemma tls_drop_old_spec:
  "tls_drop_old cfg t q qb offset st ev = (q', qb', st', ev') \<Longrightarrow> queue_ok cfg q qb \<Longrightarrow>
    queue_ok cfg q' qb' \<and> (\<exists>k. q' = drop k q \<and> (offset \<noteq> 0 \<longrightarrow> k = 0))"
proof (induction cfg t q qb offset st ev rule: tls_drop_old.induct)
  case (2 cfg t x q qb offset st ev)
  show ?case
  proof (cases "offset = 0 \<and> elapsed_ms t (qd_at x) > queue_delay_ms cfg")
    case True
    with 2 queue_ok_Cons obtain k where "queue_ok cfg q' qb'" "q' = drop k q" by auto
    then show ?thesis using True by (intro conjI exI [of _ "Suc k"]) auto
  next
    case False
    with 2(2) have e: "q' = x # q" "qb' = qb" by auto
    show ?thesis using 2(3) e by (intro conjI exI [of _ 0]) simp_all
  qed
qed auto

lemma tls_holds_drop: "holds (tls_inv L) (tls_end_inv L) (tls_drop_delayed L t)"
  unfolding tls_drop_delayed_def
proof (rule tls.holds_modS)
  fix s assume i: "tls_inv L s"
  obtain q qb st ev where d: "tls_drop_old (ll_cfg L) t (l_q s) (l_queued_bytes s) (l_offset s) (l_stats s) (l_events s) = (q, qb, st, ev)"
    by (cases "tls_drop_old (ll_cfg L) t (l_q s) (l_queued_bytes s) (l_offset s) (l_stats s) (l_events s)") auto
  let ?s = "s\<lparr>l_q := q, l_queued_bytes := qb, l_events := ev,
    l_stats := st\<lparr>st_queue_pkts := of_nat (length q), st_queue_bytes := of_nat qb, st_last_rx_age_ms := of_int (elapsed_ms t (l_last_rx s))\<rparr>\<rparr>"
  have o: "queue_ok (ll_cfg L) (l_q s) (l_queued_bytes s)" "l_offset s = 0 \<or> l_q s \<noteq> [] \<and> l_offset s < length (qd_data (hd (l_q s)))"
    using i by (simp_all add: tls_inv_def tls_end_inv_def tls_queue_ok_def)
  obtain k where k: "queue_ok (ll_cfg L) q qb" "q = drop k (l_q s)" "l_offset s \<noteq> 0 \<longrightarrow> k = 0" using tls_drop_old_spec [OF d o(1)] by blast
  have "tls_stream_ok ?s"
    by (rule tls_stream_queue [of s ?s "[]" k "[]"]) (use i k o(2) in \<open>auto simp: tls_inv_def tls_end_inv_def drop_map\<close>)
  moreover have "tls_queue_ok L ?s" using k o(2) by (auto simp: tls_queue_ok_def)
  ultimately have "tls_inv L ?s" using i by (simp add: tls_inv_def tls_end_inv_def tls_records_ok_def)
  then show "tls_inv L (case tls_drop_old (ll_cfg L) t (l_q s) (l_queued_bytes s) (l_offset s) (l_stats s) (l_events s) of
       (q, qb, st, ev) \<Rightarrow> s\<lparr>l_q := q, l_queued_bytes := qb, l_events := ev,
         l_stats := st\<lparr>st_queue_pkts := of_nat (length q), st_queue_bytes := of_nat qb, st_last_rx_age_ms := of_int (elapsed_ms t (l_last_rx s))\<rparr>\<rparr>)"
    using d by simp
qed

lemma tls_holds_read_tun: "tls_link_ok L \<Longrightarrow> holds (tls_inv L) (tls_end_inv L) (tls_read_tun L n)"
proof (induction n)
  case (Suc n)
  have p: "holds (tls_inv L) (tls_end_inv L) (bindS (tls_encode L p 0) (\<lambda>rec. thenS (tls_stat f) (tls_put L rec True)))" for p f
    by (rule tls_holds_enqueue [OF Suc.prems tls_idle_stat]) (simp add: tls_stat_def modS_def)
  show ?case
    unfolding tls_read_tun.simps seqS.simps
    by (auto intro!: tls_rules p Suc split: tun_read.splits)
qed (simp add: tls.holds_retS)

lemma tls_holds_on_record: "tls_link_ok L \<Longrightarrow> holds (tls_inv L) (tls_end_inv L) (tls_on_record L r)"
  unfolding tls_on_record_def Let_def seqS.simps
  by (cases r) (auto intro!: tls_rules tls_modS_same tls_holds_control simp: tls_same_simps)

lemma tls_holds_on_bytes: "tls_link_ok L \<Longrightarrow> holds (tls_inv L) (tls_end_inv L) (tls_on_bytes L b)"
  unfolding tls_on_bytes_def Let_def seqS.simps
  by (auto intro!: tls_rules tls_modS_same tls_holds_on_record split: prod.splits feed_outcome.splits simp: tls_same_simps)

lemma tls_holds_read: "tls_link_ok L \<Longrightarrow> holds (tls_inv L) (tls_end_inv L) (tls_read L b)"
  unfolding tls_read_def by (auto intro!: tls_rules tls_holds_on_bytes split: prod.splits option.splits)

lemma tls_holds_timers: "tls_link_ok L \<Longrightarrow> holds (tls_inv L) (tls_end_inv L) (tls_timers L b)"
  unfolding tls_timers_def Let_def seqS.simps
  by (intro tls_rules tls_modS_same tls_holds_control tls_holds_flush) (simp_all add: tls_same_simps)

lemma tls_holds_poll: "holds (tls_inv L) (tls_end_inv L) (tls_poll L)"
  unfolding tls_poll_def Let_def by (intro tls_rules)

lemma tls_holds_turn: "tls_link_ok L \<Longrightarrow> holds (tls_inv L) (tls_end_inv L) (tls_turn L)"
  unfolding tls_turn_def seqS.simps
  by (auto intro!: tls_rules tls_holds_drop tls_holds_poll tls_holds_read_tun tls_holds_read tls_holds_timers split: poll_outcome.splits)

lemma tls_holds_loop: "tls_link_ok L \<Longrightarrow> holds (tls_inv L) (tls_end_inv L) (tls_loop_n L n)"
  by (induction n) (auto intro!: tls_rules tls_holds_turn)

lemma tls_start: "tls_inv L (start_tls L t key st)"
  by (simp add: start_tls_def tls_inv_def tls_end_inv_def tls_queue_ok_def tls_records_ok_def tls_stream_ok_def exI [of _ "[]"])

lemma tls_result:
  assumes "tls_link_ok L" "tls_loop_n L n (start_tls L t key st) = (s, r)"
  shows "tls_end_inv L s"
  using holdsD [OF tls_holds_loop [OF assms(1)] tls_start] assms(2) tls.weaker by (cases r) blast+

section \<open>Two concrete sessions\<close>

text \<open>A turn reads one packet. OpenSSL takes the record, or asks for the write to be repeated at every attempt.\<close>

definition demo_tls :: "(nat \<Rightarrow> bytes \<Rightarrow> tls_write) \<Rightarrow> (nat \<Rightarrow> u64) \<Rightarrow> tls_link" where
  "demo_tls w c = \<lparr>ll_cfg = demo_cfg, ll_crypto = demo_crypto, ll_tx_key = demo_key, ll_world =
     \<lparr>lw_clock = c, lw_write = w, lw_buffered = (\<lambda>_. False), lw_reads = (\<lambda>_. ([], TlsWant)),
      lw_poll = (\<lambda>_ _ _. Polled False False True), lw_tun_read = (\<lambda>_. TunPacket demo_packet), lw_tun_write = (\<lambda>_ _. True),
      lw_force = (\<lambda>_. False)\<rparr>\<rparr>"

definition demo_v3 :: "u64 \<Rightarrow> bytes" where "demo_v3 q = projr (encode_record demo_crypto demo_key q demo_packet 0)"

lemma be64_eq_iff [simp]: "be64 a = be64 b \<longleftrightarrow> a = b"
  by (metis rd64_be64)

lemma demo_v3: "encode_record demo_crypto demo_key 1 demo_packet 0 = Inr (demo_v3 1)" "encode_record demo_crypto demo_key 2 demo_packet 0 = Inr (demo_v3 2)"
  "length (demo_v3 1) = 52" "length (demo_v3 2) = 52"
  by (simp_all add: demo_v3_def demo_eval)

lemma demo_v3_distinct: "demo_v3 1 \<noteq> demo_v3 2"
  by (simp add: demo_v3_def demo_eval record_header_def)

lemma demo_v3_not_Nil [simp]: "demo_v3 1 \<noteq> []" "demo_v3 2 \<noteq> []"
  using demo_v3(3,4) by auto

lemmas tls_run = tls_turn_def tls_ask_def tls_now_def tls_stat_def tls_fail_def tls_drop_delayed_def tls_poll_def tls_read_def tls_timers_def
  tls_encode_def tls_put_def bindS_def thenS_def retS_def modS_def withS_def skipS_def throwS_def whenS_def Let_def
  elapsed_ms_def elapsed_sec_def elapsed_def enqueue_def queue_full_def

definition tls_taking :: tls_link where "tls_taking = demo_tls (\<lambda>_ b. TlsWrote (length b)) (\<lambda>_. 100000000)"

lemma tls_taking_ok: "tls_link_ok tls_taking"
  by (simp add: tls_link_ok_def tls_taking_def demo_tls_def)

lemma tls_taking_run:
  "\<exists>s. tls_loop_n tls_taking 1 (start_tls tls_taking 100000000 demo_key new_stats) = (s, Inr ()) \<and> l_wire s = demo_v3 1 \<and>
     l_log s = [(1, 0, demo_packet, demo_v3 1)] \<and> l_q s = []"
  apply (simp add: start_tls_def tls_taking_def demo_tls_def)
  apply (simp add: tls_run)
  apply (simp add: demo_v3 tls_run flush_tls_def)
  apply (subst tls_flush_loop.simps, simp add: Let_def tls_attempt_def demo_v3 tls_wrote_def)
  apply (subst tls_flush_loop.simps, simp add: tls_run)
  done

text \<open>
  An attempt OpenSSL wants repeated, a turn within the delay limit and one after it: the record is dropped although its
  write is unfinished, and the next attempt passes other data.
\<close>

definition tls_wanting :: tls_link where
  "tls_wanting = demo_tls (\<lambda>_ _. TlsNoWrite TlsWant) (\<lambda>k. if k < 9 then 100000000 else 100600000)"

section \<open>Properties\<close>

text \<open>
  The legacy loop. However many turns it ran and however it ended, the TLS stream consists of whole records in
  the order in which they were made, followed by exactly the written part of the front record if one is
  partly written; the queued records come later in that order; records are numbered 1, 2, 3, ... modulo 2^64; and the
  queue keeps its limits and its byte count.
\<close>

theorem legacy_session_wire:
  assumes "tls_link_ok L" "tls_loop_n L n (start_tls L t key st) = (s, r)"
  shows "(\<exists>xs ys. l_wire s = concat (map rec_of xs) @ take (l_offset s) (qd_data (hd (l_q s))) \<and> map qd_data (l_q s) = map rec_of ys \<and>
      subseq (xs @ ys) (l_log s)) \<and>
    (l_offset s = 0 \<or> l_q s \<noteq> [] \<and> l_offset s < length (qd_data (hd (l_q s)))) \<and>
    map fst (l_log s) = map (\<lambda>i. of_nat (Suc i)) [0..<length (l_log s)] \<and>
    (\<forall>(q, f, p, rec) \<in> set (l_log s). encode_record (ll_crypto L) (ll_tx_key L) q p f = Inr rec) \<and>
    length (l_q s) \<le> queue_packets (ll_cfg L) \<and> l_queued_bytes s = total (l_q s) \<and> l_queued_bytes s \<le> queue_bytes (ll_cfg L)"
  using tls_result [OF assms]
  by (auto simp: tls_end_inv_def tls_queue_ok_def queue_ok_def tls_records_ok_def tls_stream_ok_def)

theorem legacy_session_wire_witness:
  "\<exists>s xs. tls_loop_n tls_taking 1 (start_tls tls_taking 100000000 demo_key new_stats) = (s, Inr ()) \<and>
     l_wire s = demo_v3 1 \<and> concat (map rec_of xs) = demo_v3 1 \<and> subseq xs (l_log s) \<and> map fst (l_log s) = [1]"
proof -
  obtain s where s: "tls_loop_n tls_taking 1 (start_tls tls_taking 100000000 demo_key new_stats) = (s, Inr ())" "l_wire s = demo_v3 1"
    "l_log s = [(1, 0, demo_packet, demo_v3 1)]" "l_q s = []" using tls_taking_run by blast
  have "\<exists>xs. l_wire s = concat (map rec_of xs) \<and> subseq xs (l_log s)" and "map fst (l_log s) = [1]"
    using legacy_session_wire [OF tls_taking_ok s(1)] s(3,4) by auto
  with s show ?thesis by auto
qed

text \<open>
  C16: the legacy loop can break the contract of an unfinished TLS write. With the default queue delay, when OpenSSL wants the
  write of the first record to be repeated and the next turn comes 600 ms later, that record is dropped as stale, because
  none of its bytes counts as written, and the next attempt is made with the bytes of another record.
\<close>

theorem legacy_retry_replaced:
  "\<exists>s. tls_loop_n tls_wanting 2 (start_tls tls_wanting 100000000 demo_key new_stats) = (s, Inr ()) \<and>
     map qd_data (l_q s) = [demo_v3 2] \<and> l_retry s = Some (demo_v3 2) \<and> l_bad_retry s"
proof -
  have "\<exists>s. tls_turn tls_wanting (start_tls tls_wanting 100000000 demo_key new_stats) = (s, Inr ()) \<and> l_ev s = 8 \<and> l_offset s = 0 \<and>
    (\<exists>x. l_q s = [x] \<and> qd_data x = demo_v3 1 \<and> qd_at x = 100000000) \<and> l_queued_bytes s = 52 \<and> l_retry s = Some (demo_v3 1) \<and>
    l_sequence s = 2 \<and> l_last_probe s = 100000000 \<and> l_last_tx s = 100000000 \<and> l_last_rx s = 100000000"
    apply (simp add: start_tls_def tls_wanting_def demo_tls_def)
    apply (simp add: tls_run)
    apply (simp add: demo_v3 tls_run flush_tls_def)
    apply (subst tls_flush_loop.simps, simp add: tls_attempt_def demo_v3 tls_end_error_def tls_run)
    done
  then obtain s x where s: "tls_turn tls_wanting (start_tls tls_wanting 100000000 demo_key new_stats) = (s, Inr ())" "l_ev s = 8" "l_offset s = 0"
    "l_q s = [x]" "qd_data x = demo_v3 1" "qd_at x = 100000000" "l_queued_bytes s = 52" "l_retry s = Some (demo_v3 1)"
    "l_sequence s = 2" "l_last_probe s = 100000000" "l_last_tx s = 100000000" "l_last_rx s = 100000000" by blast
  have "\<exists>s'. tls_turn tls_wanting s = (s', Inr ()) \<and> map qd_data (l_q s') = [demo_v3 2] \<and> l_retry s' = Some (demo_v3 2) \<and> l_bad_retry s'"
    apply (simp add: tls_wanting_def demo_tls_def)
    apply (simp add: tls_run s)
    apply (simp add: demo_v3 tls_run flush_tls_def s)
    apply (subst tls_flush_loop.simps, simp add: tls_attempt_def demo_v3 demo_v3_distinct tls_end_error_def tls_run s)
    done
  with s(1) show ?thesis by (auto simp: numeral_2_eq_2 thenS_def bindS_def skipS_def retS_def)
qed

end
