(* ===== verification/PoolLoop.thy ===== *)
theory PoolLoop
  imports Tunnel Handshake Pool
begin

text \<open>
  \<open>pool_tunnel_loop\<close> of \<open>src/cdn/src/runtime.cpp\<close>: several authenticated connections, the lanes, serve one TUN device.
  A lane has its own keys, sequence numbers, decoder, flow queue and timers; the padding budgets, counters and the TUN
  device are shared. Each lambda and each stage of the loop body is one definition. What comes from
  outside is the answers of a world, as in \<open>Tunnel\<close>.

  Code that works on one lane has as its state that lane and the shared part, so that it cannot touch another lane.
\<close>

section \<open>World and state\<close>

text \<open>\<open>AdmittedConnection\<close>: what a finished handshake leaves.\<close>

record connection =
  cn_ws :: ws_session
  cn_handshake :: ws_handshake_result

datatype dial_outcome = DialPending | DialFailed string | DialDone connection

text \<open>The lanes' error flags, and whether the TUN device is readable.\<close>

datatype pool_poll = PoolPollFailed | PoolPollInterrupted | PoolPolled "bool list" bool

record pool_world =
  pw_clock :: "nat \<Rightarrow> u64"
  pw_pad :: "nat \<Rightarrow> nat \<Rightarrow> nat \<Rightarrow> bytes option"
  pw_mask :: "nat \<Rightarrow> bytes option"
  pw_jitter :: "nat \<Rightarrow> int \<Rightarrow> int"
  pw_delay :: "nat \<Rightarrow> nat \<Rightarrow> nat"
  pw_io :: "nat \<Rightarrow> ws_io"
  pw_ready :: "nat \<Rightarrow> bool"
  pw_reads :: "nat \<Rightarrow> nat \<Rightarrow> rd"
  pw_read_env :: "nat \<Rightarrow> nat \<Rightarrow> ws_env"
  pw_buffered :: "nat \<Rightarrow> bool"
    \<comment> \<open>whether \<open>SSL_pending\<close> is positive for some lane\<close>
  pw_poll :: "nat \<Rightarrow> int \<Rightarrow> poll_event list list \<Rightarrow> bool \<Rightarrow> pool_poll"
  pw_tun_read :: "nat \<Rightarrow> tun_read"
    \<comment> \<open>\<open>TunStopped\<close> is an interrupted read, which counts as one\<close>
  pw_tun_write :: "nat \<Rightarrow> bytes \<Rightarrow> bool"
  pw_force :: "nat \<Rightarrow> bool"
  pw_place :: "nat \<Rightarrow> pflow \<times> entry \<Rightarrow> affinity \<Rightarrow> affinity"
  pw_arrivals :: "nat \<Rightarrow> connection option list"
    \<comment> \<open>the results of \<open>take(0)\<close>, one after the other, until \<open>has_ready\<close> is false\<close>
  pw_socket :: "nat \<Rightarrow> bool"
    \<comment> \<open>whether the socket options of a new lane are set without an exception\<close>
  pw_dial :: "nat \<Rightarrow> dial_outcome"
    \<comment> \<open>the state of the future of \<open>dial_websocket\<close>\<close>

record pool_link =
  pl_cfg :: config
  pl_crypto :: crypto
  pl_round :: "rat \<Rightarrow> rat"
  pl_server :: bool
    \<comment> \<open>an \<open>AdmissionServer\<close> is given\<close>
  pl_world :: pool_world

datatype pool_error = PoolFail string | PoolRecord record_error | PoolCarrier ws_error | PoolDecode record_error

text \<open>
  \<open>PoolLane\<close>. A time of 0 is the value-initialised time point of \<open>last_data\<close>. The last three fields are what left the
  process on this lane, the messages given to the session, and the records made
  (\<open>sequence, flags, payload, bytes\<close>).
\<close>

record lane =
  ln_id :: u64
  ln_handshake :: ws_handshake_result
  ln_ws :: ws_session
  ln_dec :: decoder
  ln_waiting :: flow_queue
  ln_shaper :: shaper
  ln_sequence :: u64
  ln_probe_token :: u64
  ln_probe_outstanding :: bool
  ln_connected :: u64
  ln_last_rx :: u64
  ln_last_probe :: u64
  ln_last_tx :: u64
  ln_draining :: bool
  ln_drain_until :: u64
  ln_last_data :: u64
  ln_rtt_us :: int
  ln_rtt_sample :: u64
  ln_renewal :: renewal
  ln_ping_pending :: bool
  ln_ping_payload :: bytes
  ln_last_ping :: u64
  ln_wire :: bytes
  ln_sent :: "bytes list"
  ln_log :: "(u64 \<times> byte \<times> bytes \<times> bytes) list"

text \<open>What the lanes share.\<close>

record core =
  c_ev :: nat
  c_shape :: shape_budget
  c_padding :: padding_budget
  c_stats :: stats
  c_events :: "string list"
  c_tun_out :: "bytes list"

text \<open>The variables of the loop; the lanes that were removed; the number of lanes ever attached.\<close>

record pool =
  p_core :: core
  p_lanes :: "lane list"
  p_affinity :: affinity
  p_next_id :: u64
  p_dial :: bool
  p_next_dial :: u64
  p_last_prune :: u64
  p_backoff :: int
  p_replacing :: u64
  p_reference_rtt :: int
  p_next_replacement :: u64
  p_state :: int
  p_phase :: int
  p_retired :: "lane list"
  p_attached :: nat

type_synonym 'a serve = "(lane \<times> core, pool_error, 'a) se"
type_synonym 'a pooling = "(pool, pool_error, 'a) se"

definition askC :: "(nat \<Rightarrow> 'a) \<Rightarrow> 'a serve" where
  "askC f s = ((fst s, (snd s)\<lparr>c_ev := Suc (c_ev (snd s))\<rparr>), Inr (f (c_ev (snd s))))"

definition nowC :: "pool_link \<Rightarrow> u64 serve" where
  "nowC L = askC (pw_clock (pl_world L))"

definition laneS :: "(lane \<Rightarrow> lane) \<Rightarrow> unit serve" where
  "laneS f = modS (\<lambda>s. (f (fst s), snd s))"

definition coreS :: "(core \<Rightarrow> core) \<Rightarrow> unit serve" where
  "coreS f = modS (\<lambda>s. (fst s, f (snd s)))"

definition statC :: "(stats \<Rightarrow> stats) \<Rightarrow> unit serve" where
  "statC f = coreS (\<lambda>c. c\<lparr>c_stats := f (c_stats c)\<rparr>)"

definition eventC :: "string \<Rightarrow> unit serve" where
  "eventC line = coreS (\<lambda>c. c\<lparr>c_events := event line (c_events c)\<rparr>)"

definition withL :: "(lane \<Rightarrow> 'a serve) \<Rightarrow> 'a serve" where
  "withL f = withS (\<lambda>s. f (fst s))"

definition failC :: "string \<Rightarrow> 'a serve" where
  "failC msg = throwS (PoolFail msg)"

definition after_sec :: "u64 \<Rightarrow> u64 \<Rightarrow> int \<Rightarrow> bool" where
  "after_sec t before seconds \<longleftrightarrow> elapsed t before \<ge> seconds * 1000000"

section \<open>Making a record\<close>

definition lane_tx_key :: "pool_link \<Rightarrow> lane \<Rightarrow> bytes" where
  "lane_tx_key L l = (if mode (pl_cfg L) = ''server'' then server_tx (hs_keys (ln_handshake l)) else client_tx (hs_keys (ln_handshake l)))"

text \<open>The sequence number is taken before the encoder runs.\<close>

definition lane_record :: "bytes \<Rightarrow> byte \<Rightarrow> (u64 \<Rightarrow> (record_error, bytes) result) \<Rightarrow> bytes serve" where
  "lane_record payload flags enc s =
     (let l = fst s; q = ln_sequence l; l1 = l\<lparr>ln_sequence := q + 1\<rparr> in
      case enc q of
        Inl e \<Rightarrow> ((l1, snd s), Inl (PoolRecord e))
      | Inr rec \<Rightarrow> ((l1\<lparr>ln_log := ln_log l @ [(q, flags, payload, rec)]\<rparr>, snd s), Inr rec))"

definition lane_maximum :: "pool_link \<Rightarrow> bool \<Rightarrow> int serve" where
  "lane_maximum L control =
     (let cfg = pl_cfg L;
          maximum = (if control then websocket_control_padding_bytes cfg else websocket_padding_max_bytes cfg) in
      if traffic_shaping cfg \<and> \<not> control
      then bindS (nowC L) (\<lambda>t. withL (\<lambda>l. retS (Inr (sh_maximum maximum (nat (shaping_startup_ms cfg)) t (ln_shaper l)))))
      else retS (Inr maximum))"

definition lane_allowance :: "pool_link \<Rightarrow> bool \<Rightarrow> nat \<Rightarrow> int \<Rightarrow> int serve" where
  "lane_allowance L control bytes maximum =
     bindS
       (if control
        then bindS (nowC L) (\<lambda>t s. case control_allowance (pl_round L) maximum t (c_padding (snd s)) of
          (a, b) \<Rightarrow> ((fst s, (snd s)\<lparr>c_padding := b\<rparr>), Inr a))
        else (\<lambda>s. case data_allowance (pl_round L) bytes maximum (c_padding (snd s)) of
          (a, b) \<Rightarrow> ((fst s, (snd s)\<lparr>c_padding := b\<rparr>), Inr a)))
       (\<lambda>a. bindS (nowC L) (\<lambda>t s. case shape_allowance (pl_round L) a t (c_shape (snd s)) of
          (a, b) \<Rightarrow> ((fst s, (snd s)\<lparr>c_shape := b\<rparr>), Inr a)))"

definition lane_spend :: "pool_link \<Rightarrow> bool \<Rightarrow> nat \<Rightarrow> unit serve" where
  "lane_spend L control extra = coreS (\<lambda>c.
     let c = c\<lparr>c_shape := shape_spend (pl_round L) extra (c_shape c)\<rparr> in
     if control
     then c\<lparr>c_padding := spend_control (pl_round L) extra (c_padding c),
            c_stats := c_stats c\<lparr>st_padding_control_extra_tx := st_padding_control_extra_tx (c_stats c) + of_nat extra\<rparr>\<rparr>
     else c\<lparr>c_padding := spend_data (pl_round L) extra (c_padding c),
            c_stats := c_stats c\<lparr>st_padding_extra_tx := st_padding_extra_tx (c_stats c) + of_nat extra\<rparr>\<rparr>)"

definition lane_plain :: "pool_link \<Rightarrow> bytes \<Rightarrow> byte \<Rightarrow> bytes serve" where
  "lane_plain L payload flags = withL (\<lambda>l.
     lane_record payload flags (\<lambda>q. encode_record_v5 (pl_crypto L) (lane_tx_key L l) q payload flags))"

definition lane_envelope :: "pool_link \<Rightarrow> bytes \<Rightarrow> byte \<Rightarrow> int \<Rightarrow> bytes serve" where
  "lane_envelope L payload flags pad =
     bindS (askC (pw_pad (pl_world L))) (\<lambda>rng. withL (\<lambda>l.
       lane_record payload flags (\<lambda>q. encode_envelope_record_v5 (pl_crypto L) rng (lane_tx_key L l) q payload flags pad)))"

definition lane_encode :: "pool_link \<Rightarrow> bytes \<Rightarrow> byte \<Rightarrow> bytes serve" where
  "lane_encode L payload flags =
     (if flags = RECORD_DRAIN then lane_plain L payload flags
      else let control = (flags \<noteq> 0) in
        thenS (whenS (\<not> control) (bindS (nowC L) (\<lambda>t. laneS (\<lambda>l. l\<lparr>ln_shaper := sh_observe (of_nat (length payload)) t (ln_shaper l)\<rparr>))))
        (bindS (lane_maximum L control) (\<lambda>maximum.
         if maximum \<le> 0 then lane_plain L payload flags
         else bindS (lane_allowance L control (length payload) maximum) (\<lambda>allowance.
           if allowance < 3 then lane_plain L payload flags
           else bindS (lane_envelope L payload flags (allowance - 3)) (\<lambda>rec.
             thenS (lane_spend L control (length rec - length payload - 32)) (retS (Inr rec)))))))"

section \<open>Sending\<close>

definition lane_send :: "pool_link \<Rightarrow> bytes \<Rightarrow> unit serve" where
  "lane_send L message =
     bindS (askC (pw_mask (pl_world L))) (\<lambda>mk. bindS (nowC L) (\<lambda>t s.
       case websocket_send_binary message mk (t div 1000) (ln_ws (fst s)) of
         Inl e \<Rightarrow> (s, Inl (PoolCarrier e))
       | Inr w \<Rightarrow> (((fst s)\<lparr>ln_ws := w, ln_sent := ln_sent (fst s) @ [message]\<rparr>, snd s), Inr ())))"

definition lane_flush :: "pool_link \<Rightarrow> unit serve" where
  "lane_flush L =
     bindS (askC (pw_io (pl_world L))) (\<lambda>io s.
       case websocket_flush io 262144 (ln_ws (fst s)) of
         (w, r, sent) \<Rightarrow>
           (((fst s)\<lparr>ln_ws := w, ln_wire := ln_wire (fst s) @ sent\<rparr>, snd s),
            case r of Inl e \<Rightarrow> Inl (PoolCarrier e) | Inr _ \<Rightarrow> Inr ()))"

definition lane_control :: "pool_link \<Rightarrow> byte \<Rightarrow> bytes \<Rightarrow> unit serve" where
  "lane_control L flags payload = bindS (lane_encode L payload flags) (\<lambda>rec. lane_send L rec)"

text \<open>The waiting packets go out when the session has room and the shaper agrees.\<close>

definition lane_batch_ready :: "pool_link \<Rightarrow> bool serve" where
  "lane_batch_ready L = withL (\<lambda>l.
     let cfg = pl_cfg L in
     if \<not> (tx_queued_bytes (ln_ws l) < batch_bytes cfg * 2 \<and> \<not> fq_empty (ln_waiting l)) then retS (Inr False)
     else if \<not> traffic_shaping cfg then retS (Inr True)
     else bindS (nowC L) (\<lambda>t1. bindS (nowC L) (\<lambda>t2. bindS (askC (pw_delay (pl_world L))) (\<lambda>draw s.
       case sh_ready draw (fq_packets (ln_waiting l)) (oldest_age_us t1 (ln_waiting l)) (nat (shaping_delay_ms cfg)) t2 (ln_shaper (fst s)) of
         (b, sh) \<Rightarrow> (((fst s)\<lparr>ln_shaper := sh\<rparr>, snd s), Inr b)))))"

definition lane_batch :: "pool_link \<Rightarrow> int serve" where
  "lane_batch L = withL (\<lambda>l.
     let cfg = pl_cfg L; n = int (fq_packets (ln_waiting l)); lo = adaptive_batch_min_packets cfg; hi = adaptive_batch_max_packets cfg in
     if \<not> adaptive_batching cfg then retS (Inr (batch_packets cfg))
     else bindS (nowC L) (\<lambda>t. retS (Inr
       (if oldest_age_us t (ln_waiting l) > of_int (queue_target_delay_ms cfg) * 1000 then hi
        else if n < lo then lo else if hi < n then hi else n))))"

fun lane_fill :: "pool_link \<Rightarrow> nat \<Rightarrow> bytes \<Rightarrow> bytes serve" where
  "lane_fill L 0 message = retS (Inr message)"
| "lane_fill L (Suc n) message = withL (\<lambda>l.
     if fq_empty (ln_waiting l) then retS (Inr message)
     else case fq_pop (ln_waiting l) of (item, rest) \<Rightarrow>
       thenS (laneS (\<lambda>l. l\<lparr>ln_waiting := rest\<rparr>))
       (if fp_bytes item = [] then retS (Inr message)
        else bindS
          (if length message + length (fp_bytes item) + 64 > batch_bytes (pl_cfg L) \<and> message \<noteq> []
           then thenS (lane_send L message) (retS (Inr [])) else retS (Inr message))
          (\<lambda>m. bindS (lane_encode L (fp_bytes item) 0) (\<lambda>rec.
            thenS (statC (\<lambda>st. st\<lparr>st_payload_tx := st_payload_tx st + of_nat (length (fp_bytes item))\<rparr>))
              (lane_fill L n (m @ rec))))))"

definition lane_send_waiting :: "pool_link \<Rightarrow> unit serve" where
  "lane_send_waiting L =
     bindS (lane_batch_ready L) (\<lambda>ready. whenS ready
       (bindS (lane_batch L) (\<lambda>batch. bindS (lane_fill L (nat (max 1 batch)) []) (\<lambda>message.
         thenS (whenS (message \<noteq> []) (lane_send L message))
           (bindS (nowC L) (\<lambda>t. laneS (\<lambda>l. l\<lparr>ln_last_tx := t\<rparr>)))))))"

section \<open>Records and messages of the peer\<close>

definition lane_note_pong :: "pool_link \<Rightarrow> bytes \<Rightarrow> unit serve" where
  "lane_note_pong L pong = withL (\<lambda>l.
     whenS (ln_ping_pending l \<and> length pong = length (ln_ping_payload l) \<and> pong = ln_ping_payload l)
       (bindS (nowC L) (\<lambda>t. let token = decode_u64 pong in
         thenS (whenS (t \<ge> token) (statC (\<lambda>st. st\<lparr>st_ws_rtt_us := sint (t - token)\<rparr>)))
           (laneS (\<lambda>l. l\<lparr>ln_ping_pending := False\<rparr>)))))"

definition lane_on_payload :: "pool_link \<Rightarrow> bytes \<Rightarrow> unit serve" where
  "lane_on_payload L payload =
     bindS (nowC L) (\<lambda>t. thenS (laneS (\<lambda>l. l\<lparr>ln_last_data := t\<rparr>))
       (if payload = [] \<or> int (length payload) > mtu (pl_cfg L) + 256
        then statC (\<lambda>st. st\<lparr>st_drop_malformed := st_drop_malformed st + 1\<rparr>)
        else bindS (askC (pw_tun_write (pl_world L))) (\<lambda>write.
          if write payload
          then thenS (coreS (\<lambda>c. c\<lparr>c_tun_out := c_tun_out c @ [payload]\<rparr>))
            (statC (\<lambda>st. st\<lparr>st_tun_out_pkts := st_tun_out_pkts st + 1,
               st_tun_out_bytes := st_tun_out_bytes st + of_nat (length payload), st_payload_rx := st_payload_rx st + of_nat (length payload)\<rparr>))
          else statC (\<lambda>st. st\<lparr>st_drop_malformed := st_drop_malformed st + 1\<rparr>))))"

definition lane_on_pong :: "pool_link \<Rightarrow> bytes \<Rightarrow> unit serve" where
  "lane_on_pong L payload =
     thenS (statC (\<lambda>st. st\<lparr>st_pong_rx := st_pong_rx st + 1\<rparr>))
      (withL (\<lambda>l. whenS (length payload = 8 \<and> ln_probe_outstanding l \<and> decode_u64 payload = ln_probe_token l)
        (bindS (nowC L) (\<lambda>t. let rtt = t - ln_probe_token l in
          thenS (whenS (t \<ge> ln_probe_token l)
            (thenS (laneS (\<lambda>l. l\<lparr>ln_rtt_us := sint rtt, ln_rtt_sample := t\<rparr>))
              (statC (\<lambda>st. st\<lparr>st_rtt_us := sint rtt, st_rtt_sample_us := t, st_rtt_sample_seq := st_rtt_sample_seq st + 1,
                 st_rtt_history := rh_record rtt True (st_rtt_history st)\<rparr>))))
            (laneS (\<lambda>l. l\<lparr>ln_probe_outstanding := False\<rparr>))))))"

definition lane_on_drain :: "pool_link \<Rightarrow> unit serve" where
  "lane_on_drain L =
     (if \<not> pl_server L then failC ''unexpected server drain command''
      else withL (\<lambda>l. whenS (\<not> ln_draining l) (bindS (nowC L) (\<lambda>t. laneS (\<lambda>l.
        l\<lparr>ln_draining := True, ln_drain_until := t + of_int ((pool_drain_sec (pl_cfg L) + 5) * 1000000)\<rparr>)))))"

definition lane_on_record :: "pool_link \<Rightarrow> delivery \<Rightarrow> unit serve" where
  "lane_on_record L r =
     (case r of (flags, _, payload) \<Rightarrow>
      if flags = RECORD_DRAIN then lane_on_drain L
      else if flags = 0 then lane_on_payload L payload
      else if flags AND RECORD_PING \<noteq> 0 then
        seqS [statC (\<lambda>st. st\<lparr>st_ping_rx := st_ping_rx st + 1\<rparr>), lane_control L RECORD_PONG payload,
              statC (\<lambda>st. st\<lparr>st_pong_tx := st_pong_tx st + 1, st_ws_control_tx := st_ws_control_tx st + 1\<rparr>)]
      else if flags AND RECORD_PONG \<noteq> 0 then lane_on_pong L payload
      else whenS (flags AND RECORD_KEEPALIVE \<noteq> 0) (statC (\<lambda>st. st\<lparr>st_keepalive_rx := st_keepalive_rx st + 1\<rparr>)))"

text \<open>One message; the callbacks do not touch the decoder, so they are run before its outcome is looked at.\<close>

definition lane_on_message :: "pool_link \<Rightarrow> bytes \<Rightarrow> unit serve" where
  "lane_on_message L msg =
     thenS (statC (\<lambda>st. st\<lparr>st_ws_messages_rx := st_ws_messages_rx st + 1, st_wire_rx := st_wire_rx st + of_nat (length msg)\<rparr>))
      (withL (\<lambda>l0.
        case feed_v5 (pl_crypto L) (ln_dec l0) msg of
          (d, records, outcome) \<Rightarrow>
            thenS (eachS (lane_on_record L) records)
            (thenS (laneS (\<lambda>l. l\<lparr>ln_dec := d\<rparr>))
            (case outcome of
               FeedOk \<Rightarrow> statC (\<lambda>st. st\<lparr>st_sequence_gap := st_sequence_gap st + (sequence_gaps d - sequence_gaps (ln_dec l0))\<rparr>)
             | FeedThrow e \<Rightarrow> throwS (PoolDecode e)
             | FeedError e \<Rightarrow>
                 seqS
                  [statC (\<lambda>st. st\<lparr>st_replay_drop := st_replay_drop st + (replay_drops d - replay_drops (ln_dec l0))\<rparr>),
                   statC (if e = AuthFailed then (\<lambda>st. st\<lparr>st_auth_fail := st_auth_fail st + 1\<rparr>)
                     else (\<lambda>st. st\<lparr>st_drop_malformed := st_drop_malformed st + 1\<rparr>)),
                   failC ''PTT8 invalid authenticated record'']))))"

text \<open>\<open>w0\<close> is the session as it was when the turn of the lane began, whose counters are compared with.\<close>

definition lane_read :: "pool_link \<Rightarrow> ws_session \<Rightarrow> unit serve" where
  "lane_read L w0 =
     bindS (askC (pw_ready (pl_world L))) (\<lambda>ready. bindS (askC (pw_reads (pl_world L))) (\<lambda>reads. bindS (askC (pw_read_env (pl_world L))) (\<lambda>env.
     withL (\<lambda>l0. case websocket_read_messages ready reads env (ln_ws l0) of
       (w, Inl e) \<Rightarrow> thenS (laneS (\<lambda>l. l\<lparr>ln_ws := w\<rparr>)) (throwS (PoolCarrier e))
     | (w, Inr messages) \<Rightarrow>
         let pings = rx_ping_frames w - rx_ping_frames w0; pongs = rx_pong_frames w - rx_pong_frames w0 in
         seqS
          [laneS (\<lambda>l. l\<lparr>ln_ws := w\<rparr>),
           whenS (rx_frames w \<noteq> rx_frames (ln_ws l0)) (bindS (nowC L) (\<lambda>t. laneS (\<lambda>l. l\<lparr>ln_last_rx := t\<rparr>))),
           statC (\<lambda>st. st\<lparr>st_ws_ping_rx := st_ws_ping_rx st + pings, st_ws_pong_rx := st_ws_pong_rx st + pongs,
             st_ws_control_rx := st_ws_control_rx st + (pings + pongs)\<rparr>),
           withL (\<lambda>l. case websocket_take_pongs (ln_ws l) of (ps, w') \<Rightarrow>
             thenS (laneS (\<lambda>l. l\<lparr>ln_ws := w'\<rparr>)) (eachS (lane_note_pong L) ps)),
           eachS (lane_on_message L) messages]))))"

section \<open>Timers of a lane\<close>

definition lane_probe :: "pool_link \<Rightarrow> u64 \<Rightarrow> unit serve" where
  "lane_probe L t = withL (\<lambda>l.
     let cfg = pl_cfg L; active = (ln_last_data l \<noteq> 0 \<and> \<not> after_sec t (ln_last_data l) 60);
         interval = (if active then min 20 (max 5 (rtt_probe_sec cfg)) else min 120 (max 5 (idle_probe_sec cfg))) in
     whenS (\<not> ln_probe_outstanding l \<and> after_sec t (ln_last_probe l) interval)
       (bindS (nowC L) (\<lambda>token. seqS
         [laneS (\<lambda>l. l\<lparr>ln_probe_token := token, ln_probe_outstanding := True, ln_last_probe := t\<rparr>),
          lane_control L RECORD_PING (encode_u64 token),
          statC (\<lambda>st. st\<lparr>st_ping_tx := st_ping_tx st + 1, st_ws_control_tx := st_ws_control_tx st + 1\<rparr>)])))"

definition lane_ping :: "pool_link \<Rightarrow> u64 \<Rightarrow> unit serve" where
  "lane_ping L t = withL (\<lambda>l.
     whenS (websocket_ping_sec (pl_cfg L) > 0 \<and> \<not> ln_ping_pending l \<and> after_sec t (ln_last_ping l) (websocket_ping_sec (pl_cfg L)))
       (bindS (nowC L) (\<lambda>token. let b = encode_u64 token in
         thenS (laneS (\<lambda>l. l\<lparr>ln_ping_payload := b\<rparr>))
          (bindS (askC (pw_mask (pl_world L))) (\<lambda>mk. bindS (nowC L) (\<lambda>u s.
            case websocket_send_ping b mk (u div 1000) (ln_ws (fst s)) of
              Inl e \<Rightarrow> (s, Inl (PoolCarrier e))
            | Inr w \<Rightarrow> (((fst s)\<lparr>ln_ws := w, ln_ping_pending := True, ln_last_ping := t\<rparr>, snd s), Inr ())))))))"

definition lane_check_replies :: "pool_link \<Rightarrow> u64 \<Rightarrow> unit serve" where
  "lane_check_replies L t = withL (\<lambda>l.
     whenS (ln_probe_outstanding l \<and> after_sec t (ln_last_probe l) (reply_timeout_sec (pl_cfg L)))
       (thenS (statC (\<lambda>st. st\<lparr>st_reply_timeouts := st_reply_timeouts st + 1\<rparr>)) (failC ''pool authenticated reply timeout'')))"

definition lane_check_pong :: "pool_link \<Rightarrow> u64 \<Rightarrow> unit serve" where
  "lane_check_pong L t = withL (\<lambda>l. let cfg = pl_cfg L in
     thenS (whenS (ln_ping_pending l \<and> websocket_pong_timeout_sec cfg > 0 \<and> after_sec t (ln_last_ping l) (websocket_pong_timeout_sec cfg))
         (thenS (statC (\<lambda>st. st\<lparr>st_ws_missed_pongs := st_ws_missed_pongs st + 1\<rparr>)) (failC ''pool WebSocket PONG timeout'')))
       (whenS (ln_ping_pending l \<and> websocket_pong_timeout_sec cfg = 0 \<and> websocket_ping_sec cfg > 0 \<and>
               after_sec t (ln_last_ping l) (websocket_ping_sec cfg))
         (laneS (\<lambda>l. l\<lparr>ln_ping_pending := False\<rparr>))))"

definition lane_keepalive :: "pool_link \<Rightarrow> u64 \<Rightarrow> unit serve" where
  "lane_keepalive L t = withL (\<lambda>l.
     whenS (keepalive_sec (pl_cfg L) > 0 \<and> after_sec t (ln_last_tx l) (keepalive_sec (pl_cfg L)) \<and> \<not> websocket_tx_pending (ln_ws l))
       (seqS [lane_control L RECORD_KEEPALIVE [], laneS (\<lambda>l. l\<lparr>ln_last_tx := t\<rparr>),
              statC (\<lambda>st. st\<lparr>st_keepalive_tx := st_keepalive_tx st + 1\<rparr>)]))"

definition lane_account :: "ws_session \<Rightarrow> unit serve" where
  "lane_account w0 = withL (\<lambda>l.
     let w = ln_ws l; pings = tx_ping_frames w - tx_ping_frames w0; pongs = tx_pong_frames w - tx_pong_frames w0 in
     seqS
      [whenS (tx_binary_payload_bytes w > tx_binary_payload_bytes w0)
         (statC (\<lambda>st. st\<lparr>st_wire_tx := st_wire_tx st + (tx_binary_payload_bytes w - tx_binary_payload_bytes w0)\<rparr>)),
       whenS (tx_binary_frames w > tx_binary_frames w0)
         (statC (\<lambda>st. st\<lparr>st_ws_messages_tx := st_ws_messages_tx st + (tx_binary_frames w - tx_binary_frames w0)\<rparr>)),
       statC (\<lambda>st. st\<lparr>st_ws_ping_tx := st_ws_ping_tx st + pings, st_ws_pong_tx := st_ws_pong_tx st + pongs,
         st_ws_control_tx := st_ws_control_tx st + (pings + pongs)\<rparr>)])"

section \<open>One turn of a lane\<close>

definition lane_checks :: "pool_link \<Rightarrow> unit serve" where
  "lane_checks L =
     seqS
      [whenS (pl_server L) (bindS (askC (pw_force (pl_world L))) (\<lambda>force. whenS force (failC ''operator requested reconnect''))),
       withL (\<lambda>l. whenS (ln_draining l) (bindS (nowC L) (\<lambda>t. whenS (t \<ge> ln_drain_until l) (failC ''planned drain complete'')))),
       bindS (nowC L) (\<lambda>t. withL (\<lambda>l.
         whenS (websocket_tx_stalled (t div 1000) (websocket_io_timeout_sec (pl_cfg L) * 1000) (ln_ws l))
           (thenS (statC (\<lambda>st. st\<lparr>st_tx_stalls := st_tx_stalls st + 1\<rparr>)) (failC ''pool WebSocket write stalled''))))]"

definition lane_timers :: "pool_link \<Rightarrow> ws_session \<Rightarrow> bool \<Rightarrow> unit serve" where
  "lane_timers L w0 gone =
     bindS (nowC L) (\<lambda>t.
       seqS
        [lane_check_replies L t, lane_probe L t, lane_check_pong L t, lane_ping L t, lane_keepalive L t, lane_flush L,
         lane_account w0,
         withL (\<lambda>l. whenS (after_sec t (ln_last_rx l) (idle_timeout_sec (pl_cfg L))) (failC ''pool lane idle timeout'')),
         whenS gone (failC ''pool socket closed'')])"

definition serve_lane :: "pool_link \<Rightarrow> bool \<Rightarrow> unit serve" where
  "serve_lane L gone =
     thenS (lane_checks L) (withL (\<lambda>l0.
       seqS [lane_flush L, lane_send_waiting L, lane_flush L, lane_read L (ln_ws l0), lane_timers L (ln_ws l0) gone]))"

text \<open>
  The lanes are served in order until one fails; the result has the lanes served, the lanes not reached, and the
  failed lane.
\<close>

fun serve_lanes :: "pool_link \<Rightarrow> bool list \<Rightarrow> lane list \<Rightarrow> lane list \<Rightarrow> core \<Rightarrow> core \<times> lane list \<times> lane list \<times> (lane \<times> pool_error) option" where
  "serve_lanes L gone served [] c = (c, served, [], None)"
| "serve_lanes L gone served (l # ls) c =
     (case serve_lane L (length served < length gone \<and> gone ! length served) (l, c) of
        ((l', c'), Inr _) \<Rightarrow> serve_lanes L gone (served @ [l']) ls c'
      | ((l', c'), Inl e) \<Rightarrow> (c', served, ls, Some (l', e)))"

section \<open>The pool\<close>

definition askP :: "(nat \<Rightarrow> 'a) \<Rightarrow> 'a pooling" where
  "askP f p = (p\<lparr>p_core := (p_core p)\<lparr>c_ev := Suc (c_ev (p_core p))\<rparr>\<rparr>, Inr (f (c_ev (p_core p))))"

definition nowP :: "pool_link \<Rightarrow> u64 pooling" where
  "nowP L = askP (pw_clock (pl_world L))"

definition statP :: "(stats \<Rightarrow> stats) \<Rightarrow> unit pooling" where
  "statP f = modS (\<lambda>p. p\<lparr>p_core := (p_core p)\<lparr>c_stats := f (c_stats (p_core p))\<rparr>\<rparr>)"

definition eventP :: "string \<Rightarrow> unit pooling" where
  "eventP line = modS (\<lambda>p. p\<lparr>p_core := (p_core p)\<lparr>c_events := event line (c_events (p_core p))\<rparr>\<rparr>)"

definition failP :: "string \<Rightarrow> 'a pooling" where
  "failP msg = throwS (PoolFail msg)"

definition max_lanes :: "pool_link \<Rightarrow> nat" where
  "max_lanes L = nat (max_connections (pl_cfg L))"

definition new_lane :: "pool_link \<Rightarrow> u64 \<Rightarrow> u64 \<Rightarrow> connection \<Rightarrow> lane" where
  "new_lane L t serial c =
     (let k = hs_keys (cn_handshake c) in
      \<lparr>ln_id = serial, ln_handshake = cn_handshake c,
       ln_ws = (cn_ws c)\<lparr>io_timeout_ms := websocket_io_timeout_sec (pl_cfg L) * 1000\<rparr>,
       ln_dec = new_decoder (if mode (pl_cfg L) = ''server'' then client_tx k else server_tx k) (max_record_buffer_bytes (pl_cfg L)),
       ln_waiting = new_queue, ln_shaper = new_shaper t, ln_sequence = 1, ln_probe_token = 0, ln_probe_outstanding = False,
       ln_connected = t, ln_last_rx = t, ln_last_probe = t, ln_last_tx = t, ln_draining = False, ln_drain_until = 0,
       ln_last_data = 0, ln_rtt_us = - 1, ln_rtt_sample = 0, ln_renewal = new_renewal, ln_ping_pending = False,
       ln_ping_payload = replicate 8 0, ln_last_ping = t, ln_wire = [], ln_sent = [], ln_log = []\<rparr>)"

definition attach :: "pool_link \<Rightarrow> connection option \<Rightarrow> unit pooling" where
  "attach L conn =
     (case conn of
        None \<Rightarrow> skipS
      | Some c \<Rightarrow>
          let h = cn_handshake c in
          if hs_pool_connections h \<noteq> max_connections (pl_cfg L) \<or> \<not> hs_confirmed h \<or> \<not> peer_trial h
          then failP ''PTT8 authentication or pool agreement missing''
          else bindS (askP (pw_socket (pl_world L))) (\<lambda>ok. if \<not> ok then failP ''socket options'' else
            bindS (nowP L) (\<lambda>t. seqS
              [modS (\<lambda>p. p\<lparr>p_lanes := p_lanes p @ [new_lane L t (p_next_id p) c], p_next_id := p_next_id p + 1, p_attached := p_attached p + 1\<rparr>),
               withS (\<lambda>p. statP (\<lambda>st. st\<lparr>st_pool_active := of_nat (length (p_lanes p)), st_ptt5_sessions := st_ptt5_sessions st + 1\<rparr>)),
               modS (\<lambda>p. p\<lparr>p_state := 3, p_phase := 7\<rparr>), eventP ''pool lane=added'',
               modS (\<lambda>p. p\<lparr>p_backoff := reconnect_initial_ms (pl_cfg L)\<rparr>)])))"

text \<open>A lane leaves with the packets that wait on it, which are counted as dropped.\<close>

definition detach :: "pool_link \<Rightarrow> lane list \<Rightarrow> lane \<Rightarrow> lane list \<Rightarrow> pool_error \<Rightarrow> unit pooling" where
  "detach L served l rest e =
     seqS
      [statP (\<lambda>st. st\<lparr>st_drop_queue := st_drop_queue st + of_nat (fq_packets (ln_waiting l))\<rparr>),
       whenS (e \<noteq> PoolFail ''planned drain complete'')
         (statP (\<lambda>st. st\<lparr>st_pool_failures := st_pool_failures st + 1, st_reconnects := st_reconnects st + 1\<rparr>)),
       eventP ''pool lane=removed'',
       modS (\<lambda>p. p\<lparr>p_lanes := served @ rest, p_retired := p_retired p @ [l]\<rparr>),
       withS (\<lambda>p. statP (\<lambda>st. st\<lparr>st_pool_active := of_nat (length (p_lanes p))\<rparr>)),
       withS (\<lambda>p. whenS (p_lanes p = [])
         (thenS (modS (\<lambda>p. p\<lparr>p_state := (if mode (pl_cfg L) = ''server'' then 1 else 4), p_phase := (if mode (pl_cfg L) = ''server'' then 2 else 8)\<rparr>))
           (statP (\<lambda>st. st\<lparr>st_rtt_us := - 1\<rparr>))))]"

section \<open>New lanes\<close>

text \<open>The server takes connections while there is room; one that cannot be attached is counted.\<close>

fun accept_lanes :: "pool_link \<Rightarrow> connection option list \<Rightarrow> unit pooling" where
  "accept_lanes L [] = skipS"
| "accept_lanes L (c # cs) = withS (\<lambda>p.
     if \<not> length (p_lanes p) < nat (max_connections (pl_cfg L) + 1) then skipS
     else thenS (catchS (attach L c) (\<lambda>_. statP (\<lambda>st. st\<lparr>st_pool_failures := st_pool_failures st + 1\<rparr>))) (accept_lanes L cs))"

text \<open>The lane that is replaced is told to drain; if it cannot be told, it is removed at once.\<close>

definition retire_lane :: "pool_link \<Rightarrow> unit serve" where
  "retire_lane L =
     seqS
      [bindS (nowC L) (\<lambda>t. laneS (\<lambda>l. l\<lparr>ln_draining := True, ln_drain_until := t + of_int (pool_drain_sec (pl_cfg L) * 1000000)\<rparr>)),
       catchS (lane_control L RECORD_DRAIN []) (\<lambda>_. bindS (nowC L) (\<lambda>t. laneS (\<lambda>l. l\<lparr>ln_drain_until := t\<rparr>))),
       statC (\<lambda>st. st\<lparr>st_session_renewals := st_session_renewals st + 1\<rparr>),
       eventC ''pool replacement=verified'']"

fun retire_lanes :: "pool_link \<Rightarrow> u64 \<Rightarrow> lane list \<Rightarrow> core \<Rightarrow> lane list \<times> core" where
  "retire_lanes L old [] c = ([], c)"
| "retire_lanes L old (l # ls) c =
     (case (if ln_id l = old then fst (retire_lane L (l, c)) else (l, c)) of
        (l', c') \<Rightarrow> (case retire_lanes L old ls c' of (ls', c2) \<Rightarrow> (l' # ls', c2)))"

definition dialled :: "pool_link \<Rightarrow> connection \<Rightarrow> unit pooling" where
  "dialled L c = withS (\<lambda>p.
     if p_replacing p \<noteq> 0 \<and> p_reference_rtt p > 0 \<and> trial_max_rtt_us (cn_handshake c) \<ge> p_reference_rtt p * 8 sdiv 10
     then failP ''replacement trial did not improve authenticated RTT by 20 percent''
     else seqS
      [attach L (Some c),
       modS (\<lambda>p. if p_replacing p = 0 then p
         else case retire_lanes L (p_replacing p) (p_lanes p) (p_core p) of (ls, c') \<Rightarrow> p\<lparr>p_lanes := ls, p_core := c'\<rparr>),
       modS (\<lambda>p. p\<lparr>p_replacing := 0\<rparr>),
       bindS (nowP L) (\<lambda>t. modS (\<lambda>p. p\<lparr>p_next_replacement := t + of_int (latency_renew_cooldown_sec (pl_cfg L) * 1000000)\<rparr>))])"

definition dial_failed :: "pool_link \<Rightarrow> unit pooling" where
  "dial_failed L =
     seqS
      [statP (\<lambda>st. st\<lparr>st_pool_dial_failures := st_pool_dial_failures st + 1\<rparr>), eventP ''pool dial_failed'',
       bindS (nowP L) (\<lambda>t. bindS (askP (pw_jitter (pl_world L))) (\<lambda>draw. modS (\<lambda>p.
         p\<lparr>p_next_dial := t + of_int (jittered (p_backoff p) (reconnect_jitter_pct (pl_cfg L)) draw * 1000)\<rparr>))),
       modS (\<lambda>p. p\<lparr>p_next_replacement := (if p_replacing p \<noteq> 0 then p_next_dial p else p_next_replacement p), p_replacing := 0,
         p_backoff := min (p_backoff p * 2) (reconnect_max_ms (pl_cfg L))\<rparr>)]"

definition finish_dial :: "pool_link \<Rightarrow> unit pooling" where
  "finish_dial L = withS (\<lambda>p. whenS (p_dial p) (bindS (askP (pw_dial (pl_world L))) (\<lambda>d.
     case d of
       DialPending \<Rightarrow> skipS
     | DialFailed m \<Rightarrow> thenS (modS (\<lambda>p. p\<lparr>p_dial := False\<rparr>)) (catchS (failP m) (\<lambda>_. dial_failed L))
     | DialDone c \<Rightarrow> thenS (modS (\<lambda>p. p\<lparr>p_dial := False\<rparr>)) (catchS (dialled L c) (\<lambda>_. dial_failed L)))))"

text \<open>Whether a lane is to be replaced: on demand, without replies, too old, or slow.\<close>

definition replace_check :: "pool_link \<Rightarrow> bool \<Rightarrow> (u64 \<times> bool \<times> bool) option serve" where
  "replace_check L forced =
     bindS (nowC L) (\<lambda>instant. bindS (nowC L) (\<lambda>t s.
       let cfg = pl_cfg L; l = fst s;
           missing = (ln_probe_outstanding l \<and> after_sec instant (ln_last_probe l) (reply_renew_sec cfg));
           aged = (session_max_age_sec cfg > 0 \<and> after_sec instant (ln_connected l) (session_max_age_sec cfg));
           active = (ln_last_data l \<noteq> 0 \<and> \<not> after_sec instant (ln_last_data l) 60) in
       case lr_observe (latency_renew_ms cfg) (nat (latency_renew_samples cfg)) (nat (latency_renew_cooldown_sec cfg))
              \<lparr>ob_sample = ln_rtt_sample l, ob_rtt_us = ln_rtt_us l, ob_now = t, ob_active = active\<rparr> (ln_renewal l) of
         (sl, r) \<Rightarrow> ((l\<lparr>ln_renewal := r\<rparr>, snd s), Inr (if forced \<or> missing \<or> aged \<or> sl then Some (instant, sl, missing) else None))))"

fun pick_replacement :: "pool_link \<Rightarrow> bool \<Rightarrow> lane list \<Rightarrow> core \<Rightarrow> lane list \<times> core \<times> (lane \<times> u64 \<times> bool \<times> bool) option" where
  "pick_replacement L forced [] c = ([], c, None)"
| "pick_replacement L forced (l # ls) c =
     (case replace_check L forced (l, c) of
        ((l', c'), Inr (Some why)) \<Rightarrow> (l' # ls, c', Some (l', why))
      | ((l', c'), _) \<Rightarrow> (case pick_replacement L forced ls c' of (ls', c2, found) \<Rightarrow> (l' # ls', c2, found)))"

definition start_replacement :: "pool_link \<Rightarrow> unit pooling" where
  "start_replacement L = bindS (nowP L) (\<lambda>t1. bindS (nowP L) (\<lambda>t2. withS (\<lambda>p.
     whenS (\<not> p_dial p \<and> length (p_lanes p) = max_lanes L \<and> t1 \<ge> p_next_replacement p \<and> t2 \<ge> p_next_dial p \<and>
            list_all (\<lambda>l. \<not> ln_draining l) (p_lanes p))
      (bindS (askP (pw_force (pl_world L))) (\<lambda>forced. withS (\<lambda>p.
         case pick_replacement L forced (p_lanes p) (p_core p) of
           (ls, c, found) \<Rightarrow>
             thenS (modS (\<lambda>p. p\<lparr>p_lanes := ls, p_core := c\<rparr>))
             (case found of
                None \<Rightarrow> skipS
              | Some (l, instant, sl, missing) \<Rightarrow>
                  seqS
                   [modS (\<lambda>p. p\<lparr>p_replacing := ln_id l, p_reference_rtt := (if sl then ln_rtt_us l else - 1),
                      p_next_replacement := instant + of_int (latency_renew_cooldown_sec (pl_cfg L) * 1000000)\<rparr>),
                    whenS sl (statP (\<lambda>st. st\<lparr>st_latency_renewals := st_latency_renewals st + 1\<rparr>)),
                    whenS missing (statP (\<lambda>st. st\<lparr>st_reply_renewals := st_reply_renewals st + 1\<rparr>)),
                    eventP ''pool replacement=started'']))))))) "

definition start_dial :: "pool_link \<Rightarrow> unit pooling" where
  "start_dial L = bindS (nowP L) (\<lambda>t. withS (\<lambda>p.
     whenS ((length (p_lanes p) < max_lanes L \<or> p_replacing p \<noteq> 0) \<and> \<not> p_dial p \<and> t \<ge> p_next_dial p)
       (seqS
         [whenS (p_lanes p = []) (modS (\<lambda>p. p\<lparr>p_state := 2, p_phase := 3\<rparr>)),
          statP (\<lambda>st. st\<lparr>st_pool_dials := st_pool_dials st + 1\<rparr>), modS (\<lambda>p. p\<lparr>p_dial := True\<rparr>)])))"

definition supply_lanes :: "pool_link \<Rightarrow> unit pooling" where
  "supply_lanes L =
     (if pl_server L then bindS (askP (pw_arrivals (pl_world L))) (accept_lanes L)
      else seqS [finish_dial L, start_replacement L, start_dial L])"

section \<open>Queues, poll and TUN device\<close>

definition outstanding_packets :: "lane list \<Rightarrow> nat" where
  "outstanding_packets ls = sum_list (map (\<lambda>l. fq_packets (ln_waiting l)) ls)"

definition outstanding_bytes :: "lane list \<Rightarrow> nat" where
  "outstanding_bytes ls = sum_list (map (\<lambda>l. fq_bytes (ln_waiting l)) ls)"

definition prune_affinity :: "pool_link \<Rightarrow> u64 \<Rightarrow> unit pooling" where
  "prune_affinity L t = withS (\<lambda>p. whenS (elapsed t (p_last_prune p) > 10000000)
     (bindS (nowP L) (\<lambda>u. modS (\<lambda>p. p\<lparr>p_affinity := pool_prune u (p_affinity p), p_last_prune := t\<rparr>))))"

text \<open>Every lane drops what waited too long; one reading of the clock stands for those of the loop.\<close>

definition expire_lanes :: "pool_link \<Rightarrow> unit pooling" where
  "expire_lanes L = bindS (nowP L) (\<lambda>t. withS (\<lambda>p.
     let ttl = of_int (queue_delay_ms (pl_cfg L)) * 1000;
         dropped = sum_list (map (\<lambda>l. fst (drop_expired t ttl (ln_waiting l))) (p_lanes p)) in
     thenS (modS (\<lambda>p. p\<lparr>p_lanes := map (\<lambda>l. l\<lparr>ln_waiting := snd (drop_expired t ttl (ln_waiting l))\<rparr>) (p_lanes p)\<rparr>))
       (statP (\<lambda>st. st\<lparr>st_drop_delay := st_drop_delay st + of_nat dropped\<rparr>))))"

definition note_outstanding :: "unit pooling" where
  "note_outstanding = withS (\<lambda>p.
     let ls = p_lanes p; n = of_nat (outstanding_packets ls); b = of_nat (outstanding_bytes ls) in
     statP (\<lambda>st. st\<lparr>st_queue_pkts := n, st_queue_bytes := b,
       st_ws_tx_pending_bytes := of_nat (sum_list (map (\<lambda>l. tx_queued_bytes (ln_ws l)) ls)),
       st_queue_peak_pkts := max (st_queue_peak_pkts st) n, st_queue_peak_bytes := max (st_queue_peak_bytes st) b\<rparr>))"

definition can_read :: "pool_link \<Rightarrow> lane list \<Rightarrow> bool" where
  "can_read L ls \<longleftrightarrow> ls \<noteq> [] \<and> outstanding_packets ls < queue_packets (pl_cfg L) \<and> outstanding_bytes ls < queue_bytes (pl_cfg L)"

definition pool_poll_step :: "pool_link \<Rightarrow> pool_poll pooling" where
  "pool_poll_step L = bindS (askP (pw_buffered (pl_world L))) (\<lambda>buffered. withS (\<lambda>p.
     let cfg = pl_cfg L; ls = p_lanes p;
         send_ready = list_ex (\<lambda>l. \<not> fq_empty (ln_waiting l) \<and> tx_queued_bytes (ln_ws l) < batch_bytes cfg * 2) ls;
         timeout_ms = (if buffered then 0 else if send_ready then (if traffic_shaping cfg then 1 else 0) else pool_idle_poll_ms cfg);
         events = map (\<lambda>l. websocket_rx_poll_events (ln_ws l) #
           (case websocket_tx_poll_events (ln_ws l) of None \<Rightarrow> [] | Some e \<Rightarrow> [e])) ls in
     askP (\<lambda>k. pw_poll (pl_world L) k timeout_ms events (can_read L ls))))"

text \<open>
  The lane a new flow goes to: round trip, age and amount of what waits, and a penalty for missing replies. The sums are exact
  in the \<open>long double\<close> of the source as long as they stay below \<open>2 ^ 64\<close>.
\<close>

definition lane_score :: "config \<Rightarrow> u64 \<Rightarrow> u64 \<Rightarrow> lane \<Rightarrow> int" where
  "lane_score cfg instant t l =
     (let pending_age = (if ln_probe_outstanding l then elapsed_ms t (ln_last_probe l) else 0) in
      (if ln_rtt_us l < 0 then 100000 else ln_rtt_us l) + uint (oldest_age_us instant (ln_waiting l)) +
      int (fq_bytes (ln_waiting l) + tx_queued_bytes (ln_ws l)) * 8 +
      (if pending_age \<ge> reply_degraded_sec cfg * 1000 then 1000000000000 else 0))"

fun preferred_lane :: "(lane \<Rightarrow> int) \<Rightarrow> lane list \<Rightarrow> int option \<Rightarrow> u64 \<Rightarrow> u64" where
  "preferred_lane score [] best preferred = preferred"
| "preferred_lane score (l # ls) best preferred =
     (if ln_draining l then preferred_lane score ls best preferred
      else case best of
        None \<Rightarrow> preferred_lane score ls (Some (score l)) (ln_id l)
      | Some b \<Rightarrow> if score l < b then preferred_lane score ls (Some (score l)) (ln_id l) else preferred_lane score ls best preferred)"

text \<open>\<open>find_if\<close>: the first lane with the id takes the packet.\<close>

fun push_lane :: "config \<Rightarrow> u64 \<Rightarrow> bytes \<Rightarrow> u64 \<Rightarrow> u64 \<Rightarrow> lane list \<Rightarrow> lane list option" where
  "push_lane cfg chosen packet t u [] = None"
| "push_lane cfg chosen packet t u (l # ls) =
     (if ln_id l = chosen
      then (case fq_push packet t (queue_packets cfg) (queue_bytes cfg) (ln_waiting l) of
          (ok, q) \<Rightarrow> if ok then Some (l\<lparr>ln_waiting := q, ln_last_data := u\<rparr> # ls) else None)
      else map_option (\<lambda>ls. l # ls) (push_lane cfg chosen packet t u ls))"

text \<open>One packet: the lane of its flow, and room in the queues. The result is whether it was taken.\<close>

definition pool_packet :: "pool_link \<Rightarrow> bytes \<Rightarrow> nat \<Rightarrow> nat \<Rightarrow> bool pooling" where
  "pool_packet L packet packets bytes =
     bindS (nowP L) (\<lambda>instant. bindS (nowP L) (\<lambda>t. bindS (askP (pw_place (pl_world L))) (\<lambda>place.
     bindS (nowP L) (\<lambda>u. bindS (nowP L) (\<lambda>v. withS (\<lambda>p.
       let cfg = pl_cfg L; ls = p_lanes p; preferred = preferred_lane (lane_score cfg instant t) ls None 0 in
       case pool_choose place packet (map ln_id ls) instant preferred (p_affinity p) of
         (chosen, aff) \<Rightarrow>
           thenS (modS (\<lambda>p. p\<lparr>p_affinity := aff\<rparr>))
           (let taken = (if packets \<ge> queue_packets cfg \<or> bytes + length packet + 64 > queue_bytes cfg then None
                         else push_lane cfg chosen packet u v ls) in
            case taken of
              None \<Rightarrow> thenS (statP count_drop) (retS (Inr False))
            | Some ls' \<Rightarrow> thenS (modS (\<lambda>p. p\<lparr>p_lanes := ls'\<rparr>)) (retS (Inr True)))))))))"

fun pool_read_tun :: "pool_link \<Rightarrow> nat \<Rightarrow> nat \<Rightarrow> nat \<Rightarrow> unit pooling" where
  "pool_read_tun L 0 packets bytes = skipS"
| "pool_read_tun L (Suc n) packets bytes =
     bindS (askP (pw_tun_read (pl_world L))) (\<lambda>r.
       case r of
         TunAgain \<Rightarrow> skipS
       | TunStopped \<Rightarrow> pool_read_tun L n packets bytes
       | TunClosed \<Rightarrow> failP ''PTT8 TUN read failed''
       | TunFailed \<Rightarrow> failP ''PTT8 TUN read failed''
       | TunPacket packet \<Rightarrow>
           thenS (statP (\<lambda>st. st\<lparr>st_tun_in_pkts := st_tun_in_pkts st + 1, st_tun_in_bytes := st_tun_in_bytes st + of_nat (length packet)\<rparr>))
           (bindS (pool_packet L packet packets bytes) (\<lambda>taken.
             if taken then pool_read_tun L n (packets + 1) (bytes + length packet + 64) else pool_read_tun L n packets bytes)))"

section \<open>The body of the loop\<close>

definition serve_all :: "pool_link \<Rightarrow> bool list \<Rightarrow> unit pooling" where
  "serve_all L gone = withS (\<lambda>p.
     case serve_lanes L gone [] (p_lanes p) (p_core p) of
       (c, served, rest, None) \<Rightarrow> modS (\<lambda>p. p\<lparr>p_core := c, p_lanes := served @ rest\<rparr>)
     | (c, served, rest, Some (l, e)) \<Rightarrow> thenS (modS (\<lambda>p. p\<lparr>p_core := c\<rparr>)) (detach L served l rest e))"

definition pool_status :: "pool_link \<Rightarrow> unit pooling" where
  "pool_status L = bindS (nowP L) (\<lambda>t. withS (\<lambda>p.
     let ls = p_lanes p in
     if ls \<noteq> []
     then thenS (modS (\<lambda>p. p\<lparr>p_state := 3, p_phase := 7\<rparr>))
       (statP (\<lambda>st. st\<lparr>st_last_rx_age_ms := foldl (\<lambda>a l. max a (of_int (elapsed_ms t (ln_last_rx l)))) 0 ls,
          st_degraded := length ls < max_lanes L\<rparr>))
     else statP (\<lambda>st. st\<lparr>st_last_rx_age_ms := of_int (idle_timeout_sec (pl_cfg L)) * 1000, st_degraded := True\<rparr>)))"

definition pool_turn :: "pool_link \<Rightarrow> unit pooling" where
  "pool_turn L =
     thenS (supply_lanes L)
     (thenS (withS (\<lambda>p. statP (\<lambda>st. st\<lparr>st_pool_active := of_nat (length (p_lanes p))\<rparr>)))
     (bindS (nowP L) (\<lambda>t.
     thenS (seqS [prune_affinity L t, expire_lanes L, note_outstanding])
     (bindS (pool_poll_step L) (\<lambda>r.
      case r of
        PoolPollFailed \<Rightarrow> failP ''PTT8 poll failed''
      | PoolPollInterrupted \<Rightarrow> skipS
      | PoolPolled gone tun_ready \<Rightarrow>
          seqS
           [withS (\<lambda>p. whenS (can_read L (p_lanes p) \<and> tun_ready)
              (pool_read_tun L (nat (max 1 (batch_packets (pl_cfg L)))) (outstanding_packets (p_lanes p)) (outstanding_bytes (p_lanes p)))),
            serve_all L gone, pool_status L])))))"

fun pool_loop_n :: "pool_link \<Rightarrow> nat \<Rightarrow> unit pooling" where
  "pool_loop_n L 0 = skipS"
| "pool_loop_n L (Suc n) = thenS (pool_turn L) (pool_loop_n L n)"

text \<open>The state at the start, with one reading of the clock for all initialisers.\<close>

definition start_pool :: "pool_link \<Rightarrow> u64 \<Rightarrow> stats \<Rightarrow> pool" where
  "start_pool L t st =
     (let cfg = pl_cfg L in
      \<lparr>p_core = \<lparr>c_ev = 0,
         c_shape = new_shape_budget (traffic_shaping cfg) (nat (shaping_rate_bytes cfg)) (nat (shaping_burst_bytes cfg)) t,
         c_padding = new_padding_budget (nat (padding_budget_pct cfg)) t, c_stats = st, c_events = [], c_tun_out = []\<rparr>,
       p_lanes = [], p_affinity = [], p_next_id = 1, p_dial = False, p_next_dial = t, p_last_prune = t,
       p_backoff = reconnect_initial_ms cfg, p_replacing = 0, p_reference_rtt = - 1, p_next_replacement = t,
       p_state = 0, p_phase = 0, p_retired = [], p_attached = 0\<rparr>)"

end
