(* ===== verification/PoolLanes.thy ===== *)
theory PoolLanes
  imports PoolLoop TunnelProps
begin

text \<open>
  What holds of one lane of the pool, in every turn and however it ends: its records, its stream, and its waiting packets.
\<close>

section \<open>Code between two conditions\<close>

text \<open>
  From \<open>I\<close>, the code ends with a result \<open>x\<close> in a state of \<open>J x\<close>, or throws in a state of \<open>Q\<close>.
\<close>

definition leads :: "('s \<Rightarrow> bool) \<Rightarrow> ('s, 'e, 'a) se \<Rightarrow> ('a \<Rightarrow> 's \<Rightarrow> bool) \<Rightarrow> ('s \<Rightarrow> bool) \<Rightarrow> bool" where
  "leads I m J Q \<longleftrightarrow> (\<forall>s s'. I s \<longrightarrow> (\<forall>e. m s = (s', Inl e) \<longrightarrow> Q s') \<and> (\<forall>x. m s = (s', Inr x) \<longrightarrow> J x s'))"

lemma leadsI:
  assumes "\<And>s s' e. I s \<Longrightarrow> m s = (s', Inl e) \<Longrightarrow> Q s'" "\<And>s s' x. I s \<Longrightarrow> m s = (s', Inr x) \<Longrightarrow> J x s'"
  shows "leads I m J Q"
  using assms unfolding leads_def by blast

lemma leadsD: "leads I m J Q \<Longrightarrow> I s \<Longrightarrow> m s = (s', Inl e) \<Longrightarrow> Q s'" "leads I m J Q \<Longrightarrow> I s \<Longrightarrow> m s = (s', Inr x) \<Longrightarrow> J x s'"
  unfolding leads_def by blast+

lemma leads_bindS:
  assumes "leads I m J Q" "\<And>x. leads (J x) (f x) K Q"
  shows "leads I (bindS m f) K Q"
  by (rule leadsI; erule bindS_cases) (use assms in \<open>auto dest: leadsD\<close>)

lemma leads_thenS: "leads I m (\<lambda>_. J) Q \<Longrightarrow> leads J k K Q \<Longrightarrow> leads I (thenS m k) K Q"
  unfolding thenS_def by (rule leads_bindS)

lemma leads_retS: "(\<And>s. I s \<Longrightarrow> J x s) \<Longrightarrow> leads I (retS (Inr x)) J Q"
  by (simp add: leads_def retS_def)

lemma leads_throwS: "(\<And>s. I s \<Longrightarrow> Q s) \<Longrightarrow> leads I (throwS e) J Q"
  by (simp add: leads_def retS_def throwS_def)

lemma leads_modS: "(\<And>s. I s \<Longrightarrow> J () (f s)) \<Longrightarrow> leads I (modS f) J Q"
  by (simp add: leads_def modS_def)

lemma leads_withS: "(\<And>t. leads (\<lambda>s. I s \<and> s = t) (f t) J Q) \<Longrightarrow> leads I (withS f) J Q"
  unfolding leads_def withS_def by blast

lemma leads_pre: "leads I' m J Q \<Longrightarrow> (\<And>s. I s \<Longrightarrow> I' s) \<Longrightarrow> leads I m J Q"
  unfolding leads_def by blast

lemma leads_post: "leads I m J' Q \<Longrightarrow> (\<And>x s. J' x s \<Longrightarrow> J x s) \<Longrightarrow> leads I m J Q"
  unfolding leads_def by blast

lemma holds_leads: "leads I m (\<lambda>_. I) Q \<Longrightarrow> holds I Q m"
  by (rule holdsI) (rule leadsD; assumption)+

lemma leads_holds: "holds I Q m \<Longrightarrow> leads I m (\<lambda>_. I) Q"
  by (rule leadsI) (rule holdsD; assumption)+

section \<open>Lanes\<close>

text \<open>
  What stays the same in a turn of a lane, or only shrinks or grows: the id, the key, the packets and bytes that wait,
  the count of interactions, and, for a client, whether the lane is draining.
\<close>

type_synonym berth = "u64 \<times> bytes \<times> nat \<times> nat \<times> nat \<times> bool"

definition at_berth :: "pool_link \<Rightarrow> berth \<Rightarrow> lane \<times> core \<Rightarrow> bool" where
  "at_berth L b s \<longleftrightarrow> (case b of (i, k, n, m, e, d) \<Rightarrow> ln_id (fst s) = i \<and> lane_tx_key L (fst s) = k \<and> fq_inv (ln_waiting (fst s)) \<and>
     fq_packets (ln_waiting (fst s)) \<le> n \<and> fq_bytes (ln_waiting (fst s)) \<le> m \<and> e \<le> c_ev (snd s) \<and>
     (pl_server L \<or> ln_draining (fst s) = d))"

definition lane_records :: "pool_link \<Rightarrow> lane \<Rightarrow> bool" where
  "lane_records L l \<longleftrightarrow> (\<forall>(q, f, p, r) \<in> set (ln_log l). sent_v5 (pl_crypto L) (lane_tx_key L l) r (f, q, p)) \<and>
     sorted_wrt (<) (map fst (ln_log l))"

definition lane_ahead :: "lane \<Rightarrow> bool" where
  "lane_ahead l \<longleftrightarrow> ln_sequence l = 0 \<or> (\<forall>e \<in> set (ln_log l). fst e < ln_sequence l)"

text \<open>Every message is a run of whole records, in the order they were made; \<open>m\<close> is a message being filled.\<close>

definition lane_stream :: "bytes \<Rightarrow> lane \<Rightarrow> bool" where
  "lane_stream m l \<longleftrightarrow> (\<exists>xss xs. subseq (concat xss @ xs) (ln_log l) \<and> ln_sent l = map (\<lambda>xs. concat (map rec_of xs)) xss \<and>
     m = concat (map rec_of xs))"

definition lane_wired :: "pool_link \<Rightarrow> lane \<Rightarrow> bool" where
  "lane_wired L l \<longleftrightarrow> framed (\<not> pl_server L) (websocket_ping_sec (pl_cfg L) > 0) (ln_ws l) (ln_wire l) (ln_sent l)"

definition lane_end :: "pool_link \<Rightarrow> berth \<Rightarrow> lane \<times> core \<Rightarrow> bool" where
  "lane_end L b s \<longleftrightarrow> at_berth L b s \<and> lane_records L (fst s) \<and> lane_stream [] (fst s) \<and> lane_wired L (fst s)"

definition lane_inv :: "pool_link \<Rightarrow> berth \<Rightarrow> bytes \<Rightarrow> lane \<times> core \<Rightarrow> bool" where
  "lane_inv L b m s \<longleftrightarrow> at_berth L b s \<and> lane_records L (fst s) \<and> lane_ahead (fst s) \<and> lane_stream m (fst s) \<and> lane_wired L (fst s)"

lemma tx_key_simps [simp]:
  "lane_tx_key L (l\<lparr>ln_ws := w\<rparr>) = lane_tx_key L l" "lane_tx_key L (l\<lparr>ln_waiting := q\<rparr>) = lane_tx_key L l"
  "lane_tx_key L (l\<lparr>ln_sequence := i\<rparr>) = lane_tx_key L l" "lane_tx_key L (l\<lparr>ln_wire := b\<rparr>) = lane_tx_key L l"
  "lane_tx_key L (l\<lparr>ln_sent := ms\<rparr>) = lane_tx_key L l" "lane_tx_key L (l\<lparr>ln_log := es\<rparr>) = lane_tx_key L l"
  "lane_tx_key L (l\<lparr>ln_draining := d\<rparr>) = lane_tx_key L l" "lane_tx_key L (l\<lparr>ln_drain_until := t\<rparr>) = lane_tx_key L l"
  by (simp_all add: lane_tx_key_def)

text \<open>What the pool needs: a steady clock, and connections that start with nothing to send.\<close>

definition pool_link_ok :: "pool_link \<Rightarrow> bool" where
  "pool_link_ok L \<longleftrightarrow> (\<forall>k. rng_ok (pw_pad (pl_world L) k)) \<and> (\<forall>k. mask4 (pw_mask (pl_world L) k)) \<and>
     (\<forall>k. io_ok (pw_io (pl_world L) k)) \<and> (\<forall>k i. mask4 (fst (pw_read_env (pl_world L) k i))) \<and> (\<forall>k. place_ok (pw_place (pl_world L) k)) \<and>
     (\<forall>k c. pw_dial (pl_world L) k = DialDone c \<longrightarrow> ws_invar (\<not> pl_server L) (cn_ws c) \<and> pending (cn_ws c) = []) \<and>
     (\<forall>k c. Some c \<in> set (pw_arrivals (pl_world L) k) \<longrightarrow> ws_invar (\<not> pl_server L) (cn_ws c) \<and> pending (cn_ws c) = []) \<and>
     mono (pw_clock (pl_world L)) \<and> 1 \<le> max_connections (pl_cfg L)"

lemma lane_stream_Nil: "lane_stream m l \<Longrightarrow> lane_stream [] l"
proof -
  assume "lane_stream m l"
  then obtain xss xs where x: "subseq (concat xss @ xs) (ln_log l)" "ln_sent l = map (\<lambda>xs. concat (map rec_of xs)) xss"
    by (auto simp: lane_stream_def)
  have "subseq (concat xss) (concat xss @ xs)" by (simp add: prefix_imp_subseq)
  with x(1) have "subseq (concat xss) (ln_log l)" by (rule subseq_order.trans [rotated])
  with x(2) show ?thesis unfolding lane_stream_def by (intro exI [of _ xss] exI [of _ "[]"]) simp
qed

lemma lane_stream_cong: "ln_sent l' = ln_sent l \<Longrightarrow> ln_log l' = ln_log l \<Longrightarrow> lane_stream m l' = lane_stream m l"
  by (simp add: lane_stream_def)

lemma lane_inv_end: "lane_inv L b m s \<Longrightarrow> lane_end L b s"
  using lane_stream_Nil by (auto simp: lane_inv_def lane_end_def)

lemma lane_inv_Nil: "lane_inv L b m s \<Longrightarrow> lane_inv L b [] s"
  using lane_stream_Nil by (auto simp: lane_inv_def)

text \<open>The parts of a lane that matter here.\<close>

definition lane_vital :: "lane \<Rightarrow> u64 \<times> ws_handshake_result \<times> ws_session \<times> flow_queue \<times> u64 \<times> bytes \<times> bytes list \<times> (u64 \<times> byte \<times> bytes \<times> bytes) list \<times> bool" where
  "lane_vital l = (ln_id l, ln_handshake l, ln_ws l, ln_waiting l, ln_sequence l, ln_wire l, ln_sent l, ln_log l, ln_draining l)"

definition lane_same :: "lane \<times> core \<Rightarrow> lane \<times> core \<Rightarrow> bool" where
  "lane_same s s' \<longleftrightarrow> lane_vital (fst s') = lane_vital (fst s) \<and> c_ev (snd s) \<le> c_ev (snd s')"

lemmas lane_same_simps = lane_same_def lane_vital_def

interpretation lidle: preserved lane_same
  by unfold_locales (simp_all add: lane_same_def)

lemma lane_inv_same: "lane_same s s' \<Longrightarrow> lane_inv L b m s \<Longrightarrow> lane_inv L b m s'"
proof -
  assume a: "lane_same s s'" and i: "lane_inv L b m s"
  have "lane_tx_key L (fst s') = lane_tx_key L (fst s)" using a by (simp add: lane_same_simps lane_tx_key_def)
  with a i show ?thesis using lane_stream_cong [of "fst s'" "fst s" m]
    by (cases b) (simp add: lane_inv_def at_berth_def lane_records_def lane_ahead_def lane_wired_def lane_same_simps)
qed

interpretation lanes: guarded "lane_inv L b m" "lane_end L b" for L b m
  by unfold_locales (rule lane_inv_end)

abbreviation lane_safe :: "pool_link \<Rightarrow> berth \<Rightarrow> bytes \<Rightarrow> 'a serve \<Rightarrow> bool" where
  "lane_safe L b m \<equiv> holds (lane_inv L b m) (lane_end L b)"

lemma lidle_safe: "keeps lane_same c \<Longrightarrow> lane_safe L b m c"
  by (rule holdsI) (blast dest: keepsD lane_inv_same lane_inv_end)+

lemma lidle_askC: "keeps lane_same (askC f)"
  by (simp add: keeps_def askC_def lane_same_simps)

lemma lidle_nowC: "keeps lane_same (nowC L)"
  by (simp add: nowC_def lidle_askC)

lemma lidle_coreS: "(\<And>c. c_ev (f c) = c_ev c) \<Longrightarrow> keeps lane_same (coreS f)"
  unfolding coreS_def by (intro lidle.keeps_modS) (simp add: lane_same_simps)

lemma lidle_statC: "keeps lane_same (statC f)"
  by (simp add: statC_def lidle_coreS)

lemma lidle_eventC: "keeps lane_same (eventC l)"
  by (simp add: eventC_def lidle_coreS)

lemma lidle_laneS: "(\<And>l. lane_vital (f l) = lane_vital l) \<Longrightarrow> keeps lane_same (laneS f)"
  unfolding laneS_def by (intro lidle.keeps_modS) (simp add: lane_same_def)

lemma lidle_withL: "(\<And>l. keeps lane_same (f l)) \<Longrightarrow> keeps lane_same (withL f)"
  unfolding withL_def by (intro lidle.keeps_withS)

lemma lidle_failC: "keeps lane_same (failC m)"
  by (simp add: failC_def)

lemma lidle_pair: "(\<And>s a b. g s = (a, b) \<Longrightarrow> lane_same s (h a b s)) \<Longrightarrow> keeps lane_same (\<lambda>s. case g s of (a, b) \<Rightarrow> (h a b s, k a b s))"
  by (auto simp: keeps_def split: prod.split)

lemmas lidle_rules = lidle.keeps_retS lidle.keeps_bindS lidle.keeps_thenS lidle.keeps_whenS lidle.keeps_withS
  lidle.keeps_eachS lidle_askC lidle_nowC lidle_coreS lidle_statC lidle_eventC lidle_laneS lidle_withL lidle_failC lidle_pair

section \<open>The records of a lane\<close>

lemma lane_inv_record:
  assumes "lane_inv L b m s" "sent_v5 (pl_crypto L) (lane_tx_key L (fst s)) r (f, ln_sequence (fst s), p)" "ln_sequence (fst s) \<noteq> 0"
  shows "lane_inv L b (m @ r) ((fst s)\<lparr>ln_sequence := ln_sequence (fst s) + 1, ln_log := ln_log (fst s) @ [(ln_sequence (fst s), f, p, r)]\<rparr>, snd s)"
proof -
  let ?l = "fst s" and ?e = "(ln_sequence (fst s), f, p, r)"
  let ?l' = "?l\<lparr>ln_sequence := ln_sequence ?l + 1, ln_log := ln_log ?l @ [?e]\<rparr>"
  have k: "lane_tx_key L ?l' = lane_tx_key L ?l" by (simp add: lane_tx_key_def)
  have a: "\<forall>e \<in> set (ln_log ?l). fst e < ln_sequence ?l" using assms(1,3) by (simp add: lane_inv_def lane_ahead_def)
  have n: "ln_sequence ?l + 1 = 0 \<or> ln_sequence ?l < ln_sequence ?l + 1"
    by (metis add.commute lessI unatSuc word_less_nat_alt)
  have "lane_ahead ?l'" using a n by (auto simp: lane_ahead_def intro: less_trans)
  moreover have "lane_records L ?l'" using assms(1,2) a k by (auto simp: lane_inv_def lane_records_def sorted_wrt_append)
  moreover have "lane_stream (m @ r) ?l'"
  proof -
    obtain xss xs where x: "subseq (concat xss @ xs) (ln_log ?l)" "ln_sent ?l = map (\<lambda>xs. concat (map rec_of xs)) xss" "m = concat (map rec_of xs)"
      using assms(1) by (auto simp: lane_inv_def lane_stream_def)
    have "subseq ((concat xss @ xs) @ [?e]) (ln_log ?l @ [?e])" by (intro list_emb_append_mono x(1)) simp
    with x(2,3) show ?thesis unfolding lane_stream_def
      by (intro exI [of _ xss] exI [of _ "xs @ [?e]"]) (simp add: rec_of_def)
  qed
  ultimately show ?thesis using assms(1) k by (simp add: lane_inv_def lane_wired_def at_berth_def split: prod.splits)
qed

lemma lane_end_sequence:
  assumes "lane_inv L b m s"
  shows "lane_end L b ((fst s)\<lparr>ln_sequence := q\<rparr>, snd s)"
proof -
  have "lane_tx_key L ((fst s)\<lparr>ln_sequence := q\<rparr>) = lane_tx_key L (fst s)" by (simp add: lane_tx_key_def)
  with lane_inv_end [OF assms] lane_stream_cong [of "(fst s)\<lparr>ln_sequence := q\<rparr>" "fst s" "[]"] show ?thesis
    by (simp add: lane_end_def at_berth_def lane_records_def lane_wired_def split: prod.splits)
qed

lemma lane_record_leads:
  assumes "\<And>q r. enc q = Inr r \<Longrightarrow> sent_v5 (pl_crypto L) k r (f, q, p) \<and> q \<noteq> 0"
  shows "leads (\<lambda>s. lane_inv L b m s \<and> lane_tx_key L (fst s) = k) (lane_record p f enc) (\<lambda>r. lane_inv L b (m @ r)) (lane_end L b)"
proof (rule leadsI)
  fix s s' e assume i: "lane_inv L b m s \<and> lane_tx_key L (fst s) = k" "lane_record p f enc s = (s', Inl e)"
  then have "s' = ((fst s)\<lparr>ln_sequence := ln_sequence (fst s) + 1\<rparr>, snd s)"
    by (auto simp: lane_record_def Let_def split: sum.splits)
  with i(1) lane_end_sequence [of L b m s] show "lane_end L b s'" by simp
next
  fix s s' x assume i: "lane_inv L b m s \<and> lane_tx_key L (fst s) = k" "lane_record p f enc s = (s', Inr x)"
  then have e: "enc (ln_sequence (fst s)) = Inr x" and
    s': "s' = ((fst s)\<lparr>ln_sequence := ln_sequence (fst s) + 1, ln_log := ln_log (fst s) @ [(ln_sequence (fst s), f, p, x)]\<rparr>, snd s)"
    by (auto simp: lane_record_def Let_def split: sum.splits)
  show "lane_inv L b (m @ x) s'"
    unfolding s' by (rule lane_inv_record) (use i(1) assms [OF e] in simp_all)
qed

text \<open>Composition where the message being filled changes.\<close>

lemma lane_idle: "keeps lane_same (c :: 'a serve) \<Longrightarrow> leads (lane_inv L b m) c (\<lambda>_. lane_inv L b m) (lane_end L b)"
  by (intro leads_holds lidle_safe)

lemma leads_withL: "(\<And>l. leads (\<lambda>s. I s \<and> fst s = l) (f l) J Q) \<Longrightarrow> leads I (withL f) J Q"
  unfolding withL_def leads_def withS_def by blast

lemma encode_v5_made:
  assumes "encode_record_v5 C key q p f = Inr r" "f \<in> {0, RECORD_KEEPALIVE, RECORD_PING, RECORD_PONG, RECORD_DRAIN}"
  shows "sent_v5 C key r (f, q, p) \<and> q \<noteq> 0"
  using assms by (auto simp: sent_v5_def record_flags encode_record_v5_def encode_aead_record_def result_iff split: if_splits)

lemma encode_envelope_made:
  assumes "encode_envelope_record_v5 C rng key q p f n = Inr r" "rng_ok rng"
  shows "sent_v5 C key r (f, q, p) \<and> q \<noteq> 0"
proof -
  have "q \<noteq> 0" using assms(1)
    by (auto simp: encode_envelope_record_v5_def encode_record_v5_def encode_aead_record_def result_iff split: if_splits)
  with assms show ?thesis by (auto simp: sent_v5_def)
qed

lemma lane_plain_leads:
  assumes "f \<in> {0, RECORD_KEEPALIVE, RECORD_PING, RECORD_PONG, RECORD_DRAIN}"
  shows "leads (lane_inv L b m) (lane_plain L p f) (\<lambda>r. lane_inv L b (m @ r)) (lane_end L b)"
  unfolding lane_plain_def
proof (rule leads_withL)
  fix l
  show "leads (\<lambda>s. lane_inv L b m s \<and> fst s = l) (lane_record p f (\<lambda>q. encode_record_v5 (pl_crypto L) (lane_tx_key L l) q p f))
      (\<lambda>r. lane_inv L b (m @ r)) (lane_end L b)"
    by (rule leads_pre [OF lane_record_leads [where k = "lane_tx_key L l"]]) (use encode_v5_made assms in blast, simp)
qed

lemma leads_askC:
  assumes "\<And>k. leads (lane_inv L b m) (f (g k)) J (lane_end L b)"
  shows "leads (lane_inv L b m) (bindS (askC g) f) J (lane_end L b)"
proof -
  have e: "bindS (askC g) f s = f (g (c_ev (snd s))) (fst s, (snd s)\<lparr>c_ev := Suc (c_ev (snd s))\<rparr>)" for s by (simp add: bindS_def askC_def)
  have i: "lane_inv L b m s \<Longrightarrow> lane_inv L b m (fst s, (snd s)\<lparr>c_ev := Suc (c_ev (snd s))\<rparr>)" for s
    by (erule lane_inv_same [rotated]) (simp add: lane_same_simps)
  show ?thesis by (rule leadsI) (auto simp: e dest: i leadsD [OF assms])
qed

lemma lane_envelope_leads:
  assumes "pool_link_ok L"
  shows "leads (lane_inv L b m) (lane_envelope L p f n) (\<lambda>r. lane_inv L b (m @ r)) (lane_end L b)"
  unfolding lane_envelope_def
proof (intro leads_askC leads_withL)
  fix k l
  have "rng_ok (pw_pad (pl_world L) k)" using assms by (simp add: pool_link_ok_def)
  then show "leads (\<lambda>s. lane_inv L b m s \<and> fst s = l) (lane_record p f (\<lambda>q. encode_envelope_record_v5 (pl_crypto L) (pw_pad (pl_world L) k) (lane_tx_key L l) q p f n))
      (\<lambda>r. lane_inv L b (m @ r)) (lane_end L b)"
    by (intro leads_pre [OF lane_record_leads [where k = "lane_tx_key L l"]]) (use encode_envelope_made in blast, simp)
qed

lemma lidle_maximum: "keeps lane_same (lane_maximum L control)"
  by (simp add: lane_maximum_def Let_def lidle_rules)

lemma control_allowance_ev: "keeps lane_same (lane_allowance L control n m)"
  unfolding lane_allowance_def
  by (cases control, simp_all only: if_True if_False) (intro lidle_rules; simp add: lane_same_simps)+

lemma lidle_spend: "keeps lane_same (lane_spend L control n)"
  unfolding lane_spend_def by (intro lidle_rules) (simp add: Let_def)

lemma leads_if: "(b \<Longrightarrow> leads I m J Q) \<Longrightarrow> (\<not> b \<Longrightarrow> leads I k J Q) \<Longrightarrow> leads I (if b then m else k) J Q"
  by simp

lemma lane_encode_leads:
  assumes "pool_link_ok L" "f \<in> {0, RECORD_KEEPALIVE, RECORD_PING, RECORD_PONG, RECORD_DRAIN}"
  shows "leads (lane_inv L b m) (lane_encode L p f) (\<lambda>r. lane_inv L b (m @ r)) (lane_end L b)"
proof -
  have o: "keeps lane_same (whenS (\<not> f \<noteq> 0) (bindS (nowC L) (\<lambda>t. laneS (\<lambda>l. l\<lparr>ln_shaper := sh_observe (of_nat (length p)) t (ln_shaper l)\<rparr>))))"
    by (intro lidle_rules) (simp add: lane_vital_def)
  show ?thesis
    unfolding lane_encode_def Let_def
    by (intro leads_if lane_plain_leads assms(2) leads_thenS [OF lane_idle [OF o]] leads_bindS [OF lane_idle [OF lidle_maximum]]
        leads_bindS [OF lane_idle [OF control_allowance_ev]] leads_bindS [OF lane_envelope_leads [OF assms(1)]]
        leads_thenS [OF lane_idle [OF lidle_spend]] leads_retS)
qed

section \<open>The stream of a lane\<close>

lemma lane_inv_ws:
  assumes "lane_inv L b m s" "framed (\<not> pl_server L) (websocket_ping_sec (pl_cfg L) > 0) w (ln_wire (fst s) @ out) (ln_sent (fst s))"
  shows "lane_inv L b m ((fst s)\<lparr>ln_ws := w, ln_wire := ln_wire (fst s) @ out\<rparr>, snd s)"
  using assms lane_stream_cong [of "(fst s)\<lparr>ln_ws := w, ln_wire := ln_wire (fst s) @ out\<rparr>" "fst s"]
  by (simp add: lane_inv_def at_berth_def lane_records_def lane_ahead_def lane_wired_def split: prod.splits)

lemma lane_framed: "lane_inv L b m s \<Longrightarrow> framed (\<not> pl_server L) (websocket_ping_sec (pl_cfg L) > 0) (ln_ws (fst s)) (ln_wire (fst s)) (ln_sent (fst s))"
  by (simp add: lane_inv_def lane_wired_def)

lemma lane_inv_sent:
  assumes "lane_inv L b m s" "framed (\<not> pl_server L) (websocket_ping_sec (pl_cfg L) > 0) w (ln_wire (fst s)) (ln_sent (fst s) @ [m])"
  shows "lane_inv L b [] ((fst s)\<lparr>ln_ws := w, ln_sent := ln_sent (fst s) @ [m]\<rparr>, snd s)"
proof -
  let ?l = "(fst s)\<lparr>ln_ws := w, ln_sent := ln_sent (fst s) @ [m]\<rparr>"
  obtain xss xs where x: "subseq (concat xss @ xs) (ln_log (fst s))" "ln_sent (fst s) = map (\<lambda>xs. concat (map rec_of xs)) xss" "m = concat (map rec_of xs)"
    using assms(1) by (auto simp: lane_inv_def lane_stream_def)
  then have "lane_stream [] ?l" unfolding lane_stream_def by (intro exI [of _ "xss @ [xs]"] exI [of _ "[]"]) simp
  with assms show ?thesis
    by (simp add: lane_inv_def at_berth_def lane_records_def lane_ahead_def lane_wired_def split: prod.splits)
qed

lemma lane_send_leads:
  assumes "pool_link_ok L"
  shows "leads (lane_inv L b m) (lane_send L m) (\<lambda>_. lane_inv L b []) (lane_end L b)"
  unfolding lane_send_def
proof (intro leads_askC leads_bindS [OF lane_idle [OF lidle_nowC]])
  fix k and t :: u64
  let ?x = "(pw_mask (pl_world L) k, t div 1000)"
  have x: "mask4 (fst ?x)" using assms by (simp add: pool_link_ok_def)
  show "leads (lane_inv L b m) (\<lambda>s. case websocket_send_binary m (pw_mask (pl_world L) k) (t div 1000) (ln_ws (fst s)) of
       Inl e \<Rightarrow> (s, Inl (PoolCarrier e))
     | Inr w \<Rightarrow> (((fst s)\<lparr>ln_ws := w, ln_sent := ln_sent (fst s) @ [m]\<rparr>, snd s), Inr ())) (\<lambda>_. lane_inv L b []) (lane_end L b)"
  proof (rule leadsI)
    fix s s' x assume i: "lane_inv L b m s" and "(case websocket_send_binary m (pw_mask (pl_world L) k) (t div 1000) (ln_ws (fst s)) of
       Inl e \<Rightarrow> (s, Inl (PoolCarrier e))
     | Inr w \<Rightarrow> (((fst s)\<lparr>ln_ws := w, ln_sent := ln_sent (fst s) @ [m]\<rparr>, snd s), Inr ())) = (s', Inr x)"
    then obtain w where w: "websocket_send_binary m (pw_mask (pl_world L) k) (t div 1000) (ln_ws (fst s)) = Inr w"
      "s' = ((fst s)\<lparr>ln_ws := w, ln_sent := ln_sent (fst s) @ [m]\<rparr>, snd s)" by (auto split: sum.splits)
    have "carrier_send m ?x (ln_ws (fst s)) = Inr w" using w(1) by (simp add: carrier_send_def)
    from lane_inv_sent [OF i framed_send [OF lane_framed [OF i] x this]] w(2) show "lane_inv L b [] s'" by simp
  qed (auto split: sum.splits dest: lane_inv_end)
qed

lemma lane_flush_safe:
  assumes "pool_link_ok L"
  shows "lane_safe L b m (lane_flush L)"
  unfolding lane_flush_def
proof (intro holds_leads leads_askC)
  fix k
  have io: "io_ok (pw_io (pl_world L) k)" using assms by (simp add: pool_link_ok_def)
  have k: "lane_inv L b m s'" if i: "lane_inv L b m s" and
    e: "(case websocket_flush (pw_io (pl_world L) k) 262144 (ln_ws (fst s)) of (w, r, sent) \<Rightarrow>
       (((fst s)\<lparr>ln_ws := w, ln_wire := ln_wire (fst s) @ sent\<rparr>, snd s), case r of Inl e \<Rightarrow> Inl (PoolCarrier e) | Inr _ \<Rightarrow> Inr ())) = (s', r)" for s s' r
  proof -
    obtain w x out where f: "websocket_flush (pw_io (pl_world L) k) 262144 (ln_ws (fst s)) = (w, x, out)" by (cases "websocket_flush (pw_io (pl_world L) k) 262144 (ln_ws (fst s))") auto
    then have "framed (\<not> pl_server L) (websocket_ping_sec (pl_cfg L) > 0) w (ln_wire (fst s) @ out) (ln_sent (fst s))"
      by (intro framed_flush [OF lane_framed [OF i] io]) (simp add: carrier_flush_def)
    from lane_inv_ws [OF i this] e f show ?thesis by auto
  qed
  show "leads (lane_inv L b m) (\<lambda>s. case websocket_flush (pw_io (pl_world L) k) 262144 (ln_ws (fst s)) of (w, r, sent) \<Rightarrow>
       (((fst s)\<lparr>ln_ws := w, ln_wire := ln_wire (fst s) @ sent\<rparr>, snd s), case r of Inl e \<Rightarrow> Inl (PoolCarrier e) | Inr _ \<Rightarrow> Inr ()))
      (\<lambda>_. lane_inv L b m) (lane_end L b)"
    by (rule leadsI) (blast dest: k intro: lane_inv_end)+
qed

lemma lane_control_safe:
  assumes "pool_link_ok L" "f \<in> {0, RECORD_KEEPALIVE, RECORD_PING, RECORD_PONG, RECORD_DRAIN}"
  shows "lane_safe L b [] (lane_control L f p)"
  unfolding lane_control_def
  by (intro holds_leads leads_bindS [OF lane_encode_leads [OF assms]]) (simp add: lane_send_leads assms(1))

lemma lane_inv_popped:
  assumes "lane_inv L b m s" "\<not> fq_empty (ln_waiting (fst s))" "fq_pop (ln_waiting (fst s)) = (item, rest)"
  shows "lane_inv L b m ((fst s)\<lparr>ln_waiting := rest\<rparr>, snd s)"
proof -
  have q: "fq_inv (ln_waiting (fst s))" using assms(1) by (cases b) (simp add: lane_inv_def at_berth_def)
  have "fq_inv rest" using pop_inv [OF q] assms(3) by simp
  then show ?thesis using assms(1) pop_effect(2,3) [OF q assms(2,3)] lane_stream_cong [of "(fst s)\<lparr>ln_waiting := rest\<rparr>" "fst s"]
    by (auto simp: lane_inv_def at_berth_def lane_records_def lane_ahead_def lane_wired_def split: prod.splits)
qed

lemma lane_fill_leads:
  assumes "pool_link_ok L"
  shows "leads (lane_inv L b m) (lane_fill L n m) (\<lambda>m'. lane_inv L b m') (lane_end L b)"
proof (induction n arbitrary: m)
  case 0
  then show ?case by (simp add: leads_retS)
next
  case (Suc n)
  have p: "leads (\<lambda>s. lane_inv L b m s \<and> fst s = l) (laneS (\<lambda>l. l\<lparr>ln_waiting := rest\<rparr>)) (\<lambda>_. lane_inv L b m) (lane_end L b)"
    if "\<not> fq_empty (ln_waiting l)" "fq_pop (ln_waiting l) = (item, rest)" for l item rest
    unfolding laneS_def by (intro leads_modS) (use lane_inv_popped that in blast)
  have s: "leads (lane_inv L b m) (if c then thenS (lane_send L m) (retS (Inr [])) else retS (Inr m)) (\<lambda>m. lane_inv L b m) (lane_end L b)" for c
    by (intro leads_if leads_thenS [OF lane_send_leads [OF assms]] leads_retS)
  have e: "leads (lane_inv L b m') (bindS (lane_encode L item 0) (\<lambda>rec. thenS (statC f) (lane_fill L n (m' @ rec)))) (\<lambda>m. lane_inv L b m) (lane_end L b)" for m' item f
    by (intro leads_bindS [OF lane_encode_leads [OF assms]] leads_thenS [OF lane_idle [OF lidle_statC]] Suc) simp
  show ?case
    unfolding lane_fill.simps
  proof (rule leads_withL)
    fix l :: lane
    obtain item rest where q: "fq_pop (ln_waiting l) = (item, rest)" by (cases "fq_pop (ln_waiting l)")
    show "leads (\<lambda>s. lane_inv L b m s \<and> fst s = l) (if fq_empty (ln_waiting l) then retS (Inr m)
       else case fq_pop (ln_waiting l) of (item, rest) \<Rightarrow>
         thenS (laneS (\<lambda>l. l\<lparr>ln_waiting := rest\<rparr>))
         (if fp_bytes item = [] then retS (Inr m)
          else bindS (if length m + length (fp_bytes item) + 64 > batch_bytes (pl_cfg L) \<and> m \<noteq> []
              then thenS (lane_send L m) (retS (Inr [])) else retS (Inr m))
            (\<lambda>m. bindS (lane_encode L (fp_bytes item) 0) (\<lambda>rec.
              thenS (statC (\<lambda>st. st\<lparr>st_payload_tx := st_payload_tx st + of_nat (length (fp_bytes item))\<rparr>)) (lane_fill L n (m @ rec))))))
      (\<lambda>m. lane_inv L b m) (lane_end L b)"
      unfolding q prod.case
      by (intro leads_if leads_thenS [OF p [OF _ q]] leads_bindS [OF s] e) (auto intro!: leads_retS)
  qed
qed

lemma lidle_batch_ready: "keeps lane_same (lane_batch_ready L)"
  unfolding lane_batch_ready_def Let_def by (intro lidle.keeps_retS lidle_withL) (auto intro!: lidle_rules simp: lane_same_simps)

lemma lidle_batch: "keeps lane_same (lane_batch L)"
  unfolding lane_batch_def Let_def by (intro lidle_withL) (auto intro!: lidle_rules)

lemma lane_send_waiting_safe:
  assumes "pool_link_ok L"
  shows "lane_safe L b [] (lane_send_waiting L)"
proof -
  have t: "keeps lane_same (bindS (nowC L) (\<lambda>t. laneS (\<lambda>l. l\<lparr>ln_last_tx := t\<rparr>)))" by (intro lidle_rules) (simp add: lane_vital_def)
  have w: "leads (lane_inv L b m) (whenS (m \<noteq> []) (lane_send L m)) (\<lambda>_. lane_inv L b []) (lane_end L b)" for m
    by (cases "m = []") (simp_all add: whenS_def lane_send_leads assms skipS_def leads_retS)
  show ?thesis
    unfolding lane_send_waiting_def
    by (intro lanes.holds_bindS [OF lidle_safe [OF lidle_batch_ready]] lanes.holds_whenS lanes.holds_bindS [OF lidle_safe [OF lidle_batch]]
        holds_leads leads_bindS [OF lane_fill_leads [OF assms]] leads_thenS [OF w] lane_idle [OF t])
qed

section \<open>Reading and timers\<close>

lemma lane_safe_withL: "(\<And>l. lane_safe L b m (f l)) \<Longrightarrow> lane_safe L b m (withL f)"
  unfolding withL_def by (intro lanes.holds_withS)

lemmas lane_rules = lanes.holds_retS lanes.holds_bindS lanes.holds_thenS lanes.holds_whenS lane_safe_withL lanes.holds_eachS
  lidle_safe [OF lidle_askC] lidle_safe [OF lidle_nowC] lidle_safe [OF lidle_statC] lidle_safe [OF lidle_eventC] lidle_safe [OF lidle_failC]

lemma lane_safe_laneS: "(\<And>l. lane_vital (f l) = lane_vital l) \<Longrightarrow> lane_safe L b m (laneS f)"
  by (intro lidle_safe lidle_laneS)

lemma lidle_note_pong: "keeps lane_same (lane_note_pong L p)"
  unfolding lane_note_pong_def Let_def by (intro lidle_rules) (simp add: lane_vital_def)

lemma lidle_on_payload: "keeps lane_same (lane_on_payload L p)"
  unfolding lane_on_payload_def by (auto intro!: lidle_rules simp: lane_vital_def)

lemma lidle_on_pong: "keeps lane_same (lane_on_pong L p)"
  unfolding lane_on_pong_def Let_def by (intro lidle_rules) (simp_all add: lane_vital_def)

text \<open>Only a server obeys the command to drain.\<close>

lemma lane_on_drain_safe: "lane_safe L b m (lane_on_drain L)"
proof (cases "pl_server L")
  case True
  have i: "lane_inv L b m (l\<lparr>ln_draining := True, ln_drain_until := t\<rparr>, c)" if "lane_inv L b m (l, c)" for l c t
  proof -
    have "lane_tx_key L (l\<lparr>ln_draining := True, ln_drain_until := t\<rparr>) = lane_tx_key L l" by (simp add: lane_tx_key_def)
    with that True lane_stream_cong [of "l\<lparr>ln_draining := True, ln_drain_until := t\<rparr>" l m] show ?thesis
      by (cases b) (simp add: lane_inv_def at_berth_def lane_records_def lane_ahead_def lane_wired_def)
  qed
  have "lane_safe L b m (laneS (\<lambda>l. l\<lparr>ln_draining := True, ln_drain_until := t\<rparr>))" for t
    unfolding laneS_def by (intro lanes.holds_modS) (metis i prod.collapse)
  with True show ?thesis unfolding lane_on_drain_def by (auto intro!: lane_rules)
qed (simp add: lane_on_drain_def lidle_safe lidle_failC)

lemma lane_on_record_safe: "pool_link_ok L \<Longrightarrow> lane_safe L b [] (lane_on_record L r)"
  unfolding lane_on_record_def seqS.simps
  by (cases r) (auto intro!: lane_rules lane_control_safe lane_on_drain_safe lidle_safe [OF lidle_on_payload] lidle_safe [OF lidle_on_pong])

lemma lane_on_message_safe: "pool_link_ok L \<Longrightarrow> lane_safe L b [] (lane_on_message L msg)"
  unfolding lane_on_message_def seqS.simps
  by (auto intro!: lane_rules lane_safe_laneS lane_on_record_safe split: prod.splits feed_outcome.splits simp: lane_vital_def)

text \<open>What reading puts into the queue of the session is answers to control frames.\<close>

lemma lane_inv_answers:
  assumes "lane_inv L b m s" "answers (\<not> pl_server L) (ln_ws (fst s)) w"
  shows "lane_inv L b m ((fst s)\<lparr>ln_ws := w\<rparr>, snd s)"
proof -
  have "framed (\<not> pl_server L) (websocket_ping_sec (pl_cfg L) > 0) w (ln_wire (fst s) @ []) (ln_sent (fst s))"
    using framed_answers [OF lane_framed [OF assms(1)] assms(2)] by simp
  from lane_inv_ws [OF assms(1) this] show ?thesis by simp
qed

lemma lane_safe_askC: "(\<And>k. lane_safe L b m (f (g k))) \<Longrightarrow> lane_safe L b m (bindS (askC g) f)"
  by (intro holds_leads leads_askC) (rule leads_holds)

text \<open>A step that reads the lane and starts with a change of it.\<close>

lemma lane_safe_start:
  assumes "\<And>s. lane_inv L b m s \<Longrightarrow> \<exists>g k. f (fst s) = thenS (laneS g) k \<and> lane_inv L b m (g (fst s), snd s) \<and> lane_safe L b m k"
  shows "lane_safe L b m (withL f)"
  unfolding withL_def
proof (rule lanes.holds_start)
  fix s assume "lane_inv L b m s"
  from assms [OF this] obtain g k where "f (fst s) = thenS (laneS g) k" "lane_inv L b m (g (fst s), snd s)" "lane_safe L b m k" by blast
  then show "\<exists>g k. f (fst s) = thenS (modS g) k \<and> lane_inv L b m (g s) \<and> lane_safe L b m k"
    by (intro exI [of _ "\<lambda>s. (g (fst s), snd s)"] exI [of _ k]) (simp add: laneS_def)
qed

lemma lane_take_pongs_safe:
  "lane_safe L b m (withL (\<lambda>l. case websocket_take_pongs (ln_ws l) of (ps, w) \<Rightarrow> thenS (laneS (\<lambda>l. l\<lparr>ln_ws := w\<rparr>)) (eachS (lane_note_pong L) ps)))"
proof (rule lane_safe_start)
  fix s assume i: "lane_inv L b m s"
  obtain ps w where p: "websocket_take_pongs (ln_ws (fst s)) = (ps, w)" by fastforce
  have "answers (\<not> pl_server L) (ln_ws (fst s)) w"
    using p by (intro answers_same) (auto simp: websocket_take_pongs_def)
  from lane_inv_answers [OF i this] p show "\<exists>g k. (case websocket_take_pongs (ln_ws (fst s)) of (ps, w) \<Rightarrow> thenS (laneS (\<lambda>l. l\<lparr>ln_ws := w\<rparr>)) (eachS (lane_note_pong L) ps)) = thenS (laneS g) k \<and>
      lane_inv L b m (g (fst s), snd s) \<and> lane_safe L b m k"
    by (intro exI conjI) (auto intro!: lane_rules lidle_safe [OF lidle_note_pong])
qed

lemma lane_read_safe:
  assumes "pool_link_ok L"
  shows "lane_safe L b [] (lane_read L w0)"
proof -
  have r: "lane_inv L b [] ((fst s)\<lparr>ln_ws := w\<rparr>, snd s)"
    if i: "lane_inv L b [] s" and c: "websocket_read_messages ready reads (pw_read_env (pl_world L) k) (ln_ws (fst s)) = (w, r)" for s w r ready reads k
    by (rule lane_inv_answers [OF i read_answers]) (use assms c in \<open>simp_all add: pool_link_ok_def carrier_read_def\<close>)
  have k: "lane_safe L b [] (withL (\<lambda>l. case websocket_read_messages ready reads (pw_read_env (pl_world L) k) (ln_ws l) of
       (w, Inl e) \<Rightarrow> thenS (laneS (\<lambda>l. l\<lparr>ln_ws := w\<rparr>)) (throwS (PoolCarrier e))
     | (w, Inr messages) \<Rightarrow> thenS (laneS (\<lambda>l. l\<lparr>ln_ws := w\<rparr>)) (rest l w messages)))"
    if m: "\<And>l w messages. lane_safe L b [] (rest l w messages)" for ready reads k and rest :: "lane \<Rightarrow> ws_session \<Rightarrow> bytes list \<Rightarrow> unit serve"
  proof (rule lane_safe_start)
    fix s assume i: "lane_inv L b [] s"
    obtain w x where c: "websocket_read_messages ready reads (pw_read_env (pl_world L) k) (ln_ws (fst s)) = (w, x)" by fastforce
    show "\<exists>g ka. (case websocket_read_messages ready reads (pw_read_env (pl_world L) k) (ln_ws (fst s)) of
         (w, Inl e) \<Rightarrow> thenS (laneS (\<lambda>l. l\<lparr>ln_ws := w\<rparr>)) (throwS (PoolCarrier e))
       | (w, Inr messages) \<Rightarrow> thenS (laneS (\<lambda>l. l\<lparr>ln_ws := w\<rparr>)) (rest (fst s) w messages)) = thenS (laneS g) ka \<and>
        lane_inv L b [] (g (fst s), snd s) \<and> lane_safe L b [] ka"
      using c r [OF i c] m by (intro exI [of _ "\<lambda>l. l\<lparr>ln_ws := w\<rparr>"] exI [of _ "case x of Inl e \<Rightarrow> throwS (PoolCarrier e) | Inr ms \<Rightarrow> rest (fst s) w ms"])
        (auto split: sum.splits intro!: lane_rules)
  qed
  show ?thesis
    unfolding lane_read_def Let_def seqS.simps
    by (intro lane_safe_askC k)
      (auto intro!: lane_rules lane_safe_laneS lane_take_pongs_safe lane_on_message_safe assms simp: lane_vital_def)
qed

lemma lane_probe_safe: "pool_link_ok L \<Longrightarrow> lane_safe L b [] (lane_probe L t)"
  unfolding lane_probe_def Let_def seqS.simps
  by (intro lane_rules lane_safe_laneS lane_control_safe) (simp_all add: lane_vital_def)

lemma lane_ping_safe:
  assumes "pool_link_ok L"
  shows "lane_safe L b [] (lane_ping L t)"
proof (cases "websocket_ping_sec (pl_cfg L) > 0")
  case True
  have k: "lane_safe L b [] (\<lambda>s. case websocket_send_ping p (pw_mask (pl_world L) k) (u div 1000) (ln_ws (fst s)) of
       Inl e \<Rightarrow> (s, Inl (PoolCarrier e))
     | Inr w \<Rightarrow> (((fst s)\<lparr>ln_ws := w, ln_ping_pending := True, ln_last_ping := t\<rparr>, snd s), Inr ()))" for p k and u :: u64
  proof (rule holdsI)
    fix s s' x assume i: "lane_inv L b [] s" and "(case websocket_send_ping p (pw_mask (pl_world L) k) (u div 1000) (ln_ws (fst s)) of
       Inl e \<Rightarrow> (s, Inl (PoolCarrier e))
     | Inr w \<Rightarrow> (((fst s)\<lparr>ln_ws := w, ln_ping_pending := True, ln_last_ping := t\<rparr>, snd s), Inr ())) = (s', Inr x)"
    then obtain w where w: "websocket_send_ping p (pw_mask (pl_world L) k) (u div 1000) (ln_ws (fst s)) = Inr w"
      "s' = ((fst s)\<lparr>ln_ws := w, ln_ping_pending := True, ln_last_ping := t\<rparr>, snd s)" by (auto split: sum.splits)
    let ?x = "(pw_mask (pl_world L) k, u div 1000)"
    have x: "mask4 (fst ?x)" using assms by (simp add: pool_link_ok_def)
    have "carrier_send_ping p ?x (ln_ws (fst s)) = Inr w" using w(1) by (simp add: carrier_send_ping_def)
    from framed_ping [OF lane_framed [OF i] x this True]
    have "lane_inv L b [] ((fst s)\<lparr>ln_ws := w, ln_wire := ln_wire (fst s) @ []\<rparr>, snd s)" by (intro lane_inv_ws [OF i]) simp
    then show "lane_inv L b [] s'" by (rule lane_inv_same [rotated]) (simp add: w(2) lane_same_simps)
  qed (auto split: sum.splits dest: lane_inv_end)
  show ?thesis
    unfolding lane_ping_def Let_def
    by (intro lane_safe_askC k lane_rules lane_safe_laneS) (simp add: lane_vital_def)
next
  case False
  then show ?thesis unfolding lane_ping_def Let_def by (intro lane_safe_withL) (simp add: whenS_def lanes.holds_retS)
qed

lemma lane_keepalive_safe: "pool_link_ok L \<Longrightarrow> lane_safe L b [] (lane_keepalive L t)"
  unfolding lane_keepalive_def seqS.simps
  by (intro lane_rules lane_safe_laneS lane_control_safe) (simp_all add: lane_vital_def)

lemma lane_check_replies_safe: "lane_safe L b [] (lane_check_replies L t)"
  unfolding lane_check_replies_def by (intro lane_rules)

lemma lane_check_pong_safe: "lane_safe L b [] (lane_check_pong L t)"
  unfolding lane_check_pong_def Let_def by (intro lane_rules lane_safe_laneS) (simp add: lane_vital_def)

lemma lane_account_safe: "lane_safe L b [] (lane_account w0)"
  unfolding lane_account_def Let_def seqS.simps by (intro lane_rules)

lemma lane_timers_safe: "pool_link_ok L \<Longrightarrow> lane_safe L b [] (lane_timers L w0 gone)"
  unfolding lane_timers_def seqS.simps
  by (intro lane_rules lane_check_replies_safe lane_probe_safe lane_check_pong_safe lane_ping_safe lane_keepalive_safe lane_flush_safe lane_account_safe)

lemma lane_checks_safe: "lane_safe L b m (lane_checks L)"
  unfolding lane_checks_def seqS.simps by (intro lane_rules)

lemma serve_lane_safe: "pool_link_ok L \<Longrightarrow> lane_safe L b [] (serve_lane L gone)"
  unfolding serve_lane_def seqS.simps
  by (intro lane_rules lane_checks_safe lane_flush_safe lane_send_waiting_safe lane_read_safe lane_timers_safe)

section \<open>A lane between its turns\<close>

text \<open>
  A lane whose command to drain could not be made is doomed: its time is over at once. Its sequence numbers are not
  known to be fresh any more, but its next turn ends it before it makes a record.
\<close>

definition lane_doomed :: "pool_link \<Rightarrow> nat \<Rightarrow> lane \<Rightarrow> bool" where
  "lane_doomed L k l \<longleftrightarrow> ln_draining l \<and> ln_drain_until l \<le> pw_clock (pl_world L) k"

definition lane_done :: "pool_link \<Rightarrow> lane \<Rightarrow> bool" where
  "lane_done L l \<longleftrightarrow> fq_inv (ln_waiting l) \<and> lane_records L l \<and> lane_stream [] l \<and> lane_wired L l"

definition lane_ok :: "pool_link \<Rightarrow> nat \<Rightarrow> lane \<Rightarrow> bool" where
  "lane_ok L k l \<longleftrightarrow> lane_done L l \<and> (lane_ahead l \<or> lane_doomed L k l)"

text \<open>What a turn does to a lane.\<close>

definition slimmer :: "lane \<Rightarrow> lane \<Rightarrow> bool" where
  "slimmer l l' \<longleftrightarrow> ln_id l' = ln_id l \<and> fq_packets (ln_waiting l') \<le> fq_packets (ln_waiting l) \<and>
     fq_bytes (ln_waiting l') \<le> fq_bytes (ln_waiting l)"

definition shrunk :: "pool_link \<Rightarrow> lane \<Rightarrow> lane \<Rightarrow> bool" where
  "shrunk L l l' \<longleftrightarrow> slimmer l l' \<and> (pl_server L \<or> ln_draining l' = ln_draining l)"

definition berth_of :: "pool_link \<Rightarrow> lane \<times> core \<Rightarrow> berth" where
  "berth_of L s = (ln_id (fst s), lane_tx_key L (fst s), fq_packets (ln_waiting (fst s)), fq_bytes (ln_waiting (fst s)), c_ev (snd s), ln_draining (fst s))"

lemma shrunk_refl [simp]: "shrunk L l l"
  by (simp add: shrunk_def slimmer_def)

lemma lane_ok_later: "pool_link_ok L \<Longrightarrow> lane_ok L k l \<Longrightarrow> k \<le> k' \<Longrightarrow> lane_ok L k' l"
  by (auto simp: lane_ok_def lane_doomed_def pool_link_ok_def dest: monoD intro: order_trans)

lemma lane_ok_inv: "lane_done L l \<Longrightarrow> lane_ahead l \<Longrightarrow> lane_inv L (berth_of L (l, c)) [] (l, c)"
  by (simp add: lane_done_def lane_inv_def at_berth_def berth_of_def)

lemma lane_end_done: "lane_end L (berth_of L (l, c)) s \<Longrightarrow> lane_done L (fst s) \<and> shrunk L l (fst s) \<and> c_ev c \<le> c_ev (snd s)"
  by (simp add: lane_done_def lane_end_def at_berth_def berth_of_def shrunk_def slimmer_def)

lemma lane_inv_ok: "lane_inv L b m s \<Longrightarrow> lane_ok L k (fst s)"
  using lane_stream_Nil by (auto simp: lane_ok_def lane_done_def lane_inv_def at_berth_def split: prod.splits)

lemma lane_same_done: "lane_same s s' \<Longrightarrow> lane_done L (fst s) \<Longrightarrow> lane_done L (fst s') \<and> shrunk L (fst s) (fst s') \<and> c_ev (snd s) \<le> c_ev (snd s')"
proof -
  assume a: "lane_same s s'" and d: "lane_done L (fst s)"
  have "lane_tx_key L (fst s') = lane_tx_key L (fst s)" using a by (simp add: lane_same_simps lane_tx_key_def)
  with a d show ?thesis using lane_stream_cong [of "fst s'" "fst s" "[]"]
    by (simp add: lane_done_def lane_records_def lane_wired_def shrunk_def slimmer_def lane_same_simps)
qed

lemma lidle_checks: "keeps lane_same (lane_checks L)"
  unfolding lane_checks_def seqS.simps by (intro lidle_rules)

lemma lane_checks_doomed:
  assumes "pool_link_ok L" "lane_doomed L (c_ev c) l" "lane_checks L (l, c) = (s', r)"
  shows "\<exists>e. r = Inl e"
proof -
  have m: "pw_clock (pl_world L) i \<le> pw_clock (pl_world L) j" if "i \<le> j" for i j
    using assms(1) that by (simp add: pool_link_ok_def monoD)
  have d: "ln_draining l" "ln_drain_until l \<le> pw_clock (pl_world L) k" if "c_ev c \<le> k" for k
    using assms(2) m [OF that] by (auto simp: lane_doomed_def)
  show ?thesis
    using assms(3) d(1) d(2) [of "c_ev c"] d(2) [of "Suc (c_ev c)"]
    by (auto simp: lane_checks_def thenS_def bindS_def whenS_def skipS_def retS_def withL_def withS_def askC_def nowC_def failC_def throwS_def
        split: if_splits)
qed

lemma serve_lane_spec:
  assumes "pool_link_ok L" "lane_ok L (c_ev c) l" "serve_lane L gone (l, c) = ((l', c'), r)"
  shows "lane_done L l' \<and> shrunk L l l' \<and> c_ev c \<le> c_ev c' \<and> (r = Inr () \<longrightarrow> lane_ok L (c_ev c') l')"
proof (cases "lane_ahead l")
  case True
  then have i: "lane_inv L (berth_of L (l, c)) [] (l, c)" using assms(2) lane_ok_inv by (simp add: lane_ok_def)
  note s = holdsD [OF serve_lane_safe [OF assms(1)] i]
  show ?thesis
  proof (cases r)
    case (Inl e)
    from s(1) assms(3) Inl have "lane_end L (berth_of L (l, c)) (l', c')" by simp
    from lane_end_done [OF this] Inl show ?thesis by simp
  next
    case (Inr x)
    from s(2) assms(3) Inr have i': "lane_inv L (berth_of L (l, c)) [] (l', c')" by simp
    from lane_end_done [OF lane_inv_end [OF i']] lane_inv_ok [OF i'] show ?thesis by simp
  qed
next
  case False
  then have d: "lane_doomed L (c_ev c) l" "lane_done L l" using assms(2) by (simp_all add: lane_ok_def)
  obtain t x where t: "lane_checks L (l, c) = (t, x)" by fastforce
  obtain e where e: "x = Inl e" using lane_checks_doomed [OF assms(1) d(1) t] by blast
  then have r: "r = Inl e" "(l', c') = t" using assms(3) t by (auto simp: serve_lane_def thenS_def bindS_def)
  have "lane_same (l, c) t" using keepsD [OF lidle_checks t] .
  from lane_same_done [OF this] d(2) r show ?thesis by (metis fst_conv snd_conv Inl_Inr_False)
qed

text \<open>All lanes, or those before the first that fails.\<close>

lemma serve_lanes_spec:
  "serve_lanes L gone before ls c = (c', after, rest, r) \<Longrightarrow> pool_link_ok L \<Longrightarrow> \<forall>l \<in> set (before @ ls). lane_ok L (c_ev c) l \<Longrightarrow>
    c_ev c \<le> c_ev c' \<and> (\<forall>l \<in> set (after @ rest). lane_ok L (c_ev c') l) \<and>
    (\<exists>ls0 ls1. after = before @ ls1 \<and> list_all2 (shrunk L) ls0 ls1 \<and>
      (case r of None \<Rightarrow> ls = ls0 \<and> rest = [] | Some (l', e) \<Rightarrow> \<exists>l. ls = ls0 @ l # rest \<and> shrunk L l l' \<and> lane_done L l'))"
proof (induction L gone before ls c rule: serve_lanes.induct)
  case (1 L gone before c)
  then show ?case by auto
next
  case (2 L gone before l ls c)
  let ?g = "length before < length gone \<and> gone ! length before"
  obtain l1 c1 x where s: "serve_lane L ?g (l, c) = ((l1, c1), x)" by (metis surj_pair)
  have "lane_ok L (c_ev c) l" using 2(4) by simp
  note d = serve_lane_spec [OF 2(3) this s]
  have later: "\<forall>l \<in> set (before @ ls). lane_ok L (c_ev c1) l" using 2(4) d lane_ok_later [OF 2(3)] by auto
  show ?case
  proof (cases x)
    case (Inl e)
    then have "c' = c1" "after = before" "rest = ls" "r = Some (l1, e)" using 2(2) s by simp_all
    with d later show ?thesis by (auto intro!: exI [of _ "[]"])
  next
    case (Inr u)
    then have e: "serve_lanes L gone (before @ [l1]) ls c1 = (c', after, rest, r)" using 2(2) s by simp
    have ok: "\<forall>l \<in> set ((before @ [l1]) @ ls). lane_ok L (c_ev c1) l" using d later Inr by auto
    obtain ls0 ls1 where i: "c_ev c1 \<le> c_ev c'" "\<forall>l \<in> set (after @ rest). lane_ok L (c_ev c') l" "after = (before @ [l1]) @ ls1"
      "list_all2 (shrunk L) ls0 ls1"
      "case r of None \<Rightarrow> ls = ls0 \<and> rest = [] | Some (l', e) \<Rightarrow> \<exists>l. ls = ls0 @ l # rest \<and> shrunk L l l' \<and> lane_done L l'"
      using 2(1) [OF s [symmetric] refl Inr e 2(3) ok] by blast
    show ?thesis
      using i d by (intro conjI exI [of _ "l # ls0"] exI [of _ "l1 # ls1"]) (auto split: option.splits)
  qed
qed

end
