(* ===== verification/PoolProps.thy ===== *)
theory PoolProps
  imports PoolLanes
begin

text \<open>
  What holds in the pool, in every turn of its loop and however it ends: the number of lanes, their numbers and limits, and
  that an error of a lane stays with that lane.
\<close>

section \<open>The pool\<close>

definition pool_vital :: "pool \<Rightarrow> lane list \<times> affinity \<times> u64 \<times> bool \<times> u64 \<times> lane list \<times> nat" where
  "pool_vital p = (p_lanes p, p_affinity p, p_next_id p, p_dial p, p_replacing p, p_retired p, p_attached p)"

definition pool_same :: "pool \<Rightarrow> pool \<Rightarrow> bool" where
  "pool_same p p' \<longleftrightarrow> pool_vital p' = pool_vital p \<and> c_ev (p_core p) \<le> c_ev (p_core p')"

lemmas pool_same_simps = pool_same_def pool_vital_def

interpretation pidle: preserved pool_same
  by unfold_locales (simp_all add: pool_same_def)

definition lanes_fit :: "config \<Rightarrow> lane list \<Rightarrow> bool" where
  "lanes_fit cfg ls \<longleftrightarrow> outstanding_packets ls \<le> queue_packets cfg \<and> outstanding_bytes ls \<le> queue_bytes cfg"

text \<open>Every lane ever attached is in the pool or was removed, and has a number of its own.\<close>

definition pool_base :: "pool_link \<Rightarrow> pool \<Rightarrow> bool" where
  "pool_base L p \<longleftrightarrow> (\<forall>l \<in> set (p_lanes p). lane_ok L (c_ev (p_core p)) l) \<and> (\<forall>l \<in> set (p_retired p). lane_done L l) \<and>
     length (p_lanes p) \<le> Suc (max_lanes L) \<and>
     mset (map ln_id (p_lanes p @ p_retired p)) = mset (map (\<lambda>i. of_nat (Suc i)) [0..<p_attached p]) \<and>
     p_next_id p = of_nat (Suc (p_attached p)) \<and> pool_inv (p_affinity p) \<and> lanes_fit (pl_cfg L) (p_lanes p)"

text \<open>A dial or a replacement is under way only while there is room for its lane.\<close>

definition pool_supply :: "pool_link \<Rightarrow> pool \<Rightarrow> bool" where
  "pool_supply L p \<longleftrightarrow> (p_dial p \<or> p_replacing p \<noteq> 0 \<longrightarrow> length (p_lanes p) \<le> max_lanes L \<and> \<not> pl_server L) \<and>
     (p_replacing p \<noteq> 0 \<longrightarrow> (\<forall>l \<in> set (p_lanes p). \<not> ln_draining l))"

definition pool_ok :: "pool_link \<Rightarrow> pool \<Rightarrow> bool" where
  "pool_ok L p \<longleftrightarrow> pool_base L p \<and> pool_supply L p"

interpretation pools: guarded "pool_ok L" "pool_ok L" for L
  by unfold_locales

abbreviation pool_safe :: "pool_link \<Rightarrow> 'a pooling \<Rightarrow> bool" where
  "pool_safe L \<equiv> holds (pool_ok L) (pool_ok L)"

lemma pool_base_same: "pool_link_ok L \<Longrightarrow> pool_same p p' \<Longrightarrow> pool_base L p \<Longrightarrow> pool_base L p'"
  using lane_ok_later by (auto simp: pool_base_def pool_same_simps)

lemma pool_ok_same: "pool_link_ok L \<Longrightarrow> pool_same p p' \<Longrightarrow> pool_ok L p \<Longrightarrow> pool_ok L p'"
  using pool_base_same by (auto simp: pool_ok_def pool_supply_def pool_same_simps)

lemma pidle_safe: "pool_link_ok L \<Longrightarrow> keeps pool_same (m :: 'a pooling) \<Longrightarrow> pool_safe L m"
  by (rule holdsI) (blast dest: keepsD pool_ok_same)+

lemma pidle_askP: "keeps pool_same (askP f)"
  by (simp add: keeps_def askP_def pool_same_simps)

lemma pidle_nowP: "keeps pool_same (nowP L)"
  by (simp add: nowP_def pidle_askP)

lemma pidle_statP: "keeps pool_same (statP f)"
  unfolding statP_def by (intro pidle.keeps_modS) (simp add: pool_same_simps)

lemma pidle_eventP: "keeps pool_same (eventP l)"
  unfolding eventP_def by (intro pidle.keeps_modS) (simp add: pool_same_simps)

lemma pidle_failP: "keeps pool_same (failP m)"
  by (simp add: failP_def)

lemmas pidle_rules = pidle.keeps_retS pidle.keeps_bindS pidle.keeps_thenS pidle.keeps_whenS pidle.keeps_withS pidle.keeps_modS
  pidle.keeps_eachS pidle_askP pidle_nowP pidle_statP pidle_eventP pidle_failP

subsection \<open>Changes of the lanes\<close>

lemma slimmer_outstanding:
  "list_all2 slimmer ls ls' \<Longrightarrow> outstanding_packets ls' \<le> outstanding_packets ls \<and> outstanding_bytes ls' \<le> outstanding_bytes ls \<and>
     map ln_id ls' = map ln_id ls \<and> length ls' = length ls"
  by (induction rule: list_all2_induct) (auto simp: outstanding_packets_def outstanding_bytes_def slimmer_def)

lemma shrunk_draining: "list_all2 (shrunk L) ls ls' \<Longrightarrow> \<not> pl_server L \<Longrightarrow> map ln_draining ls' = map ln_draining ls"
  by (induction rule: list_all2_induct) (auto simp: shrunk_def)

lemma shrunk_slimmer: "list_all2 (shrunk L) ls ls' \<Longrightarrow> list_all2 slimmer ls ls'"
  by (erule list_all2_mono) (simp add: shrunk_def)

lemma pool_base_slimmer:
  assumes "pool_base L p" "list_all2 slimmer (p_lanes p) ls" "\<forall>l \<in> set ls. lane_ok L (c_ev (p_core p')) l"
    and "pool_vital p' = pool_vital (p\<lparr>p_lanes := ls\<rparr>)"
  shows "pool_base L p'"
proof -
  have v: "p_lanes p' = ls" "p_affinity p' = p_affinity p" "p_next_id p' = p_next_id p" "p_dial p' = p_dial p" "p_replacing p' = p_replacing p"
    "p_retired p' = p_retired p" "p_attached p' = p_attached p" using assms(4) by (simp_all add: pool_vital_def)
  have "lanes_fit (pl_cfg L) ls" using assms(1) slimmer_outstanding [OF assms(2)] by (auto simp: pool_base_def lanes_fit_def)
  with assms(1,3) v slimmer_outstanding [OF assms(2)] show ?thesis by (simp add: pool_base_def)
qed

lemma pool_shrunk:
  assumes "pool_ok L p" "list_all2 (shrunk L) (p_lanes p) ls" "\<forall>l \<in> set ls. lane_ok L (c_ev (p_core p')) l"
    and "pool_vital p' = pool_vital (p\<lparr>p_lanes := ls\<rparr>)"
  shows "pool_ok L p'"
proof -
  have v: "p_lanes p' = ls" "p_dial p' = p_dial p" "p_replacing p' = p_replacing p" using assms(4) by (simp_all add: pool_vital_def)
  have d: "(\<forall>l \<in> set ls. \<not> ln_draining l) = (\<forall>l \<in> set (p_lanes p). \<not> ln_draining l)" if "\<not> pl_server L"
    using shrunk_draining [OF assms(2) that] by (metis (no_types, lifting) image_iff list.set_map)
  have "pool_base L p'" using pool_base_slimmer [OF _ shrunk_slimmer [OF assms(2)] assms(3,4)] assms(1) by (simp add: pool_ok_def)
  moreover have "pool_supply L p'" using assms(1) v d slimmer_outstanding [OF shrunk_slimmer [OF assms(2)]] by (auto simp: pool_ok_def pool_supply_def)
  ultimately show ?thesis by (simp add: pool_ok_def)
qed

text \<open>A new lane.\<close>

definition fresh_connection :: "pool_link \<Rightarrow> connection \<Rightarrow> bool" where
  "fresh_connection L c \<longleftrightarrow> ws_invar (\<not> pl_server L) (cn_ws c) \<and> pending (cn_ws c) = []"

lemma new_lane_ok: "fresh_connection L c \<Longrightarrow> lane_ok L k (new_lane L t i c)"
  using fq_inv_new
  by (auto simp: timeout_ok fresh_connection_def new_lane_def Let_def lane_ok_def lane_done_def lane_records_def lane_stream_def lane_wired_def
      lane_ahead_def framed_def binaries_def intro: exI [of _ "[]"])

lemma attach_cases:
  assumes "attach L co p = (p', r)"
  obtains "pool_same p p'"
  | c t where "co = Some c" "r = Inr ()" "c_ev (p_core p) \<le> c_ev (p_core p')"
    "pool_vital p' = pool_vital (p\<lparr>p_lanes := p_lanes p @ [new_lane L t (p_next_id p) c], p_next_id := p_next_id p + 1, p_attached := p_attached p + 1\<rparr>)"
  using assms
  by (auto simp: attach_def Let_def failP_def throwS_def retS_def skipS_def bindS_def askP_def nowP_def thenS_def modS_def withS_def statP_def eventP_def
      pool_same_simps split: option.splits if_splits)

lemma pool_base_attach:
  assumes "pool_link_ok L" "pool_base L p" "length (p_lanes p) \<le> max_lanes L" "fresh_connection L c" "c_ev (p_core p) \<le> c_ev (p_core p')"
    and "pool_vital p' = pool_vital (p\<lparr>p_lanes := p_lanes p @ [new_lane L t (p_next_id p) c], p_next_id := p_next_id p + 1, p_attached := p_attached p + 1\<rparr>)"
  shows "pool_base L p'"
proof -
  let ?l = "new_lane L t (p_next_id p) c"
  have v: "p_lanes p' = p_lanes p @ [?l]" "p_affinity p' = p_affinity p" "p_next_id p' = p_next_id p + 1"
    "p_retired p' = p_retired p" "p_attached p' = p_attached p + 1" using assms(6) by (simp_all add: pool_vital_def)
  have i: "ln_id ?l = p_next_id p" "fq_packets (ln_waiting ?l) = 0" "fq_bytes (ln_waiting ?l) = 0"
    by (simp_all add: new_lane_def Let_def new_queue_def)
  have "lanes_fit (pl_cfg L) (p_lanes p @ [?l])"
    using assms(2) i by (simp add: pool_base_def lanes_fit_def outstanding_packets_def outstanding_bytes_def)
  then show ?thesis
    using assms(2,3,5) v i new_lane_ok [OF assms(4)] lane_ok_later [OF assms(1)]
    by (auto simp: pool_base_def)
qed

subsection \<open>Supplying lanes\<close>

lemma leads_catchS: "leads I m J Q' \<Longrightarrow> (\<And>e. leads Q' (h e) J Q) \<Longrightarrow> leads I (catchS m h) J Q"
  by (rule leadsI) (fastforce simp: catchS_def dest: leadsD split: prod.splits sum.splits)+

lemma pidle_leads:
  assumes "keeps pool_same (m :: 'a pooling)" "\<And>p p'. pool_same p p' \<Longrightarrow> I p \<Longrightarrow> I p'" "\<And>p. I p \<Longrightarrow> Q p"
  shows "leads I m (\<lambda>_. I) Q"
  by (rule leadsI) (use keepsD [OF assms(1)] assms(2,3) in blast)+

lemma leads_askP:
  assumes "\<And>p p'. pool_same p p' \<Longrightarrow> I p \<Longrightarrow> I p'" "\<And>k. leads I (f (g k)) J Q"
  shows "leads I (bindS (askP g) f) J Q"
proof -
  have e: "bindS (askP g) f p = f (g (c_ev (p_core p))) (p\<lparr>p_core := (p_core p)\<lparr>c_ev := Suc (c_ev (p_core p))\<rparr>\<rparr>)" for p by (simp add: bindS_def askP_def)
  have i: "I p \<Longrightarrow> I (p\<lparr>p_core := (p_core p)\<lparr>c_ev := Suc (c_ev (p_core p))\<rparr>\<rparr>)" for p
    by (erule assms(1) [rotated]) (simp add: pool_same_simps)
  show ?thesis by (rule leadsI) (auto simp: e dest: i leadsD [OF assms(2)])
qed

lemma pool_safe_askP:
  assumes "pool_link_ok L" "\<And>k. pool_safe L (f (g k))"
  shows "pool_safe L (bindS (askP g) f)"
  by (rule holds_leads, rule leads_askP) (use pool_ok_same [OF assms(1)] leads_holds [OF assms(2)] in blast)+

lemma accept_lanes_safe:
  assumes "pool_link_ok L" "pl_server L"
  shows "(\<And>c. Some c \<in> set cs \<Longrightarrow> fresh_connection L c) \<Longrightarrow> pool_safe L (accept_lanes L cs)"
proof (induction cs)
  case Nil
  then show ?case by (simp add: pools.holds_retS)
next
  case (Cons co cs)
  have m: "nat (max_connections (pl_cfg L) + 1) = Suc (max_lanes L)" using assms(1) by (simp add: pool_link_ok_def max_lanes_def nat_add_distrib)
  have a: "leads (\<lambda>p. pool_ok L p \<and> length (p_lanes p) \<le> max_lanes L) (attach L co) (\<lambda>_. pool_ok L) (pool_ok L)"
  proof -
    have "pool_ok L p'" if "pool_ok L p" "length (p_lanes p) \<le> max_lanes L" "attach L co p = (p', r)" for p p' r
      using that(3)
    proof (cases rule: attach_cases)
      case 1
      with that(1) show ?thesis using pool_ok_same [OF assms(1)] by blast
    next
      case (2 c t)
      have "pool_base L p'" using pool_base_attach [OF assms(1) _ that(2) Cons.prems 2(3,4)] that(1) 2(1) by (simp add: pool_ok_def)
      moreover have "pool_supply L p'" using that(1) assms(2) 2(4) by (simp add: pool_ok_def pool_supply_def pool_vital_def)
      ultimately show ?thesis by (simp add: pool_ok_def)
    qed
    then show ?thesis by (blast intro: leadsI)
  qed
  have i: "pool_safe L (accept_lanes L cs)" by (rule Cons.IH) (simp add: Cons.prems)
  show ?case
    unfolding accept_lanes.simps m
    by (intro holds_leads leads_withS leads_if leads_thenS [OF leads_catchS [OF leads_pre [OF a]]] leads_holds [OF pidle_safe [OF assms(1) pidle_statP]]
        leads_pre [OF leads_holds [OF i]]) (auto simp: skipS_def intro!: leads_retS)
qed

lemma retire_lane_spec:
  assumes "pool_link_ok L" "\<not> pl_server L" "lane_ok L (c_ev c) l" "\<not> ln_draining l" "retire_lane L (l, c) = ((l', c'), r)"
  shows "lane_ok L (c_ev c') l' \<and> slimmer l l' \<and> c_ev c \<le> c_ev c'"
proof -
  define l1 where "l1 = l\<lparr>ln_draining := True, ln_drain_until := pw_clock (pl_world L) (c_ev c) + of_int (pool_drain_sec (pl_cfg L) * 1000000)\<rparr>"
  define c1 where "c1 = c\<lparr>c_ev := Suc (c_ev c)\<rparr>"
  obtain s2 x where s2: "lane_control L RECORD_DRAIN [] (l1, c1) = (s2, x)" by fastforce
  have k: "lane_tx_key L l1 = lane_tx_key L l" by (simp add: l1_def lane_tx_key_def)
  have d: "lane_done L l1" "lane_ahead l1"
    using assms(3,4) k lane_stream_cong [of l1 l "[]"]
    by (simp_all add: l1_def lane_ok_def lane_doomed_def lane_done_def lane_records_def lane_wired_def lane_ahead_def)
  have "RECORD_DRAIN \<in> {0, RECORD_KEEPALIVE, RECORD_PING, RECORD_PONG, RECORD_DRAIN}" by simp
  note s = holdsD [OF lane_control_safe [OF assms(1) this] lane_ok_inv [OF d, of c1]]
  have e: "lane_end L (berth_of L (l1, c1)) s2" and ok: "x = Inr () \<Longrightarrow> lane_ok L k (fst s2)" for k
    using s(1) [of "[]" s2] s(2) [of "[]" s2] s2 lane_inv_end lane_inv_ok by (cases x; simp)+
  note f = lane_end_done [OF e]
  have dr: "ln_draining (fst s2)" using f assms(2) by (simp add: shrunk_def l1_def)
  have sl: "slimmer l (fst s2)" using f by (simp add: shrunk_def slimmer_def l1_def)
  have r: "retire_lane L (l, c) = seqS [statC (\<lambda>st. st\<lparr>st_session_renewals := st_session_renewals st + 1\<rparr>), eventC ''pool replacement=verified'']
      (case x of Inr _ \<Rightarrow> s2 | Inl _ \<Rightarrow> ((fst s2)\<lparr>ln_drain_until := pw_clock (pl_world L) (c_ev (snd s2))\<rparr>, (snd s2)\<lparr>c_ev := Suc (c_ev (snd s2))\<rparr>))"
    using s2 unfolding l1_def c1_def
    by (auto simp: retire_lane_def thenS_def bindS_def nowC_def askC_def laneS_def modS_def catchS_def split: sum.splits)
  show ?thesis
  proof (cases x)
    case (Inr u)
    then have "l' = fst s2" "c_ev c' = c_ev (snd s2)" using r assms(5) by (auto simp: thenS_def bindS_def statC_def eventC_def coreS_def modS_def skipS_def retS_def)
    then show ?thesis using ok [of "c_ev c'"] Inr f sl by (simp add: c1_def)
  next
    case (Inl e)
    then have v: "l' = (fst s2)\<lparr>ln_drain_until := pw_clock (pl_world L) (c_ev (snd s2))\<rparr>" "c_ev c' = Suc (c_ev (snd s2))"
      using r assms(5) by (auto simp: thenS_def bindS_def statC_def eventC_def coreS_def modS_def skipS_def retS_def)
    have "lane_done L l'" using f lane_stream_cong [of l' "fst s2" "[]"]
      by (simp add: v lane_done_def lane_records_def lane_wired_def)
    moreover have "lane_doomed L (c_ev c') l'" using dr assms(1) by (simp add: v lane_doomed_def pool_link_ok_def monoD)
    ultimately show ?thesis using f sl v by (simp add: lane_ok_def slimmer_def c1_def)
  qed
qed

lemma retire_lanes_spec:
  assumes "pool_link_ok L" "\<not> pl_server L"
  shows "retire_lanes L old ls c = (ls', c') \<Longrightarrow> \<forall>l \<in> set ls. lane_ok L (c_ev c) l \<and> \<not> ln_draining l \<Longrightarrow>
    list_all2 slimmer ls ls' \<and> (\<forall>l \<in> set ls'. lane_ok L (c_ev c') l) \<and> c_ev c \<le> c_ev c'"
proof (induction ls arbitrary: c ls')
  case (Cons l ls)
  obtain l1 c1 where 1: "(if ln_id l = old then fst (retire_lane L (l, c)) else (l, c)) = (l1, c1)" by fastforce
  obtain ls1 where 2: "retire_lanes L old ls c1 = (ls1, c')" "ls' = l1 # ls1" using Cons.prems(1) 1 by (auto split: prod.splits)
  have s: "lane_ok L (c_ev c1) l1 \<and> slimmer l l1 \<and> c_ev c \<le> c_ev c1"
  proof (cases "ln_id l = old")
    case True
    then obtain r where "retire_lane L (l, c) = ((l1, c1), r)" using 1 by (metis prod.collapse)
    with retire_lane_spec [OF assms] Cons.prems(2) show ?thesis by auto
  next
    case False
    then show ?thesis using 1 Cons.prems(2) by (auto simp: slimmer_def)
  qed
  have "\<forall>l \<in> set ls. lane_ok L (c_ev c1) l \<and> \<not> ln_draining l" using Cons.prems(2) s lane_ok_later [OF assms(1)] by auto
  from Cons.IH [OF 2(1) this] s 2(2) show ?case using lane_ok_later [OF assms(1)] by auto
qed simp

text \<open>While the outcome of a dial is handled.\<close>

definition dialling :: "pool_link \<Rightarrow> pool \<Rightarrow> bool" where
  "dialling L p \<longleftrightarrow> pool_base L p \<and> \<not> p_dial p \<and> \<not> pl_server L \<and> length (p_lanes p) \<le> max_lanes L \<and>
     (p_replacing p \<noteq> 0 \<longrightarrow> (\<forall>l \<in> set (p_lanes p). \<not> ln_draining l))"

definition dial_done :: "pool_link \<Rightarrow> pool \<Rightarrow> bool" where
  "dial_done L p \<longleftrightarrow> pool_base L p \<and> \<not> p_dial p \<and> \<not> pl_server L \<and> (p_replacing p \<noteq> 0 \<longrightarrow> (\<forall>l \<in> set (p_lanes p). \<not> ln_draining l))"

lemma dialling_same: "pool_link_ok L \<Longrightarrow> pool_same p p' \<Longrightarrow> dialling L p \<Longrightarrow> dialling L p'"
  using pool_base_same by (auto simp: dialling_def pool_same_simps)

lemma dialling_ok: "dialling L p \<Longrightarrow> pool_ok L p"
  by (simp add: dialling_def pool_ok_def pool_supply_def)

lemma dial_failed_leads:
  assumes "pool_link_ok L"
  shows "leads (dialling L) (dial_failed L) (\<lambda>_. pool_ok L) (pool_ok L)"
proof -
  have i: "leads (dialling L) (m :: unit pooling) (\<lambda>_. dialling L) (pool_ok L)" if "keeps pool_same m" for m
    by (rule pidle_leads [OF that]) (use dialling_same [OF assms] dialling_ok in blast)+
  have "pool_ok L (p\<lparr>p_next_replacement := t, p_replacing := 0, p_backoff := b\<rparr>)" if "dialling L p" for p t b
    using that by (simp add: dialling_def pool_ok_def pool_base_def pool_supply_def)
  then have d: "leads (dialling L) (modS (\<lambda>p. p\<lparr>p_next_replacement := f p, p_replacing := 0, p_backoff := g p\<rparr>)) (\<lambda>_. pool_ok L) (pool_ok L)" for f g
    by (intro leads_modS)
  have k: "keeps pool_same (bindS (nowP L) (\<lambda>t. bindS (askP (pw_jitter (pl_world L))) (\<lambda>draw. modS (\<lambda>p.
         p\<lparr>p_next_dial := t + of_int (jittered (p_backoff p) (reconnect_jitter_pct (pl_cfg L)) draw * 1000)\<rparr>))) :: unit pooling)"
    by (intro pidle_rules) (simp add: pool_same_simps)
  show ?thesis
    unfolding dial_failed_def seqS.simps
    by (intro leads_thenS [OF i [OF pidle_statP]] leads_thenS [OF i [OF pidle_eventP]] leads_thenS [OF i [OF k]] leads_thenS [OF d])
      (simp add: skipS_def leads_retS)
qed

lemma dialled_leads:
  assumes "pool_link_ok L" "fresh_connection L c"
  shows "leads (dialling L) (dialled L c) (\<lambda>_. pool_ok L) (dialling L)"
proof -
  have a: "leads (dialling L) (attach L (Some c)) (\<lambda>_. dial_done L) (dialling L)"
  proof -
    have f: "(\<forall>e. r = Inl e \<longrightarrow> dialling L p') \<and> dial_done L p'" if i: "dialling L p" and a: "attach L (Some c) p = (p', r)" for p p' r
      using a
    proof (cases rule: attach_cases)
      case 1
      with dialling_same [OF assms(1) _ i] show ?thesis by (auto simp: dialling_def dial_done_def)
    next
      case (2 c' t)
      have "pool_base L p'" using pool_base_attach [OF assms(1) _ _ assms(2) 2(3)] 2(1,4) i by (simp add: dialling_def)
      moreover have "\<not> ln_draining (new_lane L t (p_next_id p) c)" by (simp add: new_lane_def Let_def)
      ultimately show ?thesis using i 2 by (auto simp: dialling_def dial_done_def pool_vital_def)
    qed
    show ?thesis by (rule leadsI) (use f in blast)+
  qed
  have r: "pool_base L p' \<and> \<not> p_dial p' \<and> \<not> pl_server L"
    if i: "dial_done L p" and p': "p' = (if p_replacing p = 0 then p else case retire_lanes L (p_replacing p) (p_lanes p) (p_core p) of (ls, c') \<Rightarrow> p\<lparr>p_lanes := ls, p_core := c'\<rparr>)" for p p'
  proof (cases "p_replacing p = 0")
    case False
    obtain ls c' where q: "retire_lanes L (p_replacing p) (p_lanes p) (p_core p) = (ls, c')" by fastforce
    have n: "\<not> pl_server L" "\<forall>l \<in> set (p_lanes p). lane_ok L (c_ev (p_core p)) l \<and> \<not> ln_draining l"
      using i False by (auto simp: dial_done_def pool_base_def)
    have "pool_base L (p\<lparr>p_lanes := ls, p_core := c'\<rparr>)"
      by (rule pool_base_slimmer [of L p ls]) (use i retire_lanes_spec [OF assms(1) n(1) q n(2)] in \<open>simp_all add: dial_done_def pool_vital_def\<close>)
    with i p' q False show ?thesis by (simp add: dial_done_def)
  qed (use that in \<open>simp add: dial_done_def\<close>)
  let ?J = "\<lambda>p. pool_base L p \<and> \<not> p_dial p \<and> \<not> pl_server L"
  have r': "leads (dial_done L) (modS (\<lambda>p. if p_replacing p = 0 then p else case retire_lanes L (p_replacing p) (p_lanes p) (p_core p) of (ls, c') \<Rightarrow> p\<lparr>p_lanes := ls, p_core := c'\<rparr>))
      (\<lambda>_. ?J) (dialling L)"
    by (rule leads_modS) (use r [OF _ refl] in blast)
  have "pool_ok L (p\<lparr>p_replacing := 0\<rparr>)" if "?J p" for p
    using that by (simp add: pool_ok_def pool_base_def pool_supply_def)
  then have z: "leads ?J (modS (\<lambda>p. p\<lparr>p_replacing := 0\<rparr>)) (\<lambda>_. pool_ok L) (dialling L)" by (intro leads_modS)
  have t: "leads (pool_ok L) (bindS (nowP L) (\<lambda>t. modS (\<lambda>p. p\<lparr>p_next_replacement := f t\<rparr>))) (\<lambda>_. pool_ok L) (dialling L)" for f
  proof (rule leadsI)
    fix p p' e assume "bindS (nowP L) (\<lambda>t. modS (\<lambda>p. p\<lparr>p_next_replacement := f t\<rparr>)) p = (p', Inl e)"
    then show "dialling L p'" by (simp add: bindS_def nowP_def askP_def modS_def)
  next
    fix p p' x assume i: "pool_ok L p" and m: "bindS (nowP L) (\<lambda>t. modS (\<lambda>p. p\<lparr>p_next_replacement := f t\<rparr>)) p = (p', Inr x)"
    have k: "keeps pool_same (bindS (nowP L) (\<lambda>t. modS (\<lambda>p. p\<lparr>p_next_replacement := f t\<rparr>)) :: unit pooling)"
      by (intro pidle_rules) (simp add: pool_same_simps)
    show "pool_ok L p'" by (rule pool_ok_same [OF assms(1) keepsD [OF k m] i])
  qed
  show ?thesis
    unfolding dialled_def seqS.simps
  proof (intro leads_withS leads_if)
    fix q
    show "leads (\<lambda>p. dialling L p \<and> p = q) (failP m) (\<lambda>_. pool_ok L) (dialling L)" for m
      unfolding failP_def by (rule leads_throwS) simp
    show "leads (\<lambda>p. dialling L p \<and> p = q) (thenS (attach L (Some c))
        (thenS (modS (\<lambda>p. if p_replacing p = 0 then p else case retire_lanes L (p_replacing p) (p_lanes p) (p_core p) of (ls, c') \<Rightarrow> p\<lparr>p_lanes := ls, p_core := c'\<rparr>))
        (thenS (modS (\<lambda>p. p\<lparr>p_replacing := 0\<rparr>))
        (thenS (bindS (nowP L) (\<lambda>t. modS (\<lambda>p. p\<lparr>p_next_replacement := t + of_int (latency_renew_cooldown_sec (pl_cfg L) * 1000000)\<rparr>))) skipS))))
        (\<lambda>_. pool_ok L) (dialling L)"
      by (rule leads_pre [where I' = "dialling L"], rule leads_thenS [OF a], rule leads_thenS [OF r'], rule leads_thenS [OF z], rule leads_thenS [OF t])
        (simp_all add: skipS_def leads_retS)
  qed
qed

lemma finish_dial_safe:
  assumes "pool_link_ok L"
  shows "pool_safe L (finish_dial L)"
proof -
  have s: "leads (\<lambda>p. pool_ok L p \<and> p_dial p) (modS (\<lambda>p. p\<lparr>p_dial := False\<rparr>)) (\<lambda>_. dialling L) (pool_ok L)"
    by (rule leads_modS) (simp add: pool_ok_def dialling_def pool_base_def pool_supply_def)
  have k: "leads (\<lambda>p. pool_ok L p \<and> p_dial p)
      (case pw_dial (pl_world L) k of
         DialPending \<Rightarrow> skipS
       | DialFailed m \<Rightarrow> thenS (modS (\<lambda>p. p\<lparr>p_dial := False\<rparr>)) (catchS (failP m) (\<lambda>_. dial_failed L))
       | DialDone c \<Rightarrow> thenS (modS (\<lambda>p. p\<lparr>p_dial := False\<rparr>)) (catchS (dialled L c) (\<lambda>_. dial_failed L))) (\<lambda>_. pool_ok L) (pool_ok L)" for k
  proof (cases "pw_dial (pl_world L) k")
    case DialPending
    then show ?thesis by (auto simp: skipS_def intro!: leads_retS)
  next
    case (DialFailed m)
    have "leads (dialling L) (failP m) (\<lambda>_. pool_ok L) (dialling L)" by (simp add: failP_def leads_throwS)
    from leads_thenS [OF s leads_catchS [OF this dial_failed_leads [OF assms]]] DialFailed show ?thesis by simp
  next
    case (DialDone c)
    then have "fresh_connection L c" using assms by (auto simp: pool_link_ok_def fresh_connection_def)
    from leads_thenS [OF s leads_catchS [OF dialled_leads [OF assms this] dial_failed_leads [OF assms]]] DialDone show ?thesis by simp
  qed
  have i: "pool_same p p' \<Longrightarrow> pool_ok L p \<and> p_dial p \<Longrightarrow> pool_ok L p' \<and> p_dial p'" for p p'
    using pool_ok_same [OF assms] by (auto simp: pool_same_simps)
  show ?thesis
    unfolding finish_dial_def whenS_def
  proof (intro holds_leads leads_withS leads_if)
    fix q
    show "leads (\<lambda>p. pool_ok L p \<and> p = q) (bindS (askP (pw_dial (pl_world L))) (\<lambda>d. case d of
         DialPending \<Rightarrow> skipS
       | DialFailed m \<Rightarrow> thenS (modS (\<lambda>p. p\<lparr>p_dial := False\<rparr>)) (catchS (failP m) (\<lambda>_. dial_failed L))
       | DialDone c \<Rightarrow> thenS (modS (\<lambda>p. p\<lparr>p_dial := False\<rparr>)) (catchS (dialled L c) (\<lambda>_. dial_failed L)))) (\<lambda>_. pool_ok L) (pool_ok L)"
      if "p_dial q"
    proof (rule leads_pre [where I' = "\<lambda>p. pool_ok L p \<and> p_dial p"], rule leads_askP [OF i])
      show "leads (\<lambda>p. pool_ok L p \<and> p_dial p)
        (case pw_dial (pl_world L) k of
           DialPending \<Rightarrow> skipS
         | DialFailed m \<Rightarrow> thenS (modS (\<lambda>p. p\<lparr>p_dial := False\<rparr>)) (catchS (failP m) (\<lambda>_. dial_failed L))
         | DialDone c \<Rightarrow> thenS (modS (\<lambda>p. p\<lparr>p_dial := False\<rparr>)) (catchS (dialled L c) (\<lambda>_. dial_failed L))) (\<lambda>_. pool_ok L) (pool_ok L)" for k
        by (rule k)
    qed (use that in simp_all)
  qed (auto simp: skipS_def intro!: leads_retS)
qed

lemma lidle_replace_check: "keeps lane_same (replace_check L forced)"
  unfolding replace_check_def Let_def by (intro lidle_rules) (simp add: lane_same_simps)

lemma lane_ok_same:
  assumes "pool_link_ok L" "lane_same (l, c) (l', c')" "lane_ok L (c_ev c) l" "ln_drain_until l' = ln_drain_until l"
  shows "lane_ok L (c_ev c') l' \<and> shrunk L l l' \<and> c_ev c \<le> c_ev c'"
proof -
  have d: "lane_done L l' \<and> shrunk L l l' \<and> c_ev c \<le> c_ev c'" using lane_same_done [OF assms(2), of L] assms(3) by (simp add: lane_ok_def)
  moreover have "lane_ahead l' = lane_ahead l" "ln_draining l' = ln_draining l" using assms(2) by (simp_all add: lane_same_simps lane_ahead_def)
  moreover have "lane_doomed L (c_ev c) l \<Longrightarrow> lane_doomed L (c_ev c') l'"
    using calculation(3) assms(1,4) d by (auto simp: lane_doomed_def pool_link_ok_def dest: monoD intro: order_trans)
  ultimately show ?thesis using assms(3) by (auto simp: lane_ok_def)
qed

lemma pick_replacement_spec:
  assumes "pool_link_ok L"
  shows "pick_replacement L forced ls c = (ls', c', found) \<Longrightarrow> \<forall>l \<in> set ls. lane_ok L (c_ev c) l \<Longrightarrow>
    list_all2 (shrunk L) ls ls' \<and> (\<forall>l \<in> set ls'. lane_ok L (c_ev c') l) \<and> c_ev c \<le> c_ev c'"
proof (induction ls arbitrary: c ls')
  case (Cons l ls)
  obtain l1 c1 x where 1: "replace_check L forced (l, c) = ((l1, c1), x)" by (metis surj_pair)
  have "ln_drain_until l1 = ln_drain_until l"
    using 1 by (auto simp: replace_check_def bindS_def nowC_def askC_def Let_def split: prod.splits)
  from lane_ok_same [OF assms keepsD [OF lidle_replace_check 1] _ this] Cons.prems(2)
  have s: "lane_ok L (c_ev c1) l1" "shrunk L l l1" "c_ev c \<le> c_ev c1" by simp_all
  have later: "\<forall>l \<in> set ls. lane_ok L (c_ev c1) l" using Cons.prems(2) s(3) lane_ok_later [OF assms] by auto
  show ?case
  proof (cases "\<exists>why. x = Inr (Some why)")
    case True
    then have "ls' = l1 # ls" "c' = c1" using Cons.prems(1) 1 by auto
    with s later show ?thesis by (simp add: list_all2_refl)
  next
    case False
    then obtain ls1 where "pick_replacement L forced ls c1 = (ls1, c', found)" "ls' = l1 # ls1"
      using Cons.prems(1) 1 by (auto split: prod.splits sum.splits option.splits)
    with Cons.IH [OF _ later] s show ?thesis using lane_ok_later [OF assms] by auto
  qed
qed simp

lemma start_replacement_safe:
  assumes "pool_link_ok L" "\<not> pl_server L"
  shows "pool_safe L (start_replacement L)"
proof -
  let ?I = "\<lambda>p. pool_ok L p \<and> \<not> p_dial p \<and> length (p_lanes p) = max_lanes L \<and> (\<forall>l \<in> set (p_lanes p). \<not> ln_draining l)"
  have same: "pool_same p p' \<Longrightarrow> ?I p \<Longrightarrow> ?I p'" for p p'
    using pool_ok_same [OF assms(1)] by (auto simp: pool_same_simps)
  have idle: "leads ?I (m :: unit pooling) (\<lambda>_. ?I) (pool_ok L)" if "keeps pool_same m" for m
    by (rule pidle_leads [OF that same]) auto
  have pick: "?I (p\<lparr>p_lanes := ls, p_core := c\<rparr>)" if i: "?I p" and f: "pick_replacement L forced (p_lanes p) (p_core p) = (ls, c, found)" for p forced ls c found
  proof -
    have "\<forall>l \<in> set (p_lanes p). lane_ok L (c_ev (p_core p)) l" using i by (simp add: pool_ok_def pool_base_def)
    note s = pick_replacement_spec [OF assms(1) f this]
    have "pool_ok L (p\<lparr>p_lanes := ls, p_core := c\<rparr>)" by (rule pool_shrunk [of L p ls]) (use i s in \<open>simp_all add: pool_vital_def\<close>)
    moreover have "map ln_draining ls = map ln_draining (p_lanes p)" using shrunk_draining s assms(2) by blast
    then have "\<forall>l \<in> set ls. \<not> ln_draining l" using i by (metis (no_types, lifting) image_iff list.set_map)
    moreover have "length ls = length (p_lanes p)" using s list_all2_lengthD by metis
    ultimately show ?thesis using i by simp
  qed
  have set: "pool_ok L (p\<lparr>p_replacing := i, p_reference_rtt := r, p_next_replacement := t\<rparr>)" if "?I p" for p i r t
    using that assms(2) by (auto simp: pool_ok_def pool_base_def pool_supply_def)
  have s: "leads ?I (modS (\<lambda>p. p\<lparr>p_replacing := i, p_reference_rtt := r, p_next_replacement := t\<rparr>)) (\<lambda>_. pool_ok L) (pool_ok L)" for i r t
    by (rule leads_modS) (rule set)
  have ok: "pool_safe L (seqS [whenS a (statP f), whenS b (statP g), eventP l])" for a b f g l
    unfolding seqS.simps by (intro pidle_safe assms(1) pidle_rules)
  have k: "leads (\<lambda>p. ?I p \<and> p = q) (case pick_replacement L forced (p_lanes q) (p_core q) of
         (ls, c, found) \<Rightarrow>
           thenS (modS (\<lambda>p. p\<lparr>p_lanes := ls, p_core := c\<rparr>))
           (case found of
              None \<Rightarrow> skipS
            | Some (l, instant, sl, missing) \<Rightarrow>
                seqS
                 [modS (\<lambda>p. p\<lparr>p_replacing := ln_id l, p_reference_rtt := (if sl then ln_rtt_us l else - 1),
                    p_next_replacement := instant + of_int (latency_renew_cooldown_sec (pl_cfg L) * 1000000)\<rparr>),
                  whenS sl (statP (\<lambda>st. st\<lparr>st_latency_renewals := st_latency_renewals st + 1\<rparr>)),
                  whenS missing (statP (\<lambda>st. st\<lparr>st_reply_renewals := st_reply_renewals st + 1\<rparr>)),
                  eventP ''pool replacement=started''])) (\<lambda>_. pool_ok L) (pool_ok L)" for q forced
  proof -
    obtain ls c found where f: "pick_replacement L forced (p_lanes q) (p_core q) = (ls, c, found)" by (metis surj_pair)
    have m: "leads (\<lambda>p. ?I p \<and> p = q) (modS (\<lambda>p. p\<lparr>p_lanes := ls, p_core := c\<rparr>)) (\<lambda>_. ?I) (pool_ok L)"
      by (rule leads_modS) (use pick f in blast)
    have r: "leads ?I (case found of
              None \<Rightarrow> skipS
            | Some (l, instant, sl, missing) \<Rightarrow>
                seqS
                 [modS (\<lambda>p. p\<lparr>p_replacing := ln_id l, p_reference_rtt := (if sl then ln_rtt_us l else - 1),
                    p_next_replacement := instant + of_int (latency_renew_cooldown_sec (pl_cfg L) * 1000000)\<rparr>),
                  whenS sl (statP (\<lambda>st. st\<lparr>st_latency_renewals := st_latency_renewals st + 1\<rparr>)),
                  whenS missing (statP (\<lambda>st. st\<lparr>st_reply_renewals := st_reply_renewals st + 1\<rparr>)),
                  eventP ''pool replacement=started'']) (\<lambda>_. pool_ok L) (pool_ok L)"
    proof (cases found)
      case None
      then show ?thesis by (auto simp: skipS_def intro!: leads_retS)
    next
      case (Some x)
      obtain l instant sl missing where x: "x = (l, instant, sl, missing)" by (cases x) auto
      show ?thesis using leads_thenS [OF s leads_holds [OF ok]] by (simp add: Some x)
    qed
    show ?thesis unfolding f prod.case by (rule leads_thenS [OF m r])
  qed
  have w: "leads (\<lambda>p. pool_ok L p \<and> p = q) (whenS (\<not> p_dial q \<and> length (p_lanes q) = max_lanes L \<and> a \<and> b \<and> list_all (\<lambda>l. \<not> ln_draining l) (p_lanes q)) m)
      (\<lambda>_. pool_ok L) (pool_ok L)" if "leads ?I m (\<lambda>_. pool_ok L) (pool_ok L)" for q a b m
    unfolding whenS_def
    by (intro leads_if leads_pre [OF that]) (auto simp: skipS_def list_all_iff intro!: leads_retS)
  have t: "leads (pool_ok L) (nowP L) (\<lambda>_. pool_ok L) (pool_ok L)" by (intro leads_holds pidle_safe assms(1) pidle_nowP)
  show ?thesis
    unfolding start_replacement_def
    by (rule holds_leads, rule leads_bindS [OF t], rule leads_bindS [OF t], rule leads_withS, rule w, rule leads_askP [OF same], assumption, assumption,
        rule leads_withS, rule k)
qed

lemma start_dial_safe:
  assumes "pool_link_ok L" "\<not> pl_server L"
  shows "pool_safe L (start_dial L)"
proof -
  have t: "leads (pool_ok L) (nowP L) (\<lambda>_. pool_ok L) (pool_ok L)" by (intro leads_holds pidle_safe assms(1) pidle_nowP)
  let ?I = "\<lambda>p. pool_ok L p \<and> length (p_lanes p) \<le> max_lanes L"
  have same: "pool_same p p' \<Longrightarrow> ?I p \<Longrightarrow> ?I p'" for p p' using pool_ok_same [OF assms(1)] by (auto simp: pool_same_simps)
  have d: "pool_ok L (p\<lparr>p_dial := True\<rparr>)" if "?I p" for p using that assms(2) by (simp add: pool_ok_def pool_base_def pool_supply_def)
  have i: "leads ?I (seqS [whenS b (modS (\<lambda>p. p\<lparr>p_state := x, p_phase := y\<rparr>)), statP f, modS (\<lambda>p. p\<lparr>p_dial := True\<rparr>)]) (\<lambda>_. pool_ok L) (pool_ok L)" for b x y f
  proof -
    have k: "keeps pool_same (whenS b (modS (\<lambda>p. p\<lparr>p_state := x, p_phase := y\<rparr>)) :: unit pooling)"
      by (intro pidle_rules) (simp add: pool_same_simps)
    have m: "leads ?I (modS (\<lambda>p. p\<lparr>p_dial := True\<rparr>)) (\<lambda>_. pool_ok L) (pool_ok L)" by (rule leads_modS) (rule d)
    show ?thesis unfolding seqS.simps
      by (rule leads_thenS [OF pidle_leads [OF k same]], assumption, assumption, simp, rule leads_thenS [OF pidle_leads [OF pidle_statP same]],
          assumption, assumption, simp, rule leads_thenS [OF m]) (auto simp: skipS_def intro!: leads_retS)
  qed
  show ?thesis
    unfolding start_dial_def whenS_def [of "_ \<and> _"]
    by (rule holds_leads, rule leads_bindS [OF t], rule leads_withS, rule leads_if, rule leads_pre [OF i])
      (auto simp: skipS_def pool_ok_def pool_supply_def intro!: leads_retS)
qed

lemma supply_lanes_safe:
  assumes "pool_link_ok L"
  shows "pool_safe L (supply_lanes L)"
proof (cases "pl_server L")
  case True
  have "Some c \<in> set (pw_arrivals (pl_world L) k) \<Longrightarrow> fresh_connection L c" for k c
    using assms unfolding pool_link_ok_def fresh_connection_def by blast
  then have "pool_safe L (accept_lanes L (pw_arrivals (pl_world L) k))" for k by (intro accept_lanes_safe assms True)
  with True show ?thesis unfolding supply_lanes_def by (simp add: pool_safe_askP assms)
next
  case False
  then show ?thesis unfolding supply_lanes_def seqS.simps
    by (simp add: pools.holds_thenS pools.holds_retS finish_dial_safe start_replacement_safe start_dial_safe assms)
qed

subsection \<open>The stages of a turn\<close>

lemma pool_inv_prune: "pool_inv t \<Longrightarrow> pool_inv (pool_prune u t)"
  unfolding pool_inv_def pool_prune_def
  by (auto simp: distinct_map_filter intro: order_trans [OF length_filter_le])

lemma pool_affinity: "pool_ok L p \<Longrightarrow> pool_inv t \<Longrightarrow> pool_ok L (p\<lparr>p_affinity := t\<rparr>)"
  by (simp add: pool_ok_def pool_base_def pool_supply_def)

lemma prune_affinity_safe:
  assumes "pool_link_ok L"
  shows "pool_safe L (prune_affinity L t)"
proof -
  have "pool_ok L (p\<lparr>p_affinity := pool_prune u (p_affinity p), p_last_prune := t\<rparr>)" if "pool_ok L p" for p u
    using that pool_inv_prune by (simp add: pool_ok_def pool_base_def pool_supply_def)
  then show ?thesis
    unfolding prune_affinity_def
    by (intro pools.holds_withS pools.holds_whenS pools.holds_bindS pools.holds_modS pidle_safe [OF assms pidle_nowP])
qed

lemma lane_ok_waiting: "lane_ok L k l \<Longrightarrow> fq_inv q \<Longrightarrow> lane_ok L k (l\<lparr>ln_waiting := q\<rparr>)"
  using lane_stream_cong [of "l\<lparr>ln_waiting := q\<rparr>" l "[]"]
  by (simp add: lane_ok_def lane_done_def lane_records_def lane_wired_def lane_ahead_def lane_doomed_def)

lemma lane_ok_data: "lane_ok L k (l\<lparr>ln_last_data := u\<rparr>) = lane_ok L k l"
  using lane_stream_cong [of "l\<lparr>ln_last_data := u\<rparr>" l "[]"]
  by (simp add: lane_ok_def lane_done_def lane_records_def lane_wired_def lane_ahead_def lane_doomed_def lane_tx_key_def)

lemma expire_lanes_safe:
  assumes "pool_link_ok L"
  shows "pool_safe L (expire_lanes L)"
proof -
  have e: "pool_ok L (p\<lparr>p_lanes := map (\<lambda>l. l\<lparr>ln_waiting := snd (drop_expired t ttl (ln_waiting l))\<rparr>) (p_lanes p)\<rparr>)" if i: "pool_ok L p" for p t ttl
  proof -
    have l: "fq_inv (ln_waiting l)" "lane_ok L (c_ev (p_core p)) l" if "l \<in> set (p_lanes p)" for l
      using i that by (auto simp: pool_ok_def pool_base_def lane_ok_def lane_done_def)
    have s: "shrunk L l (l\<lparr>ln_waiting := snd (drop_expired t ttl (ln_waiting l))\<rparr>)" if "l \<in> set (p_lanes p)" for l
      using drop_effect(3,4) [OF l(1) [OF that]] by (cases "drop_expired t ttl (ln_waiting l)") (auto simp: shrunk_def slimmer_def)
    show ?thesis
      by (rule pool_shrunk [OF i, of "map (\<lambda>l. l\<lparr>ln_waiting := snd (drop_expired t ttl (ln_waiting l))\<rparr>) (p_lanes p)"])
        (use s l lane_ok_waiting drop_inv in \<open>auto simp: list_all2_map2 pool_vital_def intro!: list.rel_refl_strong\<close>)
  qed
  have k: "pool_safe L (modS (\<lambda>p. p\<lparr>p_lanes := map (\<lambda>l. l\<lparr>ln_waiting := snd (drop_expired t ttl (ln_waiting l))\<rparr>) (p_lanes p)\<rparr>))" for t ttl
    by (rule pools.holds_modS) (rule e)
  show ?thesis
    unfolding expire_lanes_def Let_def
    by (rule pools.holds_bindS [OF pidle_safe [OF assms pidle_nowP]], intro pools.holds_withS pools.holds_thenS k pidle_safe [OF assms pidle_statP])
qed

lemma pidle_note: "keeps pool_same note_outstanding"
  unfolding note_outstanding_def Let_def by (intro pidle_rules)

lemma pidle_poll_step: "keeps pool_same (pool_poll_step L)"
  unfolding pool_poll_step_def Let_def by (intro pidle_rules)

lemma pidle_status: "keeps pool_same (pool_status L)"
  unfolding pool_status_def Let_def by (auto intro!: pidle_rules simp: pool_same_simps)

text \<open>A packet is taken only if all lanes together have room for it.\<close>

lemma push_lane_spec:
  "push_lane cfg chosen packet t u ls = Some ls' \<Longrightarrow>
    \<exists>as l bs q. ls = as @ l # bs \<and> ls' = as @ l\<lparr>ln_waiting := q, ln_last_data := u\<rparr> # bs \<and> ln_id l = chosen \<and>
      fq_push packet t (queue_packets cfg) (queue_bytes cfg) (ln_waiting l) = (True, q)"
proof (induction ls arbitrary: ls')
  case (Cons l ls)
  show ?case
  proof (cases "ln_id l = chosen")
    case True
    with Cons.prems show ?thesis by (auto split: prod.splits if_splits intro!: exI [of _ "[]"])
  next
    case False
    then obtain ls1 where "push_lane cfg chosen packet t u ls = Some ls1" "ls' = l # ls1" using Cons.prems by auto
    from Cons.IH [OF this(1)] this(2) show ?thesis by (metis append_Cons)
  qed
qed simp

definition reading :: "pool_link \<Rightarrow> nat \<Rightarrow> nat \<Rightarrow> pool \<Rightarrow> bool" where
  "reading L packets bytes p \<longleftrightarrow> pool_ok L p \<and> outstanding_packets (p_lanes p) \<le> packets \<and> outstanding_bytes (p_lanes p) \<le> bytes"

lemma reading_same: "pool_link_ok L \<Longrightarrow> pool_same p p' \<Longrightarrow> reading L a b p \<Longrightarrow> reading L a b p'"
  using pool_ok_same by (auto simp: reading_def pool_same_simps)

lemma reading_idle:
  assumes "pool_link_ok L" "keeps pool_same (m :: 'a pooling)"
  shows "leads (reading L a b) m (\<lambda>_. reading L a b) (pool_ok L)"
  by (rule pidle_leads [OF assms(2) reading_same [OF assms(1)]]) (auto simp: reading_def)

lemma reading_pushed:
  assumes "reading L packets bytes p" "pool_inv aff" "push_lane (pl_cfg L) chosen packet t u (p_lanes p) = Some ls"
    and "packets < queue_packets (pl_cfg L)" "bytes + length packet + 64 \<le> queue_bytes (pl_cfg L)"
  shows "reading L (packets + 1) (bytes + length packet + 64) (p\<lparr>p_affinity := aff, p_lanes := ls\<rparr>)"
proof -
  obtain as l bs q where l: "p_lanes p = as @ l # bs" "ls = as @ l\<lparr>ln_waiting := q, ln_last_data := u\<rparr> # bs"
    "fq_push packet t (queue_packets (pl_cfg L)) (queue_bytes (pl_cfg L)) (ln_waiting l) = (True, q)"
    using push_lane_spec [OF assms(3)] by blast
  have b: "pool_base L p" "pool_supply L p" using assms(1) by (simp_all add: reading_def pool_ok_def)
  then have ok: "lane_ok L (c_ev (p_core p)) l" using l(1) by (simp add: pool_base_def)
  then have q: "fq_inv (ln_waiting l)" by (simp add: lane_ok_def lane_done_def)
  have "fq_inv q" using push_inv [OF q, of packet t "queue_packets (pl_cfg L)" "queue_bytes (pl_cfg L)"] l(3) by simp
  then have new: "lane_ok L (c_ev (p_core p)) (l\<lparr>ln_waiting := q, ln_last_data := u\<rparr>)" using ok by (simp add: lane_ok_data lane_ok_waiting)
  note e = push_effect(2,3) [OF q l(3)]
  have o: "outstanding_packets ls = Suc (outstanding_packets (p_lanes p))" "outstanding_bytes ls = outstanding_bytes (p_lanes p) + length packet"
    using l(1,2) e by (simp_all add: outstanding_packets_def outstanding_bytes_def)
  have "lanes_fit (pl_cfg L) ls" using o assms(1,4,5) by (simp add: lanes_fit_def reading_def)
  then have "pool_base L (p\<lparr>p_affinity := aff, p_lanes := ls\<rparr>)" using b(1) l new assms(2) by (auto simp: pool_base_def)
  moreover have "pool_supply L (p\<lparr>p_affinity := aff, p_lanes := ls\<rparr>)" using b(2) l by (auto simp: pool_supply_def)
  ultimately show ?thesis using o assms(1) by (simp add: reading_def pool_ok_def)
qed

lemma pool_packet_leads:
  assumes "pool_link_ok L"
  shows "leads (reading L a b) (pool_packet L packet a b)
    (\<lambda>taken. if taken then reading L (a + 1) (b + length packet + 64) else reading L a b) (pool_ok L)"
proof -
  let ?J = "\<lambda>taken. if taken then reading L (a + 1) (b + length packet + 64) else reading L a b"
  have k: "leads (\<lambda>p. reading L a b p \<and> p = q)
      (let cfg = pl_cfg L; ls = p_lanes q; preferred = preferred_lane (lane_score cfg instant t) ls None 0 in
       case pool_choose (pw_place (pl_world L) k) packet (map ln_id ls) instant preferred (p_affinity q) of
         (chosen, aff) \<Rightarrow>
           thenS (modS (\<lambda>p. p\<lparr>p_affinity := aff\<rparr>))
           (let taken = (if a \<ge> queue_packets cfg \<or> b + length packet + 64 > queue_bytes cfg then None
                         else push_lane cfg chosen packet u v ls) in
            case taken of
              None \<Rightarrow> thenS (statP count_drop) (retS (Inr False))
            | Some ls' \<Rightarrow> thenS (modS (\<lambda>p. p\<lparr>p_lanes := ls'\<rparr>)) (retS (Inr True)))) ?J (pool_ok L)" for q instant t k u v
  proof (cases "reading L a b q")
    case True
    let ?pref = "preferred_lane (lane_score (pl_cfg L) instant t) (p_lanes q) None 0"
    obtain chosen aff where c: "pool_choose (pw_place (pl_world L) k) packet (map ln_id (p_lanes q)) instant ?pref (p_affinity q) = (chosen, aff)"
      by fastforce
    have inv: "pool_inv (p_affinity q)" "place_ok (pw_place (pl_world L) k)"
      using True assms by (simp_all add: reading_def pool_ok_def pool_base_def pool_link_ok_def)
    have aff: "pool_inv aff"
    proof (cases "p_lanes q = []")
      case True
      with c inv show ?thesis by (simp add: pool_choose_def)
    qed (use choose_effect(1) [OF inv _ c] in simp)
    show ?thesis
    proof (cases "a \<ge> queue_packets (pl_cfg L) \<or> b + length packet + 64 > queue_bytes (pl_cfg L) \<or> push_lane (pl_cfg L) chosen packet u v (p_lanes q) = None")
      case None: True
      have m: "leads (\<lambda>p. reading L a b p \<and> p = q) (modS (\<lambda>p. p\<lparr>p_affinity := aff\<rparr>)) (\<lambda>_. reading L a b) (pool_ok L)"
        by (rule leads_modS) (use aff pool_affinity in \<open>auto simp: reading_def\<close>)
      have "leads (\<lambda>p. reading L a b p \<and> p = q) (thenS (modS (\<lambda>p. p\<lparr>p_affinity := aff\<rparr>)) (thenS (statP count_drop) (retS (Inr False)))) ?J (pool_ok L)"
        by (rule leads_thenS [OF m], rule leads_thenS [OF reading_idle [OF assms pidle_statP]]) (simp add: leads_retS)
      with c None show ?thesis by (auto simp: Let_def)
    next
      case False
      then obtain ls where ls: "push_lane (pl_cfg L) chosen packet u v (p_lanes q) = Some ls" by auto
      have "reading L (a + 1) (b + length packet + 64) (q\<lparr>p_affinity := aff, p_lanes := ls\<rparr>)"
        by (rule reading_pushed [OF True aff ls]) (use False in simp_all)
      then have m: "leads (\<lambda>p. reading L a b p \<and> p = q) (thenS (modS (\<lambda>p. p\<lparr>p_affinity := aff\<rparr>)) (thenS (modS (\<lambda>p. p\<lparr>p_lanes := ls\<rparr>)) (retS (Inr True)))) ?J (pool_ok L)"
        by (auto simp: leads_def thenS_modS retS_def)
      with c ls False show ?thesis by (simp add: Let_def)
    qed
  qed (simp add: leads_def)
  have t: "leads (reading L a b) (nowP L) (\<lambda>_. reading L a b) (pool_ok L)" by (rule reading_idle [OF assms pidle_nowP])
  show ?thesis
    unfolding pool_packet_def
    by (rule leads_bindS [OF t], rule leads_bindS [OF t], rule leads_askP [OF reading_same [OF assms]], assumption, assumption,
        rule leads_bindS [OF t], rule leads_bindS [OF t], rule leads_withS, rule k)
qed

lemma pool_read_tun_leads:
  assumes "pool_link_ok L"
  shows "leads (reading L a b) (pool_read_tun L n a b) (\<lambda>_. pool_ok L) (pool_ok L)"
proof (induction n arbitrary: a b)
  case 0
  then show ?case by (auto simp: skipS_def reading_def intro!: leads_retS)
next
  case (Suc n)
  have p: "leads (reading L a b) (bindS (pool_packet L packet a b) (\<lambda>taken.
      if taken then pool_read_tun L n (a + 1) (b + length packet + 64) else pool_read_tun L n a b)) (\<lambda>_. pool_ok L) (pool_ok L)" for packet
    by (rule leads_bindS [OF pool_packet_leads [OF assms]]) (use Suc.IH in \<open>auto split: if_splits\<close>)
  have s: "leads (reading L a b) skipS (\<lambda>_. pool_ok L) (pool_ok L)" "leads (reading L a b) (failP m) (\<lambda>_. pool_ok L) (pool_ok L)" for m
    by (auto simp: skipS_def failP_def reading_def intro!: leads_retS leads_throwS)
  show ?case
    unfolding pool_read_tun.simps
    by (rule leads_bindS [OF reading_idle [OF assms pidle_askP]])
      (auto intro!: s Suc.IH leads_thenS [OF reading_idle [OF assms pidle_statP]] p split: tun_read.splits)
qed

text \<open>A lane that failed is removed, the others stay.\<close>

lemma detach_ok:
  assumes "pool_link_ok L" "pool_ok L p" "p_lanes p = ls0 @ l # rest" "list_all2 (shrunk L) ls0 ls1" "shrunk L l l'" "lane_done L l'"
    and "\<forall>x \<in> set (ls1 @ rest). lane_ok L (c_ev c) x" "c_ev (p_core p) \<le> c_ev c" "p' = p\<lparr>p_core := c\<rparr>" "detach L ls1 l' rest e p' = (q, r)"
  shows "pool_ok L q \<and> r = Inr () \<and> p_lanes q = ls1 @ rest \<and> p_retired q = p_retired p @ [l']"
proof -
  have v: "pool_vital q = pool_vital (p\<lparr>p_lanes := ls1 @ rest, p_retired := p_retired p @ [l']\<rparr>)" "c_ev (p_core q) = c_ev c" "r = Inr ()"
    using assms(9,10)
    by (auto simp: detach_def thenS_def bindS_def statP_def eventP_def modS_def withS_def whenS_def skipS_def retS_def pool_vital_def split: if_splits)
  note s = slimmer_outstanding [OF shrunk_slimmer [OF assms(4)]]
  have b: "pool_base L p" "pool_supply L p" using assms(2) by (simp_all add: pool_ok_def)
  have i: "ln_id l' = ln_id l" using assms(5) by (simp add: shrunk_def slimmer_def)
  have "mset (map ln_id ((ls1 @ rest) @ p_retired p @ [l'])) = mset (map ln_id (p_lanes p @ p_retired p))"
    using s i assms(3) by simp
  moreover have "lanes_fit (pl_cfg L) (ls1 @ rest)"
    using b(1) assms(3) s by (auto simp: pool_base_def lanes_fit_def outstanding_packets_def outstanding_bytes_def)
  ultimately have "pool_base L q"
    using b(1) v assms(3,6,7) s by (simp add: pool_base_def pool_vital_def)
  moreover have "pool_supply L q"
  proof -
    have d: "\<forall>x \<in> set ls1. \<not> ln_draining x" if "\<not> pl_server L" "\<forall>x \<in> set ls0. \<not> ln_draining x"
      using shrunk_draining [OF assms(4) that(1)] that(2) by (metis (no_types, lifting) image_iff list.set_map)
    show ?thesis using b(2) v assms(3) s d by (auto simp: pool_supply_def pool_vital_def)
  qed
  ultimately show ?thesis using v by (simp add: pool_ok_def pool_vital_def)
qed

lemma serve_all_cases:
  assumes "pool_link_ok L" "pool_ok L p" "serve_all L gone p = (q, r)"
  obtains "r = Inr ()" "pool_ok L q" "list_all2 (shrunk L) (p_lanes p) (p_lanes q)" "p_retired q = p_retired p"
  | ls0 ls1 l l' rest where "r = Inr ()" "pool_ok L q" "p_lanes p = ls0 @ l # rest" "p_lanes q = ls1 @ rest" "list_all2 (shrunk L) ls0 ls1"
    "shrunk L l l'" "p_retired q = p_retired p @ [l']"
proof -
  obtain c ls rest x where s: "serve_lanes L gone [] (p_lanes p) (p_core p) = (c, ls, rest, x)" by (metis surj_pair)
  have ok: "\<forall>l \<in> set ([] @ p_lanes p). lane_ok L (c_ev (p_core p)) l" using assms(2) by (simp add: pool_ok_def pool_base_def)
  obtain ls0 where sp: "c_ev (p_core p) \<le> c_ev c" "\<forall>l \<in> set (ls @ rest). lane_ok L (c_ev c) l" "list_all2 (shrunk L) ls0 ls"
    "case x of None \<Rightarrow> p_lanes p = ls0 \<and> rest = [] | Some (l', e) \<Rightarrow> \<exists>l. p_lanes p = ls0 @ l # rest \<and> shrunk L l l' \<and> lane_done L l'"
    using serve_lanes_spec [OF s assms(1) ok] by auto
  show ?thesis
  proof (cases x)
    case None
    then have q: "q = p\<lparr>p_core := c, p_lanes := ls\<rparr>" "r = Inr ()" using assms(3) s sp(4) by (auto simp: serve_all_def withS_def modS_def)
    have "pool_ok L q" by (rule pool_shrunk [OF assms(2), of ls]) (use sp None q in \<open>simp_all add: pool_vital_def\<close>)
    with that(1) q sp None show ?thesis by simp
  next
    case (Some y)
    then obtain l' e l where y: "y = (l', e)" "p_lanes p = ls0 @ l # rest" "shrunk L l l'" "lane_done L l'" using sp(4) by (cases y) auto
    have "detach L ls l' rest e (p\<lparr>p_core := c\<rparr>) = (q, r)" using assms(3) s Some y(1) by (simp add: serve_all_def withS_def thenS_modS)
    from detach_ok [OF assms(1,2) y(2) sp(3) y(3,4) sp(2,1) refl this] that(2) y sp(3) show ?thesis by blast
  qed
qed

lemma serve_all_safe: "pool_link_ok L \<Longrightarrow> pool_safe L (serve_all L gone)"
  by (rule holdsI; erule (2) serve_all_cases) auto

lemma pool_turn_safe:
  assumes "pool_link_ok L"
  shows "pool_safe L (pool_turn L)"
proof -
  have r: "leads (\<lambda>p. pool_ok L p \<and> p = q) (whenS (c q) (pool_read_tun L n (outstanding_packets (p_lanes q)) (outstanding_bytes (p_lanes q)))) (\<lambda>_. pool_ok L) (pool_ok L)" for q n c
    unfolding whenS_def by (intro leads_if leads_pre [OF pool_read_tun_leads [OF assms]]) (auto simp: reading_def skipS_def intro!: leads_retS)
  have a: "pool_safe L (withS (\<lambda>p. whenS (c p) (pool_read_tun L n (outstanding_packets (p_lanes p)) (outstanding_bytes (p_lanes p)))))" for n c
    by (rule holds_leads, rule leads_withS, rule r)
  have t: "pool_safe L (case r of
        PoolPollFailed \<Rightarrow> failP ''PTT8 poll failed''
      | PoolPollInterrupted \<Rightarrow> skipS
      | PoolPolled gone tun_ready \<Rightarrow>
          seqS
           [withS (\<lambda>p. whenS (can_read L (p_lanes p) \<and> tun_ready)
              (pool_read_tun L (nat (max 1 (batch_packets (pl_cfg L)))) (outstanding_packets (p_lanes p)) (outstanding_bytes (p_lanes p)))),
            serve_all L gone, pool_status L])" for r
  proof (cases r)
    case (PoolPolled gone tun_ready)
    show ?thesis
      unfolding PoolPolled pool_poll.case seqS.simps
      by (rule pools.holds_thenS [OF a], intro pools.holds_thenS serve_all_safe pidle_safe [OF _ pidle_status] pools.holds_retS assms)
  qed (simp_all add: pidle_safe [OF assms pidle_failP] pools.holds_retS)
  show ?thesis
    unfolding pool_turn_def seqS.simps
    by (intro pools.holds_thenS pools.holds_bindS t [unfolded seqS.simps] pools.holds_retS pools.holds_withS supply_lanes_safe prune_affinity_safe expire_lanes_safe
        pidle_safe [OF _ pidle_note] pidle_safe [OF _ pidle_poll_step] pidle_safe [OF _ pidle_statP] pidle_safe [OF _ pidle_nowP] assms)
qed

lemma pool_loop_safe: "pool_link_ok L \<Longrightarrow> pool_safe L (pool_loop_n L n)"
  by (induction n) (simp_all add: pools.holds_retS pools.holds_thenS pool_turn_safe)

lemma start_pool_ok: "pool_ok L (start_pool L t st)"
  by (simp add: start_pool_def Let_def pool_ok_def pool_base_def pool_supply_def pool_inv_def lanes_fit_def outstanding_packets_def outstanding_bytes_def)

lemma pool_result:
  assumes "pool_link_ok L" "pool_loop_n L n (start_pool L t st) = (p, r)"
  shows "pool_ok L p"
  using holdsD [OF pool_loop_safe [OF assms(1)] start_pool_ok] assms(2) by (cases r) blast+

lemma lane_ok_done: "lane_ok L k l \<Longrightarrow> lane_done L l"
  by (simp add: lane_ok_def)

lemma pool_lanes_done: "pool_ok L p \<Longrightarrow> l \<in> set (p_lanes p) \<union> set (p_retired p) \<Longrightarrow> lane_done L l"
  using lane_ok_done by (auto simp: pool_ok_def pool_base_def)

end
