(* ===== verification/PoolRun.thy ===== *)
theory PoolRun
  imports PoolProps
begin

text \<open>
  What the pool promises, over every run of its loop: its bounds, the sequence numbers and the bytes of its lanes, and
  what an error can do; with a run of one turn in which a lane is attached and sends a packet.
\<close>

section \<open>What a turn can throw\<close>

definition throws_only :: "'e set \<Rightarrow> ('s, 'e, 'a) se \<Rightarrow> bool" where
  "throws_only E m \<longleftrightarrow> (\<forall>s s' e. m s = (s', Inl e) \<longrightarrow> e \<in> E)"

lemma throws_basic: "throws_only E (retS (Inr x))" "throws_only E skipS" "throws_only E (modS f)" "e \<in> E \<Longrightarrow> throws_only E (throwS e)"
  by (simp_all add: throws_only_def retS_def skipS_def modS_def throwS_def)

lemma throws_bindS [intro]: "throws_only E m \<Longrightarrow> (\<And>x. throws_only E (f x)) \<Longrightarrow> throws_only E (bindS m f)"
  unfolding throws_only_def by (auto elim!: bindS_cases)

lemma throws_thenS [intro]: "throws_only E m \<Longrightarrow> throws_only E k \<Longrightarrow> throws_only E (thenS m k)"
  by (auto simp: thenS_def)

lemma throws_whenS [intro]: "throws_only E m \<Longrightarrow> throws_only E (whenS b m)"
  by (auto simp: whenS_def intro: throws_basic)

lemma throws_withS [intro]: "(\<And>s. throws_only E (f s)) \<Longrightarrow> throws_only E (withS f)"
  by (simp add: throws_only_def withS_def)

lemma throws_catchS [intro]: "(\<And>e. throws_only E (h e)) \<Longrightarrow> throws_only E (catchS m h)"
  by (auto simp: throws_only_def catchS_def split: prod.splits sum.splits)

lemma throws_pool [intro]: "throws_only E (askP f)" "throws_only E (nowP L)" "throws_only E (statP g)" "throws_only E (eventP l)"
  "PoolFail m \<in> E \<Longrightarrow> throws_only E (failP m)"
  by (auto simp: throws_only_def askP_def nowP_def statP_def eventP_def failP_def modS_def throwS_def retS_def)

lemma throws_seqS [intro]: "(\<And>m. m \<in> set ms \<Longrightarrow> throws_only E m) \<Longrightarrow> throws_only E (seqS ms)"
  by (induction ms) (auto intro: throws_basic)

lemma throws_detach: "throws_only E (detach L ls l rest e)"
  unfolding detach_def seqS.simps by (intro throws_thenS throws_withS throws_whenS throws_basic throws_pool)

lemma throws_accept: "throws_only E (accept_lanes L cs)"
  by (induction cs) (auto intro!: throws_basic throws_pool throws_thenS throws_withS throws_catchS)

lemma throws_supply: "throws_only E (supply_lanes L)"
proof -
  have f: "throws_only E (dial_failed L)" unfolding dial_failed_def seqS.simps by (intro throws_thenS throws_bindS throws_basic throws_pool)
  then have "throws_only E (finish_dial L)" unfolding finish_dial_def
    by (auto intro!: throws_basic throws_thenS throws_bindS throws_withS throws_whenS throws_catchS split: dial_outcome.splits)
  moreover have "throws_only E (start_replacement L)" unfolding start_replacement_def
    by (auto intro!: throws_basic throws_thenS throws_bindS throws_withS throws_whenS split: prod.splits option.splits)
  moreover have "throws_only E (start_dial L)" unfolding start_dial_def
    by (auto intro!: throws_basic throws_thenS throws_bindS throws_withS throws_whenS)
  ultimately show ?thesis unfolding supply_lanes_def by (auto simp: throws_accept intro!: throws_basic throws_bindS throws_thenS)
qed

lemma throws_packet: "throws_only E (pool_packet L packet a b)"
  unfolding pool_packet_def Let_def by (auto intro!: throws_basic throws_thenS throws_bindS throws_withS split: prod.splits option.splits)

lemma throws_read: "PoolFail ''PTT8 TUN read failed'' \<in> E \<Longrightarrow> throws_only E (pool_read_tun L n a b)"
  by (induction n arbitrary: a b) (auto intro!: throws_basic throws_thenS throws_bindS throws_packet throws_pool split: tun_read.splits)

lemma throws_serve: "throws_only E (serve_all L gone)"
  unfolding serve_all_def by (auto intro!: throws_basic throws_withS throws_thenS throws_detach split: prod.splits option.splits)

lemma throws_turn: "throws_only {PoolFail ''PTT8 poll failed'', PoolFail ''PTT8 TUN read failed''} (pool_turn L)"
  unfolding pool_turn_def prune_affinity_def expire_lanes_def note_outstanding_def pool_poll_step_def pool_status_def Let_def
  by (auto intro!: throws_basic throws_thenS throws_bindS throws_withS throws_whenS throws_supply throws_read throws_serve throws_pool throws_basic split: pool_poll.splits)

section \<open>A concrete pool\<close>

text \<open>A server for two connections; one arrives, and the TUN device has a packet for it.\<close>

definition demo_pool_cfg :: config where
  "demo_pool_cfg = demo_cfg\<lparr>mode := ''server'', max_connections := 2\<rparr>"

definition demo_handshake :: ws_handshake_result where
  "demo_handshake = \<lparr>hs_keys = \<lparr>client_tx = demo_key, server_tx = demo_key, auth = demo_key\<rparr>, peer_padding = False, peer_envelope = False,
     hs_confirmed = True, peer_trial = True, trial_max_rtt_us = 0, psk_index = 0, hs_pool_connections = 2, client_nonce = [], server_nonce = []\<rparr>"

definition demo_connection :: connection where
  "demo_connection = \<lparr>cn_ws = new_session False, cn_handshake = demo_handshake\<rparr>"

definition demo_pool_world :: pool_world where
  "demo_pool_world = \<lparr>pw_clock = (\<lambda>k. 100000000), pw_pad = (\<lambda>_. demo_rng), pw_mask = (\<lambda>_. None), pw_jitter = (\<lambda>_ _. 0),
     pw_delay = (\<lambda>_ _. 0), pw_io = (\<lambda>_ _ c. (Wrote (length c), 100000)), pw_ready = (\<lambda>_. False), pw_reads = (\<lambda>_ _. RAgain 1),
     pw_read_env = (\<lambda>_ _. (None, 100000)), pw_buffered = (\<lambda>_. False), pw_poll = (\<lambda>_ _ _ _. PoolPolled [] True),
     pw_tun_read = (\<lambda>_. TunPacket demo_packet), pw_tun_write = (\<lambda>_ _. True), pw_force = (\<lambda>_. False), pw_place = (\<lambda>_. (#)),
     pw_arrivals = (\<lambda>_. [Some demo_connection]), pw_socket = (\<lambda>_. True), pw_dial = (\<lambda>_. DialPending)\<rparr>"

definition demo_pool :: pool_link where
  "demo_pool = \<lparr>pl_cfg = demo_pool_cfg, pl_crypto = demo_crypto, pl_round = (\<lambda>x. x), pl_server = True, pl_world = demo_pool_world\<rparr>"

lemma demo_pool_ok: "pool_link_ok demo_pool"
  using new_session_invar
  by (auto simp: pool_link_ok_def demo_pool_def demo_pool_world_def demo_pool_cfg_def demo_connection_def mask4_def io_ok_def place_ok_def mono_def)

lemma demo_pool_simps [simp]:
  "pl_crypto demo_pool = demo_crypto" "pl_round demo_pool = (\<lambda>x. x)" "pl_server demo_pool" "pl_world demo_pool = demo_pool_world"
  "mode (pl_cfg demo_pool) = ''server''" "max_connections (pl_cfg demo_pool) = 2" "max_lanes demo_pool = 2"
  "queue_packets (pl_cfg demo_pool) = 4096" "queue_bytes (pl_cfg demo_pool) = 8388608" "websocket_ping_sec (pl_cfg demo_pool) = 0"
  "traffic_shaping (pl_cfg demo_pool) = False" "websocket_padding_max_bytes (pl_cfg demo_pool) = 0"
  "batch_bytes (pl_cfg demo_pool) = 16384" "adaptive_batching (pl_cfg demo_pool) = False" "batch_packets (pl_cfg demo_pool) = 1"
  "websocket_io_timeout_sec (pl_cfg demo_pool) = 30" "reply_timeout_sec (pl_cfg demo_pool) = 60" "queue_delay_ms (pl_cfg demo_pool) = 500"
  "keepalive_sec (pl_cfg demo_pool) = 10" "idle_timeout_sec (pl_cfg demo_pool) = 300" "websocket_pong_timeout_sec (pl_cfg demo_pool) = 0"
  by (simp_all add: demo_pool_def demo_pool_cfg_def max_lanes_def)

lemma demo_pool_world_simps [simp]:
  "pw_clock demo_pool_world = (\<lambda>k. 100000000)" "pw_pad demo_pool_world = (\<lambda>_. demo_rng)" "pw_mask demo_pool_world = (\<lambda>_. None)"
  "pw_delay demo_pool_world = (\<lambda>_ _. 0)" "pw_io demo_pool_world = (\<lambda>_ _ c. (Wrote (length c), 100000))" "pw_ready demo_pool_world = (\<lambda>_. False)"
  "pw_reads demo_pool_world = (\<lambda>_ _. RAgain 1)" "pw_read_env demo_pool_world = (\<lambda>_ _. (None, 100000))" "pw_buffered demo_pool_world = (\<lambda>_. False)"
  "pw_poll demo_pool_world = (\<lambda>_ _ _ _. PoolPolled [] True)" "pw_tun_read demo_pool_world = (\<lambda>_. TunPacket demo_packet)"
  "pw_force demo_pool_world = (\<lambda>_. False)" "pw_place demo_pool_world = (\<lambda>_. (#))" "pw_arrivals demo_pool_world = (\<lambda>_. [Some demo_connection])"
  "pw_socket demo_pool_world = (\<lambda>_. True)"
  by (simp_all add: demo_pool_world_def)

lemma demo_connection_simps [simp]:
  "cn_ws demo_connection = new_session False" "cn_handshake demo_connection = demo_handshake" "hs_pool_connections demo_handshake = 2"
  "hs_confirmed demo_handshake" "peer_trial demo_handshake" "hs_keys demo_handshake = \<lparr>client_tx = demo_key, server_tx = demo_key, auth = demo_key\<rparr>"
  by (simp_all add: demo_connection_def demo_handshake_def)

definition demo_waiting :: flow_queue where
  "demo_waiting = snd (fq_push demo_packet 100000000 4096 8388608 new_queue)"

definition demo_popped :: flow_queue where
  "demo_popped = snd (fq_pop demo_waiting)"

lemma demo_packet_simps [simp]: "length demo_packet = 20" "demo_packet \<noteq> []"
  by (simp_all add: demo_packet_def)

lemma demo_waiting:
  "fq_push demo_packet 100000000 4096 8388608 new_queue = (True, demo_waiting)" "fq_packets demo_waiting = 1" "fq_bytes demo_waiting = 20"
  "fq_pop demo_waiting = (\<lparr>fp_bytes = demo_packet, enqueued_us = 100000000\<rparr>, demo_popped)"
  "fq_packets demo_popped = 0" "fq_bytes demo_popped = 0"
proof -
  show p: "fq_push demo_packet 100000000 4096 8388608 new_queue = (True, demo_waiting)"
    by (simp add: demo_waiting_def fq_push_def new_queue_def Let_def demo_packet_def)
  note e = push_effect [OF fq_inv_new p]
  show n: "fq_packets demo_waiting = 1" "fq_bytes demo_waiting = 20" using e(2,3) by (simp_all add: new_queue_def demo_packet_def)
  have i: "fq_inv demo_waiting" using push_inv [OF fq_inv_new] by (simp add: demo_waiting_def)
  have ne: "\<not> fq_empty demo_waiting" by (simp add: fq_empty_def n)
  obtain x q where x: "fq_pop demo_waiting = (x, q)" by fastforce
  note o = pop_effect [OF i ne x]
  have "held (rr_flows demo_waiting) (fp_key x) = x # held (rr_flows q) (fp_key x)" using o(1) [of "fp_key x"] by simp
  then have "x = \<lparr>fp_bytes = demo_packet, enqueued_us = 100000000\<rparr>"
    using e(1) [of "fp_key x"] by (auto simp: held_def new_queue_def split: if_splits)
  then show "fq_pop demo_waiting = (\<lparr>fp_bytes = demo_packet, enqueued_us = 100000000\<rparr>, demo_popped)" using x by (simp add: demo_popped_def)
  show "fq_packets demo_popped = 0" "fq_bytes demo_popped = 0"
    using o(2,3) n x \<open>x = _\<close> by (simp_all add: demo_packet_def demo_popped_def)
qed

lemmas pool_run = bindS_def thenS_def retS_def modS_def withS_def skipS_def throwS_def whenS_def catchS_def askC_def nowC_def laneS_def coreS_def
  statC_def eventC_def withL_def failC_def askP_def nowP_def statP_def eventP_def failP_def

definition demo_lane :: lane where
  "demo_lane = new_lane demo_pool 100000000 1 demo_connection"

definition demo_pool_start :: pool where
  "demo_pool_start = start_pool demo_pool 100000000 new_stats"

lemma demo_supply:
  obtains p where "supply_lanes demo_pool demo_pool_start = (p, Inr ())" "p_lanes p = [demo_lane]" "p_retired p = []" "p_last_prune p = 100000000"
    "p_affinity p = []" "c_padding (p_core p) = c_padding (p_core demo_pool_start)"
  by (simp add: supply_lanes_def pool_run attach_def Let_def demo_pool_start_def start_pool_def demo_lane_def)

text \<open>The lane with the packet, and what serving it does.\<close>

definition demo_busy :: lane where
  "demo_busy = demo_lane\<lparr>ln_waiting := demo_waiting, ln_last_data := 100000000\<rparr>"

lemma demo_busy_simps [simp]:
  "ln_id demo_busy = 1" "ln_handshake demo_busy = demo_handshake" "ln_ws demo_busy = new_session False" "ln_waiting demo_busy = demo_waiting"
  "ln_sequence demo_busy = 1" "\<not> ln_probe_outstanding demo_busy" "ln_last_rx demo_busy = 100000000" "ln_last_probe demo_busy = 100000000"
  "ln_last_tx demo_busy = 100000000" "\<not> ln_draining demo_busy" "\<not> ln_ping_pending demo_busy" "ln_wire demo_busy = []" "ln_sent demo_busy = []"
  "ln_log demo_busy = []" "ln_last_data demo_busy = 100000000"
  by (simp_all add: demo_busy_def demo_lane_def new_lane_def new_session_def)

lemma demo_idle_flush:
  assumes "ws_tx (ln_ws l) = []"
  obtains l' c' where "lane_flush demo_pool (l, c) = ((l', c'), Inr ())" "l' = l" "c_padding c' = c_padding c"
  using assms by (simp add: lane_flush_def pool_run websocket_flush_def flush_loop.simps)

lemma demo_checks:
  obtains c' where "lane_checks demo_pool (demo_busy, c) = ((demo_busy, c'), Inr ())" "c_padding c' = c_padding c"
  by (simp add: lane_checks_def pool_run websocket_tx_stalled_def new_session_def)

definition demo_record :: lane where
  "demo_record = demo_busy\<lparr>ln_waiting := demo_popped, ln_shaper := sh_observe 20 100000000 (ln_shaper demo_busy), ln_sequence := 2,
     ln_log := [(1, 0, demo_packet, demo_rec)]\<rparr>"

lemma demo_fill:
  obtains c' where "lane_fill demo_pool (Suc 0) [] (demo_busy, c) = ((demo_record, c'), Inr demo_rec)"
proof -
  have "lane_encode demo_pool demo_packet 0 (demo_busy\<lparr>ln_waiting := demo_popped\<rparr>, c) = ((demo_record, c\<lparr>c_ev := Suc (c_ev c)\<rparr>), Inr demo_rec)"
    by (simp add: lane_encode_def RECORD_DRAIN_def lane_maximum_def lane_plain_def lane_record_def lane_tx_key_def pool_run Let_def demo_rec demo_record_def)
  then show ?thesis by (simp add: that fq_empty_def demo_waiting pool_run)
qed

definition demo_framed :: lane where
  "demo_framed = demo_record\<lparr>ln_ws := (new_session False)\<lparr>ws_tx := [\<lparr>fr_data = 0x82 # 52 # demo_rec, fr_offset = 0, fr_payload_bytes = 52, fr_opcode = 2\<rparr>],
     tx_queued_bytes := 54, tx_last_progress_ms := 100000\<rparr>, ln_sent := [demo_rec]\<rparr>"

definition demo_queued :: lane where
  "demo_queued = demo_framed\<lparr>ln_last_tx := 100000000\<rparr>"

lemma demo_send_waiting:
  obtains c' where "lane_send_waiting demo_pool (demo_busy, c) = ((demo_queued, c'), Inr ())"
proof -
  obtain c1 where f: "lane_fill demo_pool (Suc 0) [] (demo_busy, c) = ((demo_record, c1), Inr demo_rec)" using demo_fill .
  have w: "ln_ws demo_record = new_session False" "ln_sent demo_record = []" by (simp_all add: demo_record_def)
  have s: "lane_send demo_pool demo_rec (demo_record, c1) = ((demo_framed, c1\<lparr>c_ev := c_ev c1 + 2\<rparr>), Inr ())"
    by (simp add: lane_send_def pool_run w websocket_send_binary_def queue_frame_def make_frame_def length_bytes_def
        is_control_def kMaxWsTxBytes_def kMaxWsMessageBytes_def demo_rec demo_framed_def new_session_def)
  have b: "lane_batch_ready demo_pool (demo_busy, c) = ((demo_busy, c), Inr True)" "lane_batch demo_pool (demo_busy, c) = ((demo_busy, c), Inr 1)"
    by (simp_all add: lane_batch_ready_def lane_batch_def pool_run Let_def fq_empty_def demo_waiting new_session_def)
  show ?thesis
    using that by (simp add: lane_send_waiting_def bindS_def thenS_def whenS_def b f demo_rec s nowC_def askC_def laneS_def modS_def demo_queued_def del: lane_fill.simps)
qed

definition demo_written :: lane where
  "demo_written = demo_queued\<lparr>ln_ws := (new_session False)\<lparr>tx_binary_frames := 1, tx_binary_payload_bytes := 52\<rparr>, ln_wire := 0x82 # 52 # demo_rec\<rparr>"

lemma demo_flush: "lane_flush demo_pool (demo_queued, c) = ((demo_written, c\<lparr>c_ev := Suc (c_ev c)\<rparr>), Inr ())"
proof -
  have q: "ln_ws demo_queued = ln_ws demo_framed" "ln_wire demo_queued = []" by (simp_all add: demo_queued_def demo_framed_def demo_record_def)
  have w: "websocket_flush (\<lambda>_ c. (Wrote (length c), 100000)) 262144 (ln_ws demo_framed) =
      ((new_session False)\<lparr>tx_binary_frames := 1, tx_binary_payload_bytes := 52\<rparr>, Inr 54, 0x82 # 52 # demo_rec)"
    apply (simp add: websocket_flush_def demo_framed_def new_session_def)
    apply (subst flush_loop.simps, simp add: Let_def demo_rec account_completed_frame_def)
    apply (subst flush_loop.simps, simp add: Let_def demo_rec)
    done
  show ?thesis by (simp add: lane_flush_def pool_run q w demo_written_def)
qed

lemma demo_written_simps [simp]:
  "ln_id demo_written = 1" "ln_waiting demo_written = demo_popped" "ln_ws demo_written = (new_session False)\<lparr>tx_binary_frames := 1, tx_binary_payload_bytes := 52\<rparr>"
  "\<not> ln_probe_outstanding demo_written" "ln_last_rx demo_written = 100000000" "ln_last_probe demo_written = 100000000"
  "ln_last_tx demo_written = 100000000" "\<not> ln_draining demo_written" "\<not> ln_ping_pending demo_written" "ln_wire demo_written = 0x82 # 52 # demo_rec"
  "ln_sent demo_written = [demo_rec]" "ln_log demo_written = [(1, 0, demo_packet, demo_rec)]" "ln_last_data demo_written = 100000000"
  by (simp_all add: demo_written_def demo_queued_def demo_framed_def demo_record_def demo_waiting)

lemma demo_lane_read:
  obtains c' where "lane_read demo_pool w0 (demo_written, c) = ((demo_written, c'), Inr ())"
  by (simp add: lane_read_def websocket_read_messages_def ws_fill.simps parse_loop.simps parse_frame_def websocket_take_pongs_def
      pool_run Let_def new_session_def demo_written_def)

lemma demo_soon: "0 < n \<Longrightarrow> \<not> after_sec 100000000 100000000 n"
  by (simp add: after_sec_def elapsed_def)

lemma demo_quiet:
  "lane_check_replies demo_pool 100000000 (demo_written, c) = ((demo_written, c), Inr ())"
  "lane_probe demo_pool 100000000 (demo_written, c) = ((demo_written, c), Inr ())"
  "lane_check_pong demo_pool 100000000 (demo_written, c) = ((demo_written, c), Inr ())"
  "lane_ping demo_pool 100000000 (demo_written, c) = ((demo_written, c), Inr ())"
  "lane_keepalive demo_pool 100000000 (demo_written, c) = ((demo_written, c), Inr ())"
proof -
  have "rtt_probe_sec (pl_cfg demo_pool) = 30" by (simp add: demo_pool_def demo_pool_cfg_def)
  then show "lane_check_replies demo_pool 100000000 (demo_written, c) = ((demo_written, c), Inr ())"
    "lane_probe demo_pool 100000000 (demo_written, c) = ((demo_written, c), Inr ())"
    "lane_check_pong demo_pool 100000000 (demo_written, c) = ((demo_written, c), Inr ())"
    "lane_ping demo_pool 100000000 (demo_written, c) = ((demo_written, c), Inr ())"
    "lane_keepalive demo_pool 100000000 (demo_written, c) = ((demo_written, c), Inr ())"
    by (simp_all add: lane_check_replies_def lane_probe_def lane_check_pong_def lane_ping_def lane_keepalive_def pool_run Let_def demo_soon)
qed

text \<open>The timers do nothing; a socket that is gone ends the lane.\<close>

lemma demo_timers:
  assumes "w0 = new_session False \<or> w0 = ln_ws demo_written"
  obtains c' where "lane_timers demo_pool w0 gone (demo_written, c) = ((demo_written, c'), if gone then Inl (PoolFail ''pool socket closed'') else Inr ())"
proof -
  have t: "ws_tx (ln_ws demo_written) = []" by (simp add: new_session_def)
  obtain l1 c1 where f: "lane_flush demo_pool (demo_written, c\<lparr>c_ev := Suc (c_ev c)\<rparr>) = ((l1, c1), Inr ())" "l1 = demo_written"
    using demo_idle_flush [OF t] by blast
  obtain c2 where a: "lane_account w0 (demo_written, c1) = ((demo_written, c2), Inr ())"
    using assms by (auto simp: lane_account_def pool_run Let_def new_session_def)
  show ?thesis
    using that f a by (simp add: lane_timers_def nowC_def askC_def bindS_def thenS_def demo_quiet demo_soon withL_def withS_def whenS_def skipS_def retS_def
        failC_def throwS_def del: demo_written_simps(3))
qed

text \<open>Serving the lane makes one record of the packet and puts it on the wire in one frame.\<close>

lemma demo_serve:
  obtains c' where "serve_lane demo_pool False (demo_busy, c) = ((demo_written, c'), Inr ())"
proof -
  obtain c1 where 1: "lane_checks demo_pool (demo_busy, c) = ((demo_busy, c1), Inr ())" using demo_checks .
  have t: "ws_tx (ln_ws demo_busy) = []" by (simp add: new_session_def)
  obtain l2 c2 where 2: "lane_flush demo_pool (demo_busy, c1) = ((l2, c2), Inr ())" "l2 = demo_busy" using demo_idle_flush [OF t] by blast
  obtain c3 where 3: "lane_send_waiting demo_pool (demo_busy, c2) = ((demo_queued, c3), Inr ())" using demo_send_waiting .
  let ?c4 = "c3\<lparr>c_ev := Suc (c_ev c3)\<rparr>"
  obtain c5 where 5: "lane_read demo_pool (new_session False) (demo_written, ?c4) = ((demo_written, c5), Inr ())" using demo_lane_read .
  obtain c6 where 6: "lane_timers demo_pool (new_session False) False (demo_written, c5) = ((demo_written, c6), Inr ())" 
    using demo_timers [of "new_session False" False] by auto
  show ?thesis
    using that 1 2 3 5 6 by (simp add: serve_lane_def thenS_def bindS_def withL_def withS_def demo_flush skipS_def retS_def)
qed


lemma demo_serve_gone:
  obtains c' where "serve_lane demo_pool True (demo_written, c) = ((demo_written, c'), Inl (PoolFail ''pool socket closed''))"
proof -
  have t: "ws_tx (ln_ws demo_written) = []" by (simp add: new_session_def)
  obtain c1 where 1: "lane_checks demo_pool (demo_written, c) = ((demo_written, c1), Inr ())"
    by (simp add: lane_checks_def pool_run websocket_tx_stalled_def new_session_def)
  obtain l2 c2 where 2: "lane_flush demo_pool (demo_written, c1) = ((l2, c2), Inr ())" "l2 = demo_written" using demo_idle_flush [OF t] by blast
  have 3: "lane_send_waiting demo_pool (demo_written, c2) = ((demo_written, c2), Inr ())"
    by (simp add: lane_send_waiting_def lane_batch_ready_def pool_run Let_def fq_empty_def demo_waiting)
  obtain l4 c4 where 4: "lane_flush demo_pool (demo_written, c2) = ((l4, c4), Inr ())" "l4 = demo_written" using demo_idle_flush [OF t] by blast
  obtain c5 where 5: "lane_read demo_pool (ln_ws demo_written) (demo_written, c4) = ((demo_written, c5), Inr ())" using demo_lane_read .
  obtain c6 where 6: "lane_timers demo_pool (ln_ws demo_written) True (demo_written, c5) = ((demo_written, c6), Inl (PoolFail ''pool socket closed''))"
    using demo_timers [of "ln_ws demo_written" True] by auto
  show ?thesis
    using that 1 2 3 4 5 6 by (simp add: serve_lane_def thenS_def bindS_def withL_def withS_def del: demo_written_simps(3))
qed

lemma demo_gone:
  assumes "p_lanes p = [demo_written]" "p_retired p = []"
  obtains q where "serve_all demo_pool [True] p = (q, Inr ())" "p_lanes q = []" "p_retired q = [demo_written]"
proof -
  obtain c where c: "serve_lane demo_pool True (demo_written, p_core p) = ((demo_written, c), Inl (PoolFail ''pool socket closed''))" using demo_serve_gone .
  then show ?thesis using that assms by (simp add: serve_all_def detach_def pool_run)
qed

text \<open>The whole turn: the connection becomes a lane, the packet is read for it and sent.\<close>

lemma demo_expire:
  assumes "p_lanes p = [demo_lane]"
  obtains p' where "expire_lanes demo_pool p = (p', Inr ())" "p_lanes p' = [demo_lane]" "p_affinity p' = p_affinity p" "p_retired p' = p_retired p"
proof -
  have "ln_waiting demo_lane = new_queue" "demo_lane\<lparr>ln_waiting := new_queue\<rparr> = demo_lane"
    "drop_expired 100000000 (of_int 500 * 1000) new_queue = (0, new_queue)"
    by (simp_all add: demo_lane_def new_lane_def Let_def drop_expired_def new_queue_def fq_clear_def)
  then show ?thesis using assms that by (simp add: expire_lanes_def pool_run Let_def)
qed

lemma demo_choose:
  assumes "p_lanes p = [demo_lane]" "p_affinity p = []"
  obtains p' where "pool_packet demo_pool demo_packet 0 0 p = (p', Inr True)" "p_lanes p' = [demo_busy]" "p_retired p' = p_retired p"
proof -
  have "ln_id demo_lane = 1" "ln_waiting demo_lane = new_queue" "\<not> ln_draining demo_lane" by (simp_all add: demo_lane_def new_lane_def Let_def)
  then show ?thesis
    using assms that by (simp add: pool_packet_def pool_run Let_def pool_choose_def demo_waiting demo_busy_def split: prod.splits)
qed

lemma demo_pool_turn:
  obtains p where "pool_turn demo_pool demo_pool_start = (p, Inr ())" "p_lanes p = [demo_written]" "p_retired p = []"
proof -
  obtain p1 where p1: "supply_lanes demo_pool demo_pool_start = (p1, Inr ())" "p_lanes p1 = [demo_lane]" "p_retired p1 = []"
    "p_last_prune p1 = 100000000" "p_affinity p1 = []" using demo_supply .
  have w: "outstanding_packets [demo_lane] = 0" "outstanding_bytes [demo_lane] = 0"
    by (simp_all add: outstanding_packets_def outstanding_bytes_def demo_lane_def new_lane_def new_queue_def)
  obtain p2 where p2: "withS (\<lambda>p. statP (\<lambda>st. st\<lparr>st_pool_active := of_nat (length (p_lanes p))\<rparr>)) p1 = (p2, Inr ())" "p_lanes p2 = [demo_lane]"
    "p_retired p2 = []" "p_last_prune p2 = 100000000" "p_affinity p2 = []"
    using p1 by (simp add: pool_run)
  obtain p3 where p3: "nowP demo_pool p2 = (p3, Inr 100000000)" "p_lanes p3 = [demo_lane]" "p_retired p3 = []" "p_last_prune p3 = 100000000" "p_affinity p3 = []"
    using p2 by (simp add: pool_run)
  have p4: "prune_affinity demo_pool 100000000 p3 = (p3, Inr ())" using p3 by (simp add: prune_affinity_def pool_run elapsed_def)
  obtain p5 where p5: "expire_lanes demo_pool p3 = (p5, Inr ())" "p_lanes p5 = [demo_lane]" "p_affinity p5 = []" "p_retired p5 = []"
    using demo_expire [OF p3(2)] p3 by metis
  obtain p6 where p6: "note_outstanding p5 = (p6, Inr ())" "p_lanes p6 = [demo_lane]" "p_affinity p6 = []" "p_retired p6 = []"
    using p5 by (simp add: note_outstanding_def pool_run Let_def)
  obtain p7 where p7: "pool_poll_step demo_pool p6 = (p7, Inr (PoolPolled [] True))" "p_lanes p7 = [demo_lane]" "p_affinity p7 = []" "p_retired p7 = []"
    using p6 by (simp add: pool_poll_step_def pool_run Let_def)
  obtain p8 where p8: "pool_read_tun demo_pool (Suc 0) 0 0 p7 = (p8, Inr ())" "p_lanes p8 = [demo_busy]" "p_retired p8 = []"
  proof -
    let ?q = "p7\<lparr>p_core := (p_core p7)\<lparr>c_ev := Suc (c_ev (p_core p7)), c_stats := (c_stats (p_core p7))\<lparr>st_tun_in_pkts := st_tun_in_pkts (c_stats (p_core p7)) + 1,
        st_tun_in_bytes := st_tun_in_bytes (c_stats (p_core p7)) + 20\<rparr>\<rparr>\<rparr>"
    obtain q where "pool_packet demo_pool demo_packet 0 0 ?q = (q, Inr True)" "p_lanes q = [demo_busy]" "p_retired q = []"
      using demo_choose [of ?q] p7 by auto
    with that show ?thesis by (simp add: pool_run)
  qed
  obtain c where c: "serve_lane demo_pool False (demo_busy, p_core p8) = ((demo_written, c), Inr ())" using demo_serve .
  let ?p9 = "p8\<lparr>p_core := c, p_lanes := [demo_written]\<rparr>"
  have p9: "serve_all demo_pool [] p8 = (?p9, Inr ())" using p8 c by (simp add: serve_all_def pool_run)
  obtain p10 where p10: "pool_status demo_pool ?p9 = (p10, Inr ())" "p_lanes p10 = [demo_written]" "p_retired p10 = []"
    using p8 by (simp add: pool_status_def pool_run Let_def)
  have "pool_turn demo_pool demo_pool_start = (p10, Inr ())"
    using p1(1) p2(1) p3(1) p4 p5(1) p6(1) p7(1,2) p8(1) p9 p10(1) w
    by (simp add: pool_turn_def thenS_def bindS_def whenS_def withS_def can_read_def skipS_def retS_def del: pool_read_tun.simps)
  with that p10 show ?thesis by blast
qed

lemma demo_pool_run:
  obtains p where "pool_loop_n demo_pool 1 (start_pool demo_pool 100000000 new_stats) = (p, Inr ())" "p_lanes p = [demo_written]" "p_retired p = []"
proof -
  obtain p where "pool_turn demo_pool demo_pool_start = (p, Inr ())" "p_lanes p = [demo_written]" "p_retired p = []" using demo_pool_turn .
  with that show ?thesis by (simp add: demo_pool_start_def thenS_def bindS_def skipS_def retS_def)
qed
section \<open>Properties\<close>

lemma pool_ids:
  assumes "pool_ok L p" "p_attached p < 2 ^ 64"
  shows "distinct (map ln_id (p_lanes p @ p_retired p))" "0 \<notin> set (map ln_id (p_lanes p @ p_retired p))"
proof -
  have m: "mset (map ln_id (p_lanes p @ p_retired p)) = mset (map (\<lambda>i. of_nat (Suc i)) [0..<p_attached p])"
    using assms(1) by (simp add: pool_ok_def pool_base_def)
  have u: "unat (of_nat (Suc i) :: u64) = Suc i" if "i < p_attached p" for i
    using that assms(2) by (simp add: unat_of_nat del: of_nat_Suc)
  then have "inj_on (\<lambda>i. of_nat (Suc i) :: u64) {0..<p_attached p}"
    by (intro inj_onI) (metis Suc_inject atLeastLessThan_iff)
  then have "distinct (map (\<lambda>i. of_nat (Suc i) :: u64) [0..<p_attached p])" by (simp add: distinct_map del: of_nat_Suc)
  then show "distinct (map ln_id (p_lanes p @ p_retired p))" using mset_eq_imp_distinct_iff [OF m] by blast
  have "0 \<notin> (\<lambda>i. of_nat (Suc i) :: u64) ` {0..<p_attached p}"
    by (auto simp del: of_nat_Suc dest!: arg_cong [where f = unat] simp: u)
  then show "0 \<notin> set (map ln_id (p_lanes p @ p_retired p))" using mset_eq_setD [OF m] by simp
qed

text \<open>
  C5: bounds of the pool. However many turns the loop ran and however it ended, there is at most one lane more than
  configured, and at most the configured number while a dial or a replacement is under way; what waits in all lanes together stays
  within the queue limits, and each lane's session within its own; the affinity table has at most 4096 flows, one
  entry each; every lane ever attached is in the pool or was removed, and as long as the 64-bit number has not
  wrapped they all have numbers of their own, none of them 0.
\<close>

theorem pool_bounds:
  assumes "pool_link_ok L" "pool_loop_n L n (start_pool L t st) = (p, r)"
  shows "length (p_lanes p) \<le> Suc (max_lanes L) \<and> (p_dial p \<or> p_replacing p \<noteq> 0 \<longrightarrow> length (p_lanes p) \<le> max_lanes L) \<and>
    outstanding_packets (p_lanes p) \<le> queue_packets (pl_cfg L) \<and> outstanding_bytes (p_lanes p) \<le> queue_bytes (pl_cfg L) \<and>
    (\<forall>l \<in> set (p_lanes p). fq_inv (ln_waiting l) \<and> tx_queued_bytes (ln_ws l) \<le> kMaxWsTxBytes) \<and>
    length (p_affinity p) \<le> 4096 \<and> distinct (map fst (p_affinity p)) \<and>
    p_attached p = length (p_lanes p) + length (p_retired p) \<and>
    (p_attached p < 2 ^ 64 \<longrightarrow> distinct (map ln_id (p_lanes p @ p_retired p)) \<and> 0 \<notin> set (map ln_id (p_lanes p @ p_retired p)))"
proof -
  have ok: "pool_ok L p" by (rule pool_result [OF assms])
  then have b: "pool_base L p" "pool_supply L p" by (simp_all add: pool_ok_def)
  have "mset (map ln_id (p_lanes p @ p_retired p)) = mset (map (\<lambda>i. of_nat (Suc i) :: u64) [0..<p_attached p])"
    using b by (simp add: pool_base_def)
  then have n: "length (p_lanes p) + length (p_retired p) = p_attached p" using mset_eq_length by fastforce
  have l: "fq_inv (ln_waiting l) \<and> tx_queued_bytes (ln_ws l) \<le> kMaxWsTxBytes" if "l \<in> set (p_lanes p)" for l
    using pool_lanes_done [OF ok, of l] that by (auto simp: lane_done_def lane_wired_def framed_def ws_invar_def tx_ok_def)
  show ?thesis using b n l pool_ids [OF ok] by (simp add: pool_base_def pool_supply_def lanes_fit_def pool_inv_def pool_cap_def)
qed

theorem pool_bounds_witness:
  "\<exists>p. pool_loop_n demo_pool 1 (start_pool demo_pool 100000000 new_stats) = (p, Inr ()) \<and> p_lanes p = [demo_written] \<and>
     p_attached p = 1 \<and> distinct (map ln_id (p_lanes p)) \<and> outstanding_packets (p_lanes p) \<le> 4096"
proof -
  obtain p where p: "pool_loop_n demo_pool 1 (start_pool demo_pool 100000000 new_stats) = (p, Inr ())" "p_lanes p = [demo_written]" "p_retired p = []"
    using demo_pool_run .
  have "p_attached p = 1" "outstanding_packets (p_lanes p) \<le> 4096" "p_attached p < 2 ^ 64 \<longrightarrow> distinct (map ln_id (p_lanes p))"
    using pool_bounds [OF demo_pool_ok p(1)] p(2,3) by simp_all
  with p show ?thesis by simp
qed

text \<open>
  C6: no lane uses a nonce twice. In every lane, in the pool or removed, the sequence numbers of the records strictly
  increase, even past the point where the 64-bit counter would wrap and also when an encoder fails after
  the number was taken, and every record is what one of the PTT5 encoders makes of its payload under the transmit key
  of that lane's own handshake.
\<close>

theorem pool_sequences:
  assumes "pool_link_ok L" "pool_loop_n L n (start_pool L t st) = (p, r)" "l \<in> set (p_lanes p) \<union> set (p_retired p)"
  shows "sorted_wrt (<) (map fst (ln_log l)) \<and>
    (\<forall>(q, f, m, rec) \<in> set (ln_log l). sent_v5 (pl_crypto L) (lane_tx_key L l) rec (f, q, m))"
  using pool_lanes_done [OF pool_result [OF assms(1,2)] assms(3)] by (auto simp: lane_done_def lane_records_def)

theorem pool_sequences_witness:
  "\<exists>p. pool_loop_n demo_pool 1 (start_pool demo_pool 100000000 new_stats) = (p, Inr ()) \<and> p_lanes p = [demo_written] \<and>
     ln_log demo_written = [(1, 0, demo_packet, demo_rec)] \<and> sent_v5 demo_crypto (lane_tx_key demo_pool demo_written) demo_rec (0, 1, demo_packet)"
proof -
  obtain p where p: "pool_loop_n demo_pool 1 (start_pool demo_pool 100000000 new_stats) = (p, Inr ())" "p_lanes p = [demo_written]"
    using demo_pool_run .
  with pool_sequences [OF demo_pool_ok p(1), of demo_written] show ?thesis by auto
qed

text \<open>
  C7: what a lane puts on its connection. Its bytes, followed by those its session still holds, are whole WebSocket
  frames; the binary messages are runs of whole records of that lane, in the order in which they were made; a close
  frame occurs only after the peer's, a ping only if pings are configured.
\<close>

theorem pool_lane_wire:
  assumes "pool_link_ok L" "pool_loop_n L n (start_pool L t st) = (p, r)" "l \<in> set (p_lanes p) \<union> set (p_retired p)"
  shows "\<exists>ds fs xss. list_all2 (wire_frame (\<not> pl_server L)) ds fs \<and> ln_wire l @ pending (ln_ws l) = concat ds \<and>
    binaries fs = map (\<lambda>xs. concat (map rec_of xs)) xss \<and> subseq (concat xss) (ln_log l) \<and>
    (9 \<in> fst ` set fs \<longrightarrow> websocket_ping_sec (pl_cfg L) > 0) \<and> (8 \<in> fst ` set fs \<longrightarrow> close_received (ln_ws l))"
proof -
  have d: "lane_done L l" by (rule pool_lanes_done [OF pool_result [OF assms(1,2)] assms(3)])
  then obtain xss xs where x: "subseq (concat xss @ xs) (ln_log l)" "ln_sent l = map (\<lambda>xs. concat (map rec_of xs)) xss"
    by (auto simp: lane_done_def lane_stream_def)
  then have s: "subseq (concat xss) (ln_log l)" using subseq_order.trans [OF _ x(1)] by (simp add: list_emb_prefix)
  obtain ds fs where f: "list_all2 (wire_frame (\<not> pl_server L)) ds fs" "ln_wire l @ pending (ln_ws l) = concat ds" "binaries fs = ln_sent l"
    "8 \<in> fst ` set fs \<longrightarrow> close_received (ln_ws l)" "9 \<in> fst ` set fs \<longrightarrow> websocket_ping_sec (pl_cfg L) > 0"
    using d by (auto simp: lane_done_def lane_wired_def framed_def)
  show ?thesis using x(2) s f by (intro exI [of _ ds] exI [of _ fs] exI [of _ xss]) simp
qed

theorem pool_lane_wire_witness:
  "\<exists>p ds fs. pool_loop_n demo_pool 1 (start_pool demo_pool 100000000 new_stats) = (p, Inr ()) \<and> p_lanes p = [demo_written] \<and>
     ln_wire demo_written = 0x82 # 52 # demo_rec \<and> list_all2 (wire_frame False) ds fs \<and> ln_wire demo_written = concat ds \<and> 9 \<notin> fst ` set fs"
proof -
  obtain p where p: "pool_loop_n demo_pool 1 (start_pool demo_pool 100000000 new_stats) = (p, Inr ())" "p_lanes p = [demo_written]"
    using demo_pool_run .
  have "pending (ln_ws demo_written) = []" by (simp add: pending_def new_session_def)
  with p pool_lane_wire [OF demo_pool_ok p(1), of demo_written] show ?thesis by auto
qed

text \<open>
  C8: an error of a lane stays with that lane. From any state the loop reaches, serving the lanes never throws: either
  every lane was served and stays, or one lane is removed, the lanes before it were served and
  those after it are exactly as they were. A turn throws only when poll or the TUN device failed.
\<close>

theorem pool_errors_contained:
  assumes "pool_link_ok L" "pool_loop_n L n (start_pool L t st) = (p, r)" "serve_all L gone p = (q, x)"
  shows "x = Inr () \<and>
    (map ln_id (p_lanes q) = map ln_id (p_lanes p) \<and> p_retired q = p_retired p \<or>
     (\<exists>before l rest after l'. p_lanes p = before @ l # rest \<and> p_lanes q = after @ rest \<and> map ln_id after = map ln_id before \<and>
        p_retired q = p_retired p @ [l'] \<and> ln_id l' = ln_id l)) \<and>
    (\<forall>e. r = Inl e \<longrightarrow> e \<in> {PoolFail ''PTT8 poll failed'', PoolFail ''PTT8 TUN read failed''})"
proof -
  have ok: "pool_ok L p" by (rule pool_result [OF assms(1,2)])
  have ids: "map ln_id ls' = map ln_id ls" if "list_all2 (shrunk L) ls ls'" for ls ls'
    using that by (induction rule: list_all2_induct) (auto simp: shrunk_def slimmer_def)
  have "throws_only {PoolFail ''PTT8 poll failed'', PoolFail ''PTT8 TUN read failed''} (pool_loop_n L n)"
    by (induction n) (auto intro!: throws_basic throws_turn)
  then have t: "r = Inl e \<longrightarrow> e \<in> {PoolFail ''PTT8 poll failed'', PoolFail ''PTT8 TUN read failed''}" for e
    using assms(2) by (auto simp: throws_only_def)
  show ?thesis
  proof (cases rule: serve_all_cases [OF assms(1) ok assms(3)])
    case 1
    then show ?thesis using ids t by simp
  next
    case (2 before after l l' rest)
    then have "ln_id l' = ln_id l" "map ln_id after = map ln_id before" using ids by (auto simp: shrunk_def slimmer_def)
    with 2 t show ?thesis by blast
  qed
qed

theorem pool_errors_contained_witness:
  "\<exists>p q. pool_loop_n demo_pool 1 (start_pool demo_pool 100000000 new_stats) = (p, Inr ()) \<and> serve_all demo_pool [True] p = (q, Inr ()) \<and>
     p_lanes p = [demo_written] \<and> p_lanes q = [] \<and> length (p_retired q) = Suc (length (p_retired p))"
proof -
  obtain p where p: "pool_loop_n demo_pool 1 (start_pool demo_pool 100000000 new_stats) = (p, Inr ())" "p_lanes p = [demo_written]" "p_retired p = []"
    using demo_pool_run .
  obtain q where q: "serve_all demo_pool [True] p = (q, Inr ())" "p_lanes q = []" using demo_gone [OF p(2,3)] by blast
  have "length (p_retired q) = Suc (length (p_retired p))" using pool_errors_contained [OF demo_pool_ok p(1) q(1)] p(2) q(2) by auto
  with p q show ?thesis by blast
qed

end
