(* ===== verification/WsFlush.thy ===== *)
theory WsFlush
  imports Carrier
begin

text \<open>
  Progress of \<open>websocket_flush\<close>: on a transport that takes something whenever it is asked, a flush writes as much as its budget
  allows, so the queue is empty after a number of flushes that its length bounds.
\<close>

definition eager :: "(nat \<Rightarrow> bytes \<Rightarrow> wr \<times> u64) \<Rightarrow> bool" where
  "eager io \<longleftrightarrow> io_ok io \<and> (\<forall>k c. c \<noteq> [] \<longrightarrow> (\<exists>n now. io k c = (Wrote n, now) \<and> 0 < n))"

lemma flush_loop_eager:
  assumes "eager io"
  shows "flush_loop io k budget written w = (w', r, sent) \<Longrightarrow> (\<exists>n. r = Inr n) \<and> (ws_tx w' = [] \<or> budget \<le> written + length sent)"
proof (induction "frame_work w" arbitrary: w k written w' r sent rule: less_induct)
  case less
  show ?case
  proof (cases "ws_tx w = [] \<or> \<not> written < budget")
    case True
    with less.prems show ?thesis by (auto simp: flush_loop.simps [of io k budget written w])
  next
    case go: False
    then obtain f fs where tx: "ws_tx w = f # fs" by (cases "ws_tx w") auto
    define chunk where "chunk = take (min (length (fr_data f) - fr_offset f) (budget - written)) (drop (fr_offset f) (fr_data f))"
    note unf = flush_loop.simps [of io k budget written w] tx Let_def chunk_def [symmetric]
    show ?thesis
    proof (cases "fr_offset f \<ge> length (fr_data f)")
      case True
      let ?w = "(account_completed_frame f w)\<lparr>ws_tx := fs\<rparr>"
      have "flush_loop io k budget written ?w = (w', r, sent)" using less.prems go True by (simp add: unf)
      moreover have "frame_work ?w < frame_work w" using tx by (simp add: frame_work_def)
      ultimately show ?thesis using less.hyps by blast
    next
      case off: False
      then have "chunk \<noteq> []" using go by (auto simp: chunk_def)
      then obtain n now where io: "io k chunk = (Wrote n, now)" "0 < n" using assms unfolding eager_def by metis
      have nc: "n \<le> length chunk" using assms io(1) by (auto simp: eager_def io_ok_def)
      let ?f = "f\<lparr>fr_offset := fr_offset f + n\<rparr>"
      let ?w1 = "w\<lparr>tx_queued_bytes := tx_queued_bytes w - n, tx_last_progress_ms := now, tx_wait := 0\<rparr>"
      define w2 where "w2 = (if fr_offset ?f = length (fr_data ?f)
         then (account_completed_frame ?f ?w1)\<lparr>ws_tx := tl (ws_tx w), tx_last_progress_ms := (if tl (ws_tx w) = [] then 0 else now)\<rparr>
         else ?w1\<lparr>ws_tx := ?f # tl (ws_tx w)\<rparr>)"
      obtain rest where rec: "flush_loop io (k + 1) budget (written + n) w2 = (w', r, rest)" and sent: "sent = take n chunk @ rest"
        using less.prems go off io by (auto simp: unf w2_def not_le split: prod.splits)
      have "n \<le> length (fr_data f) - fr_offset f" using nc by (simp add: chunk_def)
      then have "frame_work w2 < frame_work w" using tx io(2) off by (auto simp: frame_work_def w2_def)
      from less.hyps [OF this rec] show ?thesis using sent nc by auto
    qed
  qed
qed

lemma flush_eager:
  assumes "eager io" "tx_ok w" "websocket_flush io budget w = (w', r, sent)"
  shows "r = Inr (length sent) \<and> sent = take budget (pending w) \<and> pending w' = drop budget (pending w) \<and> tx_ok w'"
proof -
  have io: "io_ok io" using assms(1) by (simp add: eager_def)
  note ok = websocket_flush_ok [OF io assms(2,3)]
  have f: "(\<exists>n. r = Inr n) \<and> (ws_tx w' = [] \<or> budget \<le> length sent)"
    using assms(3) flush_loop_eager [OF assms(1), of 0 budget 0 w w' r sent] by (cases "budget = 0") (auto simp: websocket_flush_def)
  then have "pending w' = [] \<or> length sent = budget" using ok(5) by (auto simp: pending_def)
  then have "sent = take budget (pending w) \<and> pending w' = drop budget (pending w)"
  proof
    assume "pending w' = []"
    then show ?thesis using ok(2,5) by simp
  next
    assume "length sent = budget"
    then show ?thesis using ok(2) by (metis append_eq_conv_conj)
  qed
  with f ok(1,4) show ?thesis by auto
qed

text \<open>Flushes one after the other, each with its own answers of the transport; the bytes that went out.\<close>

fun flushes :: "nat \<Rightarrow> (nat \<Rightarrow> bytes \<Rightarrow> wr \<times> u64) list \<Rightarrow> ws_session \<Rightarrow> ws_session \<times> bytes" where
  "flushes budget [] w = (w, [])"
| "flushes budget (io # ios) w =
     (case websocket_flush io budget w of (w1, _, sent) \<Rightarrow> case flushes budget ios w1 of (w2, later) \<Rightarrow> (w2, sent @ later))"

lemma flushes_eager:
  "(\<And>io. io \<in> set ios \<Longrightarrow> eager io) \<Longrightarrow> tx_ok w \<Longrightarrow> flushes budget ios w = (w', out) \<Longrightarrow>
   tx_ok w' \<and> out = take (budget * length ios) (pending w) \<and> pending w' = drop (budget * length ios) (pending w)"
proof (induction ios arbitrary: w out)
  case Nil
  then show ?case by simp
next
  case (Cons io ios)
  obtain w1 r sent where f: "websocket_flush io budget w = (w1, r, sent)" by (metis surj_pair)
  obtain later where m: "flushes budget ios w1 = (w', later)" "out = sent @ later" using Cons.prems(3) f by (auto split: prod.splits)
  have e: "eager io" using Cons.prems(1) by simp
  note s = flush_eager [OF e Cons.prems(2) f]
  have "tx_ok w' \<and> later = take (budget * length ios) (pending w1) \<and> pending w' = drop (budget * length ios) (pending w1)"
    using Cons.IH [OF _ _ m(1)] Cons.prems(1) s by simp
  moreover have "take (budget * length (io # ios)) (pending w) = take budget (pending w) @ take (budget * length ios) (drop budget (pending w))"
    "drop (budget * length (io # ios)) (pending w) = drop (budget * length ios) (drop budget (pending w))"
    by (simp_all add: take_add add.commute)
  ultimately show ?case using s m(2) by simp
qed

lemma pending_empty: "tx_ok w \<Longrightarrow> pending w = [] \<longleftrightarrow> ws_tx w = []"
  by (cases "ws_tx w") (auto simp: tx_ok_def pending_def frame_rest_def)

text \<open>
  C20: flushing ends. On a transport that takes at least a byte whenever it is offered one, each call of \<open>websocket_flush\<close> returns without an error
  and writes exactly its budget or the rest of the queue. So after as many flushes as the queued bytes fill budgets, nothing is pending,
  the byte count is back at zero, and what went out is the whole queue in order; neither partial writes nor their sizes matter.
\<close>

theorem flush_drains:
  assumes "\<And>io. io \<in> set ios \<Longrightarrow> eager io" "ws_invar client w" "websocket_tx_queued_bytes w \<le> budget * length ios" "flushes budget ios w = (w', out)"
  shows "\<not> websocket_tx_pending w' \<and> websocket_tx_queued_bytes w' = 0 \<and> out = pending w"
proof -
  have w: "tx_ok w" using assms(2) by (simp add: ws_invar_def)
  note f = flushes_eager [OF assms(1) w assms(4)]
  have "length (pending w) \<le> budget * length ios" using assms(3) w by (simp add: websocket_tx_queued_bytes_def tx_ok_def)
  then have "pending w' = []" "out = pending w" using f by simp_all
  with f pending_empty [of w'] show ?thesis by (simp add: websocket_tx_pending_def websocket_tx_queued_bytes_def tx_ok_def)
qed

text \<open>A client with a message of three bytes, so a frame of nine, in two flushes of five bytes, one byte per write.\<close>

definition byte_at_a_time :: "nat \<Rightarrow> bytes \<Rightarrow> wr \<times> u64" where
  "byte_at_a_time k c = (Wrote (min 1 (length c)), 7)"

lemma byte_at_a_time: "eager byte_at_a_time"
  by (auto simp: eager_def io_ok_def byte_at_a_time_def min_def)

theorem flush_drains_witness:
  "case websocket_send_binary [7, 8, 9] (Some [1, 2, 3, 4]) 5 (new_session True) of
     Inr w \<Rightarrow> websocket_tx_queued_bytes w = 9 \<and>
       (case flushes 5 [byte_at_a_time, byte_at_a_time] w of (w', out) \<Rightarrow> \<not> websocket_tx_pending w' \<and> out = pending w)
   | Inl _ \<Rightarrow> False"
proof -
  obtain w where w: "websocket_send_binary [7, 8, 9] (Some [1, 2, 3, 4]) 5 (new_session True) = Inr w" "tx_queued_bytes w = 9"
    by (simp add: websocket_send_binary_def queue_frame_def make_frame_def length_bytes_def is_control_def kMaxWsTxBytes_def kMaxWsMessageBytes_def new_session_def)
  have "tx_ok w" using queue_frame_ok [OF tx_ok_new w(1) [unfolded websocket_send_binary_def]] by blast
  then have "ws_invar (ws_client w) w" by (simp add: ws_invar_def)
  with flush_drains [of "[byte_at_a_time, byte_at_a_time]" "ws_client w" w 5] w byte_at_a_time show ?thesis
    by (auto simp: websocket_tx_queued_bytes_def split: prod.splits)
qed

end
