(* ===== verification/Supervisor.thy ===== *)
theory Supervisor
  imports PoolLoop
begin

text \<open>
  The part of \<open>run\<close> (\<open>src/cdn/src/runtime.cpp\<close>) that keeps one WebSocket connection in use (\<open>max_connections = 1\<close>): the client,
  which dials, retries with growing delays and replaces a slow connection by a candidate that was dialled and tried in the
  background, and the server, which serves one admitted connection after the other. The sessions themselves
  are the loop of \<open>Tunnel\<close>. The background thread, clock, stop flag and random numbers are the answers of a world.
\<close>

section \<open>A session with a callback\<close>

text \<open>What ends a session early; \<open>CutOff\<close> marks the end of the turns that are looked at.\<close>

datatype sup_error = WarmSwitch | SupFail string | CutOff

text \<open>
  \<open>tick\<close> runs inside a turn of the loop, right after the age of the probe was stored. It touches only the variables of
  its own function and the counters, so it is run before the turn, on the counters with that age.
\<close>

definition pending_age :: "link \<Rightarrow> tunnel \<Rightarrow> stats" where
  "pending_age K T =
     (let age = wd_age_us (w_clock (lk_world K) (t_ev T)) (t_watchdog T) div 1000 in
      (t_stats T)\<lparr>st_probe_pending_age_ms := age, st_degraded := age \<ge> of_int (reply_degraded_sec (lk_cfg K)) * 1000\<rparr>)"

definition session_tick :: "(stats \<Rightarrow> 's \<Rightarrow> ('s \<times> stats) \<times> (sup_error, unit) result) \<Rightarrow> link \<Rightarrow> ('s \<times> tunnel, sup_error, unit) se" where
  "session_tick tick K s = (case tick (pending_age K (snd s)) (fst s) of ((s', st), r) \<Rightarrow> ((s', (snd s)\<lparr>t_stats := st\<rparr>), r))"

definition tun_what :: "(tun_error \<Rightarrow> string) \<Rightarrow> tun_error \<Rightarrow> string" where
  "tun_what text e = (case e of TunFail m \<Rightarrow> m | _ \<Rightarrow> text e)"

definition session_turn :: "(tun_error \<Rightarrow> string) \<Rightarrow> link \<Rightarrow> ('s \<times> tunnel, sup_error, unit) se" where
  "session_turn text K s =
     (case tunnel_turn K (snd s) of (T, r) \<Rightarrow> ((fst s, T), case r of Inl e \<Rightarrow> Inl (SupFail (tun_what text e)) | Inr _ \<Rightarrow> Inr ()))"

definition session_stop :: "('s \<Rightarrow> 's \<times> bool) \<Rightarrow> ('s \<times> tunnel, sup_error, bool) se" where
  "session_stop stop s = (case stop (fst s) of (s', b) \<Rightarrow> ((s', snd s), Inr b))"

fun session_loop :: "('s \<Rightarrow> 's \<times> bool) \<Rightarrow> (stats \<Rightarrow> 's \<Rightarrow> ('s \<times> stats) \<times> (sup_error, unit) result) \<Rightarrow> (tun_error \<Rightarrow> string) \<Rightarrow> link \<Rightarrow> nat \<Rightarrow>
    ('s \<times> tunnel, sup_error, unit) se" where
  "session_loop stop tick text K 0 = throwS CutOff"
| "session_loop stop tick text K (Suc n) =
     bindS (session_stop stop) (\<lambda>b. if b then skipS
       else thenS (session_tick tick K) (thenS (session_turn text K) (session_loop stop tick text K n)))"

section \<open>Dialling\<close>

text \<open>The checks of \<open>dial_websocket\<close> on the result of the handshake.\<close>

definition dial_checks :: "config \<Rightarrow> bool \<Rightarrow> ws_handshake_result \<Rightarrow> string option" where
  "dial_checks cfg background hs =
     (if websocket_control_padding_bytes cfg \<noteq> 0 \<and> \<not> peer_envelope hs then Some ''peer lacks envelope-v2; upgrade both peers or disable control padding''
      else if websocket_padding_max_bytes cfg \<noteq> 0 \<and> \<not> peer_padding hs then Some ''peer lacks padding-v1''
      else if background \<and> \<not> hs_confirmed hs then Some ''replacement peer lacks key confirmation; upgrade foreign peer first''
      else None)"

section \<open>The client\<close>

text \<open>
  \<open>cw_dial\<close>: the phase reached and the error, or the connection after the handshake. \<open>cw_warm\<close>: the state of the
  background thread; \<open>cw_warm_get\<close>: its result, which is waited for.
\<close>

record client_world =
  cw_clock :: "nat \<Rightarrow> u64"
  cw_stop :: "nat \<Rightarrow> bool"
  cw_dial :: "nat \<Rightarrow> (int \<times> string, connection) result"
  cw_warm :: "nat \<Rightarrow> dial_outcome"
  cw_warm_get :: "nat \<Rightarrow> (string, connection) result"
  cw_jitter :: "nat \<Rightarrow> int \<Rightarrow> int"
  cw_session :: "nat \<Rightarrow> world"
  cw_draws :: "nat \<Rightarrow> (int \<Rightarrow> int) \<times> (int \<Rightarrow> int)"

record client_link =
  ck_cfg :: config
  ck_crypto :: crypto
  ck_round :: "rat \<Rightarrow> rat"
  ck_text :: "tun_error \<Rightarrow> string"
  ck_world :: client_world

text \<open>
  The variables of \<open>run\<close> on a client; then what happened: the delays waited for, the times at which a candidate was started, the
  connections obtained, and the sessions run (connection, world, and the state at the end).
\<close>

record client =
  cl_ev :: nat
  cl_stop :: bool
  cl_connection :: "connection option"
  cl_warm :: bool
  cl_limit :: int
  cl_policy :: renewal
  cl_recovery :: backoff
  cl_payload_seen :: u64
  cl_last_active :: u64
  cl_delay :: int
  cl_started :: u64
  cl_state :: int
  cl_phase :: int
  cl_stats :: stats
  cl_events :: "string list"
  cl_waits :: "int list"
  cl_attempts :: "u64 list"
  cl_obtained :: "connection list"
  cl_sessions :: "(connection \<times> world \<times> tunnel) list"

type_synonym 'a supervising = "(client, sup_error, 'a) se"

definition askK :: "(nat \<Rightarrow> 'a) \<Rightarrow> 'a supervising" where
  "askK f s = (s\<lparr>cl_ev := Suc (cl_ev s)\<rparr>, Inr (f (cl_ev s)))"

definition nowK :: "client_link \<Rightarrow> u64 supervising" where
  "nowK L = askK (cw_clock (ck_world L))"

definition statK :: "(stats \<Rightarrow> stats) \<Rightarrow> unit supervising" where
  "statK f = modS (\<lambda>s. s\<lparr>cl_stats := f (cl_stats s)\<rparr>)"

definition eventK :: "string \<Rightarrow> unit supervising" where
  "eventK line = modS (\<lambda>s. s\<lparr>cl_events := event line (cl_events s)\<rparr>)"

text \<open>The stop flag is never taken back.\<close>

definition client_stop :: "client_link \<Rightarrow> client \<Rightarrow> client \<times> bool" where
  "client_stop L s = (let b = (cl_stop s \<or> cw_stop (ck_world L) (cl_ev s)) in (s\<lparr>cl_ev := Suc (cl_ev s), cl_stop := b\<rparr>, b))"

definition stopK :: "client_link \<Rightarrow> bool supervising" where
  "stopK L s = (case client_stop L s of (s', b) \<Rightarrow> (s', Inr b))"

definition phaseK :: "int \<Rightarrow> int \<Rightarrow> unit supervising" where
  "phaseK state phase = modS (\<lambda>s. s\<lparr>cl_state := state, cl_phase := phase\<rparr>)"

definition obtained :: "connection \<Rightarrow> unit supervising" where
  "obtained c = modS (\<lambda>s. s\<lparr>cl_connection := Some c, cl_obtained := cl_obtained s @ [c]\<rparr>)"

section \<open>The callback of the client\<close>

text \<open>A candidate that is ready takes over, unless it failed. The result is whether the callback returned early.\<close>

definition candidate_ready :: "client_link \<Rightarrow> connection \<Rightarrow> unit supervising" where
  "candidate_ready L c =
     seqS
      [obtained c,
       bindS (nowK L) (\<lambda>t. modS (\<lambda>s. s\<lparr>cl_recovery := bo_succeeded t (cl_recovery s)\<rparr>)),
       statK (\<lambda>st. st\<lparr>st_candidate_successes := st_candidate_successes st + 1, st_reconnects := st_reconnects st + 1\<rparr>),
       eventK ''recovery code=HANDOVER_COMMITTED'']"

definition candidate_failed :: "client_link \<Rightarrow> unit supervising" where
  "candidate_failed L =
     thenS (bindS (nowK L) (\<lambda>t. modS (\<lambda>s. s\<lparr>cl_recovery := bo_failed t (cl_recovery s)\<rparr>)))
       (statK (\<lambda>st. st\<lparr>st_candidate_failures := st_candidate_failures st + 1\<rparr>))"

definition warm_outcome :: "config \<Rightarrow> dial_outcome \<Rightarrow> dial_outcome" where
  "warm_outcome cfg d =
     (case d of DialDone c \<Rightarrow> (case dial_checks cfg True (cn_handshake c) of None \<Rightarrow> d | Some m \<Rightarrow> DialFailed m) | _ \<Rightarrow> d)"

definition poll_warm :: "client_link \<Rightarrow> bool supervising" where
  "poll_warm L = withS (\<lambda>s.
     if \<not> cl_warm s then retS (Inr False)
     else bindS (askK (cw_warm (ck_world L))) (\<lambda>d.
       case warm_outcome (ck_cfg L) d of
         DialPending \<Rightarrow> retS (Inr False)
       | DialDone c \<Rightarrow> thenS (seqS [modS (\<lambda>s. s\<lparr>cl_warm := False\<rparr>), candidate_ready L c]) (throwS WarmSwitch)
       | DialFailed m \<Rightarrow>
           thenS (seqS [modS (\<lambda>s. s\<lparr>cl_warm := False\<rparr>), candidate_failed L, eventK ''recovery code=CANDIDATE_REJECTED'']) (retS (Inr True))))"

text \<open>
  Whether a new candidate is dialled: none is under way, the peer knows trials, the last one is long enough ago, and replies are missing or
  the round trip stays above the threshold.
\<close>

definition renew_threshold :: "client_link \<Rightarrow> stats \<Rightarrow> int" where
  "renew_threshold L st =
     (let cfg = ck_cfg L; baseline = rh_snapshot (ck_round L) 1 (st_rtt_history st) in
      if rp_count baseline \<ge> 8 then max (latency_renew_ms cfg) \<lfloor>ck_round L (rp_p50_ms baseline * 3)\<rfloor> else latency_renew_ms cfg)"

definition wants_candidate :: "client_link \<Rightarrow> bool \<Rightarrow> bool \<Rightarrow> u64 \<Rightarrow> bool supervising" where
  "wants_candidate L trial missing t s =
     (let cfg = ck_cfg L; st = cl_stats s in
      if cl_warm s \<or> \<not> trial \<or> \<not> bo_ready t (cl_recovery s) then (s, Inr False)
      else if missing then (s, Inr True)
      else case lr_observe (renew_threshold L st) (nat (latency_renew_samples cfg)) (nat (latency_renew_cooldown_sec cfg))
             \<lparr>ob_sample = st_rtt_sample_us st, ob_rtt_us = st_rtt_us st, ob_now = t,
              ob_active = (cl_last_active s \<noteq> 0 \<and> t - cl_last_active s \<le> 60000000)\<rparr> (cl_policy s) of
           (b, r) \<Rightarrow> (s\<lparr>cl_policy := r\<rparr>, Inr b))"

definition start_candidate :: "client_link \<Rightarrow> bool \<Rightarrow> u64 \<Rightarrow> unit supervising" where
  "start_candidate L missing t = withS (\<lambda>s.
     let cfg = ck_cfg L; st = cl_stats s;
         limit = (if \<not> missing \<and> st_rtt_us st > 0
                  then min (candidate_max_rtt_ms cfg) (max 100 (st_rtt_us st sdiv 1000 * 8 sdiv 10)) else candidate_max_rtt_ms cfg) in
     seqS
      [modS (\<lambda>s. s\<lparr>cl_recovery := bo_started t (cl_recovery s), cl_attempts := cl_attempts s @ [t]\<rparr>),
       statK (\<lambda>st. let st = st\<lparr>st_candidate_attempts := st_candidate_attempts st + 1\<rparr> in
         if missing then st\<lparr>st_reply_renewals := st_reply_renewals st + 1\<rparr> else st\<lparr>st_latency_renewals := st_latency_renewals st + 1\<rparr>),
       eventK (if missing then ''recovery reason=missing_authenticated_reply'' else ''recovery reason=sustained_latency''),
       modS (\<lambda>s. s\<lparr>cl_warm := True, cl_limit := limit\<rparr>)])"

definition consider_candidate :: "client_link \<Rightarrow> bool \<Rightarrow> unit supervising" where
  "consider_candidate L trial =
     bindS (nowK L) (\<lambda>t.
     thenS (modS (\<lambda>s.
       let payload = st_payload_tx (cl_stats s) + st_payload_rx (cl_stats s) in
       if payload \<noteq> cl_payload_seen s then s\<lparr>cl_payload_seen := payload, cl_last_active := t\<rparr> else s))
     (bindS (nowK L) (\<lambda>u.
     thenS (modS (\<lambda>s. if elapsed u (cl_started s) > 120000000 then s\<lparr>cl_delay := reconnect_initial_ms (ck_cfg L)\<rparr> else s))
     (withS (\<lambda>s.
       let missing = st_probe_pending_age_ms (cl_stats s) \<ge> of_int (reply_renew_sec (ck_cfg L)) * 1000 in
       bindS (wants_candidate L trial missing t) (\<lambda>b. whenS b (start_candidate L missing t)))))))"

definition client_tick :: "client_link \<Rightarrow> bool \<Rightarrow> unit supervising" where
  "client_tick L trial = bindS (poll_warm L) (\<lambda>early. whenS (\<not> early) (consider_candidate L trial))"

section \<open>The loop of the client\<close>

definition session_link :: "client_link \<Rightarrow> connection \<Rightarrow> world \<Rightarrow> link" where
  "session_link L c w =
     \<lparr>lk_cfg = ck_cfg L, lk_crypto = ck_crypto L, lk_round = ck_round L, lk_tx_key = client_tx (hs_keys (cn_handshake c)),
      lk_world = w\<lparr>w_tick := (\<lambda>_. None)\<rparr>\<rparr>"

definition tick_on :: "client_link \<Rightarrow> bool \<Rightarrow> stats \<Rightarrow> client \<Rightarrow> (client \<times> stats) \<times> (sup_error, unit) result" where
  "tick_on L trial st s = (case client_tick L trial (s\<lparr>cl_stats := st\<rparr>) of (s', r) \<Rightarrow> ((s', cl_stats s'), r))"

definition client_session :: "client_link \<Rightarrow> nat \<Rightarrow> connection \<Rightarrow> unit supervising" where
  "client_session L n c =
     bindS (nowK L) (\<lambda>t. bindS (askK (cw_session (ck_world L))) (\<lambda>w. bindS (askK (cw_draws (ck_world L))) (\<lambda>draws s.
       let K = session_link L c w;
           T0 = start_tunnel K t (fst draws) (snd draws) (server_tx (hs_keys (cn_handshake c))) (cn_ws c) (cl_stats s) in
       case session_loop (client_stop L) (tick_on L (peer_trial (cn_handshake c))) (ck_text L) K n (s, T0) of
         ((s', T), r) \<Rightarrow> (s'\<lparr>cl_stats := t_stats T, cl_sessions := cl_sessions s' @ [(c, w, T)]\<rparr>, r))))"

definition client_dial :: "client_link \<Rightarrow> unit supervising" where
  "client_dial L =
     thenS (modS (\<lambda>s. s\<lparr>cl_state := 2\<rparr>))
     (bindS (askK (cw_dial (ck_world L))) (\<lambda>r.
       case r of
         Inl (phase, m) \<Rightarrow> thenS (modS (\<lambda>s. s\<lparr>cl_phase := phase\<rparr>)) (throwS (SupFail m))
       | Inr c \<Rightarrow>
           thenS (modS (\<lambda>s. s\<lparr>cl_phase := 5\<rparr>))
             (case dial_checks (ck_cfg L) False (cn_handshake c) of Some m \<Rightarrow> throwS (SupFail m) | None \<Rightarrow> obtained c)))"

definition client_online :: "client_link \<Rightarrow> nat \<Rightarrow> unit supervising" where
  "client_online L n =
     seqS
      [withS (\<lambda>s. whenS (cl_connection s = None) (client_dial L)),
       bindS (nowK L) (\<lambda>t. modS (\<lambda>s. s\<lparr>cl_started := t\<rparr>)),
       withS (\<lambda>s. case cl_connection s of
           None \<Rightarrow> skipS
         | Some c \<Rightarrow>
             seqS
              [statK (\<lambda>st. st\<lparr>st_ptt5_sessions := st_ptt5_sessions st + 1\<rparr>), phaseK 3 7,
               modS (\<lambda>s. s\<lparr>cl_policy := lr_reset_samples (cl_policy s)\<rparr>), client_session L n c])]"

text \<open>After a failure: a candidate under way is waited for and takes over if it can. The result is whether it did.\<close>

definition await_candidate :: "client_link \<Rightarrow> bool supervising" where
  "await_candidate L = withS (\<lambda>s.
     if \<not> cl_warm s then retS (Inr False)
     else thenS (modS (\<lambda>s. s\<lparr>cl_warm := False\<rparr>)) (bindS (askK (cw_warm_get (ck_world L))) (\<lambda>r.
       let fail = thenS (candidate_failed L) (retS (Inr False)) in
       case r of
         Inl m \<Rightarrow> fail
       | Inr c \<Rightarrow>
           (case dial_checks (ck_cfg L) True (cn_handshake c) of
              Some m \<Rightarrow> fail
            | None \<Rightarrow>
                thenS (seqS
                  [obtained c, bindS (nowK L) (\<lambda>t. modS (\<lambda>s. s\<lparr>cl_recovery := bo_succeeded t (cl_recovery s)\<rparr>)),
                   statK (\<lambda>st. st\<lparr>st_candidate_successes := st_candidate_successes st + 1\<rparr>)])
                (bindS (stopK L) (\<lambda>b. if b then retS (Inr False)
                   else thenS (statK (\<lambda>st. st\<lparr>st_reconnects := st_reconnects st + 1\<rparr>)) (retS (Inr True))))))))"

definition client_retry :: "client_link \<Rightarrow> string \<Rightarrow> unit supervising" where
  "client_retry L m =
     seqS
      [eventK ''failure'', phaseK 4 8, statK (\<lambda>st. classify_reconnect m (st\<lparr>st_reconnects := st_reconnects st + 1\<rparr>)),
       bindS (askK (cw_jitter (ck_world L))) (\<lambda>draw. modS (\<lambda>s.
         s\<lparr>cl_waits := cl_waits s @ [jittered (cl_delay s) (reconnect_jitter_pct (ck_cfg L)) draw]\<rparr>)),
       modS (\<lambda>s. s\<lparr>cl_delay := min (cl_delay s * 2) (reconnect_max_ms (ck_cfg L))\<rparr>)]"

definition client_failed :: "client_link \<Rightarrow> string \<Rightarrow> unit supervising" where
  "client_failed L m =
     seqS
      [phaseK 4 8, statK (\<lambda>st. st\<lparr>st_rtt_us := - 1, st_rtt_sample_us := 0\<rparr>), modS (\<lambda>s. s\<lparr>cl_connection := None\<rparr>),
       bindS (await_candidate L) (\<lambda>kept. whenS (\<not> kept) (bindS (stopK L) (\<lambda>b. whenS (\<not> b) (client_retry L m))))]"

definition client_turn :: "client_link \<Rightarrow> nat \<Rightarrow> unit supervising" where
  "client_turn L n =
     thenS (bindS (nowK L) (\<lambda>t. modS (\<lambda>s. s\<lparr>cl_started := t\<rparr>)))
       (catchS (client_online L n) (\<lambda>e. case e of WarmSwitch \<Rightarrow> skipS | SupFail m \<Rightarrow> client_failed L m | CutOff \<Rightarrow> throwS CutOff))"

text \<open>\<open>k\<close> turns of the loop, with at most \<open>n\<close> turns of each session.\<close>

fun client_loop_n :: "client_link \<Rightarrow> nat \<Rightarrow> nat \<Rightarrow> unit supervising" where
  "client_loop_n L n 0 = skipS"
| "client_loop_n L n (Suc k) =
     (if max_connections (ck_cfg L) \<noteq> 1 then skipS
      else bindS (stopK L) (\<lambda>b. if b then skipS else thenS (client_turn L n) (client_loop_n L n k)))"

definition start_client :: "client_link \<Rightarrow> stats \<Rightarrow> client" where
  "start_client L st =
     \<lparr>cl_ev = 0, cl_stop = False, cl_connection = None, cl_warm = False, cl_limit = 0, cl_policy = new_renewal, cl_recovery = new_backoff,
      cl_payload_seen = st_payload_tx st + st_payload_rx st, cl_last_active = 0, cl_delay = reconnect_initial_ms (ck_cfg L),
      cl_started = 0, cl_state = 0, cl_phase = 1, cl_stats = st, cl_events = [], cl_waits = [], cl_attempts = [], cl_obtained = [],
      cl_sessions = []\<rparr>"

section \<open>The server\<close>

text \<open>\<open>sw_take\<close> is \<open>AdmissionServer::take\<close>; \<open>sw_ready\<close> is \<open>has_ready\<close>.\<close>

record server_world =
  sw_clock :: "nat \<Rightarrow> u64"
  sw_stop :: "nat \<Rightarrow> bool"
  sw_take :: "nat \<Rightarrow> connection option"
  sw_ready :: "nat \<Rightarrow> bool"
  sw_session :: "nat \<Rightarrow> world"
  sw_draws :: "nat \<Rightarrow> (int \<Rightarrow> int) \<times> (int \<Rightarrow> int)"

record server_link =
  vk_cfg :: config
  vk_crypto :: crypto
  vk_round :: "rat \<Rightarrow> rat"
  vk_text :: "tun_error \<Rightarrow> string"
  vk_world :: server_world

record server =
  sv_ev :: nat
  sv_stop :: bool
  sv_state :: int
  sv_phase :: int
  sv_stats :: stats
  sv_events :: "string list"
  sv_taken :: "connection list"
  sv_sessions :: "(connection \<times> world \<times> tunnel) list"

type_synonym 'a hosting = "(server, sup_error, 'a) se"

definition askV :: "(nat \<Rightarrow> 'a) \<Rightarrow> 'a hosting" where
  "askV f s = (s\<lparr>sv_ev := Suc (sv_ev s)\<rparr>, Inr (f (sv_ev s)))"

definition statV :: "(stats \<Rightarrow> stats) \<Rightarrow> unit hosting" where
  "statV f = modS (\<lambda>s. s\<lparr>sv_stats := f (sv_stats s)\<rparr>)"

definition eventV :: "string \<Rightarrow> unit hosting" where
  "eventV line = modS (\<lambda>s. s\<lparr>sv_events := event line (sv_events s)\<rparr>)"

definition server_stop :: "server_link \<Rightarrow> server \<Rightarrow> server \<times> bool" where
  "server_stop L s = (let b = (sv_stop s \<or> sw_stop (vk_world L) (sv_ev s)) in (s\<lparr>sv_ev := Suc (sv_ev s), sv_stop := b\<rparr>, b))"

definition stopV :: "server_link \<Rightarrow> bool hosting" where
  "stopV L s = (case server_stop L s of (s', b) \<Rightarrow> (s', Inr b))"

text \<open>The callback: a connection that waits takes over.\<close>

definition server_tick :: "server_link \<Rightarrow> stats \<Rightarrow> server \<Rightarrow> (server \<times> stats) \<times> (sup_error, unit) result" where
  "server_tick L st s = ((s\<lparr>sv_ev := Suc (sv_ev s)\<rparr>, st), if sw_ready (vk_world L) (sv_ev s) then Inl WarmSwitch else Inr ())"

definition server_link_of :: "server_link \<Rightarrow> connection \<Rightarrow> world \<Rightarrow> link" where
  "server_link_of L c w =
     \<lparr>lk_cfg = vk_cfg L, lk_crypto = vk_crypto L, lk_round = vk_round L, lk_tx_key = server_tx (hs_keys (cn_handshake c)),
      lk_world = w\<lparr>w_tick := (\<lambda>_. None)\<rparr>\<rparr>"

definition server_session :: "server_link \<Rightarrow> nat \<Rightarrow> connection \<Rightarrow> unit hosting" where
  "server_session L n c =
     bindS (askV (sw_clock (vk_world L))) (\<lambda>t. bindS (askV (sw_session (vk_world L))) (\<lambda>w. bindS (askV (sw_draws (vk_world L))) (\<lambda>draws s.
       let K = server_link_of L c w; ws = (cn_ws c)\<lparr>io_timeout_ms := websocket_io_timeout_sec (vk_cfg L) * 1000\<rparr>;
           T0 = start_tunnel K t (fst draws) (snd draws) (client_tx (hs_keys (cn_handshake c))) ws (sv_stats s) in
       case session_loop (server_stop L) (server_tick L) (vk_text L) K n (s, T0) of
         ((s', T), r) \<Rightarrow> (s'\<lparr>sv_stats := t_stats T, sv_sessions := sv_sessions s' @ [(c, w, T)]\<rparr>, r))))"

definition server_checks :: "config \<Rightarrow> ws_handshake_result \<Rightarrow> string option" where
  "server_checks cfg hs =
     (if websocket_padding_max_bytes cfg \<noteq> 0 \<and> \<not> peer_padding hs then Some ''peer lacks padding-v1; upgrade both peers or disable padding''
      else if websocket_control_padding_bytes cfg \<noteq> 0 \<and> \<not> peer_envelope hs then Some ''peer lacks envelope-v2; upgrade both peers or disable control padding''
      else None)"

definition server_online :: "server_link \<Rightarrow> nat \<Rightarrow> connection \<Rightarrow> unit hosting" where
  "server_online L n c =
     (case server_checks (vk_cfg L) (cn_handshake c) of
        Some m \<Rightarrow> throwS (SupFail m)
      | None \<Rightarrow>
          seqS
           [statV (\<lambda>st. st\<lparr>st_ptt5_sessions := st_ptt5_sessions st + 1\<rparr>), modS (\<lambda>s. s\<lparr>sv_state := 3, sv_phase := 7\<rparr>),
            eventV ''online role=server transport=websocket'', server_session L n c])"

definition server_caught :: "server_link \<Rightarrow> sup_error \<Rightarrow> unit hosting" where
  "server_caught L e =
     (case e of
        WarmSwitch \<Rightarrow> statV (\<lambda>st. st\<lparr>st_reconnects := st_reconnects st + 1\<rparr>)
      | SupFail m \<Rightarrow> bindS (stopV L) (\<lambda>b. whenS (\<not> b)
          (thenS (statV (\<lambda>st. let st = classify_reconnect m st in st\<lparr>st_reconnects := st_reconnects st + 1\<rparr>)) (eventV ''disconnected'')))
      | CutOff \<Rightarrow> throwS CutOff)"

definition server_turn :: "server_link \<Rightarrow> nat \<Rightarrow> unit hosting" where
  "server_turn L n =
     bindS (askV (sw_take (vk_world L))) (\<lambda>co.
       case co of
         None \<Rightarrow> skipS
       | Some c \<Rightarrow>
           seqS
            [modS (\<lambda>s. s\<lparr>sv_taken := sv_taken s @ [c]\<rparr>), catchS (server_online L n c) (server_caught L),
             bindS (stopV L) (\<lambda>b. whenS (\<not> b) (modS (\<lambda>s. s\<lparr>sv_state := 1, sv_phase := 2\<rparr>)))])"

fun server_loop_n :: "server_link \<Rightarrow> nat \<Rightarrow> nat \<Rightarrow> unit hosting" where
  "server_loop_n L n 0 = skipS"
| "server_loop_n L n (Suc k) =
     (if max_connections (vk_cfg L) \<noteq> 1 then skipS
      else bindS (stopV L) (\<lambda>b. if b then skipS else thenS (server_turn L n) (server_loop_n L n k)))"

definition start_server :: "stats \<Rightarrow> server" where
  "start_server st = \<lparr>sv_ev = 0, sv_stop = False, sv_state = 1, sv_phase = 2, sv_stats = st, sv_events = [], sv_taken = [], sv_sessions = []\<rparr>"

end
