(* ===== verification/SupervisorProps.thy ===== *)
theory SupervisorProps
  imports Supervisor TunnelProps
begin

text \<open>
  What holds of the client and the server that keep one connection in use: a session leaves the counters of candidates alone; a connection
  serves one session; candidates and retries keep their distance.
\<close>

section \<open>The counters of candidates in a session\<close>

definition candidates :: "stats \<Rightarrow> u64 \<times> u64 \<times> u64" where
  "candidates st = (st_candidate_attempts st, st_candidate_failures st, st_candidate_successes st)"

definition counts_same :: "tunnel \<Rightarrow> tunnel \<Rightarrow> bool" where
  "counts_same T T' \<longleftrightarrow> candidates (t_stats T') = candidates (t_stats T)"

interpretation counts: preserved counts_same
  by unfold_locales (simp_all add: counts_same_def)

lemma counts_basic [intro]: "keeps counts_same (ask f)" "keeps counts_same (now L)" "keeps counts_same (logS l)" "keeps counts_same (fail m)"
  by (simp_all add: keeps_def ask_def now_def logS_def fail_def modS_def throwS_def retS_def counts_same_def)

lemma counts_stat: "(\<And>st. candidates (f st) = candidates st) \<Longrightarrow> keeps counts_same (stat f)"
  by (simp add: keeps_def stat_def modS_def counts_same_def)

lemma counts_pair: "(\<And>s a b. g s = (a, b) \<Longrightarrow> counts_same s (h a b s)) \<Longrightarrow> keeps counts_same (\<lambda>s. case g s of (a, b) \<Rightarrow> (h a b s, k a b s))"
  by (simp add: keeps_def split: prod.splits)

lemmas counts_rules = counts.keeps_retS counts.keeps_bindS counts.keeps_thenS counts.keeps_whenS counts.keeps_withS counts.keeps_modS
  counts.keeps_eachS counts.keeps_seqS counts_basic counts_stat

lemmas counts_simps = counts_same_def candidates_def

lemma count_drop_candidates [simp]: "candidates (count_drop st) = candidates st"
  by (simp add: candidates_def count_drop_def)

lemma evict_candidates: "evict cfg n q qb st = (q', qb', st') \<Longrightarrow> candidates st' = candidates st"
  by (induction cfg n q qb st rule: evict.induct) (auto split: if_splits)

lemma enqueue_candidates:
  assumes "enqueue cfg b x q qb st = (q', qb', st')"
  shows "candidates st' = candidates st"
proof (cases "queue_bytes cfg < length (qd_data x) \<or> b \<and> q \<noteq> [] \<and> queue_full cfg (length (qd_data x)) q qb")
  case True
  then show ?thesis using assms unfolding enqueue_def Let_def by (elim disjE) (auto split: if_splits)
next
  case False
  obtain q1 qb1 st1 where e: "evict cfg (length (qd_data x)) q qb st = (q1, qb1, st1)" by (metis surj_pair)
  have n: "\<not> queue_bytes cfg < length (qd_data x)" "\<not> (b \<and> q \<noteq> [] \<and> queue_full cfg (length (qd_data x)) q qb)" using False by blast+
  have "candidates st' = candidates st1" using assms e unfolding enqueue_def Let_def if_not_P [OF n(1)] if_not_P [OF n(2)] by (auto simp: candidates_def)
  then show ?thesis using evict_candidates [OF e] by simp
qed

lemma drop_old_candidates: "drop_old cfg t q qb st ev = (q', qb', st', ev') \<Longrightarrow> candidates st' = candidates st"
  by (induction cfg t q qb st ev rule: drop_old.induct) (auto simp: candidates_def split: if_splits)

lemma batch_candidates: "effective_batch_packets q cfg t st = (n, st') \<Longrightarrow> candidates st' = candidates st"
  by (auto simp: effective_batch_packets_def Let_def candidates_def split: if_splits)

lemma batch_snd: "candidates (snd (effective_batch_packets q cfg t st)) = candidates st"
  using batch_candidates by (metis surjective_pairing)

lemma counts_leaf: "(\<And>s. candidates (t_stats (fst (m s))) = candidates (t_stats s)) \<Longrightarrow> keeps counts_same m"
  by (simp add: keeps_def counts_same_def)

lemma counts_maximum: "keeps counts_same (padding_maximum L control)"
  unfolding padding_maximum_def Let_def by (auto intro!: counts_rules)

lemma counts_allowance: "keeps counts_same (padding_allowance L control n m)"
  unfolding padding_allowance_def by (auto intro!: counts_rules counts_pair simp: counts_same_def)

lemma counts_spend: "keeps counts_same (spend_padding L control n)"
  unfolding spend_padding_def Let_def by (auto intro!: counts_rules simp: counts_simps)

lemma counts_sequence: "keeps counts_same next_sequence"
  by (rule counts_leaf) (simp add: next_sequence_def)

lemma counts_encode: "keeps counts_same (encode L payload flags)"
  unfolding encode_def Let_def
  by (auto intro!: counts_rules counts_maximum counts_allowance counts_spend counts_sequence simp: counts_simps split: sum.splits)

lemma counts_put: "keeps counts_same (put_queue L rec b)"
  unfolding put_queue_def
  by (intro counts_rules counts_leaf) (auto split: prod.splits dest: enqueue_candidates)

lemma counts_enqueue: "keeps counts_same (enqueue_control L flags payload)" "keeps counts_same (enqueue_packet L packet)"
  unfolding enqueue_control_def enqueue_packet_def by (intro counts_rules counts_encode counts_put)+

lemma counts_sync: "keeps counts_same (sync_carrier_tx L)"
  unfolding sync_carrier_tx_def Let_def seqS.simps by (intro counts_rules) (simp_all add: counts_simps)

lemma counts_flush_transport: "keeps counts_same (flush_transport L)"
  unfolding flush_transport_def carrier_flush_step_def
  by (intro counts_rules counts_sync counts_leaf) (auto split: prod.splits sum.splits)

lemma counts_send: "keeps counts_same (send_message L message)"
  unfolding send_message_def by (intro counts_rules counts_leaf) (auto split: sum.splits)

lemma counts_shaper: "keeps counts_same (shaper_ready L)"
  unfolding shaper_ready_def by (auto intro!: counts_rules counts_pair simp: counts_same_def)

lemma counts_limit: "keeps counts_same (batch_limit L)"
  unfolding batch_limit_def by (intro counts_rules counts_leaf) (auto split: prod.splits dest: batch_candidates)

lemma counts_flush: "keeps counts_same (flush_carrier L)"
  unfolding flush_carrier_def seqS.simps
  by (auto intro!: counts_rules counts_flush_transport counts_shaper counts_limit counts_send simp: counts_simps split: prod.splits)

lemma counts_drain_loop: "keeps counts_same (drain_loop L n)"
  proof (induction n)
  case (Suc n)
  have "counts_same T (T\<lparr>t_pending := q\<rparr>)" for T q by (simp add: counts_same_def)
  with Suc show ?case unfolding drain_loop.simps Let_def by (auto intro!: counts_rules counts_enqueue split: prod.splits)
qed auto

lemma counts_drain: "keeps counts_same (drain_pending L)"
  unfolding drain_pending_def Let_def
  by (auto intro!: counts_rules counts_drain_loop simp: counts_simps note_peaks_def note_queues_def)

lemma counts_on_record: "keeps counts_same (on_record L r)"
  unfolding on_record_def Let_def
  by (auto intro!: counts_rules counts_enqueue simp: counts_simps split: prod.splits)

lemma counts_on_records: "keeps counts_same (on_records L rs)"
  by (induction rs) (auto intro!: counts_rules counts_on_record)

lemma counts_on_message: "keeps counts_same (on_message L msg)"
  unfolding on_message_def Let_def
  by (auto intro!: counts_rules counts_on_records counts_flush simp: counts_simps split: prod.splits feed_outcome.splits)

lemma counts_read_burst: "keeps counts_same (read_burst L n burst)"
  by (induction n arbitrary: burst) (auto intro!: counts_rules simp: counts_simps split: tun_read.splits)

lemma counts_schedule: "keeps counts_same (schedule_packet L packet)"
  unfolding schedule_packet_def Let_def
  by (auto intro!: counts_rules counts_pair simp: counts_same_def)

lemma counts_read_tun: "keeps counts_same (read_tun L)"
  unfolding read_tun_def Let_def
  by (auto intro!: counts_rules counts_read_burst counts_schedule counts_drain counts_enqueue counts_flush)

lemma counts_note_pong: "keeps counts_same (note_pong L pong)"
  unfolding note_pong_def Let_def by (auto intro!: counts_rules simp: counts_simps)

lemma counts_read_carrier: "keeps counts_same (read_carrier L)"
  unfolding read_carrier_def Let_def seqS.simps
  by (auto intro!: counts_rules counts_note_pong counts_on_message simp: counts_simps split: prod.splits sum.splits)

lemma counts_ping: "keeps counts_same (send_carrier_ping L t)"
  unfolding send_carrier_ping_def Let_def
  by (auto intro!: counts_rules counts_flush_transport simp: counts_simps split: sum.splits)

lemma counts_timers: "keeps counts_same (run_timers L gone)"
  unfolding run_timers_def send_probe_def check_pong_def send_keepalive_def check_session_def Let_def seqS.simps
  by (auto intro!: counts_rules counts_flush_transport counts_enqueue counts_flush counts_drain counts_ping simp: counts_simps)

lemma counts_watchdog: "keeps counts_same (check_watchdog L)"
  unfolding check_watchdog_def Let_def seqS.simps by (auto intro!: counts_rules simp: counts_simps split: option.splits)

lemma counts_drop: "keeps counts_same (drop_delayed L t)"
  unfolding drop_delayed_def Let_def seqS.simps
  by (auto intro!: counts_rules simp: counts_same_def note_queues_def batch_snd split: prod.splits dest: drop_old_candidates)
    (simp_all add: candidates_def)

lemma counts_turn: "keeps counts_same (tunnel_turn L)"
  unfolding tunnel_turn_def poll_step_def Let_def seqS.simps
  by (auto intro!: counts_rules counts_watchdog counts_drop counts_flush_transport counts_drain counts_flush counts_read_tun counts_read_carrier
      counts_timers simp: counts_simps split: poll_outcome.splits)

section \<open>The invariant of the client\<close>

definition balance :: "stats \<Rightarrow> u64" where
  "balance st = st_candidate_attempts st - st_candidate_failures st - st_candidate_successes st"

definition paced :: "client_link \<Rightarrow> u64 list \<Rightarrow> u64 \<Rightarrow> nat \<Rightarrow> bool" where
  "paced L attempts next k \<longleftrightarrow> successively (\<lambda>a b. unat a + 30000000 \<le> unat b) attempts \<and>
     (attempts \<noteq> [] \<longrightarrow> unat (last attempts) + 30000000 \<le> unat next \<and> last attempts \<le> cw_clock (ck_world L) k)"

definition waits_ok :: "config \<Rightarrow> int \<Rightarrow> int list \<Rightarrow> bool" where
  "waits_ok cfg delay ws \<longleftrightarrow> reconnect_initial_ms cfg \<le> delay \<and> delay \<le> reconnect_max_ms cfg \<and>
     (\<forall>w \<in> set ws. 1 \<le> w \<and> w \<le> reconnect_max_ms cfg + reconnect_max_ms cfg * reconnect_jitter_pct cfg sdiv 100)"

definition connection_fine :: "client_link \<Rightarrow> connection \<Rightarrow> bool" where
  "connection_fine L c \<longleftrightarrow> dial_checks (ck_cfg L) False (cn_handshake c) = None \<and> ws_invar True (cn_ws c) \<and> pending (cn_ws c) = []"

definition session_fine :: "client_link \<Rightarrow> connection \<times> world \<times> tunnel \<Rightarrow> bool" where
  "session_fine L x \<longleftrightarrow> (case x of (c, w, T) \<Rightarrow> session_end (session_link L c w) True T)"

definition client_base :: "client_link \<Rightarrow> u64 \<Rightarrow> client \<Rightarrow> bool" where
  "client_base L b s \<longleftrightarrow> balance (cl_stats s) = b + (if cl_warm s then 1 else 0) \<and>
     paced L (cl_attempts s) (bo_next (cl_recovery s)) (cl_ev s) \<and> waits_ok (ck_cfg L) (cl_delay s) (cl_waits s) \<and>
     (\<forall>x \<in> set (cl_sessions s). session_fine L x) \<and> (\<forall>c \<in> set (cl_obtained s). connection_fine L c)"

text \<open>
  What the world does: a monotonic clock far from its limit, draws within their range, handshakes that leave a fresh
  session, and sessions as in \<open>TunnelProps\<close>. The configuration has passed its checks.
\<close>

definition client_link_ok :: "client_link \<Rightarrow> bool" where
  "client_link_ok L \<longleftrightarrow> mono (cw_clock (ck_world L)) \<and> (\<forall>k. unat (cw_clock (ck_world L) k) < 2 ^ 63) \<and>
     (\<forall>k d. 0 \<le> d \<longrightarrow> - d \<le> cw_jitter (ck_world L) k d \<and> cw_jitter (ck_world L) k d \<le> d) \<and>
     (\<forall>k c. cw_dial (ck_world L) k = Inr c \<or> cw_warm (ck_world L) k = DialDone c \<or> cw_warm_get (ck_world L) k = Inr c \<longrightarrow>
        ws_invar True (cn_ws c) \<and> pending (cn_ws c) = []) \<and>
     (\<forall>k c. link_ok (session_link L c (cw_session (ck_world L) k))) \<and>
     1 \<le> reconnect_initial_ms (ck_cfg L) \<and> reconnect_initial_ms (ck_cfg L) \<le> reconnect_max_ms (ck_cfg L) \<and> 0 \<le> reconnect_jitter_pct (ck_cfg L)"

definition used :: "client \<Rightarrow> connection option \<times> connection list \<times> (connection \<times> world \<times> tunnel) list" where
  "used s = (cl_connection s, cl_obtained s, cl_sessions s)"

lemma balance_simps [simp]:
  "balance (st\<lparr>st_reconnects := x\<rparr>) = balance st" "balance (st\<lparr>st_reply_renewals := x\<rparr>) = balance st" "balance (st\<lparr>st_latency_renewals := x\<rparr>) = balance st"
  "balance (st\<lparr>st_ptt5_sessions := x\<rparr>) = balance st" "balance (st\<lparr>st_rtt_us := i\<rparr>) = balance st" "balance (st\<lparr>st_rtt_sample_us := x\<rparr>) = balance st"
  "balance (classify_reconnect m st) = balance st"
  by (simp_all add: balance_def classify_reconnect_def)

lemma paced_later: "client_link_ok L \<Longrightarrow> paced L as x k \<Longrightarrow> k \<le> k' \<Longrightarrow> paced L as x k'"
  by (auto simp: paced_def client_link_ok_def dest: monoD intro: order_trans)

lemma base_ask: "client_link_ok L \<Longrightarrow> client_base L b s \<Longrightarrow> client_base L b (s\<lparr>cl_ev := Suc (cl_ev s)\<rparr>)"
  by (auto simp: client_base_def intro: paced_later)

lemma base_simps [simp]:
  "client_base L b (s\<lparr>cl_policy := p\<rparr>) = client_base L b s" "client_base L b (s\<lparr>cl_connection := co\<rparr>) = client_base L b s"
  "client_base L b (s\<lparr>cl_payload_seen := x\<rparr>) = client_base L b s" "client_base L b (s\<lparr>cl_last_active := x\<rparr>) = client_base L b s"
  "client_base L b (s\<lparr>cl_started := x\<rparr>) = client_base L b s" "client_base L b (s\<lparr>cl_state := i\<rparr>) = client_base L b s"
  "client_base L b (s\<lparr>cl_phase := i\<rparr>) = client_base L b s" "client_base L b (s\<lparr>cl_events := es\<rparr>) = client_base L b s"
  "client_base L b (s\<lparr>cl_stop := f\<rparr>) = client_base L b s" "client_base L b (s\<lparr>cl_limit := i\<rparr>) = client_base L b s"
  by (simp_all add: client_base_def)

lemma used_simps [simp]:
  "used (s\<lparr>cl_policy := p\<rparr>) = used s" "used (s\<lparr>cl_payload_seen := x\<rparr>) = used s" "used (s\<lparr>cl_last_active := x\<rparr>) = used s"
  "used (s\<lparr>cl_started := x\<rparr>) = used s" "used (s\<lparr>cl_state := i\<rparr>) = used s" "used (s\<lparr>cl_phase := i\<rparr>) = used s"
  "used (s\<lparr>cl_events := es\<rparr>) = used s" "used (s\<lparr>cl_stop := f\<rparr>) = used s" "used (s\<lparr>cl_limit := i\<rparr>) = used s" "used (s\<lparr>cl_ev := k\<rparr>) = used s"
  "used (s\<lparr>cl_stats := st\<rparr>) = used s" "used (s\<lparr>cl_recovery := r\<rparr>) = used s" "used (s\<lparr>cl_warm := w\<rparr>) = used s" "used (s\<lparr>cl_delay := i\<rparr>) = used s"
  "used (s\<lparr>cl_waits := ws\<rparr>) = used s" "used (s\<lparr>cl_attempts := as\<rparr>) = used s"
  by (simp_all add: used_def)


section \<open>Candidates\<close>

lemmas sup_run = bindS_def thenS_def retS_def modS_def withS_def skipS_def throwS_def whenS_def askK_def nowK_def statK_def eventK_def obtained_def
  phaseK_def stopK_def client_stop_def Let_def

lemma clock_facts:
  assumes "client_link_ok L"
  shows "unat (cw_clock (ck_world L) k + 30000000) = unat (cw_clock (ck_world L) k) + 30000000"
    "a \<le> cw_clock (ck_world L) k \<Longrightarrow> k \<le> k' \<Longrightarrow> a \<le> cw_clock (ck_world L) k'"
proof -
  have "unat (cw_clock (ck_world L) k) < 2 ^ 63" using assms by (simp add: client_link_ok_def)
  then show "unat (cw_clock (ck_world L) k + 30000000) = unat (cw_clock (ck_world L) k) + 30000000"
    by (simp add: unat_word_ariths)
  show "a \<le> cw_clock (ck_world L) k \<Longrightarrow> k \<le> k' \<Longrightarrow> a \<le> cw_clock (ck_world L) k'"
    using assms by (auto simp: client_link_ok_def dest: monoD intro: order_trans)
qed

text \<open>After a success or a failure the next candidate is at least 30 seconds away.\<close>

lemma paced_wait:
  assumes "client_link_ok L" "paced L as x k" "unat (cw_clock (ck_world L) k) + 30000000 \<le> unat y"
  shows "paced L as y (Suc k)"
proof -
  have "unat (last as) \<le> unat (cw_clock (ck_world L) k)" if "as \<noteq> []" using assms(2) that by (simp add: paced_def word_le_nat_alt)
  moreover have "last as \<le> cw_clock (ck_world L) (Suc k)" if "as \<noteq> []"
    using clock_facts(2) [OF assms(1)] assms(2) that by (auto simp: paced_def)
  ultimately show ?thesis using assms(2,3) by (auto simp: paced_def)
qed

lemma failed_next:
  assumes "client_link_ok L"
  shows "unat (cw_clock (ck_world L) k) + 30000000 \<le> unat (bo_next (bo_failed (cw_clock (ck_world L) k) r))"
proof -
  let ?t = "cw_clock (ck_world L) k" and ?f = "min 5 (bo_failures r + 1)"
  have t: "unat ?t < 2 ^ 63" using assms by (simp add: client_link_ok_def)
  have "1 \<le> (2 :: nat) ^ (?f - 1)" by simp
  then have n: "(30 :: nat) \<le> min 300 (30 * 2 ^ (?f - 1))" "min 300 (30 * 2 ^ (?f - 1)) \<le> (300 :: nat)" by simp_all
  then have "unat (of_nat (min 300 (30 * 2 ^ (?f - 1))) * 1000000 :: u64) = min 300 (30 * 2 ^ (?f - 1)) * 1000000"
    by (simp add: unat_word_ariths unat_of_nat)
  with t n show ?thesis by (simp add: bo_failed_def Let_def unat_word_ariths)
qed

lemma paced_succeeded: "client_link_ok L \<Longrightarrow> paced L as x k \<Longrightarrow> paced L as (bo_next (bo_succeeded (cw_clock (ck_world L) k) r)) (Suc k)"
  using clock_facts(1) by (auto intro!: paced_wait simp: bo_succeeded_def)

lemma paced_failed: "client_link_ok L \<Longrightarrow> paced L as x k \<Longrightarrow> paced L as (bo_next (bo_failed (cw_clock (ck_world L) k) r)) (Suc k)"
  using failed_next by (auto intro!: paced_wait)

text \<open>The state after a candidate succeeded or failed; which other fields changed does not matter.\<close>

lemma base_succeeded:
  assumes "client_link_ok L" "client_base L b s" "cl_warm s" "connection_fine L c" "\<not> cl_warm s'" "cl_ev s' = Suc (cl_ev s)"
    and "cl_obtained s' = cl_obtained s @ [c]" "cl_sessions s' = cl_sessions s" "cl_attempts s' = cl_attempts s" "cl_delay s' = cl_delay s" "cl_waits s' = cl_waits s"
    and "cl_recovery s' = bo_succeeded (cw_clock (ck_world L) (cl_ev s)) (cl_recovery s)" "balance (cl_stats s') = balance (cl_stats s) - 1"
  shows "client_base L b s'"
  using assms paced_succeeded [OF assms(1)] by (auto simp: client_base_def)

lemma base_failed:
  assumes "client_link_ok L" "client_base L b s" "cl_warm s" "\<not> cl_warm s'" "cl_ev s' = Suc (cl_ev s)"
    and "cl_obtained s' = cl_obtained s" "cl_sessions s' = cl_sessions s" "cl_attempts s' = cl_attempts s" "cl_delay s' = cl_delay s" "cl_waits s' = cl_waits s"
    and "cl_recovery s' = bo_failed (cw_clock (ck_world L) (cl_ev s)) (cl_recovery s)" "balance (cl_stats s') = balance (cl_stats s) - 1"
  shows "client_base L b s'"
  using assms paced_failed [OF assms(1)] by (auto simp: client_base_def)

lemma background_fine: "dial_checks cfg True hs = None \<Longrightarrow> dial_checks cfg False hs = None"
  by (auto simp: dial_checks_def split: if_splits)

lemma poll_warm_runs:
  assumes "client_link_ok L"
  shows "runs (\<lambda>s. client_base L b s \<and> used s = (co, ob, ss)) (poll_warm L)
    (\<lambda>r s. client_base L b s \<and> (case r of Inr _ \<Rightarrow> used s = (co, ob, ss) | Inl e \<Rightarrow> e = WarmSwitch \<and> (\<exists>c. used s = (Some c, ob @ [c], ss))))"
proof (rule runsI)
  fix s s' r assume "client_base L b s \<and> used s = (co, ob, ss)" and m: "poll_warm L s = (s', r)"
  then have i: "client_base L b s" "used s = (co, ob, ss)" by simp_all
  let ?s1 = "s\<lparr>cl_ev := Suc (cl_ev s)\<rparr>"
  have b1: "client_base L b ?s1" using base_ask [OF assms i(1)] .
  show "client_base L b s' \<and> (case r of Inr _ \<Rightarrow> used s' = (co, ob, ss) | Inl e \<Rightarrow> e = WarmSwitch \<and> (\<exists>c. used s' = (Some c, ob @ [c], ss)))"
  proof (cases "cl_warm s")
    case False
    then show ?thesis using m i by (auto simp: poll_warm_def withS_def retS_def)
  next
    case w: True
    show ?thesis
    proof (cases "warm_outcome (ck_cfg L) (cw_warm (ck_world L) (cl_ev s))")
      case DialPending
      then show ?thesis using m i w b1 by (auto simp: poll_warm_def sup_run)
    next
      case (DialFailed e)
      have "client_base L b s'"
        by (rule base_failed [OF assms b1]) (use m w DialFailed in \<open>auto simp: poll_warm_def candidate_failed_def sup_run balance_def\<close>)
      then show ?thesis using m i w DialFailed by (auto simp: poll_warm_def candidate_failed_def sup_run)
    next
      case (DialDone c)
      then have "connection_fine L c"
        using assms background_fine by (auto simp: warm_outcome_def connection_fine_def client_link_ok_def split: dial_outcome.splits option.splits)
      then have "client_base L b s'"
        by (rule base_succeeded [OF assms b1, rotated]) (use m w DialDone in \<open>auto simp: poll_warm_def candidate_ready_def sup_run balance_def\<close>)
      then show ?thesis using m i w DialDone by (auto simp: poll_warm_def candidate_ready_def sup_run used_def)
    qed
  qed
qed

text \<open>A candidate is started only when none is under way and the last one is long enough ago.\<close>

lemma wants_cases:
  obtains p w where "wants_candidate L trial missing t s = (s\<lparr>cl_policy := p\<rparr>, Inr w)" "w \<longrightarrow> \<not> cl_warm s \<and> bo_next (cl_recovery s) \<le> t"
proof (cases "cl_warm s \<or> \<not> trial \<or> \<not> bo_ready t (cl_recovery s) \<or> missing")
  case True
  then have "wants_candidate L trial missing t s = (s\<lparr>cl_policy := cl_policy s\<rparr>, Inr (\<not> (cl_warm s \<or> \<not> trial \<or> \<not> bo_ready t (cl_recovery s))))"
    by (auto simp: wants_candidate_def Let_def)
  then show ?thesis by (rule that) (simp add: bo_ready_def)
next
  case False
  obtain w p where "lr_observe (renew_threshold L (cl_stats s)) (nat (latency_renew_samples (ck_cfg L))) (nat (latency_renew_cooldown_sec (ck_cfg L)))
      \<lparr>ob_sample = st_rtt_sample_us (cl_stats s), ob_rtt_us = st_rtt_us (cl_stats s), ob_now = t,
       ob_active = (cl_last_active s \<noteq> 0 \<and> t - cl_last_active s \<le> 60000000)\<rparr> (cl_policy s) = (w, p)" by fastforce
  then have "wants_candidate L trial missing t s = (s\<lparr>cl_policy := p\<rparr>, Inr w)" using False by (simp add: wants_candidate_def Let_def)
  then show ?thesis by (rule that) (use False in \<open>simp add: bo_ready_def\<close>)
qed

lemma consider_runs:
  assumes "client_link_ok L"
  shows "runs (\<lambda>s. client_base L b s \<and> used s = u) (consider_candidate L trial) (\<lambda>r s. client_base L b s \<and> used s = u \<and> r = Inr ())"
proof (rule runsI)
  fix s s' r assume "client_base L b s \<and> used s = u" and m: "consider_candidate L trial s = (s', r)"
  then have i: "client_base L b s" "used s = u" by simp_all
  let ?t = "cw_clock (ck_world L) (cl_ev s)"
  define s1 where "s1 = (let s = s\<lparr>cl_ev := Suc (cl_ev s)\<rparr>; payload = st_payload_tx (cl_stats s) + st_payload_rx (cl_stats s) in
    if payload \<noteq> cl_payload_seen s then s\<lparr>cl_payload_seen := payload, cl_last_active := ?t\<rparr> else s)"
  define s2 where "s2 = (let u = cw_clock (ck_world L) (cl_ev s1); s = s1\<lparr>cl_ev := Suc (cl_ev s1)\<rparr> in
    if elapsed u (cl_started s) > 120000000 then s\<lparr>cl_delay := reconnect_initial_ms (ck_cfg L)\<rparr> else s)"
  let ?missing = "st_probe_pending_age_ms (cl_stats s2) \<ge> of_int (reply_renew_sec (ck_cfg L)) * 1000"
  have b1: "client_base L b s1" "used s1 = u" using base_ask [OF assms i(1)] i(2) by (simp_all add: s1_def Let_def)
  have b2: "client_base L b s2" "used s2 = u" "Suc (cl_ev s) \<le> cl_ev s2"
    using base_ask [OF assms b1(1)] b1(2) assms by (auto simp: s2_def Let_def client_base_def waits_ok_def client_link_ok_def) (simp_all add: s1_def Let_def)
  obtain p w where w: "wants_candidate L trial ?missing ?t s2 = (s2\<lparr>cl_policy := p\<rparr>, Inr w)" and rw: "w \<longrightarrow> \<not> cl_warm s2 \<and> bo_next (cl_recovery s2) \<le> ?t"
    by (rule wants_cases)
  define s3 where "s3 = s2\<lparr>cl_policy := p\<rparr>"
  have b3: "client_base L b s3" "used s3 = u" "cl_ev s3 = cl_ev s2" using b2 by (simp_all add: s3_def)
  have r3: "w \<Longrightarrow> \<not> cl_warm s3 \<and> bo_next (cl_recovery s3) \<le> ?t" using rw by (simp add: s3_def)
  have e: "consider_candidate L trial s = (if w then start_candidate L ?missing ?t s3 else (s3, Inr ()))"
    using w by (simp add: consider_candidate_def sup_run s1_def s2_def s3_def)
  show "client_base L b s' \<and> used s' = u \<and> r = Inr ()"
  proof (cases w)
    case False
    then show ?thesis using e m b3 by simp
  next
    case True
    let ?as = "cl_attempts s3"
    have p: "paced L ?as (bo_next (cl_recovery s3)) (cl_ev s3)" using b3(1) by (simp add: client_base_def)
    have n: "unat (bo_next (cl_recovery s3)) \<le> unat ?t" using r3 True by (simp add: word_le_nat_alt)
    have "?t \<le> cw_clock (ck_world L) (cl_ev s3)" using clock_facts(2) [OF assms order.refl, of "cl_ev s" "cl_ev s3"] b2(3) b3(3) by simp
    then have "paced L (?as @ [?t]) (?t + 30000000) (cl_ev s3)"
      using p n clock_facts(1) [OF assms] by (auto simp: paced_def successively_append_iff)
    then show ?thesis
      using e m b3 r3 True by (auto simp: start_candidate_def sup_run client_base_def bo_started_def balance_def)
  qed
qed

lemma tick_runs:
  assumes "client_link_ok L"
  shows "runs (\<lambda>s. client_base L b s \<and> used s = (co, ob, ss)) (client_tick L trial)
    (\<lambda>r s. client_base L b s \<and> (case r of Inr _ \<Rightarrow> used s = (co, ob, ss) | Inl e \<Rightarrow> e = WarmSwitch \<and> (\<exists>c. used s = (Some c, ob @ [c], ss))))"
  unfolding client_tick_def
proof (rule runs_bindS [OF poll_warm_runs [OF assms]])
  show "runs (\<lambda>s. client_base L b s \<and> (case Inr x :: (sup_error, bool) result of Inr _ \<Rightarrow> used s = (co, ob, ss) | Inl e \<Rightarrow> e = WarmSwitch \<and> (\<exists>c. used s = (Some c, ob @ [c], ss))))
    (whenS (\<not> x) (consider_candidate L trial))
    (\<lambda>r s. client_base L b s \<and> (case r of Inr _ \<Rightarrow> used s = (co, ob, ss) | Inl e \<Rightarrow> e = WarmSwitch \<and> (\<exists>c. used s = (Some c, ob @ [c], ss))))" for x
    by (rule runs_whenS) (auto intro: runs_post [OF consider_runs [OF assms]])
qed auto

end
