(* ===== verification/SupervisorRun.thy ===== *)
theory SupervisorRun
  imports SupervisorProps
begin

text \<open>
  The client over its sessions: each session keeps the invariant of the client, and so does each turn of the loop that dials, retries
  and changes over to a candidate. A connection that was obtained serves one session.
\<close>

section \<open>A session of the client\<close>

definition stats_base :: "client_link \<Rightarrow> u64 \<Rightarrow> client \<times> tunnel \<Rightarrow> bool" where
  "stats_base L b x \<longleftrightarrow> client_base L b ((fst x)\<lparr>cl_stats := t_stats (snd x)\<rparr>)"

lemma balance_candidates: "candidates st = candidates st' \<Longrightarrow> balance st = balance st'"
  by (simp add: balance_def candidates_def)

lemma base_stats: "balance st = balance st' \<Longrightarrow> client_base L b (s\<lparr>cl_stats := st\<rparr>) = client_base L b (s\<lparr>cl_stats := st'\<rparr>)"
  by (simp add: client_base_def)

lemma session_stats: "session_inv K client T \<Longrightarrow> session_inv K client (T\<lparr>t_stats := st\<rparr>)"
  by (rule session_same [where s = T]) (simp_all add: same_simps)

text \<open>How a session of the client ends: by a stop, because a candidate took over, or with an error.\<close>

definition session_result_ok :: "client_link \<Rightarrow> u64 \<Rightarrow> link \<Rightarrow> connection option \<Rightarrow> connection list \<Rightarrow> (connection \<times> world \<times> tunnel) list \<Rightarrow>
    (sup_error, unit) result \<Rightarrow> client \<times> tunnel \<Rightarrow> bool" where
  "session_result_ok L b K co ob ss r x \<longleftrightarrow> stats_base L b x \<and> session_end K True (snd x) \<and>
     (case r of Inr _ \<Rightarrow> used (fst x) = (co, ob, ss) \<and> cl_stop (fst x)
      | Inl e \<Rightarrow> if e = WarmSwitch then \<exists>c. used (fst x) = (Some c, ob @ [c], ss) else used (fst x) = (co, ob, ss))"

lemma tick_step:
  assumes "client_link_ok L"
  shows "runs (\<lambda>x. stats_base L b x \<and> used (fst x) = (co, ob, ss) \<and> session_inv K True (snd x)) (session_tick (tick_on L trial) K)
    (\<lambda>r x. stats_base L b x \<and> session_inv K True (snd x) \<and>
      (case r of Inr _ \<Rightarrow> used (fst x) = (co, ob, ss) | Inl e \<Rightarrow> e = WarmSwitch \<and> (\<exists>c. used (fst x) = (Some c, ob @ [c], ss))))"
proof (rule runsI)
  fix x x' r assume i: "stats_base L b x \<and> used (fst x) = (co, ob, ss) \<and> session_inv K True (snd x)" and m: "session_tick (tick_on L trial) K x = (x', r)"
  obtain s T where x: "x = (s, T)" by fastforce
  let ?st = "pending_age K T"
  have "balance ?st = balance (t_stats T)" by (simp add: pending_age_def Let_def balance_def)
  note eq = base_stats [OF this, of L b s]
  have "client_base L b (s\<lparr>cl_stats := t_stats T\<rparr>)" and u: "used s = (co, ob, ss)" and inv: "session_inv K True T"
    using i unfolding x stats_base_def by simp_all
  then have p: "client_base L b (s\<lparr>cl_stats := ?st\<rparr>) \<and> used (s\<lparr>cl_stats := ?st\<rparr>) = (co, ob, ss)" unfolding eq by simp
  obtain s' r' where t: "client_tick L trial (s\<lparr>cl_stats := ?st\<rparr>) = (s', r')" by fastforce
  have x': "x' = (s', T\<lparr>t_stats := cl_stats s'\<rparr>)" "r' = r" using m x t by (simp_all add: session_tick_def tick_on_def)
  show "stats_base L b x' \<and> session_inv K True (snd x') \<and>
      (case r of Inr _ \<Rightarrow> used (fst x') = (co, ob, ss) | Inl e \<Rightarrow> e = WarmSwitch \<and> (\<exists>c. used (fst x') = (Some c, ob @ [c], ss)))"
    using runsD [OF tick_runs [OF assms] p t] session_stats [OF inv, of "cl_stats s'"] unfolding x' stats_base_def by (cases r) simp_all
qed

lemma turn_step:
  assumes "link_ok K"
  shows "runs (\<lambda>x. stats_base L b x \<and> used (fst x) = u \<and> session_inv K True (snd x)) (session_turn text K)
    (\<lambda>r x. stats_base L b x \<and> used (fst x) = u \<and> (case r of Inr _ \<Rightarrow> session_inv K True (snd x) | Inl e \<Rightarrow> session_end K True (snd x) \<and> e \<noteq> WarmSwitch))"
proof (rule runsI)
  fix x x' r assume i: "stats_base L b x \<and> used (fst x) = u \<and> session_inv K True (snd x)" and m: "session_turn text K x = (x', r)"
  obtain s T where x: "x = (s, T)" by fastforce
  obtain T' q where t: "tunnel_turn K T = (T', q)" by fastforce
  then have x': "x' = (s, T')" "r = (case q of Inl e \<Rightarrow> Inl (SupFail (tun_what text e)) | Inr _ \<Rightarrow> Inr ())" using m x by (simp_all add: session_turn_def)
  have "candidates (t_stats T') = candidates (t_stats T)" using keepsD [OF counts_turn t] by (simp add: counts_same_def)
  note eq = base_stats [OF balance_candidates [OF this], of L b s]
  have "client_base L b (s\<lparr>cl_stats := t_stats T\<rparr>)" and u: "used s = u" and inv: "session_inv K True T"
    using i unfolding x stats_base_def by simp_all
  then have b: "stats_base L b x'" unfolding x' stats_base_def fst_conv snd_conv eq by simp
  have h: "case q of Inr _ \<Rightarrow> session_inv K True T' | Inl _ \<Rightarrow> session_end K True T'"
    using holdsD [OF holds_turn [OF assms] inv] t by (cases q) auto
  show "stats_base L b x' \<and> used (fst x') = u \<and> (case r of Inr _ \<Rightarrow> session_inv K True (snd x') | Inl e \<Rightarrow> session_end K True (snd x') \<and> e \<noteq> WarmSwitch)"
    using b u h unfolding x' by (cases q) simp_all
qed

lemma session_loop_runs:
  assumes "client_link_ok L" "link_ok K"
  shows "runs (\<lambda>x. stats_base L b x \<and> used (fst x) = (co, ob, ss) \<and> session_inv K True (snd x))
    (session_loop (client_stop L) (tick_on L trial) text K n) (session_result_ok L b K co ob ss)"
proof (induction n)
  case 0
  then show ?case by (auto intro!: runs_throwS simp: session_result_ok_def session_inv_def)
next
  case (Suc n)
  let ?I = "\<lambda>x. stats_base L b x \<and> used (fst x) = (co, ob, ss) \<and> session_inv K True (snd x)"
  have s: "runs ?I (session_stop (client_stop L)) (\<lambda>r x. ?I x \<and> (\<exists>q. r = Inr q \<and> q = cl_stop (fst x)))"
  proof (rule runsI)
    fix x x' r assume i: "?I x" and m: "session_stop (client_stop L) x = (x', r)"
    have "stats_base L b ((fst x)\<lparr>cl_ev := Suc (cl_ev (fst x)), cl_stop := f\<rparr>, snd x)" for f
      using base_ask [OF assms(1), of b "(fst x)\<lparr>cl_stats := t_stats (snd x)\<rparr>"] i by (simp add: stats_base_def client_base_def)
    with i m show "?I x' \<and> (\<exists>q. r = Inr q \<and> q = cl_stop (fst x'))" by (auto simp: session_stop_def client_stop_def Let_def)
  qed
  show ?case
    unfolding session_loop.simps
  proof (rule runs_bindS [OF s])
    fix q
    have t: "runs ?I (thenS (session_tick (tick_on L trial) K) (thenS (session_turn text K) (session_loop (client_stop L) (tick_on L trial) text K n)))
      (session_result_ok L b K co ob ss)"
    proof (rule runs_thenS [OF tick_step [OF assms(1)]])
      show "runs (\<lambda>x. stats_base L b x \<and> session_inv K True (snd x) \<and>
          (case Inr () :: (sup_error, unit) result of Inr _ \<Rightarrow> used (fst x) = (co, ob, ss) | Inl e \<Rightarrow> e = WarmSwitch \<and> (\<exists>c. used (fst x) = (Some c, ob @ [c], ss))))
        (thenS (session_turn text K) (session_loop (client_stop L) (tick_on L trial) text K n)) (session_result_ok L b K co ob ss)"
        by (rule runs_thenS [OF runs_pre [OF turn_step [OF assms(2), where u = "(co, ob, ss)"]]])
          (auto simp: session_result_ok_def intro: runs_pre [OF Suc.IH])
    qed (auto simp: session_result_ok_def session_inv_def)
    show "runs (\<lambda>x. ?I x \<and> (\<exists>q'. (Inr q :: (sup_error, bool) result) = Inr q' \<and> q' = cl_stop (fst x)))
      (if q then skipS else thenS (session_tick (tick_on L trial) K) (thenS (session_turn text K) (session_loop (client_stop L) (tick_on L trial) text K n)))
      (session_result_ok L b K co ob ss)"
    proof (cases q)
      case True
      then show ?thesis by (auto intro!: runs_skipS simp: session_result_ok_def session_inv_def)
    qed (auto intro: runs_pre [OF t])
  qed auto
qed

text \<open>Between two turns each obtained connection but the one in use has served its session.\<close>

definition spent :: "client \<Rightarrow> bool" where
  "spent s \<longleftrightarrow> cl_obtained s = map fst (cl_sessions s)"

definition settled :: "client \<Rightarrow> bool" where
  "settled s \<longleftrightarrow> cl_obtained s = map fst (cl_sessions s) @ (case cl_connection s of None \<Rightarrow> [] | Some c \<Rightarrow> [c])"

definition online_ok :: "client_link \<Rightarrow> u64 \<Rightarrow> (sup_error, unit) result \<Rightarrow> client \<Rightarrow> bool" where
  "online_ok L b r s \<longleftrightarrow> client_base L b s \<and>
     (case r of Inr _ \<Rightarrow> spent s \<and> cl_stop s | Inl e \<Rightarrow> if e = WarmSwitch then settled s else spent s)"

lemma settled_used: "settled s \<longleftrightarrow> (\<exists>co ss. used s = (co, map fst ss @ (case co of None \<Rightarrow> [] | Some c \<Rightarrow> [c]), ss))"
  by (auto simp: settled_def used_def)

lemma base_session:
  assumes "client_base L b s" "session_fine L x"
  shows "client_base L b (s\<lparr>cl_sessions := cl_sessions s @ [x]\<rparr>)"
  using assms by (simp add: client_base_def)

lemma start_balance: "balance (t_stats (start_tunnel K t f g key ws st)) = balance st"
  by (simp add: start_tunnel_def Let_def balance_def)

lemma session_runs:
  assumes "client_link_ok L"
  shows "runs (\<lambda>s. client_base L b s \<and> used s = (Some c, map fst ss @ [c], ss)) (client_session L n c) (online_ok L b)"
proof (rule runsI)
  fix s s' r assume "client_base L b s \<and> used s = (Some c, map fst ss @ [c], ss)" and m: "client_session L n c s = (s', r)"
  then have i: "client_base L b s" "used s = (Some c, map fst ss @ [c], ss)" by simp_all
  let ?w = "cw_session (ck_world L) (Suc (cl_ev s))" and ?d = "cw_draws (ck_world L) (Suc (Suc (cl_ev s)))"
  define s3 where "s3 = s\<lparr>cl_ev := Suc (Suc (Suc (cl_ev s)))\<rparr>"
  define K where "K = session_link L c ?w"
  define T0 where "T0 = start_tunnel K (cw_clock (ck_world L) (cl_ev s)) (fst ?d) (snd ?d) (server_tx (hs_keys (cn_handshake c))) (cn_ws c) (cl_stats s)"
  obtain s4 T q where l: "session_loop (client_stop L) (tick_on L (peer_trial (cn_handshake c))) (ck_text L) K n (s3, T0) = ((s4, T), q)"
    by (metis surj_pair)
  have e: "s' = s4\<lparr>cl_stats := t_stats T, cl_sessions := cl_sessions s4 @ [(c, ?w, T)]\<rparr>" "r = q"
    using m l by (simp_all add: client_session_def sup_run s3_def K_def T0_def)
  have b3: "client_base L b s3"
    using base_ask [OF assms base_ask [OF assms base_ask [OF assms i(1)]]] by (simp add: s3_def)
  have u3: "used s3 = (Some c, map fst ss @ [c], ss)" using i(2) by (simp add: s3_def)
  have "balance (t_stats T0) = balance (cl_stats s3)" by (simp add: T0_def start_balance s3_def)
  then have b0: "stats_base L b (s3, T0)" using base_stats [of "t_stats T0" "cl_stats s3" L b s3] b3 by (simp add: stats_base_def)
  have f: "connection_fine L c" using i by (simp add: client_base_def used_def)
  have "session_inv K True T0" unfolding T0_def by (rule session_start) (use f in \<open>simp_all add: connection_fine_def\<close>)
  with b0 u3 have p: "stats_base L b (s3, T0) \<and> used (fst (s3, T0)) = (Some c, map fst ss @ [c], ss) \<and> session_inv K True (snd (s3, T0))" by simp
  have k: "link_ok K" using assms by (simp add: client_link_ok_def K_def)
  note o = runsD [OF session_loop_runs [OF assms k] p l]
  then have "session_fine L (c, ?w, T)" "client_base L b (s4\<lparr>cl_stats := t_stats T\<rparr>)"
    by (simp_all add: session_result_ok_def stats_base_def session_fine_def K_def)
  then have "client_base L b s'" using base_session unfolding e(1) by fastforce
  with o show "online_ok L b r s'"
    unfolding e by (auto simp: online_ok_def session_result_ok_def used_def spent_def settled_def split: sum.splits if_splits)
qed

section \<open>A turn of the client\<close>

lemma dial_runs:
  assumes "client_link_ok L"
  shows "runs (\<lambda>s. client_base L b s \<and> used s = (None, map fst ss, ss)) (client_dial L)
    (\<lambda>r s. client_base L b s \<and> (case r of Inr _ \<Rightarrow> \<exists>c. used s = (Some c, map fst ss @ [c], ss) | Inl e \<Rightarrow> e \<noteq> WarmSwitch \<and> spent s))"
proof (rule runsI)
  fix s s' r assume "client_base L b s \<and> used s = (None, map fst ss, ss)" and m: "client_dial L s = (s', r)"
  then have i: "client_base L b s" "used s = (None, map fst ss, ss)" by simp_all
  let ?s1 = "s\<lparr>cl_state := 2, cl_ev := Suc (cl_ev s)\<rparr>"
  have b1: "client_base L b ?s1" using base_ask [OF assms, of b "s\<lparr>cl_state := 2\<rparr>"] i(1) by simp
  show "client_base L b s' \<and> (case r of Inr _ \<Rightarrow> \<exists>c. used s' = (Some c, map fst ss @ [c], ss) | Inl e \<Rightarrow> e \<noteq> WarmSwitch \<and> spent s')"
  proof (cases "cw_dial (ck_world L) (cl_ev s)")
    case (Inl pm)
    then show ?thesis using m b1 i(2) by (cases pm) (auto simp: client_dial_def sup_run spent_def used_def)
  next
    case d: (Inr c)
    show ?thesis
    proof (cases "dial_checks (ck_cfg L) False (cn_handshake c)")
      case None
      have "connection_fine L c" using None d assms by (auto simp: connection_fine_def client_link_ok_def)
      then show ?thesis using None d m b1 i(2) by (auto simp: client_dial_def sup_run used_def client_base_def)
    next
      case (Some e)
      then show ?thesis using d m b1 i(2) by (auto simp: client_dial_def sup_run spent_def used_def)
    qed
  qed
qed

lemma open_runs:
  assumes "client_link_ok L"
  shows "runs (\<lambda>s. client_base L b s \<and> settled s) (withS (\<lambda>s. whenS (cl_connection s = None) (client_dial L)))
    (\<lambda>r s. client_base L b s \<and> (case r of Inr _ \<Rightarrow> \<exists>c ss. used s = (Some c, map fst ss @ [c], ss) | Inl e \<Rightarrow> e \<noteq> WarmSwitch \<and> spent s))"
proof (rule runsI)
  fix s s' r assume i: "client_base L b s \<and> settled s" and m: "withS (\<lambda>s. whenS (cl_connection s = None) (client_dial L)) s = (s', r)"
  show "client_base L b s' \<and> (case r of Inr _ \<Rightarrow> \<exists>c ss. used s' = (Some c, map fst ss @ [c], ss) | Inl e \<Rightarrow> e \<noteq> WarmSwitch \<and> spent s')"
  proof (cases "cl_connection s")
    case (Some c)
    then show ?thesis using i m by (auto simp: sup_run settled_def used_def)
  next
    case None
    then have p: "client_base L b s \<and> used s = (None, map fst (cl_sessions s), cl_sessions s)" and d: "client_dial L s = (s', r)"
      using i m by (simp_all add: sup_run settled_def used_def)
    show ?thesis using runsD [OF dial_runs [OF assms] p d] by (cases r) auto
  qed
qed

lemma online_step:
  assumes "client_link_ok L"
  shows "runs (\<lambda>s. client_base L b s \<and> used s = (Some c, map fst ss @ [c], ss))
    (seqS [statK (\<lambda>st. st\<lparr>st_ptt5_sessions := st_ptt5_sessions st + 1\<rparr>), phaseK 3 7, modS (\<lambda>s. s\<lparr>cl_policy := lr_reset_samples (cl_policy s)\<rparr>),
       client_session L n c]) (online_ok L b)"
proof (rule runsI)
  fix s s' r assume i: "client_base L b s \<and> used s = (Some c, map fst ss @ [c], ss)"
    and m: "seqS [statK (\<lambda>st. st\<lparr>st_ptt5_sessions := st_ptt5_sessions st + 1\<rparr>), phaseK 3 7, modS (\<lambda>s. s\<lparr>cl_policy := lr_reset_samples (cl_policy s)\<rparr>),
       client_session L n c] s = (s', r)"
  let ?t = "s\<lparr>cl_stats := (cl_stats s)\<lparr>st_ptt5_sessions := st_ptt5_sessions (cl_stats s) + 1\<rparr>, cl_state := 3, cl_phase := 7, cl_policy := lr_reset_samples (cl_policy s)\<rparr>"
  have t: "client_session L n c ?t = (s', r)" using m by (auto simp: seqS.simps sup_run split: prod.splits sum.splits)
  have "client_base L b ?t \<and> used ?t = (Some c, map fst ss @ [c], ss)" using i by (simp add: client_base_def)
  then show "online_ok L b r s'" using runsD [OF session_runs [OF assms] _ t] by blast
qed

lemma online_runs:
  assumes "client_link_ok L"
  shows "runs (\<lambda>s. client_base L b s \<and> settled s) (client_online L n) (online_ok L b)"
proof -
  let ?I = "\<lambda>s. client_base L b s \<and> (\<exists>c ss. used s = (Some c, map fst ss @ [c], ss))"
  let ?use = "\<lambda>s. case cl_connection s of None \<Rightarrow> skipS | Some c \<Rightarrow>
      seqS [statK (\<lambda>st. st\<lparr>st_ptt5_sessions := st_ptt5_sessions st + 1\<rparr>), phaseK 3 7, modS (\<lambda>s. s\<lparr>cl_policy := lr_reset_samples (cl_policy s)\<rparr>),
        client_session L n c]"
  have u: "runs ?I (thenS (withS ?use) skipS) (online_ok L b)"
  proof (rule runsI)
    fix s s' r assume i: "?I s" and m: "thenS (withS ?use) skipS s = (s', r)"
    then obtain c ss where c: "used s = (Some c, map fst ss @ [c], ss)" by blast
    then have "cl_connection s = Some c" by (simp add: used_def)
    then have "?use s s = (s', r)" using m by (auto simp: thenS_def bindS_def withS_def skipS_def retS_def split: prod.splits sum.splits)
    then show "online_ok L b r s'" using runsD [OF online_step [OF assms]] i c \<open>cl_connection s = Some c\<close> by fastforce
  qed
  have t: "runs ?I (thenS (bindS (nowK L) (\<lambda>t. modS (\<lambda>s. s\<lparr>cl_started := t\<rparr>))) (thenS (withS ?use) skipS)) (online_ok L b)"
  proof (rule runsI)
    fix s s' r assume i: "?I s" and m: "thenS (bindS (nowK L) (\<lambda>t. modS (\<lambda>s. s\<lparr>cl_started := t\<rparr>))) (thenS (withS ?use) skipS) s = (s', r)"
    let ?t = "s\<lparr>cl_ev := Suc (cl_ev s), cl_started := cw_clock (ck_world L) (cl_ev s)\<rparr>"
    have "thenS (withS ?use) skipS ?t = (s', r)" using m by (simp add: thenS_def bindS_def nowK_def askK_def modS_def)
    moreover have "?I ?t" using i base_ask [OF assms] by simp
    ultimately show "online_ok L b r s'" using runsD [OF u] by blast
  qed
  show ?thesis
    unfolding client_online_def seqS.simps
    by (rule runs_thenS [OF open_runs [OF assms]]) (auto simp: online_ok_def intro: runs_pre [OF t [unfolded seqS.simps]])
qed

text \<open>A candidate that is waited for after a failure.\<close>

lemma await_runs:
  assumes "client_link_ok L"
  shows "runs (\<lambda>s. client_base L b s \<and> used s = (None, map fst ss, ss)) (await_candidate L) (\<lambda>r s. client_base L b s \<and> settled s \<and> (\<exists>q. r = Inr q))"
proof (rule runsI)
  fix s s' r assume "client_base L b s \<and> used s = (None, map fst ss, ss)" and m: "await_candidate L s = (s', r)"
  then have i: "client_base L b s" "used s = (None, map fst ss, ss)" by simp_all
  let ?s1 = "s\<lparr>cl_ev := Suc (cl_ev s)\<rparr>" and ?a = "cw_warm_get (ck_world L) (cl_ev s)"
  have b1: "client_base L b ?s1" using base_ask [OF assms i(1)] .
  show "client_base L b s' \<and> settled s' \<and> (\<exists>q. r = Inr q)"
  proof (cases "cl_warm s")
    case False
    then show ?thesis using m i by (auto simp: await_candidate_def sup_run settled_def used_def)
  next
    case w: True
    show ?thesis
    proof (cases "\<exists>c. ?a = Inr c \<and> dial_checks (ck_cfg L) True (cn_handshake c) = None")
      case False
      let ?f = "?s1\<lparr>cl_warm := False, cl_ev := Suc (Suc (cl_ev s)), cl_recovery := bo_failed (cw_clock (ck_world L) (Suc (cl_ev s))) (cl_recovery s),
        cl_stats := (cl_stats s)\<lparr>st_candidate_failures := st_candidate_failures (cl_stats s) + 1\<rparr>\<rparr>"
      have e: "s' = ?f \<and> r = Inr False"
        using m w False by (cases ?a) (auto simp: await_candidate_def candidate_failed_def sup_run split: option.splits)
      have "client_base L b ?f" by (rule base_failed [OF assms b1]) (use w in \<open>simp_all add: balance_def\<close>)
      moreover have "settled ?f" using i(2) by (simp add: settled_def used_def)
      ultimately show ?thesis using e by blast
    next
      case True
      then obtain c where c: "?a = Inr c" "dial_checks (ck_cfg L) True (cn_handshake c) = None" by blast
      let ?g = "?s1\<lparr>cl_warm := False, cl_connection := Some c, cl_obtained := cl_obtained s @ [c], cl_ev := Suc (Suc (cl_ev s)),
        cl_recovery := bo_succeeded (cw_clock (ck_world L) (Suc (cl_ev s))) (cl_recovery s),
        cl_stats := (cl_stats s)\<lparr>st_candidate_successes := st_candidate_successes (cl_stats s) + 1\<rparr>\<rparr>"
      let ?stop = "cl_stop s \<or> cw_stop (ck_world L) (Suc (Suc (cl_ev s)))"
      have f: "connection_fine L c" using c assms background_fine by (auto simp: connection_fine_def client_link_ok_def)
      have g: "client_base L b ?g" by (rule base_succeeded [OF assms b1 _ f]) (use w in \<open>simp_all add: balance_def\<close>)
      have "settled ?g" using i(2) by (simp add: settled_def used_def)
      moreover have "client_base L b (?g\<lparr>cl_ev := Suc (cl_ev ?g)\<rparr>)" by (rule base_ask [OF assms g])
      moreover have "s' = ?g\<lparr>cl_ev := Suc (cl_ev ?g), cl_stop := ?stop\<rparr> \<and> r = Inr False \<or>
          s' = ?g\<lparr>cl_ev := Suc (cl_ev ?g), cl_stop := ?stop, cl_stats := (cl_stats ?g)\<lparr>st_reconnects := st_reconnects (cl_stats ?g) + 1\<rparr>\<rparr> \<and> r = Inr True"
        using m w c by (auto simp: await_candidate_def seqS.simps sup_run split: if_splits)
      ultimately show ?thesis by (auto simp: settled_def client_base_def)
    qed
  qed
qed

section \<open>The loop of the client\<close>

lemma jittered_bounds:
  assumes "1 \<le> d0" "d0 \<le> m" "0 \<le> pct" "\<And>d. 0 \<le> d \<Longrightarrow> - d \<le> draw d \<and> draw d \<le> d"
  shows "1 \<le> jittered d0 pct draw \<and> jittered d0 pct draw \<le> m + m * pct sdiv 100"
proof -
  have d: "d0 * pct sdiv 100 = d0 * pct div 100" "m * pct sdiv 100 = m * pct div 100" using assms(1-3) by (simp_all add: signed_divide_int_def sgn_if)
  have "d0 * pct \<le> m * pct" using assms(2,3) by (simp add: mult_right_mono)
  then have "d0 * pct div 100 \<le> m * pct div 100" by (rule zdiv_mono1) simp
  moreover have "0 \<le> d0 * pct div 100" using assms(1,3) by (simp add: pos_imp_zdiv_nonneg_iff)
  ultimately show ?thesis using assms(1,2) assms(4) [of "d0 * pct div 100"] unfolding jittered_def Let_def d by auto
qed

lemma retry_runs:
  assumes "client_link_ok L"
  shows "runs (\<lambda>s. client_base L b s \<and> settled s) (client_retry L m) (\<lambda>r s. client_base L b s \<and> settled s \<and> r = Inr ())"
proof (rule runsI)
  fix s s' r assume "client_base L b s \<and> settled s" and e: "client_retry L m s = (s', r)"
  then have i: "client_base L b s" "settled s" by simp_all
  let ?w = "jittered (cl_delay s) (reconnect_jitter_pct (ck_cfg L)) (cw_jitter (ck_world L) (cl_ev s))"
  let ?t = "s\<lparr>cl_ev := Suc (cl_ev s), cl_waits := cl_waits s @ [?w], cl_delay := min (cl_delay s * 2) (reconnect_max_ms (ck_cfg L)),
    cl_stats := classify_reconnect m ((cl_stats s)\<lparr>st_reconnects := st_reconnects (cl_stats s) + 1\<rparr>),
    cl_events := event ''failure'' (cl_events s), cl_state := 4, cl_phase := 8\<rparr>"
  have t: "s' = ?t \<and> r = Inr ()" using e by (auto simp: client_retry_def seqS.simps sup_run)
  have k: "waits_ok (ck_cfg L) (cl_delay s) (cl_waits s)" using i by (simp add: client_base_def)
  have "1 \<le> ?w \<and> ?w \<le> reconnect_max_ms (ck_cfg L) + reconnect_max_ms (ck_cfg L) * reconnect_jitter_pct (ck_cfg L) sdiv 100"
    by (rule jittered_bounds) (use k assms in \<open>auto simp: waits_ok_def client_link_ok_def\<close>)
  then have "waits_ok (ck_cfg L) (cl_delay ?t) (cl_waits ?t)" using k assms by (auto simp: waits_ok_def client_link_ok_def)
  moreover have "client_base L b (s\<lparr>cl_ev := Suc (cl_ev s)\<rparr>)" by (rule base_ask [OF assms i(1)])
  ultimately have "client_base L b ?t" by (simp add: client_base_def)
  with t i show "client_base L b s' \<and> settled s' \<and> r = Inr ()" by (simp add: settled_def)
qed

lemma failed_runs:
  assumes "client_link_ok L"
  shows "runs (\<lambda>s. client_base L b s \<and> spent s) (client_failed L m) (\<lambda>r s. client_base L b s \<and> settled s \<and> r = Inr ())"
proof -
  let ?I = "\<lambda>s. client_base L b s \<and> settled s"
  have stop: "runs ?I (stopK L) (\<lambda>r s. ?I s \<and> (\<exists>q. r = Inr q))"
    using base_ask [OF assms] by (auto intro!: runsI simp: sup_run settled_def)
  have tail: "runs ?I (bindS (stopK L) (\<lambda>b. whenS (\<not> b) (client_retry L m))) (\<lambda>r s. client_base L b s \<and> settled s \<and> r = Inr ())"
    by (rule runs_bindS [OF stop]) (auto intro!: runs_whenS runs_pre [OF retry_runs [OF assms], of _ b])
  have await: "runs (\<lambda>s. client_base L b s \<and> spent s \<and> cl_connection s = None) (await_candidate L) (\<lambda>r s. ?I s \<and> (\<exists>q. r = Inr q))"
    using await_runs [OF assms, of b] unfolding runs_def used_def spent_def by (metis (no_types, lifting))
  have last: "runs (\<lambda>s. client_base L b s \<and> spent s \<and> cl_connection s = None)
      (bindS (await_candidate L) (\<lambda>kept. whenS (\<not> kept) (bindS (stopK L) (\<lambda>b. whenS (\<not> b) (client_retry L m))))) (\<lambda>r s. client_base L b s \<and> settled s \<and> r = Inr ())"
    by (rule runs_bindS [OF await]) (auto intro!: runs_whenS runs_pre [OF tail])
  show ?thesis
  proof (rule runsI)
    fix s s' r assume i: "client_base L b s \<and> spent s" and e: "client_failed L m s = (s', r)"
    let ?t = "s\<lparr>cl_state := 4, cl_phase := 8, cl_stats := (cl_stats s)\<lparr>st_rtt_us := - 1, st_rtt_sample_us := 0\<rparr>, cl_connection := None\<rparr>"
    have "bindS (await_candidate L) (\<lambda>kept. whenS (\<not> kept) (bindS (stopK L) (\<lambda>b. whenS (\<not> b) (client_retry L m)))) ?t = (s', r)"
      using e by (auto simp: client_failed_def seqS.simps thenS_def modS_def statK_def phaseK_def bindS_def skipS_def retS_def split: prod.splits sum.splits)
    moreover have "client_base L b ?t \<and> spent ?t \<and> cl_connection ?t = None" using i by (simp add: client_base_def spent_def)
    ultimately show "client_base L b s' \<and> settled s' \<and> r = Inr ()" using runsD [OF last, of ?t] by blast
  qed
qed

text \<open>After a turn the client goes on with a state in order, or it was stopped; \<open>CutOff\<close> only ends a session that is cut off.\<close>

definition turn_ok :: "client_link \<Rightarrow> u64 \<Rightarrow> (sup_error, unit) result \<Rightarrow> client \<Rightarrow> bool" where
  "turn_ok L b r s \<longleftrightarrow> client_base L b s \<and> (case r of Inr _ \<Rightarrow> settled s \<or> spent s \<and> cl_stop s | Inl e \<Rightarrow> e = CutOff \<and> spent s)"

lemma client_turn_runs:
  assumes "client_link_ok L"
  shows "runs (\<lambda>s. client_base L b s \<and> settled s) (client_turn L n) (turn_ok L b)"
proof -
  have c: "runs (\<lambda>s. client_base L b s \<and> settled s)
    (catchS (client_online L n) (\<lambda>e. case e of WarmSwitch \<Rightarrow> skipS | SupFail m \<Rightarrow> client_failed L m | CutOff \<Rightarrow> throwS CutOff)) (turn_ok L b)"
  proof (rule runs_catchS [OF online_runs [OF assms]])
    show "runs (online_ok L b (Inl e)) (case e of WarmSwitch \<Rightarrow> skipS | SupFail m \<Rightarrow> client_failed L m | CutOff \<Rightarrow> throwS CutOff) (turn_ok L b)" for e
    proof (cases e)
      case WarmSwitch
      then show ?thesis by (auto intro!: runs_skipS simp: online_ok_def turn_ok_def)
    next
      case (SupFail m)
      have "runs (\<lambda>s. client_base L b s \<and> spent s) (client_failed L m) (turn_ok L b)"
        by (rule runs_post [OF failed_runs [OF assms]]) (simp add: turn_ok_def)
      then show ?thesis using SupFail by (auto intro: runs_pre simp: online_ok_def)
    next
      case CutOff
      then show ?thesis by (auto intro!: runs_throwS simp: online_ok_def turn_ok_def)
    qed
  qed (simp add: online_ok_def turn_ok_def)
  show ?thesis
  proof (rule runsI)
    fix s s' r assume i: "client_base L b s \<and> settled s" and m: "client_turn L n s = (s', r)"
    let ?t = "s\<lparr>cl_ev := Suc (cl_ev s), cl_started := cw_clock (ck_world L) (cl_ev s)\<rparr>"
    have "client_base L b ?t \<and> settled ?t" using i base_ask [OF assms] by (simp add: settled_def)
    moreover have "catchS (client_online L n) (\<lambda>e. case e of WarmSwitch \<Rightarrow> skipS | SupFail m \<Rightarrow> client_failed L m | CutOff \<Rightarrow> throwS CutOff) ?t = (s', r)"
      using m by (simp add: client_turn_def thenS_def bindS_def nowK_def askK_def modS_def)
    ultimately show "turn_ok L b r s'" using runsD [OF c] by blast
  qed
qed

lemma stopped_ends: "cl_stop s \<Longrightarrow> client_loop_n L n k s = (s', r) \<Longrightarrow> r = Inr () \<and> (s' = s \<or> s' = s\<lparr>cl_ev := Suc (cl_ev s)\<rparr>)"
  by (cases k) (auto simp: sup_run split: if_splits)

lemma client_loop_runs:
  assumes "client_link_ok L"
  shows "runs (\<lambda>s. client_base L b s \<and> settled s) (client_loop_n L n k) (turn_ok L b)"
proof (induction k)
  case 0
  then show ?case by (auto intro!: runs_skipS simp: turn_ok_def)
next
  case (Suc k)
  have rest: "runs (turn_ok L b (Inr ())) (client_loop_n L n k) (turn_ok L b)"
  proof (rule runsI)
    fix s s' r assume i: "turn_ok L b (Inr ()) s" and m: "client_loop_n L n k s = (s', r)"
    show "turn_ok L b r s'"
    proof (cases "settled s")
      case True
      then show ?thesis using i runsD [OF Suc.IH _ m] by (simp add: turn_ok_def)
    next
      case False
      then have b: "client_base L b s" "spent s" "cl_stop s" using i by (simp_all add: turn_ok_def)
      then show ?thesis using stopped_ends [OF b(3) m] base_ask [OF assms b(1)] by (auto simp: turn_ok_def spent_def)
    qed
  qed
  have turn: "runs (\<lambda>s. client_base L b s \<and> settled s) (thenS (client_turn L n) (client_loop_n L n k)) (turn_ok L b)"
    by (rule runs_thenS [OF client_turn_runs [OF assms] rest]) simp
  have stop: "runs (\<lambda>s. client_base L b s \<and> settled s) (stopK L) (\<lambda>r s. (client_base L b s \<and> settled s) \<and> (\<exists>q. r = Inr q))"
    using base_ask [OF assms] by (auto intro!: runsI simp: sup_run settled_def)
  have skip: "runs (\<lambda>s. client_base L b s \<and> settled s) skipS (turn_ok L b)" by (rule runs_skipS) (simp add: turn_ok_def)
  have "runs (\<lambda>s. client_base L b s \<and> settled s) (bindS (stopK L) (\<lambda>q. if q then skipS else thenS (client_turn L n) (client_loop_n L n k))) (turn_ok L b)"
  proof (rule runs_bindS [OF stop])
    show "runs (\<lambda>s. (client_base L b s \<and> settled s) \<and> (\<exists>q'. Inr q = Inr q')) (if q then skipS else thenS (client_turn L n) (client_loop_n L n k)) (turn_ok L b)" for q
      by (cases q) (auto intro: runs_pre [OF skip] runs_pre [OF turn])
  qed auto
  with skip show ?case by simp
qed

lemma start_client_base:
  assumes "client_link_ok L"
  shows "client_base L (balance st) (start_client L st)" "settled (start_client L st)"
  using assms by (simp_all add: start_client_def client_base_def settled_def paced_def waits_ok_def client_link_ok_def)

end
