(* ===== verification/ClientProps.thy ===== *)
theory ClientProps
  imports SupervisorRun
begin

text \<open>
  What the client of one connection promises over every run of its loop, and a run in which the first dial fails, the connection
  of the second is lost while a candidate is under way, and the candidate takes over.
\<close>

section \<open>A concrete client\<close>

definition client_cfg :: config where
  "client_cfg = demo_cfg\<lparr>mode := ''client'', reply_renew_sec := 0\<rparr>"

definition demo_client_handshake :: ws_handshake_result where
  "demo_client_handshake = \<lparr>hs_keys = \<lparr>client_tx = demo_key, server_tx = demo_key, auth = demo_key\<rparr>, peer_padding = False, peer_envelope = False,
     hs_confirmed = True, peer_trial = True, trial_max_rtt_us = 0, psk_index = 0, hs_pool_connections = 1, client_nonce = [], server_nonce = []\<rparr>"

definition client_connection :: connection where
  "client_connection = \<lparr>cn_ws = new_session True, cn_handshake = demo_client_handshake\<rparr>"

text \<open>In the sessions the call of \<open>poll\<close> fails.\<close>

definition client_session_world :: world where
  "client_session_world = demo_world\<lparr>w_poll := (\<lambda>_ _ _. PollFailed)\<rparr>"

definition demo_client_world :: client_world where
  "demo_client_world = \<lparr>cw_clock = (\<lambda>_. 100000000), cw_stop = (\<lambda>k. 24 \<le> k),
     cw_dial = (\<lambda>k. if k < 5 then Inl (2, ''TCP connection timed out'') else Inr client_connection), cw_warm = (\<lambda>_. DialPending),
     cw_warm_get = (\<lambda>_. Inr client_connection), cw_jitter = (\<lambda>_ _. 0), cw_session = (\<lambda>_. client_session_world),
     cw_draws = (\<lambda>_. (\<lambda>_. 0, \<lambda>_. 0))\<rparr>"

definition demo_client :: client_link where
  "demo_client = \<lparr>ck_cfg = client_cfg, ck_crypto = demo_crypto, ck_round = (\<lambda>x. x), ck_text = (\<lambda>_. ''error''), ck_world = demo_client_world\<rparr>"

lemma demo_client_ok: "client_link_ok demo_client"
  using new_session_invar [of True]
  by (auto simp: client_link_ok_def demo_client_def demo_client_world_def client_cfg_def demo_cfg_def default_config_def client_connection_def
      session_link_def link_ok_def client_session_world_def demo_world_def mask4_def io_ok_def mono_def pending_def new_session_def split: if_splits)

lemma demo_client_simps [simp]:
  "ck_cfg demo_client = client_cfg" "ck_crypto demo_client = demo_crypto" "ck_world demo_client = demo_client_world"
  "reply_renew_sec client_cfg = 0" "reconnect_initial_ms client_cfg = 500" "reconnect_max_ms client_cfg = 15000" "reconnect_jitter_pct client_cfg = 20"
  "max_connections client_cfg = 1" "websocket_control_padding_bytes client_cfg = 0" "websocket_padding_max_bytes client_cfg = 0"
  "cw_clock demo_client_world = (\<lambda>_. 100000000)" "cw_stop demo_client_world = (\<lambda>k. 24 \<le> k)"
  "cw_dial demo_client_world = (\<lambda>k. if k < 5 then Inl (2, ''TCP connection timed out'') else Inr client_connection)"
  "cw_warm_get demo_client_world = (\<lambda>_. Inr client_connection)" "cw_jitter demo_client_world = (\<lambda>_ _. 0)"
  "cw_session demo_client_world = (\<lambda>_. client_session_world)" "cw_draws demo_client_world = (\<lambda>_. (\<lambda>_. 0, \<lambda>_. 0))"
  "cn_ws client_connection = new_session True" "cn_handshake client_connection = demo_client_handshake" "hs_confirmed demo_client_handshake" "peer_trial demo_client_handshake"
  "hs_keys demo_client_handshake = \<lparr>client_tx = demo_key, server_tx = demo_key, auth = demo_key\<rparr>"
  by (simp_all add: demo_client_def demo_client_world_def client_cfg_def demo_cfg_def default_config_def client_connection_def demo_client_handshake_def)

lemma client_checks: "dial_checks client_cfg q demo_client_handshake = None"
  by (simp add: dial_checks_def)

abbreviation demo_session :: link where
  "demo_session \<equiv> session_link demo_client client_connection client_session_world"

lemma demo_session_simps [simp]:
  "lk_cfg demo_session = client_cfg" "lk_crypto demo_session = demo_crypto" "w_clock (lk_world demo_session) = (\<lambda>_. 100000000)"
  "w_pad (lk_world demo_session) = (\<lambda>_. demo_rng)" "w_io (lk_world demo_session) = (\<lambda>_ _ c. (Wrote (length c), 100000))"
  "w_poll (lk_world demo_session) = (\<lambda>_ _ _. PollFailed)" "w_tick (lk_world demo_session) = (\<lambda>_. None)" "w_force (lk_world demo_session) = (\<lambda>_. False)"
  "w_ready (lk_world demo_session) = (\<lambda>_. True)"
  by (simp_all add: session_link_def demo_client_def client_session_world_def demo_world_def)

lemma client_cfg_simps [simp]:
  "reply_degraded_sec client_cfg = 10" "reply_timeout_sec client_cfg = 60" "adaptive_batching client_cfg = False" "queue_delay_ms client_cfg = 500"
  "flow_scheduler client_cfg = False" "traffic_shaping client_cfg = False" "batch_packets client_cfg = 1"
  by (simp_all add: client_cfg_def)

lemma demo_session_turn:
  "\<exists>T'. tunnel_turn demo_session ((start_tunnel demo_session 100000000 f g key (new_session True) st)\<lparr>t_stats := st'\<rparr>) = (T', Inl (TunFail ''poll failed''))"
  apply (simp add: tunnel_turn_def check_watchdog_def run_simps Let_def wd_age_us_def start_tunnel_def
      drop_delayed_def note_queues_def new_queue_def effective_batch_packets_def elapsed_ms_def elapsed_def)
  apply (simp add: carrier_run run_simps Let_def)
  apply (simp add: drain_pending_def flush_carrier_def poll_step_def run_simps carrier_run Let_def fq_empty_def)
  done

lemmas client_eval = client_turn_def client_online_def client_dial_def client_failed_def await_candidate_def client_retry_def jittered_def seqS.simps
  bindS_def thenS_def retS_def modS_def withS_def skipS_def throwS_def whenS_def askK_def nowK_def statK_def eventK_def obtained_def phaseK_def stopK_def
  client_stop_def catchS_def

lemma demo_first:
  assumes "cl_ev s = 1" "\<not> cl_stop s" "cl_connection s = None" "\<not> cl_warm s" "cl_delay s = 500"
  shows "\<exists>s'. client_turn demo_client 1 s = (s', Inr ()) \<and> cl_ev s' = 5 \<and> \<not> cl_stop s' \<and>
      cl_connection s' = None \<and> \<not> cl_warm s' \<and> cl_recovery s' = cl_recovery s \<and> cl_obtained s' = cl_obtained s \<and>
      cl_sessions s' = cl_sessions s \<and> cl_attempts s' = cl_attempts s \<and> cl_waits s' = cl_waits s @ [500]"
  using assms by (simp add: client_eval)

lemma demo_tick:
  assumes "\<not> cl_warm s" "bo_next (cl_recovery s) = 0"
  shows "\<exists>s'. client_tick demo_client True s = (s', Inr ()) \<and> cl_ev s' = cl_ev s + 2 \<and> cl_stop s' = cl_stop s \<and> cl_warm s' \<and> used s' = used s \<and>
    cl_attempts s' = cl_attempts s @ [100000000] \<and> cl_waits s' = cl_waits s"
  using assms
  by (simp add: client_tick_def poll_warm_def consider_candidate_def wants_candidate_def bo_ready_def start_candidate_def seqS.simps Let_def
      bindS_def thenS_def retS_def modS_def withS_def whenS_def skipS_def askK_def nowK_def statK_def eventK_def used_def)

lemma demo_session_lost:
  assumes "\<not> cl_stop s" "cl_ev s = 9" "\<not> cl_warm s" "bo_next (cl_recovery s) = 0"
  shows "\<exists>s' w T. client_session demo_client 1 client_connection s = (s', Inl (SupFail ''poll failed'')) \<and> cl_ev s' = 15 \<and> \<not> cl_stop s' \<and> cl_warm s' \<and>
    used s' = (cl_connection s, cl_obtained s, cl_sessions s @ [(client_connection, w, T)]) \<and> cl_attempts s' = cl_attempts s @ [100000000] \<and>
    cl_waits s' = cl_waits s"
proof -
  let ?s = "s\<lparr>cl_ev := 12\<rparr>"
  let ?T = "start_tunnel demo_session 100000000 (\<lambda>_. 0) (\<lambda>_. 0) demo_key (new_session True) (cl_stats s)"
  let ?t = "s\<lparr>cl_ev := 13, cl_stop := False, cl_stats := pending_age demo_session ?T\<rparr>"
  obtain s1 where s1: "client_tick demo_client True ?t = (s1, Inr ())" "cl_ev s1 = 15" "\<not> cl_stop s1" "cl_warm s1" "used s1 = used s"
    "cl_attempts s1 = cl_attempts s @ [100000000]" "cl_waits s1 = cl_waits s"
    using demo_tick [of ?t] assms by auto
  obtain T' where T': "tunnel_turn demo_session (?T\<lparr>t_stats := cl_stats s1\<rparr>) = (T', Inl (TunFail ''poll failed''))"
    using demo_session_turn by blast
  have stop: "client_stop demo_client ?s = (s\<lparr>cl_ev := 13, cl_stop := False\<rparr>, False)" using assms by (simp add: client_stop_def)
  have "session_loop (client_stop demo_client) (tick_on demo_client True) (ck_text demo_client) demo_session 1 (?s, ?T) =
    ((s1, T'), Inl (SupFail ''poll failed''))"
    using stop s1(1) T' by (simp add: session_stop_def session_tick_def tick_on_def session_turn_def tun_what_def bindS_def thenS_def)
  then have "client_session demo_client 1 client_connection s =
      (s1\<lparr>cl_stats := t_stats T', cl_sessions := cl_sessions s1 @ [(client_connection, client_session_world, T')]\<rparr>, Inl (SupFail ''poll failed''))"
    using assms by (simp add: client_session_def bindS_def nowK_def askK_def Let_def)
  then show ?thesis using s1 by (auto simp: used_def)
qed

lemma demo_session_stopped:
  assumes "\<not> cl_stop s" "cl_ev s = 21"
  shows "\<exists>s' w T. client_session demo_client 1 client_connection s = (s', Inr ()) \<and> cl_stop s' \<and> 
    used s' = (cl_connection s, cl_obtained s, cl_sessions s @ [(client_connection, w, T)]) \<and> cl_attempts s' = cl_attempts s \<and> cl_waits s' = cl_waits s"
  using assms by (simp add: client_session_def bindS_def nowK_def askK_def Let_def session_stop_def client_stop_def skipS_def retS_def used_def)

text \<open>The second turn loses the connection while the candidate is dialled, which then takes over; the third ends with the stop.\<close>

lemma demo_second:
  assumes "\<not> cl_stop s" "cl_ev s = 6" "\<not> cl_warm s" "bo_next (cl_recovery s) = 0" "cl_connection s = None"
  shows "\<exists>s' w T. client_turn demo_client 1 s = (s', Inr ()) \<and> cl_ev s' = 18 \<and> \<not> cl_stop s' \<and>
    used s' = (Some client_connection, cl_obtained s @ [client_connection, client_connection], cl_sessions s @ [(client_connection, w, T)]) \<and>
    cl_attempts s' = cl_attempts s @ [100000000] \<and> cl_waits s' = cl_waits s"
proof -
  let ?s = "s\<lparr>cl_connection := Some client_connection, cl_obtained := cl_obtained s @ [client_connection], cl_ev := 9, cl_started := 100000000,
    cl_stats := (cl_stats s)\<lparr>st_ptt5_sessions := st_ptt5_sessions (cl_stats s) + 1\<rparr>, cl_state := 3, cl_phase := 7,
    cl_policy := lr_reset_samples (cl_policy s)\<rparr>"
  obtain s' w T where s': "client_session demo_client 1 client_connection ?s = (s', Inl (SupFail ''poll failed''))" "cl_ev s' = 15" "\<not> cl_stop s'" "cl_warm s'"
    "used s' = (Some client_connection, cl_obtained s @ [client_connection], cl_sessions s @ [(client_connection, w, T)])"
    "cl_attempts s' = cl_attempts s @ [100000000]" "cl_waits s' = cl_waits s"
    using demo_session_lost [of ?s] assms by auto
  have "client_online demo_client 1 (s\<lparr>cl_ev := 7, cl_started := 100000000\<rparr>) = (s', Inl (SupFail ''poll failed''))"
    using assms s'(1) by (simp add: client_online_def client_dial_def seqS.simps bindS_def thenS_def retS_def modS_def withS_def whenS_def
      askK_def nowK_def statK_def phaseK_def obtained_def client_checks)
  then have "client_turn demo_client 1 s = client_failed demo_client ''poll failed'' s'"
    using assms by (simp add: client_turn_def thenS_def bindS_def nowK_def askK_def modS_def catchS_def)
  moreover have "\<exists>s''. client_failed demo_client ''poll failed'' s' = (s'', Inr ()) \<and> cl_ev s'' = 18 \<and> \<not> cl_stop s'' \<and> cl_connection s'' = Some client_connection \<and>
      cl_obtained s'' = cl_obtained s' @ [client_connection] \<and> cl_sessions s'' = cl_sessions s' \<and> cl_attempts s'' = cl_attempts s' \<and> cl_waits s'' = cl_waits s'"
    using s'(2-4) by (simp add: client_failed_def await_candidate_def client_eval client_checks)
  ultimately show ?thesis using s' by (auto simp: used_def)
qed

lemma demo_third:
  assumes "\<not> cl_stop s" "cl_ev s = 19" "cl_connection s = Some client_connection"
  shows "\<exists>s' w T. client_turn demo_client 1 s = (s', Inr ()) \<and> cl_stop s' \<and>
    used s' = (cl_connection s, cl_obtained s, cl_sessions s @ [(client_connection, w, T)]) \<and> cl_attempts s' = cl_attempts s \<and> cl_waits s' = cl_waits s"
proof -
  let ?s = "s\<lparr>cl_ev := 21, cl_started := 100000000,
    cl_stats := (cl_stats s)\<lparr>st_ptt5_sessions := st_ptt5_sessions (cl_stats s) + 1\<rparr>, cl_state := 3, cl_phase := 7, cl_policy := lr_reset_samples (cl_policy s)\<rparr>"
  obtain s' w T where s': "client_session demo_client 1 client_connection ?s = (s', Inr ())" "cl_stop s'"
    "used s' = (cl_connection s, cl_obtained s, cl_sessions s @ [(client_connection, w, T)])" "cl_attempts s' = cl_attempts s" "cl_waits s' = cl_waits s"
    using demo_session_stopped [of ?s] assms by auto
  have "client_turn demo_client 1 s = (s', Inr ())"
    using assms s'(1) by (simp add: client_turn_def client_online_def seqS.simps bindS_def thenS_def retS_def modS_def withS_def whenS_def skipS_def
      askK_def nowK_def statK_def phaseK_def catchS_def)
  with s' show ?thesis by blast
qed

lemma client_loop_step:
  assumes "max_connections (ck_cfg L) = 1" "\<not> cl_stop s" "\<not> cw_stop (ck_world L) (cl_ev s)" "client_turn L n (s\<lparr>cl_ev := Suc (cl_ev s), cl_stop := False\<rparr>) = (s', Inr ())"
  shows "client_loop_n L n (Suc k) s = client_loop_n L n k s'"
  using assms by (simp add: stopK_def client_stop_def bindS_def thenS_def)

lemma demo_client_run:
  obtains s x y where "client_loop_n demo_client 1 4 (start_client demo_client new_stats) = (s, Inr ())"
    "cl_obtained s = [client_connection, client_connection]" "cl_sessions s = [(client_connection, x), (client_connection, y)]"
    "cl_attempts s = [100000000]" "cl_waits s = [500]"
proof -
  let ?s0 = "start_client demo_client new_stats"
  obtain s1 where s1: "client_turn demo_client 1 (?s0\<lparr>cl_ev := 1, cl_stop := False\<rparr>) = (s1, Inr ())" "cl_ev s1 = 5" "\<not> cl_stop s1" "cl_connection s1 = None"
      "\<not> cl_warm s1" "cl_recovery s1 = new_backoff" "cl_obtained s1 = []" "cl_sessions s1 = []" "cl_attempts s1 = []" "cl_waits s1 = [500]"
    using demo_first [of "?s0\<lparr>cl_ev := 1, cl_stop := False\<rparr>"] by (auto simp: start_client_def)
  obtain s2 w T where s2: "client_turn demo_client 1 (s1\<lparr>cl_ev := 6, cl_stop := False\<rparr>) = (s2, Inr ())" "cl_ev s2 = 18" "\<not> cl_stop s2"
      "used s2 = (Some client_connection, [client_connection, client_connection], [(client_connection, w, T)])" "cl_attempts s2 = [100000000]" "cl_waits s2 = [500]"
    using demo_second [of "s1\<lparr>cl_ev := 6, cl_stop := False\<rparr>"] s1 by (auto simp: new_backoff_def)
  obtain s3 w' T' where s3: "client_turn demo_client 1 (s2\<lparr>cl_ev := 19, cl_stop := False\<rparr>) = (s3, Inr ())" "cl_stop s3"
      "used s3 = (cl_connection s2, cl_obtained s2, cl_sessions s2 @ [(client_connection, w', T')])" "cl_attempts s3 = [100000000]" "cl_waits s3 = [500]"
    using demo_third [of "s2\<lparr>cl_ev := 19, cl_stop := False\<rparr>"] s2 by (auto simp: used_def)
  have "client_loop_n demo_client 1 (Suc 3) ?s0 = client_loop_n demo_client 1 (Suc 2) s1"
    using client_loop_step [of demo_client ?s0 1 s1 3] s1(1) by (simp add: start_client_def numeral_3_eq_3 numeral_2_eq_2 del: client_loop_n.simps)
  also have "\<dots> = client_loop_n demo_client 1 (Suc 1) s2"
    using client_loop_step [of demo_client s1 1 s2 2] s1 s2(1) by (simp add: numeral_2_eq_2 del: client_loop_n.simps)
  also have "\<dots> = client_loop_n demo_client 1 (Suc 0) s3" using client_loop_step [of demo_client s2 1 s3 1] s2 s3(1) by (simp del: client_loop_n.simps)
  also have "\<dots> = (s3\<lparr>cl_ev := Suc (cl_ev s3)\<rparr>, Inr ())" using s3(2) by (simp add: stopK_def client_stop_def bindS_def skipS_def retS_def)
  finally have r: "client_loop_n demo_client 1 4 ?s0 = (s3\<lparr>cl_ev := Suc (cl_ev s3)\<rparr>, Inr ())"
    by (simp del: client_loop_n.simps)
  show ?thesis by (rule that [OF r]) (use s2 s3 in \<open>auto simp: used_def\<close>)
qed

section \<open>Properties\<close>

lemma client_result:
  assumes "client_link_ok L" "client_loop_n L n k (start_client L st) = (s, r)"
  shows "turn_ok L (balance st) r s"
  using runsD [OF client_loop_runs [OF assms(1)] _ assms(2)] start_client_base [OF assms(1)] by blast

lemma turn_ok_lists:
  assumes "turn_ok L b r s"
  shows "prefix (map fst (cl_sessions s)) (cl_obtained s)" "length (cl_obtained s) \<le> Suc (length (cl_sessions s))"
  using assms by (auto simp: turn_ok_def settled_def spent_def split: sum.splits option.splits)

lemma session_fine_records:
  assumes "session_fine L (c, w, T)"
  shows "sorted_wrt (<) (map fst (t_log T))"
    "\<forall>(q, f, p, rec) \<in> set (t_log T). sent_v5 (ck_crypto L) (client_tx (hs_keys (cn_handshake c))) rec (f, q, p)"
  using assms by (auto simp: session_fine_def session_end_def records_ok_def made_ok_def session_link_def)

text \<open>
  C9: the client over its whole life, whatever dials, candidates and sessions do. No exception leaves its loop (\<open>CutOff\<close> only says that a
  session was still running after its \<open>n\<close> turns). The connections it obtained serve in the order in which they were obtained, each in
  one session and none twice; at most the last has not served yet. Each one that served has passed the checks of \<open>dial_websocket\<close>, and
  in its session the sequence numbers strictly increase and every record is one of the PTT5 encoders' under the transmit key of that connection's
  own handshake, also when a candidate took over.
\<close>

theorem client_sessions:
  assumes "client_link_ok L" "client_loop_n L n k (start_client L st) = (s, r)"
  shows "(r = Inr () \<or> r = Inl CutOff) \<and> prefix (map fst (cl_sessions s)) (cl_obtained s) \<and> length (cl_obtained s) \<le> Suc (length (cl_sessions s)) \<and>
    (\<forall>(c, w, T) \<in> set (cl_sessions s). dial_checks (ck_cfg L) False (cn_handshake c) = None \<and> sorted_wrt (<) (map fst (t_log T)) \<and>
      (\<forall>(q, f, p, rec) \<in> set (t_log T). sent_v5 (ck_crypto L) (client_tx (hs_keys (cn_handshake c))) rec (f, q, p)))"
proof -
  have t: "turn_ok L (balance st) r s" by (rule client_result [OF assms])
  then have b: "client_base L (balance st) s" by (simp add: turn_ok_def)
  have "dial_checks (ck_cfg L) False (cn_handshake c) = None \<and> session_fine L (c, w, T)" if x: "(c, w, T) \<in> set (cl_sessions s)" for c w T
  proof -
    have "c \<in> set (cl_obtained s)" using x set_mono_prefix [OF turn_ok_lists(1) [OF t]] by force
    with b x show ?thesis by (auto simp: client_base_def connection_fine_def)
  qed
  moreover have "r = Inr () \<or> r = Inl CutOff" using t by (cases r) (auto simp: turn_ok_def)
  ultimately show ?thesis using turn_ok_lists [OF t] session_fine_records by blast
qed

theorem client_sessions_witness:
  "\<exists>s T. client_loop_n demo_client 1 4 (start_client demo_client new_stats) = (s, Inr ()) \<and>
    map fst (cl_sessions s) = [client_connection, client_connection] \<and> cl_obtained s = [client_connection, client_connection] \<and>
    snd (snd (hd (cl_sessions s))) = T \<and> sorted_wrt (<) (map fst (t_log T))"
proof (rule demo_client_run)
  fix s x y assume s: "client_loop_n demo_client 1 4 (start_client demo_client new_stats) = (s, Inr ())"
    "cl_obtained s = [client_connection, client_connection]" "cl_sessions s = [(client_connection, x), (client_connection, y)]"
  with client_sessions [OF demo_client_ok s(1)] show ?thesis by (auto split: prod.splits)
qed

text \<open>
  C10: candidates and retries keep their distance. In every run of the client the number of candidates started is the number of those
  that failed, plus those that took over, plus one if one is under way: none is lost and there are never two. Two starts are at least
  30 seconds apart. Each delay before a retry is at least a millisecond and at most \<open>reconnect_max_ms\<close> and its jitter, and the next one stays
  between \<open>reconnect_initial_ms\<close> and \<open>reconnect_max_ms\<close>.
\<close>

theorem client_candidates:
  assumes "client_link_ok L" "client_loop_n L n k (start_client L st) = (s, r)"
    and "st_candidate_attempts st = st_candidate_failures st + st_candidate_successes st"
  shows "st_candidate_attempts (cl_stats s) = st_candidate_failures (cl_stats s) + st_candidate_successes (cl_stats s) + (if cl_warm s then 1 else 0) \<and>
    successively (\<lambda>a b. unat a + 30000000 \<le> unat b) (cl_attempts s) \<and>
    (\<forall>w \<in> set (cl_waits s). 1 \<le> w \<and> w \<le> reconnect_max_ms (ck_cfg L) + reconnect_max_ms (ck_cfg L) * reconnect_jitter_pct (ck_cfg L) sdiv 100) \<and>
    reconnect_initial_ms (ck_cfg L) \<le> cl_delay s \<and> cl_delay s \<le> reconnect_max_ms (ck_cfg L)"
proof -
  have "balance st = 0" using assms(3) by (simp add: balance_def)
  then have b: "client_base L 0 s" using client_result [OF assms(1,2)] by (simp add: turn_ok_def)
  then have "st_candidate_attempts (cl_stats s) - st_candidate_failures (cl_stats s) - st_candidate_successes (cl_stats s) = (if cl_warm s then 1 else 0)"
    by (simp add: client_base_def balance_def)
  then have "st_candidate_attempts (cl_stats s) = st_candidate_failures (cl_stats s) + st_candidate_successes (cl_stats s) + (if cl_warm s then 1 else 0)"
    by (simp only: diff_eq_eq) (simp add: algebra_simps)
  with b show ?thesis unfolding client_base_def paced_def waits_ok_def by blast
qed

theorem client_candidates_witness:
  "\<exists>s. client_loop_n demo_client 1 4 (start_client demo_client new_stats) = (s, Inr ()) \<and> cl_attempts s = [100000000] \<and> cl_waits s = [500] \<and>
    st_candidate_attempts (cl_stats s) = st_candidate_failures (cl_stats s) + st_candidate_successes (cl_stats s) + (if cl_warm s then 1 else 0) \<and>
    500 \<le> cl_delay s \<and> cl_delay s \<le> 15000"
proof (rule demo_client_run)
  fix s x y assume s: "client_loop_n demo_client 1 4 (start_client demo_client new_stats) = (s, Inr ())" "cl_attempts s = [100000000]" "cl_waits s = [500]"
  have "st_candidate_attempts new_stats = st_candidate_failures new_stats + st_candidate_successes new_stats" by (simp add: new_stats_def)
  with client_candidates [OF demo_client_ok s(1)] s show ?thesis by auto
qed

end
