(* ===== verification/ServerProps.thy ===== *)
theory ServerProps
  imports SupervisorProps
begin

text \<open>
  What the server of one connection promises over every run of its loop: which of the connections it took are served, and that
  each session is one of \<open>TunnelProps\<close> under the keys of its own connection.
\<close>

section \<open>A session of the server\<close>

definition hosted :: "server \<Rightarrow> connection list \<times> (connection \<times> world \<times> tunnel) list" where
  "hosted s = (sv_taken s, sv_sessions s)"

lemma hosted_simps [simp]:
  "hosted (s\<lparr>sv_ev := k\<rparr>) = hosted s" "hosted (s\<lparr>sv_stop := q\<rparr>) = hosted s" "hosted (s\<lparr>sv_state := i\<rparr>) = hosted s" "hosted (s\<lparr>sv_phase := i\<rparr>) = hosted s"
  "hosted (s\<lparr>sv_stats := st\<rparr>) = hosted s" "hosted (s\<lparr>sv_events := es\<rparr>) = hosted s"
  by (simp_all add: hosted_def)

lemma hosted_stop: "runs (\<lambda>x. hosted (fst x) = u \<and> session_inv K client (snd x)) (session_stop (server_stop L))
    (\<lambda>r x. hosted (fst x) = u \<and> session_inv K client (snd x))"
  by (rule runsI) (auto simp: session_stop_def server_stop_def Let_def)

lemma hosted_tick: "runs (\<lambda>x. hosted (fst x) = u \<and> session_inv K client (snd x)) (session_tick (server_tick L) K)
    (\<lambda>r x. hosted (fst x) = u \<and> session_inv K client (snd x))"
proof (rule runsI)
  fix x x' r assume i: "hosted (fst x) = u \<and> session_inv K client (snd x)" and m: "session_tick (server_tick L) K x = (x', r)"
  have e: "x' = ((fst x)\<lparr>sv_ev := Suc (sv_ev (fst x))\<rparr>, (snd x)\<lparr>t_stats := pending_age K (snd x)\<rparr>)"
    using m by (simp add: session_tick_def server_tick_def split: prod.splits)
  have "session_inv K client ((snd x)\<lparr>t_stats := pending_age K (snd x)\<rparr>)"
    by (rule session_same [where s = "snd x"]) (use i in \<open>simp_all add: same_simps\<close>)
  with i show "hosted (fst x') = u \<and> session_inv K client (snd x')" unfolding e by simp
qed

lemma hosted_turn:
  assumes "link_ok K"
  shows "runs (\<lambda>x. hosted (fst x) = u \<and> session_inv K client (snd x)) (session_turn text K)
    (\<lambda>r x. hosted (fst x) = u \<and> (case r of Inr _ \<Rightarrow> session_inv K client (snd x) | Inl e \<Rightarrow> session_end K client (snd x)))"
proof (rule runsI)
  fix x x' r assume i: "hosted (fst x) = u \<and> session_inv K client (snd x)" and m: "session_turn text K x = (x', r)"
  obtain T q where t: "tunnel_turn K (snd x) = (T, q)" by fastforce
  then have e: "x' = (fst x, T)" "r = (case q of Inl e \<Rightarrow> Inl (SupFail (tun_what text e)) | Inr _ \<Rightarrow> Inr ())" using m by (simp_all add: session_turn_def)
  have "case q of Inr _ \<Rightarrow> session_inv K client T | Inl _ \<Rightarrow> session_end K client T"
    using holdsD [OF holds_turn [OF assms] conjunct2 [OF i]] t by (cases q) auto
  with i show "hosted (fst x') = u \<and> (case r of Inr _ \<Rightarrow> session_inv K client (snd x') | Inl e \<Rightarrow> session_end K client (snd x'))"
    unfolding e by (cases q) simp_all
qed

lemma hosted_loop:
  assumes "link_ok K"
  shows "runs (\<lambda>x. hosted (fst x) = u \<and> session_inv K False (snd x)) (session_loop (server_stop L) (server_tick L) text K n)
    (\<lambda>r x. hosted (fst x) = u \<and> session_end K False (snd x))"
proof (induction n)
  case 0
  then show ?case by (auto intro!: runs_throwS simp: session_inv_def)
next
  case (Suc n)
  let ?I = "\<lambda>x. hosted (fst x) = u \<and> session_inv K False (snd x)" and ?E = "\<lambda>r x. hosted (fst x) = u \<and> session_end K False (snd x)"
  have a: "runs ?I (thenS (session_turn text K) (session_loop (server_stop L) (server_tick L) text K n)) ?E"
    by (rule runs_thenS [OF hosted_turn [OF assms]]) (use Suc.IH in simp_all)
  have b: "runs ?I (thenS (session_tick (server_tick L) K) (thenS (session_turn text K) (session_loop (server_stop L) (server_tick L) text K n))) ?E"
    by (rule runs_thenS [OF hosted_tick a]) (simp add: session_inv_def)
  have c: "runs ?I skipS ?E" by (rule runs_skipS) (simp add: session_inv_def)
  show ?case
    unfolding session_loop.simps by (rule runs_bindS [OF hosted_stop]) (use b c in \<open>auto simp: session_inv_def\<close>)
qed

section \<open>The loop of the server\<close>

definition serves :: "server_link \<Rightarrow> connection \<Rightarrow> bool" where
  "serves L c \<longleftrightarrow> server_checks (vk_cfg L) (cn_handshake c) = None"

definition hosted_ok :: "server_link \<Rightarrow> server \<Rightarrow> bool" where
  "hosted_ok L s \<longleftrightarrow> map fst (sv_sessions s) = filter (serves L) (sv_taken s) \<and>
     (\<forall>(c, w, T) \<in> set (sv_sessions s). session_end (server_link_of L c w) False T)"

text \<open>Connections come from the admission server with a fresh session, and sessions are as in \<open>TunnelProps\<close>.\<close>

definition server_link_ok :: "server_link \<Rightarrow> bool" where
  "server_link_ok L \<longleftrightarrow> (\<forall>k c. sw_take (vk_world L) k = Some c \<longrightarrow> ws_invar False (cn_ws c) \<and> pending (cn_ws c) = []) \<and>
     (\<forall>k c. link_ok (server_link_of L c (sw_session (vk_world L) k)))"

lemma hosted_ok_same: "hosted s' = hosted s \<Longrightarrow> hosted_ok L s \<Longrightarrow> hosted_ok L s'"
  by (simp add: hosted_def hosted_ok_def)

lemma session_served:
  assumes "server_link_ok L" "ws_invar False (cn_ws c)" "pending (cn_ws c) = []" "server_session L n c s = (s', r)"
  shows "\<exists>w T. hosted s' = (sv_taken s, sv_sessions s @ [(c, w, T)]) \<and> session_end (server_link_of L c w) False T"
proof -
  let ?w = "sw_session (vk_world L) (Suc (sv_ev s))" and ?d = "sw_draws (vk_world L) (Suc (Suc (sv_ev s)))"
  define s3 where "s3 = s\<lparr>sv_ev := Suc (Suc (Suc (sv_ev s)))\<rparr>"
  define K where "K = server_link_of L c ?w"
  define T0 where "T0 = start_tunnel K (sw_clock (vk_world L) (sv_ev s)) (fst ?d) (snd ?d) (client_tx (hs_keys (cn_handshake c)))
    ((cn_ws c)\<lparr>io_timeout_ms := websocket_io_timeout_sec (vk_cfg L) * 1000\<rparr>) (sv_stats s)"
  obtain s4 T q where l: "session_loop (server_stop L) (server_tick L) (vk_text L) K n (s3, T0) = ((s4, T), q)" by (metis surj_pair)
  have e: "s' = s4\<lparr>sv_stats := t_stats T, sv_sessions := sv_sessions s4 @ [(c, ?w, T)]\<rparr>"
    using assms(4) l by (simp add: server_session_def bindS_def askV_def Let_def s3_def K_def T0_def)
  have "session_inv K False T0" unfolding T0_def by (rule session_start) (use assms(2,3) in \<open>simp_all add: timeout_ok\<close>)
  then have i: "hosted (fst (s3, T0)) = hosted s \<and> session_inv K False (snd (s3, T0))" by (simp add: s3_def)
  have "link_ok K" using assms(1) by (simp add: server_link_ok_def K_def)
  from runsD [OF hosted_loop [OF this] i l] have "hosted s4 = hosted s" "session_end K False T" by simp_all
  then show ?thesis unfolding e K_def by (auto simp: hosted_def)
qed

lemma server_link_takes: "server_link_ok L \<Longrightarrow> sw_take (vk_world L) k = Some c \<Longrightarrow> ws_invar False (cn_ws c) \<and> pending (cn_ws c) = []"
  by (simp add: server_link_ok_def)

lemma online_served:
  assumes "server_link_ok L" "ws_invar False (cn_ws c)" "pending (cn_ws c) = []"
  shows "runs (\<lambda>s. hosted s = (xs @ [c], ss) \<and> map fst ss = filter (serves L) xs \<and> (\<forall>(c, w, T) \<in> set ss. session_end (server_link_of L c w) False T))
    (server_online L n c) (\<lambda>r s. hosted_ok L s)"
proof (rule runsI)
  fix s s' r assume i: "hosted s = (xs @ [c], ss) \<and> map fst ss = filter (serves L) xs \<and> (\<forall>(c, w, T) \<in> set ss. session_end (server_link_of L c w) False T)"
    and m: "server_online L n c s = (s', r)"
  show "hosted_ok L s'"
  proof (cases "server_checks (vk_cfg L) (cn_handshake c)")
    case (Some e)
    then show ?thesis using m i by (simp add: server_online_def throwS_def retS_def hosted_ok_def hosted_def serves_def)
  next
    case None
    let ?t = "s\<lparr>sv_stats := (sv_stats s)\<lparr>st_ptt5_sessions := st_ptt5_sessions (sv_stats s) + 1\<rparr>, sv_state := 3, sv_phase := 7,
      sv_events := event ''online role=server transport=websocket'' (sv_events s)\<rparr>"
    obtain r' where e: "server_session L n c ?t = (s', r')"
      using m None by (auto simp: server_online_def seqS.simps thenS_def bindS_def statV_def eventV_def modS_def skipS_def retS_def split: prod.splits sum.splits)
    then obtain w T where "hosted s' = (xs @ [c], ss @ [(c, w, T)])" "session_end (server_link_of L c w) False T"
      using session_served [OF assms e] i by (auto simp: hosted_def)
    then show ?thesis using i None by (auto simp: hosted_ok_def hosted_def serves_def)
  qed
qed

lemma caught_served: "runs (hosted_ok L) (server_caught L e) (\<lambda>r s. hosted_ok L s \<and> (case r of Inr _ \<Rightarrow> True | Inl x \<Rightarrow> x = CutOff))"
proof (rule runsI)
  fix s s' r assume "hosted_ok L s" "server_caught L e s = (s', r)"
  moreover from this(2) have "hosted s' = hosted s \<and> (case r of Inr _ \<Rightarrow> True | Inl x \<Rightarrow> x = CutOff)"
    by (auto simp: server_caught_def statV_def eventV_def stopV_def server_stop_def Let_def bindS_def thenS_def whenS_def skipS_def modS_def throwS_def retS_def
        split: sup_error.splits if_splits)
  ultimately show "hosted_ok L s' \<and> (case r of Inr _ \<Rightarrow> True | Inl x \<Rightarrow> x = CutOff)" using hosted_ok_same by blast
qed

definition server_result :: "server_link \<Rightarrow> (sup_error, unit) result \<Rightarrow> server \<Rightarrow> bool" where
  "server_result L r s \<longleftrightarrow> hosted_ok L s \<and> (case r of Inr _ \<Rightarrow> True | Inl x \<Rightarrow> x = CutOff)"

lemma bind_askV: "bindS (askV f) g s = g (f (sv_ev s)) (s\<lparr>sv_ev := Suc (sv_ev s)\<rparr>)"
  by (simp add: bindS_def askV_def)

lemma then_modS: "thenS (modS f) k s = k (f s)"
  by (simp add: thenS_def bindS_def modS_def)

lemma server_turn_served:
  assumes "server_link_ok L"
  shows "runs (hosted_ok L) (server_turn L n) (server_result L)"
proof (rule runsI)
  fix s s' r assume i: "hosted_ok L s" and m: "server_turn L n s = (s', r)"
  let ?s1 = "s\<lparr>sv_ev := Suc (sv_ev s)\<rparr>"
  show "server_result L r s'"
  proof (cases "sw_take (vk_world L) (sv_ev s)")
    case None
    then have "s' = ?s1" "r = Inr ()" using m by (simp_all add: server_turn_def bindS_def askV_def skipS_def retS_def)
    then show ?thesis using hosted_ok_same [OF _ i, of ?s1] by (simp add: server_result_def)
  next
    case (Some c)
    note f = server_link_takes [OF assms Some]
    let ?t = "?s1\<lparr>sv_taken := sv_taken ?s1 @ [c]\<rparr>"
    let ?last = "bindS (stopV L) (\<lambda>b. whenS (\<not> b) (modS (\<lambda>s. s\<lparr>sv_state := 1, sv_phase := 2\<rparr>)))"
    have stop: "runs (hosted_ok L) (thenS ?last skipS) (server_result L)"
    proof (rule runsI)
      fix u u' q assume "hosted_ok L u" "thenS ?last skipS u = (u', q)"
      moreover from this(2) have "hosted u' = hosted u \<and> q = Inr ()"
        by (auto simp: stopV_def server_stop_def Let_def bindS_def thenS_def whenS_def skipS_def modS_def retS_def split: if_splits)
      ultimately show "server_result L q u'" using hosted_ok_same [of u' u L] by (simp add: server_result_def)
    qed
    have online: "runs (\<lambda>u. hosted u = (sv_taken s @ [c], sv_sessions s) \<and> map fst (sv_sessions s) = filter (serves L) (sv_taken s) \<and>
        (\<forall>(c, w, T) \<in> set (sv_sessions s). session_end (server_link_of L c w) False T)) (catchS (server_online L n c) (server_caught L)) (server_result L)"
      by (rule runs_catchS [OF online_served [OF assms]]) (use f in \<open>auto intro: runs_post [OF caught_served] simp: server_result_def\<close>)
    have all: "runs (\<lambda>u. hosted u = (sv_taken s @ [c], sv_sessions s) \<and> map fst (sv_sessions s) = filter (serves L) (sv_taken s) \<and>
        (\<forall>(c, w, T) \<in> set (sv_sessions s). session_end (server_link_of L c w) False T))
        (thenS (catchS (server_online L n c) (server_caught L)) (thenS ?last skipS)) (server_result L)"
      by (rule runs_thenS [OF online]) (auto intro: runs_pre [OF stop] simp: server_result_def)
    have e: "thenS (catchS (server_online L n c) (server_caught L)) (thenS ?last skipS) ?t = (s', r)"
      using m Some by (simp add: server_turn_def bind_askV then_modS)
    show ?thesis by (rule runsD [OF all _ e]) (use i in \<open>simp add: hosted_def hosted_ok_def\<close>)
  qed
qed

lemma server_loop_served:
  assumes "server_link_ok L"
  shows "runs (hosted_ok L) (server_loop_n L n k) (server_result L)"
proof (induction k)
  case 0
  then show ?case by (auto intro!: runs_skipS simp: server_result_def)
next
  case (Suc k)
  have skip: "runs (hosted_ok L) skipS (server_result L)" by (rule runs_skipS) (simp add: server_result_def)
  have turn: "runs (hosted_ok L) (thenS (server_turn L n) (server_loop_n L n k)) (server_result L)"
    by (rule runs_thenS [OF server_turn_served [OF assms]]) (auto intro: runs_pre [OF Suc.IH] simp: server_result_def)
  have stop: "runs (hosted_ok L) (stopV L) (\<lambda>r s. hosted_ok L s \<and> (\<exists>q. r = Inr q))"
    by (rule runsI) (auto simp: stopV_def server_stop_def Let_def intro: hosted_ok_same [rotated])
  have "runs (hosted_ok L) (bindS (stopV L) (\<lambda>q. if q then skipS else thenS (server_turn L n) (server_loop_n L n k))) (server_result L)"
    by (rule runs_bindS [OF stop]) (use skip turn in auto)
  with skip show ?case by simp
qed

section \<open>A concrete server\<close>

text \<open>Padding is configured. Nothing comes at first, then a connection whose peer lacks padding, then one that has it, for which a successor waits.\<close>

definition server_cfg :: config where
  "server_cfg = demo_cfg\<lparr>mode := ''server'', websocket_padding_max_bytes := 16\<rparr>"

definition server_connection :: "bool \<Rightarrow> connection" where
  "server_connection padding =
     \<lparr>cn_ws = new_session False,
      cn_handshake = \<lparr>hs_keys = \<lparr>client_tx = demo_key, server_tx = demo_key, auth = demo_key\<rparr>, peer_padding = padding, peer_envelope = False,
        hs_confirmed = True, peer_trial = True, trial_max_rtt_us = 0, psk_index = 0, hs_pool_connections = 1, client_nonce = [], server_nonce = []\<rparr>\<rparr>"

definition demo_server_world :: server_world where
  "demo_server_world = \<lparr>sw_clock = (\<lambda>_. 100000000), sw_stop = (\<lambda>_. False),
     sw_take = (\<lambda>k. if k < 3 then None else Some (server_connection (6 < k))), sw_ready = (\<lambda>_. True), sw_session = (\<lambda>_. demo_world),
     sw_draws = (\<lambda>_. (\<lambda>_. 0, \<lambda>_. 0))\<rparr>"

definition demo_server :: server_link where
  "demo_server = \<lparr>vk_cfg = server_cfg, vk_crypto = demo_crypto, vk_round = (\<lambda>x. x), vk_text = (\<lambda>_. ''error''), vk_world = demo_server_world\<rparr>"

lemma demo_server_ok: "server_link_ok demo_server"
  using new_session_invar [of False]
  by (auto simp: server_link_ok_def demo_server_def demo_server_world_def server_cfg_def demo_cfg_def default_config_def server_connection_def
      server_link_of_def link_ok_def demo_world_def mask4_def io_ok_def pending_def new_session_def split: if_splits)

lemma demo_server_simps [simp]:
  "vk_cfg demo_server = server_cfg" "vk_world demo_server = demo_server_world" "max_connections server_cfg = 1" "websocket_padding_max_bytes server_cfg = 16"
  "websocket_control_padding_bytes server_cfg = 0" "sw_stop demo_server_world = (\<lambda>_. False)" "sw_ready demo_server_world = (\<lambda>_. True)"
  "sw_clock demo_server_world = (\<lambda>_. 100000000)" "sw_session demo_server_world = (\<lambda>_. demo_world)"
  "sw_take demo_server_world = (\<lambda>k. if k < 3 then None else Some (server_connection (6 < k)))"
  "peer_padding (cn_handshake (server_connection q)) = q"
  by (simp_all add: demo_server_def demo_server_world_def server_cfg_def demo_cfg_def default_config_def server_connection_def)

lemmas server_eval = server_turn_def seqS.simps bindS_def thenS_def retS_def modS_def skipS_def throwS_def whenS_def catchS_def askV_def statV_def eventV_def
  stopV_def server_stop_def server_caught_def server_online_def server_checks_def

lemma demo_session_replaced:
  assumes "\<not> sv_stop s"
  shows "\<exists>s' w T. server_session demo_server 1 c s = (s', Inl WarmSwitch) \<and> \<not> sv_stop s' \<and> hosted s' = (sv_taken s, sv_sessions s @ [(c, w, T)])"
  using assms by (simp add: server_session_def bindS_def thenS_def askV_def Let_def session_stop_def server_stop_def session_tick_def server_tick_def
    hosted_def retS_def)

lemma server_loop_step:
  assumes "max_connections (vk_cfg L) = 1" "\<not> sv_stop s" "\<not> sw_stop (vk_world L) (sv_ev s)" "server_turn L n (s\<lparr>sv_ev := Suc (sv_ev s), sv_stop := False\<rparr>) = (s', Inr ())"
  shows "server_loop_n L n (Suc k) s = server_loop_n L n k s'"
  using assms by (simp add: stopV_def server_stop_def bindS_def thenS_def)

lemma demo_turn_refused:
  assumes "\<not> sv_stop s" "sv_ev s = 3"
  shows "\<exists>s'. server_turn demo_server 1 s = (s', Inr ()) \<and> sv_ev s' = 6 \<and> \<not> sv_stop s' \<and>
    sv_taken s' = sv_taken s @ [server_connection False] \<and> sv_sessions s' = sv_sessions s"
  using assms by (simp add: server_eval)

lemma demo_turn_served:
  assumes "\<not> sv_stop s" "sv_ev s = 7"
  shows "\<exists>s' w T. server_turn demo_server 1 s = (s', Inr ()) \<and>
    hosted s' = (sv_taken s @ [server_connection True], sv_sessions s @ [(server_connection True, w, T)])"
proof -
  let ?s = "s\<lparr>sv_ev := 8, sv_taken := sv_taken s @ [server_connection True],
    sv_stats := (sv_stats s)\<lparr>st_ptt5_sessions := st_ptt5_sessions (sv_stats s) + 1\<rparr>, sv_state := 3, sv_phase := 7,
    sv_events := event ''online role=server transport=websocket'' (sv_events s)\<rparr>"
  obtain s2 w T where s2: "server_session demo_server 1 (server_connection True) ?s = (s2, Inl WarmSwitch)" "\<not> sv_stop s2"
      "hosted s2 = (sv_taken s @ [server_connection True], sv_sessions s @ [(server_connection True, w, T)])"
    using demo_session_replaced [of ?s "server_connection True"] assms(1) by auto
  have "server_online demo_server 1 (server_connection True) (s\<lparr>sv_ev := 8, sv_taken := sv_taken s @ [server_connection True]\<rparr>) = (s2, Inl WarmSwitch)"
    using s2(1) by (simp add: server_online_def server_checks_def seqS.simps thenS_def bindS_def statV_def eventV_def modS_def)
  then show ?thesis
    using assms s2(2,3) by (simp add: server_turn_def server_caught_def seqS.simps bindS_def thenS_def retS_def modS_def skipS_def whenS_def catchS_def
      askV_def statV_def stopV_def server_stop_def hosted_def)
qed

lemma demo_server_run:
  obtains s x where "server_loop_n demo_server 1 3 (start_server new_stats) = (s, Inr ())"
    "sv_taken s = [server_connection False, server_connection True]" "sv_sessions s = [(server_connection True, x)]"
proof -
  let ?s0 = "start_server new_stats"
  let ?s1 = "?s0\<lparr>sv_ev := 2, sv_stop := False\<rparr>"
  have s1: "server_turn demo_server 1 (?s0\<lparr>sv_ev := 1, sv_stop := False\<rparr>) = (?s1, Inr ())"
    by (simp add: server_turn_def bindS_def askV_def skipS_def retS_def)
  obtain s2 where s2: "server_turn demo_server 1 (?s1\<lparr>sv_ev := 3, sv_stop := False\<rparr>) = (s2, Inr ())" "sv_ev s2 = 6" "\<not> sv_stop s2"
      "sv_taken s2 = [server_connection False]" "sv_sessions s2 = []"
    using demo_turn_refused [of "?s1\<lparr>sv_ev := 3, sv_stop := False\<rparr>"] by (auto simp: start_server_def)
  obtain s3 w T where s3: "server_turn demo_server 1 (s2\<lparr>sv_ev := 7, sv_stop := False\<rparr>) = (s3, Inr ())"
      "hosted s3 = ([server_connection False, server_connection True], [(server_connection True, w, T)])"
    using demo_turn_served [of "s2\<lparr>sv_ev := 7, sv_stop := False\<rparr>"] s2 by auto
  have "server_loop_n demo_server 1 (Suc 2) ?s0 = server_loop_n demo_server 1 (Suc 1) ?s1"
    using server_loop_step [of demo_server ?s0 1 ?s1 2] s1 by (simp add: start_server_def numeral_2_eq_2 del: server_loop_n.simps)
  also have "\<dots> = server_loop_n demo_server 1 (Suc 0) s2"
    using server_loop_step [of demo_server ?s1 1 s2 1] s2(1) by (simp add: start_server_def del: server_loop_n.simps)
  also have "\<dots> = server_loop_n demo_server 1 0 s3" using server_loop_step [of demo_server s2 1 s3 0] s2 s3(1) by simp
  finally have "server_loop_n demo_server 1 3 ?s0 = (s3, Inr ())" by (simp add: numeral_3_eq_3 numeral_2_eq_2 skipS_def retS_def del: server_loop_n.simps(2))
  then show ?thesis by (rule that) (use s3(2) in \<open>simp_all add: hosted_def\<close>)
qed

section \<open>Properties\<close>

text \<open>
  C11: the server over its whole life. No exception leaves its loop, and no error of a session ends it (\<open>CutOff\<close> only says that a session was
  still running after its \<open>n\<close> turns). Of the connections it took from the admission server exactly those whose peer has what the configuration
  asks for (padding, envelope) are served, each in one session, in the order in which they were taken; in each session the sequence numbers strictly
  increase and every record is one of the PTT5 encoders' under the transmit key of that connection's own handshake.
\<close>

theorem server_sessions:
  assumes "server_link_ok L" "server_loop_n L n k (start_server st) = (s, r)"
  shows "(r = Inr () \<or> r = Inl CutOff) \<and>
    map fst (sv_sessions s) = filter (\<lambda>c. server_checks (vk_cfg L) (cn_handshake c) = None) (sv_taken s) \<and>
    (\<forall>(c, w, T) \<in> set (sv_sessions s). sorted_wrt (<) (map fst (t_log T)) \<and>
      (\<forall>(q, f, p, rec) \<in> set (t_log T). sent_v5 (vk_crypto L) (server_tx (hs_keys (cn_handshake c))) rec (f, q, p)))"
proof -
  have "hosted_ok L (start_server st)" by (simp add: hosted_ok_def start_server_def)
  then have h: "hosted_ok L s" "r = Inr () \<or> r = Inl CutOff"
    using runsD [OF server_loop_served [OF assms(1)] _ assms(2)] by (cases r; simp add: server_result_def)+
  then have "sorted_wrt (<) (map fst (t_log T)) \<and>
      (\<forall>(q, f, p, rec) \<in> set (t_log T). sent_v5 (vk_crypto L) (server_tx (hs_keys (cn_handshake c))) rec (f, q, p))"
    if "(c, w, T) \<in> set (sv_sessions s)" for c w T
    using that by (auto simp: hosted_ok_def session_end_def records_ok_def made_ok_def server_link_of_def)
  with h show ?thesis unfolding hosted_ok_def serves_def [abs_def] by blast
qed

theorem server_sessions_witness:
  "\<exists>s x. server_loop_n demo_server 1 3 (start_server new_stats) = (s, Inr ()) \<and> sv_taken s = [server_connection False, server_connection True] \<and>
    sv_sessions s = [(server_connection True, x)] \<and> sorted_wrt (<) (map fst (t_log (snd x))) \<and>
    map fst (sv_sessions s) = filter (\<lambda>c. server_checks server_cfg (cn_handshake c) = None) (sv_taken s)"
proof (rule demo_server_run)
  fix s x assume s: "server_loop_n demo_server 1 3 (start_server new_stats) = (s, Inr ())"
    "sv_taken s = [server_connection False, server_connection True]" "sv_sessions s = [(server_connection True, x)]"
  with server_sessions [OF demo_server_ok s(1)] show ?thesis by (intro exI [of _ s] exI [of _ x]) (simp split: prod.splits)
qed

end
