(* ===== verification/Logging.thy ===== *)
theory Logging
  imports RuntimeBase
begin

text \<open>
  \<open>src/cdn/include/pacetun/logging.hpp\<close>: the explanation of a failure for people, and the cleaning of a text
  that may come from the peer before it is logged.
\<close>

record problem_explanation =
  meaning :: string
  next_step :: string

definition explain_problem :: "string \<Rightarrow> string \<Rightarrow> problem_explanation" where
  "explain_problem code detail =
     (if code = ''HTTP_502_GATEWAY'' \<or> (contains_insensitive detail ''502'' \<and> (contains_insensitive detail ''bad gateway'' \<or> contains_insensitive detail ''http/1.1 502'')) then
        \<lparr>meaning = ''A gateway returned HTTP 502 while opening the tunnel. The CDN OR origin proxy may be responsible.'',
         next_step = ''Check the foreign Nginx IPv6 listener and error/access logs. Verify Arvan'' @ [CHR 0x27] @ ''s origin IPv6 and local PaceTun port; also test the health URL via the CDN.''\<rparr>
      else if code = ''HTTP_504_TIMEOUT'' \<or> (contains_insensitive detail ''504'' \<and> (contains_insensitive detail ''gateway'' \<or> contains_insensitive detail ''http/1.1 504'')) then
        \<lparr>meaning = ''A gateway returned HTTP 504: an upstream response was too slow or absent.'',
         next_step = ''Compare CDN health-check timings with a direct foreign-origin check. Inspect Arvan-to-origin reachability and Nginx logs; do not assume the Iran-to-edge connection is slow.''\<rparr>
      else if contains_insensitive detail ''certificate'' \<or> contains_insensitive detail ''hostname verification'' \<or> contains_insensitive detail ''verify failed'' then
        \<lparr>meaning = ''The TLS certificate or hostname check failed.'',
         next_step = ''Check the CDN hostname, SNI, certificate validity and trusted CA path; keep TLS verification enabled.''\<rparr>
      else if contains_insensitive detail ''name or service not known'' \<or> contains_insensitive detail ''temporary failure in name resolution'' then
        \<lparr>meaning = ''The tunnel hostname could not be resolved by DNS.'',
         next_step = ''Check DNS resolution for the configured CDN hostname on the client. Do not replace the origin address until DNS is verified.''\<rparr>
      else if code = ''DNS_RESOLUTION_FAILED'' then
        \<lparr>meaning = ''DNS could not resolve the configured CDN hostname.'',
         next_step = ''Check the DNS resolver and the saved hostname on the Iran client; do not assume the foreign origin is failing.''\<rparr>
      else if code = ''WEBSOCKET_UPGRADE_FAILED'' \<or> code = ''CARRIER_UPGRADE_FAILED'' then
        \<lparr>meaning = ''The HTTPS connection did not complete the WebSocket upgrade.'',
         next_step = ''Confirm the CDN accepts WebSocket and the Host/path match Nginx. Test HTTPS health, then inspect Nginx access and error logs for the upgrade path.''\<rparr>
      else if code = ''AUTHENTICATION_FAILED'' then
        \<lparr>meaning = ''The endpoints could not authenticate or agree on session keys.'',
         next_step = ''Check that both servers use the intended PSK and compatible versions. Never paste PSK contents into logs or support chats.''\<rparr>
      else if code = ''AUTH_PROBE_TIMEOUT'' then
        \<lparr>meaning = ''An authenticated round-trip probe did not receive a reply in time.'',
         next_step = ''Look for simultaneous network loss or CDN buffering. Compare fresh tunnel RTT and TCP retransmission counters; one timeout alone does not identify the faulty segment.''\<rparr>
      else if code = ''WEBSOCKET_PONG_TIMEOUT'' then
        \<lparr>meaning = ''An optional WebSocket control PONG did not arrive before its deadline.'',
         next_step = ''Check whether WebSocket control probes are enabled and whether CDN idle or buffering behavior affects the session.''\<rparr>
      else if code = ''TCP_CONNECT_TIMEOUT'' then
        \<lparr>meaning = ''TCP attempts to DNS-resolved CDN addresses timed out; the failed segment is not identified.'',
         next_step = ''Check client-to-CDN reachability, DNS answers and CDN edge availability. Changing tunnel encryption cannot fix a TCP timeout.''\<rparr>
      else if code = ''TLS_CERTIFICATE_FAILED'' then
        \<lparr>meaning = ''TLS peer certificate validation failed; the connection was correctly rejected.'',
         next_step = ''Verify the configured hostname, CA trust and CDN certificate. Never disable verify_peer as a workaround.''\<rparr>
      else if code = ''TLS_HANDSHAKE_TIMEOUT'' then
        \<lparr>meaning = ''TCP connected but TLS did not finish before its deadline.'',
         next_step = ''Check CDN edge TLS availability and compare from another network; no assumption about the origin can be made yet.''\<rparr>
      else if code = ''TCP_CONNECT_FAILED'' then
        \<lparr>meaning = ''The client could not establish its TCP connection to the configured destination.'',
         next_step = ''Check DNS, the destination port, routing and the CDN endpoint from the client. On the origin, check listeners and firewall rules.''\<rparr>
      else if code = ''TLS_HANDSHAKE_FAILED'' then
        \<lparr>meaning = ''TCP connected, but the TLS handshake could not finish.'',
         next_step = ''Check the hostname/SNI, HTTPS port, supported TLS versions, certificate and CDN TLS settings.''\<rparr>
      else if code = ''WEBSOCKET_PEER_CLOSE'' then
        \<lparr>meaning = ''The peer sent a WebSocket close frame; the sender behind a CDN is not established.'',
         next_step = ''Compare close status, session age, Nginx logs and CDN timing. A close frame alone does not identify the responsible hop.''\<rparr>
      else if code = ''MANUAL_RECONNECT'' then
        \<lparr>meaning = ''An administrator requested a reconnection.'',
         next_step = ''No network failure is implied; verify the replacement becomes ONLINE.''\<rparr>
      else if code = ''ESTABLISHED_CONNECTION_LOST'' then
        \<lparr>meaning = ''An established tunnel connection was interrupted.'',
         next_step = ''Inspect the detailed error, recent tunnel RTT, retransmissions and CDN/foreign logs. A disconnect alone does not prove which hop failed.''\<rparr>
      else
        \<lparr>meaning = ''An issue was reported, but the cause is not established.'',
         next_step = ''Inspect the detailed error and run the read-only diagnose command; preserve the working configuration until the failure is located.''\<rparr>)"

text \<open>\<open>room\<close> is what is left of the 240 characters.\<close>

fun clean_loop :: "nat \<Rightarrow> string \<Rightarrow> string" where
  "clean_loop room [] = []"
| "clean_loop 0 (c # raw) = ''...''"
| "clean_loop (Suc room) (c # raw) =
     (if of_char c < (32 :: nat) \<or> of_char c = (127 :: nat) then CHR '' '' else c) # clean_loop room raw"

definition clean_log_detail :: "string \<Rightarrow> string" where
  "clean_log_detail raw = clean_loop 240 raw"

definition newline :: string where "newline = [CHR 0x0A]"

definition friendly_failure :: "string \<Rightarrow> string \<Rightarrow> string \<Rightarrow> string" where
  "friendly_failure stage code detail =
     (let problem = explain_problem code detail in
      ''[ERROR] Connection problem (code='' @ code @ '', stage='' @ stage @ '')'' @ newline
        @ ''        Meaning: '' @ meaning problem @ newline
        @ ''        Next step: '' @ next_step problem @ newline
        @ ''        Technical detail: '' @ clean_log_detail detail @ newline)"

section \<open>What is logged\<close>

definition printable :: "char \<Rightarrow> bool" where
  "printable c \<longleftrightarrow> \<not> of_char c < (32 :: nat) \<and> of_char c \<noteq> (127 :: nat)"

definition cleaned :: "char \<Rightarrow> char" where
  "cleaned c = (if printable c then c else CHR '' '')"

definition unprintable :: "string \<Rightarrow> string" where
  "unprintable s = filter (\<lambda>c. \<not> printable c) s"

lemma unprintable_append [simp]: "unprintable (s @ t) = unprintable s @ unprintable t"
  by (simp add: unprintable_def)

lemma clean_loop_eq: "clean_loop room raw = map cleaned (take room raw) @ (if length raw \<le> room then [] else ''...'')"
  by (induction room raw rule: clean_loop.induct) (simp_all add: cleaned_def printable_def)

lemma printable_cleaned [simp]: "printable (cleaned c)"
  by (simp add: cleaned_def printable_def)

lemma unprintable_clean [simp]: "unprintable (clean_log_detail raw) = []"
proof -
  have "unprintable ''...'' = []" by code_simp
  moreover have "unprintable (map cleaned s) = []" for s by (induction s) (simp_all add: unprintable_def)
  ultimately show ?thesis by (simp add: clean_log_detail_def clean_loop_eq) (simp add: unprintable_def)
qed

lemma unprintable_if [intro]: "unprintable s = [] \<Longrightarrow> unprintable t = [] \<Longrightarrow> unprintable (if b then s else t) = []"
  by simp

definition clean_explanation :: "problem_explanation \<Rightarrow> bool" where
  "clean_explanation x \<longleftrightarrow> unprintable (meaning x) = [] \<and> unprintable (next_step x) = []"

lemma clean_if: "clean_explanation x \<Longrightarrow> clean_explanation y \<Longrightarrow> clean_explanation (if b then x else y)"
  by simp

lemma printable_Char: "printable (Char b0 b1 b2 b3 b4 b5 b6 b7) \<longleftrightarrow> (b5 \<or> b6 \<or> b7) \<and> \<not> (b0 \<and> b1 \<and> b2 \<and> b3 \<and> b4 \<and> b5 \<and> b6 \<and> \<not> b7)"
  by (cases b0; cases b1; cases b2; cases b3; cases b4; cases b5; cases b6; cases b7) (simp_all add: printable_def)

lemma unprintable_simps: "unprintable [] = []" "printable c \<Longrightarrow> unprintable (c # s) = unprintable s"
  by (simp_all add: unprintable_def)

lemma clean_explain: "clean_explanation (explain_problem code detail)"
  unfolding explain_problem_def by (intro clean_if; simp only: clean_explanation_def problem_explanation.simps append.simps unprintable_simps printable_Char simp_thms if_True)

lemma unprintable_names: "unprintable (phase_name p) = []" "unprintable (failure_code p reason) = []"
  unfolding phase_name_def failure_code_def by (intro unprintable_if; simp add: unprintable_def printable_def)+

text \<open>
  C26: nothing a peer sends can forge a line of the log. Whatever the text of an error is, the report of a failure has
  exactly four control characters, the ends of its four lines; the text of the error appears in it with
  every control character replaced by a space, in full up to 240 characters, and at most three more follow.
\<close>

theorem failure_report_lines:
  "unprintable (friendly_failure (phase_name p) (failure_code q reason) detail) = concat (replicate 4 newline) \<and>
   take 240 (clean_log_detail detail) = map cleaned (take 240 detail) \<and> length (clean_log_detail detail) \<le> 243"
proof -
  have l: "unprintable ''[ERROR] Connection problem (code='' = []" "unprintable '', stage='' = []" "unprintable '')'' = []"
    "unprintable ''        Meaning: '' = []" "unprintable ''        Next step: '' = []" "unprintable ''        Technical detail: '' = []"
    "unprintable newline = newline" by code_simp+
  have e: "unprintable (meaning (explain_problem c d)) = []" "unprintable (next_step (explain_problem c d)) = []" for c d
    using clean_explain by (simp_all add: clean_explanation_def)
  have "unprintable (friendly_failure (phase_name p) (failure_code q reason) detail) = concat (replicate 4 newline)"
    unfolding friendly_failure_def Let_def unprintable_append l e unprintable_names unprintable_clean by (simp add: numeral_eq_Suc)
  then show ?thesis by (simp add: clean_log_detail_def clean_loop_eq)
qed

end
