(* ===== verification/Dial.thy ===== *)
theory Dial
  imports Telemetry RuntimeBase
begin

text \<open>
  How a TCP connection and a TLS session come about (\<open>src/cdn/src/runtime.cpp\<close>): \<open>connect_tcp\<close>, \<open>wait_for_ssl_io\<close>,
  \<open>ssl_handshake\<close>, \<open>wait_utls_tls_ready\<close> and \<open>check_secret_permissions\<close>. The resolver, the kernel, OpenSSL, the clock and the stop
  flag are the answers of a world. Loops without a bound of their own have fuel; \<open>DialCut\<close> marks that it ran out.
\<close>

section \<open>The world\<close>

datatype dial_error = DialFail string | DialCut

text \<open>What \<open>poll\<close> returns: an error, nothing, or events (\<open>POLLNVAL\<close>, one that was asked for, \<open>POLLERR\<close> or \<open>POLLHUP\<close>).\<close>

datatype poll_answer = PollError int | PollNothing | PollEvents bool bool bool

datatype ssl_answer = SslDone | SslWantRead | SslWantWrite | SslError string

datatype recv_answer = Received string | RecvAgain | RecvFailed

text \<open>Times are nanoseconds of the steady clock; numbers of errors are those of Linux.\<close>

record dial_world =
  dw_clock :: "nat \<Rightarrow> int"
  dw_stop :: "nat \<Rightarrow> bool"
  dw_resolve :: "nat \<Rightarrow> (string, int list) result"
  dw_sequence :: "nat \<Rightarrow> u64"
  dw_socket :: "nat \<Rightarrow> (int, int) result"
  dw_nonblock :: "nat \<Rightarrow> int option"
  dw_connect :: "nat \<Rightarrow> int option"
  dw_poll :: "nat \<Rightarrow> int \<Rightarrow> poll_answer"
  dw_sockopt :: "nat \<Rightarrow> (int, int) result"
  dw_ssl :: "nat \<Rightarrow> ssl_answer"
  dw_recv :: "nat \<Rightarrow> nat \<Rightarrow> recv_answer"
  dw_strerror :: "int \<Rightarrow> string"

definition EINTR :: int where "EINTR = 4"
definition EBADF :: int where "EBADF = 9"
definition ECONNRESET :: int where "ECONNRESET = 104"
definition ETIMEDOUT :: int where "ETIMEDOUT = 110"
definition EINPROGRESS :: int where "EINPROGRESS = 115"

text \<open>
  The stop flag; \<open>last_error\<close>; the descriptors that are open, the candidates tried, and the time each call of \<open>poll\<close> was given.
\<close>

record dialer =
  dl_ev :: nat
  dl_stop :: bool
  dl_error :: int
  dl_open :: "int list"
  dl_tried :: "nat list"
  dl_polls :: "int list"

type_synonym 'a attempting = "(dialer, dial_error, 'a) se"

definition new_dialer :: dialer where
  "new_dialer = \<lparr>dl_ev = 0, dl_stop = False, dl_error = ETIMEDOUT, dl_open = [], dl_tried = [], dl_polls = []\<rparr>"

definition askD :: "(nat \<Rightarrow> 'a) \<Rightarrow> 'a attempting" where
  "askD f s = (s\<lparr>dl_ev := Suc (dl_ev s)\<rparr>, Inr (f (dl_ev s)))"

definition nowD :: "dial_world \<Rightarrow> int attempting" where
  "nowD W = askD (dw_clock W)"

definition stopD :: "dial_world \<Rightarrow> bool attempting" where
  "stopD W s = (let b = (dl_stop s \<or> dw_stop W (dl_ev s)) in (s\<lparr>dl_ev := Suc (dl_ev s), dl_stop := b\<rparr>, Inr b))"

definition pollD :: "dial_world \<Rightarrow> int \<Rightarrow> poll_answer attempting" where
  "pollD W timeout s = (s\<lparr>dl_ev := Suc (dl_ev s), dl_polls := dl_polls s @ [timeout]\<rparr>, Inr (dw_poll W (dl_ev s) timeout))"

definition failD :: "string \<Rightarrow> 'a attempting" where
  "failD m = throwS (DialFail m)"

definition errorD :: "int \<Rightarrow> unit attempting" where
  "errorD e = modS (\<lambda>s. s\<lparr>dl_error := e\<rparr>)"

definition closeD :: "int \<Rightarrow> unit attempting" where
  "closeD fd = modS (\<lambda>s. s\<lparr>dl_open := remove1 fd (dl_open s)\<rparr>)"

definition milliseconds :: "int \<Rightarrow> int" where
  "milliseconds ns = ns sdiv 1000000"

section \<open>connect_tcp\<close>

text \<open>Waiting for a connection under way: whether it was established before the deadline.\<close>

fun wait_connected :: "dial_world \<Rightarrow> int \<Rightarrow> nat \<Rightarrow> bool attempting" where
  "wait_connected W deadline 0 = throwS DialCut"
| "wait_connected W deadline (Suc n) =
     bindS (stopD W) (\<lambda>stop. if stop then retS (Inr False) else
     bindS (nowD W) (\<lambda>t. if \<not> t < deadline then retS (Inr False) else
     bindS (nowD W) (\<lambda>u.
     let remaining = milliseconds (deadline - u) in
     bindS (pollD W (min remaining 250)) (\<lambda>p.
       case p of
         PollError e \<Rightarrow> if e = EINTR then wait_connected W deadline n else thenS (errorD e) (retS (Inr False))
       | PollNothing \<Rightarrow> wait_connected W deadline n
       | PollEvents nval out _ \<Rightarrow>
           if nval then thenS (errorD EBADF) (retS (Inr False))
           else bindS (askD (dw_sockopt W)) (\<lambda>q.
             case q of
               Inl e \<Rightarrow> thenS (errorD e) (retS (Inr False))
             | Inr soerr \<Rightarrow>
                 if soerr = 0 \<and> out then retS (Inr True)
                 else thenS (errorD (if soerr \<noteq> 0 then soerr else ECONNRESET)) (retS (Inr False)))))))"

text \<open>One candidate: the descriptor if it is connected.\<close>

definition try_candidate :: "dial_world \<Rightarrow> int \<Rightarrow> nat \<Rightarrow> int option attempting" where
  "try_candidate W deadline n =
     bindS (askD (dw_socket W)) (\<lambda>r.
       case r of
         Inl e \<Rightarrow> thenS (errorD e) (retS (Inr None))
       | Inr fd \<Rightarrow>
           thenS (modS (\<lambda>s. s\<lparr>dl_open := dl_open s @ [fd]\<rparr>))
           (bindS (askD (dw_nonblock W)) (\<lambda>r.
             case r of
               Some e \<Rightarrow> thenS (errorD e) (thenS (closeD fd) (retS (Inr None)))
             | None \<Rightarrow>
                 bindS (askD (dw_connect W)) (\<lambda>r.
                   case r of
                     None \<Rightarrow> retS (Inr (Some fd))
                   | Some e \<Rightarrow>
                       if e \<noteq> EINPROGRESS then thenS (errorD e) (thenS (closeD fd) (retS (Inr None)))
                       else thenS (errorD ETIMEDOUT)
                         (bindS (wait_connected W deadline n) (\<lambda>connected.
                            if connected then retS (Inr (Some fd)) else thenS (closeD fd) (retS (Inr None))))))))"

text \<open>The candidates left, by the number of the attempt. Each gets its share of the time that is left, but not less than 250 ms.\<close>

fun connect_loop :: "dial_world \<Rightarrow> config \<Rightarrow> nat \<Rightarrow> u64 \<Rightarrow> nat \<Rightarrow> int \<Rightarrow> nat \<Rightarrow> nat list \<Rightarrow> int option attempting" where
  "connect_loop W cfg candidates dial attempts overall n [] = retS (Inr None)"
| "connect_loop W cfg candidates dial attempts overall n (i # rest) =
     bindS (stopD W) (\<lambda>stop. if stop then retS (Inr None) else
     case edge_address_index candidates dial i (edge_dns_rotation cfg) of
       Inl _ \<Rightarrow> failD ''edge attempt out of range''
     | Inr idx \<Rightarrow>
         bindS (nowD W) (\<lambda>t.
         let remaining = milliseconds (overall - t) in
         if remaining \<le> 0 then retS (Inr None)
         else bindS (nowD W) (\<lambda>u.
           let budget = max 250 (remaining sdiv int (attempts - i)); deadline = min overall (u + budget * 1000000) in
           thenS (modS (\<lambda>s. s\<lparr>dl_tried := dl_tried s @ [idx]\<rparr>))
           (bindS (try_candidate W deadline n) (\<lambda>r.
             case r of Some fd \<Rightarrow> retS (Inr (Some fd)) | None \<Rightarrow> connect_loop W cfg candidates dial attempts overall n rest)))))"

text \<open>At most the first eight addresses of the families 2 (IPv4) and 10 (IPv6).\<close>

definition usable :: "int list \<Rightarrow> int list" where
  "usable families = take 8 (filter (\<lambda>f. f = 2 \<or> f = 10) families)"

definition connect_tcp :: "dial_world \<Rightarrow> config \<Rightarrow> string \<Rightarrow> nat \<Rightarrow> int attempting" where
  "connect_tcp W cfg hp n =
     (case split_hostport hp of
        Inl m \<Rightarrow> failD m
      | Inr (host, port) \<Rightarrow>
          bindS (askD (dw_resolve W)) (\<lambda>r.
          case r of
            Inl m \<Rightarrow> failD (''DNS resolution failed for '' @ host @ '': '' @ m)
          | Inr families \<Rightarrow>
              let candidates = length (usable families) in
              if candidates = 0 then failD (''DNS returned no usable TCP addresses for '' @ host)
              else bindS (if edge_dns_rotation cfg then askD (dw_sequence W) else retS (Inr 0)) (\<lambda>dial.
                let attempts = (if edge_dns_rotation cfg then min candidates 3 else candidates) in
                bindS (nowD W) (\<lambda>t.
                thenS (errorD ETIMEDOUT)
                (bindS (connect_loop W cfg candidates dial attempts (t + connect_timeout_sec cfg * 1000000000) n [0..<attempts]) (\<lambda>r.
                  case r of
                    Some fd \<Rightarrow> retS (Inr fd)
                  | None \<Rightarrow>
                      bindS (stopD W) (\<lambda>stop.
                        if stop then failD ''shutdown requested''
                        else withS (\<lambda>s. failD (''TCP connect failed to '' @ hp @ '': '' @ dw_strerror W (dl_error s)))))))))) "

section \<open>The TLS handshake\<close>

fun wait_for_ssl_io :: "dial_world \<Rightarrow> int \<Rightarrow> nat \<Rightarrow> unit attempting" where
  "wait_for_ssl_io W timeout_ms 0 = throwS DialCut"
| "wait_for_ssl_io W timeout_ms (Suc n) =
     bindS (stopD W) (\<lambda>stop. if stop then failD ''shutdown requested'' else
     bindS (pollD W (min timeout_ms 250)) (\<lambda>p.
       let later = (if timeout_ms - 250 \<le> 0 then failD ''TLS handshake timeout'' else wait_for_ssl_io W (timeout_ms - 250) n) in
       case p of
         PollEvents nval asked gone \<Rightarrow>
           if nval then failD ''TLS socket invalid during handshake''
           else if asked then skipS
           else if gone then failD ''TLS socket closed during handshake''
           else wait_for_ssl_io W timeout_ms n
       | PollError e \<Rightarrow> if e \<noteq> EINTR then failD ''TLS handshake poll failed'' else later
       | PollNothing \<Rightarrow> later))"

fun ssl_handshake_loop :: "dial_world \<Rightarrow> bool \<Rightarrow> int \<Rightarrow> nat \<Rightarrow> nat \<Rightarrow> unit attempting" where
  "ssl_handshake_loop W accepting deadline m 0 = throwS DialCut"
| "ssl_handshake_loop W accepting deadline m (Suc n) =
     bindS (stopD W) (\<lambda>stop. if stop then failD ''shutdown requested'' else
     bindS (askD (dw_ssl W)) (\<lambda>r.
       let wait = bindS (nowD W) (\<lambda>t.
             let remain = milliseconds (deadline - t) in
             if remain \<le> 0 then failD ''TLS handshake timeout''
             else thenS (wait_for_ssl_io W remain m) (ssl_handshake_loop W accepting deadline m n)) in
       case r of
         SslDone \<Rightarrow> skipS
       | SslError e \<Rightarrow> failD ((if accepting then ''TLS accept failed: '' else ''TLS connect failed: '') @ e)
       | SslWantRead \<Rightarrow> wait
       | SslWantWrite \<Rightarrow> wait))"

definition ssl_handshake :: "dial_world \<Rightarrow> bool \<Rightarrow> int \<Rightarrow> nat \<Rightarrow> nat \<Rightarrow> unit attempting" where
  "ssl_handshake W accepting timeout_sec m n =
     bindS (askD (dw_nonblock W)) (\<lambda>r.
       case r of
         Some _ \<Rightarrow> failD ''set nonblocking failed''
       | None \<Rightarrow> bindS (nowD W) (\<lambda>t. ssl_handshake_loop W accepting (t + timeout_sec * 1000000000) m n))"

section \<open>The uTLS side car\<close>

definition utls_marker :: string where
  "utls_marker = ''UTLSOK1'' @ [CHR 0x0A]"

fun utls_loop :: "dial_world \<Rightarrow> int \<Rightarrow> string \<Rightarrow> nat \<Rightarrow> string attempting" where
  "utls_loop W deadline received 0 = throwS DialCut"
| "utls_loop W deadline received (Suc n) =
     (if length received \<ge> length utls_marker then retS (Inr received) else
     bindS (nowD W) (\<lambda>t.
     let remaining = milliseconds (deadline - t) in
     if remaining \<le> 0 then failD ''uTLS adapter TLS handshake timeout''
     else bindS (pollD W (min remaining 250)) (\<lambda>p.
       case p of
         PollError e \<Rightarrow> if e = EINTR then utls_loop W deadline received n else failD ''uTLS adapter readiness poll failed''
       | PollNothing \<Rightarrow> utls_loop W deadline received n
       | PollEvents _ _ _ \<Rightarrow>
           bindS (askD (\<lambda>k. dw_recv W k (length utls_marker - length received))) (\<lambda>r.
             case r of
               Received b \<Rightarrow>
                 if b = [] then failD ''uTLS adapter closed before verified TLS handshake; check sidecar logs''
                 else utls_loop W deadline (received @ take (length utls_marker - length received) b) n
             | RecvAgain \<Rightarrow> utls_loop W deadline received n
             | RecvFailed \<Rightarrow> failD ''uTLS adapter readiness read failed''))))"

definition wait_utls_tls_ready :: "dial_world \<Rightarrow> int \<Rightarrow> nat \<Rightarrow> unit attempting" where
  "wait_utls_tls_ready W timeout_sec n =
     bindS (nowD W) (\<lambda>t.
     bindS (utls_loop W (t + (max 1 timeout_sec * 2 + 2) * 1000000000) [] n) (\<lambda>received.
       if received \<noteq> utls_marker then failD ''uTLS adapter protocol version mismatch'' else skipS))"

section \<open>Secret files\<close>

text \<open>\<open>perms\<close> is \<open>st_mode\<close> of a path, \<open>None\<close> when \<open>stat\<close> fails.\<close>

fun check_paths :: "(string \<Rightarrow> nat option) \<Rightarrow> string list \<Rightarrow> (string, unit) result" where
  "check_paths perms [] = Inr ()"
| "check_paths perms (f # fs) =
     (if f = [] then check_paths perms fs
      else case perms f of
        None \<Rightarrow> Inl (''cannot stat secret file: '' @ f)
      | Some m \<Rightarrow> if m mod 64 \<noteq> 0 then Inl (''insecure secret permissions (expected 0600): '' @ f) else check_paths perms fs)"

definition check_secret_permissions :: "(string \<Rightarrow> nat option) \<Rightarrow> config \<Rightarrow> (string, unit) result" where
  "check_secret_permissions perms cfg =
     (if \<not> strict_file_permissions cfg then Inr () else check_paths perms [psk_file cfg, psk_previous_file cfg, tls_key cfg])"

end
