(* ===== verification/DialProps.thy ===== *)
theory DialProps
  imports Dial
begin

text \<open>
  What holds of dialling, whatever the resolver, the kernel and the peer do: no descriptor leaks, the candidates are tried
  once each, and everything comes to an end as time passes.
\<close>

section \<open>Descriptors and candidates\<close>

definition dial_state :: "int list \<Rightarrow> nat list \<Rightarrow> dialer \<Rightarrow> bool" where
  "dial_state fds tried s \<longleftrightarrow> dl_open s = fds \<and> dl_tried s = tried \<and> (\<forall>t \<in> set (dl_polls s). t \<le> 250)"

lemma dial_basic:
  "runs (dial_state o1 ts) (askD f) (\<lambda>r s. dial_state o1 ts s \<and> (\<exists>x. r = Inr x))"
  "runs (dial_state o1 ts) (nowD W) (\<lambda>r s. dial_state o1 ts s \<and> (\<exists>x. r = Inr x))"
  "runs (dial_state o1 ts) (stopD W) (\<lambda>r s. dial_state o1 ts s \<and> (\<exists>x. r = Inr x))"
  "t \<le> 250 \<Longrightarrow> runs (dial_state o1 ts) (pollD W t) (\<lambda>r s. dial_state o1 ts s \<and> (\<exists>x. r = Inr x))"
  "runs (dial_state o1 ts) (errorD e) (\<lambda>r s. dial_state o1 ts s \<and> (\<exists>x. r = Inr x))"
  by (simp_all add: runs_def askD_def nowD_def stopD_def pollD_def errorD_def modS_def Let_def dial_state_def)

lemma runs_ask:
  assumes "runs I m (\<lambda>r s. I s \<and> (\<exists>x. r = Inr x))" "\<And>x. runs I (f x) J"
  shows "runs I (bindS m f) J"
  by (rule runs_bindS [OF assms(1)]) (auto intro: runs_pre [OF assms(2)])

lemma runs_next:
  assumes "runs I m (\<lambda>r s. I s \<and> (\<exists>x. r = Inr x))" "runs I k J"
  shows "runs I (thenS m k) J"
  unfolding thenS_def by (rule runs_ask [OF assms])

lemma wait_connected_open:
  "runs (dial_state o1 ts) (wait_connected W deadline n) (\<lambda>r s. dial_state o1 ts s \<and> (case r of Inr _ \<Rightarrow> True | Inl e \<Rightarrow> e = DialCut))"
proof (induction n)
  case 0
  then show ?case by (auto intro: runs_throwS)
next
  case (Suc n)
  show ?case
    unfolding wait_connected.simps Let_def
    by (auto intro!: runs_ask runs_next dial_basic runs_retS Suc.IH split: poll_answer.splits sum.splits)
qed

definition candidate_result :: "nat list \<Rightarrow> (dial_error, int option) result \<Rightarrow> dialer \<Rightarrow> bool" where
  "candidate_result ts r s \<longleftrightarrow>
     (case r of Inl e \<Rightarrow> e = DialCut | Inr None \<Rightarrow> dial_state [] ts s | Inr (Some fd) \<Rightarrow> dial_state [fd] ts s) \<and>
     dl_tried s = ts \<and> (\<forall>t \<in> set (dl_polls s). t \<le> 250)"

lemma candidate_intros:
  "runs (dial_state [] ts) (retS (Inr None)) (candidate_result ts)"
  "runs (dial_state [fd] ts) (retS (Inr (Some fd))) (candidate_result ts)"
  "runs (dial_state [fd] ts) (thenS (closeD fd) (retS (Inr None))) (candidate_result ts)"
  by (simp_all add: runs_def retS_def thenS_def bindS_def closeD_def modS_def candidate_result_def dial_state_def)

lemma try_candidate_open: "runs (dial_state [] ts) (try_candidate W deadline n) (candidate_result ts)"
proof -
  have w: "runs (dial_state [fd] ts) (bindS (wait_connected W deadline n) (\<lambda>connected. if connected then retS (Inr (Some fd))
      else thenS (closeD fd) (retS (Inr None)))) (candidate_result ts)" for fd
    by (rule runs_bindS [OF wait_connected_open])
      (auto intro: runs_pre [OF candidate_intros(2)] runs_pre [OF candidate_intros(3)] simp: candidate_result_def dial_state_def)
  have o: "runs (dial_state [] ts) (thenS (modS (\<lambda>s. s\<lparr>dl_open := dl_open s @ [fd]\<rparr>)) k) J" if "runs (dial_state [fd] ts) k J" for fd k J
    using that by (simp add: runs_def thenS_def bindS_def modS_def dial_state_def)
  show ?thesis
    unfolding try_candidate_def
    by (auto intro!: runs_ask dial_basic o candidate_intros runs_next w split: sum.splits option.splits)
qed

lemma edge_order:
  assumes "0 < candidates"
  obtains order where "\<And>i. i < candidates \<Longrightarrow> edge_address_index candidates dial i rot = Inr (order ! i)" "distinct order" "length order = candidates"
proof -
  from edge_addresses_covered [OF assms] obtain order where o:
      "map (\<lambda>a. edge_address_index candidates dial a rot) [0..<candidates] = map Inr order" "mset order = mset [0..<candidates]" by blast
  then have l: "length order = candidates" by (metis length_map length_upt minus_nat.diff_0)
  have "edge_address_index candidates dial i rot = Inr (order ! i)" if "i < candidates" for i
    using arg_cong [OF o(1), of "\<lambda>xs. xs ! i"] that l by simp
  moreover have "distinct order" using o(2) by (metis distinct_upt mset_eq_imp_distinct_iff)
  ultimately show ?thesis using l by (rule that)
qed

text \<open>The attempts take the candidates of an order one after the other.\<close>

definition loop_result :: "nat list \<Rightarrow> nat \<Rightarrow> (dial_error, int option) result \<Rightarrow> dialer \<Rightarrow> bool" where
  "loop_result order attempts r s \<longleftrightarrow> (\<exists>k \<le> attempts. candidate_result (take k order) r s)"

lemma connect_loop_open:
  assumes "\<And>i. i < attempts \<Longrightarrow> edge_address_index candidates dial i (edge_dns_rotation cfg) = Inr (order ! i)" "attempts \<le> length order"
  shows "i \<le> attempts \<Longrightarrow> runs (dial_state [] (take i order)) (connect_loop W cfg candidates dial attempts overall n [i..<attempts]) (loop_result order attempts)"
proof (induction "attempts - i" arbitrary: i)
  case 0
  then have "[i..<attempts] = []" by simp
  then show ?case using 0 by (auto intro!: runs_retS simp: loop_result_def candidate_result_def dial_state_def)
next
  case (Suc k)
  then have i: "i < attempts" "i < length order" using assms(2) by linarith+
  have ret: "runs (dial_state [] (take i order)) (retS (Inr None)) (loop_result order attempts)"
    using i by (auto intro!: runs_retS exI [of _ i] simp: loop_result_def candidate_result_def dial_state_def)
  let ?next = "connect_loop W cfg candidates dial attempts overall n [Suc i..<attempts]"
  have rest: "runs (dial_state [] (take (Suc i) order)) ?next (loop_result order attempts)" using Suc i by (intro Suc.hyps(1)) auto
  have try_one: "runs (dial_state [] (take (Suc i) order)) (bindS (try_candidate W d n) (\<lambda>r. case r of Some fd \<Rightarrow> retS (Inr (Some fd)) | None \<Rightarrow> ?next))
      (loop_result order attempts)" for d
  proof (rule runs_bindS [OF try_candidate_open])
    show "runs (candidate_result (take (Suc i) order) (Inr x)) (case x of Some fd \<Rightarrow> retS (Inr (Some fd)) | None \<Rightarrow> ?next) (loop_result order attempts)" for x
    proof (cases x)
      case None
      then show ?thesis by (auto intro: runs_pre [OF rest] simp: candidate_result_def)
    next
      case (Some fd)
      then show ?thesis using i by (auto intro!: runs_retS exI [of _ "Suc i"] simp: loop_result_def)
    qed
    show "loop_result order attempts (Inl e) s" if "candidate_result (take (Suc i) order) (Inl e) s" for e s
      using that i by (auto simp: loop_result_def candidate_result_def intro!: exI [of _ "Suc i"])
  qed
  have mark: "runs (dial_state [] (take i order)) (thenS (modS (\<lambda>s. s\<lparr>dl_tried := dl_tried s @ [order ! i]\<rparr>)) k) J"
    if "runs (dial_state [] (take (Suc i) order)) k J" for k :: "int option attempting" and J
    using that i by (simp add: runs_def thenS_def bindS_def modS_def dial_state_def take_Suc_conv_app_nth)
  have u: "[i..<attempts] = i # [Suc i..<attempts]" using i by (simp add: upt_conv_Cons)
  show ?case
    unfolding u connect_loop.simps assms(1) [OF i(1)] sum.case Let_def
    by (auto intro!: runs_ask dial_basic ret mark try_one)
qed

section \<open>An end\<close>

text \<open>Time passes: the clock is monotonic and leaves every moment behind.\<close>

definition time_passes :: "dial_world \<Rightarrow> bool" where
  "time_passes W \<longleftrightarrow> mono (dw_clock W) \<and> (\<forall>t. \<exists>k. t \<le> dw_clock W k)"

text \<open>When \<open>poll\<close> reports events, one of them is \<open>POLLNVAL\<close>, \<open>POLLERR\<close>, \<open>POLLHUP\<close> or was asked for.\<close>

definition polls_fair :: "dial_world \<Rightarrow> bool" where
  "polls_fair W \<longleftrightarrow> (\<forall>k t. dw_poll W k t \<noteq> PollEvents False False False)"

definition uncut :: "('s, dial_error, 'a) se \<Rightarrow> 's \<Rightarrow> bool" where
  "uncut m s \<longleftrightarrow> snd (m s) \<noteq> Inl DialCut"

lemma uncut_simps [simp]:
  "uncut (retS (Inr x)) s" "uncut (failD m) u" "uncut skipS s"
  "uncut (bindS (stopD W) f) u = uncut (f (dl_stop u \<or> dw_stop W (dl_ev u))) (u\<lparr>dl_ev := Suc (dl_ev u), dl_stop := dl_stop u \<or> dw_stop W (dl_ev u)\<rparr>)"
  "uncut (bindS (nowD W) g) u = uncut (g (dw_clock W (dl_ev u))) (u\<lparr>dl_ev := Suc (dl_ev u)\<rparr>)"
  "uncut (bindS (askD a) h) u = uncut (h (a (dl_ev u))) (u\<lparr>dl_ev := Suc (dl_ev u)\<rparr>)"
  "uncut (bindS (pollD W t) p) u = uncut (p (dw_poll W (dl_ev u) t)) (u\<lparr>dl_ev := Suc (dl_ev u), dl_polls := dl_polls u @ [t]\<rparr>)"
  "uncut (thenS (errorD e) k) u = uncut k (u\<lparr>dl_error := e\<rparr>)" "uncut (thenS (closeD fd) k) u = uncut k (u\<lparr>dl_open := remove1 fd (dl_open u)\<rparr>)"
  "uncut (thenS (modS v) k2) s = uncut k2 (v s)" "uncut (bindS (retS (Inr x)) h2) s = uncut (h2 x) s"
  by (simp_all add: uncut_def retS_def failD_def throwS_def skipS_def bindS_def thenS_def modS_def stopD_def nowD_def askD_def pollD_def errorD_def closeD_def Let_def)

lemma wait_connected_uncut:
  assumes "\<And>k. K \<le> k \<Longrightarrow> deadline \<le> dw_clock W k"
  shows "0 < n \<Longrightarrow> K < n + dl_ev s \<Longrightarrow> uncut (wait_connected W deadline n) s"
proof (induction n arbitrary: s)
  case (Suc n)
  show ?case
  proof (cases "dw_clock W (Suc (dl_ev s)) < deadline")
    case True
    then have "Suc (dl_ev s) < K" using assms by (meson leD not_le)
    then have "uncut (wait_connected W deadline n) u" if "dl_ev s < dl_ev u" for u
      by (intro Suc.IH) (use Suc.prems that \<open>Suc (dl_ev s) < K\<close> in linarith)+
    then show ?thesis by (auto simp: Let_def split: poll_answer.splits sum.splits)
  next
    case False
    then show ?thesis by simp
  qed
qed simp

text \<open>The counter of the world only grows.\<close>

definition onward :: "dialer \<Rightarrow> dialer \<Rightarrow> bool" where
  "onward s s' \<longleftrightarrow> dl_ev s \<le> dl_ev s'"

interpretation onward: preserved onward
  by unfold_locales (auto simp: onward_def)

lemma onward_basic [intro]:
  "keeps onward (stopD W)" "keeps onward (nowD W)" "keeps onward (askD f)" "keeps onward (pollD W t)" "keeps onward (errorD e)" "keeps onward (closeD fd)"
  "keeps onward (failD m)" "keeps onward (throwS x)" "keeps onward skipS"
  by (simp_all add: keeps_def onward_def stopD_def nowD_def askD_def pollD_def errorD_def closeD_def failD_def throwS_def modS_def retS_def skipS_def Let_def)

lemmas onward_rules = onward.keeps_retS onward.keeps_bindS onward.keeps_thenS onward.keeps_modS onward_basic

lemma onward_wait: "keeps onward (wait_connected W deadline n)"
  by (induction n) (auto intro!: onward_rules simp: Let_def split: poll_answer.splits sum.splits)

lemma onward_try: "keeps onward (try_candidate W deadline n)"
  unfolding try_candidate_def
  by (auto intro!: onward_rules onward_wait simp: onward_def split: sum.splits option.splits)

lemma try_candidate_uncut:
  assumes "\<And>k. K \<le> k \<Longrightarrow> deadline \<le> dw_clock W k" "K < n"
  shows "uncut (try_candidate W deadline n) s"
proof -
  have w: "uncut (wait_connected W deadline n) u" for u
    by (rule wait_connected_uncut [where K = K]) (use assms in auto)
  have "uncut (bindS (wait_connected W deadline n) (\<lambda>connected. if connected then retS (Inr (Some fd)) else thenS (closeD fd) (retS (Inr None)))) u" for u fd
    using w [of u] by (cases "wait_connected W deadline n u") (auto simp: uncut_def bindS_def thenS_def closeD_def modS_def retS_def split: sum.splits)
  then show ?thesis unfolding try_candidate_def by (auto split: sum.splits option.splits)
qed

lemma connect_loop_uncut:
  assumes "\<And>k. K \<le> k \<Longrightarrow> overall \<le> dw_clock W k" "K < n"
  shows "uncut (connect_loop W cfg candidates dial attempts overall n is) s"
proof (induction "is" arbitrary: s)
  case Nil
  then show ?case by simp
next
  case (Cons i "is")
  have "uncut (bindS (try_candidate W d n) (\<lambda>r. case r of Some fd \<Rightarrow> retS (Inr (Some fd)) | None \<Rightarrow> connect_loop W cfg candidates dial attempts overall n is)) u"
    if "d \<le> overall" for d u
  proof -
    have "d \<le> dw_clock W k" if "K \<le> k" for k using assms(1) [OF that] \<open>d \<le> overall\<close> by simp
    note t = try_candidate_uncut [OF this assms(2), of u]
    obtain u' r where e: "try_candidate W d n u = (u', r)" by fastforce
    show ?thesis
    proof (cases r)
      case (Inl x)
      then show ?thesis using t e by (simp add: uncut_def bindS_def)
    next
      case (Inr x)
      then show ?thesis using Cons.IH e by (cases x) (simp_all add: uncut_def bindS_def retS_def)
    qed
  qed
  then show ?case by (auto simp: Let_def split: sum.splits)
qed

lemma connect_tcp_uncut:
  assumes "time_passes W"
  shows "\<exists>N. \<forall>n \<ge> N. uncut (connect_tcp W cfg hp n) s"
proof -
  let ?after = "\<lambda>t. SOME K. t \<le> dw_clock W K"
  have after: "t \<le> dw_clock W k" if "?after t \<le> k" for t k
    using assms that someI_ex [of "\<lambda>K. t \<le> dw_clock W K"] by (auto simp: time_passes_def dest: monoD intro: order_trans)
  define T where "T = (\<lambda>k. dw_clock W k + connect_timeout_sec cfg * 1000000000)"
  define N where "N = Suc (max (?after (T (Suc (dl_ev s)))) (?after (T (Suc (Suc (dl_ev s))))))"
  have "uncut (connect_tcp W cfg hp n) s" if n: "N \<le> n" for n
  proof -
    have e: "uncut (bindS (connect_loop W cfg c d a (T k) n is) (\<lambda>r. case r of Some fd \<Rightarrow> retS (Inr fd)
        | None \<Rightarrow> bindS (stopD W) (\<lambda>stop. if stop then failD m1 else withS (\<lambda>s. failD (m2 s))))) u"
      if "k = Suc (dl_ev s) \<or> k = Suc (Suc (dl_ev s))" for k c d a "is" u m1 m2
    proof -
      have "?after (T k) < n" using that n by (auto simp: N_def)
      then have l: "uncut (connect_loop W cfg c d a (T k) n is) u" using connect_loop_uncut [of "?after (T k)" "T k" W n] after by blast
      obtain u' r where e: "connect_loop W cfg c d a (T k) n is u = (u', r)" by fastforce
      show ?thesis
      proof (cases r)
        case (Inl x)
        then show ?thesis using l e by (simp add: uncut_def bindS_def)
      next
        case (Inr x)
        then show ?thesis using e by (cases x) (simp_all add: uncut_def bindS_def retS_def stopD_def withS_def failD_def throwS_def Let_def)
      qed
    qed
    show ?thesis
      using e [of "Suc (dl_ev s)"] e [of "Suc (Suc (dl_ev s))"]
      unfolding connect_tcp_def T_def by (auto simp: Let_def bindS_retS split: sum.splits)
  qed
  then show ?thesis by blast
qed

lemma milliseconds_le:
  assumes "x \<le> c * 1000000" "0 \<le> c"
  shows "milliseconds x \<le> c"
proof (cases "0 \<le> x")
  case True
  have "x div 1000000 \<le> c * 1000000 div 1000000" using assms(1) by (rule zdiv_mono1) simp
  then show ?thesis using True assms(2) by (simp add: milliseconds_def signed_divide_int_def sgn_if)
next
  case False
  then have "0 \<le> - x div 1000000" by (simp add: pos_imp_zdiv_nonneg_iff)
  then show ?thesis using False assms(2) by (simp add: milliseconds_def signed_divide_int_def sgn_if)
qed

lemma milliseconds_past: "x \<le> 0 \<Longrightarrow> milliseconds x \<le> 0"
  using milliseconds_le [of x 0] by simp

lemma wait_ssl_uncut:
  assumes "polls_fair W"
  shows "0 < n \<Longrightarrow> timeout \<le> 250 * int n \<Longrightarrow> uncut (wait_for_ssl_io W timeout n) s"
proof (induction n arbitrary: s timeout)
  case (Suc n)
  have "uncut (wait_for_ssl_io W (timeout - 250) n) u" if "0 < timeout - 250" for u
    using Suc.prems(2) that by (intro Suc.IH) auto
  moreover have "dw_poll W k t \<noteq> PollEvents False False False" for k t using assms by (simp add: polls_fair_def)
  ultimately show ?case by (auto simp: Let_def split: poll_answer.splits)
qed simp

lemma onward_ssl_io: "keeps onward (wait_for_ssl_io W timeout n)"
  by (induction n arbitrary: timeout) (auto intro!: onward_rules simp: Let_def split: poll_answer.splits)

lemma ssl_loop_uncut:
  assumes "polls_fair W" "0 < m" "\<And>k. e \<le> k \<Longrightarrow> milliseconds (deadline - dw_clock W k) \<le> 250 * int m" "\<And>k. K \<le> k \<Longrightarrow> deadline \<le> dw_clock W k"
  shows "0 < n \<Longrightarrow> K < n + dl_ev s \<Longrightarrow> e \<le> dl_ev s \<Longrightarrow> uncut (ssl_handshake_loop W accepting deadline m n) s"
proof (induction n arbitrary: s)
  case (Suc n)
  let ?k = "Suc (Suc (dl_ev s))"
  have "uncut (thenS (wait_for_ssl_io W (milliseconds (deadline - dw_clock W ?k)) m) (ssl_handshake_loop W accepting deadline m n)) u"
    if "Suc ?k = dl_ev u" "0 < milliseconds (deadline - dw_clock W ?k)" for u
  proof -
    have "?k < K" using that(2) assms(4) [of ?k] milliseconds_past [of "deadline - dw_clock W ?k"] by (meson diff_le_0_iff_le leD not_le)
    obtain u' r where w: "wait_for_ssl_io W (milliseconds (deadline - dw_clock W ?k)) m u = (u', r)" by fastforce
    have a: "dl_ev u \<le> dl_ev u'" using onward_ssl_io w unfolding keeps_def onward_def by (metis fst_conv)
    have b: "uncut (wait_for_ssl_io W (milliseconds (deadline - dw_clock W ?k)) m) u"
      by (rule wait_ssl_uncut [OF assms(1,2)]) (use assms(3) [of ?k] Suc.prems(3) in simp)
    have "uncut (ssl_handshake_loop W accepting deadline m n) u'"
      by (rule Suc.IH) (use Suc.prems that(1) a \<open>?k < K\<close> in linarith)+
    then show ?thesis using b w by (cases r) (simp_all add: uncut_def thenS_def bindS_def)
  qed
  then show ?case by (auto simp: Let_def not_le split: ssl_answer.splits)
qed simp

lemma utls_loop_uncut:
  assumes "\<And>k. K \<le> k \<Longrightarrow> deadline \<le> dw_clock W k"
  shows "0 < n \<Longrightarrow> K < n + dl_ev s \<Longrightarrow> uncut (utls_loop W deadline received n) s"
proof (induction n arbitrary: s received)
  case (Suc n)
  have "uncut (utls_loop W deadline x n) u" if "dl_ev s < dl_ev u" "0 < milliseconds (deadline - dw_clock W (dl_ev s))" for x u
  proof -
    have "dl_ev s < K" using that(2) assms [of "dl_ev s"] milliseconds_past [of "deadline - dw_clock W (dl_ev s)"] by (meson diff_le_0_iff_le leD not_le)
    then show ?thesis by (intro Suc.IH) (use Suc.prems that(1) in linarith)+
  qed
  then show ?case by (auto simp: Let_def not_le split: poll_answer.splits recv_answer.splits)
qed simp

section \<open>The times \<open>poll\<close> is given\<close>

definition poll_waits :: "(int \<Rightarrow> bool) \<Rightarrow> dialer \<Rightarrow> dialer \<Rightarrow> bool" where
  "poll_waits P s s' \<longleftrightarrow> (\<exists>ts. dl_polls s' = dl_polls s @ ts \<and> (\<forall>t \<in> set ts. P t))"

interpretation poll_waits: preserved "poll_waits P" for P
proof
  show "poll_waits P s s" for s by (simp add: poll_waits_def)
  show "poll_waits P s t \<Longrightarrow> poll_waits P t u \<Longrightarrow> poll_waits P s u" for s t u by (auto simp: poll_waits_def)
qed

lemma poll_waits_same: "dl_polls s' = dl_polls s \<Longrightarrow> poll_waits P s s'"
  by (simp add: poll_waits_def)

lemma poll_waits_basic [intro]:
  "keeps (poll_waits P) (stopD W)" "keeps (poll_waits P) (nowD W)" "keeps (poll_waits P) (askD f)" "keeps (poll_waits P) (errorD e)" "keeps (poll_waits P) (closeD fd)"
  "keeps (poll_waits P) (failD m)" "keeps (poll_waits P) (throwS x)" "keeps (poll_waits P) skipS"
  by (simp_all add: keeps_def poll_waits_same stopD_def nowD_def askD_def errorD_def closeD_def failD_def throwS_def modS_def retS_def skipS_def Let_def)

lemma poll_waits_poll [intro]: "P t \<Longrightarrow> keeps (poll_waits P) (pollD W t)"
  by (simp add: keeps_def poll_waits_def pollD_def)

lemmas poll_waits_rules = poll_waits.keeps_retS poll_waits.keeps_bindS poll_waits.keeps_thenS poll_waits.keeps_modS poll_waits.keeps_withS poll_waits_basic poll_waits_poll

text \<open>Two readings of the clock, one right after the other.\<close>

lemma poll_waits_readings:
  assumes "\<And>k. \<not> Q (dw_clock W k) \<Longrightarrow> keeps (poll_waits P) (F (dw_clock W (Suc k)))"
  shows "keeps (poll_waits P) (bindS (nowD W) (\<lambda>t. if Q t then retS x else bindS (nowD W) F))"
  unfolding keeps_def
proof
  fix s :: dialer
  let ?s = "s\<lparr>dl_ev := Suc (Suc (dl_ev s))\<rparr>"
  have "poll_waits P ?s (fst (F (dw_clock W (Suc (dl_ev s))) ?s))" if "\<not> Q (dw_clock W (dl_ev s))" using assms [OF that] by (simp add: keeps_def)
  then show "poll_waits P s (fst (bindS (nowD W) (\<lambda>t. if Q t then retS x else bindS (nowD W) F) s))"
    by (auto simp: bindS_def nowD_def askD_def retS_def poll_waits_def)
qed

text \<open>A time from a deadline that passed between two such readings, or none that is negative.\<close>

definition connect_wait :: "dial_world \<Rightarrow> int \<Rightarrow> bool" where
  "connect_wait W t \<longleftrightarrow> t \<le> 250 \<and> (0 \<le> t \<or> (\<exists>k deadline. dw_clock W k < deadline \<and> deadline + 1000000 \<le> dw_clock W (Suc k) \<and>
     t = milliseconds (deadline - dw_clock W (Suc k))))"

lemma milliseconds_late: "- 1000000 < x \<Longrightarrow> 0 \<le> milliseconds x"
proof (cases "0 \<le> x")
  case False
  assume "- 1000000 < x"
  then have "- x div 1000000 = 0" using False by (intro div_pos_pos_trivial) auto
  then show ?thesis using False by (simp add: milliseconds_def signed_divide_int_def sgn_if)
qed (simp add: milliseconds_def signed_divide_int_def sgn_if pos_imp_zdiv_nonneg_iff)

lemma wait_connected_waits: "keeps (poll_waits (connect_wait W)) (wait_connected W deadline n)"
proof (induction n)
  case 0
  then show ?case by (auto intro: poll_waits_rules)
next
  case (Suc n)
  have "connect_wait W (min (milliseconds (deadline - dw_clock W (Suc k))) 250)" if "dw_clock W k < deadline" for k
  proof (cases "- 1000000 < deadline - dw_clock W (Suc k)")
    case True
    then show ?thesis using milliseconds_late by (simp add: connect_wait_def)
  next
    case False
    then have "min (milliseconds (deadline - dw_clock W (Suc k))) 250 = milliseconds (deadline - dw_clock W (Suc k))"
      using milliseconds_past [of "deadline - dw_clock W (Suc k)"] by simp
    moreover have "deadline + 1000000 \<le> dw_clock W (Suc k)" "milliseconds (deadline - dw_clock W (Suc k)) \<le> 250"
      using False milliseconds_past [of "deadline - dw_clock W (Suc k)"] by simp_all
    ultimately show ?thesis using that unfolding connect_wait_def by metis
  qed
  then show ?case
    unfolding wait_connected.simps Let_def
    by (auto intro!: poll_waits_readings poll_waits.keeps_bindS poll_waits.keeps_thenS poll_waits.keeps_retS poll_waits_basic poll_waits_poll Suc.IH split: poll_answer.splits sum.splits)
qed

lemma connect_tcp_waits: "keeps (poll_waits (connect_wait W)) (connect_tcp W cfg hp n)"
proof -
  have t: "keeps (poll_waits (connect_wait W)) (try_candidate W deadline n)" for deadline
    unfolding try_candidate_def
    by (auto intro!: poll_waits_rules wait_connected_waits simp: poll_waits_def split: sum.splits option.splits)
  have "keeps (poll_waits (connect_wait W)) (connect_loop W cfg c d a overall n is)" for c d a overall "is"
    by (induction "is") (auto intro!: poll_waits_rules t simp: Let_def poll_waits_same split: sum.splits option.splits)
  then show ?thesis
    unfolding connect_tcp_def by (auto intro!: poll_waits_rules simp: Let_def split: sum.splits option.splits)
qed

abbreviation short_wait :: "int \<Rightarrow> bool" where
  "short_wait t \<equiv> 0 < t \<and> t \<le> 250"

lemma ssl_handshake_waits: "keeps (poll_waits short_wait) (ssl_handshake W accepting timeout m n)"
proof -
  have w: "0 < t \<Longrightarrow> keeps (poll_waits short_wait) (wait_for_ssl_io W t n)" for t n
    by (induction n arbitrary: t) (auto intro!: poll_waits_rules simp: Let_def split: poll_answer.splits)
  have "keeps (poll_waits short_wait) (ssl_handshake_loop W accepting d m n)" for d n
    by (induction n) (auto intro!: poll_waits_rules w simp: Let_def split: ssl_answer.splits)
  then show ?thesis unfolding ssl_handshake_def by (auto intro!: poll_waits_rules split: option.splits)
qed

lemma utls_waits: "keeps (poll_waits short_wait) (wait_utls_tls_ready W timeout n)"
proof -
  have "keeps (poll_waits short_wait) (utls_loop W d b n)" for d b n
    by (induction n arbitrary: b) (auto intro!: poll_waits_rules simp: Let_def split: poll_answer.splits recv_answer.splits)
  then show ?thesis unfolding wait_utls_tls_ready_def by (auto intro!: poll_waits_rules)
qed

section \<open>Properties\<close>

definition connect_done :: "config \<Rightarrow> (dial_error, int) result \<Rightarrow> dialer \<Rightarrow> bool" where
  "connect_done cfg r s \<longleftrightarrow> (case r of Inr fd \<Rightarrow> dl_open s = [fd] | Inl e \<Rightarrow> e = DialCut \<or> dl_open s = []) \<and> distinct (dl_tried s) \<and>
    length (dl_tried s) \<le> (if edge_dns_rotation cfg then 3 else 8) \<and> (\<forall>t \<in> set (dl_polls s). t \<le> 250)"

lemma connect_rest_done:
  assumes f: "usable fs \<noteq> []" and a: "a = (if edge_dns_rotation cfg then min (length (usable fs)) 3 else length (usable fs))"
  shows "runs (dial_state [] [])
    (bindS (connect_loop W cfg (length (usable fs)) dial a overall n [0..<a]) (\<lambda>r. case r of Some fd \<Rightarrow> retS (Inr fd)
      | None \<Rightarrow> bindS (stopD W) (\<lambda>stop. if stop then failD m1 else withS (\<lambda>s. failD (m2 s))))) (connect_done cfg)"
proof -
  have "length (usable fs) \<le> 8" by (simp add: usable_def)
  then have l: "a \<le> length (usable fs)" "a \<le> (if edge_dns_rotation cfg then 3 else 8)" using a by auto
  obtain order where o: "\<And>i. i < length (usable fs) \<Longrightarrow> edge_address_index (length (usable fs)) dial i (edge_dns_rotation cfg) = Inr (order ! i)"
      "distinct order" "length order = length (usable fs)"
    using edge_order [of "length (usable fs)" dial "edge_dns_rotation cfg"] f by auto
  have c: "runs (dial_state [] (take 0 order)) (connect_loop W cfg (length (usable fs)) dial a overall n [0..<a]) (loop_result order a)"
    by (rule connect_loop_open) (use o l in auto)
  have q: "connect_done cfg r' s'" if "candidate_result (take k order) (Inl e) s'" "r' = Inl e" "k \<le> a" for k e s' r'
    using that o(2) l by (auto simp: candidate_result_def connect_done_def)
  show ?thesis
  proof (rule runsI)
    fix s s' r assume i: "dial_state [] [] s" and m: "bindS (connect_loop W cfg (length (usable fs)) dial a overall n [0..<a]) (\<lambda>r. case r of Some fd \<Rightarrow> retS (Inr fd)
      | None \<Rightarrow> bindS (stopD W) (\<lambda>stop. if stop then failD m1 else withS (\<lambda>s. failD (m2 s)))) s = (s', r)"
    obtain s1 r1 where c1: "connect_loop W cfg (length (usable fs)) dial a overall n [0..<a] s = (s1, r1)" by fastforce
    have "loop_result order a r1 s1" using runsD [OF c _ c1] i by simp
    then obtain k where k: "k \<le> a" "candidate_result (take k order) r1 s1" by (auto simp: loop_result_def)
    have t: "distinct (dl_tried s1)" "length (dl_tried s1) \<le> (if edge_dns_rotation cfg then 3 else 8)" "\<forall>t \<in> set (dl_polls s1). t \<le> 250"
      using k o(2,3) l by (auto simp: candidate_result_def)
    show "connect_done cfg r s'"
    proof (cases r1)
      case (Inl e)
      then show ?thesis using m c1 k t by (auto simp: bindS_def candidate_result_def connect_done_def)
    next
      case (Inr x)
      show ?thesis
      proof (cases x)
        case None
        then have "dl_open s1 = []" using k(2) Inr by (simp add: candidate_result_def dial_state_def)
        moreover have "dl_open s' = dl_open s1 \<and> dl_tried s' = dl_tried s1 \<and> dl_polls s' = dl_polls s1 \<and> (\<exists>m. r = Inl (DialFail m))"
          using m c1 Inr None by (auto simp: bindS_def stopD_def withS_def failD_def throwS_def retS_def Let_def split: if_splits)
        ultimately show ?thesis using t by (auto simp: connect_done_def)
      next
        case (Some fd)
        then show ?thesis using m c1 Inr k(2) t by (auto simp: bindS_def retS_def candidate_result_def dial_state_def connect_done_def)
      qed
    qed
  qed
qed

lemma connect_tcp_done: "runs (dial_state [] []) (connect_tcp W cfg hp n) (connect_done cfg)"
proof -
  have fail: "runs (dial_state [] []) (failD m) (connect_done cfg)" for m
    by (auto simp: runs_def failD_def throwS_def retS_def dial_state_def connect_done_def)
  show ?thesis
  proof (cases "split_hostport hp")
    case (Inl m)
    then show ?thesis using fail by (simp add: connect_tcp_def)
  next
    case (Inr hostport)
    obtain host port where h: "hostport = (host, port)" by fastforce
    have number: "runs (dial_state [] []) (if edge_dns_rotation cfg then askD (dw_sequence W) else retS (Inr (0 :: u64))) (\<lambda>r s. dial_state [] [] s \<and> (\<exists>x. r = Inr x))"
      using dial_basic(1) [of "[]" "[]" "dw_sequence W"] by (auto intro: runs_retS)
    have found: "runs (dial_state [] []) (bindS (if edge_dns_rotation cfg then askD (dw_sequence W) else retS (Inr 0)) (\<lambda>dial.
        bindS (nowD W) (\<lambda>t. thenS (errorD ETIMEDOUT)
          (bindS (connect_loop W cfg (length (usable fs)) dial (if edge_dns_rotation cfg then min (length (usable fs)) 3 else length (usable fs))
             (t + connect_timeout_sec cfg * 1000000000) n [0..<if edge_dns_rotation cfg then min (length (usable fs)) 3 else length (usable fs)])
            (\<lambda>r. case r of Some fd \<Rightarrow> retS (Inr fd) | None \<Rightarrow> bindS (stopD W) (\<lambda>stop. if stop then failD m1 else withS (\<lambda>s. failD (m2 s)))))))) (connect_done cfg)"
      if "usable fs \<noteq> []" for fs m1 m2
      by (rule runs_ask [OF number], rule runs_ask [OF dial_basic(2)], rule runs_next [OF dial_basic(5)], rule connect_rest_done [OF that refl])
    show ?thesis
      unfolding connect_tcp_def Inr h sum.case prod.case Let_def
    proof (rule runs_ask [OF dial_basic(1)], goal_cases)
      case (1 fs)
      then show ?case using fail found by (cases fs) simp_all
    qed
  qed
qed

text \<open>
  Dialling leaks no descriptor and does not go astray. Whatever the resolver and the kernel answer, a connection that is returned is the only descriptor
  left open, and after an error none is (\<open>DialCut\<close> only says that the fuel ran out in the middle); no candidate is tried twice, with rotation
  at most three are, otherwise at most eight; and \<open>poll\<close> is never asked to wait for more than 250 ms (a negative time, which has no limit, is
  possible: \<open>connect_waits_without_limit\<close>).
\<close>

theorem connect_descriptors:
  assumes "connect_tcp W cfg hp n new_dialer = (s, r)"
  shows "(case r of Inr fd \<Rightarrow> dl_open s = [fd] | Inl e \<Rightarrow> e = DialCut \<or> dl_open s = []) \<and> distinct (dl_tried s) \<and>
    length (dl_tried s) \<le> (if edge_dns_rotation cfg then 3 else 8) \<and> (\<forall>t \<in> set (dl_polls s). t \<le> 250)"
  using runsD [OF connect_tcp_done _ assms] by (simp add: dial_state_def new_dialer_def connect_done_def)

text \<open>The first address refuses the connection (111), the second takes it.\<close>

definition demo_dial :: dial_world where
  "demo_dial = \<lparr>dw_clock = (\<lambda>k. int k * 1000000), dw_stop = (\<lambda>_. False), dw_resolve = (\<lambda>_. Inr [10, 1, 2]), dw_sequence = (\<lambda>_. 5),
     dw_socket = (\<lambda>k. Inr (int k)), dw_nonblock = (\<lambda>_. None), dw_connect = (\<lambda>k. if k < 10 then Some 111 else Some 115),
     dw_poll = (\<lambda>k t. PollEvents False True False), dw_sockopt = (\<lambda>_. Inr 0), dw_ssl = (\<lambda>_. SslDone), dw_recv = (\<lambda>_ _. RecvAgain),
     dw_strerror = (\<lambda>_. ''error'')\<rparr>"

lemma demo_endpoint: "split_hostport ''edge:443'' = Inr (''edge'', ''443'')"
  by code_simp

definition dial_cfg :: config where
  "dial_cfg = default_config ('''', False, 0, 0, 0, 0)"

lemma dial_cfg_simps [simp]: "edge_dns_rotation dial_cfg = False" "connect_timeout_sec dial_cfg = 10"
  by (simp_all add: dial_cfg_def default_config_def)

lemmas dial_run = connect_tcp_def demo_endpoint usable_def edge_address_index_def try_candidate_def milliseconds_def errorD_def closeD_def
  bindS_def thenS_def retS_def modS_def skipS_def askD_def nowD_def stopD_def pollD_def Let_def new_dialer_def EINPROGRESS_def ETIMEDOUT_def

lemma demo_dial_run:
  "\<exists>s. connect_tcp demo_dial dial_cfg ''edge:443'' 1 new_dialer = (s, Inr 11) \<and> dl_tried s = [0, 1] \<and> dl_polls s = [250]"
  by (simp add: dial_run demo_dial_def upt_rec signed_divide_int_def)

theorem connect_descriptors_witness:
  "\<exists>s. connect_tcp demo_dial dial_cfg ''edge:443'' 1 new_dialer = (s, Inr 11) \<and> dl_tried s = [0, 1] \<and> dl_open s = [11] \<and> (\<forall>t \<in> set (dl_polls s). t \<le> 250)"
proof -
  obtain s where s: "connect_tcp demo_dial dial_cfg ''edge:443'' 1 new_dialer = (s, Inr 11)" "dl_tried s = [0, 1]" using demo_dial_run by blast
  from connect_descriptors [OF s(1)] s show ?thesis by auto
qed

text \<open>
  C15: dialling ends. If the clock moves past every moment and \<open>poll\<close> reports only events there are, then connecting, the TLS handshake and waiting
  for the uTLS side car all return (a result or an error), whatever the kernel, OpenSSL and the peer answer, as long as each call of them returns: from some number
  of iterations on, the fuel suffices. And the calls of \<open>poll\<close> do return: none is asked to wait for more than 250 ms, those of the TLS handshake and of the
  side car always for a positive time, and one of \<open>connect_tcp\<close> for a negative time, which means without a limit, only if the deadline of the
  candidate passed by a millisecond or more between two readings of the clock right after each other (\<open>connect_waits_without_limit\<close>: it can).
\<close>

theorem dialling_ends:
  assumes "time_passes W" "polls_fair W" "0 \<le> timeout"
  shows "(\<exists>N. \<forall>n \<ge> N. snd (connect_tcp W cfg hp n s) \<noteq> Inl DialCut \<and> snd (ssl_handshake W accepting timeout n n s) \<noteq> Inl DialCut \<and>
      snd (wait_utls_tls_ready W timeout n s) \<noteq> Inl DialCut) \<and>
    (\<forall>n. \<exists>ts. dl_polls (fst (connect_tcp W cfg hp n s)) = dl_polls s @ ts \<and> (\<forall>t \<in> set ts. t \<le> 250 \<and> (t < 0 \<longrightarrow>
      (\<exists>k deadline. dw_clock W k < deadline \<and> deadline + 1000000 \<le> dw_clock W (Suc k) \<and> t = milliseconds (deadline - dw_clock W (Suc k)))))) \<and>
    (\<forall>n. \<exists>ts us. dl_polls (fst (ssl_handshake W accepting timeout n n s)) = dl_polls s @ ts \<and>
      dl_polls (fst (wait_utls_tls_ready W timeout n s)) = dl_polls s @ us \<and> (\<forall>t \<in> set (ts @ us). 0 < t \<and> t \<le> 250))"
proof -
  obtain N1 where N1: "\<forall>n \<ge> N1. uncut (connect_tcp W cfg hp n) s" using connect_tcp_uncut [OF assms(1)] by blast
  have later: "\<exists>K. \<forall>k \<ge> K. t \<le> dw_clock W k" for t
    using assms(1) unfolding time_passes_def by (meson monoD order_trans)
  let ?e = "Suc (dl_ev s)"
  let ?d = "dw_clock W ?e + timeout * 1000000000" and ?u = "dw_clock W (dl_ev s) + (max 1 timeout * 2 + 2) * 1000000000"
  obtain K2 where K2: "\<And>k. K2 \<le> k \<Longrightarrow> ?d \<le> dw_clock W k" using later by blast
  obtain K3 where K3: "\<And>k. K3 \<le> k \<Longrightarrow> ?u \<le> dw_clock W k" using later by blast
  have ssl: "uncut (ssl_handshake W accepting timeout n n) s" if "K2 < n" "nat (timeout * 1000) < n" for n
  proof -
    have "milliseconds (?d - dw_clock W k) \<le> 250 * int n" if "?e \<le> k" for k
    proof -
      have "dw_clock W ?e \<le> dw_clock W k" using assms(1) that by (auto simp: time_passes_def dest: monoD)
      then have "milliseconds (?d - dw_clock W k) \<le> timeout * 1000" by (intro milliseconds_le) (use assms(3) in auto)
      also have "\<dots> \<le> 250 * int n" using \<open>nat (timeout * 1000) < n\<close> by linarith
      finally show ?thesis .
    qed
    then have "uncut (ssl_handshake_loop W accepting ?d n n) (s\<lparr>dl_ev := Suc ?e\<rparr>)"
      by (intro ssl_loop_uncut [where e = ?e and K = K2]) (use assms(2) K2 that in auto)
    then show ?thesis by (simp add: ssl_handshake_def split: option.splits)
  qed
  have utls: "uncut (wait_utls_tls_ready W timeout n) s" if "K3 < n" for n
  proof -
    have "uncut (utls_loop W ?u [] n) (s\<lparr>dl_ev := ?e\<rparr>)" by (rule utls_loop_uncut [where K = K3]) (use K3 that in auto)
    then show ?thesis unfolding wait_utls_tls_ready_def
      by (cases "utls_loop W ?u [] n (s\<lparr>dl_ev := ?e\<rparr>)") (auto simp: uncut_def bindS_def failD_def throwS_def retS_def skipS_def nowD_def askD_def split: sum.splits)
  qed
  have "\<exists>N. \<forall>n \<ge> N. snd (connect_tcp W cfg hp n s) \<noteq> Inl DialCut \<and> snd (ssl_handshake W accepting timeout n n s) \<noteq> Inl DialCut \<and>
      snd (wait_utls_tls_ready W timeout n s) \<noteq> Inl DialCut"
    using N1 ssl utls unfolding uncut_def by (intro exI [of _ "N1 + K2 + K3 + nat (timeout * 1000) + 1"]) auto
  moreover have "\<exists>ts. dl_polls (fst (connect_tcp W cfg hp n s)) = dl_polls s @ ts \<and> (\<forall>t \<in> set ts. t \<le> 250 \<and> (t < 0 \<longrightarrow>
      (\<exists>k deadline. dw_clock W k < deadline \<and> deadline + 1000000 \<le> dw_clock W (Suc k) \<and> t = milliseconds (deadline - dw_clock W (Suc k)))))" for n
    using connect_tcp_waits [of W cfg hp n] unfolding keeps_def poll_waits_def connect_wait_def by (meson leD)
  moreover have "\<exists>ts us. dl_polls (fst (ssl_handshake W accepting timeout n n s)) = dl_polls s @ ts \<and>
      dl_polls (fst (wait_utls_tls_ready W timeout n s)) = dl_polls s @ us \<and> (\<forall>t \<in> set (ts @ us). 0 < t \<and> t \<le> 250)" for n
    using ssl_handshake_waits [of W accepting timeout n n] utls_waits [of W timeout n] unfolding keeps_def poll_waits_def set_append by blast
  ultimately show ?thesis by blast
qed

text \<open>A network that never answers.\<close>

definition silent_dial :: dial_world where
  "silent_dial = demo_dial\<lparr>dw_connect := (\<lambda>_. Some 115), dw_poll := (\<lambda>_ _. PollNothing), dw_ssl := (\<lambda>_. SslWantRead)\<rparr>"

theorem dialling_ends_witness:
  "\<exists>n. snd (connect_tcp silent_dial dial_cfg ''edge:443'' n new_dialer) \<noteq> Inl DialCut \<and> snd (ssl_handshake silent_dial False 15 n n new_dialer) \<noteq> Inl DialCut"
proof -
  have "\<exists>k. t \<le> int k * 1000000" for t by (rule exI [of _ "nat t"]) simp
  then have "time_passes silent_dial" by (simp add: time_passes_def silent_dial_def demo_dial_def mono_def)
  moreover have "polls_fair silent_dial" by (simp add: polls_fair_def silent_dial_def)
  ultimately show ?thesis using dialling_ends [of silent_dial 15 dial_cfg "''edge:443''" new_dialer False] by auto
qed

text \<open>
  The clock is read twice in a turn of the wait. When the deadline passes in between by a millisecond or more, \<open>poll\<close> is given a negative time, which
  means to wait without a limit.
\<close>

definition late_dial :: dial_world where
  "late_dial = silent_dial\<lparr>dw_resolve := (\<lambda>_. Inr [2]), dw_clock := (\<lambda>k. if k < 10 then 0 else 1000000000000)\<rparr>"

lemma connect_waits_without_limit:
  "mono (dw_clock late_dial) \<and> (\<exists>t \<in> set (dl_polls (fst (connect_tcp late_dial dial_cfg ''edge:443'' 2 new_dialer))). t < 0)"
  by (simp add: dial_run late_dial_def silent_dial_def demo_dial_def mono_def upt_rec numeral_2_eq_2 failD_def throwS_def withS_def signed_divide_int_def)

end
