(* ===== verification/LegacyHandshake.thy ===== *)
theory LegacyHandshake
  imports HttpUpgrade
begin

text \<open>
  The handshake of the legacy transport (\<open>ssl_write_all\<close>, \<open>ssl_read_headers\<close>, \<open>header_value\<close>, \<open>client_handshake\<close> and
  \<open>server_handshake\<close> of \<open>src/cdn/src/runtime.cpp\<close>): HTTP headers inside TLS, with a challenge of the server and a bearer
  token of the client. What the attempts to read and write return is a script.
\<close>

section \<open>Reading and writing\<close>

text \<open>\<open>LegacyCut\<close> marks that a script ended while the code would still wait. An attempt may find that the stop flag is set.\<close>

datatype legacy_error = LegacyFail string | LegacyRecord record_error | LegacyCut

datatype peer_get = Got string | GetAgain | GetStop | GetFailed string

datatype peer_put = Took nat | PutAgain | PutStop | PutFailed string

fun ssl_write_all :: "string \<Rightarrow> peer_put list \<Rightarrow> (legacy_error, unit) result \<times> string \<times> peer_put list" where
  "ssl_write_all data ws =
     (if data = [] then (Inr (), [], ws)
      else case ws of
        [] \<Rightarrow> (Inl LegacyCut, [], [])
      | PutStop # ws \<Rightarrow> (Inr (), [], ws)
      | PutAgain # ws \<Rightarrow> ssl_write_all data ws
      | PutFailed e # ws \<Rightarrow> (Inl (LegacyFail (''TLS write failed: '' @ e)), [], ws)
      | Took n # ws \<Rightarrow> (case ssl_write_all (drop n data) ws of (r, out, ws) \<Rightarrow> (r, take n data @ out, ws)))"

declare ssl_write_all.simps [simp del]

definition header_end :: string where
  "header_end = crlf @ crlf"

fun ssl_read_headers :: "string \<Rightarrow> peer_get list \<Rightarrow> (legacy_error, string) result \<times> peer_get list" where
  "ssl_read_headers s rs =
     (if find_sub header_end s \<noteq> None then (Inr s, rs)
      else case rs of
        [] \<Rightarrow> (if length s > 16384 then (Inl (LegacyFail ''HTTP headers too large''), []) else (Inl LegacyCut, []))
      | GetStop # rs \<Rightarrow> (Inr s, rs)
      | r # rs \<Rightarrow>
          if length s > 16384 then (Inl (LegacyFail ''HTTP headers too large''), rs)
          else case r of
            Got b \<Rightarrow> ssl_read_headers (s @ b) rs
          | GetFailed e \<Rightarrow> (Inl (LegacyFail (''TLS header read failed: '' @ e)), rs)
          | _ \<Rightarrow> ssl_read_headers s rs)"

declare ssl_read_headers.simps [simp del]

definition header_value :: "string \<Rightarrow> string \<Rightarrow> string" where
  "header_value s name =
     (let needle = crlf @ name @ '':'' in
      case find_sub needle s of
        None \<Rightarrow> []
      | Some p \<Rightarrow>
          let rest = dropWhile (\<lambda>ch. ch = CHR '' '' \<or> ch = CHR 0x09) (drop (p + length needle) s) in
          (case find_sub crlf rest of None \<Rightarrow> rest | Some e \<Rightarrow> take e rest))"

definition first_line :: "string \<Rightarrow> string" where
  "first_line r = (case find_sub crlf r of None \<Rightarrow> r | Some e \<Rightarrow> take e r)"

section \<open>The peers\<close>

text \<open>A side of the handshake: the scripts, and what it has sent.\<close>

record tls_peer =
  tp_gets :: "peer_get list"
  tp_puts :: "peer_put list"
  tp_out :: string
  tp_auth_fail :: u64

type_synonym 'a shaking = "(tls_peer, legacy_error, 'a) se"

definition putT :: "string \<Rightarrow> unit shaking" where
  "putT data s = (case ssl_write_all data (tp_puts s) of (r, out, ws) \<Rightarrow> (s\<lparr>tp_puts := ws, tp_out := tp_out s @ out\<rparr>, r))"

definition headersT :: "string shaking" where
  "headersT s = (case ssl_read_headers [] (tp_gets s) of (r, rs) \<Rightarrow> (s\<lparr>tp_gets := rs\<rparr>, r))"

definition recordT :: "(record_error, 'a) result \<Rightarrow> 'a shaking" where
  "recordT r = retS (case r of Inl e \<Rightarrow> Inl (LegacyRecord e) | Inr x \<Rightarrow> Inr x)"

text \<open>Texts of bytes: nonces and tokens are hexadecimal digits.\<close>

definition chars :: "bytes \<Rightarrow> string" where
  "chars = map (\<lambda>b. char_of (unat b))"

definition challenge_message :: "bytes \<Rightarrow> string" where
  "challenge_message snonce =
     ''HTTP/1.1 103 PaceTun Challenge'' @ crlf @ ''X-PaceTun-Server-Nonce: '' @ chars snonce @ crlf @ ''Cache-Control: no-store'' @ crlf @ crlf"

definition connect_message :: "string \<Rightarrow> string \<Rightarrow> bytes \<Rightarrow> bytes \<Rightarrow> string" where
  "connect_message path name cnonce token =
     ''CONNECT '' @ path @ '' HTTP/1.1'' @ crlf @ ''Host: '' @ name @ crlf @ ''User-Agent: pacetun-tls/5.0.2-rc3'' @ crlf @
     ''X-PaceTun-Client-Nonce: '' @ chars cnonce @ crlf @ ''Authorization: Bearer '' @ chars token @ crlf @ ''Connection: keep-alive'' @ crlf @ crlf"

definition established_message :: string where
  "established_message =
     ''HTTP/1.1 200 Connection Established'' @ crlf @ ''Content-Type: application/octet-stream'' @ crlf @ ''X-PaceTun-Wire: PTT3'' @ crlf @
     ''Connection: keep-alive'' @ crlf @ crlf"

definition forbidden_message :: string where
  "forbidden_message = ''HTTP/1.1 403 Forbidden'' @ crlf @ ''Content-Length: 0'' @ crlf @ ''Connection: close'' @ crlf @ crlf"

text \<open>\<open>drawn\<close> is the outcome of \<open>RAND_bytes\<close>.\<close>

definition client_handshake :: "crypto \<Rightarrow> string \<Rightarrow> string \<Rightarrow> bytes \<Rightarrow> bytes option \<Rightarrow> session_keys shaking" where
  "client_handshake C path name psk drawn =
     bindS headersT (\<lambda>challenge.
     if \<not> starts_with ''HTTP/1.1 103'' challenge then throwS (LegacyFail ''invalid server challenge'') else
     let snonce = str (header_value challenge ''X-PaceTun-Server-Nonce'') in
     bindS (recordT (random_nonce_hex drawn)) (\<lambda>cnonce.
     bindS (recordT (derive_session_keys C psk snonce cnonce)) (\<lambda>keys.
     bindS (recordT (handshake_token C (auth keys) (str name) (str path) snonce cnonce)) (\<lambda>token.
     thenS (putT (connect_message path name cnonce token))
     (bindS headersT (\<lambda>r.
     if \<not> starts_with ''HTTP/1.1 200'' r then throwS (LegacyFail (''server rejected tunnel: '' @ first_line r)) else
     retS (Inr keys)))))))"

text \<open>The keys of the first pre-shared key whose token the request bears; a key that cannot be used is passed over.\<close>

definition legacy_token :: "crypto \<Rightarrow> string \<Rightarrow> string \<Rightarrow> bytes \<Rightarrow> bytes \<Rightarrow> bytes \<Rightarrow> (record_error, session_keys \<times> bytes) result" where
  "legacy_token C path name snonce cnonce psk =
     andThen (derive_session_keys C psk snonce cnonce) (\<lambda>k.
     andThen (handshake_token C (auth k) (str name) (str path) snonce cnonce) (\<lambda>token. Inr (k, token)))"

definition token_keys :: "crypto \<Rightarrow> string \<Rightarrow> string \<Rightarrow> bytes \<Rightarrow> string \<Rightarrow> bytes \<Rightarrow> session_keys option" where
  "token_keys C path name snonce r psk =
     (case legacy_token C path name snonce (str (header_value r ''X-PaceTun-Client-Nonce'')) psk of
        Inl _ \<Rightarrow> None
      | Inr (k, token) \<Rightarrow>
          if first_line r = ''CONNECT '' @ path @ '' HTTP/1.1'' \<and> header_value r ''Authorization'' = ''Bearer '' @ chars token
          then Some k else None)"

fun match_psk :: "(bytes \<Rightarrow> session_keys option) \<Rightarrow> nat \<Rightarrow> bytes list \<Rightarrow> (session_keys \<times> nat) option" where
  "match_psk f i [] = None"
| "match_psk f i (psk # psks) = (case f psk of None \<Rightarrow> match_psk f (Suc i) psks | Some k \<Rightarrow> Some (k, i))"

definition server_handshake :: "crypto \<Rightarrow> string \<Rightarrow> string \<Rightarrow> bytes list \<Rightarrow> bytes option \<Rightarrow> (session_keys \<times> nat) shaking" where
  "server_handshake C path name psks drawn =
     bindS (recordT (random_nonce_hex drawn)) (\<lambda>snonce.
     thenS (putT (challenge_message snonce))
     (bindS headersT (\<lambda>r.
     case match_psk (token_keys C path name snonce r) 0 psks of
       None \<Rightarrow>
         thenS (modS (\<lambda>s. s\<lparr>tp_auth_fail := tp_auth_fail s + 1\<rparr>))
          (thenS (putT forbidden_message) (throwS (LegacyFail ''invalid CONNECT request or challenge response'')))
     | Some ki \<Rightarrow> thenS (putT established_message) (retS (Inr ki)))))"

end
