(* ===== verification/LegacyProps.thy ===== *)
theory LegacyProps
  imports LegacyHandshake
begin

text \<open>
  The handshake of the legacy transport between honest sides, over any chunking of what they write; and what a silent peer does.
\<close>

section \<open>Reading and writing\<close>

definition patient :: "peer_put list \<Rightarrow> bool" where
  "patient ws \<longleftrightarrow> (\<forall>w \<in> set ws. \<exists>n > 0. w = Took n)"

lemma write_whole:
  "patient ws \<Longrightarrow> length data \<le> length ws \<Longrightarrow>
    \<exists>ws'. ssl_write_all data ws = (Inr (), data, ws') \<and> patient ws' \<and> length ws \<le> length ws' + length data"
proof (induction ws arbitrary: data)
  case Nil
  then show ?case by (simp add: ssl_write_all.simps [of "[]"] patient_def)
next
  case (Cons w ws)
  show ?case
  proof (cases "data = []")
    case True
    then show ?thesis using Cons.prems by (simp add: ssl_write_all.simps [of "[]"])
  next
    case False
    obtain n where n: "w = Took n" "0 < n" using Cons.prems(1) by (auto simp: patient_def)
    have "patient ws" "length (drop n data) \<le> length ws" using Cons.prems n False by (auto simp: patient_def)
    from Cons.IH [OF this] obtain ws' where w: "ssl_write_all (drop n data) ws = (Inr (), drop n data, ws')" "patient ws'"
      "length ws \<le> length ws' + length (drop n data)" by blast
    have "length (w # ws) \<le> length ws' + length data" using w(3) n False by (cases data) auto
    moreover have "ssl_write_all data (w # ws) = (Inr (), data, ws')" using False n w(1) by (subst ssl_write_all.simps) simp
    ultimately show ?thesis using w(2) by blast
  qed
qed

text \<open>A message that ends with its first empty line is read as it is, however it is cut.\<close>

definition whole :: "string \<Rightarrow> bool" where
  "whole m \<longleftrightarrow> find_sub header_end m = Some (length m - 4) \<and> 4 \<le> length m"

lemma find_sub_Some: "find_sub n s = Some p \<Longrightarrow> take (length n) (drop p s) = n \<and> (\<forall>q < p. take (length n) (drop q s) \<noteq> n)"
proof (induction s arbitrary: p)
  case Nil
  then show ?case by (subst (asm) find_sub.simps) (auto split: if_splits)
next
  case (Cons a s)
  show ?case
  proof (cases "take (length n) (a # s) = n")
    case True
    then show ?thesis using Cons.prems by (subst (asm) find_sub.simps) simp
  next
    case False
    then obtain p' where p': "find_sub n s = Some p'" "p = Suc p'" using Cons.prems by (subst (asm) find_sub.simps) auto
    have "take (length n) (drop q (a # s)) \<noteq> n" if "q < p" for q
      using Cons.IH [OF p'(1)] False that p'(2) by (cases q) auto
    then show ?thesis using Cons.IH [OF p'(1)] p'(2) by simp
  qed
qed

lemma whole_prefix:
  assumes "whole (p @ q)" "q \<noteq> []"
  shows "find_sub header_end p = None"
proof (rule ccontr)
  assume "find_sub header_end p \<noteq> None"
  then obtain i where i: "find_sub header_end p = Some i" by blast
  have l: "length header_end = 4" by (simp add: header_end_def crlf_def)
  have t: "take 4 (drop i p) = header_end" using find_sub_Some [OF i] l by simp
  then have "4 \<le> length (drop i p)" using l by (metis length_take min.cobounded1)
  moreover have "0 < length q" using assms(2) by simp
  ultimately have "take 4 (drop i (p @ q)) = header_end" "i < length (p @ q) - 4" using t by (auto simp: min_def simp del: length_greater_0_conv)
  then show False using find_sub_Some [of header_end "p @ q" "length (p @ q) - 4"] assms(1) l by (auto simp: whole_def)
qed

lemma read_whole:
  "whole m \<Longrightarrow> length m \<le> 16384 \<Longrightarrow> [] \<notin> set cs \<Longrightarrow> s @ concat cs = m \<Longrightarrow> ssl_read_headers s (map Got cs @ rs) = (Inr m, rs)"
proof (induction cs arbitrary: s)
  case Nil
  then show ?case by (subst ssl_read_headers.simps) (simp add: whole_def)
next
  case (Cons c cs)
  have "find_sub header_end s = None" using whole_prefix [of s "concat (c # cs)"] Cons.prems by auto
  moreover have "length s \<le> 16384" using Cons.prems(2,4) by auto
  ultimately show ?case using Cons.IH [of "s @ c"] Cons.prems by (subst ssl_read_headers.simps) simp
qed

lemma whole_message:
  "cr \<notin> set start \<Longrightarrow> \<forall>l \<in> set ls. l \<noteq> [] \<and> cr \<notin> set l \<Longrightarrow> whole (http_message start ls)"
proof (induction ls arbitrary: start)
  case Nil
  have "take (length crlf) (crlf @ []) = crlf" by simp
  from find_sub_next_line [OF Nil.prems(1) this] show ?case by (simp add: whole_def http_message_def header_end_def crlf_def)
next
  case (Cons l ls)
  obtain a b where l: "l = a # b" "a \<noteq> cr" using Cons.prems(2) by (cases l) auto
  then have "take (length crlf) (http_message l ls) \<noteq> crlf" by (simp add: http_message_def crlf_alt)
  then have f: "find_sub header_end (http_message start (l # ls)) =
      map_option (\<lambda>p. length start + 2 + p) (find_sub header_end (http_message l ls))"
    unfolding http_message_Cons header_end_def by (intro find_sub_line Cons.prems(1))
  have w: "whole (http_message l ls)" using Cons.IH [of l] Cons.prems(2) by simp
  have n: "length (http_message start (l # ls)) = length start + 2 + length (http_message l ls)"
    by (simp add: http_message_Cons crlf_def)
  show ?case using w unfolding whole_def f n by auto
qed

section \<open>Headers\<close>

lemma first_line_message: "cr \<notin> set start \<Longrightarrow> first_line (http_message start ls) = start"
proof -
  assume c: "cr \<notin> set start"
  obtain b where "http_message start ls = start @ crlf @ b" by (cases ls) (auto simp: http_message_def)
  then show ?thesis using find_crlf [OF c] by (simp add: first_line_def)
qed

lemma header_value_here:
  assumes "cr \<notin> set start" "cr \<notin> set v" "v \<noteq> []" "hd v \<noteq> CHR '' ''" "hd v \<noteq> CHR 0x09"
  shows "header_value (http_message start ((name @ '': '' @ v) # ls)) name = v"
proof -
  let ?n = "name @ '':''"
  obtain b where b: "http_message (name @ '': '' @ v) ls = ?n @ '' '' @ v @ crlf @ b" by (cases ls) (auto simp: http_message_def)
  then have "take (length ?n) (http_message (name @ '': '' @ v) ls) = ?n" by simp
  from find_sub_next_line [OF assms(1) this] have f: "find_sub (crlf @ ?n) (http_message start ((name @ '': '' @ v) # ls)) = Some (length start)"
    by (simp add: http_message_Cons)
  have d: "drop (length start + length (crlf @ ?n)) (http_message start ((name @ '': '' @ v) # ls)) = '' '' @ v @ crlf @ b"
    unfolding http_message_Cons b by (metis append_assoc append_eq_conv_conj length_append)
  obtain a w where v: "v = a # w" using assms(3) by (cases v) auto
  show ?thesis
    unfolding header_value_def Let_def f option.case d using assms(2,4,5) v find_crlf [OF assms(2), of b] by simp
qed

lemma header_value_later:
  assumes "cr \<notin> set start" "take (length (name @ '':'')) (http_message l ls) \<noteq> name @ '':''"
  shows "header_value (http_message start (l # ls)) name = header_value (http_message l ls) name"
proof -
  let ?n = "name @ '':''"
  have f: "find_sub (crlf @ ?n) (http_message start (l # ls)) = map_option (\<lambda>p. length start + 2 + p) (find_sub (crlf @ ?n) (http_message l ls))"
    unfolding http_message_Cons by (rule find_sub_line [OF assms])
  have d: "drop (length start + 2 + p + k) (http_message start (l # ls)) = drop (p + k) (http_message l ls)" for p k
    by (simp add: http_message_Cons crlf_def)
  show ?thesis unfolding header_value_def Let_def f by (cases "find_sub (crlf @ ?n) (http_message l ls)") (simp_all only: option.map option.case d)
qed

section \<open>Tokens\<close>

lemma str_chars [simp]: "str (chars b) = b"
proof -
  have "of_char (char_of (unat a)) = a" for a :: byte
  proof -
    have "(of_char (char_of (unat a)) :: byte) = of_nat (of_char (char_of (unat a)))" by (rule of_nat_of_char [symmetric])
    also have "\<dots> = of_nat (unat a)" using byte_less [of a] by simp
    finally show ?thesis by simp
  qed
  then show ?thesis by (induction b) (simp_all add: str_def chars_def)
qed

lemma hex_char: "n < 16 \<Longrightarrow> char_of (unat (hex_digit n)) \<notin> {cr, CHR '' '', CHR 0x09}"
proof -
  have "\<forall>n \<in> set [0..<16]. char_of (unat (hex_digit n)) \<notin> {cr, CHR '' '', CHR 0x09}"
    by code_simp
  then show "n < 16 \<Longrightarrow> char_of (unat (hex_digit n)) \<notin> {cr, CHR '' '', CHR 0x09}" by simp
qed

lemma chars_hex: "set (chars (hex_encode b)) \<inter> {cr, CHR '' '', CHR 0x09} = {}"
proof (induction b)
  case Nil
  show ?case by (simp add: chars_def hex_encode_def)
next
  case (Cons a b)
  have "chars (hex_encode (a # b)) = char_of (unat (hex_digit (unat a div 16))) # char_of (unat (hex_digit (unat a mod 16))) # chars (hex_encode b)"
    by (simp add: chars_def hex_encode_def)
  then show ?case using Cons hex_char [OF byte_div16 [of a]] hex_char [of "unat a mod 16"] by auto
qed

lemma chars_hex_value: "cr \<notin> set (chars (hex_encode b))" "b \<noteq> [] \<Longrightarrow> hd (chars (hex_encode b)) \<noteq> CHR '' ''"
  "b \<noteq> [] \<Longrightarrow> hd (chars (hex_encode b)) \<noteq> CHR 0x09" "b \<noteq> [] \<Longrightarrow> chars (hex_encode b) \<noteq> []"
proof -
  show n: "chars (hex_encode b) \<noteq> []" if "b \<noteq> []" using that by (cases b) (simp_all add: chars_def hex_encode_def)
  show "cr \<notin> set (chars (hex_encode b))" using chars_hex [of b] by auto
  show "hd (chars (hex_encode b)) \<noteq> CHR '' ''" "hd (chars (hex_encode b)) \<noteq> CHR 0x09" if "b \<noteq> []"
    using chars_hex [of b] hd_in_set [OF n [OF that]] by auto
qed

lemma legacy_token_ok:
  assumes "hmac_ok C" "length sn = 32" "length cn = 32"
  obtains k m where "derive_session_keys C psk (hex_encode sn) (hex_encode cn) = Inr k"
    "handshake_token C (auth k) (str name) (str path) (hex_encode sn) (hex_encode cn) = Inr (hex_encode m)" "length m = 32"
proof -
  obtain prk where p: "mac C (sn @ cn) psk = Inr prk" "length prk = 32" using mac_ok [OF assms(1), of "sn @ cn" psk] assms(2,3) by auto
  obtain k where k: "expand_keys C prk (str ''pacetun-v3 client-to-server'') (str ''pacetun-v3 server-to-client'')
      (str ''pacetun-v3 handshake-auth'') = Inr k" "length (auth k) = 32"
    using expand_keys_ok [OF assms(1) p(2)] by blast
  obtain m where "mac C (auth k) (str ''pacetun-tls-v3'' @ nl @ str name @ nl @ str path @ nl @ hex_encode sn @ nl @ hex_encode cn) = Inr m"
    "length m = 32" using mac_ok [OF assms(1), of "auth k"] k(2) by auto
  then have "handshake_token C (auth k) (str name) (str path) (hex_encode sn) (hex_encode cn) = Inr (hex_encode m)" "length m = 32"
    by (simp_all add: handshake_token_def)
  moreover have "derive_session_keys C psk (hex_encode sn) (hex_encode cn) = Inr k"
    using p(1) k(1) assms(2,3) by (simp add: derive_session_keys_def decode_nonces_ok)
  ultimately show ?thesis by (rule that [rotated])
qed

section \<open>The three messages\<close>

lemma challenge_is: "challenge_message n =
    http_message ''HTTP/1.1 103 PaceTun Challenge'' [''X-PaceTun-Server-Nonce'' @ '': '' @ chars n, ''Cache-Control: no-store'']"
  by (simp add: challenge_message_def http_message_def)

lemma connect_is: "connect_message path name cn t = http_message (''CONNECT '' @ path @ '' HTTP/1.1'')
    [''Host: '' @ name, ''User-Agent: pacetun-tls/5.0.2-rc3'', ''X-PaceTun-Client-Nonce'' @ '': '' @ chars cn,
     ''Authorization'' @ '': '' @ ''Bearer '' @ chars t, ''Connection: keep-alive'']"
  by (simp add: connect_message_def http_message_def)

lemma established_is: "established_message = http_message ''HTTP/1.1 200 Connection Established''
    [''Content-Type: application/octet-stream'', ''X-PaceTun-Wire: PTT3'', ''Connection: keep-alive'']"
  by (simp add: established_message_def http_message_def)

lemma challenge_facts:
  assumes "length sn = 32"
  shows "whole (challenge_message (hex_encode sn))" "length (challenge_message (hex_encode sn)) \<le> 16384"
    "starts_with ''HTTP/1.1 103'' (challenge_message (hex_encode sn))"
    "header_value (challenge_message (hex_encode sn)) ''X-PaceTun-Server-Nonce'' = chars (hex_encode sn)"
proof -
  have n: "sn \<noteq> []" using assms by auto
  show "whole (challenge_message (hex_encode sn))"
    unfolding challenge_is using chars_hex_value(1) [of sn] by (intro whole_message) (simp_all add: cr_def)
  show "length (challenge_message (hex_encode sn)) \<le> 16384"
    using assms by (simp add: challenge_message_def chars_def crlf_def)
  show "starts_with ''HTTP/1.1 103'' (challenge_message (hex_encode sn))"
    by (simp add: challenge_message_def starts_with_def)
  show "header_value (challenge_message (hex_encode sn)) ''X-PaceTun-Server-Nonce'' = chars (hex_encode sn)"
    unfolding challenge_is by (rule header_value_here) (simp_all add: chars_hex_value n, simp add: cr_def)
qed

lemma established_facts:
  "whole established_message" "length established_message \<le> 16384" "starts_with ''HTTP/1.1 200'' established_message"
proof -
  show "whole established_message" unfolding established_is by (intro whole_message) (simp_all add: cr_def)
  show "length established_message \<le> 16384" by (simp add: established_message_def crlf_def)
  show "starts_with ''HTTP/1.1 200'' established_message" by (simp add: established_message_def starts_with_def)
qed

lemma connect_facts:
  assumes "length cn = 32" "length m = 32" "cr \<notin> set path" "cr \<notin> set name" "length path + length name \<le> 16000"
  shows "whole (connect_message path name (hex_encode cn) (hex_encode m))"
    "length (connect_message path name (hex_encode cn) (hex_encode m)) \<le> 16384"
    "first_line (connect_message path name (hex_encode cn) (hex_encode m)) = ''CONNECT '' @ path @ '' HTTP/1.1''"
    "header_value (connect_message path name (hex_encode cn) (hex_encode m)) ''X-PaceTun-Client-Nonce'' = chars (hex_encode cn)"
    "header_value (connect_message path name (hex_encode cn) (hex_encode m)) ''Authorization'' = ''Bearer '' @ chars (hex_encode m)"
proof -
  have n: "cn \<noteq> []" using assms(1) by auto
  have c: "cr \<notin> set (''CONNECT '' @ path @ '' HTTP/1.1'')" "cr \<notin> set (''Host: '' @ name)" "cr \<notin> set ''User-Agent: pacetun-tls/5.0.2-rc3''"
    "cr \<notin> set (''X-PaceTun-Client-Nonce'' @ '': '' @ chars (hex_encode cn))"
    "cr \<notin> set (''Bearer '' @ chars (hex_encode m))"
    using assms(3,4) chars_hex_value(1) by (simp_all add: cr_def)
  show "whole (connect_message path name (hex_encode cn) (hex_encode m))"
    unfolding connect_is using c by (intro whole_message) (simp_all add: cr_def)
  show "length (connect_message path name (hex_encode cn) (hex_encode m)) \<le> 16384"
    using assms(1,2,5) by (simp add: connect_message_def chars_def crlf_def)
  show "first_line (connect_message path name (hex_encode cn) (hex_encode m)) = ''CONNECT '' @ path @ '' HTTP/1.1''"
    unfolding connect_is using c(1) by (rule first_line_message)
  show "header_value (connect_message path name (hex_encode cn) (hex_encode m)) ''X-PaceTun-Client-Nonce'' = chars (hex_encode cn)"
    unfolding connect_is
    by (subst header_value_later, rule c(1), simp add: http_message_def,
        subst header_value_later, rule c(2), simp add: http_message_def,
        rule header_value_here [OF c(3)]) (simp_all add: chars_hex_value n)
  show "header_value (connect_message path name (hex_encode cn) (hex_encode m)) ''Authorization'' = ''Bearer '' @ chars (hex_encode m)"
    unfolding connect_is
    by (subst header_value_later, rule c(1), simp add: http_message_def,
        subst header_value_later, rule c(2), simp add: http_message_def,
        subst header_value_later, rule c(3), simp add: http_message_def,
        rule header_value_here [OF c(4,5)]) simp_all
qed

section \<open>Both sides\<close>

lemma headersT_run:
  assumes "whole m" "length m \<le> 16384" "[] \<notin> set cs" "concat cs = m" "tp_gets s = map Got cs @ rs"
  shows "headersT s = (s\<lparr>tp_gets := rs\<rparr>, Inr m)"
  using read_whole [OF assms(1-3), of "[]" rs] assms(4,5) by (simp add: headersT_def)

lemma putT_run:
  assumes "patient (tp_puts s)" "length m \<le> length (tp_puts s)"
  obtains ws where "putT m s = (s\<lparr>tp_puts := ws, tp_out := tp_out s @ m\<rparr>, Inr ())" "patient ws" "length (tp_puts s) \<le> length ws + length m"
proof -
  obtain ws where "ssl_write_all m (tp_puts s) = (Inr (), m, ws)" "patient ws" "length (tp_puts s) \<le> length ws + length m"
    using write_whole [OF assms] by blast
  then show ?thesis by (intro that) (simp_all add: putT_def)
qed

lemma match_psk_found:
  assumes "j < length psks" "f (psks ! j) = Some k" "\<forall>q \<in> set (take j psks). f q = None"
  shows "match_psk f i psks = Some (k, i + j)"
  using assms
proof (induction psks arbitrary: i j)
  case (Cons q psks)
  show ?case
  proof (cases j)
    case 0
    then show ?thesis using Cons.prems by simp
  next
    case (Suc j')
    then show ?thesis using Cons.IH [of j' "Suc i"] Cons.prems by simp
  qed
qed simp

definition legacy_bearer :: "crypto \<Rightarrow> string \<Rightarrow> string \<Rightarrow> bytes \<Rightarrow> bytes \<Rightarrow> bytes \<Rightarrow> bytes" where
  "legacy_bearer C path name sn cn psk =
     (case legacy_token C path name (hex_encode sn) (hex_encode cn) psk of Inl _ \<Rightarrow> [] | Inr (_, t) \<Rightarrow> t)"

lemma token_keys_connect:
  assumes "length cn = 32" "length m = 32" "cr \<notin> set path" "cr \<notin> set name" "length path + length name \<le> 16000"
  shows "token_keys C path name sn (connect_message path name (hex_encode cn) (hex_encode m)) q =
    (case legacy_token C path name sn (hex_encode cn) q of
      Inl _ \<Rightarrow> None | Inr (k, t) \<Rightarrow> if t = hex_encode m then Some k else None)"
proof -
  have "chars (hex_encode m) = chars t \<longleftrightarrow> t = hex_encode m" for t by (metis str_chars)
  then show ?thesis
    by (auto simp: token_keys_def connect_facts [OF assms] split: sum.splits prod.splits)
qed

lemma server_legacy_run:
  assumes "length sn = 32" "length cn = 32" "length m = 32" "cr \<notin> set path" "cr \<notin> set name" "length path + length name \<le> 16000"
    and "i < length psks" "legacy_token C path name (hex_encode sn) (hex_encode cn) (psks ! i) = Inr (k, hex_encode m)"
    and "\<forall>q \<in> set (take i psks). legacy_bearer C path name sn cn q \<noteq> hex_encode m"
    and "patient (tp_puts s)" "length (challenge_message (hex_encode sn)) + length established_message \<le> length (tp_puts s)"
    and "[] \<notin> set rq" "concat rq = connect_message path name (hex_encode cn) (hex_encode m)" "tp_gets s = map Got rq"
  shows "\<exists>s'. server_handshake C path name psks (Some sn) s = (s', Inr (k, i)) \<and>
    tp_out s' = tp_out s @ challenge_message (hex_encode sn) @ established_message"
proof -
  let ?r = "connect_message path name (hex_encode cn) (hex_encode m)"
  obtain ws where w: "putT (challenge_message (hex_encode sn)) s = (s\<lparr>tp_puts := ws, tp_out := tp_out s @ challenge_message (hex_encode sn)\<rparr>, Inr ())"
    "patient ws" "length (tp_puts s) \<le> length ws + length (challenge_message (hex_encode sn))"
    using putT_run [of s "challenge_message (hex_encode sn)"] assms(10,11) by auto
  define s1 where "s1 = s\<lparr>tp_puts := ws, tp_out := tp_out s @ challenge_message (hex_encode sn)\<rparr>"
  define s2 where "s2 = s1\<lparr>tp_gets := []\<rparr>"
  have h: "headersT s1 = (s2, Inr ?r)"
    unfolding s2_def by (rule headersT_run [OF connect_facts(1,2) [OF assms(2-6)] assms(12,13)]) (simp add: s1_def assms(14))
  have f: "match_psk (token_keys C path name (hex_encode sn) ?r) 0 psks = Some (k, 0 + i)"
    by (rule match_psk_found [OF assms(7)])
      (use assms(8,9) in \<open>auto simp: token_keys_connect [OF assms(2-6)] legacy_bearer_def split: sum.splits prod.splits\<close>)
  obtain ws' where w': "putT established_message s2 = (s2\<lparr>tp_puts := ws', tp_out := tp_out s2 @ established_message\<rparr>, Inr ())"
    using putT_run [of s2 established_message] w(2,3) assms(11) by (auto simp: s1_def s2_def)
  show ?thesis
    using w(1) h f w'
    by (simp add: server_handshake_def recordT_def random_nonce_hex_def bindS_retS thenS_def bindS_def retS_def flip: s1_def)
      (simp add: s1_def s2_def)
qed

lemma client_legacy_run:
  assumes "length sn = 32" "length cn = 32" "length m = 32" "cr \<notin> set path" "cr \<notin> set name" "length path + length name \<le> 16000"
    and "derive_session_keys C psk (hex_encode sn) (hex_encode cn) = Inr k"
    and "handshake_token C (auth k) (str name) (str path) (hex_encode sn) (hex_encode cn) = Inr (hex_encode m)"
    and "patient (tp_puts c)" "length (connect_message path name (hex_encode cn) (hex_encode m)) \<le> length (tp_puts c)"
    and "[] \<notin> set cc" "concat cc = challenge_message (hex_encode sn)" "[] \<notin> set rs" "concat rs = established_message"
    and "tp_gets c = map Got (cc @ rs)"
  shows "\<exists>c'. client_handshake C path name psk (Some cn) c = (c', Inr k) \<and>
    tp_out c' = tp_out c @ connect_message path name (hex_encode cn) (hex_encode m)"
proof -
  let ?r = "connect_message path name (hex_encode cn) (hex_encode m)"
  define c1 where "c1 = c\<lparr>tp_gets := map Got rs\<rparr>"
  have h: "headersT c = (c1, Inr (challenge_message (hex_encode sn)))"
    unfolding c1_def by (rule headersT_run [OF challenge_facts(1,2) [OF assms(1)] assms(11,12)]) (simp add: assms(15))
  obtain ws where w: "putT ?r c1 = (c1\<lparr>tp_puts := ws, tp_out := tp_out c1 @ ?r\<rparr>, Inr ())"
    using putT_run [of c1 ?r] assms(9,10) by (auto simp: c1_def)
  define c2 where "c2 = c1\<lparr>tp_puts := ws, tp_out := tp_out c1 @ ?r\<rparr>"
  have h': "headersT c2 = (c2\<lparr>tp_gets := []\<rparr>, Inr established_message)"
    by (rule headersT_run [OF established_facts(1,2) assms(13,14)]) (simp add: c2_def c1_def)
  show ?thesis
    using h w h' assms(7,8)
    by (simp add: client_handshake_def recordT_def random_nonce_hex_def thenS_def bindS_def retS_def Let_def
        challenge_facts(3,4) [OF assms(1)] established_facts(3) flip: c2_def)
      (simp add: c1_def c2_def)
qed

text \<open>
  C18: the legacy handshake between honest sides, over every way their messages may be cut on the wire, ends for both, with the
  same session keys: the server finds the client's key at its position among its keys (no earlier key may have the same token), and
  what each side reads is exactly what the other one writes.
\<close>

theorem legacy_handshake:
  assumes "hmac_ok C" "length sn = 32" "length cn = 32" "cr \<notin> set path" "cr \<notin> set name" "length path + length name \<le> 16000"
    and "i < length psks" "\<forall>q \<in> set (take i psks). legacy_bearer C path name sn cn q \<noteq> legacy_bearer C path name sn cn (psks ! i)"
    and "patient (tp_puts s)" "length (challenge_message (hex_encode sn)) + length established_message \<le> length (tp_puts s)"
    and "patient (tp_puts c)" "16384 \<le> length (tp_puts c)"
    and "[] \<notin> set cc" "concat cc = challenge_message (hex_encode sn)"
    and "[] \<notin> set rq" "concat rq = connect_message path name (hex_encode cn) (legacy_bearer C path name sn cn (psks ! i))"
    and "[] \<notin> set rs" "concat rs = established_message"
    and "tp_gets s = map Got rq" "tp_gets c = map Got (cc @ rs)"
  shows "\<exists>k s' c'. server_handshake C path name psks (Some sn) s = (s', Inr (k, i)) \<and>
      client_handshake C path name (psks ! i) (Some cn) c = (c', Inr k) \<and>
      tp_out s' = tp_out s @ concat cc @ concat rs \<and> tp_out c' = tp_out c @ concat rq"
proof -
  obtain k m where k: "derive_session_keys C (psks ! i) (hex_encode sn) (hex_encode cn) = Inr k"
    "handshake_token C (auth k) (str name) (str path) (hex_encode sn) (hex_encode cn) = Inr (hex_encode m)" "length m = 32"
    by (rule legacy_token_ok [OF assms(1-3)])
  have t: "legacy_token C path name (hex_encode sn) (hex_encode cn) (psks ! i) = Inr (k, hex_encode m)"
    using k by (simp add: legacy_token_def)
  then have b: "legacy_bearer C path name sn cn (psks ! i) = hex_encode m" by (simp add: legacy_bearer_def)
  have l: "length (connect_message path name (hex_encode cn) (hex_encode m)) \<le> length (tp_puts c)"
    using connect_facts(2) [OF assms(3) k(3) assms(4-6)] assms(12) by simp
  show ?thesis
    using server_legacy_run [OF assms(2,3) k(3) assms(4-7) t assms(8) [unfolded b] assms(9,10,15) assms(16) [unfolded b] assms(19)]
      client_legacy_run [OF assms(2,3) k(3) assms(4-6) k(1,2) assms(11) l assms(13,14,17,18,20)]
    unfolding b assms(14,16,18) by blast
qed

definition legacy_demo :: "peer_get list \<Rightarrow> tls_peer" where
  "legacy_demo gets = \<lparr>tp_gets = gets, tp_puts = replicate 16384 (Took 7), tp_out = [], tp_auth_fail = 0\<rparr>"

theorem legacy_handshake_witness:
  "let sn = replicate 32 1; cn = replicate 32 2; psk = replicate 32 3;
       ch = challenge_message (hex_encode sn);
       rq = connect_message ''/t'' ''example.org'' (hex_encode cn) (legacy_bearer demo_crypto ''/t'' ''example.org'' sn cn psk);
       s = legacy_demo [Got rq]; c = legacy_demo [Got (take 9 ch), Got (drop 9 ch), Got established_message] in
   \<exists>k s' c'. server_handshake demo_crypto ''/t'' ''example.org'' [psk] (Some sn) s = (s', Inr (k, 0)) \<and>
     client_handshake demo_crypto ''/t'' ''example.org'' psk (Some cn) c = (c', Inr k) \<and>
     tp_out s' = ch @ established_message \<and> tp_out c' = rq"
proof -
  let ?sn = "replicate 32 (1 :: byte)" and ?cn = "replicate 32 (2 :: byte)" and ?psk = "replicate 32 (3 :: byte)"
  let ?ch = "challenge_message (hex_encode ?sn)"
  let ?rq = "connect_message ''/t'' ''example.org'' (hex_encode ?cn) (legacy_bearer demo_crypto ''/t'' ''example.org'' ?sn ?cn ?psk)"
  have l: "length ?ch = 149" "length established_message = 125" by (simp_all add: challenge_message_def established_message_def chars_def crlf_def)
  have ne: "?rq \<noteq> []" "established_message \<noteq> []" "take 9 ?ch \<noteq> []" "drop 9 ?ch \<noteq> []"
    using l by (auto simp: connect_message_def)
  have c: "cr \<notin> set ''/t''" "cr \<notin> set ''example.org''" by (simp_all add: cr_def)
  have p: "patient (replicate 16384 (Took 7))" by (simp add: patient_def)
  have "\<exists>k s' c'. server_handshake demo_crypto ''/t'' ''example.org'' [?psk] (Some ?sn) (legacy_demo [Got ?rq]) = (s', Inr (k, 0)) \<and>
      client_handshake demo_crypto ''/t'' ''example.org'' ([?psk] ! 0) (Some ?cn)
        (legacy_demo [Got (take 9 ?ch), Got (drop 9 ?ch), Got established_message]) = (c', Inr k) \<and>
      tp_out s' = tp_out (legacy_demo [Got ?rq]) @ concat [take 9 ?ch, drop 9 ?ch] @ concat [established_message] \<and>
      tp_out c' = tp_out (legacy_demo [Got (take 9 ?ch), Got (drop 9 ?ch), Got established_message]) @ concat [?rq]"
    by (rule legacy_handshake) (use l ne c p in \<open>simp_all add: legacy_demo_def del: replicate.simps\<close>)
  then show ?thesis unfolding Let_def by (simp add: legacy_demo_def del: replicate.simps)
qed

section \<open>A peer that says nothing\<close>

text \<open>The loop of \<open>ssl_read_headers\<close> has no deadline: as long as the peer is silent, it asks again.\<close>

lemma silent_peer_waits: "find_sub header_end s = None \<Longrightarrow> length s \<le> 16384 \<Longrightarrow>
    ssl_read_headers s (replicate n GetAgain) = (Inl LegacyCut, [])"
proof (induction n)
  case 0
  then show ?case by (subst ssl_read_headers.simps) simp
next
  case (Suc n)
  then show ?case by (subst ssl_read_headers.simps) simp
qed

end
