(* ===== verification/TunDevice.thy ===== *)
theory TunDevice
  imports StateError Text
begin

text \<open>
  \<open>src/cdn/src/platform/linux/tun_linux.cpp\<close>: the checks on the name and the addresses of the TUN device, and the
  constructor that opens and configures it with the program \<open>ip\<close>. The kernel, \<open>inet_pton\<close> and the runs of \<open>ip\<close> are parameters.
\<close>

section \<open>Checks\<close>

datatype family = AF_INET | AF_INET6

definition ip_only :: "string \<Rightarrow> string" where
  "ip_only cidr = (case find_char (CHR ''/'') cidr of None \<Rightarrow> cidr | Some p \<Rightarrow> take p cidr)"

definition is_alnum :: "char \<Rightarrow> bool" where
  "is_alnum c \<longleftrightarrow> is_digit c \<or> 65 \<le> (of_char c :: nat) \<and> (of_char c :: nat) \<le> 90 \<or> 97 \<le> (of_char c :: nat) \<and> (of_char c :: nat) \<le> 122"

definition token_char :: "char \<Rightarrow> bool" where
  "token_char c \<longleftrightarrow> is_alnum c \<or> c = CHR ''.'' \<or> c = CHR '':'' \<or> c = CHR ''/'' \<or> c = CHR ''_'' \<or> c = CHR ''-''"

definition safe_token :: "string \<Rightarrow> (string, unit) result" where
  "safe_token s =
     (if s = [] then Inl ''empty network token'' else if \<not> list_all token_char s then Inl (''unsafe network token: '' @ s) else Inr ())"

text \<open>What a C function reads of a string.\<close>

definition c_str :: "string \<Rightarrow> string" where
  "c_str s = takeWhile (\<lambda>c. c \<noteq> CHR 0x00) s"

text \<open>\<open>pton\<close> is \<open>inet_pton\<close>: the bytes of an address it accepts.\<close>

definition validate_cidr :: "(family \<Rightarrow> string \<Rightarrow> bytes option) \<Rightarrow> string \<Rightarrow> (string, family) result" where
  "validate_cidr pton value =
     (let bad = Inl (''TUN address must be an IP address with prefix length: '' @ value) in
      case find_char (CHR ''/'') value of
        None \<Rightarrow> bad
      | Some slash \<Rightarrow>
          if slash = 0 \<or> slash + 1 = length value \<or> find_char (CHR ''/'') (drop (slash + 1) value) \<noteq> None then bad
          else let address = take slash value; prefix = drop (slash + 1) value; bits = digits_value 10 prefix in
            if prefix = [] \<or> \<not> list_all is_digit prefix \<or> bits \<ge> 18446744073709551616 then Inl (''invalid TUN address prefix: '' @ value)
            else let family = (if find_char (CHR '':'') address = None then AF_INET else AF_INET6) in
              if pton family (c_str address) = None \<or> bits > (if family = AF_INET then 32 else 128)
              then Inl (''invalid TUN IP address or prefix: '' @ value)
              else Inr family)"

definition validate_tun_inputs :: "(family \<Rightarrow> string \<Rightarrow> bytes option) \<Rightarrow> string \<Rightarrow> string \<Rightarrow> string \<Rightarrow> int \<Rightarrow> (string, unit) result" where
  "validate_tun_inputs pton dev cidr peer_cidr mtu =
     andThen (safe_token dev) (\<lambda>_.
     andThen (check (\<not> (length dev \<ge> 16 \<or> hd dev = CHR ''-'' \<or> find_char (CHR ''/'') dev \<noteq> None \<or> find_char (CHR '':'') dev \<noteq> None \<or>
                find_char (CHR ''.'') dev = Some 0)) ''TUN interface name must be 1-15 safe characters'') (\<lambda>_.
     andThen (safe_token cidr) (\<lambda>_.
     andThen (safe_token peer_cidr) (\<lambda>_.
     andThen (check (\<not> (mtu < 576 \<or> mtu > 9000)) ''TUN MTU must be 576-9000'') (\<lambda>_.
     andThen (validate_cidr pton cidr) (\<lambda>family.
     andThen (validate_cidr pton peer_cidr) (\<lambda>peer.
     andThen (check (family = peer) ''TUN and peer addresses must use the same IP family'') (\<lambda>_.
     andThen (check (\<not> (family = AF_INET6 \<and> mtu < 1280)) ''IPv6 TUN MTU must be at least 1280'') (\<lambda>_.
     check (ip_only cidr \<noteq> ip_only peer_cidr) ''TUN and peer IP addresses must differ'')))))))))"

section \<open>The device\<close>

text \<open>
  The kernel and the runs of \<open>ip\<close>; error texts are those of \<open>strerror\<close>. \<open>tw_attach\<close> is the request \<open>TUNSETIFF\<close> for a name, with the
  name of the device.
\<close>

datatype ip_run = ForkFailed string | WaitFailed string | Exited bool

record tun_world =
  tw_open :: "(string, int) result"
  tw_attach :: "string \<Rightarrow> (string, string) result"
  tw_ip :: "nat \<Rightarrow> ip_run"

text \<open>The members of the device, the descriptors that are open, and the arguments \<open>ip\<close> was started with.\<close>

record tun_device =
  td_fd :: int
  td_name :: string
  td_open :: "int list"
  td_ran :: "string list list"

definition new_device :: tun_device where
  "new_device = \<lparr>td_fd = - 1, td_name = [], td_open = [], td_ran = []\<rparr>"

definition run_ip :: "tun_world \<Rightarrow> string list \<Rightarrow> (tun_device, string, unit) se" where
  "run_ip W args s =
     (s\<lparr>td_ran := td_ran s @ [args]\<rparr>,
      case tw_ip W (length (td_ran s)) of
        ForkFailed e \<Rightarrow> Inl (''fork for ip failed: '' @ e)
      | WaitFailed e \<Rightarrow> Inl (''waitpid for ip failed: '' @ e)
      | Exited ok \<Rightarrow> if ok then Inr () else Inl (''command failed: ip'' @ concat (map (\<lambda>a. CHR '' '' # a) args)))"

definition configure_tun :: "tun_world \<Rightarrow> (family \<Rightarrow> string \<Rightarrow> bytes option) \<Rightarrow> string \<Rightarrow> string \<Rightarrow> int \<Rightarrow> (tun_device, string, unit) se" where
  "configure_tun W pton cidr peer_cidr mtu = withS (\<lambda>s.
     let name = td_name s in
     seqS
      [run_ip W [''link'', ''set'', ''dev'', name, ''mtu'', dec (nat mtu)],
       run_ip W [''addr'', ''flush'', ''dev'', name, ''scope'', ''global''],
       run_ip W [''addr'', ''add'', ip_only cidr, ''peer'', ip_only peer_cidr, ''dev'', name],
       run_ip W [''link'', ''set'', ''dev'', name, ''up''],
       bindS (retS (validate_cidr pton cidr)) (\<lambda>family. whenS (family = AF_INET6)
         (run_ip W [''-6'', ''route'', ''replace'', ip_only peer_cidr @ ''/128'', ''dev'', name, ''src'', ip_only cidr]))])"

definition close_tun :: "tun_device \<Rightarrow> tun_device" where
  "close_tun s = s\<lparr>td_open := remove1 (td_fd s) (td_open s), td_fd := - 1\<rparr>"

definition make_tun :: "tun_world \<Rightarrow> (family \<Rightarrow> string \<Rightarrow> bytes option) \<Rightarrow> string \<Rightarrow> string \<Rightarrow> string \<Rightarrow> int \<Rightarrow> (tun_device, string, unit) se" where
  "make_tun W pton dev cidr peer_cidr mtu =
     bindS (retS (validate_tun_inputs pton dev cidr peer_cidr mtu)) (\<lambda>_.
     case tw_open W of
       Inl e \<Rightarrow> throwS (''open /dev/net/tun failed: '' @ e)
     | Inr fd \<Rightarrow>
         thenS (modS (\<lambda>s. s\<lparr>td_fd := fd, td_open := td_open s @ [fd]\<rparr>))
          (case tw_attach W (take 15 dev) of
             Inl e \<Rightarrow> thenS (modS close_tun) (throwS (''TUNSETIFF failed: '' @ e))
           | Inr name \<Rightarrow>
               thenS (modS (\<lambda>s. s\<lparr>td_name := name\<rparr>))
                 (catchS (configure_tun W pton cidr peer_cidr mtu) (\<lambda>e. thenS (modS close_tun) (throwS e)))))"

text \<open>The destructor.\<close>

definition drop_tun :: "tun_device \<Rightarrow> tun_device" where
  "drop_tun s = (if td_fd s \<ge> 0 then s\<lparr>td_open := remove1 (td_fd s) (td_open s)\<rparr> else s)"

section \<open>Arguments\<close>

text \<open>What \<open>inet_pton\<close> accepts consists of hexadecimal digits, dots and colons.\<close>

definition address_char :: "char \<Rightarrow> bool" where
  "address_char c \<longleftrightarrow> is_digit c \<or> 65 \<le> (of_char c :: nat) \<and> (of_char c :: nat) \<le> 70 \<or> 97 \<le> (of_char c :: nat) \<and> (of_char c :: nat) \<le> 102 \<or>
     c = CHR ''.'' \<or> c = CHR '':''"

definition pton_ok :: "(family \<Rightarrow> string \<Rightarrow> bytes option) \<Rightarrow> bool" where
  "pton_ok pton \<longleftrightarrow> (\<forall>f a. pton f a \<noteq> None \<longrightarrow> list_all address_char a)"

definition plain_argument :: "string \<Rightarrow> bool" where
  "plain_argument a \<longleftrightarrow> a \<noteq> [] \<and> list_all token_char a \<and> (hd a = CHR ''-'' \<longrightarrow> a = ''-6'')"

lemma safe_token_Inr: "safe_token s = Inr u \<longleftrightarrow> s \<noteq> [] \<and> list_all token_char s"
  by (simp add: safe_token_def)

lemma address_token: "address_char c \<Longrightarrow> token_char c \<and> c \<noteq> CHR ''-''"
  by (auto simp: address_char_def token_char_def is_alnum_def is_digit_def)

lemma c_str_token: "list_all token_char s \<Longrightarrow> c_str s = s"
  by (auto simp: c_str_def takeWhile_eq_all_conv list_all_iff token_char_def is_alnum_def is_digit_def)

lemma plain_address: "a \<noteq> [] \<Longrightarrow> list_all address_char a \<Longrightarrow> plain_argument a \<and> plain_argument (a @ ''/128'')"
  using address_token by (cases a) (auto simp: plain_argument_def list_all_iff token_char_def is_alnum_def is_digit_def)

lemma valid_address:
  assumes "pton_ok pton" "safe_token value = Inr ()" "validate_cidr pton value = Inr family"
  shows "plain_argument (ip_only value)" "plain_argument (ip_only value @ ''/128'')"
proof -
  from assms(3) obtain slash where s: "find_char (CHR ''/'') value = Some slash" "slash \<noteq> 0" "pton family (c_str (take slash value)) \<noteq> None"
    by (auto simp: validate_cidr_def Let_def split: option.splits if_splits)
  have t: "list_all token_char (take slash value)" using assms(2) by (auto simp: safe_token_Inr list_all_iff dest: in_set_takeD)
  have "list_all address_char (take slash value)" using assms(1) s(3) c_str_token [OF t] by (auto simp: pton_ok_def)
  moreover have "take slash value \<noteq> []" using s(1,2) by (auto simp: find_char_Some)
  ultimately show "plain_argument (ip_only value)" "plain_argument (ip_only value @ ''/128'')" using plain_address s(1) by (simp_all add: ip_only_def)
qed

lemma dec_digits: "list_all is_digit (dec n) \<and> dec n \<noteq> []"
proof (induction n rule: dec.induct)
  case (1 n)
  have d: "is_digit (char_of (48 + k))" if "k < 10" for k :: nat using that by (simp add: is_digit_def)
  show ?case
  proof (cases "n < 10")
    case True
    then show ?thesis using d by (simp add: dec.simps [of n])
  next
    case False
    then show ?thesis using 1 [OF False] d [of "n mod 10"] by (simp add: dec.simps [of n])
  qed
qed

lemma plain_number: "plain_argument (dec n)"
  using dec_digits [of n] by (cases "dec n") (auto simp: plain_argument_def list_all_iff token_char_def is_alnum_def is_digit_def)

lemma name_argument: "safe_token n = Inr u \<Longrightarrow> hd n \<noteq> CHR ''-'' \<Longrightarrow> plain_argument n"
  by (simp add: safe_token_Inr plain_argument_def)

lemma plain_words:
  "plain_argument ''link''" "plain_argument ''set''" "plain_argument ''dev''" "plain_argument ''mtu''" "plain_argument ''addr''" "plain_argument ''flush''"
  "plain_argument ''scope''" "plain_argument ''global''" "plain_argument ''add''" "plain_argument ''peer''" "plain_argument ''up''" "plain_argument ''-6''"
  "plain_argument ''route''" "plain_argument ''replace''" "plain_argument ''src''"
  by code_simp+

section \<open>Opening the device\<close>

text \<open>
  What a device of a family needs: its size, no other addresses, its address and that of the peer, to be up, and for IPv6 a route to the
  peer as well.
\<close>

definition tun_setup :: "string \<Rightarrow> string \<Rightarrow> string \<Rightarrow> int \<Rightarrow> family \<Rightarrow> string list list" where
  "tun_setup name address peer mtu family =
     [[''link'', ''set'', ''dev'', name, ''mtu'', dec (nat mtu)],
      [''addr'', ''flush'', ''dev'', name, ''scope'', ''global''],
      [''addr'', ''add'', address, ''peer'', peer, ''dev'', name],
      [''link'', ''set'', ''dev'', name, ''up'']] @
     (case family of AF_INET \<Rightarrow> [] | AF_INET6 \<Rightarrow> [[''-6'', ''route'', ''replace'', peer @ ''/128'', ''dev'', name, ''src'', address]])"

lemma tun_setup_plain:
  assumes "plain_argument name" "plain_argument address" "plain_argument peer" "plain_argument (peer @ ''/128'')"
  shows "\<forall>args \<in> set (tun_setup name address peer mtu family). list_all plain_argument args"
  using assms plain_words plain_number by (cases family) (simp_all add: tun_setup_def)

lemma configure_tun_setup:
  assumes "validate_cidr pton cidr = Inr family"
  shows "configure_tun W pton cidr peer mtu s = seqS (map (run_ip W) (tun_setup (td_name s) (ip_only cidr) (ip_only peer) mtu family)) s"
  using assms by (cases family) (simp_all add: configure_tun_def withS_def Let_def tun_setup_def bindS_retS whenS_def thenS_def bindS_def retS_def skipS_def
      split: prod.splits sum.splits)

text \<open>A sequence of runs: the commands up to the first that does not exit well.\<close>

lemma run_ips:
  "seqS (map (run_ip W) cs) s = (s', r) \<Longrightarrow> \<exists>k \<le> length cs. s' = s\<lparr>td_ran := td_ran s @ take k cs\<rparr> \<and>
    (case r of Inl _ \<Rightarrow> 0 < k \<and> (\<forall>j < k - 1. tw_ip W (length (td_ran s) + j) = Exited True) \<and> tw_ip W (length (td_ran s) + (k - 1)) \<noteq> Exited True
     | Inr _ \<Rightarrow> k = length cs \<and> (\<forall>j < k. tw_ip W (length (td_ran s) + j) = Exited True))"
proof (induction cs arbitrary: s)
  case Nil
  then show ?case by (auto simp: skipS_def retS_def)
next
  case (Cons c cs)
  let ?n = "length (td_ran s)" and ?s = "s\<lparr>td_ran := td_ran s @ [c]\<rparr>"
  show ?case
  proof (cases "tw_ip W ?n = Exited True")
    case True
    then have "run_ip W c s = (?s, Inr ())" by (simp add: run_ip_def)
    then have run: "seqS (map (run_ip W) cs) ?s = (s', r)" using Cons.prems by (simp add: thenS_def bindS_def)
    have q: "length (td_ran ?s) = Suc ?n" by simp
    from Cons.IH [OF run, unfolded q] obtain k where k: "k \<le> length cs" "s' = ?s\<lparr>td_ran := td_ran ?s @ take k cs\<rparr>"
      "case r of Inl _ \<Rightarrow> 0 < k \<and> (\<forall>j < k - 1. tw_ip W (Suc ?n + j) = Exited True) \<and> tw_ip W (Suc ?n + (k - 1)) \<noteq> Exited True
       | Inr _ \<Rightarrow> k = length cs \<and> (\<forall>j < k. tw_ip W (Suc ?n + j) = Exited True)" by blast
    have "tw_ip W (?n + j) = Exited True" if "\<forall>i < m. tw_ip W (Suc ?n + i) = Exited True" "j < Suc m" for j m
      using that True by (cases j) auto
    then show ?thesis using k True by (intro exI [of _ "Suc k"]) (cases k; auto split: sum.splits)
  next
    case False
    then have "s' = ?s" "\<exists>e. r = Inl e" using Cons.prems by (auto simp: thenS_def bindS_def run_ip_def split: ip_run.splits)
    then show ?thesis using False by (intro exI [of _ 1]) auto
  qed
qed

definition ips_ran :: "tun_world \<Rightarrow> nat \<Rightarrow> nat \<Rightarrow> (string, unit) result \<Rightarrow> bool" where
  "ips_ran W k n r \<longleftrightarrow>
     (case r of
        Inl _ \<Rightarrow> 0 < k \<and> (\<forall>j < k - 1. tw_ip W j = Exited True) \<and> tw_ip W (k - 1) \<noteq> Exited True
      | Inr _ \<Rightarrow> k = n \<and> (\<forall>j < k. tw_ip W j = Exited True))"

lemma configured:
  assumes "validate_cidr pton cidr = Inr family" "td_ran s = []" "configure_tun W pton cidr peer mtu s = (s1, r)"
  shows "\<exists>k \<le> length (tun_setup (td_name s) (ip_only cidr) (ip_only peer) mtu family).
    s1 = s\<lparr>td_ran := take k (tun_setup (td_name s) (ip_only cidr) (ip_only peer) mtu family)\<rparr> \<and>
    ips_ran W k (length (tun_setup (td_name s) (ip_only cidr) (ip_only peer) mtu family)) r"
  using run_ips [of W "tun_setup (td_name s) (ip_only cidr) (ip_only peer) mtu family" s s1 r] assms(3)
  unfolding configure_tun_setup [OF assms(1)] assms(2) ips_ran_def list.size add_0 append_Nil by blast

text \<open>
  C13: the device is configured by the right commands, in their order, and nothing else reaches the system. Whatever name, addresses and MTU are
  configured, \<open>ip\<close> is started only after all checks passed and the device was attached; its runs are those of \<open>tun_setup\<close> from the first
  on, each after the one before exited with success, and every argument is a non-empty word of letters, digits and \<open>. : / _ -\<close> that does
  not start an option (but for \<open>-6\<close> itself). A constructor that succeeds has run all of them and has exactly the descriptor of
  the device; one that fails did so because a check, the opening or the attachment failed, or at the first command that failed, and leaves no
  descriptor open.
\<close>

theorem tun_commands_safe:
  assumes "pton_ok pton" "\<And>n n'. tw_attach W n = Inr n' \<Longrightarrow> n' = n" "make_tun W pton dev cidr peer mtu new_device = (s, r)"
  shows "(\<forall>args \<in> set (td_ran s). list_all plain_argument args) \<and>
    (td_ran s = [] \<or> validate_tun_inputs pton dev cidr peer mtu = Inr () \<and> (\<exists>fd family. tw_open W = Inr fd \<and> tw_attach W dev = Inr dev \<and>
       validate_cidr pton cidr = Inr family \<and> prefix (td_ran s) (tun_setup dev (ip_only cidr) (ip_only peer) mtu family))) \<and>
    (\<forall>k. Suc k < length (td_ran s) \<longrightarrow> tw_ip W k = Exited True) \<and>
    (case r of
       Inl _ \<Rightarrow> td_open s = [] \<and> td_fd s = - 1 \<and>
         (if td_ran s = [] then validate_tun_inputs pton dev cidr peer mtu \<noteq> Inr () \<or> (\<exists>e. tw_open W = Inl e) \<or> (\<exists>e. tw_attach W dev = Inl e)
          else tw_ip W (length (td_ran s) - 1) \<noteq> Exited True)
     | Inr _ \<Rightarrow> td_open s = [td_fd s] \<and> tw_open W = Inr (td_fd s) \<and> td_name s = dev \<and> (\<exists>family. validate_cidr pton cidr = Inr family \<and>
         td_ran s = tun_setup dev (ip_only cidr) (ip_only peer) mtu family) \<and> (\<forall>k < length (td_ran s). tw_ip W k = Exited True))"
proof (cases "validate_tun_inputs pton dev cidr peer mtu")
  case (Inl e)
  then have "s = new_device" "r = Inl e" using assms(3) by (simp_all add: make_tun_def bindS_def retS_def)
  then show ?thesis using Inl by (simp add: new_device_def)
next
  case (Inr u)
  then obtain family where f: "validate_cidr pton cidr = Inr family" and v: "safe_token dev = Inr ()" "length dev < 16" "hd dev \<noteq> CHR ''-''"
      "safe_token cidr = Inr ()" "safe_token peer = Inr ()" "\<exists>f. validate_cidr pton peer = Inr f"
    by (auto simp: validate_tun_inputs_def result_iff not_le)
  show ?thesis
  proof (cases "tw_open W")
    case (Inl e)
    then show ?thesis using assms(3) Inr by (auto simp: make_tun_def bindS_def retS_def throwS_def new_device_def)
  next
    case fd: (Inr fd)
    show ?thesis
    proof (cases "tw_attach W dev")
      case (Inl e)
      then show ?thesis using assms(3) Inr fd v(2)
        by (auto simp: make_tun_def bindS_def thenS_def retS_def throwS_def modS_def close_tun_def new_device_def)
    next
      case name: (Inr name)
      then have n: "name = dev" using assms(2) by simp
      let ?s = "new_device\<lparr>td_fd := fd, td_open := [fd], td_name := dev\<rparr>" and ?cs = "tun_setup dev (ip_only cidr) (ip_only peer) mtu family"
      obtain s1 r1 where c: "configure_tun W pton cidr peer mtu ?s = (s1, r1)" by fastforce
      obtain k where k: "k \<le> length ?cs" "s1 = ?s\<lparr>td_ran := take k ?cs\<rparr>" "ips_ran W k (length ?cs) r1"
        using configured [OF f _ c] by (auto simp: new_device_def)
      have "\<forall>args \<in> set ?cs. list_all plain_argument args"
        using name_argument v(1,3) valid_address [OF assms(1)] v(4-6) f by (intro tun_setup_plain) blast+
      then have plain: "\<forall>args \<in> set (take k ?cs). list_all plain_argument args" by (blast dest: in_set_takeD)
      have l: "length (take k ?cs) = k" using k(1) by simp
      have ne: "take k ?cs = [] \<longleftrightarrow> k = 0" by (simp add: tun_setup_def)
      have "(s, r) = (case r1 of Inl e \<Rightarrow> (close_tun s1, Inl e) | Inr u \<Rightarrow> (s1, Inr u))"
        using assms(3) Inr fd name n c v(2)
        by (auto simp: make_tun_def bindS_def thenS_def retS_def throwS_def modS_def catchS_def new_device_def split: sum.splits)
      then show ?thesis
        using plain k(2,3) l ne fd Inr f name n take_is_prefix [of k ?cs]
        by (cases r1) (auto simp: close_tun_def new_device_def ips_ran_def simp del: length_take take_eq_Nil)
    qed
  qed
qed

text \<open>A kernel that refuses the third command.\<close>

definition demo_pton :: "family \<Rightarrow> string \<Rightarrow> bytes option" where
  "demo_pton f a = (if list_all address_char a then Some (map of_char a) else None)"

definition demo_kernel :: tun_world where
  "demo_kernel = \<lparr>tw_open = Inr 7, tw_attach = Inr, tw_ip = (\<lambda>k. Exited (k < 2))\<rparr>"

theorem tun_commands_safe_witness:
  "case make_tun demo_kernel demo_pton ''tun0'' ''10.8.0.1/24'' ''10.8.0.2/24'' 1400 new_device of
     (s, r) \<Rightarrow> length (td_ran s) = 3 \<and> last (td_ran s) = [''addr'', ''add'', ''10.8.0.1'', ''peer'', ''10.8.0.2'', ''dev'', ''tun0''] \<and>
       (\<forall>args \<in> set (td_ran s). list_all plain_argument args) \<and> td_open s = [] \<and> r = Inl ''command failed: ip addr add 10.8.0.1 peer 10.8.0.2 dev tun0''"
proof -
  let ?m = "make_tun demo_kernel demo_pton ''tun0'' ''10.8.0.1/24'' ''10.8.0.2/24'' 1400 new_device"
  have e: "find_char (CHR ''/'') ''10.8.0.1/24'' = Some 8" "find_char (CHR ''/'') ''10.8.0.2/24'' = Some 8" "find_char (CHR ''/'') ''24'' = None"
    "take 8 ''10.8.0.1/24'' = ''10.8.0.1''" "take 8 ''10.8.0.2/24'' = ''10.8.0.2''" "drop (8 + 1) ''10.8.0.1/24'' = ''24''" "drop (8 + 1) ''10.8.0.2/24'' = ''24''"
    "length ''10.8.0.1/24'' = 11" "length ''10.8.0.2/24'' = 11" "find_char (CHR '':'') ''10.8.0.1'' = None" "find_char (CHR '':'') ''10.8.0.2'' = None"
    "list_all is_digit ''24''" "digits_value 10 ''24'' = 24" "demo_pton AF_INET (c_str ''10.8.0.1'') \<noteq> None" "demo_pton AF_INET (c_str ''10.8.0.2'') \<noteq> None"
    by code_simp+
  have v: "validate_cidr demo_pton ''10.8.0.1/24'' = Inr AF_INET" "validate_cidr demo_pton ''10.8.0.2/24'' = Inr AF_INET"
    unfolding validate_cidr_def Let_def e option.case using e(14,15) by (auto simp: is_digit_def)
  have t: "safe_token ''tun0'' = Inr ()" "safe_token ''10.8.0.1/24'' = Inr ()" "safe_token ''10.8.0.2/24'' = Inr ()"
    "ip_only ''10.8.0.1/24'' = ''10.8.0.1''" "ip_only ''10.8.0.2/24'' = ''10.8.0.2''" by code_simp+
  have i: "validate_tun_inputs demo_pton ''tun0'' ''10.8.0.1/24'' ''10.8.0.2/24'' 1400 = Inr ()"
    by (simp add: validate_tun_inputs_def v t find_char_def)
  have r: "length (td_ran (fst ?m)) = 3" "last (td_ran (fst ?m)) = [''addr'', ''add'', ''10.8.0.1'', ''peer'', ''10.8.0.2'', ''dev'', ''tun0'']"
    "snd ?m = Inl ''command failed: ip addr add 10.8.0.1 peer 10.8.0.2 dev tun0''"
    by (simp_all add: make_tun_def i demo_kernel_def configure_tun_def run_ip_def t bindS_def thenS_def retS_def throwS_def modS_def withS_def catchS_def
        close_tun_def new_device_def Let_def)
  obtain s x where m: "?m = (s, x)" by fastforce
  have "pton_ok demo_pton" by (simp add: pton_ok_def demo_pton_def)
  from tun_commands_safe [OF this _ m] r m show ?thesis by (simp add: demo_kernel_def)
qed

text \<open>The last check compares texts: one address in two notations passes as two.\<close>

lemma same_address_accepted:
  assumes "pton AF_INET6 ''fd00::1'' \<noteq> None" "pton AF_INET6 ''fd00:0::1'' \<noteq> None"
  shows "validate_tun_inputs pton ''tun0'' ''fd00::1/64'' ''fd00:0::1/64'' 1400 = Inr ()"
proof -
  have e: "find_char (CHR ''/'') ''fd00::1/64'' = Some 7" "find_char (CHR ''/'') ''fd00:0::1/64'' = Some 9" "find_char (CHR ''/'') ''64'' = None"
    "take 7 ''fd00::1/64'' = ''fd00::1''" "take 9 ''fd00:0::1/64'' = ''fd00:0::1''" "drop (7 + 1) ''fd00::1/64'' = ''64''" "drop (9 + 1) ''fd00:0::1/64'' = ''64''"
    "length ''fd00::1/64'' = 10" "length ''fd00:0::1/64'' = 12" "find_char (CHR '':'') ''fd00::1'' = Some 4" "find_char (CHR '':'') ''fd00:0::1'' = Some 4"
    "list_all is_digit ''64''" "digits_value 10 ''64'' = 64" "c_str ''fd00::1'' = ''fd00::1''" "c_str ''fd00:0::1'' = ''fd00:0::1''" by code_simp+
  have v: "validate_cidr pton ''fd00::1/64'' = Inr AF_INET6" "validate_cidr pton ''fd00:0::1/64'' = Inr AF_INET6"
    using assms unfolding validate_cidr_def Let_def e option.case by (auto simp: is_digit_def)
  have t: "safe_token ''tun0'' = Inr ()" "safe_token ''fd00::1/64'' = Inr ()" "safe_token ''fd00:0::1/64'' = Inr ()"
    "ip_only ''fd00::1/64'' \<noteq> ip_only ''fd00:0::1/64''" by code_simp+
  show ?thesis by (simp add: validate_tun_inputs_def v t(1-3) find_char_def check_def t(4))
qed

end
