(* ===== verification/Program.thy ===== *)
theory Program
  imports TunDevice Logging ConfigProps
begin

text \<open>
  \<open>src/cdn/src/main.cpp\<close>: what the program does with its arguments. Files, \<open>inet_pton\<close> and what is not declared in the
  configuration are parameters; \<open>run\<close>, the control socket and the printed configuration are outcomes.
\<close>

section \<open>Arguments\<close>

record options =
  op_path :: string
  op_control :: string
  op_command :: string
  op_check :: bool
  op_print :: bool

definition no_options :: options where
  "no_options = \<lparr>op_path = [], op_control = [], op_command = [], op_check = False, op_print = False\<rparr>"

text \<open>What reading the arguments comes to: a text that is printed at once, or the options.\<close>

datatype read_result = Says string | Go options

definition version_line :: string where
  "version_line = ''pacetun-cdn 6.0.0-alpha1-linux'' @ newline"

definition usage_text :: string where
  "usage_text = version_line @ ''Usage:'' @ newline @
     ''  pacetun-cdn --config FILE [--check-config|--print-effective-config]'' @ newline @
     ''  pacetun-cdn --platform'' @ newline @
     ''  pacetun-cdn diagnose'' @ newline @
     ''  pacetun-cdn --explain ERROR_CODE'' @ newline @
     ''  pacetun-cdn --control SOCKET {overview|status|stats|health|events|diagnose|reconnect|stop}'' @ newline"

fun read_args :: "string list \<Rightarrow> options \<Rightarrow> (string, read_result) result" where
  "read_args [] o' = Inr (Go o')"
| "read_args (a # as) o' =
     (if a = ''--config'' \<and> as \<noteq> [] then read_args (drop 1 as) (o'\<lparr>op_path := hd as\<rparr>)
      else if a = ''--check-config'' then read_args as (o'\<lparr>op_check := True\<rparr>)
      else if a = ''--print-effective-config'' then read_args as (o'\<lparr>op_print := True\<rparr>)
      else if a = ''--control'' \<and> length as \<ge> 2 then read_args (drop 2 as) (o'\<lparr>op_control := hd as, op_command := as ! 1\<rparr>)
      else if a = ''--version'' then Inr (Says version_line)
      else if a = ''--help'' \<or> a = ''-h'' then Inr (Says usage_text)
      else Inl (''unknown argument: '' @ a))"

declare read_args.simps(2) [simp del]

section \<open>The program\<close>

text \<open>\<open>Printed\<close> ends with status 0 and \<open>Fatal\<close> with status 1; the other outcomes call \<open>control_command\<close>, \<open>effective_config\<close> and \<open>run\<close>.\<close>

datatype outcome = Printed string | Fatal string | AsksControl string string | PrintsConfig config | Runs config

definition platform_line :: string where
  "platform_line = ''os=linux backend=linux-tun windows=unsupported macos=unsupported freebsd=unsupported socks5=not-implemented release=6.0.0-alpha1'' @ newline"

definition explained :: "string \<Rightarrow> string" where
  "explained code =
     (let e = explain_problem code [] in
      ''Code: '' @ code @ newline @ ''Meaning: '' @ meaning e @ newline @ ''Next step: '' @ next_step e @ newline)"

definition with_options ::
    "undeclared \<Rightarrow> (family \<Rightarrow> string \<Rightarrow> bytes option) \<Rightarrow> (string \<Rightarrow> string option) \<Rightarrow> options \<Rightarrow> (string, outcome) result" where
  "with_options u pton files o' =
     (if op_control o' \<noteq> [] then Inr (AsksControl (op_control o') (op_command o'))
      else if op_path o' = [] then Inl ''--config FILE is required''
      else andThen (load_config u (op_path o') (files (op_path o'))) (\<lambda>c.
        andThen (validate_tun_inputs pton (dev c) (cidr c) (peer_cidr c) (mtu c)) (\<lambda>_.
        Inr (if op_check o' then Printed (''configuration OK'' @ newline) else if op_print o' then PrintsConfig c else Runs c))))"

definition program ::
    "undeclared \<Rightarrow> (family \<Rightarrow> string \<Rightarrow> bytes option) \<Rightarrow> (string \<Rightarrow> string option) \<Rightarrow> string list \<Rightarrow> outcome" where
  "program u pton files args =
     (if args = [''--platform''] then Printed platform_line
      else if length args = 2 \<and> args ! 0 = ''--explain'' then Printed (explained (args ! 1))
      else if args = [''diagnose''] then AsksControl ''/run/pacetun-cdn/control.sock'' ''diagnose''
      else case andThen (read_args args no_options) (\<lambda>r. case r of Says t \<Rightarrow> Inr (Printed t) | Go o' \<Rightarrow> with_options u pton files o') of
        Inl e \<Rightarrow> Fatal (''fatal: '' @ e @ newline)
      | Inr out \<Rightarrow> out)"

section \<open>What is run\<close>

lemma read_args_check:
  "read_args args o' = Inr (Go o'') \<Longrightarrow> read_args (args @ [''--check-config'']) o' = Inr (Go (o''\<lparr>op_check := True\<rparr>))"
proof (induction args o' rule: read_args.induct)
  case (1 o')
  then show ?case by (simp add: read_args.simps(2))
next
  case (2 a as o')
  note IH = 2
  show ?case
  proof (cases "a = ''--config''")
    case True
    with IH(5) have "as \<noteq> []" by (auto simp: read_args.simps(2))
    with True IH show ?thesis by (cases as) (simp_all add: read_args.simps(2))
  next
    case c: False
    show ?thesis
    proof (cases "a = ''--control''")
      case True
      with IH(5) have "length as \<ge> 2" by (auto simp: read_args.simps(2) split: if_splits)
      then obtain x y zs where "as = x # y # zs" by (cases as; cases "tl as") auto
      with True IH show ?thesis by (simp add: read_args.simps(2))
    next
      case False
      with c IH show ?thesis by (auto simp: read_args.simps(2) split: if_splits)
    qed
  qed
qed

lemma read_args_path: "read_args args o' = Inr (Go o'') \<Longrightarrow> op_path o'' \<noteq> op_path o' \<Longrightarrow> op_path o'' \<in> set args"
proof (induction args o' rule: read_args.induct)
  case (2 a as o')
  show ?case
  proof (cases "a = ''--config'' \<and> as \<noteq> []")
    case True
    with 2 show ?thesis by (cases as; cases "op_path o'' = hd as") (auto simp: read_args.simps(2))
  next
    case False
    with 2 show ?thesis by (auto simp: read_args.simps(2) split: if_splits dest: in_set_dropD)
  qed
qed simp

lemma options_run: "with_options u pton files o' = Inr (Runs c) \<longleftrightarrow>
    op_control o' = [] \<and> op_path o' \<noteq> [] \<and> \<not> op_check o' \<and> \<not> op_print o' \<and>
    load_config u (op_path o') (files (op_path o')) = Inr c \<and> validate_tun_inputs pton (dev c) (cidr c) (peer_cidr c) (mtu c) = Inr ()"
  by (auto simp: with_options_def andThen_Inr)

text \<open>
  The program starts the tunnel only with a configuration that the file it was given loads to and whose TUN inputs are valid,
  so that the checks in the constructor of the device cannot fail; and on every command line that starts it, adding
  \<open>--check-config\<close> reports the configuration as good.
\<close>

lemma runs_checked:
  assumes "program u pton files args = Runs c"
  shows "\<exists>path content. path \<in> set args \<and> files path = Some content \<and> load_config u path (Some content) = Inr c \<and>
    validate_tun_inputs pton (dev c) (cidr c) (peer_cidr c) (mtu c) = Inr () \<and>
    program u pton files (args @ [''--check-config'']) = Printed (''configuration OK'' @ newline)"
proof -
  obtain o' where r: "read_args args no_options = Inr (Go o')" "with_options u pton files o' = Inr (Runs c)"
  proof -
    have "andThen (read_args args no_options) (\<lambda>r. case r of Says t \<Rightarrow> Inr (Printed t) | Go o' \<Rightarrow> with_options u pton files o') = Inr (Runs c)"
      using assms by (auto simp: program_def split: if_splits sum.splits)
    then obtain r where "read_args args no_options = Inr r"
      "(case r of Says t \<Rightarrow> Inr (Printed t) | Go o' \<Rightarrow> with_options u pton files o') = Inr (Runs c)"
      by (auto simp only: andThen_Inr)
    then show ?thesis using that by (cases r) auto
  qed
  have w: "op_control o' = []" "op_path o' \<noteq> []" "load_config u (op_path o') (files (op_path o')) = Inr c"
    "validate_tun_inputs pton (dev c) (cidr c) (peer_cidr c) (mtu c) = Inr ()"
    using r(2) by (simp_all add: options_run)
  obtain content where f: "files (op_path o') = Some content"
    using w(3) by (cases "files (op_path o')") (auto simp: load_config_def)
  let ?args = "args @ [''--check-config'']"
  have "args \<noteq> [''--explain'']" using r(1) by (auto simp: read_args.simps(2))
  then have e: "?args \<noteq> [''--platform'']" "\<not> (length ?args = 2 \<and> ?args ! 0 = ''--explain'')" "?args \<noteq> [''diagnose'']"
    by (auto simp: append_eq_Cons_conv length_Suc_conv numeral_2_eq_2)
  have "program u pton files (args @ [''--check-config'']) = Printed (''configuration OK'' @ newline)"
    unfolding program_def if_not_P [OF e(1)] if_not_P [OF e(2)] if_not_P [OF e(3)] read_args_check [OF r(1)]
    using w by (simp add: with_options_def)
  moreover have "op_path o' \<in> set args" using read_args_path [OF r(1)] w(2) by (simp add: no_options_def)
  ultimately show ?thesis using w f by auto
qed

lemma demo_read_tun: "\<exists>c. read_settings demo_undeclared demo_settings = Inr c \<and> validate_config c = Inr () \<and>
    dev c = ''phtun0'' \<and> cidr c = ''10.0.0.2/30'' \<and> peer_cidr c = ''10.0.0.1/30'' \<and> mtu c = 1280"
  by (simp add: read_settings_def demo_settings_def demo_undeclared_def steps_first_def steps_transport_def steps_tuning_def
      setter_defs default_config_def apply_profile_def apply_resource_cap_def stoi_def number_parts_def
      digits_value_def digit_value_def is_digit_def is_space_def Let_def validate_config_def checks_pool_def
      checks_shaping_def checks_endpoints_def checks_tls_def checks_tuning_def range_check_def reject_def to_ll_def
      to_size_def validate_http_field_def validate_endpoint_def endpoint_parts_def find_char_def rfind_char_def)

lemma demo_tun: "validate_tun_inputs demo_pton ''phtun0'' ''10.0.0.2/30'' ''10.0.0.1/30'' 1280 = Inr ()"
proof -
  have e: "find_char (CHR ''/'') ''10.0.0.2/30'' = Some 8" "find_char (CHR ''/'') ''10.0.0.1/30'' = Some 8" "find_char (CHR ''/'') ''30'' = None"
    "take 8 ''10.0.0.2/30'' = ''10.0.0.2''" "take 8 ''10.0.0.1/30'' = ''10.0.0.1''" "drop (8 + 1) ''10.0.0.2/30'' = ''30''" "drop (8 + 1) ''10.0.0.1/30'' = ''30''"
    "length ''10.0.0.2/30'' = 11" "length ''10.0.0.1/30'' = 11" "find_char (CHR '':'') ''10.0.0.2'' = None" "find_char (CHR '':'') ''10.0.0.1'' = None"
    "list_all is_digit ''30''" "digits_value 10 ''30'' = 30" "demo_pton AF_INET (c_str ''10.0.0.2'') \<noteq> None" "demo_pton AF_INET (c_str ''10.0.0.1'') \<noteq> None"
    by code_simp+
  have v: "validate_cidr demo_pton ''10.0.0.2/30'' = Inr AF_INET" "validate_cidr demo_pton ''10.0.0.1/30'' = Inr AF_INET"
    unfolding validate_cidr_def Let_def e option.case using e(14,15) by (auto simp: is_digit_def)
  have t: "safe_token ''phtun0'' = Inr ()" "safe_token ''10.0.0.2/30'' = Inr ()" "safe_token ''10.0.0.1/30'' = Inr ()"
    "ip_only ''10.0.0.2/30'' = ''10.0.0.2''" "ip_only ''10.0.0.1/30'' = ''10.0.0.1''" by code_simp+
  show ?thesis by (simp add: validate_tun_inputs_def v t find_char_def)
qed

lemma demo_program:
  "\<exists>c. let files = [''conf'' \<mapsto> print_settings demo_settings] in
     program demo_undeclared demo_pton files [''--config'', ''conf''] = Runs c \<and> mtu c = 1280 \<and>
     program demo_undeclared demo_pton files [''--config'', ''conf'', ''--check-config''] = Printed (''configuration OK'' @ newline)"
proof -
  let ?files = "[''conf'' \<mapsto> print_settings demo_settings]"
  obtain c where r: "read_settings demo_undeclared demo_settings = Inr c" "validate_config c = Inr ()"
    and d: "dev c = ''phtun0''" "cidr c = ''10.0.0.2/30''" "peer_cidr c = ''10.0.0.1/30''" "mtu c = 1280"
    using demo_read_tun by blast
  have l: "load_config demo_undeclared ''conf'' (Some (print_settings demo_settings)) = Inr c"
    using r demo_keys by (simp add: load_printed [OF demo_printable])
  have a: "program demo_undeclared demo_pton ?files [''--config'', ''conf''] = Runs c"
    by (simp add: program_def read_args.simps no_options_def with_options_def l d demo_tun)
  show ?thesis using runs_checked [OF a] a d(4) by (auto simp: Let_def)
qed

end
