(* ===== verification/WsBlocking.thy ===== *)
theory WsBlocking
  imports LegacyProps DialProps WsRead
begin

text \<open>
  The blocking reads and writes of a WebSocket session before and after its frames (\<open>wait_io\<close>, \<open>write_all_until\<close>, \<open>read_headers\<close>,
  \<open>best_effort_close_frame\<close> and \<open>websocket_http_fallback\<close> of \<open>src/cdn/src/websocket.cpp\<close>). Clock, \<open>poll\<close> and the attempts to read
  and write are the answers of a world; as in \<open>Dial\<close>, the fuel counts the iterations of each loop.
\<close>

section \<open>Waiting\<close>

text \<open>The outcomes of \<open>io_read\<close> and \<open>io_write\<close>; nothing possible now comes with whether to wait for the other direction.\<close>

datatype io_get = Gave string | GaveNothing bool | ReadBroken

datatype io_put = PutSome nat | PutNone bool | WriteBroken

record io_world =
  bw_clock :: "nat \<Rightarrow> int"
  bw_poll :: "nat \<Rightarrow> bool \<Rightarrow> int \<Rightarrow> poll_answer"
  bw_read :: "nat \<Rightarrow> io_get"
  bw_write :: "nat \<Rightarrow> nat \<Rightarrow> io_put"

text \<open>What has been received and sent.\<close>

record io_state =
  io_ev :: nat
  io_got :: string
  io_sent :: bytes

type_synonym 'a blocking = "(io_state, dial_error, 'a) se"

definition askB :: "(nat \<Rightarrow> 'a) \<Rightarrow> 'a blocking" where
  "askB f s = (s\<lparr>io_ev := Suc (io_ev s)\<rparr>, Inr (f (io_ev s)))"

definition failB :: "string \<Rightarrow> 'a blocking" where
  "failB m = throwS (DialFail m)"

fun wait_io :: "io_world \<Rightarrow> bool \<Rightarrow> int \<Rightarrow> string \<Rightarrow> nat \<Rightarrow> unit blocking" where
  "wait_io W out deadline what 0 = throwS DialCut"
| "wait_io W out deadline what (Suc n) =
     bindS (askB (bw_clock W)) (\<lambda>t.
     let remain = milliseconds (deadline - t) in
     if remain \<le> 0 then failB (''WebSocket '' @ what @ '' timeout'')
     else bindS (askB (\<lambda>k. bw_poll W k out (min remain 250))) (\<lambda>p.
       case p of
         PollEvents nval asked gone \<Rightarrow>
           if nval then failB (''WebSocket '' @ what @ '' socket invalid'')
           else if asked then skipS
           else if gone then failB (''WebSocket '' @ what @ '' socket closed'')
           else wait_io W out deadline what n
       | PollError e \<Rightarrow> if e \<noteq> EINTR then failB (''WebSocket '' @ what @ '' poll failed'') else wait_io W out deadline what n
       | PollNothing \<Rightarrow> wait_io W out deadline what n))"

section \<open>Writing\<close>

definition putB :: "io_world \<Rightarrow> bytes \<Rightarrow> io_put blocking" where
  "putB W d s = (let r = bw_write W (io_ev s) (length d) in
     (s\<lparr>io_ev := Suc (io_ev s), io_sent := io_sent s @ (case r of PutSome k \<Rightarrow> take k d | _ \<Rightarrow> [])\<rparr>, Inr r))"

fun write_all_until :: "io_world \<Rightarrow> int \<Rightarrow> string \<Rightarrow> nat \<Rightarrow> nat \<Rightarrow> bytes \<Rightarrow> unit blocking" where
  "write_all_until W deadline what m 0 d = (if d = [] then skipS else throwS DialCut)"
| "write_all_until W deadline what m (Suc n) d =
     (if d = [] then skipS
      else bindS (putB W d) (\<lambda>r.
        case r of
          PutSome k \<Rightarrow> if k > 0 then write_all_until W deadline what m n (drop k d) else failB (''WebSocket '' @ what @ '' write failed'')
        | PutNone inward \<Rightarrow> thenS (wait_io W (\<not> inward) deadline what m) (write_all_until W deadline what m n d)
        | WriteBroken \<Rightarrow> failB (''WebSocket '' @ what @ '' write failed'')))"

definition http_fallback_response :: string where
  "http_fallback_response =
     (let quote = [CHR 0x22];
          body = ''<!doctype html><html lang='' @ quote @ ''en'' @ quote @ ''><meta charset='' @ quote @ ''utf-8'' @ quote @ ''><title>Not found</title>'' @
            ''<h1>Not found</h1><p>The requested page is unavailable.</p></html>'' @ [CHR 0x0A] in
      ''HTTP/1.1 404 Not Found'' @ crlf @ ''Content-Type: text/html; charset=utf-8'' @ crlf @ ''Content-Length: '' @ dec (length body) @ crlf @
      ''Cache-Control: no-store'' @ crlf @ ''Connection: close'' @ crlf @ crlf @ body)"

definition websocket_http_fallback :: "io_world \<Rightarrow> nat \<Rightarrow> ws_session \<Rightarrow> unit blocking" where
  "websocket_http_fallback W n w =
     (if ws_upgraded w then skipS
      else bindS (askB (bw_clock W)) (\<lambda>t. write_all_until W (t + 1000 * 1000000) ''fallback'' n n (str http_fallback_response)))"

text \<open>Errors are swallowed; \<open>mk\<close> is the mask drawn for the frame.\<close>

definition best_effort_close_frame :: "io_world \<Rightarrow> nat \<Rightarrow> bytes option \<Rightarrow> ws_session \<Rightarrow> ws_session blocking" where
  "best_effort_close_frame W n mk w =
     (if \<not> ws_upgraded w \<or> \<not> ws_fd_open w then retS (Inr w)
      else thenS
        (case make_frame (ws_client w) 8 [] mk of
           Inl _ \<Rightarrow> skipS
         | Inr f \<Rightarrow>
             catchS (bindS (askB (bw_clock W)) (\<lambda>t.
                 write_all_until W (t + min (max 100 (io_timeout_ms w)) 1000 * 1000000) ''close'' n n f))
               (\<lambda>e. if e = DialCut then throwS DialCut else skipS))
        (retS (Inr (w\<lparr>ws_tx := [], tx_queued_bytes := 0, tx_last_progress_ms := 0\<rparr>))))"

section \<open>Reading headers\<close>

definition getB :: "io_world \<Rightarrow> io_get blocking" where
  "getB W s = (let r = (case bw_read W (io_ev s) of Gave b \<Rightarrow> Gave (take 2048 b) | r \<Rightarrow> r) in
     (s\<lparr>io_ev := Suc (io_ev s), io_got := io_got s @ (case r of Gave b \<Rightarrow> b | _ \<Rightarrow> [])\<rparr>, Inr r))"

fun read_headers_loop :: "io_world \<Rightarrow> int \<Rightarrow> nat \<Rightarrow> nat \<Rightarrow> string \<Rightarrow> (string \<times> string) blocking" where
  "read_headers_loop W deadline m 0 s = throwS DialCut"
| "read_headers_loop W deadline m (Suc n) s =
     (case find_sub header_end s of
        Some e \<Rightarrow> retS (Inr (take (e + 4) s, drop (e + 4) s))
      | None \<Rightarrow>
          if length s > 32768 then failB ''WebSocket headers too large''
          else bindS (getB W) (\<lambda>r.
            case r of
              Gave b \<Rightarrow> if b = [] then failB ''WebSocket header read failed'' else read_headers_loop W deadline m n (s @ b)
            | GaveNothing out \<Rightarrow> thenS (wait_io W out deadline ''upgrade'' m) (read_headers_loop W deadline m n s)
            | ReadBroken \<Rightarrow> failB ''WebSocket header read failed''))"

text \<open>What came after the headers is kept for the frames.\<close>

definition read_headers :: "io_world \<Rightarrow> int \<Rightarrow> nat \<Rightarrow> ws_session \<Rightarrow> (string \<times> ws_session) blocking" where
  "read_headers W timeout_ms n w =
     bindS (askB (bw_clock W)) (\<lambda>t.
     bindS (read_headers_loop W (t + max 100 timeout_ms * 1000000) n n []) (\<lambda>(h, rest).
     retS (Inr (h, w\<lparr>ws_rx := ws_rx w @ str rest\<rparr>))))"

section \<open>An end\<close>

definition io_time_passes :: "io_world \<Rightarrow> bool" where
  "io_time_passes W \<longleftrightarrow> mono (bw_clock W) \<and> (\<forall>t. \<exists>k. t \<le> bw_clock W k)"

lemma io_uncut [simp]:
  "uncut (failB m) s" "uncut (bindS (askB f) g) s = uncut (g (f (io_ev s))) (s\<lparr>io_ev := Suc (io_ev s)\<rparr>)"
  by (simp_all add: uncut_def failB_def throwS_def retS_def askB_def bindS_def)

lemma wait_io_uncut:
  assumes "\<And>k. K \<le> k \<Longrightarrow> deadline \<le> bw_clock W k"
  shows "0 < n \<Longrightarrow> K < n + io_ev s \<Longrightarrow> uncut (wait_io W out deadline what n) s"
proof (induction n arbitrary: s)
  case (Suc n)
  have "uncut (wait_io W out deadline what n) u" if "io_ev s < io_ev u" "0 < milliseconds (deadline - bw_clock W (io_ev s))" for u
  proof -
    have "io_ev s < K" using that(2) assms [of "io_ev s"] milliseconds_past [of "deadline - bw_clock W (io_ev s)"] by (meson diff_le_0_iff_le leD not_le)
    then show ?thesis by (intro Suc.IH) (use Suc.prems that(1) in linarith)+
  qed
  then show ?case by (auto simp: Let_def not_le split: poll_answer.splits)
qed simp

text \<open>A wait that succeeds took place before the deadline and used the clock.\<close>

lemma wait_io_early:
  assumes "\<And>k. K \<le> k \<Longrightarrow> deadline \<le> bw_clock W k"
  shows "wait_io W out deadline what n s = (s', Inr ()) \<Longrightarrow> io_ev s < K \<and> io_ev s < io_ev s'"
proof (induction n arbitrary: s)
  case 0
  then show ?case by (simp add: throwS_def retS_def)
next
  case (Suc n)
  have "io_ev s < K" if "0 < milliseconds (deadline - bw_clock W (io_ev s))"
    using that assms [of "io_ev s"] milliseconds_past [of "deadline - bw_clock W (io_ev s)"] by (meson diff_le_0_iff_le leD not_le)
  then show ?case
    using Suc.prems
    by (auto simp: Let_def not_le bindS_def askB_def failB_def throwS_def skipS_def retS_def split: poll_answer.splits if_splits dest!: Suc.IH)
qed

lemma then_wait_uncut:
  assumes "\<And>k. K \<le> k \<Longrightarrow> deadline \<le> bw_clock W k" "0 < m" "K < m"
    and "\<And>u'. io_ev u < K \<Longrightarrow> io_ev u < io_ev u' \<Longrightarrow> uncut g u'"
  shows "uncut (thenS (wait_io W out deadline what m) g) u"
proof -
  obtain u' r where w: "wait_io W out deadline what m u = (u', r)" by fastforce
  have "uncut (wait_io W out deadline what m) u" using wait_io_uncut [OF assms(1,2)] assms(3) by simp
  then show ?thesis using w wait_io_early [OF assms(1), where s = u and s' = u'] assms(4) by (cases r) (auto simp: uncut_def thenS_def bindS_def)
qed

lemma write_all_uncut:
  assumes "\<And>k. K \<le> k \<Longrightarrow> deadline \<le> bw_clock W k" "K < m"
  shows "length d < n \<Longrightarrow> length d + K < n + io_ev s \<Longrightarrow> uncut (write_all_until W deadline what m n d) s"
proof (induction n arbitrary: d s)
  case (Suc n)
  have p: "uncut (bindS (putB W d) g) s = uncut (g (bw_write W (io_ev s) (length d)))
      (s\<lparr>io_ev := Suc (io_ev s), io_sent := io_sent s @ (case bw_write W (io_ev s) (length d) of PutSome k \<Rightarrow> take k d | _ \<Rightarrow> [])\<rparr>)" for g :: "io_put \<Rightarrow> unit blocking"
    by (simp add: uncut_def putB_def bindS_def Let_def)
  have "uncut (write_all_until W deadline what m n (drop k d)) u" if "0 < k" "d \<noteq> []" "io_ev u = Suc (io_ev s)" for k u
    by (rule Suc.IH) (use Suc.prems that in \<open>cases d; auto\<close>)+
  moreover have "uncut (thenS (wait_io W out deadline what m) (write_all_until W deadline what m n d)) u" if "io_ev u = Suc (io_ev s)" for out u
    by (rule then_wait_uncut [OF assms(1)]) (use assms(2) Suc.prems that in \<open>auto intro!: Suc.IH\<close>)
  ultimately show ?case by (auto simp: p split: io_put.splits)
qed simp

lemma read_headers_uncut:
  assumes "\<And>k. K \<le> k \<Longrightarrow> deadline \<le> bw_clock W k" "K < m"
  shows "32769 - length s < n \<Longrightarrow> 32769 - length s + K < n + io_ev u \<Longrightarrow> uncut (read_headers_loop W deadline m n s) u"
proof (induction n arbitrary: s u)
  case (Suc n)
  define r where "r = (case bw_read W (io_ev u) of Gave b \<Rightarrow> Gave (take 2048 b) | r \<Rightarrow> r)"
  have p: "uncut (bindS (getB W) g) u = uncut (g r)
      (u\<lparr>io_ev := Suc (io_ev u), io_got := io_got u @ (case r of Gave b \<Rightarrow> b | _ \<Rightarrow> [])\<rparr>)" for g :: "io_get \<Rightarrow> (string \<times> string) blocking"
    by (simp add: uncut_def getB_def bindS_def Let_def r_def)
  have "uncut (read_headers_loop W deadline m n (s @ b)) v" if "b \<noteq> []" "length s \<le> 32768" "io_ev v = Suc (io_ev u)" for b v
    by (rule Suc.IH) (use Suc.prems that in \<open>cases b; auto\<close>)+
  moreover have "uncut (thenS (wait_io W out deadline ''upgrade'' m) (read_headers_loop W deadline m n s)) v" if "io_ev v = Suc (io_ev u)" for out v
    by (rule then_wait_uncut [OF assms(1)]) (use assms(2) Suc.prems that in \<open>auto intro!: Suc.IH\<close>)
  ultimately show ?case by (auto simp: p split: io_get.splits option.splits)
qed simp

lemma blocking_io_ends:
  assumes "io_time_passes W"
  shows "\<exists>N. \<forall>n \<ge> N. uncut (read_headers W timeout n w) s \<and> uncut (write_all_until W deadline what n n d) s \<and>
    uncut (websocket_http_fallback W n w) s \<and> uncut (best_effort_close_frame W n mk w) s"
proof -
  let ?after = "\<lambda>t. SOME K. t \<le> bw_clock W K"
  have after: "t \<le> bw_clock W k" if "?after t \<le> k" for t k
    using assms that someI_ex [of "\<lambda>K. t \<le> bw_clock W K"] by (auto simp: io_time_passes_def dest: monoD intro: order_trans)
  define t where "t = bw_clock W (io_ev s)"
  define f where "f = (case make_frame (ws_client w) 8 [] mk of Inl _ \<Rightarrow> [] | Inr f \<Rightarrow> f)"
  define c where "c = min (max 100 (io_timeout_ms w)) 1000 * 1000000"
  define N where "N = 40000 + length d + length f + length (str http_fallback_response) +
    ?after (t + max 100 timeout * 1000000) + ?after deadline + ?after (t + 1000 * 1000000) + ?after (t + c)"
  have "uncut (read_headers W timeout n w) s \<and> uncut (write_all_until W deadline what n n d) s \<and>
    uncut (websocket_http_fallback W n w) s \<and> uncut (best_effort_close_frame W n mk w) s" if n: "N \<le> n" for n
  proof (intro conjI)
    let ?u = "s\<lparr>io_ev := Suc (io_ev s)\<rparr>"
    have r: "uncut (read_headers_loop W (t + max 100 timeout * 1000000) n n []) ?u"
      by (rule read_headers_uncut [OF after]) (use n in \<open>auto simp: N_def\<close>)
    then show "uncut (read_headers W timeout n w) s"
      by (cases "read_headers_loop W (t + max 100 timeout * 1000000) n n [] ?u"; cases "snd (read_headers_loop W (t + max 100 timeout * 1000000) n n [] ?u)")
        (auto simp: read_headers_def t_def uncut_def bindS_def askB_def retS_def split: prod.splits)
    show "uncut (write_all_until W deadline what n n d) s"
      by (rule write_all_uncut [OF after]) (use n in \<open>auto simp: N_def\<close>)
    have b: "uncut (write_all_until W (t + 1000 * 1000000) ''fallback'' n n (str http_fallback_response)) ?u"
      by (rule write_all_uncut [OF after]) (use n in \<open>auto simp: N_def\<close>)
    then show "uncut (websocket_http_fallback W n w) s" by (simp add: websocket_http_fallback_def t_def)
    have e: "uncut (write_all_until W (t + c) ''close'' n n f) ?u"
      by (rule write_all_uncut [OF after]) (use n in \<open>auto simp: N_def\<close>)
    obtain v r where v: "write_all_until W (t + c) ''close'' n n f ?u = (v, r)" by fastforce
    show "uncut (best_effort_close_frame W n mk w) s"
      using e v unfolding best_effort_close_frame_def f_def c_def t_def
      by (cases r) (auto simp: uncut_def bindS_def thenS_def catchS_def askB_def retS_def skipS_def split: sum.splits)
  qed
  then show ?thesis by blast
qed

section \<open>Headers end where they end\<close>

definition io_quiet :: "io_state \<Rightarrow> io_state \<Rightarrow> bool" where
  "io_quiet s s' \<longleftrightarrow> io_got s' = io_got s \<and> io_sent s' = io_sent s"

interpretation io_quiet: preserved io_quiet
  by unfold_locales (auto simp: io_quiet_def)

lemma quiet_basic [intro]:
  "keeps io_quiet (askB f)" "keeps io_quiet (failB m)" "keeps io_quiet (throwS x)" "keeps io_quiet skipS"
  by (simp_all add: keeps_def io_quiet_def askB_def failB_def throwS_def retS_def skipS_def)

lemma quiet_wait: "keeps io_quiet (wait_io W out deadline what n)"
  by (induction n) (auto intro!: io_quiet.keeps_bindS quiet_basic simp: Let_def split: poll_answer.splits)

lemma find_sub_first:
  "take (length n) (drop p s) = n \<Longrightarrow> p \<le> length s \<Longrightarrow> \<forall>q < p. take (length n) (drop q s) \<noteq> n \<Longrightarrow> find_sub n s = Some p"
proof (induction p arbitrary: s)
  case 0
  then show ?case by (subst find_sub.simps) simp
next
  case (Suc p)
  obtain a r where s: "s = a # r" using Suc.prems(2) by (cases s) auto
  have "find_sub n r = Some p"
    by (rule Suc.IH) (use Suc.prems s in \<open>auto dest: spec [of _ "Suc _"]\<close>)
  moreover have "take (length n) (a # r) \<noteq> n" using Suc.prems(3) s by (auto dest: spec [of _ 0])
  ultimately show ?case unfolding s by (subst find_sub.simps) simp
qed

lemma whole_headers:
  assumes "find_sub header_end s = Some e"
  shows "whole (take (e + 4) s)"
proof -
  have l: "length header_end = 4" by (simp add: header_end_def crlf_def)
  have f: "take 4 (drop e s) = header_end" "\<forall>q < e. take 4 (drop q s) \<noteq> header_end" using find_sub_Some [OF assms] l by auto
  have n: "e + 4 \<le> length s" using f(1) l by (metis add.commute le_diff_conv2 length_drop length_take min.cobounded1 nat_le_linear diff_is_0_eq' le_zero_eq zero_neq_numeral)
  have w: "take 4 (drop q (take (e + 4) s)) = take 4 (drop q s)" if "q \<le> e" for q using that by (simp add: drop_take)
  have "find_sub header_end (take (e + 4) s) = Some e"
  proof (rule find_sub_first)
    show "take (length header_end) (drop e (take (e + 4) s)) = header_end" by (metis w f(1) l order_refl)
    show "\<forall>q < e. take (length header_end) (drop q (take (e + 4) s)) \<noteq> header_end" by (metis w f(2) l less_imp_le)
  qed (use n in simp)
  then show ?thesis using n by (simp add: whole_def)
qed

lemma whole_unique: "whole h \<Longrightarrow> whole m \<Longrightarrow> h @ x = m @ y \<Longrightarrow> h = m"
proof -
  have "b = []" if "whole a" "whole (a @ b)" for a b
    using whole_prefix [OF that(2)] that(1) by (auto simp: whole_def)
  then show "whole h \<Longrightarrow> whole m \<Longrightarrow> h @ x = m @ y \<Longrightarrow> h = m" by (auto simp: append_eq_append_conv2)
qed

lemma headers_loop_exact:
  "read_headers_loop W deadline m n s u = (u', Inr (h, rest)) \<Longrightarrow>
    \<exists>b. io_got u' = io_got u @ b \<and> s @ b = h @ rest \<and> whole h \<and> length (s @ b) \<le> max (length s) 34816"
proof (induction n arbitrary: s u)
  case 0
  then show ?case by (simp add: throwS_def retS_def)
next
  case (Suc n)
  show ?case
  proof (cases "find_sub header_end s")
    case (Some e)
    then show ?thesis using Suc.prems whole_headers [OF Some] by (auto simp: retS_def)
  next
    case None
    with Suc.prems have l: "length s \<le> 32768" by (auto simp: failB_def throwS_def retS_def split: if_splits)
    obtain v r where g: "getB W u = (v, Inr r)" by (simp add: getB_def Let_def)
    from g have v: "io_got v = io_got u @ (case r of Gave b \<Rightarrow> b | _ \<Rightarrow> [])" "\<And>b. r = Gave b \<Longrightarrow> length b \<le> 2048"
      by (auto simp: getB_def Let_def split: io_get.splits)
    show ?thesis
    proof (cases r)
      case (Gave b)
      with Suc.prems None l g have "read_headers_loop W deadline m n (s @ b) v = (u', Inr (h, rest))"
        by (auto simp: bindS_def failB_def throwS_def retS_def split: if_splits)
      from Suc.IH [OF this] obtain c where "io_got u' = io_got v @ c" "(s @ b) @ c = h @ rest" "whole h"
        "length ((s @ b) @ c) \<le> max (length (s @ b)) 34816" by blast
      then show ?thesis using v Gave l by (intro exI [of _ "b @ c"]) auto
    next
      case (GaveNothing out)
      with Suc.prems None l g obtain x where x: "wait_io W out deadline ''upgrade'' m v = (x, Inr ())"
        "read_headers_loop W deadline m n s x = (u', Inr (h, rest))"
        by (auto simp: bindS_def thenS_def split: prod.splits sum.splits)
      have "io_got x = io_got v" using quiet_wait x(1) unfolding keeps_def io_quiet_def by (metis fst_conv)
      then show ?thesis using Suc.IH [OF x(2)] v(1) GaveNothing by auto
    next
      case ReadBroken
      with Suc.prems None l g show ?thesis by (simp add: bindS_def failB_def throwS_def retS_def)
    qed
  qed
qed

text \<open>
  C21: the headers of a message end where they end. Whatever the chunks and the waits, when \<open>read_headers\<close> returns, the bytes received are the
  headers, which end with the first empty line, followed by what is kept for the frames: nothing is lost, repeated or taken from the
  first frame. So if the peer wrote a message \<open>m\<close> and went on with frames, the headers are \<open>m\<close>. Their length is bounded.
\<close>

theorem headers_end_exactly:
  assumes "read_headers W timeout n w s = (s', Inr (h, w'))"
  shows "\<exists>rest. io_got s' = io_got s @ h @ rest \<and> w' = w\<lparr>ws_rx := ws_rx w @ str rest\<rparr> \<and> whole h \<and> length h \<le> 34816 \<and>
    (\<forall>m y. whole m \<and> io_got s' = io_got s @ m @ y \<longrightarrow> h = m)"
proof -
  let ?u = "s\<lparr>io_ev := Suc (io_ev s)\<rparr>" and ?d = "bw_clock W (io_ev s) + max 100 timeout * 1000000"
  obtain rest where r: "read_headers_loop W ?d n n [] ?u = (s', Inr (h, rest))" "w' = w\<lparr>ws_rx := ws_rx w @ str rest\<rparr>"
    using assms by (auto simp: read_headers_def bindS_def askB_def retS_def split: prod.splits sum.splits)
  from headers_loop_exact [OF r(1)] have "io_got s' = io_got s @ h @ rest" "whole h" "length h \<le> 34816" by auto
  moreover have "h = m" if "whole m" "io_got s' = io_got s @ m @ y" for m y
    using whole_unique [OF calculation(2) that(1)] that(2) calculation(1) by simp
  ultimately show ?thesis using r(2) by blast
qed

definition demo_io :: io_world where
  "demo_io = \<lparr>bw_clock = (\<lambda>k. int k * 1000000), bw_poll = (\<lambda>_ _ _. PollEvents False True False),
     bw_read = (\<lambda>k. if k = 1 then Gave (''GET'' @ crlf @ [cr]) else if k = 2 then GaveNothing False else Gave (CHR 0x0A # ''xyz'')),
     bw_write = (\<lambda>_ k. PutSome k)\<rparr>"

theorem headers_end_exactly_witness:
  "\<exists>s'. read_headers demo_io 100 4 (new_session False) \<lparr>io_ev = 0, io_got = [], io_sent = []\<rparr> =
       (s', Inr (''GET'' @ crlf @ crlf, (new_session False)\<lparr>ws_rx := str ''xyz''\<rparr>)) \<and>
     whole (''GET'' @ crlf @ crlf) \<and> io_got s' = ''GET'' @ crlf @ crlf @ ''xyz''"
proof -
  have f: "find_sub header_end [] = None" "find_sub header_end (''GET'' @ crlf @ [cr]) = None"
    "find_sub header_end (''GET'' @ crlf @ [cr] @ CHR 0x0A # ''xyz'') = Some 3" by code_simp+
  have clock: "bw_clock demo_io k = int k * 1000000" for k by (simp add: demo_io_def)
  have four: "4 = Suc (Suc (Suc (Suc 0)))" by simp
  let ?s = "\<lambda>k b. \<lparr>io_ev = k, io_got = b, io_sent = []\<rparr>" and ?a = "''GET'' @ crlf @ [cr]" and ?b = "CHR 0x0A # ''xyz''"
  have a: "getB demo_io (?s 1 []) = (?s 2 ?a, Inr (Gave ?a))" "getB demo_io (?s 2 ?a) = (?s 3 ?a, Inr (GaveNothing False))"
    "getB demo_io (?s 5 ?a) = (?s 6 (?a @ ?b), Inr (Gave ?b))"
    by (simp_all add: getB_def demo_io_def Let_def crlf_def)
  have w: "wait_io demo_io False 100000000 ''upgrade'' (Suc (Suc (Suc (Suc 0)))) (?s 3 ?a) = (?s 5 ?a, Inr ())"
    by (simp add: bindS_def askB_def demo_io_def milliseconds_def signed_divide_int_def skipS_def retS_def)
  have l: "read_headers_loop demo_io 100000000 (Suc (Suc (Suc (Suc 0)))) (Suc (Suc (Suc (Suc 0)))) [] (?s 1 []) =
      (?s 6 (?a @ ?b), Inr (''GET'' @ crlf @ crlf, ''xyz''))"
    using f a w by (simp add: bindS_def thenS_def retS_def crlf_alt cr_def)
  have g: "\<exists>s'. read_headers demo_io 100 4 (new_session False) \<lparr>io_ev = 0, io_got = [], io_sent = []\<rparr> =
       (s', Inr (''GET'' @ crlf @ crlf, (new_session False)\<lparr>ws_rx := str ''xyz''\<rparr>)) \<and> io_got s' = ''GET'' @ crlf @ crlf @ ''xyz''"
    unfolding four read_headers_def
    using l by (simp add: bindS_def askB_def retS_def clock new_session_def crlf_alt cr_def del: read_headers_loop.simps)
  then show ?thesis using headers_end_exactly by blast
qed

end
