(* ===== verification/DialTrace.thy ===== *)
theory DialTrace
  imports DialProps
begin

text \<open>
  What the world must have answered for a step of dialling to succeed: the moments of a run at which the socket was made and connected, the TLS
  handshake completed, and the uTLS side car reported itself ready. A moment is a value of the counter of the world.
\<close>

section \<open>Code that succeeds\<close>

text \<open>Code that starts at the moment \<open>i\<close> and returns \<open>x\<close> at the moment \<open>k\<close> attains \<open>P k x\<close>; \<open>ev\<close> reads the moment off the state.\<close>

definition attains :: "('s \<Rightarrow> nat) \<Rightarrow> nat \<Rightarrow> ('s, 'e, 'a) se \<Rightarrow> (nat \<Rightarrow> 'a \<Rightarrow> bool) \<Rightarrow> bool" where
  "attains ev i m P \<longleftrightarrow> (\<forall>s s' x. ev s = i \<longrightarrow> m s = (s', Inr x) \<longrightarrow> i \<le> ev s' \<and> P (ev s') x)"

lemma attainsI: "(\<And>s s' x. ev s = i \<Longrightarrow> m s = (s', Inr x) \<Longrightarrow> i \<le> ev s' \<and> P (ev s') x) \<Longrightarrow> attains ev i m P"
  by (simp add: attains_def)

lemma attainsD: "attains ev i m P \<Longrightarrow> ev s = i \<Longrightarrow> m s = (s', Inr x) \<Longrightarrow> i \<le> ev s' \<and> P (ev s') x"
  by (simp add: attains_def)

lemma attains_weaken:
  assumes "attains ev i m P" "\<And>k x. i \<le> k \<Longrightarrow> P k x \<Longrightarrow> Q k x"
  shows "attains ev i m Q"
  using assms unfolding attains_def by blast

lemma attains_bindS:
  assumes "attains ev i m P" "\<And>j x. i \<le> j \<Longrightarrow> P j x \<Longrightarrow> attains ev j (f x) Q"
  shows "attains ev i (bindS m f) Q"
proof (rule attainsI)
  fix s s' y assume "ev s = i" "bindS m f s = (s', Inr y)"
  then obtain t x where m: "m s = (t, Inr x)" "f x t = (s', Inr y)" by (auto simp: bindS_Inr)
  have t: "i \<le> ev t" "P (ev t) x" using attainsD [OF assms(1) \<open>ev s = i\<close> m(1)] by blast+
  from attainsD [OF assms(2) [OF t] refl m(2)] show "i \<le> ev s' \<and> Q (ev s') y" using t(1) by simp
qed

lemma attains_thenS: "attains ev i m P \<Longrightarrow> (\<And>j x. i \<le> j \<Longrightarrow> P j x \<Longrightarrow> attains ev j k Q) \<Longrightarrow> attains ev i (thenS m k) Q"
  unfolding thenS_def by (rule attains_bindS)

lemma attains_retS: "(\<And>x. r = Inr x \<Longrightarrow> P i x) \<Longrightarrow> attains ev i (retS r) P"
  by (auto simp: attains_def retS_def)

lemma attains_ret: "attains ev i (f x) P \<Longrightarrow> attains ev i (bindS (retS (Inr x)) f) P"
  by (simp add: attains_def bindS_retS)

lemma attains_skipS: "P i () \<Longrightarrow> attains ev i skipS P"
  by (simp add: skipS_def attains_retS)

lemma attains_throwS: "attains ev i (throwS e) P"
  unfolding throwS_def by (rule attains_retS) simp

lemma attains_withS: "(\<And>q. attains ev i (f q) P) \<Longrightarrow> attains ev i (withS f) P"
  by (simp add: attains_def withS_def)

lemma attains_whenS: "(b \<Longrightarrow> attains ev i m P) \<Longrightarrow> (\<not> b \<Longrightarrow> P i ()) \<Longrightarrow> attains ev i (whenS b m) P"
  by (simp add: whenS_def attains_skipS)

lemma attains_modS: "(\<And>s. ev (f s) = ev s) \<Longrightarrow> P i () \<Longrightarrow> attains ev i (modS f) P"
  by (auto simp: attains_def modS_def)

text \<open>A handler that never returns does not matter to what is attained.\<close>

lemma attains_catchS:
  assumes "attains ev i m P" "\<And>e j. attains ev j (h e) (\<lambda>k x. False)"
  shows "attains ev i (catchS m h) P"
  using assms unfolding attains_def catchS_def by (fastforce split: prod.splits sum.splits)

lemma attains_seqS_Cons: "attains ev i (thenS m (seqS ms)) P \<Longrightarrow> attains ev i (seqS (m # ms)) P"
  by simp

section \<open>Steps of dialling\<close>

lemma attains_ask: "attains dl_ev (Suc i) (f (a i)) P \<Longrightarrow> attains dl_ev i (bindS (askD a) f) P"
  by (rule attains_bindS [where P = "\<lambda>j x. j = Suc i \<and> x = a i"]) (auto simp: attains_def askD_def)

lemma attains_now: "(\<And>t. attains dl_ev (Suc i) (f t) P) \<Longrightarrow> attains dl_ev i (bindS (nowD W) f) P"
  unfolding nowD_def by (rule attains_ask)

lemma attains_stop: "(\<And>b. attains dl_ev (Suc i) (f b) P) \<Longrightarrow> attains dl_ev i (bindS (stopD W) f) P"
  by (rule attains_bindS [where P = "\<lambda>j x. j = Suc i"]) (auto simp: attains_def stopD_def Let_def)

lemma attains_poll: "(\<And>p. attains dl_ev (Suc i) (f p) P) \<Longrightarrow> attains dl_ev i (bindS (pollD W t) f) P"
  by (rule attains_bindS [where P = "\<lambda>j x. j = Suc i"]) (auto simp: attains_def pollD_def)

lemma attains_still:
  assumes "attains dl_ev i k P"
  shows "(\<And>s. dl_ev (v s) = dl_ev s) \<Longrightarrow> attains dl_ev i (thenS (modS v) k) P"
    "attains dl_ev i (thenS (errorD e) k) P" "attains dl_ev i (thenS (closeD fd) k) P"
proof -
  show v: "(\<And>s. dl_ev (v s) = dl_ev s) \<Longrightarrow> attains dl_ev i (thenS (modS v) k) P" for v
    using assms by (intro attains_thenS [OF attains_modS [where P = "\<lambda>j x. j = i"]]) simp_all
  show "attains dl_ev i (thenS (errorD e) k) P" "attains dl_ev i (thenS (closeD fd) k) P"
    unfolding errorD_def closeD_def by (rule v; simp)+
qed

lemma attains_failD: "attains dl_ev i (failD m) P"
  by (simp add: failD_def attains_throwS)

lemmas attains_rules = attains_ask attains_now attains_stop attains_poll attains_still attains_failD attains_throwS

section \<open>The socket\<close>

text \<open>The socket \<open>fd\<close> was made and connected between two moments, at once or after waiting, when it has no error.\<close>

definition socket_connected :: "dial_world \<Rightarrow> int \<Rightarrow> nat \<Rightarrow> nat \<Rightarrow> bool" where
  "socket_connected W fd i k \<longleftrightarrow> (\<exists>a c. i \<le> a \<and> a < c \<and> c < k \<and> dw_socket W a = Inr fd \<and>
     (dw_connect W c = None \<or> dw_connect W c = Some EINPROGRESS \<and> (\<exists>e. c < e \<and> e < k \<and> dw_sockopt W e = Inr 0)))"

lemma socket_connected_mono: "socket_connected W fd i k \<Longrightarrow> j \<le> i \<Longrightarrow> socket_connected W fd j k"
  unfolding socket_connected_def by (meson order_trans)

lemma wait_connected_attains:
  "attains dl_ev i (wait_connected W deadline n) (\<lambda>k b. b \<longrightarrow> (\<exists>e. i \<le> e \<and> e < k \<and> dw_sockopt W e = Inr 0))"
proof (induction n arbitrary: i)
  case 0
  then show ?case by (simp add: attains_throwS)
next
  case (Suc n)
  have loop: "attains dl_ev j (wait_connected W deadline n) (\<lambda>k b. b \<longrightarrow> (\<exists>e. i \<le> e \<and> e < k \<and> dw_sockopt W e = Inr 0))" if "i \<le> j" for j
    by (rule attains_weaken [OF Suc.IH]) (use that order_trans in blast)
  have ok: "dw_sockopt W j = Inr 0 \<Longrightarrow> i \<le> j \<Longrightarrow> \<exists>e. i \<le> e \<and> e < Suc j \<and> dw_sockopt W e = Inr 0" for j by blast
  show ?case
    unfolding wait_connected.simps Let_def
    by (auto intro!: attains_rules attains_retS loop ok split: poll_answer.splits sum.splits)
qed

lemma try_candidate_attains: "attains dl_ev i (try_candidate W deadline n) (\<lambda>k r. \<forall>fd. r = Some fd \<longrightarrow> socket_connected W fd i k)"
proof -
  have now: "dw_socket W i = Inr fd \<Longrightarrow> dw_connect W (Suc (Suc i)) = None \<Longrightarrow> socket_connected W fd i (Suc (Suc (Suc i)))" for fd
    unfolding socket_connected_def by (intro exI [of _ i] exI [of _ "Suc (Suc i)"]) simp
  have later: "attains dl_ev (Suc (Suc (Suc i))) (bindS (wait_connected W deadline n) (\<lambda>connected. if connected then retS (Inr (Some fd))
      else thenS (closeD fd) (retS (Inr None)))) (\<lambda>k r. \<forall>fd. r = Some fd \<longrightarrow> socket_connected W fd i k)"
    if s: "dw_socket W i = Inr fd" "dw_connect W (Suc (Suc i)) = Some EINPROGRESS" for fd
  proof (rule attains_bindS [OF wait_connected_attains])
    fix j b assume b: "b \<longrightarrow> (\<exists>e \<ge> Suc (Suc (Suc i)). e < j \<and> dw_sockopt W e = Inr 0)"
    have "socket_connected W fd i j" if t: b
    proof -
      obtain e where "Suc (Suc (Suc i)) \<le> e" "e < j" "dw_sockopt W e = Inr 0" using b t by blast
      then have "Suc (Suc i) < e \<and> e < j \<and> dw_sockopt W e = Inr 0" by simp
      then show ?thesis using s unfolding socket_connected_def by (intro exI [of _ i] exI [of _ "Suc (Suc i)"]) (simp, fastforce)
    qed
    then show "attains dl_ev j (if b then retS (Inr (Some fd)) else thenS (closeD fd) (retS (Inr None)))
        (\<lambda>k r. \<forall>fd. r = Some fd \<longrightarrow> socket_connected W fd i k)"
      by (auto intro!: attains_rules attains_retS)
  qed
  show ?thesis
    unfolding try_candidate_def
    by (auto intro!: attains_rules attains_retS now later split: sum.splits option.splits)
qed

lemma connect_loop_attains:
  "attains dl_ev i (connect_loop W cfg candidates dial attempts overall n is) (\<lambda>k r. \<forall>fd. r = Some fd \<longrightarrow> socket_connected W fd i k)"
proof (induction "is" arbitrary: i)
  case Nil
  then show ?case by (auto intro!: attains_retS)
next
  case (Cons a "is")
  let ?P = "\<lambda>k r. \<forall>fd. r = Some fd \<longrightarrow> socket_connected W fd i k"
  have "attains dl_ev j (bindS (try_candidate W d n) (\<lambda>r. case r of Some fd \<Rightarrow> retS (Inr (Some fd))
      | None \<Rightarrow> connect_loop W cfg candidates dial attempts overall n is)) ?P" if "i \<le> j" for j d
  proof (rule attains_bindS [OF try_candidate_attains])
    fix l r assume "j \<le> l" "\<forall>fd. r = Some fd \<longrightarrow> socket_connected W fd j l"
    then show "attains dl_ev l (case r of Some fd \<Rightarrow> retS (Inr (Some fd)) | None \<Rightarrow> connect_loop W cfg candidates dial attempts overall n is) ?P"
      using that socket_connected_mono attains_weaken [OF Cons.IH, of l ?P] by (cases r) (auto intro!: attains_retS, meson order_trans)
  qed
  then show ?case unfolding connect_loop.simps Let_def by (auto intro!: attains_rules attains_retS split: sum.splits)
qed

lemma connect_tcp_attains: "attains dl_ev i (connect_tcp W cfg hp n) (\<lambda>k fd. socket_connected W fd i k)"
proof -
  have loop: "attains dl_ev j (bindS (connect_loop W cfg c d a overall n is) (\<lambda>r. case r of Some fd \<Rightarrow> retS (Inr fd)
      | None \<Rightarrow> bindS (stopD W) (\<lambda>stop. if stop then failD m1 else withS (\<lambda>s. failD (m2 s))))) (\<lambda>k fd. socket_connected W fd i k)"
    if "i \<le> j" for j c d a overall "is" m1 m2
  proof (rule attains_bindS [OF connect_loop_attains])
    fix l r assume "\<forall>fd. r = Some fd \<longrightarrow> socket_connected W fd j l"
    then show "attains dl_ev l (case r of Some fd \<Rightarrow> retS (Inr fd)
      | None \<Rightarrow> bindS (stopD W) (\<lambda>stop. if stop then failD m1 else withS (\<lambda>s. failD (m2 s)))) (\<lambda>k fd. socket_connected W fd i k)"
      using that socket_connected_mono by (cases r) (auto intro!: attains_rules attains_retS attains_withS)
  qed
  show ?thesis
    unfolding connect_tcp_def Let_def by (auto intro!: attains_rules attains_ret loop split: sum.splits)
qed

section \<open>TLS\<close>

lemma wait_for_ssl_io_attains: "attains dl_ev i (wait_for_ssl_io W t n) (\<lambda>k x. True)"
  by (induction n arbitrary: i t) (auto intro!: attains_rules attains_skipS simp: Let_def split: poll_answer.splits)

lemma ssl_handshake_attains:
  "attains dl_ev i (ssl_handshake W accepting timeout m n) (\<lambda>k x. \<exists>d. i \<le> d \<and> d < k \<and> dw_ssl W d = SslDone)"
proof -
  have loop: "attains dl_ev j (ssl_handshake_loop W accepting deadline m n) (\<lambda>k x. \<exists>d. i \<le> d \<and> d < k \<and> dw_ssl W d = SslDone)"
    if "i \<le> j" for j deadline accepting
    using that
  proof (induction n arbitrary: j accepting)
    case 0
    then show ?case by (simp add: attains_throwS)
  next
    case (Suc n)
    have fin: "dw_ssl W l = SslDone \<Longrightarrow> i \<le> l \<Longrightarrow> \<exists>d. i \<le> d \<and> d < Suc l \<and> dw_ssl W d = SslDone" for l by blast
    have later: "attains dl_ev l (ssl_handshake_loop W accepting deadline m n) (\<lambda>k x. \<exists>d. i \<le> d \<and> d < k \<and> dw_ssl W d = SslDone)"
      if "Suc (Suc (Suc j)) \<le> l" for l accepting using that Suc.prems by (intro Suc.IH) simp
    show ?case
      unfolding ssl_handshake_loop.simps Let_def
      by (auto intro!: attains_rules attains_skipS attains_thenS [OF wait_for_ssl_io_attains] later fin
          simp: Suc.prems le_SucI split: ssl_answer.splits)
  qed
  show ?thesis unfolding ssl_handshake_def by (auto intro!: attains_rules loop split: option.splits)
qed

section \<open>The side car\<close>

text \<open>What is read at the moment \<open>k\<close> behind the bytes so far, and the readiness of the side car: the pieces read at some moments are the marker.\<close>

definition gather :: "dial_world \<Rightarrow> string \<Rightarrow> nat \<Rightarrow> string" where
  "gather W so_far k = so_far @ (case dw_recv W k (8 - length so_far) of Received b \<Rightarrow> take (8 - length so_far) b | _ \<Rightarrow> [])"

definition side_car_ready :: "dial_world \<Rightarrow> nat \<Rightarrow> nat \<Rightarrow> bool" where
  "side_car_ready W i k \<longleftrightarrow> (\<exists>ks. sorted_wrt (<) ks \<and> set ks \<subseteq> {i..<k} \<and> foldl (gather W) [] ks = utls_marker)"

lemma utls_loop_attains:
  "attains dl_ev i (utls_loop W deadline received n) (\<lambda>k x. \<exists>ks. sorted_wrt (<) ks \<and> set ks \<subseteq> {i..<k} \<and> foldl (gather W) received ks = x)"
proof (induction n arbitrary: i received)
  case 0
  then show ?case by (simp add: attains_throwS)
next
  case (Suc n)
  let ?P = "\<lambda>k x. \<exists>ks. sorted_wrt (<) ks \<and> set ks \<subseteq> {i..<k} \<and> foldl (gather W) received ks = x"
  have l: "length utls_marker = 8" by (simp add: utls_marker_def)
  have stop: "?P k received" for k by (intro exI [of _ "[]"]) simp
  have again: "attains dl_ev j (utls_loop W deadline received n) ?P" if "i \<le> j" for j
    by (rule attains_weaken [OF Suc.IH]) (use that in fastforce)
  have more: "attains dl_ev (Suc j) (utls_loop W deadline (received @ take (8 - length received) b) n) ?P"
    if "i \<le> j" "dw_recv W j (8 - length received) = Received b" for j b
  proof (rule attains_weaken [OF Suc.IH])
    fix k x assume "Suc j \<le> k"
      and "\<exists>ks. sorted_wrt (<) ks \<and> set ks \<subseteq> {Suc j..<k} \<and> foldl (gather W) (received @ take (8 - length received) b) ks = x"
    then obtain ks where "Suc j \<le> k" "sorted_wrt (<) ks" "set ks \<subseteq> {Suc j..<k}"
      "foldl (gather W) (received @ take (8 - length received) b) ks = x" by blast
    then show "?P k x" using that by (intro exI [of _ "j # ks"]) (auto simp: gather_def)
  qed
  show ?case
    unfolding utls_loop.simps Let_def l
    by (auto intro!: attains_rules attains_retS stop again more split: poll_answer.splits recv_answer.splits)
qed

lemma side_car_attains: "attains dl_ev i (wait_utls_tls_ready W timeout n) (\<lambda>k x. side_car_ready W i k)"
proof -
  have "attains dl_ev (Suc i) (bindS (utls_loop W d [] n) (\<lambda>received. if received \<noteq> utls_marker then failD m else skipS)) (\<lambda>k x. side_car_ready W i k)"
    for d m
  proof (rule attains_bindS [OF utls_loop_attains])
    fix j x assume "\<exists>ks. sorted_wrt (<) ks \<and> set ks \<subseteq> {Suc i..<j} \<and> foldl (gather W) [] ks = x"
    then have "x = utls_marker \<Longrightarrow> side_car_ready W i j" unfolding side_car_ready_def by (fastforce simp: subset_iff)
    then show "attains dl_ev j (if x \<noteq> utls_marker then failD m else skipS) (\<lambda>k x. side_car_ready W i k)"
      by (auto intro!: attains_rules attains_skipS)
  qed
  then show ?thesis unfolding wait_utls_tls_ready_def by (intro attains_rules)
qed

end
