(* ===== verification/WsDial.thy ===== *)
theory WsDial
  imports DialTrace Supervisor
begin

text \<open>
  \<open>dial_websocket\<close> and \<open>connect_utls_adapter\<close> of \<open>src/cdn/src/runtime.cpp\<close>: the way from nothing to an authenticated connection of a
  client, with the phase that is shown to the operator. OpenSSL and the handshake of \<open>websocket.cpp\<close> are answers of a world.
\<close>

section \<open>The uTLS side car\<close>

text \<open>\<open>sun_path\<close> has 108 bytes.\<close>

definition connect_utls_adapter :: "dial_world \<Rightarrow> string \<Rightarrow> int \<Rightarrow> int attempting" where
  "connect_utls_adapter W file timeout_sec =
     bindS (askD (dw_socket W)) (\<lambda>r.
       case r of
         Inl _ \<Rightarrow> failD ''uTLS adapter socket creation failed''
       | Inr fd \<Rightarrow>
           thenS (modS (\<lambda>s. s\<lparr>dl_open := dl_open s @ [fd]\<rparr>))
           (if length file \<ge> 108 then thenS (closeD fd) (failD ''uTLS adapter socket path too long'')
            else let unavailable = thenS (closeD fd) (failD ''uTLS adapter unavailable or connection failed (no TLS fallback)'') in
              bindS (askD (dw_connect W)) (\<lambda>r.
                case r of
                  None \<Rightarrow> retS (Inr fd)
                | Some e \<Rightarrow>
                    if e \<noteq> EINPROGRESS then unavailable
                    else bindS (pollD W (max 1 timeout_sec * 1000)) (\<lambda>p.
                      case p of
                        PollEvents _ _ _ \<Rightarrow>
                          bindS (askD (dw_sockopt W)) (\<lambda>q.
                            case q of Inl _ \<Rightarrow> unavailable | Inr so \<Rightarrow> if so = 0 then retS (Inr fd) else unavailable)
                      | _ \<Rightarrow> unavailable))))"

section \<open>dial_websocket\<close>

record ws_dial_world =
  xw_dial :: dial_world
  xw_ssl_new :: "nat \<Rightarrow> bool"
  xw_ssl_setup :: "nat \<Rightarrow> bool"
  xw_ssl_host :: "nat \<Rightarrow> bool"
  xw_alpn :: "nat \<Rightarrow> string"
  xw_psk :: "nat \<Rightarrow> bytes option"
  xw_upgrade :: "nat \<Rightarrow> string \<Rightarrow> string \<Rightarrow> bytes \<Rightarrow> (string, ws_handshake_result) result"
  xw_what :: "record_error \<Rightarrow> string"

text \<open>The state is that of \<open>Dial\<close> and \<open>g_phase\<close>.\<close>

type_synonym 'a ws_attempt = "(dialer \<times> int, dial_error, 'a) se"

definition onD :: "'a attempting \<Rightarrow> 'a ws_attempt" where
  "onD m s = (case m (fst s) of (d, r) \<Rightarrow> ((d, snd s), r))"

definition phaseD :: "bool \<Rightarrow> int \<Rightarrow> unit ws_attempt" where
  "phaseD background k = modS (\<lambda>(d, p). (d, if background then p else k))"

definition requireD :: "(nat \<Rightarrow> bool) \<Rightarrow> string \<Rightarrow> unit ws_attempt" where
  "requireD f m = bindS (onD (askD f)) (\<lambda>b. if b then skipS else throwS (DialFail m))"

definition carrier_socket :: "ws_dial_world \<Rightarrow> config \<Rightarrow> bool \<Rightarrow> nat \<Rightarrow> int ws_attempt" where
  "carrier_socket X cfg background n =
     (if tls_backend cfg = ''utls''
      then thenS (phaseD background 4) (onD (connect_utls_adapter (xw_dial X) (tls_adapter_socket cfg) (connect_timeout_sec cfg)))
      else onD (connect_tcp (xw_dial X) cfg (server cfg) n))"

definition carrier_tls :: "ws_dial_world \<Rightarrow> config \<Rightarrow> bool \<Rightarrow> nat \<Rightarrow> unit ws_attempt" where
  "carrier_tls X cfg background n =
     seqS
      [phaseD background 4, requireD (xw_ssl_new X) ''SSL_new failed'', requireD (xw_ssl_setup X) ''TLS setup failed'',
       whenS (verify_peer cfg) (requireD (xw_ssl_host X) ''TLS hostname setup failed''),
       onD (ssl_handshake (xw_dial X) False (connect_timeout_sec cfg) n n),
       bindS (onD (askD (xw_alpn X))) (\<lambda>selected. whenS (selected \<noteq> [] \<and> selected \<noteq> ''http/1.1'')
         (throwS (DialFail ''CDN TLS ALPN did not negotiate http/1.1'')))]"

definition carrier_upgrade :: "ws_dial_world \<Rightarrow> config \<Rightarrow> bool \<Rightarrow> ws_handshake_result ws_attempt" where
  "carrier_upgrade X cfg background =
     bindS (onD (askD (xw_psk X))) (\<lambda>content.
     case read_psk content of
       Inl e \<Rightarrow> throwS (DialFail (xw_what X e))
     | Inr psk \<Rightarrow>
         bindS (onD (askD (\<lambda>k. xw_upgrade X k (if host_header cfg = [] then server_name cfg else host_header cfg) (path cfg) psk))) (\<lambda>r.
         case r of
           Inl m \<Rightarrow> throwS (DialFail m)
         | Inr hs \<Rightarrow> (case dial_checks cfg background hs of Some m \<Rightarrow> throwS (DialFail m) | None \<Rightarrow> retS (Inr hs))))"

definition dial_body :: "ws_dial_world \<Rightarrow> config \<Rightarrow> bool \<Rightarrow> nat \<Rightarrow> ws_handshake_result ws_attempt" where
  "dial_body X cfg background n =
     thenS (whenS (tls_backend cfg = ''utls'') (onD (wait_utls_tls_ready (xw_dial X) (connect_timeout_sec cfg) n)))
    (thenS (whenS (websocket_tls cfg \<and> tls_backend cfg = ''openssl'') (carrier_tls X cfg background n))
    (thenS (phaseD background 5) (carrier_upgrade X cfg background)))"

text \<open>The destructor of the connection closes its socket when an exception leaves the function.\<close>

definition dial_websocket :: "ws_dial_world \<Rightarrow> config \<Rightarrow> bool \<Rightarrow> nat \<Rightarrow> (int \<times> ws_handshake_result) ws_attempt" where
  "dial_websocket X cfg background n =
     thenS (phaseD background 3)
      (bindS (carrier_socket X cfg background n) (\<lambda>fd.
         catchS (bindS (dial_body X cfg background n) (\<lambda>hs. retS (Inr (fd, hs)))) (\<lambda>e. thenS (onD (closeD fd)) (throwS e))))"

section \<open>Descriptors and phases\<close>

definition same_open :: "dialer \<Rightarrow> dialer \<Rightarrow> bool" where
  "same_open s s' \<longleftrightarrow> dl_open s' = dl_open s"

interpretation same_open: preserved same_open
  by unfold_locales (auto simp: same_open_def)

lemma same_open_basic [intro]:
  "keeps same_open (stopD W)" "keeps same_open (nowD W)" "keeps same_open (askD f)" "keeps same_open (pollD W t)" "keeps same_open (failD m)"
  "keeps same_open (throwS x)" "keeps same_open skipS"
  by (simp_all add: keeps_def same_open_def stopD_def nowD_def askD_def pollD_def failD_def throwS_def retS_def skipS_def Let_def)

lemmas same_open_rules = same_open.keeps_retS same_open.keeps_bindS same_open.keeps_thenS same_open_basic

lemma same_open_ssl: "keeps same_open (ssl_handshake W accepting timeout m n)"
proof -
  have w: "keeps same_open (wait_for_ssl_io W t n)" for t n
    by (induction n arbitrary: t) (auto intro!: same_open_rules simp: Let_def split: poll_answer.splits)
  have "keeps same_open (ssl_handshake_loop W accepting d m n)" for d n
    by (induction n) (auto intro!: same_open_rules w simp: Let_def split: ssl_answer.splits)
  then show ?thesis unfolding ssl_handshake_def by (auto intro!: same_open_rules split: option.splits)
qed

lemma same_open_utls: "keeps same_open (wait_utls_tls_ready W timeout n)"
proof -
  have "keeps same_open (utls_loop W d b n)" for d b n
    by (induction n arbitrary: b) (auto intro!: same_open_rules simp: Let_def split: poll_answer.splits recv_answer.splits)
  then show ?thesis unfolding wait_utls_tls_ready_def by (auto intro!: same_open_rules)
qed

text \<open>\<open>fds\<close> are open, and the phase is one of \<open>ks\<close> in the foreground, unchanged in the background.\<close>

definition dial_at :: "bool \<Rightarrow> int \<Rightarrow> int list \<Rightarrow> int set \<Rightarrow> dialer \<times> int \<Rightarrow> bool" where
  "dial_at background ph fds ks s \<longleftrightarrow> dl_open (fst s) = fds \<and> (if background then snd s = ph else snd s \<in> ks)"

lemma dial_at_mono: "dial_at b ph fds ks s \<Longrightarrow> ks \<subseteq> ls \<Longrightarrow> dial_at b ph fds ls s"
  by (auto simp: dial_at_def)

lemma at_onD: "keeps same_open m \<Longrightarrow> runs (dial_at b ph fds ks) (onD m) (\<lambda>r. dial_at b ph fds ks)"
  by (auto simp: runs_def keeps_def same_open_def onD_def dial_at_def split: prod.splits) (metis fst_conv)+

lemma at_phaseD: "k \<in> ls \<Longrightarrow> runs (dial_at b ph fds ks) (phaseD b k) (\<lambda>r. dial_at b ph fds ls)"
  by (auto simp: runs_def phaseD_def modS_def dial_at_def split: prod.splits)

lemma at_fail: "runs (dial_at b ph fds ks) (throwS e) (\<lambda>r. dial_at b ph fds ks)"
  by (auto intro: runs_throwS)

lemma at_requireD: "runs (dial_at b ph fds ks) (requireD f m) (\<lambda>r. dial_at b ph fds ks)"
  unfolding requireD_def
  by (rule runs_bindS [where M = "\<lambda>r. dial_at b ph fds ks"]) (auto intro: at_onD same_open_basic runs_skipS runs_throwS)

lemma utls_socket_open: "runs (dial_at b ph [] ks) (onD (connect_utls_adapter W f t))
    (\<lambda>r s. dial_at b ph (case r of Inr fd \<Rightarrow> [fd] | Inl _ \<Rightarrow> []) ks s)"
  by (auto simp: runs_def onD_def connect_utls_adapter_def dial_at_def bindS_def thenS_def askD_def modS_def closeD_def failD_def throwS_def retS_def
      pollD_def Let_def split: sum.splits option.splits poll_answer.splits prod.splits)

lemma carrier_tls_at: "runs (dial_at b ph fds {3, 4}) (carrier_tls X cfg b n) (\<lambda>r. dial_at b ph fds {3, 4})"
  unfolding carrier_tls_def
  by (rule runs_seqS)
    (auto intro!: at_phaseD at_requireD at_onD same_open_ssl same_open_basic runs_whenS at_fail
      runs_bindS [where M = "\<lambda>r. dial_at b ph fds {3, 4}"])

lemma carrier_upgrade_at: "runs (dial_at b ph fds {5}) (carrier_upgrade X cfg b)
    (\<lambda>r s. dial_at b ph fds {5} s \<and> (\<forall>hs. r = Inr hs \<longrightarrow> dial_checks cfg b hs = None))"
  by (auto simp: runs_def carrier_upgrade_def onD_def dial_at_def bindS_def askD_def throwS_def retS_def Let_def split: sum.splits option.splits prod.splits)

lemma dial_body_at: "runs (dial_at b ph fds {3, 4}) (dial_body X cfg b n)
    (\<lambda>r s. dial_at b ph fds (case r of Inr _ \<Rightarrow> {5} | Inl _ \<Rightarrow> {3, 4, 5}) s \<and> (\<forall>hs. r = Inr hs \<longrightarrow> dial_checks cfg b hs = None))"
  unfolding dial_body_def
proof (rule runs_thenS [where M = "\<lambda>r. dial_at b ph fds {3, 4}"])
  show "runs (dial_at b ph fds {3, 4}) (whenS (tls_backend cfg = ''utls'') (onD (wait_utls_tls_ready (xw_dial X) (connect_timeout_sec cfg) n)))
    (\<lambda>r. dial_at b ph fds {3, 4})"
    by (auto intro!: runs_whenS at_onD same_open_utls)
  have u: "runs (dial_at b ph fds {3, 4}) (thenS (phaseD b 5) (carrier_upgrade X cfg b))
      (\<lambda>r s. dial_at b ph fds {5} s \<and> (\<forall>hs. r = Inr hs \<longrightarrow> dial_checks cfg b hs = None))"
    by (rule runs_thenS [OF at_phaseD carrier_upgrade_at]) auto
  have w: "runs (dial_at b ph fds {3, 4}) (whenS (websocket_tls cfg \<and> tls_backend cfg = ''openssl'') (carrier_tls X cfg b n)) (\<lambda>r. dial_at b ph fds {3, 4})"
    by (auto intro!: runs_whenS carrier_tls_at)
  show "runs (dial_at b ph fds {3, 4}) (thenS (whenS (websocket_tls cfg \<and> tls_backend cfg = ''openssl'') (carrier_tls X cfg b n))
      (thenS (phaseD b 5) (carrier_upgrade X cfg b)))
    (\<lambda>r s. dial_at b ph fds (case r of Inr _ \<Rightarrow> {5} | Inl _ \<Rightarrow> {3, 4, 5}) s \<and> (\<forall>hs. r = Inr hs \<longrightarrow> dial_checks cfg b hs = None))"
    by (rule runs_thenS [OF w runs_post [OF u]]) (auto intro: dial_at_mono split: sum.splits)
qed (auto intro: dial_at_mono)

definition socket_result :: "bool \<Rightarrow> int \<Rightarrow> (dial_error, int) result \<Rightarrow> dialer \<times> int \<Rightarrow> bool" where
  "socket_result b ph r s \<longleftrightarrow>
     (case r of Inr fd \<Rightarrow> dial_at b ph [fd] {3, 4} s | Inl e \<Rightarrow> (e = DialCut \<or> dl_open (fst s) = []) \<and> dial_at b ph (dl_open (fst s)) {3, 4} s)"

lemma carrier_socket_at:
  "runs (\<lambda>s. dial_state [] [] (fst s) \<and> dial_at b ph [] {3} s) (carrier_socket X cfg b n) (socket_result b ph)"
proof (cases "tls_backend cfg = ''utls''")
  case True
  have "runs (dial_at b ph [] {3}) (thenS (phaseD b 4) (onD (connect_utls_adapter (xw_dial X) (tls_adapter_socket cfg) (connect_timeout_sec cfg))))
      (socket_result b ph)"
    by (rule runs_thenS [OF at_phaseD [where ls = "{3, 4}"] runs_post [OF utls_socket_open]])
      (auto simp: socket_result_def dial_at_def split: sum.splits)
  then show ?thesis using True by (auto simp: carrier_socket_def intro: runs_pre)
next
  case False
  show ?thesis
  proof (rule runsI)
    fix s s' r assume i: "dial_state [] [] (fst s) \<and> dial_at b ph [] {3} s" and m: "carrier_socket X cfg b n s = (s', r)"
    obtain d where d: "connect_tcp (xw_dial X) cfg (Config.server cfg) n (fst s) = (d, r)" "s' = (d, snd s)"
      using m False by (auto simp: carrier_socket_def onD_def split: prod.splits)
    have "connect_done cfg r d" using runsD [OF connect_tcp_done _ d(1)] i by simp
    then show "socket_result b ph r s'"
      using i d(2) by (auto simp: socket_result_def connect_done_def dial_at_def split: sum.splits if_splits)
  qed
qed

definition dial_fine :: "config \<Rightarrow> bool \<Rightarrow> int \<Rightarrow> (dial_error, int \<times> ws_handshake_result) result \<Rightarrow> dialer \<times> int \<Rightarrow> bool" where
  "dial_fine cfg b ph r s \<longleftrightarrow>
     (case r of
        Inr (fd, hs) \<Rightarrow> dl_open (fst s) = [fd] \<and> dial_checks cfg b hs = None \<and> snd s = (if b then ph else 5)
      | Inl e \<Rightarrow> (e = DialCut \<or> dl_open (fst s) = []) \<and> (if b then snd s = ph else snd s \<in> {3, 4, 5}))"

lemma dial_websocket_runs: "runs (\<lambda>s. s = (new_dialer, ph)) (dial_websocket X cfg b n) (dial_fine cfg b ph)"
  unfolding dial_websocket_def
proof (rule runs_thenS [where M = "\<lambda>r s. dial_state [] [] (fst s) \<and> dial_at b ph [] {3} s"])
  show "runs (\<lambda>s. s = (new_dialer, ph)) (phaseD b 3) (\<lambda>r s. dial_state [] [] (fst s) \<and> dial_at b ph [] {3} s)"
    by (simp add: runs_def phaseD_def modS_def dial_state_def dial_at_def new_dialer_def)
  have body: "runs (dial_at b ph [fd] {3, 4}) (bindS (dial_body X cfg b n) (\<lambda>hs. retS (Inr (fd, hs))))
      (\<lambda>r s. dial_at b ph [fd] {3, 4, 5} s \<and> (\<forall>x. r = Inr x \<longrightarrow> dial_fine cfg b ph r s))" for fd
    by (rule runs_bindS [OF dial_body_at]) (auto intro!: runs_retS simp: dial_at_def dial_fine_def)
  have caught: "runs (\<lambda>s. dial_at b ph [fd] {3, 4, 5} s \<and> Q s) (thenS (onD (closeD fd)) (throwS e)) (dial_fine cfg b ph)" for fd e Q
    by (auto simp: runs_def thenS_def bindS_def onD_def closeD_def modS_def throwS_def retS_def dial_fine_def dial_at_def split: prod.splits)
  show "runs (\<lambda>s. dial_state [] [] (fst s) \<and> dial_at b ph [] {3} s)
    (bindS (carrier_socket X cfg b n)
      (\<lambda>fd. catchS (bindS (dial_body X cfg b n) (\<lambda>hs. retS (Inr (fd, hs)))) (\<lambda>e. thenS (onD (closeD fd)) (throwS e)))) (dial_fine cfg b ph)"
  proof (rule runs_bindS [OF carrier_socket_at])
    fix fd
    have "runs (socket_result b ph (Inr fd)) (bindS (dial_body X cfg b n) (\<lambda>hs. retS (Inr (fd, hs))))
        (\<lambda>r s. dial_at b ph [fd] {3, 4, 5} s \<and> (\<forall>x. r = Inr x \<longrightarrow> dial_fine cfg b ph r s))"
      by (rule runs_pre [OF body]) (simp add: socket_result_def)
    then show "runs (socket_result b ph (Inr fd))
        (catchS (bindS (dial_body X cfg b n) (\<lambda>hs. retS (Inr (fd, hs)))) (\<lambda>e. thenS (onD (closeD fd)) (throwS e))) (dial_fine cfg b ph)"
      by (rule runs_catchS [OF _ caught]) auto
  qed (auto simp: socket_result_def dial_fine_def dial_at_def)
qed (auto simp: dial_fine_def dial_at_def)

section \<open>What a connection has passed\<close>

text \<open>
  The answers of OpenSSL between two moments, in the order of the checks: a session, its descriptor and server name set up, the name to verify
  when it is to be, the completed handshake, and the protocol that was selected. Then the secret and the handshake of \<open>websocket.cpp\<close>.
\<close>

definition tls_checked :: "ws_dial_world \<Rightarrow> config \<Rightarrow> nat \<Rightarrow> nat \<Rightarrow> bool" where
  "tls_checked X cfg i k \<longleftrightarrow> (\<exists>a b d e. i \<le> a \<and> a < b \<and> b < d \<and> d < e \<and> e < k \<and> xw_ssl_new X a \<and> xw_ssl_setup X b \<and>
     (verify_peer cfg \<longrightarrow> (\<exists>h. b < h \<and> h < d \<and> xw_ssl_host X h)) \<and> dw_ssl (xw_dial X) d = SslDone \<and>
     (xw_alpn X e = [] \<or> xw_alpn X e = ''http/1.1''))"

definition upgrade_agreed :: "ws_dial_world \<Rightarrow> config \<Rightarrow> ws_handshake_result \<Rightarrow> nat \<Rightarrow> nat \<Rightarrow> bool" where
  "upgrade_agreed X cfg hs i k \<longleftrightarrow> (\<exists>a b psk. i \<le> a \<and> a < b \<and> b < k \<and> read_psk (xw_psk X a) = Inr psk \<and>
     xw_upgrade X b (if host_header cfg = [] then server_name cfg else host_header cfg) (path cfg) psk = Inr hs)"

abbreviation ws_ev :: "dialer \<times> int \<Rightarrow> nat" where
  "ws_ev s \<equiv> dl_ev (fst s)"

lemma attains_onD: "attains dl_ev i m P \<Longrightarrow> attains ws_ev i (onD m) P"
  by (fastforce simp: attains_def onD_def split: prod.splits)

lemma attains_phaseD: "attains ws_ev i k P \<Longrightarrow> attains ws_ev i (thenS (phaseD b p) k) P"
  unfolding phaseD_def
  by (rule attains_thenS [OF attains_modS [where P = "\<lambda>j x. j = i"]]) (auto split: prod.splits)

lemma attains_askW: "attains ws_ev (Suc i) (f (a i)) P \<Longrightarrow> attains ws_ev i (bindS (onD (askD a)) f) P"
  by (rule attains_bindS [where P = "\<lambda>j x. j = Suc i \<and> x = a i"]) (auto simp: attains_def onD_def askD_def)

lemma requireD_attains: "attains ws_ev i (requireD f m) (\<lambda>k x. k = Suc i \<and> f i)"
  unfolding requireD_def by (auto intro!: attains_askW attains_skipS attains_throwS)

lemma utls_adapter_attains: "attains dl_ev i (connect_utls_adapter W f t) (\<lambda>k fd. socket_connected W fd i k)"
proof -
  have now: "dw_socket W i = Inr fd \<Longrightarrow> dw_connect W (Suc i) = None \<Longrightarrow> socket_connected W fd i (Suc (Suc i))" for fd
    unfolding socket_connected_def by (intro exI [of _ i] exI [of _ "Suc i"]) simp
  have later: "socket_connected W fd i (Suc (Suc (Suc (Suc i))))"
    if s: "dw_socket W i = Inr fd" "dw_connect W (Suc i) = Some EINPROGRESS" "dw_sockopt W (Suc (Suc (Suc i))) = Inr 0" for fd
    unfolding socket_connected_def using s
    by (intro exI [of _ i] exI [of _ "Suc i"] conjI disjI2 exI [of _ "Suc (Suc (Suc i))"]) simp_all
  show ?thesis
    unfolding connect_utls_adapter_def Let_def
    by (auto intro!: attains_rules attains_retS now later split: sum.splits option.splits poll_answer.splits)
qed

lemma carrier_socket_attains: "attains ws_ev i (carrier_socket X cfg b n) (\<lambda>k fd. socket_connected (xw_dial X) fd i k)"
  unfolding carrier_socket_def by (auto intro!: attains_phaseD attains_onD utls_adapter_attains connect_tcp_attains)

lemma carrier_tls_attains: "attains ws_ev i (carrier_tls X cfg b n) (\<lambda>k x. tls_checked X cfg i k)"
proof -
  let ?rest = "\<lambda>ms. seqS (ms @ [onD (ssl_handshake (xw_dial X) False (connect_timeout_sec cfg) n n),
       bindS (onD (askD (xw_alpn X))) (\<lambda>selected. whenS (selected \<noteq> [] \<and> selected \<noteq> ''http/1.1'')
         (throwS (DialFail ''CDN TLS ALPN did not negotiate http/1.1'')))])"
  have handshake: "attains ws_ev j (?rest []) (\<lambda>k x. tls_checked X cfg i k)"
    if "xw_ssl_new X i" "xw_ssl_setup X (Suc i)" "Suc (Suc i) \<le> j" "verify_peer cfg \<longrightarrow> Suc (Suc i) < j \<and> xw_ssl_host X (Suc (Suc i))" for j
    unfolding append_Nil seqS.simps
  proof (rule attains_thenS [OF attains_onD [OF ssl_handshake_attains]])
    fix l and x :: unit assume "\<exists>d. j \<le> d \<and> d < l \<and> dw_ssl (xw_dial X) d = SslDone"
    then obtain d where d: "j \<le> d" "d < l" "dw_ssl (xw_dial X) d = SslDone" by blast
    have "tls_checked X cfg i (Suc l)" if "xw_alpn X l = [] \<or> xw_alpn X l = ''http/1.1''"
    proof -
      have "verify_peer cfg \<longrightarrow> (\<exists>h. Suc i < h \<and> h < d \<and> xw_ssl_host X h)" using \<open>verify_peer cfg \<longrightarrow> _\<close> d(1) by (auto intro!: exI [of _ "Suc (Suc i)"])
      then show ?thesis using that d \<open>xw_ssl_new X i\<close> \<open>xw_ssl_setup X (Suc i)\<close> \<open>Suc (Suc i) \<le> j\<close>
        unfolding tls_checked_def by (intro exI [of _ i] exI [of _ "Suc i"] exI [of _ d] exI [of _ l]) simp
    qed
    then show "attains ws_ev l (thenS (bindS (onD (askD (xw_alpn X))) (\<lambda>selected. whenS (selected \<noteq> [] \<and> selected \<noteq> ''http/1.1'')
         (throwS (DialFail ''CDN TLS ALPN did not negotiate http/1.1'')))) skipS) (\<lambda>k x. tls_checked X cfg i k)"
      by (intro attains_thenS [where P = "\<lambda>k x. tls_checked X cfg i k"] attains_askW attains_whenS attains_throwS attains_skipS) auto
  qed
  have host: "attains ws_ev (Suc (Suc i)) (?rest [whenS (verify_peer cfg) (requireD (xw_ssl_host X) ''TLS hostname setup failed'')])
      (\<lambda>k x. tls_checked X cfg i k)" if t: "xw_ssl_new X i" "xw_ssl_setup X (Suc i)"
    unfolding append.simps
  proof (rule attains_seqS_Cons, rule attains_thenS)
    show "attains ws_ev (Suc (Suc i)) (whenS (verify_peer cfg) (requireD (xw_ssl_host X) ''TLS hostname setup failed''))
        (\<lambda>k x. if verify_peer cfg then k = Suc (Suc (Suc i)) \<and> xw_ssl_host X (Suc (Suc i)) else k = Suc (Suc i))"
      by (rule attains_whenS) (auto intro: attains_weaken [OF requireD_attains])
  qed (rule handshake [unfolded append_Nil], use t in \<open>auto split: if_splits\<close>)
  show ?thesis
    unfolding carrier_tls_def
    by (intro attains_seqS_Cons attains_phaseD attains_thenS [OF requireD_attains])
      (use host in \<open>auto intro!: attains_thenS [OF requireD_attains] attains_seqS_Cons\<close>)
qed

lemma carrier_upgrade_attains: "attains ws_ev i (carrier_upgrade X cfg b) (\<lambda>k hs. upgrade_agreed X cfg hs i k)"
proof -
  have "upgrade_agreed X cfg hs i (Suc (Suc i))" if "read_psk (xw_psk X i) = Inr psk"
    "xw_upgrade X (Suc i) (if host_header cfg = [] then server_name cfg else host_header cfg) (path cfg) psk = Inr hs" for psk hs
    using that unfolding upgrade_agreed_def by (intro exI [of _ i] exI [of _ "Suc i"] exI [of _ psk]) simp
  then show ?thesis
    unfolding carrier_upgrade_def
    by (auto intro!: attains_askW attains_throwS attains_retS split: sum.splits option.splits)
qed

definition carrier_checked :: "ws_dial_world \<Rightarrow> config \<Rightarrow> ws_handshake_result \<Rightarrow> nat \<Rightarrow> nat \<Rightarrow> bool" where
  "carrier_checked X cfg hs i l \<longleftrightarrow> (\<exists>j k. i \<le> j \<and> j \<le> k \<and> k \<le> l \<and>
     (tls_backend cfg = ''utls'' \<longrightarrow> side_car_ready (xw_dial X) i j) \<and>
     (websocket_tls cfg \<and> tls_backend cfg = ''openssl'' \<longrightarrow> tls_checked X cfg j k) \<and> upgrade_agreed X cfg hs k l)"

lemma dial_body_attains: "attains ws_ev i (dial_body X cfg b n) (\<lambda>l hs. carrier_checked X cfg hs i l)"
  unfolding dial_body_def
proof (rule attains_thenS [where P = "\<lambda>j x. tls_backend cfg = ''utls'' \<longrightarrow> side_car_ready (xw_dial X) i j"])
  show "attains ws_ev i (whenS (tls_backend cfg = ''utls'') (onD (wait_utls_tls_ready (xw_dial X) (connect_timeout_sec cfg) n)))
      (\<lambda>j x. tls_backend cfg = ''utls'' \<longrightarrow> side_car_ready (xw_dial X) i j)"
    by (auto intro!: attains_whenS attains_onD attains_weaken [OF side_car_attains])
  fix j assume j: "i \<le> j" "tls_backend cfg = ''utls'' \<longrightarrow> side_car_ready (xw_dial X) i j"
  show "attains ws_ev j (thenS (whenS (websocket_tls cfg \<and> tls_backend cfg = ''openssl'') (carrier_tls X cfg b n))
      (thenS (phaseD b 5) (carrier_upgrade X cfg b))) (\<lambda>l hs. carrier_checked X cfg hs i l)"
  proof (rule attains_thenS [where P = "\<lambda>k x. websocket_tls cfg \<and> tls_backend cfg = ''openssl'' \<longrightarrow> tls_checked X cfg j k"])
    show "attains ws_ev j (whenS (websocket_tls cfg \<and> tls_backend cfg = ''openssl'') (carrier_tls X cfg b n))
        (\<lambda>k x. websocket_tls cfg \<and> tls_backend cfg = ''openssl'' \<longrightarrow> tls_checked X cfg j k)"
      by (auto intro!: attains_whenS attains_weaken [OF carrier_tls_attains])
    fix k assume k: "j \<le> k" "websocket_tls cfg \<and> tls_backend cfg = ''openssl'' \<longrightarrow> tls_checked X cfg j k"
    have "carrier_checked X cfg hs i l" if "k \<le> l" "upgrade_agreed X cfg hs k l" for l hs
      using that j k unfolding carrier_checked_def by blast
    then show "attains ws_ev k (thenS (phaseD b 5) (carrier_upgrade X cfg b)) (\<lambda>l hs. carrier_checked X cfg hs i l)"
      by (intro attains_phaseD attains_weaken [OF carrier_upgrade_attains])
  qed
qed

lemma dial_websocket_attains:
  "attains ws_ev i (dial_websocket X cfg b n) (\<lambda>l r. \<exists>j. i \<le> j \<and> socket_connected (xw_dial X) (fst r) i j \<and> carrier_checked X cfg (snd r) j l)"
proof -
  have "attains ws_ev j (bindS (dial_body X cfg b n) (\<lambda>hs. retS (Inr (fd, hs))))
      (\<lambda>l r. \<exists>j. i \<le> j \<and> socket_connected (xw_dial X) (fst r) i j \<and> carrier_checked X cfg (snd r) j l)"
    if "i \<le> j" "socket_connected (xw_dial X) fd i j" for j fd
    using that by (intro attains_bindS [OF dial_body_attains] attains_retS) auto
  moreover have "attains ws_ev j (thenS m (throwS e)) (\<lambda>k x. False)" for j m and e :: dial_error
    by (auto simp: attains_def thenS_def bindS_def throwS_def retS_def split: prod.splits sum.splits)
  ultimately show ?thesis
    unfolding dial_websocket_def by (intro attains_phaseD attains_bindS [OF carrier_socket_attains] attains_catchS)
qed

text \<open>
  C14: a client's way to a connection leaks nothing and lets nothing unchecked through. Whatever the kernel, the resolver, OpenSSL, the side
  car and the peer answer, a connection that is returned has the only descriptor left open, and in the course of the dial, in this order:
  its socket was made and connected without an error; with the uTLS backend the side car sent its whole marker; with TLS of its own, OpenSSL set up
  the session and the server name, and the name to verify if it is to be verified, completed the handshake, and selected HTTP/1.1 or nothing; the
  handshake with the secret of the file succeeded with the result that is returned; and this result offers what the configuration needs: an envelope for
  control padding, padding for data padding, and for a dial in the background the confirmation of the keys. After an error no descriptor is open
  (\<open>DialCut\<close> only says that the fuel ran out in the middle). A dial in the background leaves the phase that is shown alone, one in the foreground
  shows 3, 4 or 5, and 5 when it succeeds.
\<close>

theorem dial_leaves_nothing_open:
  assumes "dial_websocket X cfg background n (new_dialer, ph) = ((s, ph'), r)"
  shows "(case r of
      Inr (fd, hs) \<Rightarrow> dl_open s = [fd] \<and> ph' = (if background then ph else 5) \<and>
        (\<exists>i. socket_connected (xw_dial X) fd 0 i \<and> carrier_checked X cfg hs i (dl_ev s)) \<and>
        (websocket_control_padding_bytes cfg \<noteq> 0 \<longrightarrow> peer_envelope hs) \<and> (websocket_padding_max_bytes cfg \<noteq> 0 \<longrightarrow> peer_padding hs) \<and>
        (background \<longrightarrow> hs_confirmed hs)
    | Inl e \<Rightarrow> (e = DialCut \<or> dl_open s = []) \<and> (if background then ph' = ph else ph' \<in> {3, 4, 5}))"
proof -
  have f: "dial_fine cfg background ph r (s, ph')" using runsD [OF dial_websocket_runs refl assms] .
  show ?thesis
  proof (cases r)
    case (Inl e)
    then show ?thesis using f by (auto simp: dial_fine_def split: if_splits)
  next
    case (Inr x)
    obtain fd hs where x: "x = (fd, hs)" by (cases x)
    have "ws_ev (new_dialer, ph) = 0" by (simp add: new_dialer_def)
    from attainsD [OF dial_websocket_attains this assms [unfolded Inr x]]
    have "\<exists>i. socket_connected (xw_dial X) fd 0 i \<and> carrier_checked X cfg hs i (dl_ev s)" by auto
    then show ?thesis using f by (auto simp: Inr x dial_fine_def dial_checks_def split: if_splits)
  qed
qed

text \<open>A peer that offers no envelope, which the configuration asks for: it is refused after the handshake.\<close>

definition demo_ws_dial :: ws_dial_world where
  "demo_ws_dial = \<lparr>xw_dial = demo_dial, xw_ssl_new = (\<lambda>_. True), xw_ssl_setup = (\<lambda>_. True), xw_ssl_host = (\<lambda>_. True), xw_alpn = (\<lambda>_. []),
     xw_psk = (\<lambda>_. Some (replicate 32 65)),
     xw_upgrade = (\<lambda>_ _ _ _. Inr \<lparr>hs_keys = \<lparr>client_tx = [], server_tx = [], auth = []\<rparr>, peer_padding = False, peer_envelope = False,
        hs_confirmed = True, peer_trial = False, trial_max_rtt_us = - 1, psk_index = 0, hs_pool_connections = 1, client_nonce = [], server_nonce = []\<rparr>),
     xw_what = (\<lambda>_. [])\<rparr>"

definition demo_ws_cfg :: config where
  "demo_ws_cfg = dial_cfg\<lparr>Config.server := ''edge:443'', websocket_tls := False, tls_backend := ''openssl'', websocket_control_padding_bytes := 64\<rparr>"

lemma demo_ws_cfg_simps [simp]:
  "edge_dns_rotation demo_ws_cfg = False" "connect_timeout_sec demo_ws_cfg = 10" "Config.server demo_ws_cfg = ''edge:443''"
  "websocket_tls demo_ws_cfg = False" "tls_backend demo_ws_cfg = ''openssl''" "websocket_control_padding_bytes demo_ws_cfg = 64"
  by (simp_all add: demo_ws_cfg_def)

lemma demo_ws_simps [simp]:
  "xw_dial demo_ws_dial = demo_dial" "xw_psk demo_ws_dial k = Some (replicate 32 65)"
  by (simp_all add: demo_ws_dial_def del: replicate.simps)

lemmas demo_ws_upgrade = demo_ws_dial_def [THEN arg_cong [of _ _ xw_upgrade], simplified]

lemma demo_ws_connect: "\<exists>s. connect_tcp demo_dial demo_ws_cfg ''edge:443'' 1 new_dialer = (s, Inr 11) \<and> dl_tried s = [0, 1]"
  by (simp add: dial_run demo_dial_def upt_rec signed_divide_int_def)

theorem dial_leaves_nothing_open_witness:
  "\<exists>s. dial_websocket demo_ws_dial demo_ws_cfg False 1 (new_dialer, 1) =
      ((s, 5), Inl (DialFail ''peer lacks envelope-v2; upgrade both peers or disable control padding'')) \<and> dl_open s = [] \<and> dl_tried s = [0, 1]"
proof -
  obtain s where c: "connect_tcp demo_dial demo_ws_cfg ''edge:443'' 1 new_dialer = (s, Inr 11)" "dl_tried s = [0, 1]"
    using demo_ws_connect by blast
  have p: "read_psk (Some (replicate 32 65)) = Inr (replicate 32 65)" by code_simp
  obtain s' where s': "dial_websocket demo_ws_dial demo_ws_cfg False 1 (new_dialer, 1) =
      ((s', 5), Inl (DialFail ''peer lacks envelope-v2; upgrade both peers or disable control padding''))" "dl_tried s' = [0, 1]"
    using c that by (simp add: demo_ws_upgrade dial_websocket_def carrier_socket_def dial_body_def carrier_upgrade_def phaseD_def onD_def demo_ws_cfg_simps demo_ws_simps p
        dial_checks_def bindS_def thenS_def whenS_def catchS_def throwS_def retS_def skipS_def modS_def askD_def closeD_def del: replicate.simps)
  show ?thesis using dial_leaves_nothing_open [OF s'(1)] s' by auto
qed

end
