(* ===== verification/LegacyRun.thy ===== *)
theory LegacyRun
  imports LegacyHandshake TlsTunnel SupervisorRun
begin

text \<open>
  The part of \<open>run\<close> (\<open>src/cdn/src/runtime.cpp\<close>) for the legacy transport: a client that connects again and again, a server that
  serves one peer after the other. Connecting is in \<open>Dial\<close>, the handshake in \<open>LegacyHandshake\<close> and the session in \<open>TlsTunnel\<close>;
  their outcomes and the stop flag, clock and random numbers are the answers of a world.
\<close>

section \<open>World and state\<close>

text \<open>\<open>gw_tls\<close> covers the set-up of the TLS object and its handshake, \<open>gw_keys\<close> reading the keys and the handshake inside TLS.\<close>

datatype accepted = AcceptNothing | AcceptFailed string | Accepted int

record legacy_world =
  gw_stop :: "nat \<Rightarrow> bool"
  gw_clock :: "nat \<Rightarrow> u64"
  gw_accept :: "nat \<Rightarrow> accepted"
  gw_ssl_new :: "nat \<Rightarrow> string option"
  gw_connect :: "nat \<Rightarrow> (string, int) result"
  gw_tls :: "nat \<Rightarrow> string option"
  gw_keys :: "nat \<Rightarrow> (string, session_keys) result"
  gw_session :: "nat \<Rightarrow> tls_world"
  gw_jitter :: "nat \<Rightarrow> int \<Rightarrow> int"

record legacy_link =
  gk_cfg :: config
  gk_crypto :: crypto
  gk_text :: "tls_error \<Rightarrow> string"
  gk_world :: legacy_world

text \<open>The variables of \<open>run\<close>, the descriptors that are open, the delays waited for, and the sessions with their keys.\<close>

record legacy_run =
  lr_ev :: nat
  lr_stop :: bool
  lr_state :: int
  lr_delay :: int
  lr_attempt :: nat
  lr_stats :: stats
  lr_events :: "string list"
  lr_open :: "int list"
  lr_waits :: "int list"
  lr_sessions :: "(session_keys \<times> tls_tunnel) list"

type_synonym 'a legacy = "(legacy_run, sup_error, 'a) se"

definition askG :: "(nat \<Rightarrow> 'a) \<Rightarrow> 'a legacy" where
  "askG f s = (s\<lparr>lr_ev := Suc (lr_ev s)\<rparr>, Inr (f (lr_ev s)))"

definition stopG :: "legacy_link \<Rightarrow> bool legacy" where
  "stopG G s = (let b = (lr_stop s \<or> gw_stop (gk_world G) (lr_ev s)) in (s\<lparr>lr_ev := Suc (lr_ev s), lr_stop := b\<rparr>, Inr b))"

definition stateG :: "int \<Rightarrow> unit legacy" where
  "stateG k = modS (\<lambda>s. s\<lparr>lr_state := k\<rparr>)"

definition eventG :: "string \<Rightarrow> unit legacy" where
  "eventG line = modS (\<lambda>s. s\<lparr>lr_events := event line (lr_events s)\<rparr>)"

definition openG :: "int \<Rightarrow> unit legacy" where
  "openG fd = modS (\<lambda>s. s\<lparr>lr_open := lr_open s @ [fd]\<rparr>)"

text \<open>\<open>close_ssl\<close> forgets the descriptor, so it may be called again.\<close>

definition close_ssl :: "unit legacy" where
  "close_ssl = modS (\<lambda>s. s\<lparr>lr_open := []\<rparr>)"

definition needG :: "(nat \<Rightarrow> string option) \<Rightarrow> unit legacy" where
  "needG f = bindS (askG f) (\<lambda>r. case r of Some m \<Rightarrow> throwS (SupFail m) | None \<Rightarrow> skipS)"

section \<open>A session\<close>

definition legacy_turn :: "legacy_link \<Rightarrow> tls_link \<Rightarrow> (legacy_run \<times> tls_tunnel, sup_error, unit) se" where
  "legacy_turn G L s = (case tls_turn L (snd s) of (T, r) \<Rightarrow>
     ((fst s, T), case r of Inl e \<Rightarrow> Inl (SupFail (case e of TlsFail m \<Rightarrow> m | _ \<Rightarrow> gk_text G e)) | Inr _ \<Rightarrow> Inr ()))"

fun legacy_session_loop :: "legacy_link \<Rightarrow> tls_link \<Rightarrow> nat \<Rightarrow> (legacy_run \<times> tls_tunnel, sup_error, unit) se" where
  "legacy_session_loop G L 0 = throwS CutOff"
| "legacy_session_loop G L (Suc n) =
     bindS (\<lambda>s. case stopG G (fst s) of (s', r) \<Rightarrow> ((s', snd s), r)) (\<lambda>b. if b then skipS
       else thenS (legacy_turn G L) (legacy_session_loop G L n))"

definition legacy_session :: "legacy_link \<Rightarrow> bool \<Rightarrow> nat \<Rightarrow> session_keys \<Rightarrow> unit legacy" where
  "legacy_session G client n keys =
     bindS (askG (gw_clock (gk_world G))) (\<lambda>t. bindS (askG (gw_session (gk_world G))) (\<lambda>w s.
       let L = \<lparr>ll_cfg = gk_cfg G, ll_crypto = gk_crypto G, ll_tx_key = (if client then client_tx keys else server_tx keys), ll_world = w\<rparr>;
           T0 = start_tls L t (if client then server_tx keys else client_tx keys) (lr_stats s) in
       case legacy_session_loop G L n (s, T0) of
         ((s', T), r) \<Rightarrow> (s'\<lparr>lr_stats := l_stats T, lr_sessions := lr_sessions s' @ [(keys, T)]\<rparr>, r)))"

section \<open>The client\<close>

definition legacy_online :: "legacy_link \<Rightarrow> nat \<Rightarrow> unit legacy" where
  "legacy_online G n =
     thenS (modS (\<lambda>s. s\<lparr>lr_attempt := lr_attempt s + 1, lr_state := 2\<rparr>))
     (bindS (askG (gw_connect (gk_world G))) (\<lambda>r.
       case r of
         Inl m \<Rightarrow> throwS (SupFail m)
       | Inr fd \<Rightarrow>
           thenS (openG fd)
          (thenS (needG (gw_tls (gk_world G)))
          (bindS (askG (gw_keys (gk_world G))) (\<lambda>r.
             case r of
               Inl m \<Rightarrow> throwS (SupFail m)
             | Inr keys \<Rightarrow>
                 thenS (modS (\<lambda>s. s\<lparr>lr_state := 3, lr_delay := reconnect_initial_ms (gk_cfg G)\<rparr>)) (legacy_session G True n keys))))))"

definition legacy_retry :: "legacy_link \<Rightarrow> unit legacy" where
  "legacy_retry G =
     seqS
      [modS (\<lambda>s. s\<lparr>lr_state := 4, lr_stats := (lr_stats s)\<lparr>st_reconnects := st_reconnects (lr_stats s) + 1\<rparr>\<rparr>),
       bindS (askG (gw_jitter (gk_world G))) (\<lambda>draw.
         thenS (eventG ''reconnecting'') (thenS close_ssl
           (modS (\<lambda>s. s\<lparr>lr_waits := lr_waits s @ [jittered (lr_delay s) (reconnect_jitter_pct (gk_cfg G)) draw]\<rparr>)))),
       modS (\<lambda>s. s\<lparr>lr_delay := min (lr_delay s * 2) (reconnect_max_ms (gk_cfg G))\<rparr>)]"

definition legacy_client_turn :: "legacy_link \<Rightarrow> nat \<Rightarrow> unit legacy" where
  "legacy_client_turn G n =
     thenS
      (catchS (legacy_online G n) (\<lambda>e.
         if e = CutOff then throwS CutOff else bindS (stopG G) (\<lambda>b. whenS (\<not> b) (legacy_retry G))))
      close_ssl"

fun legacy_client_n :: "legacy_link \<Rightarrow> nat \<Rightarrow> nat \<Rightarrow> unit legacy" where
  "legacy_client_n G n 0 = skipS"
| "legacy_client_n G n (Suc k) = bindS (stopG G) (\<lambda>b. if b then skipS else thenS (legacy_client_turn G n) (legacy_client_n G n k))"

section \<open>The server\<close>

text \<open>A failure to accept or to make the TLS object leaves the loop, and with it the program.\<close>

definition legacy_serve :: "legacy_link \<Rightarrow> nat \<Rightarrow> unit legacy" where
  "legacy_serve G n =
     thenS (needG (gw_tls (gk_world G)))
     (bindS (askG (gw_keys (gk_world G))) (\<lambda>r.
        case r of
          Inl m \<Rightarrow> throwS (SupFail m)
        | Inr keys \<Rightarrow> thenS (stateG 3) (legacy_session G False n keys)))"

definition legacy_server_turn :: "legacy_link \<Rightarrow> nat \<Rightarrow> unit legacy" where
  "legacy_server_turn G n =
     thenS (stateG 1)
     (bindS (askG (gw_accept (gk_world G))) (\<lambda>a.
        case a of
          AcceptNothing \<Rightarrow> skipS
        | AcceptFailed m \<Rightarrow> throwS (SupFail m)
        | Accepted fd \<Rightarrow>
            thenS (openG fd)
           (thenS (catchS (needG (gw_ssl_new (gk_world G))) (\<lambda>e. thenS close_ssl (throwS e)))
           (thenS
             (catchS (legacy_serve G n) (\<lambda>e.
                if e = CutOff then throwS CutOff else bindS (stopG G) (\<lambda>b. whenS (\<not> b) (eventG ''disconnected''))))
             close_ssl))))"

fun legacy_server_n :: "legacy_link \<Rightarrow> nat \<Rightarrow> nat \<Rightarrow> unit legacy" where
  "legacy_server_n G n 0 = skipS"
| "legacy_server_n G n (Suc k) = bindS (stopG G) (\<lambda>b. if b then skipS else thenS (legacy_server_turn G n) (legacy_server_n G n k))"

definition start_legacy :: "legacy_link \<Rightarrow> stats \<Rightarrow> legacy_run" where
  "start_legacy G st =
     \<lparr>lr_ev = 0, lr_stop = False, lr_state = 0, lr_delay = reconnect_initial_ms (gk_cfg G), lr_attempt = 0, lr_stats = st, lr_events = [],
      lr_open = [], lr_waits = [], lr_sessions = []\<rparr>"

end
