(* ===== verification/LegacyRunProps.thy ===== *)
theory LegacyRunProps
  imports LegacyRun TlsProps
begin

text \<open>What holds of the loops around the legacy transport, whatever connecting, the peers and the clock do.\<close>

section \<open>Sessions\<close>

definition legacy_link_ok :: "legacy_link \<Rightarrow> bool" where
  "legacy_link_ok G \<longleftrightarrow> 1 \<le> queue_packets (gk_cfg G) \<and>
     (\<forall>j k b n. lw_write (gw_session (gk_world G) j) k b = TlsWrote n \<longrightarrow> n \<le> length b) \<and>
     1 \<le> reconnect_initial_ms (gk_cfg G) \<and> reconnect_initial_ms (gk_cfg G) \<le> reconnect_max_ms (gk_cfg G) \<and> 0 \<le> reconnect_jitter_pct (gk_cfg G) \<and>
     (\<forall>k d. 0 \<le> d \<longrightarrow> - d \<le> gw_jitter (gk_world G) k d \<and> gw_jitter (gk_world G) k d \<le> d)"

text \<open>
  The records of a session are numbered 1, 2, 3, ... and made under its own key, and its stream consists of such records, in order.
\<close>

definition own_records :: "legacy_link \<Rightarrow> bool \<Rightarrow> session_keys \<Rightarrow> tls_tunnel \<Rightarrow> bool" where
  "own_records G client keys T \<longleftrightarrow> map fst (l_log T) = map (\<lambda>i. of_nat (Suc i)) [0..<length (l_log T)] \<and>
     (\<forall>(q, f, p, rec) \<in> set (l_log T). encode_record (gk_crypto G) (if client then client_tx keys else server_tx keys) q p f = Inr rec) \<and>
     tls_stream_ok T \<and> queue_ok (gk_cfg G) (l_q T) (l_queued_bytes T)"

definition legacy_base :: "legacy_link \<Rightarrow> bool \<Rightarrow> int list set \<Rightarrow> legacy_run \<Rightarrow> bool" where
  "legacy_base G client fds s \<longleftrightarrow> waits_ok (gk_cfg G) (lr_delay s) (lr_waits s) \<and> lr_open s \<in> fds \<and>
     (\<forall>(keys, T) \<in> set (lr_sessions s). own_records G client keys T)"

lemma legacy_start: "legacy_link_ok G \<Longrightarrow> legacy_base G client {[]} (start_legacy G st)"
  by (auto simp: legacy_base_def start_legacy_def waits_ok_def legacy_link_ok_def)

lemma legacy_loop_kept:
  assumes "tls_link_ok L"
  shows "tls_inv L T \<Longrightarrow> legacy_base G client fds s \<Longrightarrow> legacy_session_loop G L n (s, T) = ((s', T'), r) \<Longrightarrow>
    tls_end_inv L T' \<and> legacy_base G client fds s'"
proof (induction n arbitrary: s T)
  case 0
  then show ?case using tls.weaker by (auto simp: throwS_def retS_def)
next
  case (Suc n)
  obtain s1 b where b: "stopG G s = (s1, Inr b)" "legacy_base G client fds s1"
    using Suc.prems(2) by (auto simp: stopG_def Let_def legacy_base_def)
  show ?case
  proof (cases b)
    case True
    then show ?thesis using Suc.prems b tls.weaker by (auto simp: bindS_def skipS_def retS_def)
  next
    case False
    obtain T1 q where t: "tls_turn L T = (T1, q)" by fastforce
    show ?thesis
    proof (cases q)
      case (Inl e)
      then have "tls_end_inv L T1" using holdsD(1) [OF tls_holds_turn [OF assms] Suc.prems(1)] t by blast
      then show ?thesis using Suc.prems b False t Inl by (auto simp: bindS_def thenS_def legacy_turn_def)
    next
      case (Inr x)
      then have "tls_inv L T1" using holdsD(2) [OF tls_holds_turn [OF assms] Suc.prems(1)] t by blast
      then show ?thesis using Suc.prems(3) b False t Inr Suc.IH [of T1 s1] by (simp add: bindS_def thenS_def legacy_turn_def)
    qed
  qed
qed

lemma legacy_session_runs:
  assumes "legacy_link_ok G"
  shows "runs (legacy_base G client fds) (legacy_session G client n keys) (\<lambda>r. legacy_base G client fds)"
proof (rule runsI)
  fix s s' r assume i: "legacy_base G client fds s" and e: "legacy_session G client n keys s = (s', r)"
  let ?w = "gw_session (gk_world G) (Suc (lr_ev s))" and ?t = "gw_clock (gk_world G) (lr_ev s)"
  let ?L = "\<lparr>ll_cfg = gk_cfg G, ll_crypto = gk_crypto G, ll_tx_key = (if client then client_tx keys else server_tx keys), ll_world = ?w\<rparr>"
  let ?T = "start_tls ?L ?t (if client then server_tx keys else client_tx keys) (lr_stats s)"
  let ?s = "s\<lparr>lr_ev := Suc (Suc (lr_ev s))\<rparr>"
  obtain x T where l: "legacy_session_loop G ?L n (?s, ?T) = ((x, T), r)" "s' = x\<lparr>lr_stats := l_stats T, lr_sessions := lr_sessions x @ [(keys, T)]\<rparr>"
    using e by (auto simp: legacy_session_def bindS_def askG_def Let_def split: prod.splits)
  have ok: "tls_link_ok ?L" using assms by (simp add: legacy_link_ok_def tls_link_ok_def)
  have "legacy_base G client fds ?s" using i by (simp add: legacy_base_def)
  from legacy_loop_kept [OF ok tls_start this l(1)] have k: "tls_end_inv ?L T" "legacy_base G client fds x" by auto
  have "own_records G client keys T" using k(1) by (auto simp: own_records_def tls_end_inv_def tls_records_ok_def tls_queue_ok_def)
  then show "legacy_base G client fds s'" using k(2) l(2) by (auto simp: legacy_base_def)
qed

section \<open>Turns\<close>

definition one_open :: "int list set" where
  "one_open = {fds. length fds \<le> 1}"

lemma one_open_simps [simp]: "[] \<in> one_open" "[fd] \<in> one_open"
  by (simp_all add: one_open_def)

lemma legacy_steps:
  "runs (legacy_base G c fds) (askG f) (\<lambda>r s. legacy_base G c fds s \<and> (\<exists>x. r = Inr x))"
  "runs (legacy_base G c fds) (stopG G) (\<lambda>r s. legacy_base G c fds s \<and> (\<exists>x. r = Inr x))"
  "runs (legacy_base G c fds) (stateG k) (\<lambda>r s. legacy_base G c fds s \<and> r = Inr ())"
  "runs (legacy_base G c fds) (eventG l) (\<lambda>r s. legacy_base G c fds s \<and> r = Inr ())"
  "runs (legacy_base G c fds) close_ssl (\<lambda>r s. legacy_base G c {[]} s \<and> r = Inr ())"
  "runs (legacy_base G c {[]}) (openG fd) (\<lambda>r s. legacy_base G c one_open s \<and> r = Inr ())"
  by (auto simp: runs_def askG_def stopG_def stateG_def eventG_def close_ssl_def openG_def modS_def legacy_base_def Let_def)

lemma legacy_need: "runs (legacy_base G c fds) (needG f) (\<lambda>r. legacy_base G c fds)"
  unfolding needG_def by (rule runs_bindS [OF legacy_steps(1)]) (auto intro!: runs_throwS runs_skipS split: option.splits)

text \<open>Reading keys and running a session, on either side; \<open>m\<close> is what is done in between.\<close>

lemma legacy_keys_runs:
  fixes m :: "unit legacy"
  assumes "legacy_link_ok G" "runs (legacy_base G c one_open) m (\<lambda>r s. legacy_base G c one_open s)"
  shows "runs (legacy_base G c one_open) (thenS (needG f) (bindS (askG g) (\<lambda>r. case r of
      Inl e \<Rightarrow> throwS (SupFail e) | Inr keys \<Rightarrow> thenS m (legacy_session G c n keys)))) (\<lambda>r. legacy_base G c one_open)"
proof (rule runs_thenS [OF legacy_need], rule runs_bindS [OF legacy_steps(1)])
  fix x :: "(string, session_keys) result"
  have "runs (legacy_base G c one_open) (thenS m (legacy_session G c n keys)) (\<lambda>r. legacy_base G c one_open)" for keys
    by (rule runs_thenS [OF assms(2) legacy_session_runs [OF assms(1)]])
  then show "runs (\<lambda>s. legacy_base G c one_open s \<and> (\<exists>y. (Inr x :: (sup_error, (string, session_keys) result) result) = Inr y))
      (case x of Inl e \<Rightarrow> throwS (SupFail e) | Inr keys \<Rightarrow> thenS m (legacy_session G c n keys)) (\<lambda>r. legacy_base G c one_open)"
    by (cases x) (auto intro: runs_throwS runs_pre)
qed auto

lemma legacy_online_runs:
  assumes "legacy_link_ok G"
  shows "runs (legacy_base G True {[]}) (legacy_online G n) (\<lambda>r. legacy_base G True one_open)"
proof -
  have a: "runs (legacy_base G True {[]}) (modS (\<lambda>s. s\<lparr>lr_attempt := lr_attempt s + 1, lr_state := 2\<rparr>)) (\<lambda>r. legacy_base G True {[]})"
    by (simp add: runs_def modS_def legacy_base_def)
  have m: "runs (legacy_base G True one_open) (modS (\<lambda>s. s\<lparr>lr_state := 3, lr_delay := reconnect_initial_ms (gk_cfg G)\<rparr>)) (\<lambda>r. legacy_base G True one_open)"
    using assms by (auto simp: runs_def modS_def legacy_base_def waits_ok_def legacy_link_ok_def)
  have b: "legacy_base G True {[]} s \<Longrightarrow> legacy_base G True one_open s" for s by (simp add: legacy_base_def)
  let ?rest = "thenS (needG (gw_tls (gk_world G))) (bindS (askG (gw_keys (gk_world G))) (\<lambda>r. case r of
      Inl m \<Rightarrow> throwS (SupFail m)
    | Inr keys \<Rightarrow> thenS (modS (\<lambda>s. s\<lparr>lr_state := 3, lr_delay := reconnect_initial_ms (gk_cfg G)\<rparr>)) (legacy_session G True n keys)))"
  have o: "runs (legacy_base G True {[]}) (thenS (openG fd) ?rest) (\<lambda>r. legacy_base G True one_open)" for fd
    by (rule runs_thenS [OF legacy_steps(6) runs_pre [OF legacy_keys_runs [OF assms m]]]) auto
  show ?thesis
    unfolding legacy_online_def
  proof (rule runs_thenS [OF a], rule runs_bindS [OF legacy_steps(1)])
    fix x :: "(string, int) result"
    show "runs (\<lambda>s. legacy_base G True {[]} s \<and> (\<exists>y. (Inr x :: (sup_error, (string, int) result) result) = Inr y))
      (case x of Inl m \<Rightarrow> throwS (SupFail m)
       | Inr fd \<Rightarrow> thenS (openG fd) ?rest)
      (\<lambda>r. legacy_base G True one_open)"
      by (cases x) (auto intro!: runs_throwS b runs_pre [OF o])
  qed (use b in auto)
qed

text \<open>After a turn of the client no descriptor is open, unless the look at the loop ends inside a session.\<close>

definition legacy_left :: "legacy_link \<Rightarrow> bool \<Rightarrow> (sup_error, unit) result \<Rightarrow> legacy_run \<Rightarrow> bool" where
  "legacy_left G c r s \<longleftrightarrow> (if r = Inl CutOff then legacy_base G c one_open s else legacy_base G c {[]} s)"

lemma legacy_left_Inr [simp]: "legacy_left G c (Inr ()) s = legacy_base G c {[]} s"
  by (simp add: legacy_left_def)

lemma legacy_retry_runs:
  assumes "legacy_link_ok G"
  shows "runs (legacy_base G True one_open) (legacy_retry G) (\<lambda>r s. legacy_base G True {[]} s \<and> r = Inr ())"
proof (rule runsI)
  fix s s' r assume i: "legacy_base G True one_open s" and e: "legacy_retry G s = (s', r)"
  let ?w = "jittered (lr_delay s) (reconnect_jitter_pct (gk_cfg G)) (gw_jitter (gk_world G) (lr_ev s))"
  have w: "waits_ok (gk_cfg G) (lr_delay s) (lr_waits s)" using i by (simp add: legacy_base_def)
  have "1 \<le> ?w \<and> ?w \<le> reconnect_max_ms (gk_cfg G) + reconnect_max_ms (gk_cfg G) * reconnect_jitter_pct (gk_cfg G) sdiv 100"
    by (rule jittered_bounds) (use w assms in \<open>auto simp: waits_ok_def legacy_link_ok_def\<close>)
  then have "waits_ok (gk_cfg G) (min (lr_delay s * 2) (reconnect_max_ms (gk_cfg G))) (lr_waits s @ [?w])"
    using w assms by (auto simp: waits_ok_def legacy_link_ok_def)
  then show "legacy_base G True {[]} s' \<and> r = Inr ()"
    using i e by (auto simp: legacy_retry_def seqS.simps bindS_def thenS_def modS_def askG_def eventG_def close_ssl_def skipS_def retS_def legacy_base_def)
qed

lemma legacy_closed: "runs (legacy_base G c fds) close_ssl (legacy_left G c)"
  by (rule runs_post [OF legacy_steps(5)]) (auto simp: legacy_left_def)

lemma legacy_client_turn_runs:
  assumes "legacy_link_ok G"
  shows "runs (legacy_base G True {[]}) (legacy_client_turn G n) (\<lambda>r s. legacy_left G True r s \<and> (r = Inr () \<or> r = Inl CutOff))"
proof -
  have t: "runs (legacy_base G True one_open) (bindS (stopG G) (\<lambda>b. whenS (\<not> b) (legacy_retry G)))
      (\<lambda>r s. legacy_base G True one_open s \<and> (r = Inr () \<or> r = Inl CutOff))"
    by (rule runs_bindS [OF legacy_steps(2)])
      (auto intro!: runs_whenS runs_post [OF runs_pre [OF legacy_retry_runs [OF assms]]] simp: legacy_base_def)
  have c: "runs (legacy_base G True {[]})
      (catchS (legacy_online G n) (\<lambda>e. if e = CutOff then throwS CutOff else bindS (stopG G) (\<lambda>b. whenS (\<not> b) (legacy_retry G))))
      (\<lambda>r s. legacy_base G True one_open s \<and> (r = Inr () \<or> r = Inl CutOff))"
    by (rule runs_catchS [OF legacy_online_runs [OF assms]]) (auto intro!: runs_throwS t)
  show ?thesis
    unfolding legacy_client_turn_def
    by (rule runs_thenS [OF c runs_post [OF runs_pre [OF legacy_steps(5)]]]) (auto simp: legacy_left_def)
qed

lemma legacy_client_runs:
  assumes "legacy_link_ok G"
  shows "runs (legacy_base G True {[]}) (legacy_client_n G n k) (\<lambda>r s. legacy_left G True r s \<and> (r = Inr () \<or> r = Inl CutOff))"
proof (induction k)
  case 0
  then show ?case by (auto intro: runs_skipS)
next
  case (Suc k)
  have "runs (legacy_base G True {[]}) (thenS (legacy_client_turn G n) (legacy_client_n G n k)) (\<lambda>r s. legacy_left G True r s \<and> (r = Inr () \<or> r = Inl CutOff))"
    by (rule runs_thenS [OF legacy_client_turn_runs [OF assms] runs_pre [OF Suc.IH]]) auto
  then show ?case by (auto intro!: runs_bindS [OF legacy_steps(2)] runs_skipS intro: runs_pre)
qed

lemma legacy_serve_runs:
  assumes "legacy_link_ok G"
  shows "runs (legacy_base G False one_open) (legacy_serve G n) (\<lambda>r. legacy_base G False one_open)"
  unfolding legacy_serve_def
  by (rule legacy_keys_runs [OF assms]) (rule runs_post [OF legacy_steps(3)], simp)

lemma legacy_server_turn_runs:
  assumes "legacy_link_ok G"
  shows "runs (legacy_base G False {[]}) (legacy_server_turn G n) (legacy_left G False)"
proof -
  have t: "runs (legacy_base G False one_open) (bindS (stopG G) (\<lambda>b. whenS (\<not> b) (eventG ''disconnected'')))
      (\<lambda>r s. legacy_base G False one_open s \<and> (r = Inr () \<or> r = Inl CutOff))"
    by (rule runs_bindS [OF legacy_steps(2)]) (auto intro!: runs_whenS runs_post [OF runs_pre [OF legacy_steps(4)]])
  have c: "runs (legacy_base G False one_open)
      (catchS (legacy_serve G n) (\<lambda>e. if e = CutOff then throwS CutOff else bindS (stopG G) (\<lambda>b. whenS (\<not> b) (eventG ''disconnected''))))
      (\<lambda>r s. legacy_base G False one_open s \<and> (r = Inr () \<or> r = Inl CutOff))"
    by (rule runs_catchS [OF legacy_serve_runs [OF assms]]) (auto intro!: runs_throwS t)
  have s: "runs (legacy_base G False one_open)
      (thenS (catchS (legacy_serve G n) (\<lambda>e. if e = CutOff then throwS CutOff else bindS (stopG G) (\<lambda>b. whenS (\<not> b) (eventG ''disconnected'')))) close_ssl)
      (legacy_left G False)"
    by (rule runs_thenS [OF c runs_pre [OF legacy_closed]]) (auto simp: legacy_left_def)
  have f: "runs (legacy_base G False one_open) (thenS close_ssl (throwS e)) (\<lambda>r s. legacy_base G False {[]} s \<and> r \<noteq> Inr ())" for e
    by (rule runs_thenS [OF legacy_steps(5)]) (auto intro: runs_throwS)
  have a: "runs (legacy_base G False one_open) (catchS (needG (gw_ssl_new (gk_world G))) (\<lambda>e. thenS close_ssl (throwS e)))
      (\<lambda>r s. if r = Inr () then legacy_base G False one_open s else legacy_base G False {[]} s)"
    by (rule runs_catchS [OF legacy_need runs_post [OF f]]) auto
  have m: "legacy_base G False {[]} s \<Longrightarrow> legacy_left G False r s" for r s by (simp add: legacy_left_def legacy_base_def)
  have o: "runs (legacy_base G False {[]}) (thenS (openG fd) (thenS (catchS (needG (gw_ssl_new (gk_world G))) (\<lambda>e. thenS close_ssl (throwS e)))
      (thenS (catchS (legacy_serve G n) (\<lambda>e. if e = CutOff then throwS CutOff else bindS (stopG G) (\<lambda>b. whenS (\<not> b) (eventG ''disconnected'')))) close_ssl)))
      (legacy_left G False)" for fd
    by (rule runs_thenS [OF legacy_steps(6) runs_pre [OF runs_thenS [OF a runs_pre [OF s]]]]) (auto intro: m)
  show ?thesis
    unfolding legacy_server_turn_def
    by (rule runs_thenS [OF legacy_steps(3) runs_pre [OF runs_bindS [OF legacy_steps(1)]]])
      (auto intro!: runs_skipS runs_throwS m runs_pre [OF o] split: accepted.splits)
qed

lemma legacy_server_runs:
  assumes "legacy_link_ok G"
  shows "runs (legacy_base G False {[]}) (legacy_server_n G n k) (legacy_left G False)"
proof (induction k)
  case 0
  then show ?case by (auto intro: runs_skipS)
next
  case (Suc k)
  have "runs (legacy_base G False {[]}) (thenS (legacy_server_turn G n) (legacy_server_n G n k)) (legacy_left G False)"
    by (rule runs_thenS [OF legacy_server_turn_runs [OF assms] runs_pre [OF Suc.IH]]) auto
  then show ?case by (auto intro!: runs_bindS [OF legacy_steps(2)] runs_skipS intro: runs_pre)
qed

section \<open>Properties\<close>

text \<open>
  C12: the loops around the legacy transport. However many turns the client or the server made, and however connecting, handshakes and
  sessions ended: at most one descriptor is open, none between turns or after an error; every session numbered its records 1, 2, 3, ...
  and made them under its own key of its direction, its stream consists of whole records in that order and the written part of the one
  at the front of the queue, and its queue kept its limits; and no exception leaves the loop of the client, whose delays stay within the
  configured bounds (\<open>CutOff\<close> says that the look at the loop ended in the middle of a session).
\<close>

theorem legacy_loops:
  assumes "legacy_link_ok G"
    and "(if client then legacy_client_n G n k else legacy_server_n G n k) (start_legacy G st) = (s, r)"
  shows "length (lr_open s) \<le> (if r = Inl CutOff then 1 else 0) \<and>
    (\<forall>(keys, T) \<in> set (lr_sessions s). map fst (l_log T) = map (\<lambda>i. of_nat (Suc i)) [0..<length (l_log T)] \<and>
      (\<forall>(q, f, p, rec) \<in> set (l_log T). encode_record (gk_crypto G) (if client then client_tx keys else server_tx keys) q p f = Inr rec) \<and>
      (\<exists>xs ys. l_wire T = concat (map rec_of xs) @ take (l_offset T) (qd_data (hd (l_q T))) \<and> map qd_data (l_q T) = map rec_of ys \<and>
        subseq (xs @ ys) (l_log T)) \<and>
      length (l_q T) \<le> queue_packets (gk_cfg G) \<and> l_queued_bytes T = total (l_q T) \<and> l_queued_bytes T \<le> queue_bytes (gk_cfg G)) \<and>
    (client \<longrightarrow> (r = Inr () \<or> r = Inl CutOff) \<and> waits_ok (gk_cfg G) (lr_delay s) (lr_waits s))"
proof -
  have "legacy_left G client r s \<and> (client \<longrightarrow> r = Inr () \<or> r = Inl CutOff)"
    using assms(2) runsD [OF legacy_client_runs [OF assms(1)] legacy_start [OF assms(1)]]
      runsD [OF legacy_server_runs [OF assms(1)] legacy_start [OF assms(1)]] by (cases client) auto
  then have b: "legacy_base G client (if r = Inl CutOff then one_open else {[]}) s" "client \<longrightarrow> r = Inr () \<or> r = Inl CutOff"
    by (auto simp: legacy_left_def)
  have own: "\<forall>(keys, T) \<in> set (lr_sessions s). own_records G client keys T" using b(1) by (simp add: legacy_base_def)
  have "length (lr_open s) \<le> (if r = Inl CutOff then 1 else 0)" "waits_ok (gk_cfg G) (lr_delay s) (lr_waits s)"
    using b(1) by (auto simp: legacy_base_def one_open_def split: if_splits)
  with own b(2) show ?thesis unfolding own_records_def tls_stream_ok_def queue_ok_def by (fastforce split: prod.splits)
qed

text \<open>A client whose first attempt fails to connect; then it is stopped.\<close>

definition demo_legacy :: legacy_link where
  "demo_legacy = \<lparr>gk_cfg = default_config ('''', False, 0, 0, 0, 0), gk_crypto = demo_crypto, gk_text = (\<lambda>_. ''error''),
     gk_world = \<lparr>gw_stop = (\<lambda>k. k \<ge> 3), gw_clock = (\<lambda>_. 0), gw_accept = (\<lambda>_. AcceptNothing), gw_ssl_new = (\<lambda>_. None),
       gw_connect = (\<lambda>_. Inl ''refused''), gw_tls = (\<lambda>_. None), gw_keys = (\<lambda>_. Inl ''none''),
       gw_session = (\<lambda>_. ll_world tls_taking), gw_jitter = (\<lambda>_ _. 0)\<rparr>\<rparr>"

lemma demo_legacy_ok: "legacy_link_ok demo_legacy"
  using tls_taking_ok by (simp add: legacy_link_ok_def demo_legacy_def default_config_def tls_link_ok_def)

theorem legacy_loops_witness:
  "\<exists>s. legacy_client_n demo_legacy 1 2 (start_legacy demo_legacy new_stats) = (s, Inr ()) \<and> lr_waits s = [500] \<and> lr_open s = [] \<and>
    waits_ok (gk_cfg demo_legacy) (lr_delay s) (lr_waits s)"
proof -
  have "\<exists>s. legacy_client_n demo_legacy 1 2 (start_legacy demo_legacy new_stats) = (s, Inr ()) \<and> lr_waits s = [500]"
    by (simp add: numeral_2_eq_2 legacy_client_turn_def legacy_online_def legacy_retry_def seqS.simps bindS_def thenS_def catchS_def modS_def askG_def stopG_def
        eventG_def close_ssl_def throwS_def whenS_def skipS_def retS_def start_legacy_def demo_legacy_def default_config_def jittered_def Let_def)
  then obtain s where s: "legacy_client_n demo_legacy 1 2 (start_legacy demo_legacy new_stats) = (s, Inr ())" "lr_waits s = [500]" by blast
  show ?thesis using legacy_loops [OF demo_legacy_ok, where client = True] s by force
qed

end
