(* ===== verification/Control.thy ===== *)
theory Control
  imports Logging
begin

text \<open>
  The decisions of \<open>control_loop\<close> (\<open>src/cdn/src/runtime.cpp\<close>): who may ask for what on the control socket. The texts that are
  shown are not modelled, only which of them is.
\<close>

datatype view = ViewStatus | ViewOverview | ViewStats | ViewHealth | ViewEvents | ViewDiagnose

datatype answer = Shows view | Tells string

text \<open>\<open>g_force_disconnect\<close>, \<open>g_stop\<close>, \<open>g_state\<close> and \<open>g_phase\<close>.\<close>

record flags =
  fl_force :: bool
  fl_stop :: bool
  fl_state :: int
  fl_phase :: int

text \<open>The user of the peer, if the system knows it, and our own.\<close>

definition privileged :: "nat option \<Rightarrow> nat \<Rightarrow> bool" where
  "privileged peer own = (case peer of None \<Rightarrow> False | Some uid \<Rightarrow> uid = 0 \<or> uid = own)"

text \<open>A request is what one \<open>read\<close> gives, without its line ends.\<close>

definition request :: "string \<Rightarrow> string" where
  "request received = filter (\<lambda>c. c \<noteq> CHR 0x0A) (take 127 received)"

definition denied :: string where
  "denied = ''error permission denied'' @ newline"

definition control_step :: "bool \<Rightarrow> string \<Rightarrow> flags \<Rightarrow> flags \<times> answer" where
  "control_step allowed received s =
     (let cmd = request received in
      if cmd = ''status'' then (s, Shows ViewStatus)
      else if cmd = ''overview'' then (s, Shows ViewOverview)
      else if cmd = ''stats'' then (s, Shows ViewStats)
      else if cmd = ''health'' then (s, Shows ViewHealth)
      else if cmd = ''events'' then (s, Shows ViewEvents)
      else if cmd = ''diagnose'' then (s, Shows ViewDiagnose)
      else if cmd = ''reconnect'' then
        (if \<not> allowed then (s, Tells denied) else (s\<lparr>fl_force := True\<rparr>, Tells (''ok reconnect requested'' @ newline)))
      else if cmd = ''stop'' then
        (if \<not> allowed then (s, Tells denied) else (s\<lparr>fl_stop := True, fl_state := 5, fl_phase := 9\<rparr>, Tells (''ok stopping'' @ newline)))
      else (s, Tells (''error commands: overview status stats health events diagnose reconnect stop'' @ newline)))"

text \<open>
  Only root and the user of the process can change anything, and only by the two commands for it; a peer whose user is not known can
  not. What \<open>control_command\<close> sends, the command and a line end, is understood as the command.
\<close>

lemma control_changes:
  assumes "control_step (privileged peer own) received s = (s', a)" "s' \<noteq> s"
  shows "(\<exists>uid. peer = Some uid \<and> (uid = 0 \<or> uid = own)) \<and> request received \<in> {''reconnect'', ''stop''}"
  using assms by (auto simp: control_step_def privileged_def Let_def split: if_splits option.splits)

lemma request_of_command: "length cmd \<le> 126 \<Longrightarrow> CHR 0x0A \<notin> set cmd \<Longrightarrow> request (cmd @ newline) = cmd"
  by (auto simp: request_def newline_def filter_id_conv)

end
