(* ===== verification/Spec2Isabelle.thy ===== *)
theory Spec2Isabelle
  imports FlowQueue Pool Traffic Telemetry WsProps ConfigProps HandshakeProps Admission EndToEnd TlsProps PoolRun WsFlush ClientProps ServerProps Logging
    DialProps LegacyProps Program WsBlocking WsDial LegacyRunProps Control
begin

text \<open>
  A verification of Pacetun, a point-to-point IP tunnel over WebSocket (\<open>src/cdn\<close>, C++20).

  \<^bold>\<open>The program.\<close> A process owns a TUN device. A client and a server agree on session keys over an upgraded HTTP
  connection (\<open>websocket.cpp\<close>, \<open>record.cpp\<close>) and then run a loop (\<open>carrier_tunnel_loop\<close> of \<open>runtime.cpp\<close>): packets
  of the device are put into an order that is fair between flows (\<open>flow_scheduler.hpp\<close>), turned into authenticated records
  (\<open>record.cpp\<close>), padded within a budget (\<open>traffic.hpp\<close>), queued, batched into messages and sent over a carrier
  (\<open>carrier.cpp\<close>, \<open>websocket.cpp\<close>); messages of the peer are decoded and their packets written to the device; probes
  and timers watch the peer (\<open>telemetry.hpp\<close>). With several connections \<open>pool_tunnel_loop\<close> runs instead, which keeps
  each flow on one of them (\<open>pool.hpp\<close>); the legacy transport has its own \<open>tunnel_loop\<close> over a TLS stream. The server
  admits a bounded number of handshakes (\<open>admission.cpp\<close>). The configuration (\<open>config.cpp\<close>) and the inputs of the device
  (\<open>tun_linux.cpp\<close>) are checked first (\<open>main.cpp\<close>).

  \<^bold>\<open>Theories and sources.\<close>
  \<^item> \<open>Prelude\<close>: types of bytes and words, results with errors, shared lemmas. \<open>StateError\<close>: code that changes a state and
    may throw; the locales \<open>preserved\<close> and \<open>guarded\<close> carry relations and invariants through such code.
  \<^item> \<open>Crypto\<close>, \<open>Records\<close>, \<open>RecordStream\<close>, \<open>RecordCodecs\<close>, \<open>RecordProps\<close>: \<open>record.cpp\<close>. OpenSSL is the parameter
    \<open>crypto\<close>; \<open>aead_ok\<close> says that opening inverts sealing. The three wires share the locale of a record stream.
  \<^item> \<open>RoundRobin\<close>, \<open>Flow\<close>, \<open>QueueSpec\<close>, \<open>FlowQueue\<close>: \<open>flow_scheduler.hpp\<close>, with the contract of a queue as a locale.
  \<^item> \<open>Pool\<close>: \<open>pool.hpp\<close> and \<open>edge_selection.hpp\<close>. \<open>Traffic\<close>: \<open>traffic.hpp\<close>; floating-point rounding is a
    parameter. \<open>Telemetry\<close>: \<open>telemetry.hpp\<close>.
  \<^item> \<open>WsFrames\<close>, \<open>WsRead\<close>, \<open>WsStream\<close>, \<open>CarrierSpec\<close>, \<open>Carrier\<close>, \<open>WsProps\<close>, \<open>WireStream\<close>: the WebSocket session of
    \<open>websocket.cpp\<close> and the carrier on it, with the contract of a carrier as a locale.
  \<^item> \<open>Text\<close>, \<open>Config\<close>, \<open>ConfigProps\<close>: \<open>config.cpp\<close>, every key and every check in order.
  \<^item> \<open>Keys\<close>, \<open>Handshake\<close>, \<open>HttpUpgrade\<close>, \<open>HandshakeProps\<close>: the authenticated handshake of both sides.
  \<^item> \<open>Admission\<close>: \<open>admission.cpp\<close> as a step relation.
  \<^item> \<open>RuntimeBase\<close>, \<open>Tunnel\<close>, \<open>TunnelProps\<close>: \<open>carrier_tunnel_loop\<close> of \<open>runtime.cpp\<close>; clock, random numbers and system
    calls are the answers of a \<open>world\<close>, in the order in which the code asks. \<open>EndToEnd\<close> joins a sending session, the
    carrier, the receiving session and the decoder.
  \<^item> \<open>TlsTunnel\<close>, \<open>TlsProps\<close>: \<open>tunnel_loop\<close>, the legacy transport; an attempt to write or read with OpenSSL has one of a
    few outcomes.
  \<^item> \<open>PoolLoop\<close>, \<open>PoolLanes\<close>, \<open>PoolProps\<close>, \<open>PoolRun\<close>: \<open>pool_tunnel_loop\<close>. Code that serves a lane has that lane and the
    shared part as its state; \<open>PoolLanes\<close> has the invariant of a lane, \<open>PoolProps\<close> that of the pool, \<open>PoolRun\<close> the
    properties and a run.
  \<^item> \<open>Supervisor\<close>, \<open>SupervisorProps\<close>, \<open>SupervisorRun\<close>, \<open>ClientProps\<close>, \<open>ServerProps\<close>: the part of \<open>run\<close> that keeps one connection
    in use, on both sides: dials, retries, the candidate in the background and the change-over. \<open>ClientProps\<close> and \<open>ServerProps\<close> have
    the properties and a run each.
  \<^item> \<open>WsFlush\<close>: that flushing ends. \<open>Logging\<close>: the reports of failures (\<open>logging.hpp\<close>).
  \<^item> \<open>Dial\<close>, \<open>DialProps\<close>, \<open>DialTrace\<close>, \<open>WsDial\<close>: connecting, the TLS handshake, the uTLS side car and \<open>dial_websocket\<close> (\<open>runtime.cpp\<close>);
    the fuel counts the iterations of each loop, and \<open>dialling_ends\<close> says that enough fuel exists. A call of \<open>poll\<close> with a negative time may not return in
    the program, which the model does not follow; \<open>dialling_ends\<close> says when there is one. \<open>DialTrace\<close> has what the world must have
    answered for a step to succeed. \<open>LegacyHandshake\<close>, \<open>LegacyProps\<close>: the handshake of the
    legacy transport; what OpenSSL takes and gives is a script. \<open>LegacyRun\<close>, \<open>LegacyRunProps\<close>: the loops around its sessions.
  \<^item> \<open>WsBlocking\<close>: the reads and writes with a deadline around the frames (\<open>websocket.cpp\<close>).
  \<^item> \<open>TunDevice\<close>: the device (\<open>tun_linux.cpp\<close>) and the runs of \<open>ip\<close>. \<open>Program\<close>: the arguments (\<open>main.cpp\<close>).
    \<open>Control\<close>: who may do what on the control socket.

  \<^bold>\<open>Bounds and fuel.\<close> Loops recurse on what they consume (bytes, frames, queue entries), with proved termination; the loop of
  a session is unrolled for any number of turns, and its properties hold for every number. Integers that may wrap are words.

  \<^bold>\<open>Not modelled.\<close> Calls of the system or of OpenSSL in a row (listening sockets, socket options, TLS contexts), signal
  handling, texts for people (status, health, metrics, the printed configuration), the uTLS side car and the scripts around the program,
  which are other programs.
\<close>

end
